(* ===== verification/Prelude.thy ===== *)
theory Prelude
  imports Main "HOL-Library.Word" "HOL-Library.AList" "HOL-Library.Multiset"
begin

text \<open>
  Shared vocabulary of the development: Rust's machine integers and their saturating
  operations, durations and instants, strings as sequences of Unicode scalar values, and the
  facts on association lists and lists that the components use.

  Conventions. \<open>u8\<close>, \<open>u16\<close>, \<open>u32\<close>, \<open>u64\<close> are words: \<open>+\<close> and \<open>-\<close> on them wrap around, as
  the atomic \<open>fetch_add\<close> and \<open>fetch_sub\<close> do. A \<open>usize\<close> that only counts or measures is a
  \<open>nat\<close> kept below \<open>usize_max\<close> by the saturating operations the source uses. An
  \<open>Instant\<close> and a \<open>Duration\<close> are \<open>nat\<close> nanoseconds; \<open>Instant::elapsed\<close> never goes
  below zero, which is \<open>nat\<close> subtraction.
\<close>

section \<open>Machine integers\<close>

type_synonym u8 = "8 word"
type_synonym u16 = "16 word"
type_synonym u32 = "32 word"
type_synonym u64 = "64 word"

definition sat_add :: "'a::len word \<Rightarrow> 'a word \<Rightarrow> 'a word" where
  "sat_add a b = (if unat a + unat b < 2 ^ LENGTH('a) then a + b else - 1)"

definition sat_sub :: "'a::len word \<Rightarrow> 'a word \<Rightarrow> 'a word" where
  "sat_sub a b = (if b \<le> a then a - b else 0)"

definition sat_mul :: "'a::len word \<Rightarrow> 'a word \<Rightarrow> 'a word" where
  "sat_mul a b = (if unat a * unat b < 2 ^ LENGTH('a) then a * b else - 1)"

definition usize_max :: nat where
  "usize_max = 2 ^ 64 - 1"

text \<open>\<open>usize::saturating_add\<close> on the \<open>nat\<close> rendering of \<open>usize\<close>.\<close>

definition usize_add :: "nat \<Rightarrow> nat \<Rightarrow> nat" where
  "usize_add a b = min (a + b) usize_max"

named_theorems sat_simps \<open>saturating arithmetic read as numbers\<close>

lemma unat_bound: "unat (w :: 'a::len word) < 2 ^ LENGTH('a)"
  by (rule unsigned_less)

lemma unat_minus_1: "unat (- 1 :: 'a::len word) = 2 ^ LENGTH('a) - 1"
  by (simp add: unsigned_minus_1_eq_mask mask_eq_exp_minus_1)

lemma unat_sat_add [sat_simps]:
  "unat (sat_add a (b :: 'a::len word)) = min (unat a + unat b) (2 ^ LENGTH('a) - 1)"
proof (cases "unat a + unat b < 2 ^ LENGTH('a)")
  case True
  then show ?thesis by (simp add: sat_add_def unat_word_ariths)
next
  case False
  then show ?thesis by (simp add: sat_add_def unat_minus_1)
qed

lemma unat_sat_sub [sat_simps]: "unat (sat_sub a b) = unat a - unat b"
  by (auto simp: sat_sub_def word_le_nat_alt unat_sub)

lemma unat_sat_mul [sat_simps]:
  "unat (sat_mul a (b :: 'a::len word)) = min (unat a * unat b) (2 ^ LENGTH('a) - 1)"
proof (cases "unat a * unat b < 2 ^ LENGTH('a)")
  case True
  then show ?thesis by (simp add: sat_mul_def unat_word_ariths)
next
  case False
  then show ?thesis by (simp add: sat_mul_def unat_minus_1)
qed

lemma sat_add_mono: "a \<le> sat_add a (b :: 'a::len word)"
proof -
  have "unat a < 2 ^ LENGTH('a)" by (rule unat_bound)
  then have "unat a \<le> 2 ^ LENGTH('a) - 1" by linarith
  then show ?thesis by (simp add: word_le_nat_alt unat_sat_add)
qed

lemma usize_add_le [simp]: "usize_add a b \<le> usize_max"
  by (simp add: usize_add_def)

lemma usize_add_ge: "a \<le> usize_max \<Longrightarrow> a \<le> usize_add a b"
  by (simp add: usize_add_def)

lemma usize_add_eq: "a + b \<le> usize_max \<Longrightarrow> usize_add a b = a + b"
  by (simp add: usize_add_def)

lemma usize_add_mono: "a \<le> a' \<Longrightarrow> b \<le> b' \<Longrightarrow> usize_add a b \<le> usize_add a' b'"
  by (auto simp: usize_add_def min_def)

lemma usize_add_pos: "0 < a \<Longrightarrow> 0 < usize_add a b"
  by (simp add: usize_add_def usize_max_def)

lemma unat_plus_one:
  "a \<noteq> - 1 \<Longrightarrow> unat (a + 1) = Suc (unat (a :: 'a::len word))"
  by (metis Suc_eq_plus1 add.commute add_eq_0_iff unat_eq_zero unatSuc)

section \<open>Time\<close>

type_synonym duration = nat
type_synonym instant = nat

definition nanos_per_sec :: nat where
  "nanos_per_sec = 1000000000"

definition nanos_per_milli :: nat where
  "nanos_per_milli = 1000000"

definition from_secs :: "nat \<Rightarrow> duration" where
  "from_secs s = s * nanos_per_sec"

definition from_millis :: "nat \<Rightarrow> duration" where
  "from_millis m = m * nanos_per_milli"

text \<open>The largest \<open>Duration\<close>: \<open>u64::MAX\<close> seconds and 999999999 nanoseconds.\<close>

definition duration_max :: duration where
  "duration_max = 2 ^ 64 * nanos_per_sec - 1"

definition elapsed :: "instant \<Rightarrow> instant \<Rightarrow> duration" where
  "elapsed now t = now - t"

text \<open>\<open>Duration + Duration\<close> panics on overflow: \<open>None\<close> is the panic.\<close>

definition dur_add :: "duration \<Rightarrow> duration \<Rightarrow> duration option" where
  "dur_add a b = (if a + b \<le> duration_max then Some (a + b) else None)"

definition dur_sat_add :: "duration \<Rightarrow> duration \<Rightarrow> duration" where
  "dur_sat_add a b = min (a + b) duration_max"

definition as_millis :: "duration \<Rightarrow> nat" where
  "as_millis d = d div nanos_per_milli"

text \<open>\<open>d.as_millis() as u64\<close>: the cast keeps the low 64 bits.\<close>

definition as_millis_u64 :: "duration \<Rightarrow> u64" where
  "as_millis_u64 d = of_nat (as_millis d)"

lemma elapsed_mono: "now \<le> now' \<Longrightarrow> elapsed now t \<le> elapsed now' t"
  by (simp add: elapsed_def)

lemma elapsed_self [simp]: "elapsed t t = 0"
  by (simp add: elapsed_def)

section \<open>Strings\<close>

text \<open>
  A Rust string is the list of its Unicode scalar values, which is what \<open>chars()\<close> yields;
  \<open>len()\<close> is the length of its UTF-8 encoding. \<open>lit\<close> turns an ASCII literal into such a list.
\<close>

type_synonym rchar = nat
type_synonym rstr = "rchar list"

definition lit :: "string \<Rightarrow> rstr" where
  "lit s = map of_char s"

definition utf8_len :: "rchar \<Rightarrow> nat" where
  "utf8_len c = (if c < 128 then 1 else if c < 2048 then 2 else if c < 65536 then 3 else 4)"

definition utf8_char :: "rchar \<Rightarrow> u8 list" where
  "utf8_char c =
     (if c < 128 then [of_nat c]
      else if c < 2048 then [of_nat (192 + c div 64), of_nat (128 + c mod 64)]
      else if c < 65536 then
        [of_nat (224 + c div 4096), of_nat (128 + c div 64 mod 64), of_nat (128 + c mod 64)]
      else [of_nat (240 + c div 262144), of_nat (128 + c div 4096 mod 64),
            of_nat (128 + c div 64 mod 64), of_nat (128 + c mod 64)])"

definition as_bytes :: "rstr \<Rightarrow> u8 list" where
  "as_bytes s = concat (map utf8_char s)"

definition str_len :: "rstr \<Rightarrow> nat" where
  "str_len s = sum_list (map utf8_len s)"

lemma length_utf8_char [simp]: "length (utf8_char c) = utf8_len c"
  by (simp add: utf8_char_def utf8_len_def)

lemma length_as_bytes: "length (as_bytes s) = str_len s"
  by (simp add: as_bytes_def str_len_def length_concat comp_def)

lemma utf8_len_pos [simp]: "0 < utf8_len c"
  by (simp add: utf8_len_def)

lemma str_len_Nil [simp]: "str_len [] = 0"
  by (simp add: str_len_def)

lemma str_len_append [simp]: "str_len (s @ t) = str_len s + str_len t"
  by (simp add: str_len_def)

lemma str_len_ge_length: "length s \<le> str_len s"
proof (induction s)
  case (Cons c s)
  have "1 \<le> utf8_len c" using utf8_len_pos [of c] by linarith
  with Cons show ?case by (simp add: str_len_def)
qed simp

text \<open>\<open>str::contains\<close> and the decimal text of a number.\<close>

fun str_contains :: "rstr \<Rightarrow> rstr \<Rightarrow> bool" where
  "str_contains [] n \<longleftrightarrow> n = []"
| "str_contains (c # s) n \<longleftrightarrow> take (length n) (c # s) = n \<or> str_contains s n"

lemma str_contains_iff: "str_contains s n \<longleftrightarrow> (\<exists>a b. s = a @ n @ b)"
proof (induction s)
  case (Cons c s)
  have "take (length n) (c # s) = n \<longleftrightarrow> (\<exists>b. c # s = n @ b)"
    by (metis append_eq_conv_conj append_take_drop_id)
  moreover have "(\<exists>a b. c # s = a @ n @ b) \<longleftrightarrow> (\<exists>b. c # s = n @ b) \<or> (\<exists>a b. s = a @ n @ b)"
    by (metis append_Cons append_Nil neq_Nil_conv list.inject)
  ultimately show ?case using Cons by simp
qed auto

fun nat_to_dec_aux :: "nat \<Rightarrow> nat \<Rightarrow> rstr" where
  "nat_to_dec_aux 0 n = []"
| "nat_to_dec_aux (Suc fuel) n =
     (if n < 10 then [48 + n] else nat_to_dec_aux fuel (n div 10) @ [48 + n mod 10])"

definition nat_to_dec :: "nat \<Rightarrow> rstr" where
  "nat_to_dec n = nat_to_dec_aux (Suc n) n"

text \<open>\<open>char::is_whitespace\<close>: the \<open>White_Space\<close> property, a fixed finite set.\<close>

definition is_whitespace :: "rchar \<Rightarrow> bool" where
  "is_whitespace c \<longleftrightarrow>
     (9 \<le> c \<and> c \<le> 13) \<or> c = 32 \<or> c = 133 \<or> c = 160 \<or> c = 5760 \<or> (8192 \<le> c \<and> c \<le> 8202)
     \<or> c = 8232 \<or> c = 8233 \<or> c = 8239 \<or> c = 8287 \<or> c = 12288"

text \<open>\<open>char::is_control\<close>: the general category \<open>Cc\<close>.\<close>

definition is_control :: "rchar \<Rightarrow> bool" where
  "is_control c \<longleftrightarrow> c < 32 \<or> (127 \<le> c \<and> c \<le> 159)"

definition is_ascii_digit :: "rchar \<Rightarrow> bool" where
  "is_ascii_digit c \<longleftrightarrow> 48 \<le> c \<and> c \<le> 57"

definition is_ascii_upper :: "rchar \<Rightarrow> bool" where
  "is_ascii_upper c \<longleftrightarrow> 65 \<le> c \<and> c \<le> 90"

definition is_ascii_lower :: "rchar \<Rightarrow> bool" where
  "is_ascii_lower c \<longleftrightarrow> 97 \<le> c \<and> c \<le> 122"

definition is_ascii_alphanumeric :: "rchar \<Rightarrow> bool" where
  "is_ascii_alphanumeric c \<longleftrightarrow> is_ascii_digit c \<or> is_ascii_upper c \<or> is_ascii_lower c"

definition to_ascii_lowercase :: "rchar \<Rightarrow> rchar" where
  "to_ascii_lowercase c = (if is_ascii_upper c then c + 32 else c)"

definition trim_start :: "rstr \<Rightarrow> rstr" where
  "trim_start s = dropWhile is_whitespace s"

definition trim_end :: "rstr \<Rightarrow> rstr" where
  "trim_end s = rev (dropWhile is_whitespace (rev s))"

definition trim :: "rstr \<Rightarrow> rstr" where
  "trim s = trim_end (trim_start s)"

lemma trim_end_eq_Nil: "trim_end s = [] \<longleftrightarrow> (\<forall>c \<in> set s. is_whitespace c)"
  by (simp add: trim_end_def)

lemma trim_eq_Nil: "trim s = [] \<longleftrightarrow> (\<forall>c \<in> set s. is_whitespace c)"
proof
  assume "trim s = []"
  then have "\<forall>c \<in> set (dropWhile is_whitespace s). is_whitespace c"
    by (simp add: trim_def trim_start_def trim_end_eq_Nil)
  then have "dropWhile is_whitespace s = []"
    by (metis hd_dropWhile hd_in_set)
  then show "\<forall>c \<in> set s. is_whitespace c" by simp
next
  assume "\<forall>c \<in> set s. is_whitespace c"
  then have "dropWhile is_whitespace s = []" by simp
  then show "trim s = []" by (simp only: trim_def trim_start_def trim_end_def) simp
qed

section \<open>Lists and association lists\<close>

lemma fold_replicate_funpow: "fold f (replicate n x) s = (f x ^^ n) s"
  by (induction n arbitrary: s) (simp_all add: funpow_swap1)

definition sum_by :: "('v \<Rightarrow> nat) \<Rightarrow> ('k \<times> 'v) list \<Rightarrow> nat" where
  "sum_by f xs = sum_list (map (f \<circ> snd) xs)"

lemma sum_by_Nil [simp]: "sum_by f [] = 0"
  by (simp add: sum_by_def)

lemma sum_by_Cons [simp]: "sum_by f (kv # xs) = f (snd kv) + sum_by f xs"
  by (simp add: sum_by_def)

lemma delete_id: "k \<notin> fst ` set xs \<Longrightarrow> AList.delete k xs = xs"
  by (induction xs) auto

lemma sum_by_update_None:
  "map_of xs k = None \<Longrightarrow> sum_by f (AList.update k v xs) = sum_by f xs + f v"
  by (induction xs) (auto split: if_splits)

lemma sum_by_update_Some:
  "map_of xs k = Some w \<Longrightarrow> sum_by f (AList.update k v xs) + f w = sum_by f xs + f v"
  by (induction xs) (auto split: if_splits)

lemma sum_by_delete:
  "distinct (map fst xs) \<Longrightarrow> map_of xs k = Some w \<Longrightarrow>
   sum_by f (AList.delete k xs) + f w = sum_by f xs"
proof (induction xs)
  case (Cons kv xs)
  then show ?case
    by (cases "fst kv = k") (auto simp: delete_id split: if_splits)
qed simp

lemma map_of_delete_None: "map_of xs k = None \<Longrightarrow> AList.delete k xs = xs"
  by (simp add: delete_id map_of_eq_None_iff)

lemma dom_map_of_update: "dom (map_of (AList.update k v xs)) = insert k (dom (map_of xs))"
  by (simp add: update_conv')

lemma length_update:
  "length (AList.update k v xs) = (if k \<in> fst ` set xs then length xs else Suc (length xs))"
  by (induction xs) auto

lemma length_delete_Some:
  "distinct (map fst xs) \<Longrightarrow> map_of xs k = Some w \<Longrightarrow>
   Suc (length (AList.delete k xs)) = length xs"
proof (induction xs)
  case (Cons kv xs)
  then show ?case by (cases "fst kv = k") (auto simp: delete_id split: if_splits)
qed simp

lemma length_le_card_keys:
  assumes "distinct (map fst xs)" and "dom (map_of xs) \<subseteq> A" and "finite A"
  shows "length xs \<le> card A"
proof -
  have "length xs = card (set (map fst xs))"
    using assms(1) by (metis distinct_card length_map)
  also have "set (map fst xs) = dom (map_of xs)"
    by (simp add: dom_map_of_conv_image_fst)
  finally show ?thesis using assms(2,3) by (simp add: card_mono)
qed

lemma length_le_keys_list:
  assumes "distinct (map fst xs)" and "dom (map_of xs) \<subseteq> set ks"
  shows "length xs \<le> length ks"
  using length_le_card_keys [OF assms] card_length [of ks] by simp

lemma mset_eq_map_of_eq:
  assumes "mset xs = mset ys" and "distinct (map fst xs)"
  shows "map_of xs = map_of ys"
proof -
  have "distinct (map fst ys)"
    using assms by (metis mset_eq_imp_distinct_iff mset_map)
  then show ?thesis
    using assms by (metis map_of_inject_set mset_eq_setD)
qed

end
