(* ===== verification/Circuit.thy ===== *)
theory Circuit
  imports Prelude
begin

text \<open>
  The circuit breaker of \<open>src/src/proxy/circuit.rs\<close>: its state as a record with the widths of
  the source's atomics, every operation as a function of the clock reading and the state, the
  contract a client of a breaker relies on as the locale \<open>outcome_gate\<close>, and the refinement of
  the counters and flags by a three-constructor abstract machine. Operations are atomic with
  respect to each other, so every \<open>compare_exchange\<close> sees the value just loaded.
\<close>

section \<open>State\<close>

datatype circuit_state = Closed | Open | HalfOpen

definition circuit_from_u8 :: "u8 \<Rightarrow> circuit_state" where
  "circuit_from_u8 v = (if v = 0 then Closed else if v = 1 then Open
                        else if v = 2 then HalfOpen else Closed)"

fun circuit_to_u8 :: "circuit_state \<Rightarrow> u8" where
  "circuit_to_u8 Closed = 0"
| "circuit_to_u8 Open = 1"
| "circuit_to_u8 HalfOpen = 2"

record circuit_config =
  failure_threshold :: u32
  success_threshold :: u32
  open_duration :: duration
  failure_window :: duration

definition circuit_config_default :: circuit_config where
  "circuit_config_default = \<lparr>failure_threshold = 5, success_threshold = 2,
     open_duration = from_secs 30, failure_window = from_secs 60\<rparr>"

record circuit_breaker =
  cb_config :: circuit_config
  cb_state :: u8
  cb_failure_count :: u32
  cb_half_open_successes :: u32
  cb_opened_at :: "instant option"
  cb_window_start :: instant
  cb_times_opened :: u64
  cb_times_tripped :: u64

section \<open>Operations\<close>

definition circuit_new :: "instant \<Rightarrow> circuit_config \<Rightarrow> circuit_breaker" where
  "circuit_new now cfg =
     \<lparr>cb_config = cfg, cb_state = circuit_to_u8 Closed, cb_failure_count = 0,
      cb_half_open_successes = 0, cb_opened_at = None, cb_window_start = now,
      cb_times_opened = 0, cb_times_tripped = 0\<rparr>"

definition circuit_default_config :: "instant \<Rightarrow> circuit_breaker" where
  "circuit_default_config now = circuit_new now circuit_config_default"

definition circuit_open :: "instant \<Rightarrow> circuit_breaker \<Rightarrow> circuit_breaker" where
  "circuit_open now cb =
     (if cb_state cb \<noteq> circuit_to_u8 Open
      then cb\<lparr>cb_state := circuit_to_u8 Open, cb_opened_at := Some now,
              cb_times_opened := cb_times_opened cb + 1, cb_half_open_successes := 0\<rparr>
      else cb)"

definition circuit_close :: "instant \<Rightarrow> circuit_breaker \<Rightarrow> circuit_breaker" where
  "circuit_close now cb =
     cb\<lparr>cb_state := circuit_to_u8 Closed, cb_opened_at := None, cb_failure_count := 0,
        cb_half_open_successes := 0, cb_window_start := now\<rparr>"

definition circuit_half_open :: "circuit_breaker \<Rightarrow> circuit_breaker" where
  "circuit_half_open cb =
     (if cb_state cb = circuit_to_u8 Open
      then cb\<lparr>cb_state := circuit_to_u8 HalfOpen, cb_half_open_successes := 0\<rparr>
      else cb)"

definition circuit_maybe_transition :: "instant \<Rightarrow> circuit_breaker \<Rightarrow> circuit_breaker" where
  "circuit_maybe_transition now cb =
     (if circuit_from_u8 (cb_state cb) = Open
      then (case cb_opened_at cb of
              Some opened \<Rightarrow>
                if elapsed now opened \<ge> open_duration (cb_config cb)
                then circuit_half_open cb else cb
            | None \<Rightarrow> cb)
      else cb)"

definition circuit_maybe_reset_window :: "instant \<Rightarrow> circuit_breaker \<Rightarrow> circuit_breaker" where
  "circuit_maybe_reset_window now cb =
     (if elapsed now (cb_window_start cb) \<ge> failure_window (cb_config cb)
      then cb\<lparr>cb_window_start := now, cb_failure_count := 0\<rparr>
      else cb)"

definition circuit_state_of :: "instant \<Rightarrow> circuit_breaker \<Rightarrow> circuit_state \<times> circuit_breaker" where
  "circuit_state_of now cb =
     (let cb' = circuit_maybe_transition now cb in (circuit_from_u8 (cb_state cb'), cb'))"

definition circuit_allow_request :: "instant \<Rightarrow> circuit_breaker \<Rightarrow> bool \<times> circuit_breaker" where
  "circuit_allow_request now cb =
     (let cb' = circuit_maybe_transition now cb in
      case circuit_from_u8 (cb_state cb') of
        Closed \<Rightarrow> (True, cb')
      | Open \<Rightarrow> (False, cb'\<lparr>cb_times_tripped := cb_times_tripped cb' + 1\<rparr>)
      | HalfOpen \<Rightarrow> (True, cb'))"

definition circuit_record_success :: "instant \<Rightarrow> circuit_breaker \<Rightarrow> circuit_breaker" where
  "circuit_record_success now cb =
     (case circuit_from_u8 (cb_state cb) of
        Closed \<Rightarrow> cb\<lparr>cb_failure_count := 0\<rparr>
      | HalfOpen \<Rightarrow>
          (let prev = cb_half_open_successes cb;
               cb' = cb\<lparr>cb_half_open_successes := prev + 1\<rparr>;
               successes = sat_add prev 1
           in if successes \<ge> success_threshold (cb_config cb') then circuit_close now cb' else cb')
      | Open \<Rightarrow> cb)"

definition circuit_record_failure :: "instant \<Rightarrow> circuit_breaker \<Rightarrow> circuit_breaker" where
  "circuit_record_failure now cb =
     (case circuit_from_u8 (cb_state cb) of
        Closed \<Rightarrow>
          (let cb1 = circuit_maybe_reset_window now cb;
               prev = cb_failure_count cb1;
               cb2 = cb1\<lparr>cb_failure_count := prev + 1\<rparr>;
               failures = sat_add prev 1
           in if failures \<ge> failure_threshold (cb_config cb2) then circuit_open now cb2 else cb2)
      | HalfOpen \<Rightarrow> circuit_open now cb
      | Open \<Rightarrow> cb)"

definition circuit_trip :: "instant \<Rightarrow> circuit_breaker \<Rightarrow> circuit_breaker" where
  "circuit_trip now cb = circuit_open now cb"

definition circuit_reset :: "instant \<Rightarrow> circuit_breaker \<Rightarrow> circuit_breaker" where
  "circuit_reset now cb = circuit_close now cb"

definition circuit_set_config :: "circuit_config \<Rightarrow> circuit_breaker \<Rightarrow> circuit_breaker" where
  "circuit_set_config cfg cb = cb\<lparr>cb_config := cfg\<rparr>"

definition circuit_time_until_half_open :: "instant \<Rightarrow> circuit_breaker \<Rightarrow> duration option" where
  "circuit_time_until_half_open now cb =
     (if circuit_from_u8 (cb_state cb) \<noteq> Open then None
      else case cb_opened_at cb of
             Some opened \<Rightarrow>
               if elapsed now opened < open_duration (cb_config cb)
               then Some (open_duration (cb_config cb) - elapsed now opened)
               else Some 0
           | None \<Rightarrow> Some 0)"

datatype ('t, 'e) circuit_result = Success 't | Failure 'e | CircuitOpen

fun circuit_result_is_success :: "('t, 'e) circuit_result \<Rightarrow> bool" where
  "circuit_result_is_success (Success _) = True"
| "circuit_result_is_success _ = False"

fun circuit_result_is_circuit_open :: "('t, 'e) circuit_result \<Rightarrow> bool" where
  "circuit_result_is_circuit_open CircuitOpen = True"
| "circuit_result_is_circuit_open _ = False"

fun circuit_result_ok :: "('t, 'e) circuit_result \<Rightarrow> ('e + 't) option" where
  "circuit_result_ok (Success v) = Some (Inr v)"
| "circuit_result_ok (Failure e) = Some (Inl e)"
| "circuit_result_ok CircuitOpen = None"

lemmas circuit_defs =
  circuit_open_def circuit_close_def circuit_half_open_def circuit_maybe_transition_def
  circuit_maybe_reset_window_def circuit_record_success_def circuit_record_failure_def
  circuit_allow_request_def circuit_trip_def circuit_reset_def circuit_set_config_def
  circuit_state_of_def circuit_from_u8_def Let_def

lemma circuit_u8_roundtrip [simp]: "circuit_from_u8 (circuit_to_u8 s) = s"
  by (cases s) (simp_all add: circuit_from_u8_def)

section \<open>Invariant\<close>

text \<open>
  The state byte is one of the three codes; the opening time is recorded exactly when the
  circuit is not closed; half-open successes are counted in the half-open state only.
\<close>

definition circuit_inv :: "circuit_breaker \<Rightarrow> bool" where
  "circuit_inv cb \<longleftrightarrow>
     cb_state cb \<in> {0, 1, 2}
     \<and> (cb_state cb = 0 \<longleftrightarrow> cb_opened_at cb = None)
     \<and> (cb_state cb \<noteq> 2 \<longrightarrow> cb_half_open_successes cb = 0)"

lemma circuit_inv_new: "circuit_inv (circuit_new now cfg)"
  by (simp add: circuit_inv_def circuit_new_def)

lemma circuit_inv_open: "circuit_inv cb \<Longrightarrow> circuit_inv (circuit_open now cb)"
  by (auto simp: circuit_inv_def circuit_open_def)

lemma circuit_inv_close: "circuit_inv (circuit_close now cb)"
  by (auto simp: circuit_inv_def circuit_close_def)

lemma circuit_inv_maybe_transition:
  "circuit_inv cb \<Longrightarrow> circuit_inv (circuit_maybe_transition now cb)"
  by (auto simp: circuit_inv_def circuit_maybe_transition_def circuit_half_open_def
      split: option.split)

lemma circuit_inv_allow_request:
  "circuit_inv cb \<Longrightarrow> circuit_inv (snd (circuit_allow_request now cb))"
  using circuit_inv_maybe_transition [of cb now]
  by (simp add: circuit_allow_request_def Let_def circuit_inv_def split: circuit_state.split) blast

lemma circuit_inv_record_success:
  "circuit_inv cb \<Longrightarrow> circuit_inv (circuit_record_success now cb)"
  by (auto simp: circuit_inv_def circuit_record_success_def circuit_from_u8_def
      circuit_close_def Let_def)

lemma circuit_inv_record_failure:
  "circuit_inv cb \<Longrightarrow> circuit_inv (circuit_record_failure now cb)"
  by (auto simp: circuit_inv_def circuit_record_failure_def circuit_from_u8_def
      circuit_maybe_reset_window_def circuit_open_def Let_def)

lemma circuit_inv_set_config: "circuit_inv cb \<Longrightarrow> circuit_inv (circuit_set_config cfg cb)"
  by (auto simp: circuit_inv_def circuit_set_config_def)

section \<open>Sequences of operations\<close>

datatype circuit_event = EvAllow | EvSuccess | EvFailure | EvTrip | EvReset | EvConfig circuit_config

fun circuit_exec :: "instant \<Rightarrow> circuit_event \<Rightarrow> circuit_breaker \<Rightarrow> circuit_breaker" where
  "circuit_exec now EvAllow cb = snd (circuit_allow_request now cb)"
| "circuit_exec now EvSuccess cb = circuit_record_success now cb"
| "circuit_exec now EvFailure cb = circuit_record_failure now cb"
| "circuit_exec now EvTrip cb = circuit_trip now cb"
| "circuit_exec now EvReset cb = circuit_reset now cb"
| "circuit_exec now (EvConfig cfg) cb = circuit_set_config cfg cb"

inductive circuit_reachable :: "circuit_breaker \<Rightarrow> bool" where
  circuit_start: "circuit_reachable (circuit_new now cfg)"
| circuit_step: "circuit_reachable cb \<Longrightarrow> circuit_reachable (circuit_exec now ev cb)"

lemma circuit_inv_exec: "circuit_inv cb \<Longrightarrow> circuit_inv (circuit_exec now ev cb)"
  by (cases ev) (simp_all add: circuit_inv_allow_request circuit_inv_record_success
      circuit_inv_record_failure circuit_trip_def circuit_inv_open circuit_reset_def
      circuit_inv_close circuit_inv_set_config)

lemma circuit_reachable_inv: "circuit_reachable cb \<Longrightarrow> circuit_inv cb"
  by (induction rule: circuit_reachable.induct) (simp_all add: circuit_inv_new circuit_inv_exec)

section \<open>The contract of a gate fed with outcomes\<close>

text \<open>
  What a caller of a breaker relies on: outcomes are reported with \<open>ok\<close> and \<open>bad\<close>, a
  \<open>rejecting\<close> gate lets no request pass. Successes alone never make it reject, failures alone
  never make it accept, and enough failures make it reject.
\<close>

fun run_outcomes :: "('s \<Rightarrow> 's) \<Rightarrow> ('s \<Rightarrow> 's) \<Rightarrow> bool list \<Rightarrow> 's \<Rightarrow> 's" where
  "run_outcomes ok bad [] s = s"
| "run_outcomes ok bad (r # rs) s = run_outcomes ok bad rs (if r then ok s else bad s)"

lemma run_outcomes_append:
  "run_outcomes ok bad (rs @ qs) s = run_outcomes ok bad qs (run_outcomes ok bad rs s)"
  by (induction rs arbitrary: s) auto

locale outcome_gate =
  fixes ok :: "'s \<Rightarrow> 's" and bad :: "'s \<Rightarrow> 's"
    and rejecting :: "'s \<Rightarrow> bool" and inv :: "'s \<Rightarrow> bool"
  assumes inv_ok: "inv s \<Longrightarrow> inv (ok s)"
    and inv_bad: "inv s \<Longrightarrow> inv (bad s)"
    and ok_accepts: "inv s \<Longrightarrow> \<not> rejecting s \<Longrightarrow> \<not> rejecting (ok s)"
    and bad_rejects: "inv s \<Longrightarrow> rejecting s \<Longrightarrow> rejecting (bad s)"
    and bad_trips: "inv s \<Longrightarrow> \<exists>n. rejecting ((bad ^^ n) s)"
begin

lemma run_inv: "inv s \<Longrightarrow> inv (run_outcomes ok bad rs s)"
  by (induction rs arbitrary: s) (auto simp: inv_ok inv_bad)

lemma rejecting_needs_bad:
  "inv s \<Longrightarrow> \<not> rejecting s \<Longrightarrow> rejecting (run_outcomes ok bad rs s) \<Longrightarrow> False \<in> set rs"
proof (induction rs arbitrary: s)
  case (Cons r rs)
  then show ?case using Cons.IH [of "ok s"] by (cases r) (auto simp: inv_ok ok_accepts)
qed simp

lemma bad_run_rejecting:
  "inv s \<Longrightarrow> rejecting s \<Longrightarrow> rejecting (run_outcomes ok bad (replicate n False) s)"
  by (induction n arbitrary: s) (auto simp: inv_bad bad_rejects)

lemma run_bad_funpow: "run_outcomes ok bad (replicate n False) s = (bad ^^ n) s"
  by (induction n arbitrary: s) (simp_all add: funpow_swap1)

lemma failures_trip_for_good:
  assumes "inv s"
  shows "\<exists>N. \<forall>n \<ge> N. rejecting (run_outcomes ok bad (replicate n False) s)"
proof -
  obtain N where N: "rejecting (run_outcomes ok bad (replicate N False) s)"
    using bad_trips [OF assms] by (auto simp: run_bad_funpow)
  have "rejecting (run_outcomes ok bad (replicate (N + m) False) s)" for m
    using bad_run_rejecting [OF run_inv [OF assms] N]
    by (simp add: replicate_add run_outcomes_append)
  then show ?thesis by (metis le_Suc_ex)
qed

end

section \<open>Behaviour of the breaker\<close>

lemma circuit_failure_keeps_config [simp]:
  "cb_config (circuit_record_failure now cb) = cb_config cb"
  by (simp add: circuit_defs split: circuit_state.split)

lemma circuit_success_keeps_config [simp]:
  "cb_config (circuit_record_success now cb) = cb_config cb"
  by (simp add: circuit_defs split: circuit_state.split)

lemma circuit_failure_when_open: "cb_state cb = 1 \<Longrightarrow> circuit_record_failure now cb = cb"
  by (simp add: circuit_record_failure_def circuit_from_u8_def)

lemma circuit_failures_when_open: "cb_state cb = 1 \<Longrightarrow> fold circuit_record_failure ts cb = cb"
  by (induction ts) (simp_all add: circuit_failure_when_open)

lemma circuit_success_when_closed:
  "cb_state cb = 0 \<Longrightarrow> cb_state (circuit_record_success now cb) = 0"
  by (simp add: circuit_record_success_def circuit_from_u8_def)

lemma circuit_failure_in_window:
  assumes "cb_state cb = 0"
    and "elapsed t (cb_window_start cb) < failure_window (cb_config cb)"
    and "unat (cb_failure_count cb) < max 1 (unat (failure_threshold (cb_config cb)))"
  shows "circuit_record_failure t cb =
    (let cb' = cb\<lparr>cb_failure_count := cb_failure_count cb + 1\<rparr>
     in if Suc (unat (cb_failure_count cb)) \<ge> unat (failure_threshold (cb_config cb))
        then circuit_open t cb' else cb')"
    and "unat (cb_failure_count cb + 1) = Suc (unat (cb_failure_count cb))"
proof -
  have "unat (failure_threshold (cb_config cb)) < 2 ^ 32"
    using unat_bound [of "failure_threshold (cb_config cb)"] by simp
  with assms(3) have small: "Suc (unat (cb_failure_count cb)) < 2 ^ 32" by auto
  then have c1: "cb_failure_count cb \<noteq> - 1"
    by (auto simp: unat_minus_1)
  show "unat (cb_failure_count cb + 1) = Suc (unat (cb_failure_count cb))"
    by (rule unat_plus_one [OF c1])
  have "unat (sat_add (cb_failure_count cb) 1) = Suc (unat (cb_failure_count cb))"
    using small by (simp add: sat_simps)
  then show "circuit_record_failure t cb =
    (let cb' = cb\<lparr>cb_failure_count := cb_failure_count cb + 1\<rparr>
     in if Suc (unat (cb_failure_count cb)) \<ge> unat (failure_threshold (cb_config cb))
        then circuit_open t cb' else cb')"
    using assms(1,2)
    by (simp add: circuit_record_failure_def circuit_from_u8_def circuit_maybe_reset_window_def
        Let_def word_le_nat_alt)
qed

lemma circuit_open_state [simp]: "cb_state (circuit_open now cb) = 1"
  by (simp add: circuit_open_def)

lemma circuit_failures_in_window:
  assumes "cb_state cb = 0"
    and "unat (cb_failure_count cb) < max 1 (unat (failure_threshold (cb_config cb)))"
    and "\<forall>t \<in> set ts. elapsed t (cb_window_start cb) < failure_window (cb_config cb)"
  shows "cb_state (fold circuit_record_failure ts cb) =
    (if ts \<noteq> [] \<and> unat (cb_failure_count cb) + length ts
          \<ge> unat (failure_threshold (cb_config cb)) then 1 else 0)"
  using assms
proof (induction ts arbitrary: cb)
  case (Cons t ts)
  let ?c = "unat (cb_failure_count cb)" and ?th = "unat (failure_threshold (cb_config cb))"
  let ?cb' = "cb\<lparr>cb_failure_count := cb_failure_count cb + 1\<rparr>"
  note step = circuit_failure_in_window [OF Cons.prems(1) _ Cons.prems(2), of t]
  have win: "elapsed t (cb_window_start cb) < failure_window (cb_config cb)"
    using Cons.prems(3) by simp
  show ?case
  proof (cases "Suc ?c \<ge> ?th")
    case True
    then have "circuit_record_failure t cb = circuit_open t ?cb'"
      using step(1) [OF win] by simp
    with True show ?thesis by (simp add: circuit_failures_when_open)
  next
    case False
    then have eq: "circuit_record_failure t cb = ?cb'"
      using step(1) [OF win] by simp
    have "cb_state (fold circuit_record_failure ts ?cb') =
      (if ts \<noteq> [] \<and> unat (cb_failure_count ?cb') + length ts \<ge> ?th then 1 else 0)"
      using Cons.IH [of ?cb'] Cons.prems False step(2) [OF win] by simp
    then show ?thesis
      using False step(2) [OF win] by (auto simp: eq)
  qed
qed simp

lemma circuit_success_half_open:
  assumes "cb_state cb = 2"
    and "unat (cb_half_open_successes cb) < max 1 (unat (success_threshold (cb_config cb)))"
  shows "circuit_record_success t cb =
    (let cb' = cb\<lparr>cb_half_open_successes := cb_half_open_successes cb + 1\<rparr>
     in if Suc (unat (cb_half_open_successes cb)) \<ge> unat (success_threshold (cb_config cb))
        then circuit_close t cb' else cb')"
    and "unat (cb_half_open_successes cb + 1) = Suc (unat (cb_half_open_successes cb))"
proof -
  have "unat (success_threshold (cb_config cb)) < 2 ^ 32"
    using unat_bound [of "success_threshold (cb_config cb)"] by simp
  with assms(2) have small: "Suc (unat (cb_half_open_successes cb)) < 2 ^ 32" by auto
  then have c1: "cb_half_open_successes cb \<noteq> - 1"
    by (auto simp: unat_minus_1)
  show "unat (cb_half_open_successes cb + 1) = Suc (unat (cb_half_open_successes cb))"
    by (rule unat_plus_one [OF c1])
  have "unat (sat_add (cb_half_open_successes cb) 1) = Suc (unat (cb_half_open_successes cb))"
    using small by (simp add: sat_simps)
  then show "circuit_record_success t cb =
    (let cb' = cb\<lparr>cb_half_open_successes := cb_half_open_successes cb + 1\<rparr>
     in if Suc (unat (cb_half_open_successes cb)) \<ge> unat (success_threshold (cb_config cb))
        then circuit_close t cb' else cb')"
    using assms(1)
    by (simp add: circuit_record_success_def circuit_from_u8_def Let_def word_le_nat_alt)
qed

lemma circuit_successes_when_closed:
  "cb_state cb = 0 \<Longrightarrow> cb_state (fold circuit_record_success ts cb) = 0"
  by (induction ts arbitrary: cb) (simp_all add: circuit_success_when_closed)

lemma circuit_successes_half_open:
  assumes "cb_state cb = 2"
    and "unat (cb_half_open_successes cb) < max 1 (unat (success_threshold (cb_config cb)))"
  shows "cb_state (fold circuit_record_success ts cb) =
    (if ts \<noteq> [] \<and> unat (cb_half_open_successes cb) + length ts
          \<ge> unat (success_threshold (cb_config cb)) then 0 else 2)"
  using assms
proof (induction ts arbitrary: cb)
  case (Cons t ts)
  let ?c = "unat (cb_half_open_successes cb)" and ?th = "unat (success_threshold (cb_config cb))"
  let ?cb' = "cb\<lparr>cb_half_open_successes := cb_half_open_successes cb + 1\<rparr>"
  note step = circuit_success_half_open(1) [OF Cons.prems, of t]
    circuit_success_half_open(2) [OF Cons.prems]
  show ?case
  proof (cases "Suc ?c \<ge> ?th")
    case True
    then have "circuit_record_success t cb = circuit_close t ?cb'"
      using step(1) by simp
    with True show ?thesis
      by (simp add: circuit_successes_when_closed circuit_close_def)
  next
    case False
    then have eq: "circuit_record_success t cb = ?cb'"
      using step(1) by simp
    have "cb_state (fold circuit_record_success ts ?cb') =
      (if ts \<noteq> [] \<and> unat (cb_half_open_successes ?cb') + length ts \<ge> ?th then 0 else 2)"
      using Cons.IH [of ?cb'] Cons.prems False step(2) by simp
    then show ?thesis
      using False step(2) by (auto simp: eq)
  qed
qed simp

lemma circuit_trips_in_window:
  assumes "cb_state cb = 0"
    and "elapsed now (cb_window_start cb) < failure_window (cb_config cb)"
  shows "\<exists>n. cb_state ((circuit_record_failure now ^^ n) cb) = 1"
proof (cases "unat (cb_failure_count cb) < max 1 (unat (failure_threshold (cb_config cb)))")
  case True
  let ?n = "max 1 (unat (failure_threshold (cb_config cb)))"
  have "cb_state (fold circuit_record_failure (replicate ?n now) cb) = 1"
    using circuit_failures_in_window [OF assms(1) True, of "replicate ?n now"] assms(2)
    by (auto simp: max_def split: if_splits)
  then show ?thesis by (auto simp: fold_replicate_funpow)
next
  case False
  then have "failure_threshold (cb_config cb) \<le> cb_failure_count cb"
    by (simp add: word_le_nat_alt)
  also have "\<dots> \<le> sat_add (cb_failure_count cb) 1" by (rule sat_add_mono)
  finally have "cb_state ((circuit_record_failure now ^^ 1) cb) = 1"
    using assms by (simp add: circuit_record_failure_def circuit_from_u8_def
        circuit_maybe_reset_window_def Let_def)
  then show ?thesis by blast
qed

lemma circuit_trips:
  assumes "circuit_inv cb" and "0 < failure_window (cb_config cb)"
  shows "\<exists>n. cb_state ((circuit_record_failure now ^^ n) cb) = 1"
proof -
  consider "cb_state cb = 0" | "cb_state cb = 1" | "cb_state cb = 2"
    using assms(1) by (auto simp: circuit_inv_def)
  then show ?thesis
  proof cases
    case 1
    show ?thesis
    proof (cases "elapsed now (cb_window_start cb) < failure_window (cb_config cb)")
      case True
      with 1 show ?thesis by (rule circuit_trips_in_window)
    next
      case False
      let ?cb1 = "circuit_record_failure now cb"
      have "cb_state ?cb1 = 1 \<or> cb_state ?cb1 = 0 \<and> cb_window_start ?cb1 = now"
        using 1 False by (auto simp: circuit_record_failure_def circuit_from_u8_def
            circuit_maybe_reset_window_def Let_def circuit_open_def)
      then have "\<exists>n. cb_state ((circuit_record_failure now ^^ n) ?cb1) = 1"
        using circuit_trips_in_window [of ?cb1 now] assms(2)
        by (metis circuit_failure_keeps_config elapsed_self funpow_0)
      then show ?thesis by (metis comp_apply funpow_Suc_right)
    qed
  next
    case 2
    then show ?thesis by (metis funpow_0)
  next
    case 3
    then have "cb_state ((circuit_record_failure now ^^ 1) cb) = 1"
      by (simp add: circuit_record_failure_def circuit_from_u8_def)
    then show ?thesis by blast
  qed
qed

definition circuit_gate_inv :: "circuit_breaker \<Rightarrow> bool" where
  "circuit_gate_inv cb \<longleftrightarrow> circuit_inv cb \<and> 0 < failure_window (cb_config cb)"

definition circuit_is_open :: "circuit_breaker \<Rightarrow> bool" where
  "circuit_is_open cb \<longleftrightarrow> circuit_from_u8 (cb_state cb) = Open"

lemma circuit_is_open_iff: "circuit_is_open cb \<longleftrightarrow> cb_state cb = 1"
  by (simp add: circuit_is_open_def circuit_from_u8_def)

interpretation cbg: outcome_gate "circuit_record_success now" "circuit_record_failure now"
    circuit_is_open circuit_gate_inv
  for now
proof unfold_locales
  fix cb assume inv: "circuit_gate_inv cb"
  show "circuit_gate_inv (circuit_record_success now cb)"
    using inv by (simp add: circuit_gate_inv_def circuit_inv_record_success)
  show "circuit_gate_inv (circuit_record_failure now cb)"
    using inv by (simp add: circuit_gate_inv_def circuit_inv_record_failure)
  show "\<exists>n. circuit_is_open ((circuit_record_failure now ^^ n) cb)"
    using inv circuit_trips by (simp add: circuit_gate_inv_def circuit_is_open_iff)
  show "\<not> circuit_is_open (circuit_record_success now cb)" if "\<not> circuit_is_open cb"
    using that by (auto simp: circuit_is_open_iff circuit_record_success_def circuit_close_def
        Let_def split: circuit_state.split)
  show "circuit_is_open (circuit_record_failure now cb)" if "circuit_is_open cb"
    using that by (simp add: circuit_is_open_iff circuit_failure_when_open)
qed

section \<open>Refinement of an abstract breaker\<close>

datatype breaker_abs = AClosed nat instant | AOpen instant | AHalfOpen nat

definition circuit_abs :: "circuit_breaker \<Rightarrow> breaker_abs" where
  "circuit_abs cb =
     (case circuit_from_u8 (cb_state cb) of
        Closed \<Rightarrow> AClosed (unat (cb_failure_count cb)) (cb_window_start cb)
      | Open \<Rightarrow> AOpen (the (cb_opened_at cb))
      | HalfOpen \<Rightarrow> AHalfOpen (unat (cb_half_open_successes cb)))"

fun abs_tick :: "circuit_config \<Rightarrow> instant \<Rightarrow> breaker_abs \<Rightarrow> breaker_abs" where
  "abs_tick cfg now (AOpen t) =
     (if elapsed now t \<ge> open_duration cfg then AHalfOpen 0 else AOpen t)"
| "abs_tick cfg now a = a"

fun abs_success :: "circuit_config \<Rightarrow> instant \<Rightarrow> breaker_abs \<Rightarrow> breaker_abs" where
  "abs_success cfg now (AClosed n w) = AClosed 0 w"
| "abs_success cfg now (AHalfOpen n) =
     (if Suc n \<ge> unat (success_threshold cfg) then AClosed 0 now else AHalfOpen (Suc n))"
| "abs_success cfg now (AOpen t) = AOpen t"

fun abs_failure :: "circuit_config \<Rightarrow> instant \<Rightarrow> breaker_abs \<Rightarrow> breaker_abs" where
  "abs_failure cfg now (AClosed n w) =
     (let (n', w') = (if elapsed now w \<ge> failure_window cfg then (0, now) else (n, w))
      in if Suc n' \<ge> unat (failure_threshold cfg) then AOpen now else AClosed (Suc n') w')"
| "abs_failure cfg now (AHalfOpen n) = AOpen now"
| "abs_failure cfg now (AOpen t) = AOpen t"

fun abs_exec :: "circuit_config \<Rightarrow> instant \<Rightarrow> circuit_event \<Rightarrow> breaker_abs \<Rightarrow> breaker_abs" where
  "abs_exec cfg now EvAllow a = abs_tick cfg now a"
| "abs_exec cfg now EvSuccess a = abs_success cfg now a"
| "abs_exec cfg now EvFailure a = abs_failure cfg now a"
| "abs_exec cfg now EvTrip a = (case a of AOpen t \<Rightarrow> AOpen t | _ \<Rightarrow> AOpen now)"
| "abs_exec cfg now EvReset a = AClosed 0 now"
| "abs_exec cfg now (EvConfig c) a = a"

lemma sat_add_one_ge:
  assumes "a \<noteq> - 1"
  shows "b \<le> sat_add a 1 \<longleftrightarrow> unat b \<le> Suc (unat (a :: 'a::len word))"
proof -
  have Suc: "unat a + 1 = unat (a + 1)" using assms by (simp add: unat_plus_one)
  have "unat a + unat (1 :: 'a word) < 2 ^ LENGTH('a)"
    using unat_bound [of "a + 1"] Suc by simp
  then have "sat_add a 1 = a + 1" by (simp add: sat_add_def)
  with Suc show ?thesis by (simp add: word_le_nat_alt)
qed

lemma circuit_abs_failure:
  assumes "circuit_inv cb" and "cb_failure_count cb \<noteq> - 1"
  shows "circuit_abs (circuit_record_failure now cb) =
    abs_failure (cb_config cb) now (circuit_abs cb)"
  using assms
  by (auto simp: circuit_inv_def circuit_record_failure_def circuit_abs_def circuit_from_u8_def
      circuit_open_def circuit_maybe_reset_window_def Let_def sat_add_one_ge unat_plus_one)

lemma circuit_abs_success:
  assumes "circuit_inv cb" and "cb_half_open_successes cb \<noteq> - 1"
  shows "circuit_abs (circuit_record_success now cb) =
    abs_success (cb_config cb) now (circuit_abs cb)"
  using assms
  by (auto simp: circuit_inv_def circuit_record_success_def circuit_abs_def circuit_from_u8_def
      circuit_close_def Let_def sat_add_one_ge unat_plus_one)

lemma circuit_abs_allow:
  assumes "circuit_inv cb"
  shows "circuit_abs (snd (circuit_allow_request now cb)) =
    abs_tick (cb_config cb) now (circuit_abs cb)"
  using assms
  by (auto simp: circuit_inv_def circuit_allow_request_def circuit_maybe_transition_def
      circuit_half_open_def circuit_abs_def circuit_from_u8_def Let_def split: if_splits)

lemma circuit_abs_trip:
  assumes "circuit_inv cb"
  shows "circuit_abs (circuit_trip now cb) =
    (case circuit_abs cb of AOpen t \<Rightarrow> AOpen t | _ \<Rightarrow> AOpen now)"
  using assms by (auto simp: circuit_trip_def circuit_open_def circuit_abs_def
      circuit_from_u8_def circuit_inv_def)

lemma circuit_abs_reset: "circuit_abs (circuit_reset now cb) = AClosed 0 now"
  by (simp add: circuit_reset_def circuit_close_def circuit_abs_def circuit_from_u8_def)

lemma circuit_abs_config: "circuit_abs (circuit_set_config cfg cb) = circuit_abs cb"
  by (simp add: circuit_set_config_def circuit_abs_def split: circuit_state.split)

lemmas circuit_abs_exec = circuit_abs_allow circuit_abs_success circuit_abs_failure
  circuit_abs_trip circuit_abs_reset circuit_abs_config

section \<open>Properties\<close>

lemma circuit_reachable_wellformed_cases:
  assumes "circuit_reachable cb"
  shows "circuit_inv cb"
    and "circuit_is_open cb \<Longrightarrow> \<exists>t. cb_opened_at cb = Some t"
proof -
  show inv: "circuit_inv cb" using assms by (rule circuit_reachable_inv)
  show "\<exists>t. cb_opened_at cb = Some t" if "circuit_is_open cb"
    using that inv by (auto simp: circuit_is_open_iff circuit_inv_def)
qed

text \<open>C34. In every reachable breaker state the state byte is a valid code, the opening time is
  recorded exactly when the circuit is open or half-open, and half-open successes are zero
  outside the half-open state; so the \<open>Some(opened)\<close> branch of \<open>maybe_transition\<close> is always the
  one taken for an open circuit.\<close>

theorem circuit_reachable_wellformed:
  assumes "circuit_reachable cb"
  shows "circuit_inv cb \<and> (circuit_is_open cb \<longrightarrow> (\<exists>t. cb_opened_at cb = Some t))"
  using circuit_reachable_wellformed_cases [OF assms] by blast

definition tripped_example :: circuit_breaker where
  "tripped_example = circuit_exec 7 EvTrip (circuit_new 0 circuit_config_default)"

lemma tripped_example_reachable: "circuit_reachable tripped_example"
  unfolding tripped_example_def by (intro circuit_step circuit_start)

lemma tripped_example_open: "circuit_is_open tripped_example"
  by (simp add: tripped_example_def circuit_trip_def circuit_is_open_iff)

theorem circuit_reachable_wellformed_witness:
  "circuit_inv tripped_example \<and> (\<exists>t. cb_opened_at tripped_example = Some t)"
  using circuit_reachable_wellformed [OF tripped_example_reachable] tripped_example_open by blast

text \<open>A closed breaker with no recorded failures that sees failures inside its failure window
  opens exactly when their number reaches \<open>failure_threshold\<close> (one failure suffices when the
  threshold is zero), and stays closed before.\<close>

theorem circuit_opens_exactly_at_threshold:
  assumes "cb_state cb = 0" and "cb_failure_count cb = 0"
    and "\<forall>t \<in> set ts. elapsed t (cb_window_start cb) < failure_window (cb_config cb)"
  shows "circuit_is_open (fold circuit_record_failure ts cb) \<longleftrightarrow>
    max 1 (unat (failure_threshold (cb_config cb))) \<le> length ts"
proof -
  have "cb_state (fold circuit_record_failure ts cb) =
    (if ts \<noteq> [] \<and> length ts \<ge> unat (failure_threshold (cb_config cb)) then 1 else 0)"
    using circuit_failures_in_window [OF assms(1) _ assms(3)] assms(2) by simp
  then show ?thesis
    by (cases ts) (auto simp: circuit_is_open_iff)
qed

theorem circuit_opens_exactly_at_threshold_witness:
  "circuit_is_open (fold circuit_record_failure [1, 2, 3, 4, 5] (circuit_default_config 0)) \<and>
   \<not> circuit_is_open (fold circuit_record_failure [1, 2, 3, 4] (circuit_default_config 0))"
proof -
  let ?cb = "circuit_default_config 0"
  have cb: "cb_state ?cb = 0" "cb_failure_count ?cb = 0" "cb_window_start ?cb = 0"
    "failure_window (cb_config ?cb) = 60000000000" "failure_threshold (cb_config ?cb) = 5"
    by (simp_all add: circuit_default_config_def circuit_new_def circuit_config_default_def
        from_secs_def nanos_per_sec_def)
  show ?thesis
    using circuit_opens_exactly_at_threshold [OF cb(1,2), of "[1, 2, 3, 4, 5]"]
      circuit_opens_exactly_at_threshold [OF cb(1,2), of "[1, 2, 3, 4]"] cb(3-)
    by (simp add: elapsed_def)
qed

lemma circuit_fail_fast_then_recover_cases:
  assumes "circuit_inv cb" and "circuit_is_open cb" and "cb_opened_at cb = Some t"
  shows "elapsed now t < open_duration (cb_config cb) \<Longrightarrow>
      circuit_allow_request now cb = (False, cb\<lparr>cb_times_tripped := cb_times_tripped cb + 1\<rparr>)"
    and "open_duration (cb_config cb) \<le> elapsed now t \<Longrightarrow>
      fst (circuit_allow_request now cb) \<and>
      (circuit_from_u8 (cb_state (fold circuit_record_success ts
          (snd (circuit_allow_request now cb)))) = Closed
        \<longleftrightarrow> max 1 (unat (success_threshold (cb_config cb))) \<le> length ts)"
proof -
  have st: "cb_state cb = 1" using assms(2) by (simp add: circuit_is_open_iff)
  show "circuit_allow_request now cb = (False, cb\<lparr>cb_times_tripped := cb_times_tripped cb + 1\<rparr>)"
    if "elapsed now t < open_duration (cb_config cb)"
    using that st assms(3)
    by (simp add: circuit_allow_request_def circuit_maybe_transition_def circuit_from_u8_def)
  assume late: "open_duration (cb_config cb) \<le> elapsed now t"
  let ?cb' = "circuit_half_open cb"
  have allow: "circuit_allow_request now cb = (True, ?cb')"
    using late st assms(3) by (simp add: circuit_allow_request_def circuit_maybe_transition_def
        circuit_from_u8_def circuit_half_open_def)
  have "cb_state ?cb' = 2" "cb_half_open_successes ?cb' = 0" "cb_config ?cb' = cb_config cb"
    using st by (simp_all add: circuit_half_open_def)
  then have "cb_state (fold circuit_record_success ts ?cb') =
    (if ts \<noteq> [] \<and> length ts \<ge> unat (success_threshold (cb_config cb)) then 0 else 2)"
    using circuit_successes_half_open [of ?cb' ts] by simp
  then show "fst (circuit_allow_request now cb) \<and>
      (circuit_from_u8 (cb_state (fold circuit_record_success ts
          (snd (circuit_allow_request now cb)))) = Closed
        \<longleftrightarrow> max 1 (unat (success_threshold (cb_config cb))) \<le> length ts)"
    by (cases ts) (auto simp: allow circuit_from_u8_def)
qed

text \<open>C20. An open breaker fails fast until \<open>open_duration\<close> has passed since it opened: the request
  is refused and only the rejection counter moves. From that moment on the request is admitted,
  and the breaker then closes exactly when \<open>success_threshold\<close> successes have been recorded.\<close>

theorem circuit_fail_fast_then_recover:
  assumes "circuit_inv cb" and "circuit_is_open cb" and "cb_opened_at cb = Some t"
  shows "(elapsed now t < open_duration (cb_config cb) \<longrightarrow>
      circuit_allow_request now cb = (False, cb\<lparr>cb_times_tripped := cb_times_tripped cb + 1\<rparr>))
    \<and> (open_duration (cb_config cb) \<le> elapsed now t \<longrightarrow>
      fst (circuit_allow_request now cb) \<and>
      (circuit_from_u8 (cb_state (fold circuit_record_success ts
          (snd (circuit_allow_request now cb)))) = Closed
        \<longleftrightarrow> max 1 (unat (success_threshold (cb_config cb))) \<le> length ts))"
  using circuit_fail_fast_then_recover_cases [OF assms] by blast

theorem circuit_fail_fast_then_recover_witness:
  "fst (circuit_allow_request 100 tripped_example) = False \<and>
   fst (circuit_allow_request 40000000000 tripped_example) \<and>
   circuit_from_u8 (cb_state (fold circuit_record_success [40000000001, 40000000002]
     (snd (circuit_allow_request 40000000000 tripped_example)))) = Closed"
proof -
  have ex: "circuit_inv tripped_example" "cb_opened_at tripped_example = Some 7"
    "open_duration (cb_config tripped_example) = 30000000000"
    "success_threshold (cb_config tripped_example) = 2"
    by (simp_all add: tripped_example_def circuit_trip_def circuit_open_def circuit_new_def
        circuit_config_default_def circuit_inv_def from_secs_def nanos_per_sec_def)
  show ?thesis
    using circuit_fail_fast_then_recover [OF ex(1) tripped_example_open ex(2), of 100 "[]"]
      circuit_fail_fast_then_recover [OF ex(1) tripped_example_open ex(2),
        of 40000000000 "[40000000001, 40000000002]"] ex(3,4)
    by (simp add: elapsed_def)
qed

text \<open>C9. The breaker's bytes, counters and timestamps implement the abstract three-state machine
  (closed with a failure count and a window start, open since a time, half-open with a success
  count): every operation commutes with the abstraction as long as neither 32-bit counter is at
  its maximum.\<close>

theorem circuit_refines_abstract_breaker:
  assumes "circuit_inv cb" and "cb_failure_count cb \<noteq> - 1"
    and "cb_half_open_successes cb \<noteq> - 1"
  shows "circuit_abs (circuit_exec now ev cb) = abs_exec (cb_config cb) now ev (circuit_abs cb)"
  using assms by (cases ev) (simp_all add: circuit_abs_exec)

theorem circuit_refines_abstract_breaker_witness:
  "circuit_abs (circuit_exec 3 EvFailure (circuit_default_config 0)) = AClosed 1 0"
proof -
  have cb: "circuit_inv (circuit_default_config 0)"
    "cb_failure_count (circuit_default_config 0) \<noteq> - 1"
    "cb_half_open_successes (circuit_default_config 0) \<noteq> - 1"
    by (simp_all add: circuit_default_config_def circuit_new_def circuit_inv_def)
  show ?thesis
    unfolding circuit_refines_abstract_breaker [OF cb]
    by (simp add: circuit_default_config_def circuit_new_def circuit_abs_def circuit_from_u8_def
        circuit_config_default_def from_secs_def nanos_per_sec_def elapsed_def)
qed

end
