(* ===== verification/Resilience.thy ===== *)
theory Resilience
  imports Circuit
begin

text \<open>
  The unified upstream state manager of \<open>src/src/proxy/resilience.rs\<close>. The three float
  settings (\<open>degraded_rps_limit\<close>, \<open>max_rps\<close>, \<open>rps_increment\<close>) are used by the state machine
  only through the cast \<open>(x * 100.0) as u32\<close>; the configuration record carries the results of
  that cast, the fixed-point values the atomics hold. The manager meets the same contract as the
  circuit breaker, by a second interpretation of \<open>outcome_gate\<close>.
\<close>

section \<open>State\<close>

datatype upstream_state = Healthy | Degraded | Offline

record resilience_config =
  degraded_after_failures :: u32
  offline_after_consecutive :: u32
  healthy_after_successes :: u32
  res_failure_window :: duration
  probe_interval :: duration
  degraded_rps_x100 :: u32
  max_rps_x100 :: u32
  rps_increment_x100 :: u32
  res_max_retries :: u32
  retry_base_delay :: duration
  retry_max_delay :: duration

definition resilience_config_default :: resilience_config where
  "resilience_config_default =
     \<lparr>degraded_after_failures = 5, offline_after_consecutive = 10, healthy_after_successes = 3,
      res_failure_window = from_secs 60, probe_interval = from_secs 30,
      degraded_rps_x100 = 1000, max_rps_x100 = 100000, rps_increment_x100 = 500,
      res_max_retries = 3, retry_base_delay = from_millis 100, retry_max_delay = from_secs 10\<rparr>"

record upstream_state_manager =
  um_config :: resilience_config
  um_state :: upstream_state
  um_failure_count :: u32
  um_consecutive_failures :: u32
  um_consecutive_successes :: u32
  um_window_start :: instant
  um_current_rps :: u32
  um_transitions :: u64
  um_total_failures :: u64
  um_total_successes :: u64
  um_last_transition :: instant

section \<open>Operations\<close>

definition resilience_new :: "instant \<Rightarrow> resilience_config \<Rightarrow> upstream_state_manager" where
  "resilience_new now cfg =
     \<lparr>um_config = cfg, um_state = Healthy, um_failure_count = 0, um_consecutive_failures = 0,
      um_consecutive_successes = 0, um_window_start = now,
      um_current_rps = degraded_rps_x100 cfg, um_transitions = 0, um_total_failures = 0,
      um_total_successes = 0, um_last_transition = now\<rparr>"

definition resilience_with_defaults :: "instant \<Rightarrow> upstream_state_manager" where
  "resilience_with_defaults now = resilience_new now resilience_config_default"

definition transition_to ::
  "instant \<Rightarrow> upstream_state \<Rightarrow> upstream_state_manager \<Rightarrow> upstream_state_manager" where
  "transition_to now new_state m =
     (if um_state m = new_state then m
      else
        let m1 = m\<lparr>um_state := new_state, um_transitions := um_transitions m + 1,
                    um_last_transition := now\<rparr>
        in case new_state of
             Healthy \<Rightarrow>
               m1\<lparr>um_failure_count := 0, um_consecutive_failures := 0,
                  um_consecutive_successes := 0, um_window_start := now,
                  um_current_rps := degraded_rps_x100 (um_config m)\<rparr>
           | Degraded \<Rightarrow>
               m1\<lparr>um_consecutive_successes := 0, um_failure_count := 0,
                  um_current_rps := degraded_rps_x100 (um_config m)\<rparr>
           | Offline \<Rightarrow> m1\<lparr>um_consecutive_successes := 0\<rparr>)"

definition resilience_maybe_reset_window ::
  "instant \<Rightarrow> upstream_state_manager \<Rightarrow> upstream_state_manager" where
  "resilience_maybe_reset_window now m =
     (if elapsed now (um_window_start m) \<ge> res_failure_window (um_config m)
      then m\<lparr>um_window_start := now, um_failure_count := 0\<rparr> else m)"

definition resilience_record_success ::
  "instant \<Rightarrow> upstream_state_manager \<Rightarrow> upstream_state_manager" where
  "resilience_record_success now m =
     (let prev = um_consecutive_successes m;
          m1 = m\<lparr>um_total_successes := um_total_successes m + 1, um_consecutive_failures := 0,
                  um_consecutive_successes := prev + 1\<rparr>
      in case um_state m1 of
           Healthy \<Rightarrow> m1\<lparr>um_failure_count := 0\<rparr>
         | Degraded \<Rightarrow>
             (let m2 = m1\<lparr>um_current_rps :=
                       min (sat_add (um_current_rps m1) (rps_increment_x100 (um_config m1)))
                           (max_rps_x100 (um_config m1))\<rparr>
              in if sat_add prev 1 \<ge> healthy_after_successes (um_config m2)
                 then transition_to now Healthy m2 else m2)
         | Offline \<Rightarrow> transition_to now Degraded m1)"

definition resilience_record_failure ::
  "instant \<Rightarrow> upstream_state_manager \<Rightarrow> upstream_state_manager" where
  "resilience_record_failure now m =
     (let m1 = m\<lparr>um_total_failures := um_total_failures m + 1, um_consecutive_successes := 0,
                  um_consecutive_failures := um_consecutive_failures m + 1\<rparr>
      in case um_state m1 of
           Healthy \<Rightarrow>
             (let m2 = resilience_maybe_reset_window now m1;
                  prev = um_failure_count m2;
                  m3 = m2\<lparr>um_failure_count := prev + 1\<rparr>
              in if sat_add prev 1 \<ge> degraded_after_failures (um_config m3)
                 then transition_to now Degraded m3 else m3)
         | Degraded \<Rightarrow>
             if um_consecutive_failures m1 \<ge> offline_after_consecutive (um_config m1)
             then transition_to now Offline m1 else m1
         | Offline \<Rightarrow> m1)"

definition resilience_allow_request :: "upstream_state_manager \<Rightarrow> bool" where
  "resilience_allow_request m = (case um_state m of Healthy \<Rightarrow> True | Degraded \<Rightarrow> True | Offline \<Rightarrow> False)"

text \<open>\<open>2u64.saturating_pow(attempt)\<close> and \<open>as_millis() as u64\<close>, at their widths.\<close>

definition sat_pow2 :: "u32 \<Rightarrow> u64" where
  "sat_pow2 attempt = (if unat attempt < 64 then push_bit (unat attempt) 1 else - 1)"

definition resilience_retry_delay :: "u32 \<Rightarrow> upstream_state_manager \<Rightarrow> duration option" where
  "resilience_retry_delay attempt m =
     (if um_state m \<noteq> Degraded then None
      else if attempt \<ge> res_max_retries (um_config m) then None
      else
        let base_ms = as_millis_u64 (retry_base_delay (um_config m));
            multiplier = sat_pow2 attempt;
            delay_ms = sat_mul base_ms multiplier;
            max_ms = as_millis_u64 (retry_max_delay (um_config m))
        in Some (from_millis (unat (min delay_ms max_ms))))"

definition force_offline :: "instant \<Rightarrow> upstream_state_manager \<Rightarrow> upstream_state_manager" where
  "force_offline now m = transition_to now Offline m"

definition force_healthy :: "instant \<Rightarrow> upstream_state_manager \<Rightarrow> upstream_state_manager" where
  "force_healthy now m = transition_to now Healthy m"

record resilience_snapshot =
  rs_state :: upstream_state
  rs_transitions :: u64
  rs_total_failures :: u64
  rs_total_successes :: u64
  rs_rps_x100 :: "u32 option"
  rs_time_in_state_ms :: u64

text \<open>
  \<open>current_rps_limit\<close> is \<open>f32::MAX\<close> when healthy (no limit), \<open>current_rps / 100.0\<close> when degraded
  and \<open>0.0\<close> when offline; the model keeps the fixed-point value and writes no limit as \<open>None\<close>.
\<close>

definition current_rps_limit_x100 :: "upstream_state_manager \<Rightarrow> u32 option" where
  "current_rps_limit_x100 m =
     (case um_state m of Healthy \<Rightarrow> None | Degraded \<Rightarrow> Some (um_current_rps m) | Offline \<Rightarrow> Some 0)"

definition resilience_snapshot_of :: "instant \<Rightarrow> upstream_state_manager \<Rightarrow> resilience_snapshot" where
  "resilience_snapshot_of now m =
     \<lparr>rs_state = um_state m, rs_transitions = um_transitions m,
      rs_total_failures = um_total_failures m, rs_total_successes = um_total_successes m,
      rs_rps_x100 = current_rps_limit_x100 m,
      rs_time_in_state_ms = as_millis_u64 (elapsed now (um_last_transition m))\<rparr>"

section \<open>Frame facts\<close>

lemma transition_to_state [simp]: "um_state (transition_to now s m) = s"
  by (simp add: transition_to_def Let_def split: upstream_state.split)

lemma transition_to_config [simp]: "um_config (transition_to now s m) = um_config m"
  by (simp add: transition_to_def Let_def split: upstream_state.split)

lemma reset_window_frame [simp]:
  "um_state (resilience_maybe_reset_window now m) = um_state m"
  "um_config (resilience_maybe_reset_window now m) = um_config m"
  "um_consecutive_failures (resilience_maybe_reset_window now m) = um_consecutive_failures m"
  by (simp_all add: resilience_maybe_reset_window_def)

lemma failure_config [simp]: "um_config (resilience_record_failure now m) = um_config m"
  by (simp add: resilience_record_failure_def Let_def split: upstream_state.split)

lemma success_config [simp]: "um_config (resilience_record_success now m) = um_config m"
  by (simp add: resilience_record_success_def Let_def split: upstream_state.split)

lemma failure_consecutive:
  "um_consecutive_failures (resilience_record_failure now m) = um_consecutive_failures m + 1"
  by (simp add: resilience_record_failure_def transition_to_def Let_def split: upstream_state.split)

lemma failure_totals:
  "um_total_failures (resilience_record_failure now m) = um_total_failures m + 1"
  "um_total_successes (resilience_record_failure now m) = um_total_successes m"
  by (simp_all add: resilience_record_failure_def transition_to_def Let_def
      resilience_maybe_reset_window_def split: upstream_state.split)

section \<open>State transitions\<close>

text \<open>The edges of the state machine: no operation but a forced one skips \<open>Degraded\<close>.\<close>

definition res_rank :: "upstream_state \<Rightarrow> nat" where
  "res_rank s = (case s of Healthy \<Rightarrow> 0 | Degraded \<Rightarrow> 1 | Offline \<Rightarrow> 2)"

lemma failure_rank:
  "res_rank (um_state m) \<le> res_rank (um_state (resilience_record_failure now m)) \<and>
   res_rank (um_state (resilience_record_failure now m)) \<le> Suc (res_rank (um_state m))"
  by (auto simp: resilience_record_failure_def Let_def res_rank_def split: upstream_state.splits)

lemma success_rank:
  "res_rank (um_state (resilience_record_success now m)) \<le> res_rank (um_state m) \<and>
   res_rank (um_state m) \<le> Suc (res_rank (um_state (resilience_record_success now m)))"
  by (auto simp: resilience_record_success_def Let_def res_rank_def split: upstream_state.splits)

lemma failure_offline: "um_state m = Offline \<Longrightarrow> um_state (resilience_record_failure now m) = Offline"
  by (simp add: resilience_record_failure_def Let_def)

lemma failure_degraded:
  "um_state m = Degraded \<Longrightarrow>
   um_state (resilience_record_failure now m) =
     (if um_consecutive_failures m + 1 \<ge> offline_after_consecutive (um_config m)
      then Offline else Degraded)"
  by (simp add: resilience_record_failure_def Let_def)

lemma failure_healthy_in_window:
  assumes "um_state m = Healthy"
    and "elapsed now (um_window_start m) < res_failure_window (um_config m)"
  shows "sat_add (um_failure_count m) 1 \<ge> degraded_after_failures (um_config m) \<Longrightarrow>
      um_state (resilience_record_failure now m) = Degraded"
    and "\<not> sat_add (um_failure_count m) 1 \<ge> degraded_after_failures (um_config m) \<Longrightarrow>
      um_state (resilience_record_failure now m) = Healthy \<and>
      um_failure_count (resilience_record_failure now m) = um_failure_count m + 1 \<and>
      um_window_start (resilience_record_failure now m) = um_window_start m"
  using assms
  by (simp_all add: resilience_record_failure_def resilience_maybe_reset_window_def Let_def)

lemma degraded_goes_offline_aux:
  assumes "um_state m = Degraded" and "um_consecutive_failures m \<noteq> - 1"
  shows "\<exists>n. um_state ((resilience_record_failure now ^^ n) m) = Offline"
  using assms
proof (induction "2 ^ 32 - unat (um_consecutive_failures m)" arbitrary: m rule: less_induct)
  case less
  let ?m' = "resilience_record_failure now m"
  show ?case
  proof (cases "um_state ?m' = Offline")
    case True
    then have "um_state ((resilience_record_failure now ^^ 1) m) = Offline" by simp
    then show ?thesis by blast
  next
    case False
    with less.prems have deg: "um_state ?m' = Degraded"
      and nlt: "\<not> um_consecutive_failures m + 1 \<ge> offline_after_consecutive (um_config m)"
      by (auto simp: failure_degraded split: if_splits)
    then have nmax: "um_consecutive_failures m + 1 \<noteq> - 1"
      using word_order.extremum by metis
    have Suc: "unat (um_consecutive_failures m + 1) = Suc (unat (um_consecutive_failures m))"
      by (rule unat_plus_one [OF less.prems(2)])
    have "Suc (unat (um_consecutive_failures m)) < 2 ^ 32"
      using unat_bound [of "um_consecutive_failures m + 1"] Suc by simp
    then have "\<exists>n. um_state ((resilience_record_failure now ^^ n) ?m') = Offline"
      using less.hyps [of ?m'] deg nmax by (simp add: failure_consecutive Suc)
    then show ?thesis by (metis comp_apply funpow_Suc_right)
  qed
qed

lemma degraded_goes_offline:
  assumes "um_state m = Degraded"
  shows "\<exists>n. um_state ((resilience_record_failure now ^^ n) m) = Offline"
proof (cases "um_consecutive_failures m = - 1")
  case False
  with assms show ?thesis by (rule degraded_goes_offline_aux)
next
  case True
  let ?m' = "resilience_record_failure now m"
  have "um_consecutive_failures ?m' \<noteq> - 1" using True by (simp add: failure_consecutive)
  moreover have "um_state ?m' = Degraded \<or> um_state ?m' = Offline"
    using assms by (simp add: failure_degraded)
  ultimately have "\<exists>n. um_state ((resilience_record_failure now ^^ n) ?m') = Offline"
    using degraded_goes_offline_aux [of ?m'] by (metis funpow_0)
  then show ?thesis by (metis comp_apply funpow_Suc_right)
qed

lemma healthy_degrades_in_window:
  assumes "um_state m = Healthy"
    and "elapsed now (um_window_start m) < res_failure_window (um_config m)"
  shows "\<exists>n. um_state ((resilience_record_failure now ^^ n) m) = Degraded"
  using assms
proof (induction "2 ^ 32 - unat (um_failure_count m)" arbitrary: m rule: less_induct)
  case less
  let ?m' = "resilience_record_failure now m"
  show ?case
  proof (cases "sat_add (um_failure_count m) 1 \<ge> degraded_after_failures (um_config m)")
    case True
    then have "um_state ((resilience_record_failure now ^^ 1) m) = Degraded"
      using failure_healthy_in_window(1) [OF less.prems] by simp
    then show ?thesis by blast
  next
    case False
    then have ne: "um_failure_count m \<noteq> - 1"
      by (auto simp: sat_add_def unat_minus_1)
    note m' = failure_healthy_in_window(2) [OF less.prems False]
    have Suc: "unat (um_failure_count m + 1) = Suc (unat (um_failure_count m))"
      by (rule unat_plus_one [OF ne])
    have "Suc (unat (um_failure_count m)) < 2 ^ 32"
      using unat_bound [of "um_failure_count m + 1"] Suc by simp
    then have "\<exists>n. um_state ((resilience_record_failure now ^^ n) ?m') = Degraded"
      using less.hyps [of ?m'] m' less.prems(2) by (simp add: Suc)
    then show ?thesis by (metis comp_apply funpow_Suc_right)
  qed
qed

lemma failure_funpow_config [simp]:
  "um_config ((resilience_record_failure now ^^ n) m) = um_config m"
  by (induction n) simp_all

lemma resilience_trips:
  assumes "0 < res_failure_window (um_config m)"
  shows "\<exists>n. um_state ((resilience_record_failure now ^^ n) m) = Offline"
proof -
  have deg: "\<exists>n. um_state ((resilience_record_failure now ^^ n) m) = Offline"
    if "um_state ((resilience_record_failure now ^^ k) m) = Degraded" for k
    using degraded_goes_offline [OF that, of now] by (metis comp_apply funpow_add)
  show ?thesis
  proof (cases "um_state m")
    case Offline
    then show ?thesis by (metis funpow_0)
  next
    case Degraded
    then show ?thesis by (rule degraded_goes_offline)
  next
    case Healthy
    let ?m' = "resilience_record_failure now m"
    have "um_state ?m' = Degraded \<or>
      um_state ?m' = Healthy \<and> elapsed now (um_window_start ?m') < res_failure_window (um_config ?m')"
      using Healthy assms
      by (auto simp: resilience_record_failure_def resilience_maybe_reset_window_def Let_def)
    then have "\<exists>n. um_state ((resilience_record_failure now ^^ n) ?m') = Degraded"
      using healthy_degrades_in_window by (metis funpow_0)
    then obtain k where "um_state ((resilience_record_failure now ^^ Suc k) m) = Degraded"
      by (metis comp_apply funpow_Suc_right)
    then show ?thesis by (rule deg)
  qed
qed

definition resilience_gate_inv :: "upstream_state_manager \<Rightarrow> bool" where
  "resilience_gate_inv m \<longleftrightarrow> 0 < res_failure_window (um_config m)"

definition resilience_rejecting :: "upstream_state_manager \<Rightarrow> bool" where
  "resilience_rejecting m \<longleftrightarrow> \<not> resilience_allow_request m"

lemma resilience_rejecting_iff: "resilience_rejecting m \<longleftrightarrow> um_state m = Offline"
  by (simp add: resilience_rejecting_def resilience_allow_request_def split: upstream_state.split)

interpretation resg: outcome_gate "resilience_record_success now" "resilience_record_failure now"
    resilience_rejecting resilience_gate_inv
  for now
proof unfold_locales
  fix m
  assume inv: "resilience_gate_inv m"
  show "resilience_gate_inv (resilience_record_success now m)"
    using inv by (simp add: resilience_gate_inv_def)
  show "resilience_gate_inv (resilience_record_failure now m)"
    using inv by (simp add: resilience_gate_inv_def)
  show "\<not> resilience_rejecting (resilience_record_success now m)" if "\<not> resilience_rejecting m"
    using that success_rank [of now m]
    by (auto simp: resilience_rejecting_iff res_rank_def split: upstream_state.splits)
  show "resilience_rejecting (resilience_record_failure now m)" if "resilience_rejecting m"
    using that by (simp add: resilience_rejecting_iff failure_offline)
  show "\<exists>n. resilience_rejecting ((resilience_record_failure now ^^ n) m)"
    using inv resilience_trips by (simp add: resilience_rejecting_iff resilience_gate_inv_def)
qed

section \<open>The timetable of an outage and of a recovery\<close>

text \<open>
  The state after \<open>n\<close> consecutive failures: \<open>d\<close> of them degrade the upstream; from then on the
  \<^emph>\<open>total\<close> number of consecutive failures is compared with \<open>offline_after_consecutive\<close>.
\<close>

definition outage_state :: "nat \<Rightarrow> nat \<Rightarrow> nat \<Rightarrow> upstream_state" where
  "outage_state d off n = (if n < d then Healthy else if d < n \<and> off \<le> n then Offline else Degraded)"

lemma outage_step:
  assumes st: "um_state m = outage_state d off n"
    and d: "d = max 1 (unat (degraded_after_failures (um_config m)))"
    and off: "off = unat (offline_after_consecutive (um_config m))"
    and cons: "unat (um_consecutive_failures m) = n"
    and cnt: "n < d \<Longrightarrow> unat (um_failure_count m) = n"
    and win: "n < d \<Longrightarrow> elapsed t (um_window_start m) < res_failure_window (um_config m)"
    and small: "Suc n < 2 ^ 32"
  shows "um_state (resilience_record_failure t m) = outage_state d off (Suc n)"
    and "unat (um_consecutive_failures (resilience_record_failure t m)) = Suc n"
    and "Suc n < d \<Longrightarrow> unat (um_failure_count (resilience_record_failure t m)) = Suc n"
    and "Suc n < d \<Longrightarrow> um_window_start (resilience_record_failure t m) = um_window_start m"
proof -
  have "um_consecutive_failures m \<noteq> - 1"
    using cons small by (auto simp: unat_minus_1)
  then have c1: "unat (um_consecutive_failures m + 1) = Suc n"
    using cons by (simp add: unat_plus_one)
  then show "unat (um_consecutive_failures (resilience_record_failure t m)) = Suc n"
    by (simp add: failure_consecutive)
  have f1: "unat (sat_add (um_failure_count m) 1) = Suc n \<and> unat (um_failure_count m + 1) = Suc n"
    if "n < d"
  proof -
    have "um_failure_count m \<noteq> - 1"
      using cnt [OF that] small by (auto simp: unat_minus_1)
    then show ?thesis using cnt [OF that] small by (simp add: unat_plus_one sat_simps)
  qed
  have healthy: "um_state m = Healthy" if "n < d"
    using that st by (simp add: outage_state_def)
  have stay: "\<not> sat_add (um_failure_count m) 1 \<ge> degraded_after_failures (um_config m)"
    if "Suc n < d"
    using that f1 d by (auto simp: word_le_nat_alt)
  show "Suc n < d \<Longrightarrow> unat (um_failure_count (resilience_record_failure t m)) = Suc n"
    using failure_healthy_in_window(2) [OF healthy win stay] f1 by simp
  show "Suc n < d \<Longrightarrow> um_window_start (resilience_record_failure t m) = um_window_start m"
    using failure_healthy_in_window(2) [OF healthy win stay] by simp
  consider "Suc n < d" | "Suc n = d" | "d \<le> n" by linarith
  then show "um_state (resilience_record_failure t m) = outage_state d off (Suc n)"
  proof cases
    case 1
    then show ?thesis
      using failure_healthy_in_window(2) [OF healthy win stay] by (simp add: outage_state_def)
  next
    case 2
    then have "sat_add (um_failure_count m) 1 \<ge> degraded_after_failures (um_config m)"
      using f1 d by (simp add: word_le_nat_alt)
    then show ?thesis
      using 2 failure_healthy_in_window(1) [OF healthy win]
      by (simp add: outage_state_def)
  next
    case 3
    show ?thesis
    proof (cases "um_state m = Offline")
      case True
      then have "off \<le> n" using st 3 by (auto simp: outage_state_def split: if_splits)
      then show ?thesis using True 3 by (simp add: failure_offline outage_state_def)
    next
      case False
      then have "um_state m = Degraded" using st 3 by (auto simp: outage_state_def split: if_splits)
      then show ?thesis
        using 3 off c1 by (auto simp: failure_degraded outage_state_def word_le_nat_alt)
    qed
  qed
qed

lemma outage_schedule:
  assumes "um_state m = outage_state d off n"
    and "d = max 1 (unat (degraded_after_failures (um_config m)))"
    and "off = unat (offline_after_consecutive (um_config m))"
    and "unat (um_consecutive_failures m) = n"
    and "n < d \<Longrightarrow> unat (um_failure_count m) = n"
    and "n < d \<Longrightarrow> \<forall>t \<in> set ts. elapsed t (um_window_start m) < res_failure_window (um_config m)"
    and "n + length ts < 2 ^ 32"
  shows "um_state (fold resilience_record_failure ts m) = outage_state d off (n + length ts)"
  using assms
proof (induction ts arbitrary: m n)
  case (Cons t ts)
  have win: "n < d \<Longrightarrow> elapsed t (um_window_start m) < res_failure_window (um_config m)"
    using Cons.prems(6) by simp
  have "Suc n < 2 ^ 32" using Cons.prems(7) by simp
  note step = outage_step [OF Cons.prems(1-5) win this]
  have "um_state (fold resilience_record_failure ts (resilience_record_failure t m)) =
      outage_state d off (Suc n + length ts)"
  proof (rule Cons.IH)
    show "\<forall>t' \<in> set ts. elapsed t' (um_window_start (resilience_record_failure t m))
        < res_failure_window (um_config (resilience_record_failure t m))" if "Suc n < d"
      using that step(4) Cons.prems(6) by simp
  qed (use step Cons.prems in simp_all)
  then show ?case by simp
qed simp

lemma success_healthy: "um_state m = Healthy \<Longrightarrow> um_state (resilience_record_success t m) = Healthy"
  by (simp add: resilience_record_success_def Let_def)

lemma successes_healthy:
  "um_state m = Healthy \<Longrightarrow> um_state (fold resilience_record_success ts m) = Healthy"
  by (induction ts arbitrary: m) (simp_all add: success_healthy)

lemma success_degraded:
  assumes "um_state m = Degraded"
    and "unat (um_consecutive_successes m) < max 1 (unat (healthy_after_successes (um_config m)))"
  shows "if Suc (unat (um_consecutive_successes m)) \<ge> unat (healthy_after_successes (um_config m))
    then um_state (resilience_record_success t m) = Healthy
    else um_state (resilience_record_success t m) = Degraded \<and>
      unat (um_consecutive_successes (resilience_record_success t m)) =
        Suc (unat (um_consecutive_successes m))"
proof -
  have "unat (healthy_after_successes (um_config m)) < 2 ^ 32"
    using unat_bound [of "healthy_after_successes (um_config m)"] by simp
  with assms(2) have "Suc (unat (um_consecutive_successes m)) < 2 ^ 32" by auto
  then have ne: "um_consecutive_successes m \<noteq> - 1" by (auto simp: unat_minus_1)
  show ?thesis
    using assms(1) sat_add_one_ge [OF ne] unat_plus_one [OF ne]
    by (simp add: resilience_record_success_def Let_def)
qed

lemma successes_degraded:
  assumes "um_state m = Degraded"
    and "unat (um_consecutive_successes m) < max 1 (unat (healthy_after_successes (um_config m)))"
  shows "um_state (fold resilience_record_success ts m) =
    (if ts \<noteq> [] \<and> unat (um_consecutive_successes m) + length ts
          \<ge> unat (healthy_after_successes (um_config m)) then Healthy else Degraded)"
  using assms
proof (induction ts arbitrary: m)
  case (Cons t ts)
  let ?c = "unat (um_consecutive_successes m)" and ?h = "unat (healthy_after_successes (um_config m))"
  let ?m' = "resilience_record_success t m"
  note step = success_degraded [OF Cons.prems, of t]
  show ?case
  proof (cases "Suc ?c \<ge> ?h")
    case True
    with step show ?thesis by (simp add: successes_healthy)
  next
    case False
    with step have "um_state ?m' = Degraded" "unat (um_consecutive_successes ?m') = Suc ?c" by auto
    with False Cons.IH [of ?m'] show ?thesis by auto
  qed
qed simp

lemma unat_sat_pow2: "unat (sat_pow2 a) = min (2 ^ unat a) (2 ^ 64 - 1)"
proof (cases "unat a < 64")
  case True
  have "push_bit (unat a) (1 :: u64) = 2 ^ unat a" by (simp add: push_bit_eq_mult)
  moreover have le: "(2 :: nat) ^ unat a \<le> 2 ^ 63" using True by (intro power_increasing) auto
  moreover have "unat (of_nat (2 ^ unat a) :: u64) = 2 ^ unat a"
    using le by (simp only: unat_of_nat) simp
  then have "unat (2 ^ unat a :: u64) = 2 ^ unat a" by simp
  ultimately show ?thesis using True by (simp add: sat_pow2_def)
next
  case False
  then have "(2 :: nat) ^ 64 \<le> 2 ^ unat a" by (intro power_increasing) auto
  with False show ?thesis by (simp add: sat_pow2_def unat_minus_1)
qed

section \<open>Properties\<close>

text \<open>The timetable of an outage: starting from a new manager, \<open>n\<close> failures inside the window
  leave the upstream healthy while \<open>n\<close> is below \<open>degraded_after_failures\<close>, and take it offline
  exactly when \<open>n\<close> exceeds that and reaches \<open>offline_after_consecutive\<close>. The failures that caused
  the degradation are counted too: the second threshold is not a number of failures \<open>in Degraded\<close>,
  as the configuration's comment has it.\<close>

theorem resilience_outage_schedule:
  assumes "\<forall>t \<in> set ts. elapsed t now < res_failure_window cfg"
    and "length ts < 2 ^ 32"
  shows "um_state (fold resilience_record_failure ts (resilience_new now cfg)) =
    outage_state (max 1 (unat (degraded_after_failures cfg)))
      (unat (offline_after_consecutive cfg)) (length ts)"
proof -
  let ?m = "resilience_new now cfg"
  let ?d = "max 1 (unat (degraded_after_failures cfg))"
    and ?off = "unat (offline_after_consecutive cfg)"
  have m: "um_state ?m = Healthy" "um_config ?m = cfg" "um_consecutive_failures ?m = 0"
    "um_failure_count ?m = 0" "um_window_start ?m = now"
    by (simp_all add: resilience_new_def)
  have "um_state (fold resilience_record_failure ts ?m) = outage_state ?d ?off (0 + length ts)"
    by (rule outage_schedule) (use assms in \<open>simp_all only: m, simp_all add: outage_state_def\<close>)
  then show ?thesis by simp
qed

theorem resilience_outage_schedule_witness:
  "um_state (fold resilience_record_failure (replicate 10 0) (resilience_with_defaults 0)) = Offline \<and>
   um_state (fold resilience_record_failure (replicate 9 0) (resilience_with_defaults 0)) = Degraded"
proof -
  have hyp: "\<forall>t \<in> set (replicate n 0). elapsed t 0 < res_failure_window resilience_config_default" for n
    by (simp add: resilience_config_default_def from_secs_def nanos_per_sec_def)
  show ?thesis
    using resilience_outage_schedule [OF hyp [of 10]] resilience_outage_schedule [OF hyp [of 9]]
    by (simp add: resilience_with_defaults_def outage_state_def resilience_config_default_def)
qed

text \<open>Recovery always passes through \<open>Degraded\<close>: an offline upstream becomes degraded at the
  first success and healthy only after \<open>healthy_after_successes\<close> further consecutive successes (at
  least one), never earlier and never later.\<close>

theorem resilience_recovery_schedule:
  assumes "um_state m = Offline" and "ts \<noteq> []"
  shows "um_state (fold resilience_record_success ts m) =
    (if 1 + max 1 (unat (healthy_after_successes (um_config m))) \<le> length ts
     then Healthy else Degraded)"
proof -
  obtain t ts' where ts: "ts = t # ts'" using assms(2) by (cases ts) auto
  let ?m' = "resilience_record_success t m"
  have "um_state ?m' = Degraded" "um_consecutive_successes ?m' = 0"
    using assms(1) by (simp_all add: resilience_record_success_def transition_to_def Let_def)
  then show ?thesis
    using successes_degraded [of ?m' ts'] by (cases ts') (auto simp: ts)
qed

theorem resilience_recovery_schedule_witness:
  "um_state (fold resilience_record_success [1, 2, 3, 4]
     (force_offline 0 (resilience_with_defaults 0))) = Healthy \<and>
   um_state (fold resilience_record_success [1, 2, 3]
     (force_offline 0 (resilience_with_defaults 0))) = Degraded"
proof -
  let ?m = "force_offline 0 (resilience_with_defaults 0)"
  have "um_state ?m = Offline" "um_config ?m = resilience_config_default"
    by (simp_all add: force_offline_def resilience_with_defaults_def resilience_new_def)
  then show ?thesis
    using resilience_recovery_schedule [of ?m "[1, 2, 3, 4]"]
      resilience_recovery_schedule [of ?m "[1, 2, 3]"]
    by (simp add: resilience_config_default_def)
qed

text \<open>Retry delays exist only while degraded and below the retry limit; then the delay is the
  base delay doubled per attempt, capped by the maximum delay: the saturating 64-bit computation
  never lets an overflow shorten a delay.\<close>

theorem resilience_retry_delay_backoff:
  assumes "as_millis (retry_base_delay (um_config m)) < 2 ^ 64"
    and "as_millis (retry_max_delay (um_config m)) < 2 ^ 64"
  shows "resilience_retry_delay attempt m =
    (if um_state m = Degraded \<and> attempt < res_max_retries (um_config m)
     then Some (from_millis (min (as_millis (retry_base_delay (um_config m)) * 2 ^ unat attempt)
                                 (as_millis (retry_max_delay (um_config m)))))
     else None)"
proof -
  let ?b = "as_millis (retry_base_delay (um_config m))"
    and ?x = "as_millis (retry_max_delay (um_config m))"
  have bx: "unat (as_millis_u64 (retry_base_delay (um_config m))) = ?b"
    "unat (as_millis_u64 (retry_max_delay (um_config m))) = ?x"
    using assms by (simp_all add: as_millis_u64_def unat_of_nat)
  have capped: "min (min (?b * min (2 ^ unat attempt) (2 ^ 64 - 1)) (2 ^ 64 - 1)) ?x =
      min (?b * 2 ^ unat attempt) ?x"
  proof (cases "(2 :: nat) ^ unat attempt \<le> 2 ^ 64 - 1")
    case True
    then show ?thesis using assms(2) by (simp add: min_def)
  next
    case False
    then have "?b = 0 \<or> 2 ^ 64 - 1 \<le> ?b * (2 ^ 64 - 1) \<and> 2 ^ 64 \<le> ?b * 2 ^ unat attempt"
      by (cases ?b) auto
    then show ?thesis using assms(2) False by (auto simp: min_def)
  qed
  have "unat (min (sat_mul (as_millis_u64 (retry_base_delay (um_config m))) (sat_pow2 attempt))
      (as_millis_u64 (retry_max_delay (um_config m)))) =
    min (min (?b * min (2 ^ unat attempt) (2 ^ 64 - 1)) (2 ^ 64 - 1)) ?x"
    by (simp add: min_def word_le_nat_alt sat_simps unat_sat_pow2 bx)
  then show ?thesis
    using capped by (auto simp: resilience_retry_delay_def Let_def)
qed

theorem resilience_retry_delay_backoff_witness:
  "resilience_retry_delay 2 (transition_to 0 Degraded (resilience_with_defaults 0)) =
     Some (from_millis 400)"
proof -
  let ?m = "transition_to 0 Degraded (resilience_with_defaults 0)"
  have cfg: "um_config (resilience_with_defaults 0) = resilience_config_default"
    by (simp add: resilience_with_defaults_def resilience_new_def)
  have hyp: "as_millis (retry_base_delay (um_config ?m)) < 2 ^ 64"
    "as_millis (retry_max_delay (um_config ?m)) < 2 ^ 64"
    by (simp_all add: cfg resilience_config_default_def as_millis_def from_millis_def from_secs_def
        nanos_per_milli_def nanos_per_sec_def)
  show ?thesis
    unfolding resilience_retry_delay_backoff [OF hyp]
    by (simp add: cfg resilience_config_default_def as_millis_def from_millis_def from_secs_def
        nanos_per_milli_def nanos_per_sec_def)
qed

end
