(* ===== verification/Slug.thy ===== *)
theory Slug
  imports Prelude
begin

text \<open>
  Slugification of query text into file names, \<open>src/src/proxy/slug.rs\<close>: the loop over the
  characters with its \<open>last_was_sep\<close> flag, and what the result looks like.
\<close>

definition dash :: rchar where
  "dash = 45"

fun slug_loop :: "rstr \<Rightarrow> rstr \<Rightarrow> bool \<Rightarrow> rstr" where
  "slug_loop [] out last_was_sep = out"
| "slug_loop (ch # chs) out last_was_sep =
     (if is_ascii_alphanumeric ch then slug_loop chs (out @ [to_ascii_lowercase ch]) False
      else if \<not> last_was_sep then slug_loop chs (out @ [dash]) True
      else slug_loop chs out last_was_sep)"

definition slugify :: "rstr \<Rightarrow> rstr" where
  "slugify input =
     (let out = slug_loop input [] True
      in if out \<noteq> [] \<and> last out = dash then butlast out else out)"

section \<open>The shape of a slug\<close>

definition slug_char :: "rchar \<Rightarrow> bool" where
  "slug_char c \<longleftrightarrow> is_ascii_digit c \<or> is_ascii_lower c"

text \<open>No dash at the start and no two dashes in a row.\<close>

fun tidy :: "bool \<Rightarrow> rstr \<Rightarrow> bool" where
  "tidy sep [] = True"
| "tidy sep (c # cs) = (if c = dash then \<not> sep \<and> tidy True cs else slug_char c \<and> tidy False cs)"

lemma lower_slug_char: "is_ascii_alphanumeric c \<Longrightarrow> slug_char (to_ascii_lowercase c)"
  by (auto simp: slug_char_def is_ascii_alphanumeric_def to_ascii_lowercase_def is_ascii_upper_def
      is_ascii_lower_def)

lemma slug_char_not_dash: "slug_char c \<Longrightarrow> c \<noteq> dash"
  by (auto simp: slug_char_def dash_def is_ascii_digit_def is_ascii_lower_def)

lemma slug_char_alnum: "slug_char c \<Longrightarrow> is_ascii_alphanumeric c \<and> to_ascii_lowercase c = c"
  by (auto simp: slug_char_def is_ascii_alphanumeric_def to_ascii_lowercase_def is_ascii_upper_def
      is_ascii_digit_def is_ascii_lower_def)

lemma dash_not_alnum [simp]: "\<not> is_ascii_alphanumeric dash"
  by (simp add: dash_def is_ascii_alphanumeric_def is_ascii_digit_def is_ascii_upper_def
      is_ascii_lower_def)

text \<open>The loop appends to \<open>out\<close>: it is a function of the rest of the input.\<close>

fun slug_rest :: "rstr \<Rightarrow> bool \<Rightarrow> rstr" where
  "slug_rest [] sep = []"
| "slug_rest (ch # chs) sep =
     (if is_ascii_alphanumeric ch then to_ascii_lowercase ch # slug_rest chs False
      else if \<not> sep then dash # slug_rest chs True else slug_rest chs sep)"

lemma slug_loop_rest: "slug_loop chs out sep = out @ slug_rest chs sep"
  by (induction chs arbitrary: out sep) auto

lemma tidy_slug_rest: "tidy sep (slug_rest chs sep)"
proof (induction chs arbitrary: sep)
  case (Cons ch chs)
  show ?case
  proof (cases "is_ascii_alphanumeric ch")
    case True
    then have "slug_char (to_ascii_lowercase ch)" by (rule lower_slug_char)
    moreover from this have "to_ascii_lowercase ch \<noteq> dash" by (rule slug_char_not_dash)
    ultimately show ?thesis using True Cons by simp
  qed (use Cons in simp)
qed simp

lemma tidy_butlast: "tidy sep cs \<Longrightarrow> tidy sep (butlast cs)"
  by (induction cs arbitrary: sep) auto

lemma tidy_last_butlast:
  "tidy sep cs \<Longrightarrow> cs \<noteq> [] \<Longrightarrow> last cs = dash \<Longrightarrow> butlast cs \<noteq> [] \<Longrightarrow> last (butlast cs) \<noteq> dash"
proof (induction cs arbitrary: sep)
  case (Cons c cs)
  then show ?case by (cases cs) (auto split: if_splits)
qed simp

lemma slugify_eq:
  "slugify s = (let out = slug_rest s True in if out \<noteq> [] \<and> last out = dash then butlast out else out)"
  by (simp add: slugify_def slug_loop_rest)

lemma slugify_tidy: "tidy True (slugify s)"
  by (simp add: slugify_eq Let_def tidy_slug_rest tidy_butlast)

lemma slugify_last: "slugify s \<noteq> [] \<Longrightarrow> last (slugify s) \<noteq> dash"
  using tidy_last_butlast [OF tidy_slug_rest] by (auto simp: slugify_eq Let_def split: if_splits)

lemma slug_rest_tidy: "tidy sep cs \<Longrightarrow> slug_rest cs sep = cs"
  by (induction cs arbitrary: sep) (auto simp: slug_char_alnum split: if_splits)

lemma tidy_chars: "tidy sep cs \<Longrightarrow> c \<in> set cs \<Longrightarrow> c = dash \<or> slug_char c"
  by (induction cs arbitrary: sep) (auto split: if_splits)

lemma tidy_no_double: "tidy sep cs \<Longrightarrow> cs \<noteq> xs @ dash # dash # ys"
proof (induction xs arbitrary: sep cs)
  case Nil
  then show ?case by auto
next
  case (Cons x xs)
  then show ?case by (cases cs) (auto split: if_splits)
qed

section \<open>Properties\<close>

text \<open>A slug is a safe file name: it holds only lower-case ASCII letters, digits and single
  dashes, and neither starts nor ends with a dash, whatever the input.\<close>

theorem slugify_safe:
  "(\<forall>c \<in> set (slugify s). c = dash \<or> slug_char c) \<and>
   (\<forall>xs ys. slugify s \<noteq> xs @ dash # dash # ys) \<and>
   (slugify s = [] \<or> hd (slugify s) \<noteq> dash \<and> last (slugify s) \<noteq> dash)"
proof -
  have t: "tidy True (slugify s)" by (rule slugify_tidy)
  then have "slugify s = [] \<or> hd (slugify s) \<noteq> dash" by (cases "slugify s") auto
  then show ?thesis
    using tidy_chars [OF t] tidy_no_double [OF t] slugify_last [of s] by auto
qed

theorem slugify_safe_witness:
  "slugify (lit ''Hello, World!'') = lit ''hello-world'' \<and>
   last (slugify (lit ''Hello, World!'')) \<noteq> dash"
proof -
  have eq: "slugify (lit ''Hello, World!'') = lit ''hello-world''"
    by (simp add: slugify_def lit_def is_ascii_alphanumeric_def is_ascii_digit_def is_ascii_upper_def
        is_ascii_lower_def to_ascii_lowercase_def dash_def)
  have "lit ''hello-world'' \<noteq> []" by (simp add: lit_def)
  then show ?thesis using slugify_safe [of "lit ''Hello, World!''"] by (simp add: eq)
qed

text \<open>Slugification is idempotent: a slug is its own slug, so renaming by slug is stable.\<close>

theorem slugify_idempotent: "slugify (slugify s) = slugify s"
proof -
  have "slug_rest (slugify s) True = slugify s"
    by (rule slug_rest_tidy [OF slugify_tidy])
  then show ?thesis using slugify_last [of s] by (auto simp: slugify_eq [of "slugify s"] Let_def)
qed

end
