(* ===== verification/Priority.thy ===== *)
theory Priority
  imports Prelude
begin

text \<open>
  The bounded request priority queue of \<open>src/src/proxy/priority.rs\<close>. The \<open>BinaryHeap\<close> is the list
  of its elements; \<open>peek\<close> is a greatest element of the request order (higher priority first, lower
  sequence number first within a priority) and \<open>pop\<close> removes it. Each queue operation holds the
  heap's mutex, so it is one step.
\<close>

section \<open>Priorities\<close>

datatype priority = Low | Normal | High | Critical

fun priority_rank :: "priority \<Rightarrow> nat" where
  "priority_rank Low = 0"
| "priority_rank Normal = 1"
| "priority_rank High = 2"
| "priority_rank Critical = 3"

instantiation priority :: linorder
begin

definition less_eq_priority :: "priority \<Rightarrow> priority \<Rightarrow> bool" where
  "less_eq_priority p q \<longleftrightarrow> priority_rank p \<le> priority_rank q"

definition less_priority :: "priority \<Rightarrow> priority \<Rightarrow> bool" where
  "less_priority p q \<longleftrightarrow> priority_rank p < priority_rank q"

instance
proof
  fix p q :: priority
  show "p \<le> q \<Longrightarrow> q \<le> p \<Longrightarrow> p = q"
    by (cases p; cases q) (simp_all add: less_eq_priority_def)
qed (auto simp: less_eq_priority_def less_priority_def)

end

definition priority_parse :: "(rstr \<Rightarrow> rstr) \<Rightarrow> rstr \<Rightarrow> priority" where
  "priority_parse to_lowercase s =
     (let l = to_lowercase s
      in if l = lit ''low'' \<or> l = lit ''background'' then Low
         else if l = lit ''normal'' \<or> l = lit ''default'' then Normal
         else if l = lit ''high'' \<or> l = lit ''important'' then High
         else if l = lit ''critical'' \<or> l = lit ''urgent'' then Critical
         else Normal)"

definition priority_from_int :: "u8 \<Rightarrow> priority" where
  "priority_from_int n = (if n = 0 then Low else if n = 1 then Normal else if n = 2 then High else Critical)"

section \<open>The queue\<close>

record 'a prioritized_request =
  pr_payload :: 'a
  pr_priority :: priority
  pr_sequence :: u64
  pr_enqueued_at :: instant

text \<open>\<open>Ord::cmp\<close> of requests, as the \<open>\<ge>\<close> relation: \<open>a\<close> is popped before \<open>b\<close>, or they compare equal.\<close>

definition pr_ge :: "'a prioritized_request \<Rightarrow> 'a prioritized_request \<Rightarrow> bool" where
  "pr_ge a b \<longleftrightarrow>
     (if pr_priority a = pr_priority b then pr_sequence a \<le> pr_sequence b
      else pr_priority b < pr_priority a)"

record 'a priority_queue =
  pq_heap :: "'a prioritized_request list"
  pq_sequence :: u64
  pq_max_size :: nat

definition pq_new :: "nat \<Rightarrow> 'a priority_queue" where
  "pq_new max_size = \<lparr>pq_heap = [], pq_sequence = 0, pq_max_size = max_size\<rparr>"

definition pq_unbounded :: "'a priority_queue" where
  "pq_unbounded = pq_new usize_max"

fun heap_max :: "'a prioritized_request \<Rightarrow> 'a prioritized_request list \<Rightarrow> 'a prioritized_request" where
  "heap_max m [] = m"
| "heap_max m (x # xs) = heap_max (if pr_ge m x then m else x) xs"

definition heap_peek :: "'a prioritized_request list \<Rightarrow> 'a prioritized_request option" where
  "heap_peek h = (case h of [] \<Rightarrow> None | x # xs \<Rightarrow> Some (heap_max x xs))"

definition heap_pop ::
  "'a prioritized_request list \<Rightarrow> 'a prioritized_request option \<times> 'a prioritized_request list" where
  "heap_pop h = (case heap_peek h of None \<Rightarrow> (None, h) | Some m \<Rightarrow> (Some m, remove1 m h))"

definition pq_push ::
  "instant \<Rightarrow> 'a \<Rightarrow> priority \<Rightarrow> 'a priority_queue \<Rightarrow> 'a option \<times> 'a priority_queue" where
  "pq_push now payload prio q =
     (let enqueue = (\<lambda>h.
            (None, q\<lparr>pq_heap := \<lparr>pr_payload = payload, pr_priority = prio,
                                 pr_sequence = pq_sequence q, pr_enqueued_at = now\<rparr> # h,
                      pq_sequence := pq_sequence q + 1\<rparr>))
      in if length (pq_heap q) \<ge> pq_max_size q
         then (case heap_peek (pq_heap q) of
                 Some lowest \<Rightarrow>
                   if pr_priority lowest \<ge> prio then (Some payload, q)
                   else enqueue (snd (heap_pop (pq_heap q)))
               | None \<Rightarrow> enqueue (pq_heap q))
         else enqueue (pq_heap q))"

definition pq_push_normal :: "instant \<Rightarrow> 'a \<Rightarrow> 'a priority_queue \<Rightarrow> 'a option \<times> 'a priority_queue" where
  "pq_push_normal now payload q = pq_push now payload Normal q"

definition pq_pop :: "'a priority_queue \<Rightarrow> 'a prioritized_request option \<times> 'a priority_queue" where
  "pq_pop q = (case heap_pop (pq_heap q) of (r, h) \<Rightarrow> (r, q\<lparr>pq_heap := h\<rparr>))"

definition pq_peek_priority :: "'a priority_queue \<Rightarrow> priority option" where
  "pq_peek_priority q = map_option pr_priority (heap_peek (pq_heap q))"

definition pq_len :: "'a priority_queue \<Rightarrow> nat" where
  "pq_len q = length (pq_heap q)"

definition pq_is_full :: "'a priority_queue \<Rightarrow> bool" where
  "pq_is_full q \<longleftrightarrow> length (pq_heap q) \<ge> pq_max_size q"

definition pq_clear :: "'a priority_queue \<Rightarrow> 'a priority_queue" where
  "pq_clear q = q\<lparr>pq_heap := []\<rparr>"

record queue_stats =
  qs_total :: nat
  qs_max_size :: nat
  qs_low :: nat
  qs_normal :: nat
  qs_high :: nat
  qs_critical :: nat

definition pq_count :: "priority \<Rightarrow> 'a prioritized_request list \<Rightarrow> nat" where
  "pq_count p h = foldl (\<lambda>n r. if pr_priority r = p then usize_add n 1 else n) 0 h"

definition pq_stats :: "'a priority_queue \<Rightarrow> queue_stats" where
  "pq_stats q = \<lparr>qs_total = length (pq_heap q), qs_max_size = pq_max_size q,
     qs_low = pq_count Low (pq_heap q), qs_normal = pq_count Normal (pq_heap q),
     qs_high = pq_count High (pq_heap q), qs_critical = pq_count Critical (pq_heap q)\<rparr>"

section \<open>The request order\<close>

lemma pr_ge_refl [simp]: "pr_ge a a"
  by (simp add: pr_ge_def)

lemma pr_ge_total: "pr_ge a b \<or> pr_ge b a"
  by (auto simp: pr_ge_def)

lemma pr_ge_trans: "pr_ge a b \<Longrightarrow> pr_ge b c \<Longrightarrow> pr_ge a c"
  by (auto simp: pr_ge_def split: if_splits)

lemma pr_ge_priority: "pr_ge a b \<Longrightarrow> pr_priority b \<le> pr_priority a"
  by (auto simp: pr_ge_def split: if_splits)

lemma heap_max_in: "heap_max m xs \<in> set (m # xs)"
  by (induction xs arbitrary: m) (auto split: if_splits)

lemma heap_max_ge_all: "\<forall>x \<in> set (m # xs). pr_ge (heap_max m xs) x"
proof (induction xs arbitrary: m)
  case (Cons y ys)
  let ?m = "if pr_ge m y then m else y"
  have "pr_ge ?m m" "pr_ge ?m y" using pr_ge_total [of m y] by auto
  moreover have "\<forall>x \<in> set (?m # ys). pr_ge (heap_max ?m ys) x" by (rule Cons.IH)
  ultimately show ?case using pr_ge_trans by (metis heap_max.simps(2) list.set_intros(1,2) set_ConsD)
qed simp

lemma heap_peek_None [simp]: "heap_peek h = None \<longleftrightarrow> h = []"
  by (simp add: heap_peek_def split: list.split)

lemma heap_peek_Nil [simp]: "heap_peek [] = None"
  by simp

lemma heap_peek_Some:
  assumes "heap_peek h = Some m"
  shows "m \<in> set h" and "x \<in> set h \<Longrightarrow> pr_ge m x"
  using assms heap_max_in heap_max_ge_all
  by (auto simp: heap_peek_def split: list.splits)

lemma heap_pop_Some:
  assumes "heap_pop h = (Some m, h')"
  shows "m \<in> set h" and "mset h = add_mset m (mset h')" and "x \<in> set h \<Longrightarrow> pr_ge m x"
proof -
  have pk: "heap_peek h = Some m" and h': "h' = remove1 m h"
    using assms by (auto simp: heap_pop_def split: option.splits)
  show m: "m \<in> set h" and "x \<in> set h \<Longrightarrow> pr_ge m x"
    using heap_peek_Some [OF pk] by auto
  show "mset h = add_mset m (mset h')" using m by (simp add: h')
qed

lemma heap_pop_None: "heap_pop h = (None, h') \<longleftrightarrow> h = [] \<and> h' = []"
  by (auto simp: heap_pop_def split: option.splits)

lemma heap_pop_length: "heap_pop h = (Some m, h') \<Longrightarrow> Suc (length h') = length h"
  using heap_pop_Some(2) [of h m h'] by (metis size_add_mset size_mset)

section \<open>Draining\<close>

function heap_drain :: "'a prioritized_request list \<Rightarrow> 'a prioritized_request list" where
  "heap_drain h = (case heap_pop h of (None, _) \<Rightarrow> [] | (Some m, h') \<Rightarrow> m # heap_drain h')"
  by pat_completeness auto

termination
  by (relation "measure length") (auto dest: heap_pop_length [OF sym])

declare heap_drain.simps [simp del]

lemma heap_drain_mset: "mset (heap_drain h) = mset h"
proof (induction h rule: heap_drain.induct)
  case (1 h)
  show ?case
  proof (cases "fst (heap_pop h)")
    case None
    then show ?thesis by (subst heap_drain.simps) (auto simp: heap_pop_None split: prod.splits)
  next
    case (Some m)
    then obtain h' where pop: "heap_pop h = (Some m, h')" by (metis prod.collapse)
    with 1 have "mset (heap_drain h') = mset h'" by simp
    then show ?thesis
      using heap_pop_Some(2) [OF pop] by (subst heap_drain.simps) (simp add: pop)
  qed
qed

lemma heap_drain_sorted: "sorted_wrt pr_ge (heap_drain h)"
proof (induction h rule: heap_drain.induct)
  case (1 h)
  show ?case
  proof (cases "fst (heap_pop h)")
    case None
    then show ?thesis by (subst heap_drain.simps) (auto split: prod.splits)
  next
    case (Some m)
    then obtain h' where pop: "heap_pop h = (Some m, h')" by (metis prod.collapse)
    have "set (heap_drain h') \<subseteq> set h"
      using heap_pop_Some(2) [OF pop] by (metis heap_drain_mset set_mset_mset set_mset_add_mset_insert
          subset_insertI)
    then show ?thesis
      using 1 pop heap_pop_Some(3) [OF pop] by (subst heap_drain.simps) (auto simp: pop)
  qed
qed

lemma push_length:
  "length (pq_heap (snd (pq_push now x p q))) \<le> max (pq_max_size q) (max 1 (length (pq_heap q)))"
proof (cases "heap_peek (pq_heap q)")
  case None
  then show ?thesis by (simp add: pq_push_def Let_def)
next
  case (Some m)
  then have "m \<in> set (pq_heap q)" by (rule heap_peek_Some)
  then have "Suc (length (remove1 m (pq_heap q))) = length (pq_heap q)"
    by (metis One_nat_def Suc_pred length_pos_if_in_set length_remove1)
  then show ?thesis using Some by (auto simp: pq_push_def Let_def heap_pop_def)
qed

section \<open>Properties\<close>

text \<open>Popping until the queue is empty yields every queued request exactly once, by falling
  priority and, within a priority, in the order of the sequence numbers (first in, first out).\<close>

theorem pq_drain_ordered:
  "mset (heap_drain (pq_heap q)) = mset (pq_heap q) \<and>
   sorted_wrt (\<lambda>a b. pr_priority b < pr_priority a \<or>
      pr_priority a = pr_priority b \<and> pr_sequence a \<le> pr_sequence b) (heap_drain (pq_heap q))"
proof -
  have "sorted_wrt (\<lambda>a b. pr_priority b < pr_priority a \<or>
      pr_priority a = pr_priority b \<and> pr_sequence a \<le> pr_sequence b) (heap_drain (pq_heap q))"
    using heap_drain_sorted [of "pq_heap q"]
    by (rule sorted_wrt_mono_rel [rotated]) (auto simp: pr_ge_def split: if_splits)
  then show ?thesis by (simp add: heap_drain_mset)
qed

lemma pq_bounded_cases:
  assumes "pq_len q \<le> max 1 (pq_max_size q)"
  shows "pq_len (snd (pq_push now x p q)) \<le> max 1 (pq_max_size q)"
    and "pq_max_size (snd (pq_push now x p q)) = pq_max_size q"
    and "pq_len (snd (pq_pop q)) \<le> max 1 (pq_max_size q)"
proof -
  show "pq_len (snd (pq_push now x p q)) \<le> max 1 (pq_max_size q)"
    using push_length [of now x p q] assms by (simp add: pq_len_def)
  show "pq_max_size (snd (pq_push now x p q)) = pq_max_size q"
    by (simp add: pq_push_def Let_def split: option.split)
  have "length (snd (heap_pop (pq_heap q))) \<le> length (pq_heap q)"
    by (simp add: heap_pop_def length_remove1 split: option.split)
  then show "pq_len (snd (pq_pop q)) \<le> max 1 (pq_max_size q)"
    using assms by (auto simp: pq_len_def pq_pop_def split: prod.split)
qed

text \<open>A queue never holds more than its maximum size, except that a queue of maximum size zero
  accepts one request: the size bound \<open>max 1 max_size\<close> is kept by every push and pop.\<close>

theorem pq_bounded:
  assumes "pq_len q \<le> max 1 (pq_max_size q)"
  shows "pq_len (snd (pq_push now x p q)) \<le> max 1 (pq_max_size q)
    \<and> pq_max_size (snd (pq_push now x p q)) = pq_max_size q
    \<and> pq_len (snd (pq_pop q)) \<le> max 1 (pq_max_size q)"
  using pq_bounded_cases [OF assms] by blast

theorem pq_bounded_witness:
  "pq_len (snd (pq_push 0 (1 :: nat) Low (pq_new 0))) \<le> 1 \<and>
   snd (pq_push 0 (1 :: nat) Low (pq_new 0)) \<noteq> pq_new 0"
  using pq_bounded [of "pq_new 0 :: nat priority_queue" 0 1 Low]
  by (simp add: pq_new_def pq_len_def pq_push_def heap_peek_def)

lemma pq_full_push_drops_highest_cases:
  assumes "pq_is_full q" and "pq_heap q \<noteq> []"
  shows "(\<exists>r \<in> set (pq_heap q). p \<le> pr_priority r) \<Longrightarrow> pq_push now x p q = (Some x, q)"
    and "\<not> (\<exists>r \<in> set (pq_heap q). p \<le> pr_priority r) \<Longrightarrow>
      \<exists>victim new. victim \<in> set (pq_heap q) \<and> (\<forall>r \<in> set (pq_heap q). pr_ge victim r) \<and>
        fst (pq_push now x p q) = None \<and> pr_payload new = x \<and> pr_priority new = p \<and>
        mset (pq_heap (snd (pq_push now x p q))) =
          add_mset new (mset (pq_heap q) - {#victim#})"
proof -
  obtain m where m: "heap_peek (pq_heap q) = Some m"
    using assms(2) by (cases "heap_peek (pq_heap q)") auto
  note mx = heap_peek_Some [OF m]
  have full: "length (pq_heap q) \<ge> pq_max_size q" using assms(1) by (simp add: pq_is_full_def)
  have top: "(\<exists>r \<in> set (pq_heap q). p \<le> pr_priority r) \<longleftrightarrow> p \<le> pr_priority m"
    using mx pr_ge_priority by (meson order_trans)
  show "(\<exists>r \<in> set (pq_heap q). p \<le> pr_priority r) \<Longrightarrow> pq_push now x p q = (Some x, q)"
    using full m top by (simp add: pq_push_def Let_def)
  assume "\<not> (\<exists>r \<in> set (pq_heap q). p \<le> pr_priority r)"
  then have push: "pq_push now x p q = (None, q\<lparr>pq_heap := \<lparr>pr_payload = x, pr_priority = p,
      pr_sequence = pq_sequence q, pr_enqueued_at = now\<rparr> # remove1 m (pq_heap q),
      pq_sequence := pq_sequence q + 1\<rparr>)"
    using full m top by (simp add: pq_push_def Let_def heap_pop_def)
  show "\<exists>victim new. victim \<in> set (pq_heap q) \<and> (\<forall>r \<in> set (pq_heap q). pr_ge victim r) \<and>
        fst (pq_push now x p q) = None \<and> pr_payload new = x \<and> pr_priority new = p \<and>
        mset (pq_heap (snd (pq_push now x p q))) =
          add_mset new (mset (pq_heap q) - {#victim#})"
    by (intro exI [of _ m] exI [of _ "\<lparr>pr_payload = x, pr_priority = p,
      pr_sequence = pq_sequence q, pr_enqueued_at = now\<rparr>"]) (simp add: push mx)
qed

text \<open>What a push into a full queue does. If any queued request has at least the newcomer's
  priority the newcomer is refused, even when requests of lower priority are queued. Otherwise the
  newcomer is queued and the request dropped for it is the one that would have been served next, a
  request of the \<^emph>\<open>highest\<close> priority, not the lowest: \<open>peek\<close> and \<open>pop\<close> of a max-heap are used
  where the comment says \<open>evict lowest priority item\<close>.\<close>

theorem pq_full_push_drops_highest:
  assumes "pq_is_full q" and "pq_heap q \<noteq> []"
  shows "((\<exists>r \<in> set (pq_heap q). p \<le> pr_priority r) \<longrightarrow> pq_push now x p q = (Some x, q))
    \<and> (\<not> (\<exists>r \<in> set (pq_heap q). p \<le> pr_priority r) \<longrightarrow>
      (\<exists>victim new. victim \<in> set (pq_heap q) \<and> (\<forall>r \<in> set (pq_heap q). pr_ge victim r) \<and>
        fst (pq_push now x p q) = None \<and> pr_payload new = x \<and> pr_priority new = p \<and>
        mset (pq_heap (snd (pq_push now x p q))) =
          add_mset new (mset (pq_heap q) - {#victim#})))"
  by (intro conjI impI) (simp add: pq_full_push_drops_highest_cases(1) [OF assms],
    erule pq_full_push_drops_highest_cases(2) [OF assms])

definition full_example :: "nat priority_queue" where
  "full_example = snd (pq_push 1 20 Normal (snd (pq_push 0 10 Low (pq_new 2))))"

lemma full_example_heap:
  "pq_heap full_example =
     [\<lparr>pr_payload = 20, pr_priority = Normal, pr_sequence = 1, pr_enqueued_at = 1\<rparr>,
      \<lparr>pr_payload = 10, pr_priority = Low, pr_sequence = 0, pr_enqueued_at = 0\<rparr>]"
  "pq_max_size full_example = 2"
  by (simp_all add: full_example_def pq_new_def pq_push_def Let_def)

theorem pq_full_push_drops_highest_witness:
  "pq_push 2 30 Normal full_example = (Some 30, full_example) \<and>
   fst (pq_push 2 30 Critical full_example) = None"
proof -
  have hyp: "pq_is_full full_example" "pq_heap full_example \<noteq> []"
    by (simp_all add: pq_is_full_def full_example_heap)
  have "\<exists>r \<in> set (pq_heap full_example). Normal \<le> pr_priority r"
    "\<not> (\<exists>r \<in> set (pq_heap full_example). Critical \<le> pr_priority r)"
    by (simp_all add: full_example_heap less_eq_priority_def)
  then show ?thesis
    using pq_full_push_drops_highest [OF hyp, of Normal 2 30]
      pq_full_push_drops_highest [OF hyp, of Critical 2 30] by blast
qed

end
