(* ===== verification/Types.thy ===== *)
theory Types
  imports Prelude
begin

text \<open>
  The core data of the proxy, \<open>src/src/proxy/types.rs\<close>: search results, responses, cache entries,
  the validation of requests and responses, signatures and certificate pins, schema fingerprints
  and the drift aggregator.

  Code that is not in the repository is the record \<open>env\<close>, an argument of every definition that
  uses it: the blake3 hash functions and their hex rendering, Unicode lower-casing, the printing
  and the (de)serialisation of JSON by \<open>serde_json\<close>, the size of the \<open>CacheEntry\<close> struct, and
  the order in which the \<open>papaya\<close> map iterates. A score (\<open>f32\<close>) is its 32 bits.
\<close>

section \<open>Results, responses and entries\<close>

type_synonym query_hash = "u8 list"
type_synonym f32 = u32

definition f32_exponent :: "f32 \<Rightarrow> nat" where
  "f32_exponent x = unat (drop_bit 23 x) mod 256"

definition f32_mantissa :: "f32 \<Rightarrow> nat" where
  "f32_mantissa x = unat x mod 2 ^ 23"

definition f32_is_nan :: "f32 \<Rightarrow> bool" where
  "f32_is_nan x \<longleftrightarrow> f32_exponent x = 255 \<and> f32_mantissa x \<noteq> 0"

definition f32_is_infinite :: "f32 \<Rightarrow> bool" where
  "f32_is_infinite x \<longleftrightarrow> f32_exponent x = 255 \<and> f32_mantissa x = 0"

definition le_bytes_u32 :: "u32 \<Rightarrow> u8 list" where
  "le_bytes_u32 x = map (\<lambda>i. ucast (drop_bit (8 * i) x)) [0..<4]"

definition le_bytes_u64 :: "u64 \<Rightarrow> u8 list" where
  "le_bytes_u64 x = map (\<lambda>i. ucast (drop_bit (8 * i) x)) [0..<8]"

text \<open>\<open>serde_json::Number\<close> distinguishes non-negative integers, negative integers and floats.\<close>

datatype json_number = PosInt u64 | NegInt int | Float u64

datatype json =
    JNull | JBool bool | JNumber json_number | JString rstr
  | JArray "json list" | JObject "(rstr \<times> json) list"

datatype cache_status = Hit | Miss | StaleHit | FrozenHit

datatype freshness = Fresh | Stale | Expired | Frozen

datatype miss_reason = NotInCache | MissExpired | UpstreamError | MissCircuitOpen

record search_result =
  sr_id :: rstr
  sr_score :: f32
  sr_content :: rstr
  sr_metadata :: "json option"
  sr_upstream_id :: "rstr option"

record query_response =
  qr_results :: "search_result list"
  qr_cache_status :: cache_status
  qr_took_ms :: u64
  qr_generated_at :: "u64 option"
  qr_miss_reason :: "miss_reason option"

record schema_fingerprint =
  sf_embedding_dims :: "u32 option"
  sf_model_hint :: "rstr option"
  sf_version :: "rstr option"

definition schema_default :: schema_fingerprint where
  "schema_default = \<lparr>sf_embedding_dims = None, sf_model_hint = None, sf_version = None\<rparr>"

text \<open>\<open>SystemTime\<close> is an \<open>int\<close>: nanoseconds relative to the Unix epoch.\<close>

type_synonym system_time = int

record cache_entry =
  ce_freq :: u8
  ce_cached_at :: instant
  ce_cached_at_wall :: "system_time option"
  ce_content_hash :: "u8 list option"
  ce_response :: query_response
  ce_upstream_id :: rstr
  ce_extended_count :: u32
  ce_schema :: schema_fingerprint
  ce_query_text :: "rstr option"
  ce_context_id :: rstr

record env =
  blake3 :: "u8 list \<Rightarrow> query_hash"
  blake3_keyed :: "u8 list \<Rightarrow> u8 list \<Rightarrow> query_hash"
  hash_hex :: "query_hash \<Rightarrow> rstr"
  to_lowercase :: "rstr \<Rightarrow> rstr"
  json_to_string :: "json \<Rightarrow> rstr"
  to_vec :: "query_response \<Rightarrow> u8 list option"
  from_slice :: "u8 list \<Rightarrow> query_response option"
  entry_size_of :: nat
  iter_order :: "(query_hash \<times> cache_entry) list \<Rightarrow> (query_hash \<times> cache_entry) list"

text \<open>An instance of the environment for concrete evaluations: the identity stands for the hash
  functions and for lower-casing, and the map iterates in the order of insertion.\<close>

definition trivial_env :: env where
  "trivial_env = \<lparr>blake3 = (\<lambda>bs. bs), blake3_keyed = (\<lambda>k bs. k @ bs), hash_hex = map unat,
     to_lowercase = (\<lambda>s. s), json_to_string = (\<lambda>_. []), to_vec = (\<lambda>_. None),
     from_slice = (\<lambda>_. None), entry_size_of = 256, iter_order = (\<lambda>xs. xs)\<rparr>"

definition response_of :: "search_result list \<Rightarrow> query_response" where
  "response_of rs = \<lparr>qr_results = rs, qr_cache_status = Miss, qr_took_ms = 0,
     qr_generated_at = None, qr_miss_reason = None\<rparr>"

section \<open>Schema fingerprints\<close>

definition schema_new :: "u32 option \<Rightarrow> rstr option \<Rightarrow> schema_fingerprint" where
  "schema_new dims model = \<lparr>sf_embedding_dims = dims, sf_model_hint = model, sf_version = None\<rparr>"

definition schema_with_version ::
  "u32 option \<Rightarrow> rstr option \<Rightarrow> rstr option \<Rightarrow> schema_fingerprint" where
  "schema_with_version dims model version =
     \<lparr>sf_embedding_dims = dims, sf_model_hint = model, sf_version = version\<rparr>"

definition schema_is_compatible :: "schema_fingerprint \<Rightarrow> schema_fingerprint \<Rightarrow> bool" where
  "schema_is_compatible self other =
     (if (case (sf_embedding_dims self, sf_embedding_dims other) of
            (Some a, Some b) \<Rightarrow> a \<noteq> b | _ \<Rightarrow> False) then False
      else if (case (sf_model_hint self, sf_model_hint other) of
                 (Some a, Some b) \<Rightarrow> a \<noteq> b | _ \<Rightarrow> False) then False
      else True)"

definition schema_is_known :: "schema_fingerprint \<Rightarrow> bool" where
  "schema_is_known s \<longleftrightarrow> sf_embedding_dims s \<noteq> None \<or> sf_model_hint s \<noteq> None"

fun json_as_u64 :: "json \<Rightarrow> u64 option" where
  "json_as_u64 (JNumber (PosInt n)) = Some n"
| "json_as_u64 _ = None"

fun json_as_str :: "json \<Rightarrow> rstr option" where
  "json_as_str (JString s) = Some s"
| "json_as_str _ = None"

fun json_as_array :: "json \<Rightarrow> json list option" where
  "json_as_array (JArray xs) = Some xs"
| "json_as_array _ = None"

fun json_as_object :: "json \<Rightarrow> (rstr \<times> json) list option" where
  "json_as_object (JObject kvs) = Some kvs"
| "json_as_object _ = None"

text \<open>The loop \<open>for key in keys\<close> that breaks at the first key whose value converts.\<close>

fun first_field :: "(json \<Rightarrow> 'a option) \<Rightarrow> (rstr \<times> json) list \<Rightarrow> rstr list \<Rightarrow> 'a option" where
  "first_field conv obj [] = None"
| "first_field conv obj (key # keys) =
     (case Option.bind (map_of obj key) conv of
        Some x \<Rightarrow> Some x
      | None \<Rightarrow> first_field conv obj keys)"

fun dims_from_results :: "json list \<Rightarrow> u32 option" where
  "dims_from_results [] = None"
| "dims_from_results (r # rs) =
     (case json_as_object r of
        Some robj \<Rightarrow>
          (case first_field json_as_array robj
                  (map lit [''vector'', ''embedding'', ''embeddings'', ''dense_vector'']) of
             Some vec \<Rightarrow> Some (of_nat (length vec))
           | None \<Rightarrow> dims_from_results rs)
      | None \<Rightarrow> dims_from_results rs)"

definition schema_extract_from_json :: "json \<Rightarrow> schema_fingerprint" where
  "schema_extract_from_json v =
     (case json_as_object v of
        None \<Rightarrow> schema_default
      | Some obj \<Rightarrow>
          let dims0 = map_option ucast (first_field json_as_u64 obj
                (map lit [''embedding_dims'', ''dimensions'', ''dim'', ''vector_size'',
                          ''embedding_dimension'']));
              model0 = first_field json_as_str obj
                (map lit [''model'', ''embedding_model'', ''model_name'', ''model_id'']);
              version = first_field json_as_str obj
                (map lit [''version'', ''api_version'', ''schema_version'']);
              dims1 = (case dims0 of
                  Some d \<Rightarrow> Some d
                | None \<Rightarrow>
                    (case Option.bind (map_of obj (lit ''results'')) json_as_array of
                       Some rs \<Rightarrow> dims_from_results rs
                     | None \<Rightarrow> None));
              meta = Option.bind
                (case map_of obj (lit ''metadata'') of
                   Some m \<Rightarrow> Some m | None \<Rightarrow> map_of obj (lit ''meta'')) json_as_object
          in case meta of
               None \<Rightarrow> \<lparr>sf_embedding_dims = dims1, sf_model_hint = model0, sf_version = version\<rparr>
             | Some m \<Rightarrow>
                 \<lparr>sf_embedding_dims = (case dims1 of
                      Some d \<Rightarrow> Some d
                    | None \<Rightarrow> map_option ucast (first_field json_as_u64 m
                        (map lit [''embedding_dims'', ''dimensions'']))),
                  sf_model_hint = (case model0 of
                      Some h \<Rightarrow> Some h
                    | None \<Rightarrow> first_field json_as_str m (map lit [''model'', ''embedding_model''])),
                  sf_version = version\<rparr>)"

section \<open>Entries and their integrity\<close>

definition result_bytes :: "env \<Rightarrow> search_result \<Rightarrow> u8 list" where
  "result_bytes E r =
     as_bytes (sr_id r) @ le_bytes_u32 (sr_score r) @ as_bytes (sr_content r)
     @ (case sr_metadata r of Some m \<Rightarrow> as_bytes (json_to_string E m) | None \<Rightarrow> [])"

definition compute_content_hash :: "env \<Rightarrow> query_response \<Rightarrow> u8 list" where
  "compute_content_hash E resp =
     blake3 E (le_bytes_u64 (of_nat (length (qr_results resp)))
               @ concat (map (result_bytes E) (qr_results resp)))"

definition entry_verify_integrity :: "env \<Rightarrow> cache_entry \<Rightarrow> bool" where
  "entry_verify_integrity E e =
     (case ce_content_hash e of
        Some stored \<Rightarrow> stored = compute_content_hash E (ce_response e)
      | None \<Rightarrow> True)"

definition entry_new_with_hash ::
  "env \<Rightarrow> instant \<Rightarrow> system_time \<Rightarrow> query_response \<Rightarrow> rstr \<Rightarrow> schema_fingerprint \<Rightarrow> rstr \<Rightarrow> cache_entry" where
  "entry_new_with_hash E now wall resp upstream schema ctx =
     \<lparr>ce_freq = 0, ce_cached_at = now, ce_cached_at_wall = Some wall,
      ce_content_hash = Some (compute_content_hash E resp), ce_response = resp,
      ce_upstream_id = upstream, ce_extended_count = 0, ce_schema = schema,
      ce_query_text = None, ce_context_id = ctx\<rparr>"

definition entry_new_with_query ::
  "env \<Rightarrow> instant \<Rightarrow> system_time \<Rightarrow> query_response \<Rightarrow> rstr \<Rightarrow> schema_fingerprint \<Rightarrow> rstr \<Rightarrow> rstr \<Rightarrow> cache_entry" where
  "entry_new_with_query E now wall resp upstream schema query ctx =
     \<lparr>ce_freq = 0, ce_cached_at = now, ce_cached_at_wall = Some wall,
      ce_content_hash = Some (compute_content_hash E resp), ce_response = resp,
      ce_upstream_id = upstream, ce_extended_count = 0, ce_schema = schema,
      ce_query_text = Some query, ce_context_id = ctx\<rparr>"

section \<open>Request validation\<close>

definition max_query_length :: nat where "max_query_length = 10000"
definition max_top_k :: nat where "max_top_k = 1000"
definition default_top_k :: nat where "default_top_k = 10"
definition max_results :: nat where "max_results = 1000"
definition max_content_length :: nat where "max_content_length = 100000"
definition max_response_size :: nat where "max_response_size = 10000000"

record query_request =
  rq_query :: rstr
  rq_top_k :: "nat option"
  rq_priority :: "u8 option"
  rq_upstream_id :: "rstr option"
  rq_upstream_type :: "rstr option"

datatype validation_error =
    EmptyQuery
  | QueryTooLong nat nat
  | QueryContainsNullBytes
  | QueryContainsControlChars
  | TopKTooLarge nat nat

definition request_validate :: "query_request \<Rightarrow> validation_error + unit" where
  "request_validate r =
     (if trim (rq_query r) = [] then Inl EmptyQuery
      else if str_len (rq_query r) > max_query_length
           then Inl (QueryTooLong (str_len (rq_query r)) max_query_length)
      else if 0 \<in> set (rq_query r) then Inl QueryContainsNullBytes
      else if list_ex (\<lambda>c. c < 32 \<and> c \<noteq> 9 \<and> c \<noteq> 10 \<and> c \<noteq> 13) (rq_query r)
           then Inl QueryContainsControlChars
      else case rq_top_k r of
             Some k \<Rightarrow> if k > max_top_k then Inl (TopKTooLarge k max_top_k) else Inr ()
           | None \<Rightarrow> Inr ())"

definition effective_top_k :: "query_request \<Rightarrow> nat" where
  "effective_top_k r = min (case rq_top_k r of Some k \<Rightarrow> k | None \<Rightarrow> default_top_k) max_top_k"

section \<open>Response validation\<close>

datatype response_validation_error =
    TooManyResults nat nat
  | ContentTooLong rstr nat nat
  | ContentContainsNullBytes rstr
  | ContentContainsControlChars rstr
  | ResponseTooLarge nat nat
  | EmptyResultId
  | InvalidScore rstr f32
  | TimestampTooOld u64 u64
  | TimestampInFuture u64 u64
  | SignatureMissing
  | SignatureInvalid rstr rstr
  | SignatureAlgorithmUnsupported rstr
  | CertificatePinningFailed rstr rstr
  | CertificateInvalid rstr

fun json_approximate_size :: "json \<Rightarrow> nat" where
  "json_approximate_size JNull = 4"
| "json_approximate_size (JBool b) = (if b then 4 else 5)"
| "json_approximate_size (JNumber _) = 8"
| "json_approximate_size (JString s) = usize_add (str_len s) 2"
| "json_approximate_size (JArray arr) =
     usize_add (usize_add (sum_list (map json_approximate_size arr)) (length arr)) 2"
| "json_approximate_size (JObject obj) =
     usize_add (sum_list (map (\<lambda>(k, v). usize_add (usize_add (str_len k) (json_approximate_size v)) 4) obj)) 2"

definition result_size :: "nat \<Rightarrow> search_result \<Rightarrow> nat" where
  "result_size acc r =
     (let s = usize_add acc (usize_add (usize_add (str_len (sr_id r)) (str_len (sr_content r))) 32)
      in case sr_metadata r of Some m \<Rightarrow> usize_add s (json_approximate_size m) | None \<Rightarrow> s)"

definition result_check :: "search_result \<Rightarrow> response_validation_error option" where
  "result_check r =
     (if sr_id r = [] then Some EmptyResultId
      else if f32_is_nan (sr_score r) \<or> f32_is_infinite (sr_score r)
           then Some (InvalidScore (sr_id r) (sr_score r))
      else if str_len (sr_content r) > max_content_length
           then Some (ContentTooLong (sr_id r) (str_len (sr_content r)) max_content_length)
      else if 0 \<in> set (sr_content r) then Some (ContentContainsNullBytes (sr_id r))
      else if list_ex (\<lambda>c. is_control c \<and> c \<noteq> 10 \<and> c \<noteq> 13 \<and> c \<noteq> 9) (sr_content r)
           then Some (ContentContainsControlChars (sr_id r))
      else None)"

fun validate_results :: "nat \<Rightarrow> search_result list \<Rightarrow> response_validation_error + nat" where
  "validate_results acc [] = Inr acc"
| "validate_results acc (r # rs) =
     (case result_check r of
        Some err \<Rightarrow> Inl err
      | None \<Rightarrow> validate_results (result_size acc r) rs)"

definition response_validate :: "query_response \<Rightarrow> response_validation_error + unit" where
  "response_validate resp =
     (if length (qr_results resp) > max_results
      then Inl (TooManyResults (length (qr_results resp)) max_results)
      else case validate_results 0 (qr_results resp) of
             Inl err \<Rightarrow> Inl err
           | Inr sz \<Rightarrow>
               if sz > max_response_size then Inl (ResponseTooLarge sz max_response_size)
               else Inr ())"

definition response_approximate_size :: "query_response \<Rightarrow> nat" where
  "response_approximate_size resp = foldl result_size 16 (qr_results resp)"

definition validate_timestamp ::
  "u64 \<Rightarrow> u64 \<Rightarrow> u64 \<Rightarrow> query_response \<Rightarrow> response_validation_error + unit" where
  "validate_timestamp max_age_ms now_ms tolerance_ms resp =
     (case qr_generated_at resp of
        Some generated_at \<Rightarrow>
          if generated_at > sat_add now_ms tolerance_ms
          then Inl (TimestampInFuture generated_at now_ms)
          else if generated_at < sat_sub now_ms max_age_ms
          then Inl (TimestampTooOld (sat_sub now_ms generated_at) max_age_ms)
          else Inr ()
      | None \<Rightarrow> Inr ())"

section \<open>Signatures and certificate pins\<close>

record signature_config =
  sig_enabled :: bool
  sig_header_name :: rstr
  sig_algorithm :: rstr
  sig_key :: "u8 list"

definition signature_config_default :: signature_config where
  "signature_config_default = \<lparr>sig_enabled = False, sig_header_name = lit ''X-Response-Signature'',
     sig_algorithm = lit ''HMAC-SHA256'', sig_key = []\<rparr>"

definition signature_hmac_sha256 :: "u8 list \<Rightarrow> signature_config" where
  "signature_hmac_sha256 key = \<lparr>sig_enabled = True, sig_header_name = lit ''X-Response-Signature'',
     sig_algorithm = lit ''HMAC-SHA256'', sig_key = key\<rparr>"

definition derive_blake3_key :: "env \<Rightarrow> signature_config \<Rightarrow> u8 list" where
  "derive_blake3_key E cfg = blake3 E (sig_key cfg)"

definition keyed_hex :: "env \<Rightarrow> signature_config \<Rightarrow> u8 list \<Rightarrow> rstr" where
  "keyed_hex E cfg body = hash_hex E (blake3_keyed E (derive_blake3_key E cfg) body)"

definition signature_verify ::
  "env \<Rightarrow> signature_config \<Rightarrow> u8 list \<Rightarrow> rstr option \<Rightarrow> response_validation_error + unit" where
  "signature_verify E cfg body provided_signature =
     (if \<not> sig_enabled cfg then Inr ()
      else case provided_signature of
             None \<Rightarrow> Inl SignatureMissing
           | Some provided \<Rightarrow>
               if sig_algorithm cfg = lit ''HMAC-SHA256'' then
                 (let expected = keyed_hex E cfg body
                  in if expected \<noteq> provided then Inl (SignatureInvalid expected provided) else Inr ())
               else if sig_algorithm cfg = lit ''BLAKE3'' then
                 (let expected = keyed_hex E cfg body
                  in if expected \<noteq> provided then Inl (SignatureInvalid expected provided) else Inr ())
               else Inl (SignatureAlgorithmUnsupported (sig_algorithm cfg)))"

definition signature_sign :: "env \<Rightarrow> signature_config \<Rightarrow> u8 list \<Rightarrow> rstr" where
  "signature_sign E cfg body =
     (if sig_algorithm cfg = lit ''HMAC-SHA256'' \<or> sig_algorithm cfg = lit ''BLAKE3''
      then keyed_hex E cfg body else [])"

record certificate_pin_config =
  pin_enabled :: bool
  pin_fingerprints :: "rstr list"

definition pin_new :: "rstr list \<Rightarrow> certificate_pin_config" where
  "pin_new fps = \<lparr>pin_enabled = (fps \<noteq> []), pin_fingerprints = fps\<rparr>"

definition pin_normalize :: "env \<Rightarrow> rstr \<Rightarrow> rstr" where
  "pin_normalize E s = filter (\<lambda>c. c \<noteq> 58 \<and> c \<noteq> 32) (to_lowercase E s)"

definition pin_verify :: "env \<Rightarrow> certificate_pin_config \<Rightarrow> rstr \<Rightarrow> response_validation_error + unit" where
  "pin_verify E cfg fp =
     (if \<not> pin_enabled cfg then Inr ()
      else if list_ex (\<lambda>pinned. pin_normalize E fp = pin_normalize E pinned) (pin_fingerprints cfg)
      then Inr ()
      else Inl (CertificatePinningFailed
             (case pin_fingerprints cfg of [] \<Rightarrow> [] | p # _ \<Rightarrow> p) fp))"

section \<open>Cached responses\<close>

datatype cached_response =
    Cached cache_entry cache_status u64
  | FreshResponse query_response
  | SharedFresh query_response u64

definition from_cache :: "cache_entry \<Rightarrow> cache_status \<Rightarrow> u64 \<Rightarrow> cached_response" where
  "from_cache e st took = Cached e st took"

fun into_query_response :: "cached_response \<Rightarrow> query_response" where
  "into_query_response (Cached e st took) =
     \<lparr>qr_results = qr_results (ce_response e), qr_cache_status = st, qr_took_ms = took,
      qr_generated_at = qr_generated_at (ce_response e), qr_miss_reason = None\<rparr>"
| "into_query_response (FreshResponse r) = r"
| "into_query_response (SharedFresh r took) = r\<lparr>qr_took_ms := took\<rparr>"

section \<open>Drift aggregation\<close>

datatype drift_level = DriftNone | Minor | Moderate | Significant | Major

fun drift_index :: "drift_level \<Rightarrow> nat" where
  "drift_index DriftNone = 0"
| "drift_index Minor = 1"
| "drift_index Moderate = 2"
| "drift_index Significant = 3"
| "drift_index Major = 4"

instantiation drift_level :: linorder
begin

definition less_eq_drift_level :: "drift_level \<Rightarrow> drift_level \<Rightarrow> bool" where
  "less_eq_drift_level a b \<longleftrightarrow> drift_index a \<le> drift_index b"

definition less_drift_level :: "drift_level \<Rightarrow> drift_level \<Rightarrow> bool" where
  "less_drift_level a b \<longleftrightarrow> drift_index a < drift_index b"

instance
proof
  fix a b :: drift_level
  show "a \<le> b \<Longrightarrow> b \<le> a \<Longrightarrow> a = b"
    by (cases a; cases b) (simp_all add: less_eq_drift_level_def)
qed (auto simp: less_eq_drift_level_def less_drift_level_def)

end

definition drift_exceeds :: "drift_level \<Rightarrow> drift_level \<Rightarrow> bool" where
  "drift_exceeds a threshold \<longleftrightarrow> a > threshold"

record drift_observation =
  do_level :: drift_level
  do_timestamp :: instant
  do_query_hash :: query_hash

record drift_aggregator =
  da_observations :: "drift_observation list"
  da_max_observations :: nat
  da_alert_threshold :: drift_level
  da_alert_count_threshold :: nat

definition drift_new :: "nat \<Rightarrow> drift_level \<Rightarrow> nat \<Rightarrow> drift_aggregator" where
  "drift_new max_obs threshold alert_count =
     \<lparr>da_observations = [], da_max_observations = max_obs, da_alert_threshold = threshold,
      da_alert_count_threshold = alert_count\<rparr>"

definition drift_with_defaults :: drift_aggregator where
  "drift_with_defaults = drift_new 100 Moderate 10"

text \<open>The loop \<open>while len >= max { pop_front }\<close>; \<open>None\<close> is a loop that does not end.\<close>

partial_function (option) drift_trim :: "nat \<Rightarrow> drift_observation list \<Rightarrow> drift_observation list option" where
  "drift_trim max_obs obs =
     (if length obs \<ge> max_obs then drift_trim max_obs (tl obs) else Some obs)"

definition drift_record ::
  "instant \<Rightarrow> drift_level \<Rightarrow> query_hash \<Rightarrow> drift_aggregator \<Rightarrow> drift_aggregator option" where
  "drift_record now level hash agg =
     map_option (\<lambda>obs. agg\<lparr>da_observations :=
         obs @ [\<lparr>do_level = level, do_timestamp = now, do_query_hash = hash\<rparr>]\<rparr>)
       (drift_trim (da_max_observations agg) (da_observations agg))"

record drift_summary =
  ds_total_observations :: nat
  ds_level_counts :: "nat list"
  ds_alert_triggered :: bool
  ds_max_drift :: drift_level
  ds_drift_sum :: u32

definition drift_summary_of :: "drift_aggregator \<Rightarrow> drift_summary" where
  "drift_summary_of agg =
     (let obs = da_observations agg;
          counts = foldl (\<lambda>cs o'. cs[drift_index (do_level o') :=
                       usize_add (cs ! drift_index (do_level o')) 1]) (replicate 5 0) obs;
          drift_sum = foldl (\<lambda>s o'. sat_add s (of_nat (drift_index (do_level o')))) 0 obs;
          mx = foldl (\<lambda>m o'. if do_level o' > m then do_level o' else m) DriftNone obs;
          exceeding = length (filter (\<lambda>o'. do_level o' > da_alert_threshold agg) obs)
      in \<lparr>ds_total_observations = length obs, ds_level_counts = counts,
          ds_alert_triggered = (exceeding \<ge> da_alert_count_threshold agg),
          ds_max_drift = mx, ds_drift_sum = drift_sum\<rparr>)"

definition drift_should_alert :: "drift_aggregator \<Rightarrow> bool" where
  "drift_should_alert agg = ds_alert_triggered (drift_summary_of agg)"

definition drift_clear :: "drift_aggregator \<Rightarrow> drift_aggregator" where
  "drift_clear agg = agg\<lparr>da_observations := []\<rparr>"

section \<open>Lemmas\<close>

lemma validate_results_Inr_iff:
  "(\<exists>sz. validate_results acc rs = Inr sz) \<longleftrightarrow> (\<forall>r \<in> set rs. result_check r = None)"
  by (induction rs arbitrary: acc) (auto split: option.splits)

lemma validate_results_size:
  "\<forall>r \<in> set rs. result_check r = None \<Longrightarrow> validate_results acc rs = Inr (foldl result_size acc rs)"
  by (induction rs arbitrary: acc) auto

lemma result_size_mono: "a \<le> b \<Longrightarrow> result_size a r \<le> result_size b r"
  by (cases "sr_metadata r") (auto simp: result_size_def Let_def intro!: usize_add_mono)

lemma result_size_plus: "result_size (acc + k) r \<le> result_size acc r + k"
  by (cases "sr_metadata r") (auto simp: result_size_def usize_add_def Let_def min_def)

lemma foldl_result_size_plus:
  "a \<le> b + k \<Longrightarrow> foldl result_size a rs \<le> foldl result_size b rs + k"
proof (induction rs arbitrary: a b)
  case (Cons r rs)
  have "result_size a r \<le> result_size (b + k) r" by (rule result_size_mono [OF Cons.prems])
  also have "\<dots> \<le> result_size b r + k" by (rule result_size_plus)
  finally show ?case using Cons.IH by simp
qed simp

lemma drift_trim_returns:
  assumes "0 < max_obs"
  shows "drift_trim max_obs obs =
    Some (if length obs < max_obs then obs else drop (Suc (length obs) - max_obs) obs)"
proof (induction "length obs" arbitrary: obs)
  case 0
  then show ?case using assms by (subst drift_trim.simps) simp
next
  case (Suc n)
  show ?case
  proof (cases "length obs < max_obs")
    case True
    then show ?thesis by (subst drift_trim.simps) simp
  next
    case False
    have tl: "length (tl obs) = n" using Suc.hyps(2) by simp
    have "drift_trim max_obs obs = drift_trim max_obs (tl obs)"
      using False by (subst drift_trim.simps) simp
    also have "\<dots> = Some (if length (tl obs) < max_obs then tl obs
        else drop (Suc (length (tl obs)) - max_obs) (tl obs))"
      by (rule Suc.hyps(1)) (simp add: Suc.hyps(2) [symmetric])
    also have "\<dots> = Some (drop (Suc (length obs) - max_obs) obs)"
      using False tl Suc.hyps(2) assms
      by (auto simp: drop_Suc Suc_diff_le not_less le_Suc_eq)
    finally show ?thesis using False by simp
  qed
qed

lemma drift_trim_zero: "drift_trim 0 obs = None"
proof (cases "drift_trim 0 obs")
  case (Some r)
  have "0 < (0 :: nat)"
    by (rule drift_trim.raw_induct [where P = "\<lambda>max_obs obs r. 0 < max_obs", OF _ Some])
      (auto split: if_splits)
  then show ?thesis by simp
qed simp

lemma le_bytes_u32_inj: "le_bytes_u32 x = le_bytes_u32 y \<Longrightarrow> x = y"
proof (rule bit_word_eqI)
  fix n assume eq: "le_bytes_u32 x = le_bytes_u32 y" and "n < LENGTH(32)"
  then have n: "n div 8 < 4" by simp
  have "le_bytes_u32 x ! (n div 8) = le_bytes_u32 y ! (n div 8)" using eq by simp
  then have "bit (ucast (drop_bit (8 * (n div 8)) x) :: u8) (n mod 8) =
      bit (ucast (drop_bit (8 * (n div 8)) y) :: u8) (n mod 8)"
    using n by (simp add: le_bytes_u32_def)
  then show "bit x n = bit y n" by (simp add: bit_simps)
qed

lemma length_le_bytes [simp]: "length (le_bytes_u32 x) = 4" "length (le_bytes_u64 y) = 8"
  by (simp_all add: le_bytes_u32_def le_bytes_u64_def)

lemma as_bytes_append [simp]: "as_bytes (a @ b) = as_bytes a @ as_bytes b"
  by (simp add: as_bytes_def)

section \<open>Properties\<close>

text \<open>C38. A query is accepted exactly when it has a character other than white space, is at
  most 10000 bytes of UTF-8 long, has no control character below space except tab, line feed and
  carriage return, and asks for at most 1000 results; what it then asks for is never more than
  1000.\<close>

theorem request_validate_accepts:
  "(request_validate r = Inr () \<longleftrightarrow>
     (\<exists>c \<in> set (rq_query r). \<not> is_whitespace c) \<and> str_len (rq_query r) \<le> 10000 \<and>
     (\<forall>c \<in> set (rq_query r). 32 \<le> c \<or> c \<in> {9, 10, 13}) \<and>
     (case rq_top_k r of Some k \<Rightarrow> k \<le> 1000 | None \<Rightarrow> True))
   \<and> effective_top_k r \<le> 1000
   \<and> (request_validate r = Inr () \<longrightarrow> effective_top_k r = (case rq_top_k r of Some k \<Rightarrow> k | None \<Rightarrow> 10))"
proof -
  have ctl: "list_ex (\<lambda>c. c < 32 \<and> c \<noteq> 9 \<and> c \<noteq> 10 \<and> c \<noteq> 13) q \<longleftrightarrow>
      \<not> (\<forall>c \<in> set q. 32 \<le> c \<or> c \<in> {9, 10, 13})" for q :: rstr
    by (auto simp: list_ex_iff not_le)
  have zero: "0 \<in> set q \<Longrightarrow> \<not> (\<forall>c \<in> set q. 32 \<le> c \<or> c \<in> {9, 10, 13})" for q :: rstr
    by force
  show ?thesis
    using zero [of "rq_query r"]
    by (cases "rq_top_k r")
      (auto simp: request_validate_def ctl trim_eq_Nil effective_top_k_def max_query_length_def
        max_top_k_def default_top_k_def simp del: insert_iff)
qed

theorem request_validate_accepts_witness:
  "request_validate \<lparr>rq_query = lit ''a b'', rq_top_k = Some 5, rq_priority = None,
     rq_upstream_id = None, rq_upstream_type = None\<rparr> = Inr ()"
  using request_validate_accepts [of "\<lparr>rq_query = lit ''a b'', rq_top_k = Some 5, rq_priority = None,
     rq_upstream_id = None, rq_upstream_type = None\<rparr>"]
  by (simp add: lit_def is_whitespace_def str_len_def utf8_len_def)

text \<open>A response is accepted exactly when it has at most 1000 results, every result passes
  its own checks, and the size accumulated over the results is at most 10 MB; the approximate size
  of an accepted response, as the cache accounts it, is at most that bound plus the 16 bytes it
  starts from.\<close>

theorem response_validate_accepts:
  "(response_validate resp = Inr () \<longleftrightarrow>
     length (qr_results resp) \<le> 1000 \<and> (\<forall>r \<in> set (qr_results resp). result_check r = None) \<and>
     foldl result_size 0 (qr_results resp) \<le> 10000000)
   \<and> (response_validate resp = Inr () \<longrightarrow> response_approximate_size resp \<le> 10000016)"
proof -
  let ?rs = "qr_results resp"
  have acc: "response_validate resp = Inr () \<longleftrightarrow> length ?rs \<le> 1000 \<and>
      (\<forall>r \<in> set ?rs. result_check r = None) \<and> foldl result_size 0 ?rs \<le> 10000000"
  proof (cases "\<forall>r \<in> set ?rs. result_check r = None")
    case True
    then show ?thesis
      using validate_results_size [OF True, of 0]
      by (simp add: response_validate_def max_results_def max_response_size_def not_less)
  next
    case False
    then have "\<nexists>sz. validate_results 0 ?rs = Inr sz" using validate_results_Inr_iff by metis
    then show ?thesis using False
      by (auto simp: response_validate_def split: sum.splits)
  qed
  have "response_approximate_size resp \<le> foldl result_size 0 ?rs + 16"
    unfolding response_approximate_size_def by (rule foldl_result_size_plus) simp
  with acc show ?thesis by auto
qed

theorem response_validate_accepts_witness:
  "response_validate \<lparr>qr_results = [\<lparr>sr_id = lit ''a'', sr_score = 0, sr_content = lit ''xy'',
      sr_metadata = None, sr_upstream_id = None\<rparr>], qr_cache_status = Miss, qr_took_ms = 1,
      qr_generated_at = None, qr_miss_reason = None\<rparr> = Inr ()"
  using response_validate_accepts [of "\<lparr>qr_results = [\<lparr>sr_id = lit ''a'', sr_score = 0,
      sr_content = lit ''xy'', sr_metadata = None, sr_upstream_id = None\<rparr>],
      qr_cache_status = Miss, qr_took_ms = 1, qr_generated_at = None, qr_miss_reason = None\<rparr>"]
  by (simp add: lit_def result_check_def f32_is_nan_def f32_is_infinite_def f32_exponent_def
      is_control_def str_len_def utf8_len_def max_content_length_def result_size_def
      usize_add_def usize_max_def)

text \<open>The saturating arithmetic of the freshness window gives the exact verdict: a response
  is accepted exactly when its timestamp, if it has one, lies in the interval from the maximal
  age before now to the tolerance after now, computed without overflow; and the age that a
  rejection reports is the exact one.\<close>

theorem validate_timestamp_exact:
  "(validate_timestamp max_age now_ms tol resp = Inr () \<longleftrightarrow>
     (case qr_generated_at resp of
        None \<Rightarrow> True
      | Some g \<Rightarrow> unat g \<le> unat now_ms + unat tol \<and> unat now_ms \<le> unat g + unat max_age))
   \<and> (\<forall>age m. validate_timestamp max_age now_ms tol resp = Inl (TimestampTooOld age m) \<longrightarrow>
        m = max_age \<and> (\<exists>g. qr_generated_at resp = Some g \<and> unat g + unat age = unat now_ms \<and>
          unat max_age < unat age))"
proof (cases "qr_generated_at resp")
  case None
  then show ?thesis by (simp add: validate_timestamp_def)
next
  case (Some g)
  have fut: "g > sat_add now_ms tol \<longleftrightarrow> unat now_ms + unat tol < unat g"
    using unat_bound [of g] by (simp add: word_less_nat_alt unat_sat_add min_def not_le)
  have old: "g < sat_sub now_ms max_age \<longleftrightarrow> unat g + unat max_age < unat now_ms"
    by (simp add: word_less_nat_alt unat_sat_sub less_diff_conv)
  show ?thesis using Some
    by (auto simp: validate_timestamp_def fut old not_less unat_sat_sub)
qed

theorem validate_timestamp_exact_witness:
  "validate_timestamp 5000 1000 (-1) \<lparr>qr_results = [], qr_cache_status = Miss, qr_took_ms = 0,
     qr_generated_at = Some 7, qr_miss_reason = None\<rparr> = Inr ()"
  using validate_timestamp_exact [of 5000 1000 "-1" "\<lparr>qr_results = [], qr_cache_status = Miss,
     qr_took_ms = 0, qr_generated_at = Some 7, qr_miss_reason = None\<rparr>"]
  by simp

text \<open>With a supported algorithm, an enabled check accepts exactly the signature that
  \<open>sign\<close> computes for the body; with an unsupported one it accepts none; a missing header is
  rejected; a disabled check accepts everything.\<close>

theorem signature_verify_accepts:
  "signature_verify E cfg body sig = Inr () \<longleftrightarrow>
     \<not> sig_enabled cfg \<or>
     (sig_algorithm cfg \<in> {lit ''HMAC-SHA256'', lit ''BLAKE3''} \<and>
      sig = Some (signature_sign E cfg body))"
  by (auto simp: signature_verify_def signature_sign_def Let_def split: option.splits)

theorem signature_verify_accepts_witness:
  "signature_verify trivial_env (signature_hmac_sha256 [7]) [1, 2] (Some [7, 1, 2]) = Inr ()
   \<and> signature_verify trivial_env (signature_hmac_sha256 [7]) [1, 2] (Some [7, 1, 3]) \<noteq> Inr ()
   \<and> signature_verify trivial_env (signature_hmac_sha256 [7]) [1, 2] None \<noteq> Inr ()"
  using signature_verify_accepts [of trivial_env "signature_hmac_sha256 [7]" "[1, 2]"]
  by (simp add: signature_hmac_sha256_def signature_sign_def keyed_hex_def derive_blake3_key_def
      trivial_env_def)

text \<open>An entry passes its integrity check as created; after the score of any one of its results
  is changed, what is hashed is a different byte string, so that the change goes undetected only by
  a collision of blake3 on these two strings.\<close>

theorem integrity_detects_score_change:
  assumes "qr_results resp = xs @ r # ys" and "s \<noteq> sr_score r"
  shows "let e = entry_new_with_query E now wall resp up schema q ctx;
             resp' = resp\<lparr>qr_results := xs @ r\<lparr>sr_score := s\<rparr> # ys\<rparr>;
             hashed = (\<lambda>p. le_bytes_u64 (of_nat (length (qr_results p)))
                              @ concat (map (result_bytes E) (qr_results p)))
         in entry_verify_integrity E e \<and> hashed resp' \<noteq> hashed resp
          \<and> (entry_verify_integrity E (e\<lparr>ce_response := resp'\<rparr>) \<longleftrightarrow>
               blake3 E (hashed resp') = blake3 E (hashed resp))"
  using assms le_bytes_u32_inj [of "sr_score r" s]
  by (auto simp: entry_verify_integrity_def entry_new_with_query_def compute_content_hash_def
      result_bytes_def Let_def append_eq_append_conv split: option.splits)

theorem integrity_detects_score_change_witness:
  "\<not> entry_verify_integrity trivial_env ((entry_new_with_query trivial_env 0 0
        (response_of [\<lparr>sr_id = lit ''a'', sr_score = 1, sr_content = lit ''c'', sr_metadata = None,
           sr_upstream_id = None\<rparr>]) [] schema_default [] [])
      \<lparr>ce_response := (response_of [\<lparr>sr_id = lit ''a'', sr_score = 1, sr_content = lit ''c'',
           sr_metadata = None, sr_upstream_id = None\<rparr>])
        \<lparr>qr_results := [] @ \<lparr>sr_id = lit ''a'', sr_score = 1, sr_content = lit ''c'',
           sr_metadata = None, sr_upstream_id = None\<rparr>\<lparr>sr_score := 2\<rparr> # []\<rparr>\<rparr>)"
  using integrity_detects_score_change [of "response_of [\<lparr>sr_id = lit ''a'',
      sr_score = 1, sr_content = lit ''c'', sr_metadata = None, sr_upstream_id = None\<rparr>]" "[]"
      "\<lparr>sr_id = lit ''a'', sr_score = 1, sr_content = lit ''c'', sr_metadata = None,
        sr_upstream_id = None\<rparr>" "[]" 2 trivial_env 0 0 "[]" schema_default "[]" "[]"]
  by (simp add: trivial_env_def response_of_def Let_def)

text \<open>The integrity hash does not delimit the fields of a result: moving the text of the
  metadata to the end of the content leaves the hash unchanged, for every hash function.\<close>

theorem content_hash_ignores_field_boundary:
  "compute_content_hash E (resp\<lparr>qr_results := xs @ r\<lparr>sr_metadata := Some m\<rparr> # ys\<rparr>) =
   compute_content_hash E (resp\<lparr>qr_results := xs @ r\<lparr>sr_content := sr_content r @ json_to_string E m,
      sr_metadata := None\<rparr> # ys\<rparr>)"
  by (simp add: compute_content_hash_def result_bytes_def)

text \<open>Recording a drift observation returns exactly when the window size is positive; then
  the window keeps the newest observations, at most the maximum of them, and otherwise the loop
  that makes room never ends.\<close>

theorem drift_record_returns:
  assumes "length (da_observations agg) \<le> da_max_observations agg"
  shows "(da_max_observations agg = 0 \<longrightarrow> drift_record now level h agg = None)
    \<and> (0 < da_max_observations agg \<longrightarrow> (\<exists>agg'. drift_record now level h agg = Some agg' \<and>
        length (da_observations agg') \<le> da_max_observations agg' \<and>
        da_max_observations agg' = da_max_observations agg \<and>
        da_observations agg' =
          drop (length (da_observations agg) - (da_max_observations agg - 1)) (da_observations agg)
          @ [\<lparr>do_level = level, do_timestamp = now, do_query_hash = h\<rparr>]))"
  using assms
  by (auto simp: drift_record_def drift_trim_zero drift_trim_returns)

theorem drift_record_returns_witness:
  "\<exists>agg'. drift_record 5 Major [1] \<lparr>da_observations = [\<lparr>do_level = Minor, do_timestamp = 1,
        do_query_hash = []\<rparr>], da_max_observations = 1, da_alert_threshold = Minor,
        da_alert_count_threshold = 1\<rparr> = Some agg' \<and>
      da_observations agg' = [\<lparr>do_level = Major, do_timestamp = 5, do_query_hash = [1]\<rparr>]"
  using drift_record_returns [of "\<lparr>da_observations = [\<lparr>do_level = Minor, do_timestamp = 1,
        do_query_hash = []\<rparr>], da_max_observations = 1, da_alert_threshold = Minor,
        da_alert_count_threshold = 1\<rparr>" 5 Major "[1]"]
  by auto

end
