(* ===== verification/Floats.thy ===== *)
theory Floats
  imports Complex_Main "HOL-Library.Log_Nat" Types
begin

text \<open>
  The \<open>f32\<close> arithmetic that the proxy computes with: values are NaN, an infinity or a rational,
  and every operation rounds its exact result to the nearest 24-bit significand, ties to even,
  as IEEE 754 and Rust prescribe. Zero has no sign here: no operation of the proxy divides by it.
\<close>

datatype fl = NaN | Inf bool | Fin rat

section \<open>Rounding\<close>

definition pow2 :: "int \<Rightarrow> rat" where
  "pow2 e = (if 0 \<le> e then 2 ^ nat e else 1 / 2 ^ nat (- e))"

text \<open>The exponent of the binade of a positive rational.\<close>

definition binade :: "rat \<Rightarrow> int" where
  "binade x = (let (a, b) = quotient_of x; e = bitlen a - bitlen b
               in if pow2 e \<le> x then e else e - 1)"

definition round_half_even :: "rat \<Rightarrow> int" where
  "round_half_even x =
     (let f = \<lfloor>x\<rfloor>; d = x - of_int f
      in if d < 1 / 2 then f else if d > 1 / 2 then f + 1 else if even f then f else f + 1)"

definition round_at :: "int \<Rightarrow> rat \<Rightarrow> rat" where
  "round_at e x = of_int (round_half_even (x / pow2 e)) * pow2 e"

definition f32_round_pos :: "rat \<Rightarrow> fl" where
  "f32_round_pos x =
     (let r = round_at (max (binade x) (- 126) - 23) x
      in if r < 2 ^ 128 then Fin r else Inf False)"

definition f32_round :: "rat \<Rightarrow> fl" where
  "f32_round x =
     (if x = 0 then Fin 0
      else if 0 < x then f32_round_pos x
      else case f32_round_pos (- x) of Fin r \<Rightarrow> Fin (- r) | Inf b \<Rightarrow> Inf (\<not> b) | NaN \<Rightarrow> NaN)"

section \<open>Operations\<close>

definition f32_decode :: "f32 \<Rightarrow> fl" where
  "f32_decode w =
     (let neg = (bit w 31); ex = f32_exponent w; m = f32_mantissa w;
          sgn = (if neg then - 1 else 1)
      in if ex = 255 then (if m = 0 then Inf neg else NaN)
         else if ex = 0 then Fin (sgn * of_nat m * pow2 (- 149))
         else Fin (sgn * of_nat (2 ^ 23 + m) * pow2 (int ex - 150)))"

text \<open>The literal \<open>0.1\<close> of type \<open>f32\<close> is the bit pattern 0x3DCCCCCD.\<close>

definition f32_one_tenth :: fl where
  "f32_one_tenth = f32_decode 0x3DCCCCCD"

fun fl_neg :: "fl \<Rightarrow> bool" where
  "fl_neg (Fin x) = (x < 0)"
| "fl_neg (Inf b) = b"
| "fl_neg NaN = False"

fun fl_mul :: "fl \<Rightarrow> fl \<Rightarrow> fl" where
  "fl_mul (Fin x) (Fin y) = f32_round (x * y)"
| "fl_mul NaN _ = NaN"
| "fl_mul _ NaN = NaN"
| "fl_mul (Inf a) y = (if y = Fin 0 then NaN else Inf (a \<noteq> fl_neg y))"
| "fl_mul x (Inf b) = (if x = Fin 0 then NaN else Inf (fl_neg x \<noteq> b))"

fun fl_add :: "fl \<Rightarrow> fl \<Rightarrow> fl" where
  "fl_add (Fin x) (Fin y) = f32_round (x + y)"
| "fl_add NaN _ = NaN"
| "fl_add _ NaN = NaN"
| "fl_add (Inf a) (Inf b) = (if a = b then Inf a else NaN)"
| "fl_add (Inf a) (Fin _) = Inf a"
| "fl_add (Fin _) (Inf b) = Inf b"

text \<open>Division by a positive finite constant.\<close>

fun fl_div_const :: "fl \<Rightarrow> rat \<Rightarrow> fl" where
  "fl_div_const (Fin x) c = f32_round (x / c)"
| "fl_div_const (Inf a) c = Inf a"
| "fl_div_const NaN c = NaN"

fun fl_le_zero :: "fl \<Rightarrow> bool" where
  "fl_le_zero (Fin x) = (x \<le> 0)"
| "fl_le_zero (Inf b) = b"
| "fl_le_zero NaN = False"

definition nat_as_f32 :: "nat \<Rightarrow> fl" where
  "nat_as_f32 n = f32_round (of_nat n)"

text \<open>The cast \<open>as u64\<close> truncates and saturates; NaN becomes 0.\<close>

fun fl_as_u64 :: "fl \<Rightarrow> nat" where
  "fl_as_u64 NaN = 0"
| "fl_as_u64 (Inf b) = (if b then 0 else 2 ^ 64 - 1)"
| "fl_as_u64 (Fin x) = min (nat \<lfloor>x\<rfloor>) (2 ^ 64 - 1)"

text \<open>\<open>f32::clamp(0.0, 1.0)\<close>.\<close>

fun fl_clamp01 :: "fl \<Rightarrow> fl" where
  "fl_clamp01 NaN = NaN"
| "fl_clamp01 (Inf b) = Fin (if b then 0 else 1)"
| "fl_clamp01 (Fin x) = Fin (if x < 0 then 0 else if x > 1 then 1 else x)"

text \<open>\<open>Duration::as_secs_f32\<close>.\<close>

definition as_secs_f32 :: "duration \<Rightarrow> fl" where
  "as_secs_f32 d =
     fl_add (nat_as_f32 (d div 10 ^ 9)) (fl_div_const (nat_as_f32 (d mod 10 ^ 9)) (10 ^ 9))"

section \<open>Bounds\<close>

definition fl_within :: "rat \<Rightarrow> fl \<Rightarrow> bool" where
  "fl_within b x \<longleftrightarrow> (case x of Fin r \<Rightarrow> 0 \<le> r \<and> r \<le> b | Inf _ \<Rightarrow> False | NaN \<Rightarrow> True)"

lemma pow2_pos [simp]: "0 < pow2 e"
  by (simp add: pow2_def)

lemma round_half_even_le: "0 \<le> y \<Longrightarrow> of_int (round_half_even y) \<le> 2 * y"
proof -
  assume y: "0 \<le> y"
  define f where "f = \<lfloor>y\<rfloor>"
  have fl: "of_int f \<le> y" "y < of_int f + 1"
    using floor_correct [of y] by (simp_all add: f_def)
  have f0: "0 \<le> f" using y by (simp add: f_def)
  show ?thesis
  proof (cases "f = 0")
    case True
    then show ?thesis using y fl by (simp add: round_half_even_def f_def [symmetric])
  next
    case False
    then have "(1 :: rat) \<le> of_int f" using f0 by simp
    then show ?thesis using y fl by (auto simp: round_half_even_def f_def [symmetric] Let_def)
  qed
qed

lemma round_half_even_nonneg: "0 \<le> y \<Longrightarrow> 0 \<le> round_half_even y"
  by (simp add: round_half_even_def Let_def)

lemma round_at_bounds: "0 \<le> x \<Longrightarrow> 0 \<le> round_at e x \<and> round_at e x \<le> 2 * x"
proof -
  assume x: "0 \<le> x"
  have y: "0 \<le> x / pow2 e" using x by (simp add: less_imp_le)
  have "of_int (round_half_even (x / pow2 e)) * pow2 e \<le> 2 * (x / pow2 e) * pow2 e"
    using round_half_even_le [OF y] by (intro mult_right_mono) (simp_all add: less_imp_le)
  moreover have "pow2 e \<noteq> 0" using pow2_pos [of e] by linarith
  ultimately show ?thesis using round_half_even_nonneg [OF y]
    by (simp add: round_at_def less_imp_le)
qed

lemma f32_round_within:
  assumes "0 \<le> x" and "2 * x < 2 ^ 128"
  shows "fl_within (2 * x) (f32_round x)"
  using assms round_at_bounds [of x "max (binade x) (- 126) - 23"]
  by (auto simp: f32_round_def f32_round_pos_def fl_within_def Let_def)

lemma fl_mul_within:
  assumes "fl_within a x" "fl_within b y" "2 * (a * b) < 2 ^ 128"
  shows "fl_within (2 * (a * b)) (fl_mul x y)"
proof (cases "(x, y)" rule: fl_mul.cases)
  case (1 r s)
  then have rs: "0 \<le> r" "r \<le> a" "0 \<le> s" "s \<le> b" using assms by (simp_all add: fl_within_def)
  then have le: "r * s \<le> a * b" by (intro mult_mono) simp_all
  then have "fl_within (2 * (r * s)) (f32_round (r * s))"
    using assms(3) rs by (intro f32_round_within) simp_all
  then show ?thesis using 1 le by (auto simp: fl_within_def split: fl.splits)
qed (use assms in \<open>auto simp: fl_within_def split: fl.splits\<close>)

lemma fl_add_within:
  assumes "fl_within a x" "fl_within b y" "2 * (a + b) < 2 ^ 128"
  shows "fl_within (2 * (a + b)) (fl_add x y)"
proof (cases "(x, y)" rule: fl_add.cases)
  case (1 r s)
  then have rs: "0 \<le> r" "r \<le> a" "0 \<le> s" "s \<le> b" using assms by (simp_all add: fl_within_def)
  then have "fl_within (2 * (r + s)) (f32_round (r + s))"
    using assms(3) by (intro f32_round_within) simp_all
  then show ?thesis using 1 rs by (auto simp: fl_within_def split: fl.splits)
qed (use assms in \<open>auto simp: fl_within_def split: fl.splits\<close>)

lemma fl_div_const_within:
  assumes "fl_within a x" "0 < c" "2 * (a / c) < 2 ^ 128"
  shows "fl_within (2 * (a / c)) (fl_div_const x c)"
proof (cases x)
  case (Fin r)
  then have r: "0 \<le> r" "r \<le> a" using assms by (simp_all add: fl_within_def)
  then have le: "r / c \<le> a / c" using assms(2) by (simp add: divide_right_mono)
  then have "fl_within (2 * (r / c)) (f32_round (r / c))"
    using assms r by (intro f32_round_within) simp_all
  then show ?thesis using Fin le by (auto simp: fl_within_def split: fl.splits)
qed (use assms in \<open>auto simp: fl_within_def\<close>)

lemma nat_as_f32_within: "n < 2 ^ 64 \<Longrightarrow> fl_within (2 * of_nat n) (nat_as_f32 n)"
proof -
  assume "n < 2 ^ 64"
  then have "of_nat n < (2 ^ 64 :: rat)" by (simp flip: of_nat_power_eq_of_nat_cancel_iff)
  then show ?thesis unfolding nat_as_f32_def by (intro f32_round_within) simp_all
qed

lemma fl_as_u64_le: "fl_within b x \<Longrightarrow> of_nat (fl_as_u64 x) \<le> max b 0"
proof (cases x)
  case (Fin r)
  assume "fl_within b x"
  then have r: "0 \<le> r" "r \<le> b" using Fin by (simp_all add: fl_within_def)
  have "of_nat (fl_as_u64 x) \<le> (of_nat (nat \<lfloor>r\<rfloor>) :: rat)"
    unfolding of_nat_le_iff by (simp add: Fin)
  also have "\<dots> \<le> r" using r by simp
  finally show ?thesis using r by simp
qed (auto simp: fl_within_def)

end
