(* ===== verification/Cdc.thy ===== *)
theory Cdc
  imports Types
begin

text \<open>
  Change data capture, \<open>src/src/proxy/cdc/\<close>: the events that cache mutations publish, the sender
  with its per-node sequence counter, the conversion to and from the wire form, and the delivery
  loop of a subscriber.

  The broadcast channel of \<open>tokio\<close> is seen through two things: the number of its receivers and
  the list of the events handed to it, in order. A wall clock reading is a \<open>system_time\<close>.
\<close>

section \<open>Events\<close>

datatype cdc_event_type = CdcInsert | CdcRemove | FetchStart | FetchCancel

fun to_proto :: "cdc_event_type \<Rightarrow> int" where
  "to_proto CdcInsert = 1"
| "to_proto CdcRemove = 2"
| "to_proto FetchStart = 3"
| "to_proto FetchCancel = 4"

definition from_proto :: "int \<Rightarrow> cdc_event_type option" where
  "from_proto value =
     (if value = 1 then Some CdcInsert
      else if value = 2 then Some CdcRemove
      else if value = 3 then Some FetchStart
      else if value = 4 then Some FetchCancel
      else None)"

fun event_type_as_str :: "cdc_event_type \<Rightarrow> rstr" where
  "event_type_as_str CdcInsert = lit ''insert''"
| "event_type_as_str CdcRemove = lit ''remove''"
| "event_type_as_str FetchStart = lit ''fetch_start''"
| "event_type_as_str FetchCancel = lit ''fetch_cancel''"

record cdc_event =
  ev_sequence :: u64
  ev_timestamp_ms :: u64
  ev_event_type :: cdc_event_type
  ev_query_key :: rstr
  ev_payload :: "u8 list"
  ev_upstream_id :: rstr
  ev_context_id :: rstr
  ev_origin_node_id :: rstr
  ev_absolute_expiry_ms :: u64

text \<open>Milliseconds since the epoch, 0 for a clock before it.\<close>

definition now_ms :: "system_time \<Rightarrow> u64" where
  "now_ms wall = (if wall < 0 then 0 else of_nat (as_millis (nat wall)))"

definition event_is_expired :: "system_time \<Rightarrow> cdc_event \<Rightarrow> bool" where
  "event_is_expired wall ev =
     (if ev_absolute_expiry_ms ev = 0 then False
      else now_ms wall \<ge> ev_absolute_expiry_ms ev)"

record cdc_event_builder =
  eb_query_key :: rstr
  eb_payload :: "u8 list"
  eb_upstream_id :: rstr
  eb_context_id :: rstr
  eb_absolute_expiry_ms :: u64

definition builder_insert :: "rstr \<Rightarrow> u8 list \<Rightarrow> rstr \<Rightarrow> cdc_event_builder" where
  "builder_insert query_key payload upstream_id =
     \<lparr>eb_query_key = query_key, eb_payload = payload, eb_upstream_id = upstream_id,
      eb_context_id = [], eb_absolute_expiry_ms = 0\<rparr>"

definition builder_remove :: "rstr \<Rightarrow> cdc_event_builder" where
  "builder_remove query_key =
     \<lparr>eb_query_key = query_key, eb_payload = [], eb_upstream_id = [],
      eb_context_id = [], eb_absolute_expiry_ms = 0\<rparr>"

definition builder_fetch_start :: "rstr \<Rightarrow> cdc_event_builder" where
  "builder_fetch_start query_key =
     \<lparr>eb_query_key = query_key, eb_payload = [], eb_upstream_id = [],
      eb_context_id = [], eb_absolute_expiry_ms = 0\<rparr>"

definition builder_fetch_cancel :: "rstr \<Rightarrow> cdc_event_builder" where
  "builder_fetch_cancel query_key =
     \<lparr>eb_query_key = query_key, eb_payload = [], eb_upstream_id = [],
      eb_context_id = [], eb_absolute_expiry_ms = 0\<rparr>"

definition builder_with_context :: "rstr \<Rightarrow> cdc_event_builder \<Rightarrow> cdc_event_builder" where
  "builder_with_context context_id b = b\<lparr>eb_context_id := context_id\<rparr>"

definition builder_with_expiry :: "u64 \<Rightarrow> cdc_event_builder \<Rightarrow> cdc_event_builder" where
  "builder_with_expiry expiry b = b\<lparr>eb_absolute_expiry_ms := expiry\<rparr>"

section \<open>The sender\<close>

record event_sender =
  es_published :: "cdc_event list"
  es_receivers :: nat
  es_sequence :: u64
  es_node_id :: rstr

definition sender_new :: "rstr \<Rightarrow> event_sender" where
  "sender_new node_id =
     \<lparr>es_published = [], es_receivers = 0, es_sequence = 1, es_node_id = node_id\<rparr>"

text \<open>\<open>fetch_add\<close> wraps. The result is the number of receivers the event reached.\<close>

definition sender_send ::
  "system_time \<Rightarrow> cdc_event_type \<Rightarrow> cdc_event_builder \<Rightarrow> event_sender \<Rightarrow> nat \<times> event_sender" where
  "sender_send wall event_type b s =
     (es_receivers s,
      s\<lparr>es_sequence := es_sequence s + 1,
        es_published := es_published s @
          [\<lparr>ev_sequence = es_sequence s, ev_timestamp_ms = now_ms wall,
            ev_event_type = event_type, ev_query_key = eb_query_key b,
            ev_payload = eb_payload b, ev_upstream_id = eb_upstream_id b,
            ev_context_id = eb_context_id b, ev_origin_node_id = es_node_id s,
            ev_absolute_expiry_ms = eb_absolute_expiry_ms b\<rparr>]\<rparr>)"

definition sender_subscribe :: "event_sender \<Rightarrow> event_sender" where
  "sender_subscribe s = s\<lparr>es_receivers := es_receivers s + 1\<rparr>"

section \<open>The wire form\<close>

record proto_event =
  pe_sequence :: u64
  pe_timestamp_ms :: u64
  pe_event_type :: int
  pe_query_key :: rstr
  pe_payload :: "u8 list"
  pe_upstream_id :: rstr
  pe_context_id :: rstr
  pe_origin_node_id :: rstr
  pe_absolute_expiry_ms :: u64

definition internal_to_proto :: "cdc_event \<Rightarrow> proto_event" where
  "internal_to_proto ev =
     \<lparr>pe_sequence = ev_sequence ev, pe_timestamp_ms = ev_timestamp_ms ev,
      pe_event_type = to_proto (ev_event_type ev), pe_query_key = ev_query_key ev,
      pe_payload = ev_payload ev, pe_upstream_id = ev_upstream_id ev,
      pe_context_id = ev_context_id ev, pe_origin_node_id = ev_origin_node_id ev,
      pe_absolute_expiry_ms = ev_absolute_expiry_ms ev\<rparr>"

definition proto_to_internal :: "proto_event \<Rightarrow> cdc_event option" where
  "proto_to_internal pe =
     (case from_proto (pe_event_type pe) of
        None \<Rightarrow> None
      | Some event_type \<Rightarrow> Some
          \<lparr>ev_sequence = pe_sequence pe, ev_timestamp_ms = pe_timestamp_ms pe,
           ev_event_type = event_type, ev_query_key = pe_query_key pe,
           ev_payload = pe_payload pe, ev_upstream_id = pe_upstream_id pe,
           ev_context_id = pe_context_id pe, ev_origin_node_id = pe_origin_node_id pe,
           ev_absolute_expiry_ms = pe_absolute_expiry_ms pe\<rparr>)"

section \<open>The subscription stream\<close>

definition parse_event_filter :: "rstr list \<Rightarrow> cdc_event_type list" where
  "parse_event_filter names = List.map_filter (\<lambda>s.
     if s = lit ''insert'' then Some CdcInsert
     else if s = lit ''remove'' then Some CdcRemove
     else if s = lit ''fetch_start'' then Some FetchStart
     else if s = lit ''fetch_cancel'' then Some FetchCancel
     else None) names"

datatype recv_outcome = RecvOk cdc_event | RecvLagged u64 | RecvClosed

text \<open>The delivery loop: the outcomes of \<open>recv\<close>, and for each attempted send to the client
  whether the client is still connected. The result is what the client received.\<close>

fun stream_loop :: "cdc_event_type list \<Rightarrow> recv_outcome list \<Rightarrow> bool list \<Rightarrow> proto_event list" where
  "stream_loop flt [] sends = []"
| "stream_loop flt (RecvOk ev # rs) sends =
     (if flt \<noteq> [] \<and> ev_event_type ev \<notin> set flt then stream_loop flt rs sends
      else case sends of
             True # sends' \<Rightarrow> internal_to_proto ev # stream_loop flt rs sends'
           | _ \<Rightarrow> [])"
| "stream_loop flt (RecvLagged _ # rs) sends = stream_loop flt rs sends"
| "stream_loop flt (RecvClosed # rs) sends = []"

section \<open>Lemmas\<close>

fun send_all :: "(system_time \<times> cdc_event_type \<times> cdc_event_builder) list \<Rightarrow> event_sender \<Rightarrow> event_sender" where
  "send_all [] s = s"
| "send_all ((wall, ty, b) # ms) s = send_all ms (snd (sender_send wall ty b s))"

lemma from_to_proto [simp]: "from_proto (to_proto t) = Some t"
  by (cases t) (simp_all add: from_proto_def)

lemma from_proto_Some: "from_proto v = Some t \<longleftrightarrow> v = to_proto t"
  by (cases t) (auto simp: from_proto_def split: if_splits)

lemma from_proto_None: "from_proto v = None \<longleftrightarrow> v \<notin> {1, 2, 3, 4}"
  by (simp add: from_proto_def)

lemma sender_send_simps [simp]:
  "es_sequence (snd (sender_send w t b s)) = es_sequence s + 1"
  "es_node_id (snd (sender_send w t b s)) = es_node_id s"
  "map ev_sequence (es_published (snd (sender_send w t b s))) =
     map ev_sequence (es_published s) @ [es_sequence s]"
  "map ev_event_type (es_published (snd (sender_send w t b s))) =
     map ev_event_type (es_published s) @ [t]"
  by (simp_all add: sender_send_def)

lemma sequences_send_all:
  "map ev_sequence (es_published (send_all ms s)) =
     map ev_sequence (es_published s) @ map (\<lambda>i. es_sequence s + of_nat i) [0..<length ms]"
proof (induction ms arbitrary: s)
  case (Cons m ms)
  obtain w t b where m: "m = (w, t, b)" by (cases m)
  have "[0..<length (m # ms)] = 0 # map Suc [0..<length ms]"
    by (simp add: upt_conv_Cons map_Suc_upt del: upt_Suc)
  then show ?case using m Cons.IH [of "snd (sender_send w t b s)"]
    by (simp add: comp_def algebra_simps del: upt_Suc)
qed simp

lemma stream_loop_connected:
  "stream_loop flt (map RecvOk evs) (replicate (length evs) True @ rest) =
     map internal_to_proto (filter (\<lambda>ev. flt = [] \<or> ev_event_type ev \<in> set flt) evs)"
proof (induction evs arbitrary: rest)
  case (Cons ev evs)
  show ?case
    using Cons.IH [of "True # rest"] Cons.IH [of rest]
    by (auto simp: replicate_app_Cons_same)
qed simp

section \<open>Properties\<close>

text \<open>The wire form loses nothing: converting an event to it and back gives the event, a wire
  event converts exactly when its type is one of the four known numbers, and then converting back
  gives the wire event.\<close>

theorem cdc_wire_roundtrip:
  "proto_to_internal (internal_to_proto ev) = Some ev
   \<and> (proto_to_internal pe = None \<longleftrightarrow> pe_event_type pe \<notin> {1, 2, 3, 4})
   \<and> (proto_to_internal pe = Some ev' \<longrightarrow> internal_to_proto ev' = pe)"
proof (intro conjI)
  show "proto_to_internal pe = None \<longleftrightarrow> pe_event_type pe \<notin> {1, 2, 3, 4}"
    unfolding from_proto_None [symmetric] by (simp add: proto_to_internal_def split: option.splits)
qed (auto simp: proto_to_internal_def internal_to_proto_def from_proto_Some split: option.splits)

theorem cdc_wire_roundtrip_witness:
  "internal_to_proto (\<lparr>ev_sequence = 7, ev_timestamp_ms = 5, ev_event_type = CdcRemove,
       ev_query_key = lit ''k'', ev_payload = [], ev_upstream_id = [], ev_context_id = [],
       ev_origin_node_id = lit ''n'', ev_absolute_expiry_ms = 0\<rparr>) =
     \<lparr>pe_sequence = 7, pe_timestamp_ms = 5, pe_event_type = 2, pe_query_key = lit ''k'',
      pe_payload = [], pe_upstream_id = [], pe_context_id = [], pe_origin_node_id = lit ''n'',
      pe_absolute_expiry_ms = 0\<rparr>"
  using cdc_wire_roundtrip [of _
     "\<lparr>pe_sequence = 7, pe_timestamp_ms = 5, pe_event_type = 2, pe_query_key = lit ''k'',
      pe_payload = [], pe_upstream_id = [], pe_context_id = [], pe_origin_node_id = lit ''n'',
      pe_absolute_expiry_ms = 0\<rparr>" "\<lparr>ev_sequence = 7, ev_timestamp_ms = 5,
       ev_event_type = CdcRemove, ev_query_key = lit ''k'', ev_payload = [], ev_upstream_id = [],
       ev_context_id = [], ev_origin_node_id = lit ''n'', ev_absolute_expiry_ms = 0\<rparr>"]
  by (simp add: proto_to_internal_def from_proto_def)

text \<open>C40. A subscriber that is connected from the start and does not lag receives exactly the
  published events of the requested types, in order; and as long as fewer than 2^64 - 1 events
  were sent, the sequence numbers of what was published are 1, 2, 3, ... without gap.\<close>

theorem cdc_subscriber_receives_all:
  assumes "length ms < 2 ^ 64 - 1"
  shows "stream_loop flt (map RecvOk (es_published (send_all ms (sender_new node))))
          (replicate (length ms) True) =
       map internal_to_proto (filter (\<lambda>ev. flt = [] \<or> ev_event_type ev \<in> set flt)
          (es_published (send_all ms (sender_new node))))
    \<and> map (unat \<circ> ev_sequence) (es_published (send_all ms (sender_new node))) = [1..<length ms + 1]"
proof
  let ?p = "es_published (send_all ms (sender_new node))"
  have seqs: "map ev_sequence ?p = map (\<lambda>i. 1 + of_nat i) [0..<length ms]"
    using sequences_send_all [of ms "sender_new node"] by (simp add: sender_new_def)
  then have len: "length ?p = length ms"
    by (metis length_map length_upt minus_nat.diff_0)
  show "stream_loop flt (map RecvOk ?p) (replicate (length ms) True) =
      map internal_to_proto (filter (\<lambda>ev. flt = [] \<or> ev_event_type ev \<in> set flt) ?p)"
    using stream_loop_connected [of flt ?p "[]"] by (simp add: len)
  have one: "unat (1 + of_nat i :: u64) = Suc i" if "i < length ms" for i
  proof -
    have "(1 + of_nat i :: u64) = of_nat (Suc i)" by simp
    then show ?thesis
      using assms that by (simp add: unat_of_nat take_bit_nat_eq_self del: of_nat_Suc)
  qed
  have "map (unat \<circ> ev_sequence) ?p = map unat (map ev_sequence ?p)" by simp
  also have "\<dots> = map Suc [0..<length ms]"
    using one by (simp add: seqs)
  also have "\<dots> = [1..<length ms + 1]" by (simp add: map_Suc_upt)
  finally show "map (unat \<circ> ev_sequence) ?p = [1..<length ms + 1]" .
qed

theorem cdc_subscriber_receives_all_witness:
  "map (unat \<circ> ev_sequence) (es_published (send_all
      [(0, CdcRemove, builder_remove []), (5, CdcInsert, builder_insert [] [] [])]
      (sender_new (lit ''n'')))) = [1, 2]"
  using cdc_subscriber_receives_all [of "[(0, CdcRemove, builder_remove []),
      (5, CdcInsert, builder_insert [] [] [])]" "[]" "lit ''n''"]
  by (simp add: upt_rec)

end
