(* ===== verification/Cache.thy ===== *)
theory Cache
  imports Floats Cdc
begin

text \<open>
  The cache store, \<open>src/src/proxy/cache.rs\<close>, in the default feature set (neither \<open>persistence\<close>
  nor \<open>embed-api\<close>): its state, the memory-tracking wrappers and the S3-FIFO queues.

  The \<open>papaya\<close> map of entries is an association list with distinct keys (\<open>insert\<close> replaces in
  place, \<open>iter\<close> visits in the order \<open>iter_order\<close> of the environment), the atomics are the values
  they hold: \<open>usize\<close> counters that saturate are \<open>nat\<close> with \<open>usize_add\<close>, the memory counter, whose
  \<open>fetch_add\<close> and \<open>fetch_sub\<close> wrap, is a 64-bit word. The frequency counter lives in the entry, so
  reading through the map updates it there.
\<close>

section \<open>State\<close>

record s3fifo_state =
  s3_small :: "query_hash list"
  s3_main :: "query_hash list"
  s3_ghost :: "query_hash list"
  s3_ghost_set :: "query_hash set"
  s3_small_capacity :: nat
  s3_main_capacity :: nat
  s3_ghost_capacity :: nat

definition s3fifo_new :: "nat \<Rightarrow> s3fifo_state" where
  "s3fifo_new max_entries =
     (let small_capacity = max (max_entries div 10) 1
      in \<lparr>s3_small = [], s3_main = [], s3_ghost = [], s3_ghost_set = {},
          s3_small_capacity = small_capacity,
          s3_main_capacity = max_entries - small_capacity,
          s3_ghost_capacity = max max_entries 1\<rparr>)"

datatype eviction_source = SmallQueue | MainQueue

record eviction_stats =
  vs_total :: nat
  vs_expired :: nat
  vs_oldest :: nat
  vs_integrity_failures :: nat
  vs_per_upstream :: nat
  vs_ghost_hits :: nat
  vs_small_evictions :: nat
  vs_main_evictions :: nat
  vs_promotions :: nat

definition eviction_stats_default :: eviction_stats where
  "eviction_stats_default = \<lparr>vs_total = 0, vs_expired = 0, vs_oldest = 0, vs_integrity_failures = 0,
     vs_per_upstream = 0, vs_ghost_hits = 0, vs_small_evictions = 0, vs_main_evictions = 0,
     vs_promotions = 0\<rparr>"

record cache_store =
  cs_entries :: "(query_hash \<times> cache_entry) list"
  cs_exact_to_normalized :: "query_hash \<rightharpoonup> query_hash"
  cs_fresh_duration :: duration
  cs_stale_duration :: duration
  cs_max_frozen_duration :: duration
  cs_max_entries :: nat
  cs_max_memory_bytes :: u64
  cs_ttl_jitter_percent :: fl
  cs_config_fingerprint :: u64
  cs_eviction_stats :: eviction_stats
  cs_per_upstream_limit :: "nat option"
  cs_normalized_matching :: bool
  cs_exact_hits :: u64
  cs_normalized_hits :: u64
  cs_total_memory_bytes :: u64
  cs_cdc_sender :: "event_sender option"
  cs_s3fifo :: s3fifo_state

text \<open>The readings of the monotonic and of the wall clock during one operation.\<close>

record clock =
  ck_now :: instant
  ck_wall :: system_time

definition default_max_frozen_duration :: duration where
  "default_max_frozen_duration = from_secs (24 * 60 * 60)"

definition cache_with ::
  "duration \<Rightarrow> duration \<Rightarrow> nat \<Rightarrow> u64 \<Rightarrow> fl \<Rightarrow> cache_store" where
  "cache_with fresh stale max_entries max_memory jitter =
     \<lparr>cs_entries = [], cs_exact_to_normalized = Map.empty, cs_fresh_duration = fresh,
      cs_stale_duration = stale, cs_max_frozen_duration = default_max_frozen_duration,
      cs_max_entries = max_entries, cs_max_memory_bytes = max_memory,
      cs_ttl_jitter_percent = jitter, cs_config_fingerprint = 0,
      cs_eviction_stats = eviction_stats_default, cs_per_upstream_limit = None,
      cs_normalized_matching = False, cs_exact_hits = 0, cs_normalized_hits = 0,
      cs_total_memory_bytes = 0, cs_cdc_sender = None, cs_s3fifo = s3fifo_new max_entries\<rparr>"

definition cache_new :: "duration \<Rightarrow> duration \<Rightarrow> nat \<Rightarrow> cache_store" where
  "cache_new fresh stale max_entries = cache_with fresh stale max_entries 0 f32_one_tenth"

definition cache_with_jitter :: "duration \<Rightarrow> duration \<Rightarrow> nat \<Rightarrow> f32 \<Rightarrow> cache_store" where
  "cache_with_jitter fresh stale max_entries jitter =
     cache_with fresh stale max_entries 0 (fl_clamp01 (f32_decode jitter))"

definition cache_with_memory_limit :: "duration \<Rightarrow> duration \<Rightarrow> nat \<Rightarrow> u64 \<Rightarrow> cache_store" where
  "cache_with_memory_limit fresh stale max_entries max_memory =
     cache_with fresh stale max_entries max_memory f32_one_tenth"

definition set_per_upstream_limit :: "nat option \<Rightarrow> cache_store \<Rightarrow> cache_store" where
  "set_per_upstream_limit limit cs = cs\<lparr>cs_per_upstream_limit := limit\<rparr>"

definition set_max_entries :: "nat \<Rightarrow> cache_store \<Rightarrow> rstr + cache_store" where
  "set_max_entries n cs =
     (if n = 0 then Inl (lit ''cache.max_entries must be > 0'')
      else Inr (cs\<lparr>cs_max_entries := n\<rparr>))"

definition with_normalized_matching :: "bool \<Rightarrow> cache_store \<Rightarrow> cache_store" where
  "with_normalized_matching enabled cs = cs\<lparr>cs_normalized_matching := enabled\<rparr>"

definition with_cdc_sender :: "event_sender \<Rightarrow> cache_store \<Rightarrow> cache_store" where
  "with_cdc_sender s cs = cs\<lparr>cs_cdc_sender := Some s\<rparr>"

definition set_max_frozen_duration :: "duration \<Rightarrow> cache_store \<Rightarrow> cache_store" where
  "set_max_frozen_duration d cs = cs\<lparr>cs_max_frozen_duration := d\<rparr>"

definition set_max_memory_bytes :: "u64 \<Rightarrow> cache_store \<Rightarrow> cache_store" where
  "set_max_memory_bytes bytes cs = cs\<lparr>cs_max_memory_bytes := bytes\<rparr>"

definition set_fresh_duration :: "duration \<Rightarrow> cache_store \<Rightarrow> cache_store" where
  "set_fresh_duration d cs = cs\<lparr>cs_fresh_duration := d\<rparr>"

definition set_stale_duration :: "duration \<Rightarrow> cache_store \<Rightarrow> cache_store" where
  "set_stale_duration d cs = cs\<lparr>cs_stale_duration := d\<rparr>"

section \<open>Keys\<close>

text \<open>\<open>collapse prev cs\<close> is the loop over the characters with its flag \<open>prev_was_space\<close>.\<close>

fun collapse :: "bool \<Rightarrow> rstr \<Rightarrow> rstr" where
  "collapse prev [] = []"
| "collapse prev (c # cs) =
     (if is_whitespace c then (if prev then collapse True cs else 32 # collapse True cs)
      else c # collapse False cs)"

definition normalize_query :: "env \<Rightarrow> rstr \<Rightarrow> rstr" where
  "normalize_query E query = collapse False (to_lowercase E (trim query))"

definition hash_query :: "env \<Rightarrow> rstr \<Rightarrow> query_hash" where
  "hash_query E query = blake3 E (as_bytes (normalize_query E query))"

definition hash_query_exact :: "env \<Rightarrow> rstr \<Rightarrow> query_hash" where
  "hash_query_exact E query = blake3 E (as_bytes query)"

section \<open>Memory tracking\<close>

definition result_entry_size :: "env \<Rightarrow> nat \<Rightarrow> search_result \<Rightarrow> nat" where
  "result_entry_size E acc r =
     (let s1 = usize_add acc (str_len (sr_id r));
          s2 = usize_add s1 (str_len (sr_content r));
          s3 = usize_add s2 4
      in case sr_metadata r of
           Some meta \<Rightarrow> usize_add s3 (str_len (json_to_string E meta))
         | None \<Rightarrow> s3)"

definition opt_str_size :: "nat \<Rightarrow> rstr option \<Rightarrow> nat" where
  "opt_str_size acc s = (case s of Some t \<Rightarrow> usize_add acc (str_len t) | None \<Rightarrow> acc)"

definition approximate_size :: "env \<Rightarrow> cache_entry \<Rightarrow> nat" where
  "approximate_size E e =
     (let s1 = foldl (result_entry_size E) (entry_size_of E) (qr_results (ce_response e));
          s2 = usize_add s1 (str_len (ce_upstream_id e));
          s3 = opt_str_size s2 (sf_model_hint (ce_schema e));
          s4 = opt_str_size s3 (sf_version (ce_schema e))
      in opt_str_size s4 (ce_query_text e))"

definition tracked_insert :: "env \<Rightarrow> query_hash \<Rightarrow> cache_entry \<Rightarrow> cache_store \<Rightarrow> cache_store" where
  "tracked_insert E h e cs =
     (let new_size = approximate_size E e;
          mem = cs_total_memory_bytes cs
      in cs\<lparr>cs_entries := AList.update h e (cs_entries cs),
            cs_total_memory_bytes :=
              (case map_of (cs_entries cs) h of
                 Some old_entry \<Rightarrow>
                   let old_size = approximate_size E old_entry
                   in if new_size \<ge> old_size then mem + of_nat (new_size - old_size)
                      else mem - of_nat (old_size - new_size)
               | None \<Rightarrow> mem + of_nat new_size)\<rparr>)"

definition tracked_remove ::
  "env \<Rightarrow> query_hash \<Rightarrow> cache_store \<Rightarrow> cache_entry option \<times> cache_store" where
  "tracked_remove E h cs =
     (case map_of (cs_entries cs) h of
        Some old \<Rightarrow>
          (Some old,
           cs\<lparr>cs_entries := AList.delete h (cs_entries cs),
              cs_total_memory_bytes := cs_total_memory_bytes cs - of_nat (approximate_size E old),
              cs_exact_to_normalized :=
                (if cs_normalized_matching cs
                 then case ce_query_text old of
                        Some query_text \<Rightarrow>
                          (cs_exact_to_normalized cs)(hash_query_exact E query_text := None)
                      | None \<Rightarrow> cs_exact_to_normalized cs
                 else cs_exact_to_normalized cs)\<rparr>)
      | None \<Rightarrow> (None, cs))"

section \<open>S3-FIFO eviction\<close>

definition bump_freq :: "cache_entry \<Rightarrow> cache_entry" where
  "bump_freq e = e\<lparr>ce_freq := min (sat_add (ce_freq e) 1) 3\<rparr>"

definition read_and_reset_freq :: "query_hash \<Rightarrow> cache_store \<Rightarrow> u8 \<times> cache_store" where
  "read_and_reset_freq h cs =
     (case map_of (cs_entries cs) h of
        Some e \<Rightarrow> (ce_freq e, cs\<lparr>cs_entries := AList.update h (e\<lparr>ce_freq := 0\<rparr>) (cs_entries cs)\<rparr>)
      | None \<Rightarrow> (0, cs))"

text \<open>The loop \<open>while ghost.len() >= ghost_capacity\<close> that makes room in the ghost queue; it spins
  on an empty queue of capacity 0, which is the value \<open>None\<close>.\<close>

partial_function (option) ghost_loop ::
  "nat \<Rightarrow> query_hash list \<Rightarrow> query_hash set \<Rightarrow> (query_hash list \<times> query_hash set) option" where
  "ghost_loop cap ghost gset =
     (if length ghost \<ge> cap
      then (case ghost of
              [] \<Rightarrow> ghost_loop cap [] gset
            | old # rest \<Rightarrow> ghost_loop cap rest (gset - {old}))
      else Some (ghost, gset))"

text \<open>The same loop for a positive capacity, by recursion on the queue (lemma \<open>ghost_loop_eq\<close>).\<close>

fun ghost_trim :: "nat \<Rightarrow> query_hash list \<Rightarrow> query_hash set \<Rightarrow> query_hash list \<times> query_hash set" where
  "ghost_trim cap [] gset = ([], gset)"
| "ghost_trim cap (old # rest) gset =
     (if length (old # rest) \<ge> cap then ghost_trim cap rest (gset - {old})
      else (old # rest, gset))"

definition s3fifo_add_ghost :: "query_hash \<Rightarrow> s3fifo_state \<Rightarrow> s3fifo_state" where
  "s3fifo_add_ghost h st =
     (case ghost_trim (s3_ghost_capacity st) (s3_ghost st) (s3_ghost_set st) of
        (ghost, gset) \<Rightarrow> st\<lparr>s3_ghost := ghost @ [h], s3_ghost_set := insert h gset\<rparr>)"

definition on_s3 :: "(s3fifo_state \<Rightarrow> s3fifo_state) \<Rightarrow> cache_store \<Rightarrow> cache_store" where
  "on_s3 f cs = cs\<lparr>cs_s3fifo := f (cs_s3fifo cs)\<rparr>"

definition on_stats :: "(eviction_stats \<Rightarrow> eviction_stats) \<Rightarrow> cache_store \<Rightarrow> cache_store" where
  "on_stats f cs = cs\<lparr>cs_eviction_stats := f (cs_eviction_stats cs)\<rparr>"

definition add_promotions :: "nat \<Rightarrow> cache_store \<Rightarrow> cache_store" where
  "add_promotions promotions cs =
     (if promotions > 0
      then on_stats (\<lambda>v. v\<lparr>vs_promotions := usize_add (vs_promotions v) promotions\<rparr>) cs
      else cs)"

fun evict_small_loop ::
  "env \<Rightarrow> nat \<Rightarrow> nat \<Rightarrow> cache_store \<Rightarrow> eviction_source option \<times> cache_store" where
  "evict_small_loop E 0 promotions cs = (None, add_promotions promotions cs)"
| "evict_small_loop E (Suc n) promotions cs =
     (case s3_small (cs_s3fifo cs) of
        [] \<Rightarrow> (None, cs)
      | h # rest \<Rightarrow>
          let cs1 = on_s3 (\<lambda>st. st\<lparr>s3_small := rest\<rparr>) cs;
              (freq, cs2) = read_and_reset_freq h cs1
          in if freq = 0
             then (case tracked_remove E h cs2 of
                     (Some _, cs3) \<Rightarrow>
                       (Some SmallQueue, add_promotions promotions (on_s3 (s3fifo_add_ghost h) cs3))
                   | (None, cs3) \<Rightarrow> evict_small_loop E n promotions (on_s3 (s3fifo_add_ghost h) cs3))
             else evict_small_loop E n (usize_add promotions 1)
                    (on_s3 (\<lambda>st. st\<lparr>s3_main := s3_main st @ [h]\<rparr>) cs2))"

definition s3fifo_evict_from_small ::
  "env \<Rightarrow> cache_store \<Rightarrow> eviction_source option \<times> cache_store" where
  "s3fifo_evict_from_small E cs = evict_small_loop E (length (s3_small (cs_s3fifo cs))) 0 cs"

fun evict_main_loop :: "env \<Rightarrow> nat \<Rightarrow> cache_store \<Rightarrow> eviction_source option \<times> cache_store" where
  "evict_main_loop E 0 cs = (None, cs)"
| "evict_main_loop E (Suc n) cs =
     (case s3_main (cs_s3fifo cs) of
        [] \<Rightarrow> (None, cs)
      | h # rest \<Rightarrow>
          let cs1 = on_s3 (\<lambda>st. st\<lparr>s3_main := rest\<rparr>) cs;
              (freq, cs2) = read_and_reset_freq h cs1
          in if freq = 0
             then (case tracked_remove E h cs2 of
                     (Some _, cs3) \<Rightarrow> (Some MainQueue, cs3)
                   | (None, cs3) \<Rightarrow> evict_main_loop E n cs3)
             else evict_main_loop E n (on_s3 (\<lambda>st. st\<lparr>s3_main := s3_main st @ [h]\<rparr>) cs2))"

definition s3fifo_evict_from_main ::
  "env \<Rightarrow> cache_store \<Rightarrow> eviction_source option \<times> cache_store" where
  "s3fifo_evict_from_main E cs = evict_main_loop E (length (s3_main (cs_s3fifo cs))) cs"

definition s3fifo_evict_one :: "env \<Rightarrow> cache_store \<Rightarrow> eviction_source option \<times> cache_store" where
  "s3fifo_evict_one E cs =
     (let (r, cs1) = (if s3_small (cs_s3fifo cs) \<noteq> [] then s3fifo_evict_from_small E cs else (None, cs))
      in case r of
           Some src \<Rightarrow> (Some src, cs1)
         | None \<Rightarrow>
             if s3_main (cs_s3fifo cs1) \<noteq> [] then s3fifo_evict_from_main E cs1 else (None, cs1))"

definition s3fifo_evict_one_memory ::
  "env \<Rightarrow> cache_store \<Rightarrow> eviction_source option \<times> cache_store" where
  "s3fifo_evict_one_memory E cs =
     (let (r, cs1) = (if s3_small (cs_s3fifo cs) \<noteq> [] then s3fifo_evict_from_small E cs else (None, cs))
      in case r of
           Some src \<Rightarrow> (Some src, cs1)
         | None \<Rightarrow>
             if s3_main (cs_s3fifo cs1) \<noteq> [] then s3fifo_evict_from_main E cs1 else (None, cs1))"

end
