(* ===== verification/S3fifo.thy ===== *)
theory S3fifo
  imports Cache
begin

text \<open>
  The S3-FIFO eviction of \<open>src/src/proxy/cache.rs\<close>: what one eviction does to the entries, the
  queues and the memory counter, the two eviction loops of an admission, and the enforcement of the
  memory limit. \<open>cache_inv\<close> is the invariant that ties the parts of the state together; \<open>shrinks\<close>
  is what every eviction satisfies.
\<close>

section \<open>Invariant and frame\<close>

definition queue_len :: "cache_store \<Rightarrow> nat" where
  "queue_len cs = length (s3_small (cs_s3fifo cs)) + length (s3_main (cs_s3fifo cs))"

definition queue_capacity :: "cache_store \<Rightarrow> nat" where
  "queue_capacity cs = s3_small_capacity (cs_s3fifo cs) + s3_main_capacity (cs_s3fifo cs)"

text \<open>The cache as its clients see it: a partial map from hashes to entries, whatever the
  frequency counters are.\<close>

definition view :: "cache_store \<Rightarrow> query_hash \<rightharpoonup> cache_entry" where
  "view cs h = map_option (ce_freq_update (\<lambda>_. 0)) (map_of (cs_entries cs) h)"

definition entries_ok :: "env \<Rightarrow> (query_hash \<times> cache_entry) list \<Rightarrow> u64 \<Rightarrow> bool" where
  "entries_ok E xs mem \<longleftrightarrow> distinct (map fst xs)
     \<and> mem = of_nat (sum_by (approximate_size E) xs)
     \<and> (\<forall>h e. map_of xs h = Some e \<longrightarrow> ce_freq e \<le> 3)"

definition covered :: "(query_hash \<times> cache_entry) list \<Rightarrow> s3fifo_state \<Rightarrow> bool" where
  "covered xs st \<longleftrightarrow> dom (map_of xs) \<subseteq> set (s3_small st) \<union> set (s3_main st)"

definition ghost_ok :: "s3fifo_state \<Rightarrow> bool" where
  "ghost_ok st \<longleftrightarrow> s3_ghost_set st \<subseteq> set (s3_ghost st)
     \<and> length (s3_ghost st) \<le> s3_ghost_capacity st \<and> 0 < s3_ghost_capacity st"

definition cache_inv :: "env \<Rightarrow> cache_store \<Rightarrow> bool" where
  "cache_inv E cs \<longleftrightarrow> entries_ok E (cs_entries cs) (cs_total_memory_bytes cs)
     \<and> covered (cs_entries cs) (cs_s3fifo cs) \<and> ghost_ok (cs_s3fifo cs)"

text \<open>What no eviction touches.\<close>

definition cache_config :: "cache_store \<Rightarrow> cache_store" where
  "cache_config cs = cs\<lparr>cs_entries := [], cs_exact_to_normalized := Map.empty,
     cs_eviction_stats := eviction_stats_default, cs_total_memory_bytes := 0,
     cs_s3fifo := (cs_s3fifo cs)\<lparr>s3_small := [], s3_main := [], s3_ghost := [], s3_ghost_set := {}\<rparr>\<rparr>"

definition shrinks :: "env \<Rightarrow> cache_store \<Rightarrow> cache_store \<Rightarrow> bool" where
  "shrinks E cs cs' \<longleftrightarrow> cache_config cs' = cache_config cs
     \<and> view cs' \<subseteq>\<^sub>m view cs \<and> cs_exact_to_normalized cs' \<subseteq>\<^sub>m cs_exact_to_normalized cs
     \<and> (cache_inv E cs \<longrightarrow> cache_inv E cs')"

lemma shrinks_refl [simp]: "shrinks E cs cs"
  by (simp add: shrinks_def)

lemma shrinks_trans: "shrinks E cs1 cs2 \<Longrightarrow> shrinks E cs2 cs3 \<Longrightarrow> shrinks E cs1 cs3"
  by (auto simp: shrinks_def intro: map_le_trans)

lemma shrinks_inv: "shrinks E cs cs' \<Longrightarrow> cache_inv E cs \<Longrightarrow> cache_inv E cs'"
  by (simp add: shrinks_def)

lemma cache_config_fields:
  assumes "cache_config cs' = cache_config cs"
  shows "cs_cdc_sender cs' = cs_cdc_sender cs" "cs_fresh_duration cs' = cs_fresh_duration cs"
    "cs_stale_duration cs' = cs_stale_duration cs"
    "cs_max_frozen_duration cs' = cs_max_frozen_duration cs"
    "cs_max_memory_bytes cs' = cs_max_memory_bytes cs"
    "cs_max_entries cs' = cs_max_entries cs"
    "cs_normalized_matching cs' = cs_normalized_matching cs"
    "cs_per_upstream_limit cs' = cs_per_upstream_limit cs"
    "queue_capacity cs' = queue_capacity cs"
    "s3_ghost_capacity (cs_s3fifo cs') = s3_ghost_capacity (cs_s3fifo cs)"
proof -
  note eq = assms [unfolded cache_config_def]
  show "cs_cdc_sender cs' = cs_cdc_sender cs" using arg_cong [OF eq, of cs_cdc_sender] by simp
  show "cs_fresh_duration cs' = cs_fresh_duration cs"
    using arg_cong [OF eq, of cs_fresh_duration] by simp
  show "cs_stale_duration cs' = cs_stale_duration cs"
    using arg_cong [OF eq, of cs_stale_duration] by simp
  show "cs_max_frozen_duration cs' = cs_max_frozen_duration cs"
    using arg_cong [OF eq, of cs_max_frozen_duration] by simp
  show "cs_max_memory_bytes cs' = cs_max_memory_bytes cs"
    using arg_cong [OF eq, of cs_max_memory_bytes] by simp
  show "cs_max_entries cs' = cs_max_entries cs" using arg_cong [OF eq, of cs_max_entries] by simp
  show "cs_normalized_matching cs' = cs_normalized_matching cs"
    using arg_cong [OF eq, of cs_normalized_matching] by simp
  show "cs_per_upstream_limit cs' = cs_per_upstream_limit cs"
    using arg_cong [OF eq, of cs_per_upstream_limit] by simp
  show "queue_capacity cs' = queue_capacity cs"
    using arg_cong [OF eq, of "\<lambda>c. s3_small_capacity (cs_s3fifo c) + s3_main_capacity (cs_s3fifo c)"]
    by (simp add: queue_capacity_def)
  show "s3_ghost_capacity (cs_s3fifo cs') = s3_ghost_capacity (cs_s3fifo cs)"
    using arg_cong [OF eq, of "\<lambda>c. s3_ghost_capacity (cs_s3fifo c)"] by simp
qed

section \<open>Elementary steps\<close>

lemma approximate_size_freq [simp]: "approximate_size E (e\<lparr>ce_freq := f\<rparr>) = approximate_size E e"
  by (simp add: approximate_size_def)

definition reset_entries ::
  "query_hash \<Rightarrow> (query_hash \<times> cache_entry) list \<Rightarrow> (query_hash \<times> cache_entry) list" where
  "reset_entries h xs =
     (case map_of xs h of Some e \<Rightarrow> AList.update h (e\<lparr>ce_freq := 0\<rparr>) xs | None \<Rightarrow> xs)"

lemma read_and_reset_freq_eq:
  "read_and_reset_freq h cs =
     ((case map_of (cs_entries cs) h of Some e \<Rightarrow> ce_freq e | None \<Rightarrow> 0),
      cs\<lparr>cs_entries := reset_entries h (cs_entries cs)\<rparr>)"
  by (simp add: read_and_reset_freq_def reset_entries_def split: option.splits)

lemma map_of_reset:
  "map_of (reset_entries h xs) k =
     (if k = h then map_option (ce_freq_update (\<lambda>_. 0)) (map_of xs h) else map_of xs k)"
  by (auto simp: reset_entries_def update_conv' split: option.splits)

lemma length_reset [simp]: "length (reset_entries h xs) = length xs"
proof (cases "map_of xs h")
  case (Some e)
  then have "h \<in> fst ` set xs" by (metis map_of_SomeD fst_conv image_eqI)
  then show ?thesis by (simp add: reset_entries_def Some length_update)
qed (simp add: reset_entries_def)

lemma entries_ok_update_same:
  assumes "entries_ok E xs mem" "map_of xs h = Some e"
    and "approximate_size E e' = approximate_size E e" "ce_freq e' \<le> 3"
  shows "entries_ok E (AList.update h e' xs) mem"
proof -
  have "sum_by (approximate_size E) (AList.update h e' xs) = sum_by (approximate_size E) xs"
    using sum_by_update_Some [OF assms(2), of "approximate_size E" e'] assms(3) by simp
  with assms show ?thesis by (auto simp: entries_ok_def distinct_update update_conv')
qed

lemma entries_ok_reset: "entries_ok E xs mem \<Longrightarrow> entries_ok E (reset_entries h xs) mem"
  by (auto simp: reset_entries_def intro!: entries_ok_update_same split: option.splits)

lemma dom_reset [simp]: "dom (map_of (reset_entries h xs)) = dom (map_of xs)"
  by (auto simp: map_of_reset split: if_splits)

lemma entries_ok_delete:
  assumes "entries_ok E xs mem" "map_of xs h = Some e"
  shows "entries_ok E (AList.delete h xs) (mem - of_nat (approximate_size E e))"
proof -
  have "sum_by (approximate_size E) (AList.delete h xs) + approximate_size E e =
      sum_by (approximate_size E) xs"
    using assms by (intro sum_by_delete) (simp_all add: entries_ok_def)
  then have "(of_nat (sum_by (approximate_size E) xs) :: u64) =
      of_nat (sum_by (approximate_size E) (AList.delete h xs)) + of_nat (approximate_size E e)"
    by (metis of_nat_add)
  with assms show ?thesis
    by (auto simp: entries_ok_def distinct_delete delete_conv' split: if_splits)
qed

lemma ghost_trim_props:
  assumes "ghost_trim cap ghost gset = (ghost', gset')" "gset \<subseteq> set ghost" "0 < cap"
  shows "gset' \<subseteq> set ghost' \<and> length ghost' < cap"
  using assms by (induction ghost arbitrary: gset) (auto split: if_splits)

lemma ghost_ok_add: "ghost_ok st \<Longrightarrow> ghost_ok (s3fifo_add_ghost h st)"
proof -
  assume ok: "ghost_ok st"
  obtain g gs where tr: "ghost_trim (s3_ghost_capacity st) (s3_ghost st) (s3_ghost_set st) = (g, gs)"
    by fastforce
  show ?thesis using ghost_trim_props [OF tr] ok tr
    by (auto simp: ghost_ok_def s3fifo_add_ghost_def)
qed

lemma s3fifo_add_ghost_simps [simp]:
  "s3_small (s3fifo_add_ghost h st) = s3_small st"
  "s3_main (s3fifo_add_ghost h st) = s3_main st"
  "s3_small_capacity (s3fifo_add_ghost h st) = s3_small_capacity st"
  "s3_main_capacity (s3fifo_add_ghost h st) = s3_main_capacity st"
  "s3_ghost_capacity (s3fifo_add_ghost h st) = s3_ghost_capacity st"
  by (simp_all add: s3fifo_add_ghost_def split: prod.splits)

lemma on_s3_simps [simp]:
  "cs_entries (on_s3 f cs) = cs_entries cs" "cs_s3fifo (on_s3 f cs) = f (cs_s3fifo cs)"
  "cs_total_memory_bytes (on_s3 f cs) = cs_total_memory_bytes cs"
  "cs_exact_to_normalized (on_s3 f cs) = cs_exact_to_normalized cs"
  "cs_normalized_matching (on_s3 f cs) = cs_normalized_matching cs"
  "cs_max_memory_bytes (on_s3 f cs) = cs_max_memory_bytes cs"
  by (simp_all add: on_s3_def)

lemma add_promotions_simps [simp]:
  "cs_entries (add_promotions p cs) = cs_entries cs" "cs_s3fifo (add_promotions p cs) = cs_s3fifo cs"
  "cs_total_memory_bytes (add_promotions p cs) = cs_total_memory_bytes cs"
  "cs_exact_to_normalized (add_promotions p cs) = cs_exact_to_normalized cs"
  "cache_config (add_promotions p cs) = cache_config cs"
  by (simp_all add: add_promotions_def on_stats_def cache_config_def)

lemma cache_inv_cong:
  "cs_entries cs' = cs_entries cs \<Longrightarrow> cs_s3fifo cs' = cs_s3fifo cs \<Longrightarrow>
   cs_total_memory_bytes cs' = cs_total_memory_bytes cs \<Longrightarrow> cache_inv E cs' = cache_inv E cs"
  by (simp add: cache_inv_def)

lemma shrinks_add_promotions [simp]: "shrinks E cs (add_promotions p cs)"
proof -
  have "view (add_promotions p cs) = view cs" by (rule ext) (simp add: view_def)
  moreover have "cache_inv E (add_promotions p cs) = cache_inv E cs"
    by (rule cache_inv_cong) simp_all
  ultimately show ?thesis by (simp add: shrinks_def)
qed

lemma tracked_remove_None:
  "map_of (cs_entries cs) h = None \<Longrightarrow> tracked_remove E h cs = (None, cs)"
  by (simp add: tracked_remove_def)

lemma tracked_remove_fst: "fst (tracked_remove E h cs) = map_of (cs_entries cs) h"
  by (simp add: tracked_remove_def split: option.splits)

lemma tracked_remove_simps [simp]:
  "cs_entries (snd (tracked_remove E h cs)) = AList.delete h (cs_entries cs)"
  "cs_s3fifo (snd (tracked_remove E h cs)) = cs_s3fifo cs"
  "cache_config (snd (tracked_remove E h cs)) = cache_config cs"
  "cs_cdc_sender (snd (tracked_remove E h cs)) = cs_cdc_sender cs"
  by (auto simp: tracked_remove_def cache_config_def map_of_delete_None split: option.splits)

lemma view_tracked_remove: "view (snd (tracked_remove E h cs)) = (view cs)(h := None)"
  by (rule ext) (simp add: view_def delete_conv')

lemma e2n_tracked_remove:
  "cs_exact_to_normalized (snd (tracked_remove E h cs)) \<subseteq>\<^sub>m cs_exact_to_normalized cs"
  by (auto simp: tracked_remove_def map_le_def split: option.splits)

lemma entries_ok_tracked_remove:
  assumes "entries_ok E (cs_entries cs) (cs_total_memory_bytes cs)"
  shows "entries_ok E (AList.delete h (cs_entries cs))
    (cs_total_memory_bytes (snd (tracked_remove E h cs)))"
  using assms entries_ok_delete [OF assms]
  by (auto simp: tracked_remove_def map_of_delete_None split: option.splits)

lemma shrinks_tracked_remove: "shrinks E cs (snd (tracked_remove E h cs))"
proof -
  have "view (snd (tracked_remove E h cs)) \<subseteq>\<^sub>m view cs"
    by (simp add: view_tracked_remove map_le_def)
  moreover have "cache_inv E cs \<longrightarrow> cache_inv E (snd (tracked_remove E h cs))"
    using entries_ok_tracked_remove [of E cs h]
    by (auto simp: cache_inv_def covered_def delete_conv' split: if_splits)
  ultimately show ?thesis by (simp add: shrinks_def e2n_tracked_remove)
qed

section \<open>One round of an eviction loop\<close>

text \<open>Taking the head \<open>h\<close> of the small or of the main queue and resetting its counter.\<close>

definition pop_small :: "query_hash \<Rightarrow> cache_store \<Rightarrow> cache_store" where
  "pop_small h cs = (on_s3 (\<lambda>st. st\<lparr>s3_small := tl (s3_small st)\<rparr>) cs)
     \<lparr>cs_entries := reset_entries h (cs_entries cs)\<rparr>"

definition pop_main :: "query_hash \<Rightarrow> cache_store \<Rightarrow> cache_store" where
  "pop_main h cs = (on_s3 (\<lambda>st. st\<lparr>s3_main := tl (s3_main st)\<rparr>) cs)
     \<lparr>cs_entries := reset_entries h (cs_entries cs)\<rparr>"

definition push_main :: "query_hash \<Rightarrow> cache_store \<Rightarrow> cache_store" where
  "push_main h cs = on_s3 (\<lambda>st. st\<lparr>s3_main := s3_main st @ [h]\<rparr>) cs"

definition freq_of :: "cache_store \<Rightarrow> query_hash \<Rightarrow> u8" where
  "freq_of cs h = (case map_of (cs_entries cs) h of Some e \<Rightarrow> ce_freq e | None \<Rightarrow> 0)"

lemma pop_simps [simp]:
  "cs_entries (pop_small h cs) = reset_entries h (cs_entries cs)"
  "cs_entries (pop_main h cs) = reset_entries h (cs_entries cs)"
  "cs_entries (push_main h cs) = cs_entries cs"
  "s3_small (cs_s3fifo (pop_small h cs)) = tl (s3_small (cs_s3fifo cs))"
  "s3_main (cs_s3fifo (pop_small h cs)) = s3_main (cs_s3fifo cs)"
  "s3_small (cs_s3fifo (pop_main h cs)) = s3_small (cs_s3fifo cs)"
  "s3_main (cs_s3fifo (pop_main h cs)) = tl (s3_main (cs_s3fifo cs))"
  "s3_small (cs_s3fifo (push_main h cs)) = s3_small (cs_s3fifo cs)"
  "s3_main (cs_s3fifo (push_main h cs)) = s3_main (cs_s3fifo cs) @ [h]"
  "cache_config (pop_small h cs) = cache_config cs" "cache_config (pop_main h cs) = cache_config cs"
  "cache_config (push_main h cs) = cache_config cs"
  "cs_total_memory_bytes (pop_small h cs) = cs_total_memory_bytes cs"
  "cs_total_memory_bytes (pop_main h cs) = cs_total_memory_bytes cs"
  "cs_total_memory_bytes (push_main h cs) = cs_total_memory_bytes cs"
  "cs_exact_to_normalized (pop_small h cs) = cs_exact_to_normalized cs"
  "cs_exact_to_normalized (pop_main h cs) = cs_exact_to_normalized cs"
  "cs_exact_to_normalized (push_main h cs) = cs_exact_to_normalized cs"
  "ghost_ok (cs_s3fifo (pop_small h cs)) = ghost_ok (cs_s3fifo cs)"
  "ghost_ok (cs_s3fifo (pop_main h cs)) = ghost_ok (cs_s3fifo cs)"
  "ghost_ok (cs_s3fifo (push_main h cs)) = ghost_ok (cs_s3fifo cs)"
  by (simp_all add: pop_small_def pop_main_def push_main_def on_s3_def cache_config_def ghost_ok_def)

lemma view_pop [simp]:
  "view (pop_small h cs) = view cs" "view (pop_main h cs) = view cs" "view (push_main h cs) = view cs"
  by (rule ext, auto simp: view_def map_of_reset option.map_comp comp_def)+

text \<open>The loops, with a round of each written in these terms.\<close>

lemma evict_small_loop_Suc:
  "evict_small_loop E (Suc n) p cs =
     (case s3_small (cs_s3fifo cs) of
        [] \<Rightarrow> (None, cs)
      | h # rest \<Rightarrow>
          if freq_of cs h = 0
          then if map_of (cs_entries cs) h = None
               then evict_small_loop E n p (on_s3 (s3fifo_add_ghost h) (pop_small h cs))
               else (Some SmallQueue, add_promotions p
                      (on_s3 (s3fifo_add_ghost h) (snd (tracked_remove E h (pop_small h cs)))))
          else evict_small_loop E n (usize_add p 1) (push_main h (pop_small h cs)))"
proof (cases "s3_small (cs_s3fifo cs)")
  case (Cons h rest)
  then have pop: "on_s3 (\<lambda>st. st\<lparr>s3_small := rest\<rparr>) cs
      \<lparr>cs_entries := reset_entries h (cs_entries cs)\<rparr> = pop_small h cs"
    by (simp add: pop_small_def on_s3_def)
  have tr: "tracked_remove E h (pop_small h cs) =
      (map_of (reset_entries h (cs_entries cs)) h, snd (tracked_remove E h (pop_small h cs)))"
    using tracked_remove_fst [of E h "pop_small h cs"] by (simp add: prod_eq_iff)
  have gone: "map_of (cs_entries cs) h = None \<Longrightarrow> snd (tracked_remove E h (pop_small h cs)) = pop_small h cs"
    by (simp add: tracked_remove_None map_of_reset)
  show ?thesis
    unfolding evict_small_loop.simps Cons list.case Let_def read_and_reset_freq_eq
    by (simp only: prod.case on_s3_simps pop)
      (subst tr, use gone in \<open>auto simp: freq_of_def map_of_reset push_main_def split: option.splits\<close>)
qed simp

lemma evict_main_loop_Suc:
  "evict_main_loop E (Suc n) cs =
     (case s3_main (cs_s3fifo cs) of
        [] \<Rightarrow> (None, cs)
      | h # rest \<Rightarrow>
          if freq_of cs h = 0
          then if map_of (cs_entries cs) h = None
               then evict_main_loop E n (pop_main h cs)
               else (Some MainQueue, snd (tracked_remove E h (pop_main h cs)))
          else evict_main_loop E n (push_main h (pop_main h cs)))"
proof (cases "s3_main (cs_s3fifo cs)")
  case (Cons h rest)
  then have pop: "on_s3 (\<lambda>st. st\<lparr>s3_main := rest\<rparr>) cs
      \<lparr>cs_entries := reset_entries h (cs_entries cs)\<rparr> = pop_main h cs"
    by (simp add: pop_main_def on_s3_def)
  have tr: "tracked_remove E h (pop_main h cs) =
      (map_of (reset_entries h (cs_entries cs)) h, snd (tracked_remove E h (pop_main h cs)))"
    using tracked_remove_fst [of E h "pop_main h cs"] by (simp add: prod_eq_iff)
  have gone: "map_of (cs_entries cs) h = None \<Longrightarrow> snd (tracked_remove E h (pop_main h cs)) = pop_main h cs"
    by (simp add: tracked_remove_None map_of_reset)
  show ?thesis
    unfolding evict_main_loop.simps Cons list.case Let_def read_and_reset_freq_eq
    by (simp only: prod.case on_s3_simps pop)
      (subst tr, use gone in \<open>auto simp: freq_of_def map_of_reset push_main_def split: option.splits\<close>)
qed simp

declare evict_small_loop.simps(2) [simp del] evict_main_loop.simps(2) [simp del]

text \<open>Each kind of round is a shrinking step.\<close>

lemma shrinks_small_gone:
  assumes "s3_small (cs_s3fifo cs) = h # rest" "map_of (cs_entries cs) h = None"
  shows "shrinks E cs (on_s3 (s3fifo_add_ghost h) (pop_small h cs))"
proof -
  have "view (on_s3 (s3fifo_add_ghost h) (pop_small h cs)) = view cs"
    by (rule ext) (simp add: view_def map_of_reset option.map_comp comp_def)
  moreover have "cache_config (on_s3 (s3fifo_add_ghost h) (pop_small h cs)) = cache_config cs"
    by (simp add: cache_config_def on_s3_def pop_small_def s3fifo_add_ghost_def split: prod.splits)
  moreover have "covered (cs_entries cs) (cs_s3fifo cs) \<Longrightarrow>
      covered (reset_entries h (cs_entries cs)) (s3fifo_add_ghost h (cs_s3fifo (pop_small h cs)))"
    using assms by (auto simp: covered_def)
  ultimately show ?thesis
    by (auto simp: shrinks_def cache_inv_def entries_ok_reset ghost_ok_add)
qed

lemma shrinks_small_cold:
  assumes "s3_small (cs_s3fifo cs) = h # rest"
  shows "shrinks E cs (on_s3 (s3fifo_add_ghost h) (snd (tracked_remove E h (pop_small h cs))))"
    (is "shrinks E cs (on_s3 _ ?cs)")
proof -
  have "view (on_s3 (s3fifo_add_ghost h) ?cs) = (view cs)(h := None)"
    by (rule ext) (simp add: view_def map_of_reset delete_conv')
  then have v: "view (on_s3 (s3fifo_add_ghost h) ?cs) \<subseteq>\<^sub>m view cs" by (simp add: map_le_def)
  have "cache_config (on_s3 (s3fifo_add_ghost h) ?cs) = cache_config ?cs"
    by (simp add: cache_config_def on_s3_def s3fifo_add_ghost_def split: prod.splits)
  then have c: "cache_config (on_s3 (s3fifo_add_ghost h) ?cs) = cache_config cs" by simp
  have "covered (cs_entries cs) (cs_s3fifo cs) \<Longrightarrow>
      covered (AList.delete h (reset_entries h (cs_entries cs)))
        (s3fifo_add_ghost h (cs_s3fifo (pop_small h cs)))"
    using assms by (auto simp: covered_def delete_conv' map_of_reset)
  then show ?thesis using v c e2n_tracked_remove [of E h "pop_small h cs"]
      entries_ok_tracked_remove [of E "pop_small h cs" h]
    by (auto simp: shrinks_def cache_inv_def entries_ok_reset ghost_ok_add)
qed

lemma shrinks_small_hot:
  assumes "s3_small (cs_s3fifo cs) = h # rest"
  shows "shrinks E cs (push_main h (pop_small h cs))"
  using assms by (auto simp: shrinks_def cache_inv_def entries_ok_reset covered_def)

lemma shrinks_main_gone:
  assumes "s3_main (cs_s3fifo cs) = h # rest" "map_of (cs_entries cs) h = None"
  shows "shrinks E cs (pop_main h cs)"
  using assms by (auto simp: shrinks_def cache_inv_def entries_ok_reset covered_def)

lemma shrinks_main_cold:
  assumes "s3_main (cs_s3fifo cs) = h # rest"
  shows "shrinks E cs (snd (tracked_remove E h (pop_main h cs)))" (is "shrinks E cs ?cs")
proof -
  have v: "view ?cs \<subseteq>\<^sub>m view cs" by (simp add: view_tracked_remove map_le_def)
  have "covered (cs_entries cs) (cs_s3fifo cs) \<Longrightarrow>
      covered (AList.delete h (reset_entries h (cs_entries cs))) (cs_s3fifo (pop_main h cs))"
    using assms by (auto simp: covered_def delete_conv' map_of_reset)
  then show ?thesis using v e2n_tracked_remove [of E h "pop_main h cs"]
      entries_ok_tracked_remove [of E "pop_main h cs" h]
    by (auto simp: shrinks_def cache_inv_def entries_ok_reset)
qed

lemma shrinks_main_hot:
  assumes "s3_main (cs_s3fifo cs) = h # rest"
  shows "shrinks E cs (push_main h (pop_main h cs))"
  using assms by (auto simp: shrinks_def cache_inv_def entries_ok_reset covered_def)

section \<open>The eviction loops\<close>

lemma evict_small_loop_shrinks: "shrinks E cs (snd (evict_small_loop E n p cs))"
proof (induction n arbitrary: p cs)
  case (Suc n)
  show ?case
  proof (cases "s3_small (cs_s3fifo cs)")
    case Nil
    then show ?thesis by (simp add: evict_small_loop_Suc)
  next
    case (Cons h rest)
    show ?thesis
      using shrinks_trans [OF shrinks_small_gone [OF Cons] Suc.IH]
        shrinks_trans [OF shrinks_small_cold [OF Cons] shrinks_add_promotions]
        shrinks_trans [OF shrinks_small_hot [OF Cons] Suc.IH]
      by (simp add: evict_small_loop_Suc Cons)
  qed
qed simp

lemma evict_main_loop_shrinks: "shrinks E cs (snd (evict_main_loop E n cs))"
proof (induction n arbitrary: cs)
  case (Suc n)
  show ?case
  proof (cases "s3_main (cs_s3fifo cs)")
    case Nil
    then show ?thesis by (simp add: evict_main_loop_Suc)
  next
    case (Cons h rest)
    show ?thesis
      using shrinks_trans [OF shrinks_main_gone [OF Cons] Suc.IH] shrinks_main_cold [OF Cons]
        shrinks_trans [OF shrinks_main_hot [OF Cons] Suc.IH]
      by (simp add: evict_main_loop_Suc Cons)
  qed
qed simp

lemma queue_len_simps:
  "queue_len (add_promotions p cs) = queue_len cs"
  "queue_len (on_s3 (s3fifo_add_ghost h) cs) = queue_len cs"
  "queue_len (snd (tracked_remove E h cs)) = queue_len cs"
  "queue_len (push_main h cs) = Suc (queue_len cs)"
  "s3_small (cs_s3fifo cs) = h # rest \<Longrightarrow> Suc (queue_len (pop_small h cs)) = queue_len cs"
  "s3_main (cs_s3fifo cs) = h # rest \<Longrightarrow> Suc (queue_len (pop_main h cs)) = queue_len cs"
  by (simp_all add: queue_len_def)

lemma evict_small_loop_queue:
  "queue_len (snd (evict_small_loop E n p cs)) +
     (if fst (evict_small_loop E n p cs) = None then 0 else 1) \<le> queue_len cs"
proof (induction n arbitrary: p cs)
  case (Suc n)
  show ?case
  proof (cases "s3_small (cs_s3fifo cs)")
    case Nil
    then show ?thesis by (simp add: evict_small_loop_Suc)
  next
    case (Cons h rest)
    show ?thesis
      using queue_len_simps(5) [OF Cons]
        Suc.IH [of p "on_s3 (s3fifo_add_ghost h) (pop_small h cs)"]
        Suc.IH [of "usize_add p 1" "push_main h (pop_small h cs)"]
      by (auto simp: evict_small_loop_Suc Cons queue_len_simps(1-4) split: if_splits)
  qed
qed (simp add: queue_len_simps)

lemma evict_main_loop_queue:
  "queue_len (snd (evict_main_loop E n cs)) +
     (if fst (evict_main_loop E n cs) = None then 0 else 1) \<le> queue_len cs"
proof (induction n arbitrary: cs)
  case (Suc n)
  show ?case
  proof (cases "s3_main (cs_s3fifo cs)")
    case Nil
    then show ?thesis by (simp add: evict_main_loop_Suc)
  next
    case (Cons h rest)
    show ?thesis
      using queue_len_simps(6) [OF Cons] Suc.IH [of "pop_main h cs"]
        Suc.IH [of "push_main h (pop_main h cs)"]
      by (auto simp: evict_main_loop_Suc Cons queue_len_simps(1-4) split: if_splits)
  qed
qed simp

text \<open>A cold entry stays as it is through the rounds that do not evict.\<close>

definition cold :: "cache_store \<Rightarrow> query_hash \<Rightarrow> bool" where
  "cold cs h \<longleftrightarrow> (\<exists>e. map_of (cs_entries cs) h = Some e \<and> ce_freq e = 0)"

lemma cold_pop [simp]:
  "cold cs x \<Longrightarrow> cold (pop_small h cs) x" "cold cs x \<Longrightarrow> cold (pop_main h cs) x"
  "cold (on_s3 f cs) x = cold cs x" "cold (push_main h cs) x = cold cs x"
  "cold (add_promotions p cs) x = cold cs x"
  by (auto simp: cold_def map_of_reset)

lemma cold_head: "freq_of cs h \<noteq> 0 \<Longrightarrow> \<not> cold cs h" "map_of (cs_entries cs) h = None \<Longrightarrow> \<not> cold cs h"
  by (auto simp: cold_def freq_of_def)

lemma evict_small_loop_keeps_cold:
  "cold cs x \<Longrightarrow> fst (evict_small_loop E n p cs) = None \<Longrightarrow> cold (snd (evict_small_loop E n p cs)) x"
proof (induction n arbitrary: p cs)
  case (Suc n)
  then show ?case
    by (auto simp: evict_small_loop_Suc split: list.splits if_splits)
qed simp

lemma evict_small_loop_finds_cold:
  "cold cs x \<Longrightarrow> x \<in> set (take n (s3_small (cs_s3fifo cs))) \<Longrightarrow>
   fst (evict_small_loop E n p cs) \<noteq> None"
proof (induction n arbitrary: p cs)
  case (Suc n)
  obtain h rest where sm: "s3_small (cs_s3fifo cs) = h # rest"
    using Suc.prems(2) by (cases "s3_small (cs_s3fifo cs)") auto
  show ?case
  proof (cases "h = x")
    case True
    then show ?thesis using Suc.prems(1) cold_head [of cs h] by (auto simp: evict_small_loop_Suc sm)
  next
    case False
    then have "x \<in> set (take n rest)" using Suc.prems(2) by (simp add: sm)
    then show ?thesis using Suc.IH Suc.prems(1) by (simp add: evict_small_loop_Suc sm)
  qed
qed simp

lemma evict_main_loop_finds_cold:
  "cold cs x \<Longrightarrow> x \<in> set (take n (s3_main (cs_s3fifo cs))) \<Longrightarrow> fst (evict_main_loop E n cs) \<noteq> None"
proof (induction n arbitrary: cs)
  case (Suc n)
  obtain h rest where mn: "s3_main (cs_s3fifo cs) = h # rest"
    using Suc.prems(2) by (cases "s3_main (cs_s3fifo cs)") auto
  show ?case
  proof (cases "h = x")
    case True
    then show ?thesis using Suc.prems(1) cold_head [of cs h] by (auto simp: evict_main_loop_Suc mn)
  next
    case False
    then have "x \<in> set (take n rest)" using Suc.prems(2) by (simp add: mn)
    then show ?thesis using Suc.IH Suc.prems(1) by (simp add: evict_main_loop_Suc mn)
  qed
qed simp

text \<open>When a loop gives up, everything it visited is cold or gone.\<close>

definition tepid :: "cache_store \<Rightarrow> query_hash \<Rightarrow> bool" where
  "tepid cs h \<longleftrightarrow> freq_of cs h = 0"

lemma tepid_pop [simp]:
  "tepid (pop_small h cs) h" "tepid (pop_main h cs) h"
  "tepid cs x \<Longrightarrow> tepid (pop_small h cs) x" "tepid cs x \<Longrightarrow> tepid (pop_main h cs) x"
  "tepid (on_s3 f cs) x = tepid cs x" "tepid (push_main h cs) x = tepid cs x"
  "tepid (add_promotions p cs) x = tepid cs x"
  by (auto simp: tepid_def freq_of_def map_of_reset split: option.splits)

lemma evict_small_loop_tepid:
  "fst (evict_small_loop E n p cs) = None \<Longrightarrow>
   tepid cs x \<or> x \<in> set (take n (s3_small (cs_s3fifo cs))) \<Longrightarrow>
   tepid (snd (evict_small_loop E n p cs)) x"
proof (induction n arbitrary: p cs)
  case (Suc n)
  then show ?case by (auto simp: evict_small_loop_Suc split: list.splits if_splits)
qed simp

lemma evict_main_loop_tepid:
  "fst (evict_main_loop E n cs) = None \<Longrightarrow>
   tepid cs x \<or> x \<in> set (take n (s3_main (cs_s3fifo cs))) \<Longrightarrow>
   tepid (snd (evict_main_loop E n cs)) x"
proof (induction n arbitrary: cs)
  case (Suc n)
  then show ?case by (auto simp: evict_main_loop_Suc split: list.splits if_splits)
qed simp

text \<open>Where the queues are when the small loop gives up.\<close>

lemma evict_small_loop_queues:
  "fst (evict_small_loop E n p cs) = None \<Longrightarrow>
   s3_small (cs_s3fifo (snd (evict_small_loop E n p cs))) = drop n (s3_small (cs_s3fifo cs)) \<and>
   set (s3_main (cs_s3fifo cs)) \<subseteq> set (s3_main (cs_s3fifo (snd (evict_small_loop E n p cs)))) \<and>
   dom (map_of (cs_entries (snd (evict_small_loop E n p cs)))) = dom (map_of (cs_entries cs))"
proof (induction n arbitrary: p cs)
  case (Suc n)
  show ?case
  proof (cases "s3_small (cs_s3fifo cs)")
    case Nil
    then show ?thesis by (simp add: evict_small_loop_Suc)
  next
    case (Cons h rest)
    show ?thesis
      using Suc.prems Suc.IH [of p "on_s3 (s3fifo_add_ghost h) (pop_small h cs)"]
        Suc.IH [of "usize_add p 1" "push_main h (pop_small h cs)"]
      by (simp add: evict_small_loop_Suc Cons split: if_splits)
  qed
qed simp

section \<open>Evicting one entry\<close>

lemma evict_one_memory_eq: "s3fifo_evict_one_memory E cs = s3fifo_evict_one E cs"
  by (simp add: s3fifo_evict_one_memory_def s3fifo_evict_one_def)

lemma evict_one_eq:
  "s3fifo_evict_one E cs =
     (let (r, cs1) = s3fifo_evict_from_small E cs
      in case r of Some src \<Rightarrow> (Some src, cs1) | None \<Rightarrow> s3fifo_evict_from_main E cs1)"
proof -
  have s: "s3_small (cs_s3fifo cs) = [] \<Longrightarrow> s3fifo_evict_from_small E cs = (None, cs)"
    by (simp add: s3fifo_evict_from_small_def add_promotions_def)
  have m: "s3_main (cs_s3fifo c) = [] \<Longrightarrow> s3fifo_evict_from_main E c = (None, c)" for c
    by (simp add: s3fifo_evict_from_main_def)
  show ?thesis
    using s m by (auto simp: s3fifo_evict_one_def Let_def split: prod.splits option.splits)
qed

lemma evict_one_shrinks: "shrinks E cs (snd (s3fifo_evict_one E cs))"
proof -
  obtain r cs1 where sm: "s3fifo_evict_from_small E cs = (r, cs1)" by fastforce
  have 1: "shrinks E cs cs1"
    using evict_small_loop_shrinks [of E cs "length (s3_small (cs_s3fifo cs))" 0] sm
    by (simp add: s3fifo_evict_from_small_def)
  have 2: "shrinks E cs1 (snd (s3fifo_evict_from_main E cs1))"
    by (simp add: s3fifo_evict_from_main_def evict_main_loop_shrinks)
  show ?thesis using 1 shrinks_trans [OF 1 2]
    by (auto simp: evict_one_eq sm split: option.splits)
qed

lemma evict_one_queue:
  "queue_len (snd (s3fifo_evict_one E cs)) + (if fst (s3fifo_evict_one E cs) = None then 0 else 1)
     \<le> queue_len cs"
proof -
  obtain r cs1 where sm: "s3fifo_evict_from_small E cs = (r, cs1)" by fastforce
  have 1: "queue_len cs1 + (if r = None then 0 else 1) \<le> queue_len cs"
    using evict_small_loop_queue [of E "length (s3_small (cs_s3fifo cs))" 0 cs] sm
    by (simp add: s3fifo_evict_from_small_def)
  have 2: "queue_len (snd (s3fifo_evict_from_main E cs1)) +
      (if fst (s3fifo_evict_from_main E cs1) = None then 0 else 1) \<le> queue_len cs1"
    unfolding s3fifo_evict_from_main_def by (rule evict_main_loop_queue)
  show ?thesis using 1 2 by (cases r) (auto simp: evict_one_eq sm)
qed

lemma evict_one_decreases:
  "s3fifo_evict_one E cs = (Some src, cs') \<Longrightarrow> queue_len cs' < queue_len cs"
  using evict_one_queue [of E cs] by simp

lemma evict_one_finds_cold:
  assumes "cold cs x" "x \<in> set (s3_small (cs_s3fifo cs)) \<union> set (s3_main (cs_s3fifo cs))"
  shows "fst (s3fifo_evict_one E cs) \<noteq> None"
proof -
  let ?n = "length (s3_small (cs_s3fifo cs))"
  obtain r cs1 where sm: "evict_small_loop E ?n 0 cs = (r, cs1)" by fastforce
  show ?thesis
  proof (cases r)
    case None
    have "x \<notin> set (s3_small (cs_s3fifo cs))"
      using evict_small_loop_finds_cold [of cs x ?n E 0] assms(1) sm None by auto
    then have "x \<in> set (s3_main (cs_s3fifo cs1))"
      using assms(2) evict_small_loop_queues [of E ?n 0 cs] sm None by auto
    moreover have "cold cs1 x"
      using evict_small_loop_keeps_cold [of cs x E ?n 0] assms(1) sm None by simp
    ultimately show ?thesis
      using evict_main_loop_finds_cold [of cs1 x "length (s3_main (cs_s3fifo cs1))" E]
      by (simp add: evict_one_eq s3fifo_evict_from_small_def s3fifo_evict_from_main_def sm None)
  qed (simp add: evict_one_eq s3fifo_evict_from_small_def sm)
qed

text \<open>An eviction that finds nothing leaves every entry cold.\<close>

lemma evict_one_None_tepid:
  assumes "covered (cs_entries cs) (cs_s3fifo cs)" "s3fifo_evict_one E cs = (None, cs')"
  shows "tepid cs' x"
proof -
  let ?n = "length (s3_small (cs_s3fifo cs))"
  obtain r cs1 where sm: "evict_small_loop E ?n 0 cs = (r, cs1)" by fastforce
  have r: "r = None"
    using assms(2) by (cases r) (simp_all add: evict_one_eq s3fifo_evict_from_small_def sm)
  let ?m = "length (s3_main (cs_s3fifo cs1))"
  have mn: "evict_main_loop E ?m cs1 = (None, cs')"
    using assms(2)
    by (simp add: evict_one_eq s3fifo_evict_from_small_def s3fifo_evict_from_main_def sm r)
  have q: "s3_small (cs_s3fifo cs1) = []"
      "set (s3_main (cs_s3fifo cs)) \<subseteq> set (s3_main (cs_s3fifo cs1))"
    using evict_small_loop_queues [of E ?n 0 cs] sm r by simp_all
  have "tepid cs1 x \<or> x \<in> set (s3_main (cs_s3fifo cs1))"
  proof (cases "x \<in> set (s3_small (cs_s3fifo cs)) \<or> tepid cs x")
    case True
    then show ?thesis using evict_small_loop_tepid [of E ?n 0 cs x] sm r by auto
  next
    case False
    then have "x \<in> dom (map_of (cs_entries cs))"
      by (auto simp: tepid_def freq_of_def split: option.splits)
    then show ?thesis using False assms(1) q(2) by (auto simp: covered_def)
  qed
  then show ?thesis using evict_main_loop_tepid [of E ?m cs1 x] mn by simp
qed

section \<open>Admission\<close>

function evict_while_full :: "env \<Rightarrow> nat \<Rightarrow> nat \<Rightarrow> cache_store \<Rightarrow> nat \<times> nat \<times> cache_store" where
  "evict_while_full E small_ev main_ev cs =
     (if queue_len cs > queue_capacity cs
      then case s3fifo_evict_one E cs of
             (Some SmallQueue, cs') \<Rightarrow> evict_while_full E (usize_add small_ev 1) main_ev cs'
           | (Some MainQueue, cs') \<Rightarrow> evict_while_full E small_ev (usize_add main_ev 1) cs'
           | (None, cs') \<Rightarrow> (small_ev, main_ev, cs')
      else (small_ev, main_ev, cs))"
  by pat_completeness auto
termination
  by (relation "measure (\<lambda>(E, s, m, cs). queue_len cs)") (auto intro: evict_one_decreases [OF sym])

function evict_while_heavy :: "env \<Rightarrow> u64 \<Rightarrow> nat \<Rightarrow> nat \<Rightarrow> cache_store \<Rightarrow> nat \<times> nat \<times> cache_store" where
  "evict_while_heavy E max_memory small_ev main_ev cs =
     (if cs_total_memory_bytes cs > max_memory
      then case s3fifo_evict_one_memory E cs of
             (Some SmallQueue, cs') \<Rightarrow> evict_while_heavy E max_memory (usize_add small_ev 1) main_ev cs'
           | (Some MainQueue, cs') \<Rightarrow> evict_while_heavy E max_memory small_ev (usize_add main_ev 1) cs'
           | (None, cs') \<Rightarrow> (small_ev, main_ev, cs')
      else (small_ev, main_ev, cs))"
  by pat_completeness auto
termination
  by (relation "measure (\<lambda>(E, x, s, m, cs). queue_len cs)")
    (auto simp: evict_one_memory_eq intro: evict_one_decreases [OF sym])

definition enqueue_new :: "query_hash \<Rightarrow> s3fifo_state \<Rightarrow> s3fifo_state" where
  "enqueue_new h st =
     (if h \<in> s3_ghost_set st
      then st\<lparr>s3_ghost_set := s3_ghost_set st - {h}, s3_ghost := filter (\<lambda>x. x \<noteq> h) (s3_ghost st),
              s3_main := s3_main st @ [h]\<rparr>
      else st\<lparr>s3_small := s3_small st @ [h]\<rparr>)"

definition s3fifo_admit :: "env \<Rightarrow> query_hash \<Rightarrow> cache_store \<Rightarrow> cache_store" where
  "s3fifo_admit E h cs =
     (let was_ghost = h \<in> s3_ghost_set (cs_s3fifo cs);
          cs1 = on_s3 (enqueue_new h) cs;
          (se1, me1, cs2) = evict_while_full E 0 0 cs1;
          max_memory = cs_max_memory_bytes cs2;
          (se, me, cs3) = (if max_memory > 0 then evict_while_heavy E max_memory se1 me1 cs2
                           else (se1, me1, cs2))
      in if was_ghost \<or> se > 0 \<or> me > 0
         then on_stats (\<lambda>v. v\<lparr>
                vs_ghost_hits := (if was_ghost then usize_add (vs_ghost_hits v) 1 else vs_ghost_hits v),
                vs_small_evictions := usize_add (vs_small_evictions v) se,
                vs_main_evictions := usize_add (vs_main_evictions v) me,
                vs_total := usize_add (vs_total v) (usize_add se me)\<rparr>) cs3
         else cs3)"

function enforce_loop :: "env \<Rightarrow> u64 \<Rightarrow> nat \<Rightarrow> cache_store \<Rightarrow> nat \<times> cache_store" where
  "enforce_loop E cap evicted cs =
     (if cs_total_memory_bytes cs > cap
      then case s3fifo_evict_one_memory E cs of
             (Some _, cs') \<Rightarrow> enforce_loop E cap (usize_add evicted 1) cs'
           | (None, cs') \<Rightarrow> (evicted, cs')
      else (evicted, cs))"
  by pat_completeness auto
termination
  by (relation "measure (\<lambda>(E, x, n, cs). queue_len cs)")
    (auto simp: evict_one_memory_eq intro: evict_one_decreases [OF sym])

definition enforce_memory_limit :: "env \<Rightarrow> cache_store \<Rightarrow> nat \<times> cache_store" where
  "enforce_memory_limit E cs =
     (let cap = cs_max_memory_bytes cs
      in if cap = 0 then (0, cs)
         else let (evicted, cs1) = enforce_loop E cap 0 cs
              in (evicted,
                  if evicted > 0
                  then on_stats (\<lambda>v. v\<lparr>vs_total := usize_add (vs_total v) evicted\<rparr>) cs1
                  else cs1))"

declare evict_while_full.simps [simp del] evict_while_heavy.simps [simp del] enforce_loop.simps [simp del]

text \<open>What holds when a loop ends, for a property \<open>P\<close> that every eviction keeps: either the
  loop's condition is false, or the last eviction found nothing.\<close>

lemma evict_while_full_exit:
  assumes step: "\<And>c. P c \<Longrightarrow> P (snd (s3fifo_evict_one E c))" and "P cs"
  shows "P (snd (snd (evict_while_full E a b cs))) \<and>
    (queue_len (snd (snd (evict_while_full E a b cs))) \<le> queue_capacity (snd (snd (evict_while_full E a b cs))) \<or>
     (\<exists>c. P c \<and> queue_capacity c < queue_len c \<and> s3fifo_evict_one E c = (None, snd (snd (evict_while_full E a b cs)))))"
  using assms(2)
proof (induction "queue_len cs" arbitrary: a b cs rule: less_induct)
  case less
  obtain r cs1 where ev: "s3fifo_evict_one E cs = (r, cs1)" by fastforce
  have P1: "P cs1" using step [OF less.prems] by (simp add: ev)
  show ?case
  proof (cases "queue_len cs > queue_capacity cs")
    case True
    show ?thesis
    proof (cases r)
      case None
      then show ?thesis using True P1 less.prems ev by (subst (1 2 3 4) evict_while_full.simps) auto
    next
      case (Some src)
      then have "queue_len cs1 < queue_len cs" using ev evict_one_decreases by simp
      then show ?thesis
        using less.hyps [of cs1] P1 True ev Some
        by (cases src; subst (1 2 3 4) evict_while_full.simps) simp_all
    qed
  qed (use less.prems in \<open>simp add: evict_while_full.simps [of E a b cs]\<close>)
qed

lemma evict_while_heavy_exit:
  assumes step: "\<And>c. P c \<Longrightarrow> P (snd (s3fifo_evict_one E c))" and "P cs"
  shows "P (snd (snd (evict_while_heavy E cap a b cs))) \<and>
    (cs_total_memory_bytes (snd (snd (evict_while_heavy E cap a b cs))) \<le> cap \<or>
     (\<exists>c. P c \<and> cap < cs_total_memory_bytes c \<and> s3fifo_evict_one E c = (None, snd (snd (evict_while_heavy E cap a b cs)))))"
  using assms(2)
proof (induction "queue_len cs" arbitrary: a b cs rule: less_induct)
  case less
  obtain r cs1 where ev: "s3fifo_evict_one E cs = (r, cs1)" by fastforce
  have P1: "P cs1" using step [OF less.prems] by (simp add: ev)
  show ?case
  proof (cases "cs_total_memory_bytes cs > cap")
    case True
    show ?thesis
    proof (cases r)
      case None
      then show ?thesis using True P1 less.prems ev
        by (subst (1 2 3) evict_while_heavy.simps) (auto simp: evict_one_memory_eq)
    next
      case (Some src)
      then have "queue_len cs1 < queue_len cs" using ev evict_one_decreases by simp
      then show ?thesis
        using less.hyps [of cs1] P1 True ev Some
        by (cases src; subst (1 2 3) evict_while_heavy.simps) (simp_all add: evict_one_memory_eq)
    qed
  next
    case False
    then have "evict_while_heavy E cap a b cs = (a, b, cs)" by (simp add: evict_while_heavy.simps)
    then show ?thesis using False less.prems by (simp add: not_less)
  qed
qed

lemma enforce_loop_heavy:
  "snd (enforce_loop E cap n cs) = snd (snd (evict_while_heavy E cap a b cs))"
proof (induction "queue_len cs" arbitrary: n a b cs rule: less_induct)
  case less
  obtain r cs1 where ev: "s3fifo_evict_one E cs = (r, cs1)" by fastforce
  show ?case
  proof (cases "r = None \<or> \<not> cs_total_memory_bytes cs > cap")
    case True
    then show ?thesis
      by (subst enforce_loop.simps, subst evict_while_heavy.simps) (auto simp: evict_one_memory_eq ev)
  next
    case False
    then obtain src where r: "r = Some src" by auto
    then have "queue_len cs1 < queue_len cs" using ev evict_one_decreases by simp
    then show ?thesis using False less.hyps [of cs1] r
      by (cases src; subst enforce_loop.simps, subst evict_while_heavy.simps)
        (simp_all add: evict_one_memory_eq ev)
  qed
qed

text \<open>Frequencies never rise in an eviction.\<close>

lemma tepid_tracked_remove [simp]: "tepid cs x \<Longrightarrow> tepid (snd (tracked_remove E h cs)) x"
  by (auto simp: tepid_def freq_of_def delete_conv' split: option.splits)

lemma tepid_small_loop: "tepid cs x \<Longrightarrow> tepid (snd (evict_small_loop E n p cs)) x"
proof (induction n arbitrary: p cs)
  case (Suc n)
  then show ?case by (auto simp: evict_small_loop_Suc split: list.splits)
qed simp

lemma tepid_main_loop: "tepid cs x \<Longrightarrow> tepid (snd (evict_main_loop E n cs)) x"
proof (induction n arbitrary: cs)
  case (Suc n)
  then show ?case by (auto simp: evict_main_loop_Suc split: list.splits)
qed simp

lemma tepid_evict_one: "tepid cs x \<Longrightarrow> tepid (snd (s3fifo_evict_one E cs)) x"
  using tepid_small_loop [of cs x E "length (s3_small (cs_s3fifo cs))" 0]
  by (auto simp: evict_one_eq s3fifo_evict_from_small_def s3fifo_evict_from_main_def tepid_main_loop
      split: prod.splits option.splits)

lemma sum_by_keys:
  "distinct (map fst xs) \<Longrightarrow> sum_by f xs = (\<Sum>k \<in> dom (map_of xs). f (the (map_of xs k)))"
proof (induction xs)
  case (Cons kv xs)
  obtain k v where kv: "kv = (k, v)" by fastforce
  have k: "k \<notin> dom (map_of xs)" using Cons.prems kv by (simp add: dom_map_of_conv_image_fst)
  then have "(\<Sum>j \<in> dom (map_of xs). f (the (map_of (kv # xs) j))) = (\<Sum>j \<in> dom (map_of xs). f (the (map_of xs j)))"
    by (intro sum.cong) (auto simp: kv)
  moreover have "dom (map_of (kv # xs)) = insert k (dom (map_of xs))" by (simp add: kv)
  moreover have "sum_by f (kv # xs) = f v + sum_by f xs" by (simp add: kv)
  ultimately show ?case using Cons k kv by (simp add: finite_dom_map_of del: map_of.simps) simp
qed simp

lemma sum_by_view_mono:
  assumes "view cs \<subseteq>\<^sub>m view cs'" "distinct (map fst (cs_entries cs))" "distinct (map fst (cs_entries cs'))"
  shows "sum_by (approximate_size E) (cs_entries cs) \<le> sum_by (approximate_size E) (cs_entries cs')"
proof -
  have dom: "dom (map_of (cs_entries c)) = dom (view c)" for c
    by (auto simp: view_def)
  have val: "approximate_size E (the (map_of (cs_entries c) k)) = approximate_size E (the (view c k))"
    if "k \<in> dom (view c)" for c k
    using that by (auto simp: view_def)
  have "(\<Sum>k \<in> dom (view cs). approximate_size E (the (view cs k))) =
      (\<Sum>k \<in> dom (view cs). approximate_size E (the (view cs' k)))"
    using assms(1) by (intro sum.cong) (auto simp: map_le_def)
  also have "\<dots> \<le> (\<Sum>k \<in> dom (view cs'). approximate_size E (the (view cs' k)))"
    using assms(1) dom [of cs'] finite_dom_map_of [of "cs_entries cs'"]
    by (intro sum_mono2) (auto dest: map_le_implies_dom_le)
  finally show ?thesis
    using assms(2,3) by (simp add: sum_by_keys dom val cong: sum.cong)
qed

section \<open>Admission of a new entry\<close>

text \<open>The state in which an admission ends, without its statistics.\<close>

definition admit_core :: "env \<Rightarrow> query_hash \<Rightarrow> cache_store \<Rightarrow> cache_store" where
  "admit_core E h cs =
     (let full = evict_while_full E 0 0 (on_s3 (enqueue_new h) cs);
          cs2 = snd (snd full)
      in if cs_max_memory_bytes cs2 > 0
         then snd (snd (evict_while_heavy E (cs_max_memory_bytes cs2) (fst full) (fst (snd full)) cs2))
         else cs2)"

lemma on_stats_simps [simp]:
  "cs_entries (on_stats f cs) = cs_entries cs" "cs_s3fifo (on_stats f cs) = cs_s3fifo cs"
  "cs_total_memory_bytes (on_stats f cs) = cs_total_memory_bytes cs"
  "cs_exact_to_normalized (on_stats f cs) = cs_exact_to_normalized cs"
  "cs_cdc_sender (on_stats f cs) = cs_cdc_sender cs"
  "cs_per_upstream_limit (on_stats f cs) = cs_per_upstream_limit cs"
  "cs_max_memory_bytes (on_stats f cs) = cs_max_memory_bytes cs"
  "cs_normalized_matching (on_stats f cs) = cs_normalized_matching cs"
  "cache_config (on_stats f cs) = cache_config cs"
  by (simp_all add: on_stats_def cache_config_def)

lemma on_stats_views [simp]:
  "view (on_stats f cs) = view cs" "cache_inv E (on_stats f cs) = cache_inv E cs"
  "queue_len (on_stats f cs) = queue_len cs" "queue_capacity (on_stats f cs) = queue_capacity cs"
  by (auto simp: view_def cache_inv_def queue_len_def queue_capacity_def)

lemma on_stats_id: "on_stats (\<lambda>v. v) cs = cs"
  by (simp add: on_stats_def)

lemma admit_core_stats: "\<exists>f. s3fifo_admit E h cs = on_stats f (admit_core E h cs)"
proof -
  obtain a b cs2 where f: "evict_while_full E 0 0 (on_s3 (enqueue_new h) cs) = (a, b, cs2)"
    using prod_cases3 by blast
  obtain c d cs3 where hv: "(if cs_max_memory_bytes cs2 > 0
      then evict_while_heavy E (cs_max_memory_bytes cs2) a b cs2 else (a, b, cs2)) = (c, d, cs3)"
    using prod_cases3 by blast
  have core: "admit_core E h cs = cs3"
    using hv by (simp add: admit_core_def Let_def f split: if_splits)
  show ?thesis
    unfolding core s3fifo_admit_def Let_def f prod.case hv
    by (cases "h \<in> s3_ghost_set (cs_s3fifo cs) \<or> 0 < c \<or> 0 < d")
      (auto intro: exI [of _ "\<lambda>v. v"] simp: on_stats_id)
qed

definition admitted :: "env \<Rightarrow> cache_store \<Rightarrow> query_hash \<Rightarrow> cache_entry \<Rightarrow> cache_store \<Rightarrow> bool" where
  "admitted E cs0 h e c \<longleftrightarrow> cache_inv E c \<and> tepid c h \<and> view c \<subseteq>\<^sub>m (view cs0)(h \<mapsto> e)
     \<and> cache_config c = cache_config cs0 \<and> cs_exact_to_normalized c \<subseteq>\<^sub>m cs_exact_to_normalized cs0"

lemma admitted_evict_one: "admitted E cs0 h e c \<Longrightarrow> admitted E cs0 h e (snd (s3fifo_evict_one E c))"
  using evict_one_shrinks [of E c] tepid_evict_one [of c h E]
  by (auto simp: admitted_def shrinks_def intro: map_le_trans)

lemma tracked_insert_simps [simp]:
  "cs_entries (tracked_insert E h e cs) = AList.update h e (cs_entries cs)"
  "cs_s3fifo (tracked_insert E h e cs) = cs_s3fifo cs"
  "cache_config (tracked_insert E h e cs) = cache_config cs"
  "cs_exact_to_normalized (tracked_insert E h e cs) = cs_exact_to_normalized cs"
  "cs_max_memory_bytes (tracked_insert E h e cs) = cs_max_memory_bytes cs"
  "cs_normalized_matching (tracked_insert E h e cs) = cs_normalized_matching cs"
  "cs_cdc_sender (tracked_insert E h e cs) = cs_cdc_sender cs"
  by (simp_all add: tracked_insert_def cache_config_def Let_def)

lemma view_tracked_insert: "view (tracked_insert E h e cs) = (view cs)(h \<mapsto> e\<lparr>ce_freq := 0\<rparr>)"
  by (rule ext) (simp add: view_def update_conv')

lemma entries_ok_tracked_insert:
  assumes ok: "entries_ok E (cs_entries cs) (cs_total_memory_bytes cs)" and "ce_freq e \<le> 3"
  shows "entries_ok E (AList.update h e (cs_entries cs))
    (cs_total_memory_bytes (tracked_insert E h e cs))"
proof -
  let ?f = "approximate_size E" and ?xs = "cs_entries cs"
  have "cs_total_memory_bytes (tracked_insert E h e cs) = of_nat (sum_by ?f (AList.update h e ?xs))"
  proof (cases "map_of ?xs h")
    case None
    then show ?thesis using ok
      by (simp add: tracked_insert_def Let_def entries_ok_def sum_by_update_None)
  next
    case (Some old)
    have eq: "sum_by ?f (AList.update h e ?xs) + ?f old = sum_by ?f ?xs + ?f e"
      using Some by (rule sum_by_update_Some)
    have le: "?f old \<le> sum_by ?f ?xs"
      using sum_by_delete [OF _ Some, of ?f] ok by (simp add: entries_ok_def)
    show ?thesis
    proof (cases "?f e \<ge> ?f old")
      case True
      then have "sum_by ?f (AList.update h e ?xs) = sum_by ?f ?xs + (?f e - ?f old)"
        using eq by linarith
      then show ?thesis using ok Some True
        by (simp add: tracked_insert_def Let_def entries_ok_def)
    next
      case False
      then have "sum_by ?f (AList.update h e ?xs) = sum_by ?f ?xs - (?f old - ?f e)"
        using eq by linarith
      moreover have "?f old - ?f e \<le> sum_by ?f ?xs" using le by linarith
      ultimately show ?thesis using ok Some False
        by (simp add: tracked_insert_def Let_def entries_ok_def of_nat_diff)
    qed
  qed
  then show ?thesis using assms
    by (auto simp: entries_ok_def distinct_update update_conv' split: if_splits)
qed

lemma ghost_ok_enqueue: "ghost_ok st \<Longrightarrow> ghost_ok (enqueue_new h st)"
  using length_filter_le [of "\<lambda>x. x \<noteq> h" "s3_ghost st"]
  by (auto simp: ghost_ok_def enqueue_new_def simp del: length_filter_le)

lemma enqueue_new_queues:
  "set (s3_small (enqueue_new h st)) \<union> set (s3_main (enqueue_new h st)) =
     insert h (set (s3_small st) \<union> set (s3_main st))"
  "length (s3_small (enqueue_new h st)) + length (s3_main (enqueue_new h st)) =
     Suc (length (s3_small st) + length (s3_main st))"
  by (auto simp: enqueue_new_def)

lemma admitted_start:
  assumes "cache_inv E cs0" "ce_freq e = 0"
  shows "admitted E cs0 h e (on_s3 (enqueue_new h) (tracked_insert E h e cs0))"
proof -
  let ?c = "on_s3 (enqueue_new h) (tracked_insert E h e cs0)"
  have e: "e\<lparr>ce_freq := 0\<rparr> = e" using assms(2) by simp
  have "view ?c = view (tracked_insert E h e cs0)" by (rule ext) (simp add: view_def)
  then have v: "view ?c = (view cs0)(h \<mapsto> e)" by (simp add: view_tracked_insert e)
  have c: "cache_config ?c = cache_config cs0"
    using tracked_insert_simps(3) [of E h e cs0]
    by (simp add: cache_config_def on_s3_def enqueue_new_def tracked_insert_def Let_def)
  have "cache_inv E ?c"
    using assms entries_ok_tracked_insert [of E cs0 e h] enqueue_new_queues(1) [of h "cs_s3fifo cs0"]
    by (auto simp: cache_inv_def ghost_ok_enqueue covered_def dom_map_of_update)
  then show ?thesis using v c assms(2)
    by (simp add: admitted_def tepid_def freq_of_def update_conv')
qed

lemma admitted_present_evicts:
  assumes "admitted E cs0 h e c" "h \<in> dom (map_of (cs_entries c))"
  shows "fst (s3fifo_evict_one E c) \<noteq> None"
proof (rule evict_one_finds_cold)
  show "cold c h" using assms by (auto simp: admitted_def tepid_def freq_of_def cold_def)
  show "h \<in> set (s3_small (cs_s3fifo c)) \<union> set (s3_main (cs_s3fifo c))"
    using assms by (auto simp: admitted_def cache_inv_def covered_def)
qed

lemma admitted_gone_light:
  assumes "admitted E cs0 h e c" "h \<notin> dom (map_of (cs_entries c))" "cache_inv E cs0"
  shows "sum_by (approximate_size E) (cs_entries c) \<le> sum_by (approximate_size E) (cs_entries cs0)"
proof (rule sum_by_view_mono)
  have "view c h = None" using assms(2) by (auto simp: view_def)
  moreover have "view c \<subseteq>\<^sub>m (view cs0)(h \<mapsto> e)" using assms(1) by (simp add: admitted_def)
  ultimately show "view c \<subseteq>\<^sub>m view cs0"
    unfolding map_le_def by (metis domIff fun_upd_other)
qed (use assms in \<open>simp_all add: admitted_def cache_inv_def entries_ok_def\<close>)

text \<open>Both loops of an admission, from a store that was within its queue capacity.\<close>

lemma admit_queue_bound:
  assumes "cache_inv E cs0" "ce_freq e = 0" "queue_len cs0 \<le> queue_capacity cs0"
  shows "queue_len (snd (snd (evict_while_full E a b (on_s3 (enqueue_new h) (tracked_insert E h e cs0)))))
    \<le> queue_capacity cs0"
proof -
  let ?cap = "queue_capacity cs0"
  define P where "P c \<longleftrightarrow> admitted E cs0 h e c \<and>
    (queue_len c \<le> ?cap \<or> (h \<in> dom (map_of (cs_entries c)) \<and> queue_len c \<le> Suc ?cap))" for c
  have capc: "admitted E cs0 h e c \<Longrightarrow> queue_capacity c = ?cap" for c
    by (rule cache_config_fields(9)) (simp add: admitted_def)
  have step: "P (snd (s3fifo_evict_one E c))" if "P c" for c
  proof (cases "queue_len c \<le> ?cap")
    case True
    then show ?thesis using that evict_one_queue [of E c] admitted_evict_one [of E cs0 h e c]
      by (simp add: P_def)
  next
    case False
    then have "fst (s3fifo_evict_one E c) \<noteq> None"
      using that admitted_present_evicts [of E cs0 h e c] by (simp add: P_def)
    then show ?thesis using that evict_one_queue [of E c] admitted_evict_one [of E cs0 h e c]
      by (auto simp: P_def)
  qed
  have start: "P (on_s3 (enqueue_new h) (tracked_insert E h e cs0))"
    using admitted_start [OF assms(1,2), of h] assms(3) enqueue_new_queues(2) [of h "cs_s3fifo cs0"]
    by (simp add: P_def queue_len_def dom_map_of_update)
  have found: "s3fifo_evict_one E c \<noteq> (None, d)" if "P c" "queue_capacity c < queue_len c" for c d
    using that capc [of c] admitted_present_evicts [of E cs0 h e c] by (auto simp: P_def)
  show ?thesis (is "queue_len ?r \<le> _")
  proof -
    have "P ?r" "queue_len ?r \<le> queue_capacity ?r"
      using evict_while_full_exit [of P E, OF step start, of a b] found by blast+
    then show ?thesis using capc [of ?r] by (simp add: P_def)
  qed
qed

lemma heavy_keeps:
  assumes "admitted E cs0 h e c" "queue_len c \<le> n"
  shows "admitted E cs0 h e (snd (snd (evict_while_heavy E cap a b c)))
    \<and> queue_len (snd (snd (evict_while_heavy E cap a b c))) \<le> n"
proof -
  have "admitted E cs0 h e (snd (s3fifo_evict_one E d)) \<and> queue_len (snd (s3fifo_evict_one E d)) \<le> n"
    if "admitted E cs0 h e d \<and> queue_len d \<le> n" for d
    using that admitted_evict_one [of E cs0 h e d] evict_one_queue [of E d] by auto
  then show ?thesis
    using evict_while_heavy_exit [of "\<lambda>d. admitted E cs0 h e d \<and> queue_len d \<le> n" E c cap a b] assms
    by blast
qed

lemma heavy_memory_bound:
  assumes "admitted E cs0 h e c" "cache_inv E cs0"
    and "sum_by (approximate_size E) (cs_entries cs0) \<le> unat cap"
  shows "cs_total_memory_bytes (snd (snd (evict_while_heavy E cap a b c))) \<le> cap"
proof (rule ccontr)
  assume "\<not> ?thesis"
  then obtain d where d: "admitted E cs0 h e d" "cap < cs_total_memory_bytes d"
      "fst (s3fifo_evict_one E d) = None"
    using evict_while_heavy_exit [of "admitted E cs0 h e" E c cap a b] admitted_evict_one assms(1)
    by (metis fst_conv)
  then have "h \<notin> dom (map_of (cs_entries d))" using admitted_present_evicts by blast
  then have le: "sum_by (approximate_size E) (cs_entries d) \<le> unat cap"
    using admitted_gone_light [OF d(1) _ assms(2)] assms(3) by simp
  have "cs_total_memory_bytes d = of_nat (sum_by (approximate_size E) (cs_entries d))"
    using d(1) by (simp add: admitted_def cache_inv_def entries_ok_def)
  then have "unat (cs_total_memory_bytes d) \<le> unat cap"
    using le unat_bound [of cap] by (simp add: unat_of_nat take_bit_nat_eq_self)
  then show False using d(2) by (simp add: word_less_nat_alt)
qed

lemma admit_new:
  assumes "cache_inv E cs0" "ce_freq e = 0"
  shows "admitted E cs0 h e (s3fifo_admit E h (tracked_insert E h e cs0))"
    and "queue_len cs0 \<le> queue_capacity cs0 \<Longrightarrow>
      queue_len (s3fifo_admit E h (tracked_insert E h e cs0)) \<le> queue_capacity cs0"
    and "0 < cs_max_memory_bytes cs0 \<Longrightarrow>
      sum_by (approximate_size E) (cs_entries cs0) \<le> unat (cs_max_memory_bytes cs0) \<Longrightarrow>
      cs_total_memory_bytes (s3fifo_admit E h (tracked_insert E h e cs0)) \<le> cs_max_memory_bytes cs0"
proof -
  let ?c1 = "on_s3 (enqueue_new h) (tracked_insert E h e cs0)"
  let ?full = "evict_while_full E 0 0 ?c1"
  obtain f where f: "s3fifo_admit E h (tracked_insert E h e cs0) =
      on_stats f (admit_core E h (tracked_insert E h e cs0))" using admit_core_stats by blast
  have full: "admitted E cs0 h e (snd (snd ?full))"
    using evict_while_full_exit [of "admitted E cs0 h e" E ?c1 0 0] admitted_evict_one
      admitted_start [OF assms, of h] by blast
  then have mx: "cs_max_memory_bytes (snd (snd ?full)) = cs_max_memory_bytes cs0"
    by (intro cache_config_fields(5)) (simp add: admitted_def)
  have st: "admitted E cs0 h e (on_stats f c) = admitted E cs0 h e c" for c
    by (simp add: admitted_def tepid_def freq_of_def)
  have "admitted E cs0 h e (admit_core E h (tracked_insert E h e cs0))"
    using full heavy_keeps [OF full order_refl] unfolding admit_core_def Let_def by simp
  then show "admitted E cs0 h e (s3fifo_admit E h (tracked_insert E h e cs0))"
    unfolding f st .
  show "queue_len (s3fifo_admit E h (tracked_insert E h e cs0)) \<le> queue_capacity cs0"
    if "queue_len cs0 \<le> queue_capacity cs0"
    using admit_queue_bound [OF assms that, of 0 0 h] heavy_keeps [OF full]
    by (simp add: f admit_core_def Let_def)
  show "cs_total_memory_bytes (s3fifo_admit E h (tracked_insert E h e cs0)) \<le> cs_max_memory_bytes cs0"
    if "0 < cs_max_memory_bytes cs0"
      "sum_by (approximate_size E) (cs_entries cs0) \<le> unat (cs_max_memory_bytes cs0)"
    using heavy_memory_bound [OF full assms(1) that(2)] that(1) by (simp add: f admit_core_def Let_def mx)
qed

lemma ghost_loop_eq: "0 < cap \<Longrightarrow> ghost_loop cap ghost gset = Some (ghost_trim cap ghost gset)"
proof (induction ghost arbitrary: gset)
  case Nil
  then show ?case by (subst ghost_loop.simps) simp
next
  case (Cons old rest)
  then show ?case by (subst ghost_loop.simps) simp
qed

lemma evict_one_inv: "cache_inv E c \<Longrightarrow> cache_inv E (snd (s3fifo_evict_one E c))"
  using evict_one_shrinks [of E c] by (simp add: shrinks_def)

lemma evict_one_all_tepid:
  assumes "cache_inv E c" "\<forall>x. tepid c x" "fst (s3fifo_evict_one E c) = None"
  shows "cs_total_memory_bytes c = 0"
proof -
  have "x \<notin> dom (map_of (cs_entries c))" for x
  proof
    assume x: "x \<in> dom (map_of (cs_entries c))"
    have "tepid c x" using assms(2) by simp
    with x have "cold c x" by (auto simp: cold_def tepid_def freq_of_def)
    moreover have "x \<in> set (s3_small (cs_s3fifo c)) \<union> set (s3_main (cs_s3fifo c))"
      using x assms(1) by (auto simp: cache_inv_def covered_def)
    ultimately show False using evict_one_finds_cold assms(3) by blast
  qed
  then have "dom (map_of (cs_entries c)) = {}" by blast
  then have "cs_entries c = []" by (simp add: dom_map_of_conv_image_fst)
  then show ?thesis using assms(1) by (simp add: cache_inv_def entries_ok_def)
qed

lemma enforce_memory_limit_state:
  "0 < cs_max_memory_bytes cs \<Longrightarrow>
   \<exists>f. snd (enforce_memory_limit E cs) =
     on_stats f (snd (snd (evict_while_heavy E (cs_max_memory_bytes cs) 0 0 cs)))"
proof -
  assume pos: "0 < cs_max_memory_bytes cs"
  obtain n c where l: "enforce_loop E (cs_max_memory_bytes cs) 0 cs = (n, c)" by fastforce
  then have c: "c = snd (snd (evict_while_heavy E (cs_max_memory_bytes cs) 0 0 cs))"
    using enforce_loop_heavy [of E "cs_max_memory_bytes cs" 0 cs 0 0] by simp
  show ?thesis using pos l
    by (cases "0 < n") (auto simp: enforce_memory_limit_def Let_def c [symmetric] on_stats_id
        intro: exI [of _ "\<lambda>v. v"])
qed

section \<open>Properties\<close>

text \<open>C5. Admitting a new entry keeps the store within its bounds: from a store that satisfies the
  invariant and is within its queue capacity and its memory limit, the store after the admission
  satisfies the invariant, its queues are within their capacity, so that it has at most that many
  entries, the sizes of its entries add up to at most the limit, and it holds nothing but what it
  held before and the new entry.\<close>

theorem s3fifo_admission_bounds:
  assumes "cache_inv E cs" and "map_of (cs_entries cs) h = None" and "ce_freq e = 0"
    and "queue_len cs \<le> queue_capacity cs"
    and "0 < cs_max_memory_bytes cs"
    and "sum_by (approximate_size E) (cs_entries cs) \<le> unat (cs_max_memory_bytes cs)"
    and "sum_by (approximate_size E) (cs_entries cs) + approximate_size E e < 2 ^ 64"
  shows "let cs' = s3fifo_admit E h (tracked_insert E h e cs)
    in cache_inv E cs' \<and> queue_len cs' \<le> queue_capacity cs'
       \<and> length (cs_entries cs') \<le> queue_capacity cs'
       \<and> sum_by (approximate_size E) (cs_entries cs') \<le> unat (cs_max_memory_bytes cs')
       \<and> view cs' \<subseteq>\<^sub>m (view cs)(h \<mapsto> e)"
proof -
  define c where "c = s3fifo_admit E h (tracked_insert E h e cs)"
  note adm = admit_new [OF assms(1,3), of h, folded c_def]
  have inv: "cache_inv E c" and v: "view c \<subseteq>\<^sub>m (view cs)(h \<mapsto> e)"
    and cfg: "cache_config c = cache_config cs" using adm(1) by (simp_all add: admitted_def)
  have cap: "queue_capacity c = queue_capacity cs" "cs_max_memory_bytes c = cs_max_memory_bytes cs"
    using cache_config_fields [OF cfg] by simp_all
  have q: "queue_len c \<le> queue_capacity c" using adm(2) assms(4) cap by simp
  have "length (cs_entries c) \<le> length (s3_small (cs_s3fifo c) @ s3_main (cs_s3fifo c))"
    using inv by (intro length_le_keys_list) (simp_all add: cache_inv_def entries_ok_def covered_def)
  then have len: "length (cs_entries c) \<le> queue_capacity c" using q by (simp add: queue_len_def)
  have "sum_by (approximate_size E) (cs_entries c) \<le>
      sum_by (approximate_size E) (cs_entries (tracked_insert E h e cs))"
  proof (rule sum_by_view_mono)
    have "e\<lparr>ce_freq := 0\<rparr> = e" using assms(3) by simp
    then show "view c \<subseteq>\<^sub>m view (tracked_insert E h e cs)" using v by (simp add: view_tracked_insert)
  qed (use inv assms(1) in \<open>simp_all add: cache_inv_def entries_ok_def distinct_update\<close>)
  then have "sum_by (approximate_size E) (cs_entries c) < 2 ^ 64"
    using assms(2,7) by (simp add: sum_by_update_None)
  then have "sum_by (approximate_size E) (cs_entries c) = unat (cs_total_memory_bytes c)"
    using inv by (simp add: cache_inv_def entries_ok_def unat_of_nat take_bit_nat_eq_self)
  then have "sum_by (approximate_size E) (cs_entries c) \<le> unat (cs_max_memory_bytes c)"
    using adm(3) assms(5,6) cap by (simp add: word_le_nat_alt)
  then show ?thesis using inv q len v by (simp add: Let_def c_def)
qed

definition plain_entry :: "nat \<Rightarrow> u8 \<Rightarrow> cache_entry" where
  "plain_entry n f = \<lparr>ce_freq = f, ce_cached_at = 0, ce_cached_at_wall = None, ce_content_hash = None,
     ce_response = response_of [], ce_upstream_id = replicate n 97, ce_extended_count = 0,
     ce_schema = schema_default, ce_query_text = None, ce_context_id = []\<rparr>"

theorem s3fifo_admission_bounds_witness:
  "length (cs_entries (s3fifo_admit trivial_env [1]
      (tracked_insert trivial_env [1] (plain_entry 2 0) (cache_with 5 5 10 1000 NaN)))) \<le> 10"
proof -
  let ?cs = "cache_with 5 5 10 1000 NaN"
  have inv: "cache_inv trivial_env ?cs" and caps: "queue_capacity ?cs = 10" "queue_len ?cs = 0"
    by (simp_all add: cache_inv_def cache_with_def s3fifo_new_def entries_ok_def covered_def
        ghost_ok_def queue_capacity_def queue_len_def)
  have size: "approximate_size trivial_env (plain_entry 2 0) = 258"
    by (simp add: approximate_size_def plain_entry_def response_of_def trivial_env_def
        schema_default_def opt_str_size_def str_len_def utf8_len_def usize_add_def usize_max_def
        sum_list_replicate)
  have "queue_capacity (s3fifo_admit trivial_env [1] (tracked_insert trivial_env [1] (plain_entry 2 0) ?cs)) = 10"
    using admit_new(1) [OF inv, of "plain_entry 2 0" "[1]"] caps(1) unfolding admitted_def
    by (subst cache_config_fields(9) [where cs = ?cs]) (simp_all add: plain_entry_def)
  then show ?thesis
    using s3fifo_admission_bounds [OF inv, of "[1]" "plain_entry 2 0"] caps size
    by (simp add: Let_def plain_entry_def cache_with_def)
qed

text \<open>Enforcing the memory limit twice in a row always brings the memory counter down to the
  limit: a first call that gives up leaves every remaining entry cold, and a second one does not
  give up on cold entries.\<close>

theorem enforce_memory_limit_twice:
  assumes "cache_inv E cs" and "0 < cs_max_memory_bytes cs"
  shows "cs_total_memory_bytes (snd (enforce_memory_limit E (snd (enforce_memory_limit E cs))))
    \<le> cs_max_memory_bytes cs"
proof -
  let ?cap = "cs_max_memory_bytes cs"
  define P where "P c \<longleftrightarrow> cache_inv E c \<and> cache_config c = cache_config cs" for c
  have P_step: "P (snd (s3fifo_evict_one E c))" if "P c" for c
    using that evict_one_shrinks [of E c] by (simp add: P_def shrinks_def)
  obtain f where f: "snd (enforce_memory_limit E cs) = on_stats f (snd (snd (evict_while_heavy E ?cap 0 0 cs)))"
    using enforce_memory_limit_state [OF assms(2)] by blast
  define c1 where "c1 = snd (enforce_memory_limit E cs)"
  have ex1: "P c1 \<and> (cs_total_memory_bytes c1 \<le> ?cap \<or> (\<forall>x. tepid c1 x))"
  proof -
    note ex = evict_while_heavy_exit [of P E cs ?cap 0 0, OF P_step]
    have "tepid (on_stats f d) x" if "P c" "s3fifo_evict_one E c = (None, d)" for c d x
      using evict_one_None_tepid [of c E d x] that
      by (simp add: P_def cache_inv_def tepid_def freq_of_def)
    then show ?thesis using ex assms(1) by (auto simp: c1_def f P_def)
  qed
  then have max1: "cs_max_memory_bytes c1 = ?cap" by (intro cache_config_fields(5)) (simp add: P_def)
  obtain g where g: "snd (enforce_memory_limit E c1) = on_stats g (snd (snd (evict_while_heavy E ?cap 0 0 c1)))"
    using enforce_memory_limit_state [of c1 E] assms(2) max1 by auto
  let ?Q = "\<lambda>c. cache_inv E c \<and> (\<forall>x. tepid c x)"
  have "cs_total_memory_bytes (snd (snd (evict_while_heavy E ?cap 0 0 c1))) \<le> ?cap"
  proof (cases "cs_total_memory_bytes c1 \<le> ?cap")
    case True
    then have "evict_while_heavy E ?cap 0 0 c1 = (0, 0, c1)"
      by (subst evict_while_heavy.simps) (simp add: leD)
    then show ?thesis using True by simp
  next
    case False
    then have Q: "?Q c1" using ex1 by (simp add: P_def)
    have Q_step: "?Q (snd (s3fifo_evict_one E c))" if "?Q c" for c
      using that evict_one_inv tepid_evict_one by blast
    show ?thesis
      using evict_while_heavy_exit [of ?Q E c1 ?cap 0 0, OF Q_step Q] evict_one_all_tepid
      by (metis fst_conv word_coorder.not_eq_extremum word_not_simps(1))
  qed
  then show ?thesis by (simp add: g c1_def [symmetric])
qed

text \<open>A store of one entry of 256 bytes that was read since it entered the main queue, under a
  limit of 100 bytes.\<close>

definition hot_store :: cache_store where
  "hot_store = (cache_with 5 5 10 100 NaN)\<lparr>cs_entries := [([1], plain_entry 0 1)],
     cs_total_memory_bytes := 256, cs_s3fifo := (s3fifo_new 10)\<lparr>s3_main := [[1]]\<rparr>\<rparr>"

lemma plain_entry_size: "approximate_size trivial_env (plain_entry 0 f) = 256"
  by (simp add: approximate_size_def plain_entry_def response_of_def trivial_env_def
      schema_default_def opt_str_size_def usize_add_def usize_max_def)

lemma hot_store_inv: "cache_inv trivial_env hot_store" "cs_max_memory_bytes hot_store = 100"
  by (auto simp: cache_inv_def hot_store_def cache_with_def s3fifo_new_def entries_ok_def covered_def
      ghost_ok_def plain_entry_size split: if_splits) (simp add: plain_entry_def)

theorem enforce_memory_limit_twice_witness:
  "cs_total_memory_bytes (snd (enforce_memory_limit trivial_env
      (snd (enforce_memory_limit trivial_env hot_store)))) \<le> 100"
  using enforce_memory_limit_twice [OF hot_store_inv(1)] by (simp add: hot_store_inv)

text \<open>One call of the memory enforcement may stop above the limit and evict nothing, when the
  small queue is empty and every entry of the main queue was read since it was last visited.\<close>

theorem enforce_memory_limit_may_give_up:
  "\<exists>cs. cache_inv trivial_env cs \<and> 0 < cs_max_memory_bytes cs
     \<and> fst (enforce_memory_limit trivial_env cs) = 0
     \<and> cs_total_memory_bytes (snd (enforce_memory_limit trivial_env cs)) > cs_max_memory_bytes cs"
proof (intro exI conjI)
  have ev: "s3fifo_evict_one_memory trivial_env hot_store =
      (None, push_main [1] (pop_main [1] hot_store))"
    by (simp add: evict_one_memory_eq evict_one_eq s3fifo_evict_from_small_def
        s3fifo_evict_from_main_def evict_main_loop_Suc hot_store_def cache_with_def s3fifo_new_def
        freq_of_def plain_entry_def add_promotions_def)
  have mem: "cs_total_memory_bytes hot_store = 256" by (simp add: hot_store_def)
  have loop: "enforce_loop trivial_env 100 0 hot_store = (0, push_main [1] (pop_main [1] hot_store))"
    by (subst enforce_loop.simps) (simp add: ev mem)
  show "cache_inv trivial_env hot_store" "0 < cs_max_memory_bytes hot_store"
    by (simp_all add: hot_store_inv)
  show "fst (enforce_memory_limit trivial_env hot_store) = 0"
    "cs_total_memory_bytes (snd (enforce_memory_limit trivial_env hot_store)) > cs_max_memory_bytes hot_store"
    by (simp_all add: enforce_memory_limit_def hot_store_inv loop mem)
qed

text \<open>The loop that makes room in the ghost queue always ends in a store built by the
  constructors, whose ghost capacity is positive, and leaves room for one more hash; with a
  capacity of 0 it would never end on an empty queue.\<close>

theorem ghost_loop_terminates:
  "ghost_loop (s3_ghost_capacity (s3fifo_new n)) ghost gset =
     Some (ghost_trim (s3_ghost_capacity (s3fifo_new n)) ghost gset)
   \<and> length (fst (ghost_trim (s3_ghost_capacity (s3fifo_new n)) ghost gset)) < s3_ghost_capacity (s3fifo_new n)
   \<and> ghost_loop 0 [] gset = None"
proof -
  have pos: "0 < s3_ghost_capacity (s3fifo_new n)" by (simp add: s3fifo_new_def Let_def)
  have len: "length (fst (ghost_trim cap g s)) < cap" if "0 < cap" for cap g s
    using that by (induction g arbitrary: s) (auto split: if_splits)
  have "ghost_loop 0 [] gset = None"
  proof (cases "ghost_loop 0 [] gset")
    case (Some r)
    have "([] :: query_hash list) = [] \<longrightarrow> 0 < (0 :: nat)"
      by (rule ghost_loop.raw_induct [where P = "\<lambda>cap g s r. g = [] \<longrightarrow> 0 < cap", OF _ Some])
        (force split: if_splits)
    then show ?thesis by simp
  qed
  then show ?thesis using ghost_loop_eq [OF pos] len [OF pos] by simp
qed

end
