(* ===== verification/CacheOps.thy ===== *)
theory CacheOps
  imports S3fifo
begin

text \<open>
  The operations of \<open>CacheStore\<close> (\<open>src/src/proxy/cache.rs\<close>) on top of the S3-FIFO queues: the
  lookups, the insertions, time to live and freshness, removal, the eviction entry points, the
  snapshots and the statistics. \<open>t\<close> is the clock of the call; \<open>None\<close> in a result that is an
  option of a result is the panic of an overflowing \<open>Duration\<close> addition.
\<close>

section \<open>Lookup\<close>

datatype cache_hit_type = HitExact | HitNormalized

text \<open>Reading an entry through the map and bumping its counter.\<close>

definition touch :: "query_hash \<Rightarrow> cache_store \<Rightarrow> cache_entry option \<times> cache_store" where
  "touch h cs =
     (case map_of (cs_entries cs) h of
        Some e \<Rightarrow> (Some (bump_freq e), cs\<lparr>cs_entries := AList.update h (bump_freq e) (cs_entries cs)\<rparr>)
      | None \<Rightarrow> (None, cs))"

definition count_exact :: "cache_store \<Rightarrow> cache_store" where
  "count_exact cs = cs\<lparr>cs_exact_hits := cs_exact_hits cs + 1\<rparr>"

definition count_normalized :: "cache_store \<Rightarrow> cache_store" where
  "count_normalized cs = cs\<lparr>cs_normalized_hits := cs_normalized_hits cs + 1\<rparr>"

definition set_e2n :: "query_hash \<Rightarrow> query_hash \<Rightarrow> cache_store \<Rightarrow> cache_store" where
  "set_e2n exact normalized cs =
     cs\<lparr>cs_exact_to_normalized := (cs_exact_to_normalized cs)(exact \<mapsto> normalized)\<rparr>"

definition cache_contains :: "env \<Rightarrow> rstr \<Rightarrow> cache_store \<Rightarrow> bool" where
  "cache_contains E query cs \<longleftrightarrow> map_of (cs_entries cs) (hash_query E query) \<noteq> None"

definition get_tier2 :: "env \<Rightarrow> rstr \<Rightarrow> cache_store \<Rightarrow> (cache_entry \<times> cache_hit_type) option \<times> cache_store" where
  "get_tier2 E query cs =
     (let normalized_hash = hash_query E query
      in case touch normalized_hash cs of
           (Some e, cs1) \<Rightarrow>
             (Some (e, HitNormalized),
              count_normalized (set_e2n (hash_query_exact E query) normalized_hash cs1))
         | (None, cs1) \<Rightarrow> (None, cs1))"

definition get_with_hit_type ::
  "env \<Rightarrow> rstr \<Rightarrow> cache_store \<Rightarrow> (cache_entry \<times> cache_hit_type) option \<times> cache_store" where
  "get_with_hit_type E query cs =
     (if \<not> cs_normalized_matching cs
      then (case touch (hash_query E query) cs of
              (Some e, cs1) \<Rightarrow> (Some (e, HitExact), count_exact cs1)
            | (None, cs1) \<Rightarrow> (None, cs1))
      else case cs_exact_to_normalized cs (hash_query_exact E query) of
             Some normalized_hash \<Rightarrow>
               (case touch normalized_hash cs of
                  (Some e, cs1) \<Rightarrow> (Some (e, HitExact), count_exact cs1)
                | (None, cs1) \<Rightarrow> get_tier2 E query cs1)
           | None \<Rightarrow> get_tier2 E query cs)"

definition get_two_tier :: "env \<Rightarrow> rstr \<Rightarrow> cache_store \<Rightarrow> cache_entry option \<times> cache_store" where
  "get_two_tier E query cs =
     (case cs_exact_to_normalized cs (hash_query_exact E query) of
        Some normalized_hash \<Rightarrow>
          (case touch normalized_hash cs of
             (Some e, cs1) \<Rightarrow> (Some e, count_exact cs1)
           | (None, cs1) \<Rightarrow> apfst (map_option fst) (get_tier2 E query cs1))
      | None \<Rightarrow> apfst (map_option fst) (get_tier2 E query cs))"

definition cache_get :: "env \<Rightarrow> rstr \<Rightarrow> cache_store \<Rightarrow> cache_entry option \<times> cache_store" where
  "cache_get E query cs =
     (if cs_normalized_matching cs then get_two_tier E query cs
      else case touch (hash_query E query) cs of
             (Some e, cs1) \<Rightarrow> (Some e, count_exact cs1)
           | (None, cs1) \<Rightarrow> (None, cs1))"

definition get_by_hash :: "query_hash \<Rightarrow> cache_store \<Rightarrow> cache_entry option \<times> cache_store" where
  "get_by_hash h cs = touch h cs"

definition get_verified :: "env \<Rightarrow> rstr \<Rightarrow> cache_store \<Rightarrow> cache_entry option \<times> cache_store" where
  "get_verified E query cs =
     (let h = hash_query E query
      in case map_of (cs_entries cs) h of
           Some e \<Rightarrow>
             (if \<not> entry_verify_integrity E e
              then (None, on_stats (\<lambda>v. v\<lparr>vs_integrity_failures := usize_add (vs_integrity_failures v) 1\<rparr>)
                            (snd (tracked_remove E h cs)))
              else touch h cs)
         | None \<Rightarrow> (None, cs))"

section \<open>Per-upstream limits\<close>

definition iter_entries :: "env \<Rightarrow> cache_store \<Rightarrow> (query_hash \<times> cache_entry) list" where
  "iter_entries E cs = iter_order E (cs_entries cs)"

definition count_for_upstream :: "env \<Rightarrow> rstr \<Rightarrow> cache_store \<Rightarrow> nat" where
  "count_for_upstream E upstream_id cs =
     length (filter (\<lambda>(_, e). ce_upstream_id e = upstream_id) (iter_entries E cs))"

definition cdc_send ::
  "clock \<Rightarrow> cdc_event_type \<Rightarrow> cdc_event_builder \<Rightarrow> cache_store \<Rightarrow> cache_store" where
  "cdc_send t ty b cs =
     (case cs_cdc_sender cs of
        Some s \<Rightarrow> cs\<lparr>cs_cdc_sender := Some (snd (sender_send (ck_wall t) ty b s))\<rparr>
      | None \<Rightarrow> cs)"

text \<open>The loop that removes the given hashes and collects the entries removed.\<close>

fun remove_all :: "env \<Rightarrow> query_hash list \<Rightarrow> cache_store \<Rightarrow> cache_entry list \<times> cache_store" where
  "remove_all E [] cs = ([], cs)"
| "remove_all E (h # hs) cs =
     (case tracked_remove E h cs of
        (Some e, cs1) \<Rightarrow> apfst (Cons e) (remove_all E hs cs1)
      | (None, cs1) \<Rightarrow> remove_all E hs cs1)"

definition oldest_of_upstream :: "env \<Rightarrow> clock \<Rightarrow> rstr \<Rightarrow> cache_store \<Rightarrow> (query_hash \<times> duration) list" where
  "oldest_of_upstream E t upstream_id cs =
     sort_key (\<lambda>(_, age). - int age)
       (map (\<lambda>(h, e). (h, elapsed (ck_now t) (ce_cached_at e)))
         (filter (\<lambda>(_, e). ce_upstream_id e = upstream_id) (iter_entries E cs)))"

definition evict_from_upstream ::
  "env \<Rightarrow> clock \<Rightarrow> rstr \<Rightarrow> nat \<Rightarrow> cache_store \<Rightarrow> nat \<times> cache_store" where
  "evict_from_upstream E t upstream_id n cs =
     (if n = 0 then (0, cs)
      else let (removed, cs1) =
                 remove_all E (map fst (take n (oldest_of_upstream E t upstream_id cs))) cs;
               evicted = length removed;
               removed_queries = List.map_filter ce_query_text removed;
               cs2 = fold (\<lambda>q. cdc_send t CdcRemove (builder_remove q)) removed_queries cs1
           in (evicted,
               if evicted > 0
               then on_stats (\<lambda>v. v\<lparr>vs_oldest := usize_add (vs_oldest v) evicted,
                                   vs_total := usize_add (vs_total v) evicted\<rparr>) cs2
               else cs2))"

definition enforce_per_upstream_limit ::
  "env \<Rightarrow> clock \<Rightarrow> rstr \<Rightarrow> nat \<Rightarrow> cache_store \<Rightarrow> nat \<times> cache_store" where
  "enforce_per_upstream_limit E t upstream_id max_entries cs =
     (let current = count_for_upstream E upstream_id cs
      in if current \<le> max_entries then (0, cs)
         else evict_from_upstream E t upstream_id (current - max_entries) cs)"

fun count_up :: "rstr \<Rightarrow> (rstr \<times> nat) list \<Rightarrow> (rstr \<times> nat) list" where
  "count_up k [] = [(k, 1)]"
| "count_up k ((j, n) # xs) = (if j = k then (j, usize_add n 1) # xs else (j, n) # count_up k xs)"

definition entries_by_upstream :: "env \<Rightarrow> cache_store \<Rightarrow> (rstr \<times> nat) list" where
  "entries_by_upstream E cs =
     foldl (\<lambda>counts (_, e). count_up (ce_upstream_id e) counts) [] (iter_entries E cs)"

section \<open>Insertion\<close>

definition make_room :: "env \<Rightarrow> clock \<Rightarrow> rstr \<Rightarrow> cache_store \<Rightarrow> cache_store" where
  "make_room E t upstream_id cs =
     (case cs_per_upstream_limit cs of
        Some limit \<Rightarrow>
          if count_for_upstream E upstream_id cs \<ge> limit
          then on_stats (\<lambda>v. v\<lparr>vs_per_upstream := usize_add (vs_per_upstream v) 1\<rparr>)
                 (snd (evict_from_upstream E t upstream_id 1 cs))
          else cs
      | None \<Rightarrow> cs)"

definition fresh_entry ::
  "env \<Rightarrow> clock \<Rightarrow> query_response \<Rightarrow> rstr \<Rightarrow> rstr option \<Rightarrow> rstr \<Rightarrow> cache_entry" where
  "fresh_entry E t resp upstream_id query_text context_id =
     \<lparr>ce_freq = 0, ce_cached_at = ck_now t, ce_cached_at_wall = Some (ck_wall t),
      ce_content_hash = Some (compute_content_hash E resp), ce_response = resp,
      ce_upstream_id = upstream_id, ce_extended_count = 0, ce_schema = schema_default,
      ce_query_text = query_text, ce_context_id = context_id\<rparr>"

text \<open>Storing an entry and admitting its hash when it is new.\<close>

definition store_entry :: "env \<Rightarrow> query_hash \<Rightarrow> cache_entry \<Rightarrow> cache_store \<Rightarrow> cache_store" where
  "store_entry E h e cs =
     (let is_new = (map_of (cs_entries cs) h = None);
          cs1 = tracked_insert E h e cs
      in if is_new then s3fifo_admit E h cs1 else cs1)"

definition insert_impl ::
  "env \<Rightarrow> clock \<Rightarrow> rstr \<Rightarrow> query_response \<Rightarrow> rstr \<Rightarrow> rstr \<Rightarrow> cache_store \<Rightarrow> cache_store" where
  "insert_impl E t query resp upstream_id context_id cs =
     (let normalized_hash = hash_query E query;
          cs1 = make_room E t upstream_id cs;
          is_new = (map_of (cs_entries cs1) normalized_hash = None);
          cdc_payload = (if cs_cdc_sender cs1 \<noteq> None then to_vec E resp else None);
          cs2 = tracked_insert E normalized_hash
                  (fresh_entry E t resp upstream_id (Some query) context_id) cs1;
          cs3 = (if cs_normalized_matching cs2
                 then set_e2n (hash_query_exact E query) normalized_hash cs2 else cs2);
          cs4 = (if is_new then s3fifo_admit E normalized_hash cs3 else cs3)
      in case cdc_payload of
           Some payload \<Rightarrow> cdc_send t CdcInsert (builder_insert query payload upstream_id) cs4
         | None \<Rightarrow> cs4)"

definition cache_insert ::
  "env \<Rightarrow> clock \<Rightarrow> rstr \<Rightarrow> query_response \<Rightarrow> rstr \<Rightarrow> cache_store \<Rightarrow> cache_store" where
  "cache_insert E t query resp upstream_id cs =
     insert_impl E t query resp upstream_id (lit ''default'') cs"

definition insert_with_context ::
  "env \<Rightarrow> clock \<Rightarrow> rstr \<Rightarrow> query_response \<Rightarrow> rstr \<Rightarrow> rstr \<Rightarrow> cache_store \<Rightarrow> cache_store" where
  "insert_with_context E t query resp upstream_id context_id cs =
     insert_impl E t query resp upstream_id context_id cs"

definition insert_by_hash ::
  "env \<Rightarrow> clock \<Rightarrow> query_hash \<Rightarrow> query_response \<Rightarrow> rstr \<Rightarrow> rstr option \<Rightarrow> cache_store \<Rightarrow> cache_store" where
  "insert_by_hash E t h resp upstream_id query_key cs =
     (let cs1 = make_room E t upstream_id cs;
          cdc_payload = (if cs_cdc_sender cs1 \<noteq> None \<and> query_key \<noteq> None then to_vec E resp else None);
          cs2 = store_entry E h (fresh_entry E t resp upstream_id query_key (lit ''default'')) cs1
      in case (cdc_payload, query_key) of
           (Some payload, Some key) \<Rightarrow> cdc_send t CdcInsert (builder_insert key payload upstream_id) cs2
         | _ \<Rightarrow> cs2)"

fun warmup_loop ::
  "env \<Rightarrow> clock \<Rightarrow> rstr \<Rightarrow> (rstr \<times> query_response) list \<Rightarrow> nat \<Rightarrow> cache_store \<Rightarrow> nat \<times> cache_store" where
  "warmup_loop E t upstream_id [] inserted cs = (inserted, cs)"
| "warmup_loop E t upstream_id ((query, resp) # rest) inserted cs =
     (if response_validate resp \<noteq> Inr () then warmup_loop E t upstream_id rest inserted cs
      else if length (cs_entries cs) \<ge> cs_max_entries cs then (inserted, cs)
      else warmup_loop E t upstream_id rest (usize_add inserted 1)
             (store_entry E (hash_query E query)
               (fresh_entry E t resp upstream_id (Some query) (lit ''default'')) cs))"

definition cache_warmup ::
  "env \<Rightarrow> clock \<Rightarrow> (rstr \<times> query_response) list \<Rightarrow> rstr \<Rightarrow> cache_store \<Rightarrow> nat \<times> cache_store" where
  "cache_warmup E t entries upstream_id cs = warmup_loop E t upstream_id entries 0 cs"

section \<open>Freshness\<close>

definition jitter_secs :: "cache_store \<Rightarrow> duration \<Rightarrow> query_hash \<Rightarrow> nat" where
  "jitter_secs cs base_ttl h =
     (let hash_byte = (case h of b # _ \<Rightarrow> unat b | [] \<Rightarrow> 0);
          jitter_factor = fl_mul (fl_div_const (nat_as_f32 hash_byte) 255) (cs_ttl_jitter_percent cs)
      in fl_as_u64 (fl_mul (as_secs_f32 base_ttl) jitter_factor))"

definition jittered_ttl :: "cache_store \<Rightarrow> duration \<Rightarrow> query_hash \<Rightarrow> duration option" where
  "jittered_ttl cs base_ttl h =
     (if fl_le_zero (cs_ttl_jitter_percent cs) then Some base_ttl
      else dur_add base_ttl (from_secs (jitter_secs cs base_ttl h)))"

definition check_freshness_by_hash ::
  "clock \<Rightarrow> query_hash \<Rightarrow> cache_store \<Rightarrow> freshness option option" where
  "check_freshness_by_hash t h cs =
     (case map_of (cs_entries cs) h of
        None \<Rightarrow> Some None
      | Some e \<Rightarrow>
          let age = elapsed (ck_now t) (ce_cached_at e)
          in Option.bind (jittered_ttl cs (cs_fresh_duration cs) h) (\<lambda>jittered_fresh.
             Option.bind (dur_add jittered_fresh (cs_stale_duration cs)) (\<lambda>jittered_total.
               Some (Some
                 (if age < jittered_fresh then Fresh
                  else if age < jittered_total then Stale
                  else if age < cs_max_frozen_duration cs then Frozen
                  else Expired)))))"

definition check_freshness :: "env \<Rightarrow> clock \<Rightarrow> rstr \<Rightarrow> cache_store \<Rightarrow> freshness option option" where
  "check_freshness E t query cs = check_freshness_by_hash t (hash_query E query) cs"

definition extend_ttl :: "env \<Rightarrow> clock \<Rightarrow> rstr \<Rightarrow> cache_store \<Rightarrow> cache_store" where
  "extend_ttl E t query cs =
     (let h = hash_query E query
      in case map_of (cs_entries cs) h of
           Some old \<Rightarrow>
             tracked_insert E h
               (old\<lparr>ce_cached_at := ck_now t, ce_extended_count := sat_add (ce_extended_count old) 1,
                    ce_freq := 1\<rparr>) cs
         | None \<Rightarrow> cs)"

fun stale_hashes_loop :: "clock \<Rightarrow> (query_hash \<times> cache_entry) list \<Rightarrow> cache_store \<Rightarrow> query_hash list option" where
  "stale_hashes_loop t [] cs = Some []"
| "stale_hashes_loop t ((h, e) # rest) cs =
     Option.bind (jittered_ttl cs (cs_fresh_duration cs) h) (\<lambda>jittered_fresh.
     Option.bind (dur_add jittered_fresh (cs_stale_duration cs)) (\<lambda>jittered_total.
       let age = elapsed (ck_now t) (ce_cached_at e)
       in map_option (\<lambda>hs. if age \<ge> jittered_fresh \<and> age < jittered_total then h # hs else hs)
            (stale_hashes_loop t rest cs)))"

definition get_stale_hashes :: "env \<Rightarrow> clock \<Rightarrow> cache_store \<Rightarrow> query_hash list option" where
  "get_stale_hashes E t cs = stale_hashes_loop t (iter_entries E cs) cs"

section \<open>Removal\<close>

definition drop_e2n :: "query_hash \<Rightarrow> cache_store \<Rightarrow> cache_store" where
  "drop_e2n exact cs =
     cs\<lparr>cs_exact_to_normalized := (cs_exact_to_normalized cs)(exact := None)\<rparr>"

definition cache_remove :: "env \<Rightarrow> clock \<Rightarrow> rstr \<Rightarrow> cache_store \<Rightarrow> cache_store" where
  "cache_remove E t query cs =
     cdc_send t CdcRemove (builder_remove query)
       (drop_e2n (hash_query_exact E query) (snd (tracked_remove E (hash_query E query) cs)))"

definition clear_state :: "cache_store \<Rightarrow> cache_store" where
  "clear_state cs =
     cs\<lparr>cs_entries := [], cs_exact_to_normalized := Map.empty, cs_total_memory_bytes := 0,
        cs_s3fifo := (cs_s3fifo cs)\<lparr>s3_small := [], s3_main := [], s3_ghost := [], s3_ghost_set := {}\<rparr>\<rparr>"

definition cache_clear :: "clock \<Rightarrow> cache_store \<Rightarrow> cache_store" where
  "cache_clear t cs = cdc_send t CdcRemove (builder_remove []) (clear_state cs)"

definition compute_config_fingerprint :: "env \<Rightarrow> rstr option \<Rightarrow> rstr list \<Rightarrow> u64" where
  "compute_config_fingerprint E upstream_url scope_seeds =
     (let digest = blake3 E ((case upstream_url of Some url \<Rightarrow> as_bytes url | None \<Rightarrow> []) @ [0]
                     @ concat (map (\<lambda>seed. as_bytes seed @ [0]) scope_seeds))
      in foldr (\<lambda>b acc. push_bit 8 acc + ucast b) (take 8 digest) 0)"

definition update_config_fingerprint ::
  "env \<Rightarrow> rstr option \<Rightarrow> rstr list \<Rightarrow> cache_store \<Rightarrow> bool \<times> cache_store" where
  "update_config_fingerprint E upstream_url scope_seeds cs =
     (let new_fingerprint = compute_config_fingerprint E upstream_url scope_seeds;
          old = cs_config_fingerprint cs;
          cs1 = cs\<lparr>cs_config_fingerprint := new_fingerprint\<rparr>
      in if old \<noteq> 0 \<and> old \<noteq> new_fingerprint then (True, clear_state cs1) else (False, cs1))"

end
