(* ===== verification/CacheAdmin.thy ===== *)
theory CacheAdmin
  imports CacheOps
begin

text \<open>
  The administrative operations of \<open>CacheStore\<close> (\<open>src/src/proxy/cache.rs\<close>): eviction by age, by
  filter and by integrity, the snapshots for streaming and observation, and the statistics.
\<close>

section \<open>Eviction entry points\<close>

definition total_ttl :: "cache_store \<Rightarrow> duration option" where
  "total_ttl cs = dur_add (cs_fresh_duration cs) (cs_stale_duration cs)"

text \<open>Phase 1: remove hashes until the target is reached.\<close>

fun remove_up_to :: "env \<Rightarrow> nat \<Rightarrow> nat \<Rightarrow> query_hash list \<Rightarrow> cache_store \<Rightarrow> nat \<times> cache_store" where
  "remove_up_to E target evicted [] cs = (evicted, cs)"
| "remove_up_to E target evicted (h # hs) cs =
     (if evicted \<ge> target then (evicted, cs)
      else case tracked_remove E h cs of
             (Some _, cs1) \<Rightarrow> remove_up_to E target (usize_add evicted 1) hs cs1
           | (None, cs1) \<Rightarrow> remove_up_to E target evicted hs cs1)"

text \<open>Phase 2: at most the given number of rounds, stopping when both queues are empty.\<close>

fun evict_rounds :: "env \<Rightarrow> nat \<Rightarrow> nat \<Rightarrow> cache_store \<Rightarrow> nat \<times> cache_store" where
  "evict_rounds E 0 evicted cs = (evicted, cs)"
| "evict_rounds E (Suc n) evicted cs =
     (if s3_small (cs_s3fifo cs) = [] \<and> s3_main (cs_s3fifo cs) = [] then (evicted, cs)
      else case s3fifo_evict_one E cs of
             (Some _, cs1) \<Rightarrow> evict_rounds E n (usize_add evicted 1) cs1
           | (None, cs1) \<Rightarrow> evict_rounds E n evicted cs1)"

definition evict_smart :: "env \<Rightarrow> clock \<Rightarrow> nat \<Rightarrow> cache_store \<Rightarrow> cache_store option" where
  "evict_smart E t target_count cs =
     Option.bind (total_ttl cs) (\<lambda>ttl.
       let expired_hashes = map fst (filter (\<lambda>(_, e). elapsed (ck_now t) (ce_cached_at e) > ttl)
                              (iter_entries E cs));
           (expired_count, cs1) = remove_up_to E target_count 0 expired_hashes cs;
           (s3fifo_evicted, cs2) =
             (if expired_count < target_count
              then evict_rounds E (target_count - expired_count) 0 cs1 else (0, cs1));
           evicted = usize_add expired_count s3fifo_evicted
       in Some (if evicted > 0
                then on_stats (\<lambda>v. v\<lparr>vs_expired := usize_add (vs_expired v) expired_count,
                                    vs_total := usize_add (vs_total v) evicted\<rparr>) cs2
                else cs2))"

definition evict_truly_expired :: "env \<Rightarrow> clock \<Rightarrow> cache_store \<Rightarrow> nat \<times> cache_store" where
  "evict_truly_expired E t cs =
     (let hashes = map fst (filter (\<lambda>(_, e).
              elapsed (ck_now t) (ce_cached_at e) > cs_max_frozen_duration cs) (iter_entries E cs));
          (removed, cs1) = remove_all E hashes cs;
          n = length removed
      in (n, if n > 0
             then on_stats (\<lambda>v. v\<lparr>vs_expired := usize_add (vs_expired v) n,
                                 vs_total := usize_add (vs_total v) n\<rparr>) cs1
             else cs1))"

definition starts_with :: "rstr \<Rightarrow> rstr \<Rightarrow> bool" where
  "starts_with p s \<longleftrightarrow> take (length p) s = p"

text \<open>\<open>SystemTime::checked_sub\<close>: seconds are a signed 64-bit number.\<close>

definition system_time_checked_sub :: "system_time \<Rightarrow> duration \<Rightarrow> system_time option" where
  "system_time_checked_sub w d =
     (let r = w - int d in if r \<ge> - (2 ^ 63 * 10 ^ 9) then Some r else None)"

definition filter_matches ::
  "env \<Rightarrow> rstr option \<Rightarrow> rstr option \<Rightarrow> system_time option \<Rightarrow> cache_entry \<Rightarrow> bool" where
  "filter_matches E context_id prefix_lower wall_threshold e \<longleftrightarrow>
     (case context_id of Some cid \<Rightarrow> ce_context_id e = cid | None \<Rightarrow> True) \<and>
     (case prefix_lower of
        Some p \<Rightarrow> (case ce_query_text e of
                     Some txt \<Rightarrow> starts_with p (to_lowercase E txt) | None \<Rightarrow> False)
      | None \<Rightarrow> True) \<and>
     (case wall_threshold of
        Some threshold \<Rightarrow> (case ce_cached_at_wall e of Some w \<Rightarrow> w \<le> threshold | None \<Rightarrow> False)
      | None \<Rightarrow> True)"

definition evict_filter ::
  "env \<Rightarrow> clock \<Rightarrow> rstr option \<Rightarrow> rstr option \<Rightarrow> nat option \<Rightarrow> nat option \<Rightarrow> cache_store
     \<Rightarrow> nat \<times> cache_store" where
  "evict_filter E t context_id query_text_prefix older_than_secs max_entries cs =
     (let prefix_lower = map_option (to_lowercase E) query_text_prefix;
          wall_threshold = map_option (\<lambda>secs.
            case system_time_checked_sub (ck_wall t) (from_secs secs) of
              Some w \<Rightarrow> w | None \<Rightarrow> 0) older_than_secs;
          matched = map fst (filter (\<lambda>(_, e). filter_matches E context_id prefix_lower wall_threshold e)
                       (iter_entries E cs));
          chosen = (case max_entries of Some m \<Rightarrow> take m matched | None \<Rightarrow> matched);
          (removed_entries, cs1) = remove_all E chosen cs;
          removed = length removed_entries
      in (removed,
          if removed > 0
          then cdc_send t CdcRemove (builder_remove (lit ''bulk:'' @ nat_to_dec removed))
                 (on_stats (\<lambda>v. v\<lparr>vs_total := usize_add (vs_total v) removed\<rparr>) cs1)
          else cs1))"

definition remove_corrupted :: "env \<Rightarrow> cache_store \<Rightarrow> nat \<times> cache_store" where
  "remove_corrupted E cs =
     (let corrupted = map fst (filter (\<lambda>(_, e). \<not> entry_verify_integrity E e) (iter_entries E cs));
          (removed, cs1) = remove_all E corrupted cs
      in (length removed, cs1))"

section \<open>Reports\<close>

record integrity_report =
  ir_total :: nat
  ir_valid :: nat
  ir_invalid :: nat
  ir_missing_hash :: nat

definition verify_integrity :: "env \<Rightarrow> cache_store \<Rightarrow> integrity_report" where
  "verify_integrity E cs =
     (let es = map snd (iter_entries E cs)
      in \<lparr>ir_total = length (cs_entries cs),
          ir_valid = length (filter (\<lambda>e. ce_content_hash e \<noteq> None \<and> entry_verify_integrity E e) es),
          ir_invalid = length (filter (\<lambda>e. \<not> entry_verify_integrity E e) es),
          ir_missing_hash = length (filter (\<lambda>e. ce_content_hash e = None) es)\<rparr>)"

datatype entry_freshness = EntryFresh | EntryStale | EntryExpired

definition hex_digit :: "nat \<Rightarrow> rchar" where
  "hex_digit n = (if n < 10 then 48 + n else 87 + n)"

definition query_hash_hex :: "query_hash \<Rightarrow> rstr" where
  "query_hash_hex h = concat (map (\<lambda>b. [hex_digit (unat (drop_bit 4 b)), hex_digit (unat b mod 16)]) h)"

record cache_entry_summary =
  sum_hash :: rstr
  sum_query_text :: rstr
  sum_upstream_id :: rstr
  sum_context_id :: rstr
  sum_cached_at_unix_ms :: "u64 option"
  sum_result_count :: nat
  sum_freshness :: entry_freshness

definition unix_ms :: "system_time \<Rightarrow> u64 option" where
  "unix_ms w = (if w \<ge> 0 then Some (as_millis_u64 (nat w)) else None)"

definition entry_summary :: "clock \<Rightarrow> cache_store \<Rightarrow> query_hash \<times> cache_entry \<Rightarrow> cache_entry_summary" where
  "entry_summary t cs he =
     (let (h, e) = he; age = elapsed (ck_now t) (ce_cached_at e)
      in \<lparr>sum_hash = query_hash_hex h,
          sum_query_text = take 120 (case ce_query_text e of Some q \<Rightarrow> q | None \<Rightarrow> []),
          sum_upstream_id = ce_upstream_id e, sum_context_id = ce_context_id e,
          sum_cached_at_unix_ms = Option.bind (ce_cached_at_wall e) unix_ms,
          sum_result_count = length (qr_results (ce_response e)),
          sum_freshness =
            (if age < cs_fresh_duration cs then EntryFresh
             else if age < dur_sat_add (cs_fresh_duration cs) (cs_stale_duration cs) then EntryStale
             else EntryExpired)\<rparr>)"

definition entries_summary :: "env \<Rightarrow> clock \<Rightarrow> cache_store \<Rightarrow> cache_entry_summary list" where
  "entries_summary E t cs = map (entry_summary t cs) (iter_entries E cs)"

definition snapshot_entries :: "env \<Rightarrow> cache_store \<Rightarrow> (rstr \<times> u8 list \<times> rstr) list" where
  "snapshot_entries E cs = List.map_filter (\<lambda>(_, e).
     map_option (\<lambda>json. ((case ce_query_text e of Some q \<Rightarrow> q | None \<Rightarrow> []), json, ce_upstream_id e))
       (to_vec E (ce_response e))) (iter_entries E cs)"

record distill_snapshot =
  dss_hash :: query_hash
  dss_context_id :: rstr
  dss_query_text :: rstr
  dss_cached_at_wall :: system_time
  dss_response_json :: "u8 list"
  dss_upstream_id :: rstr
  dss_extended_count :: u32

definition snapshot_entries_rich :: "env \<Rightarrow> cache_store \<Rightarrow> distill_snapshot list" where
  "snapshot_entries_rich E cs = List.map_filter (\<lambda>(h, e).
     Option.bind (ce_cached_at_wall e) (\<lambda>wall.
     map_option (\<lambda>json.
       \<lparr>dss_hash = h, dss_context_id = ce_context_id e,
        dss_query_text = (case ce_query_text e of Some q \<Rightarrow> q | None \<Rightarrow> []),
        dss_cached_at_wall = wall, dss_response_json = json, dss_upstream_id = ce_upstream_id e,
        dss_extended_count = ce_extended_count e\<rparr>) (to_vec E (ce_response e)))) (iter_entries E cs)"

record cache_stats =
  st_total :: nat
  st_fresh :: nat
  st_stale :: nat
  st_expired :: nat
  st_max_entries :: nat
  st_memory_bytes :: u64
  st_utilization :: fl

definition age_class :: "duration \<Rightarrow> duration \<Rightarrow> duration \<Rightarrow> entry_freshness" where
  "age_class fresh_ttl fresh_stale age =
     (if age < fresh_ttl then EntryFresh else if age < fresh_stale then EntryStale else EntryExpired)"

definition utilization :: "nat \<Rightarrow> nat \<Rightarrow> fl" where
  "utilization used max_entries =
     (if max_entries > 0
      then (case nat_as_f32 max_entries of Fin c \<Rightarrow> fl_div_const (nat_as_f32 used) c | _ \<Rightarrow> NaN)
      else Fin 0)"

definition cache_stats_of :: "env \<Rightarrow> clock \<Rightarrow> cache_store \<Rightarrow> cache_stats option" where
  "cache_stats_of E t cs =
     map_option (\<lambda>fresh_stale.
       let classes = map (\<lambda>(_, e). age_class (cs_fresh_duration cs) fresh_stale
                        (elapsed (ck_now t) (ce_cached_at e))) (iter_entries E cs)
       in \<lparr>st_total = length (cs_entries cs),
           st_fresh = length (filter (\<lambda>c. c = EntryFresh) classes),
           st_stale = length (filter (\<lambda>c. c = EntryStale) classes),
           st_expired = length (filter (\<lambda>c. c = EntryExpired) classes),
           st_max_entries = cs_max_entries cs,
           st_memory_bytes = cs_total_memory_bytes cs,
           st_utilization = utilization (length (cs_entries cs)) (cs_max_entries cs)\<rparr>)
       (total_ttl cs)"

record upstream_cache_stats =
  us_total :: nat
  us_fresh :: nat
  us_stale :: nat
  us_expired :: nat
  us_memory_bytes :: nat

definition upstream_stats_add ::
  "env \<Rightarrow> clock \<Rightarrow> cache_store \<Rightarrow> duration \<Rightarrow> cache_entry \<Rightarrow> upstream_cache_stats \<Rightarrow> upstream_cache_stats" where
  "upstream_stats_add E t cs fresh_stale e u =
     (let u1 = u\<lparr>us_total := usize_add (us_total u) 1,
                 us_memory_bytes := usize_add (us_memory_bytes u) (approximate_size E e)\<rparr>
      in case age_class (cs_fresh_duration cs) fresh_stale (elapsed (ck_now t) (ce_cached_at e)) of
           EntryFresh \<Rightarrow> u1\<lparr>us_fresh := usize_add (us_fresh u1) 1\<rparr>
         | EntryStale \<Rightarrow> u1\<lparr>us_stale := usize_add (us_stale u1) 1\<rparr>
         | EntryExpired \<Rightarrow> u1\<lparr>us_expired := usize_add (us_expired u1) 1\<rparr>)"

definition stats_by_upstream ::
  "env \<Rightarrow> clock \<Rightarrow> cache_store \<Rightarrow> (rstr \<rightharpoonup> upstream_cache_stats) option" where
  "stats_by_upstream E t cs =
     (if iter_entries E cs = [] then Some Map.empty
      else map_option (\<lambda>fresh_stale.
        foldl (\<lambda>m (_, e). m(ce_upstream_id e \<mapsto> upstream_stats_add E t cs fresh_stale e
            (case m (ce_upstream_id e) of Some u \<Rightarrow> u
             | None \<Rightarrow> \<lparr>us_total = 0, us_fresh = 0, us_stale = 0, us_expired = 0, us_memory_bytes = 0\<rparr>)))
          Map.empty (iter_entries E cs)) (total_ttl cs))"

definition memory_usage :: "env \<Rightarrow> cache_store \<Rightarrow> nat" where
  "memory_usage E cs = sum_list (map (\<lambda>(_, e). approximate_size E e) (iter_entries E cs))"

end
