(* ===== verification/CacheInv.thy ===== *)
theory CacheInv
  imports CacheAdmin
begin

text \<open>
  Every operation of the cache store keeps its invariant: the keys are distinct, the memory counter
  is the sum of the entries' sizes modulo 2^64, every entry is in a queue, the queues are within
  their capacity, the ghost list is bounded. The operations are the steps of an inductive relation,
  and the invariant holds in every state reachable from a new store.
\<close>

section \<open>What each operation keeps\<close>

text \<open>\<open>N\<close> is the capacity of the two queues together, fixed at construction.\<close>

definition store_ok :: "env \<Rightarrow> nat \<Rightarrow> cache_store \<Rightarrow> bool" where
  "store_ok E N cs \<longleftrightarrow> cache_inv E cs \<and> queue_len cs \<le> N \<and> queue_capacity cs = N"

lemma store_ok_cong:
  "cs_entries cs' = cs_entries cs \<Longrightarrow> cs_s3fifo cs' = cs_s3fifo cs \<Longrightarrow>
   cs_total_memory_bytes cs' = cs_total_memory_bytes cs \<Longrightarrow> store_ok E N cs' = store_ok E N cs"
  by (simp add: store_ok_def cache_inv_def queue_len_def queue_capacity_def)

lemma store_ok_frame [simp]:
  "store_ok E N (count_exact cs) = store_ok E N cs" "store_ok E N (count_normalized cs) = store_ok E N cs"
  "store_ok E N (set_e2n a b cs) = store_ok E N cs" "store_ok E N (drop_e2n a cs) = store_ok E N cs"
  "store_ok E N (on_stats f cs) = store_ok E N cs" "store_ok E N (cdc_send t ty bd cs) = store_ok E N cs"
  by (rule store_ok_cong;
      simp add: count_exact_def count_normalized_def set_e2n_def drop_e2n_def cdc_send_def
        split: option.splits)+

lemma store_ok_config [simp]:
  "store_ok E N (cs\<lparr>cs_config_fingerprint := x\<rparr>) = store_ok E N cs"
  "store_ok E N (cs\<lparr>cs_max_entries := n\<rparr>) = store_ok E N cs"
  "store_ok E N (cs\<lparr>cs_max_memory_bytes := x\<rparr>) = store_ok E N cs"
  "store_ok E N (cs\<lparr>cs_per_upstream_limit := l\<rparr>) = store_ok E N cs"
  "store_ok E N (cs\<lparr>cs_fresh_duration := d\<rparr>) = store_ok E N cs"
  "store_ok E N (cs\<lparr>cs_stale_duration := d\<rparr>) = store_ok E N cs"
  "store_ok E N (cs\<lparr>cs_max_frozen_duration := d\<rparr>) = store_ok E N cs"
  "store_ok E N (cs\<lparr>cs_normalized_matching := b\<rparr>) = store_ok E N cs"
  "store_ok E N (cs\<lparr>cs_cdc_sender := sd\<rparr>) = store_ok E N cs"
  by (rule store_ok_cong; simp)+

lemma bump_freq_le: "ce_freq (bump_freq e) \<le> 3"
  by (simp add: bump_freq_def)

lemma approximate_size_bump [simp]: "approximate_size E (bump_freq e) = approximate_size E e"
  by (simp add: bump_freq_def)

lemma update_present_keeps:
  assumes "store_ok E N cs" "map_of (cs_entries cs) h = Some e"
    and "approximate_size E e' = approximate_size E e" "ce_freq e' \<le> 3"
  shows "store_ok E N (cs\<lparr>cs_entries := AList.update h e' (cs_entries cs)\<rparr>)"
proof -
  have "dom (map_of (AList.update h e' (cs_entries cs))) = dom (map_of (cs_entries cs))"
    using assms(2) by (auto simp: dom_map_of_update)
  then show ?thesis
    using assms entries_ok_update_same [of E "cs_entries cs" _ h e e']
    by (simp add: store_ok_def cache_inv_def covered_def queue_len_def queue_capacity_def)
qed

lemma touch_keeps: "store_ok E N cs \<Longrightarrow> store_ok E N (snd (touch h cs))"
  by (auto simp: touch_def bump_freq_le intro!: update_present_keeps split: option.splits)

lemma tracked_remove_keeps: "store_ok E N cs \<Longrightarrow> store_ok E N (snd (tracked_remove E h cs))"
  using shrinks_tracked_remove [of E cs h] cache_config_fields(9) [of "snd (tracked_remove E h cs)" cs]
  by (simp add: store_ok_def shrinks_def queue_len_def)

lemma tracked_insert_present_keeps:
  assumes "store_ok E N cs" "map_of (cs_entries cs) h \<noteq> None" "ce_freq e \<le> 3"
  shows "store_ok E N (tracked_insert E h e cs)"
proof -
  have "queue_capacity (tracked_insert E h e cs) = queue_capacity cs"
    by (simp add: queue_capacity_def)
  then show ?thesis
    using assms entries_ok_tracked_insert [of E cs e h]
    by (auto simp: store_ok_def cache_inv_def covered_def queue_len_def dom_map_of_update)
qed

lemma admit_keeps:
  assumes "store_ok E N cs" "ce_freq e = 0"
  shows "store_ok E N (s3fifo_admit E h (tracked_insert E h e cs))"
proof -
  note adm = admit_new [of E cs e h]
  have "cache_config (s3fifo_admit E h (tracked_insert E h e cs)) = cache_config cs"
    using adm(1) assms by (simp add: admitted_def store_ok_def)
  then have "queue_capacity (s3fifo_admit E h (tracked_insert E h e cs)) = queue_capacity cs"
    by (rule cache_config_fields(9))
  then show ?thesis using adm assms by (simp add: admitted_def store_ok_def)
qed

lemma store_entry_keeps:
  "store_ok E N cs \<Longrightarrow> ce_freq e = 0 \<Longrightarrow> store_ok E N (store_entry E h e cs)"
  using tracked_insert_present_keeps [of E N cs h e] admit_keeps [of E N cs e h]
  by (auto simp: store_entry_def Let_def)

lemma evict_one_keeps: "store_ok E N cs \<Longrightarrow> store_ok E N (snd (s3fifo_evict_one E cs))"
  using evict_one_shrinks [of E cs] evict_one_queue [of E cs]
    cache_config_fields(9) [of "snd (s3fifo_evict_one E cs)" cs]
  by (simp add: store_ok_def shrinks_def)

lemma set_e2n_tracked_insert:
  "set_e2n a b (tracked_insert E h e cs) = tracked_insert E h e (set_e2n a b cs)"
  by (simp add: set_e2n_def tracked_insert_def Let_def)

lemma fresh_entry_freq [simp]: "ce_freq (fresh_entry E t r u q c) = 0"
  by (simp add: fresh_entry_def)

text \<open>An insertion is a \<open>store_entry\<close>, up to the mapping of exact hashes and the event it sends.\<close>

definition insert_base :: "env \<Rightarrow> clock \<Rightarrow> rstr \<Rightarrow> rstr \<Rightarrow> cache_store \<Rightarrow> cache_store" where
  "insert_base E t q u cs =
     (let cs1 = make_room E t u cs
      in if cs_normalized_matching cs1 then set_e2n (hash_query_exact E q) (hash_query E q) cs1 else cs1)"

lemma insert_impl_eq:
  "insert_impl E t q r u c cs =
     (let cs1 = make_room E t u cs;
          cs2 = store_entry E (hash_query E q) (fresh_entry E t r u (Some q) c) (insert_base E t q u cs)
      in case (if cs_cdc_sender cs1 \<noteq> None then to_vec E r else None) of
           Some payload \<Rightarrow> cdc_send t CdcInsert (builder_insert q payload u) cs2
         | None \<Rightarrow> cs2)"
proof -
  have e2n: "cs_entries (set_e2n a b d) = cs_entries d" for a b d by (simp add: set_e2n_def)
  show ?thesis
    by (cases "map_of (cs_entries (make_room E t u cs)) (hash_query E q)"; cases "to_vec E r")
      (simp_all add: insert_impl_def insert_base_def store_entry_def Let_def set_e2n_tracked_insert e2n)
qed

lemma clear_state_keeps: "store_ok E N cs \<Longrightarrow> store_ok E N (clear_state cs)"
  by (auto simp: store_ok_def cache_inv_def clear_state_def entries_ok_def covered_def ghost_ok_def
      queue_len_def queue_capacity_def)

section \<open>Reachable states\<close>

text \<open>One step is one call of a method of the store, at any time and with any arguments. The
  builder methods and the setters are steps as well.\<close>

inductive cache_step :: "env \<Rightarrow> cache_store \<Rightarrow> cache_store \<Rightarrow> bool" for E where
  step_get: "cache_step E cs (snd (cache_get E q cs))"
| step_get_with_hit_type: "cache_step E cs (snd (get_with_hit_type E q cs))"
| step_get_verified: "cache_step E cs (snd (get_verified E q cs))"
| step_get_by_hash: "cache_step E cs (snd (get_by_hash h cs))"
| step_insert: "cache_step E cs (cache_insert E t q r u cs)"
| step_insert_with_context: "cache_step E cs (insert_with_context E t q r u c cs)"
| step_insert_by_hash: "cache_step E cs (insert_by_hash E t h r u k cs)"
| step_warmup: "cache_step E cs (snd (cache_warmup E t xs u cs))"
| step_extend_ttl: "cache_step E cs (extend_ttl E t q cs)"
| step_remove: "cache_step E cs (cache_remove E t q cs)"
| step_clear: "cache_step E cs (cache_clear t cs)"
| step_update_fingerprint: "cache_step E cs (snd (update_config_fingerprint E url seeds cs))"
| step_evict_smart: "evict_smart E t n cs = Some cs' \<Longrightarrow> cache_step E cs cs'"
| step_evict_truly_expired: "cache_step E cs (snd (evict_truly_expired E t cs))"
| step_evict_from_upstream: "cache_step E cs (snd (evict_from_upstream E t u n cs))"
| step_enforce_per_upstream: "cache_step E cs (snd (enforce_per_upstream_limit E t u n cs))"
| step_evict_filter: "cache_step E cs (snd (evict_filter E t ctx pre old m cs))"
| step_remove_corrupted: "cache_step E cs (snd (remove_corrupted E cs))"
| step_enforce_memory: "cache_step E cs (snd (enforce_memory_limit E cs))"
| step_set_max_entries: "set_max_entries n cs = Inr cs' \<Longrightarrow> cache_step E cs cs'"
| step_set_max_memory: "cache_step E cs (set_max_memory_bytes b cs)"
| step_set_per_upstream: "cache_step E cs (set_per_upstream_limit l cs)"
| step_set_fresh: "cache_step E cs (set_fresh_duration d cs)"
| step_set_stale: "cache_step E cs (set_stale_duration d cs)"
| step_set_max_frozen: "cache_step E cs (set_max_frozen_duration d cs)"
| step_normalized: "cache_step E cs (with_normalized_matching b cs)"
| step_cdc: "cache_step E cs (with_cdc_sender s cs)"

inductive cache_reachable :: "env \<Rightarrow> nat \<Rightarrow> cache_store \<Rightarrow> bool" for E n where
  reach_new: "cache_reachable E n (cache_new fresh stale n)"
| reach_jitter: "cache_reachable E n (cache_with_jitter fresh stale n j)"
| reach_memory: "cache_reachable E n (cache_with_memory_limit fresh stale n m)"
| reach_step: "cache_reachable E n cs \<Longrightarrow> cache_step E cs cs' \<Longrightarrow> cache_reachable E n cs'"

section \<open>Invariants of the store\<close>

text \<open>A property of the store that the primitive operations keep is kept by every method: the
  methods are proved from these laws once, for whatever property satisfies them.\<close>

named_theorems step_laws \<open>what the operations keep of a property of the store\<close>

locale store_invariant =
  fixes E :: env and P :: "cache_store \<Rightarrow> bool"
  assumes touch_P [step_laws]: "P cs \<Longrightarrow> P (snd (touch h cs))"
    and tracked_remove_P [step_laws]: "P cs \<Longrightarrow> P (snd (tracked_remove E h cs))"
    and tracked_insert_present_P:
      "P cs \<Longrightarrow> map_of (cs_entries cs) h \<noteq> None \<Longrightarrow> ce_freq e \<le> 3 \<Longrightarrow> P (tracked_insert E h e cs)"
    and store_entry_P [step_laws]: "P cs \<Longrightarrow> P (store_entry E h (fresh_entry E t r u k c) cs)"
    and evict_one_P [step_laws]: "P cs \<Longrightarrow> P (snd (s3fifo_evict_one E cs))"
    and clear_state_P [step_laws]: "P cs \<Longrightarrow> P (clear_state cs)"
    and set_e2n_P [step_laws]: "P cs \<Longrightarrow> P (set_e2n (hash_query_exact E q) (hash_query E q) cs)"
    and drop_e2n_P [step_laws]: "P cs \<Longrightarrow> P (drop_e2n a cs)"
    and frame_P [step_laws]: "P (count_exact cs) = P cs" "P (count_normalized cs) = P cs"
      "P (on_stats f cs) = P cs" "P (cdc_send t ty bd cs) = P cs"
    and config_P [step_laws]: "P (cs\<lparr>cs_config_fingerprint := x\<rparr>) = P cs"
      "P (cs\<lparr>cs_max_entries := n\<rparr>) = P cs" "P (cs\<lparr>cs_max_memory_bytes := x\<rparr>) = P cs"
      "P (cs\<lparr>cs_per_upstream_limit := l\<rparr>) = P cs" "P (cs\<lparr>cs_fresh_duration := d\<rparr>) = P cs"
      "P (cs\<lparr>cs_stale_duration := d\<rparr>) = P cs" "P (cs\<lparr>cs_max_frozen_duration := d\<rparr>) = P cs"
      "P (cs\<lparr>cs_normalized_matching := b\<rparr>) = P cs" "P (cs\<lparr>cs_cdc_sender := sd\<rparr>) = P cs"
begin

lemma remove_all_P [step_laws]: "P cs \<Longrightarrow> P (snd (remove_all E hs cs))"
proof (induction hs arbitrary: cs)
  case (Cons h hs)
  then show ?case using tracked_remove_P [of cs h]
    by (auto split: prod.splits option.splits)
qed simp

lemma pair_P:
  "touch h cs = (r, c) \<Longrightarrow> P cs \<Longrightarrow> P c"
  "remove_all E hs cs = (es, c) \<Longrightarrow> P cs \<Longrightarrow> P c"
  using touch_P [of cs h] remove_all_P [of cs hs] by auto

lemma fold_cdc_send_P [step_laws]:
  "P (fold (\<lambda>q. cdc_send t ty (f q)) qs cs) = P cs"
  by (induction qs arbitrary: cs) (simp_all add: step_laws)

lemma evict_from_upstream_P [step_laws]:
  "P cs \<Longrightarrow> P (snd (evict_from_upstream E t u n cs))"
  by (auto simp: evict_from_upstream_def Let_def split: prod.splits dest: pair_P simp: step_laws)

lemma make_room_P [step_laws]: "P cs \<Longrightarrow> P (make_room E t u cs)"
  by (auto simp: make_room_def step_laws split: option.splits)

lemma insert_base_P [step_laws]: "P cs \<Longrightarrow> P (insert_base E t q u cs)"
  by (simp add: insert_base_def Let_def step_laws)

lemma insert_impl_P [step_laws]: "P cs \<Longrightarrow> P (insert_impl E t q r u c cs)"
  by (simp add: insert_impl_eq Let_def step_laws split: option.splits)

lemma insert_by_hash_P [step_laws]: "P cs \<Longrightarrow> P (insert_by_hash E t h r u k cs)"
  by (simp add: insert_by_hash_def Let_def step_laws split: option.splits)

lemma warmup_loop_P [step_laws]: "P cs \<Longrightarrow> P (snd (warmup_loop E t u xs n cs))"
  by (induction xs arbitrary: n cs) (auto simp: step_laws)

lemma get_tier2_P [step_laws]: "P cs \<Longrightarrow> P (snd (get_tier2 E q cs))"
  by (auto simp: get_tier2_def Let_def step_laws split: prod.splits option.splits dest: pair_P)

lemma get_two_tier_P [step_laws]:
  assumes "P cs"
  shows "P (snd (get_two_tier E q cs))"
proof (cases "cs_exact_to_normalized cs (hash_query_exact E q)")
  case None
  then show ?thesis
    using assms by (auto simp: get_two_tier_def step_laws split: prod.splits option.splits dest: pair_P)
next
  case (Some n)
  obtain r c where tc: "touch n cs = (r, c)" by fastforce
  show ?thesis
    using assms pair_P(1) [OF tc]
    by (cases r) (auto simp: get_two_tier_def Some tc step_laws split: prod.splits option.splits
        dest: pair_P)
qed

lemma cache_get_P [step_laws]: "P cs \<Longrightarrow> P (snd (cache_get E q cs))"
  by (auto simp: cache_get_def step_laws split: prod.splits option.splits dest: pair_P)

lemma get_with_hit_type_P [step_laws]:
  assumes "P cs"
  shows "P (snd (get_with_hit_type E q cs))"
proof (cases "cs_exact_to_normalized cs (hash_query_exact E q)")
  case None
  then show ?thesis
    using assms
    by (auto simp: get_with_hit_type_def step_laws split: prod.splits option.splits dest: pair_P)
next
  case (Some n)
  obtain r c where tc: "touch n cs = (r, c)" by fastforce
  show ?thesis
    using assms pair_P(1) [OF tc]
    by (cases r) (auto simp: get_with_hit_type_def Some tc step_laws split: prod.splits option.splits
        dest: pair_P)
qed

lemma get_verified_P [step_laws]: "P cs \<Longrightarrow> P (snd (get_verified E q cs))"
  by (auto simp: get_verified_def Let_def step_laws split: option.splits)

lemma extend_ttl_P [step_laws]: "P cs \<Longrightarrow> P (extend_ttl E t q cs)"
  by (auto simp: extend_ttl_def Let_def intro: tracked_insert_present_P split: option.splits)

lemma cache_remove_P [step_laws]: "P cs \<Longrightarrow> P (cache_remove E t q cs)"
  by (simp add: cache_remove_def step_laws)

lemma cache_clear_P [step_laws]: "P cs \<Longrightarrow> P (cache_clear t cs)"
  by (simp add: cache_clear_def step_laws)

lemma update_config_fingerprint_P [step_laws]:
  assumes "P cs"
  shows "P (snd (update_config_fingerprint E url seeds cs))"
  using assms by (simp add: update_config_fingerprint_def Let_def step_laws)

lemma remove_up_to_P [step_laws]: "P cs \<Longrightarrow> P (snd (remove_up_to E n m hs cs))"
proof (induction hs arbitrary: m cs)
  case (Cons h hs)
  then show ?case using tracked_remove_P [of cs h]
    by (auto split: prod.splits option.splits)
qed simp

lemma evict_rounds_P [step_laws]: "P cs \<Longrightarrow> P (snd (evict_rounds E n m cs))"
proof (induction n arbitrary: m cs)
  case (Suc n)
  then show ?case using evict_one_P [of cs]
    by (auto split: prod.splits option.splits)
qed simp

lemma pair_P2:
  "remove_up_to E n m hs cs = (k, c) \<Longrightarrow> P cs \<longrightarrow> P c"
  "evict_rounds E i j cs = (k, c) \<Longrightarrow> P cs \<longrightarrow> P c"
  using remove_up_to_P [of cs n m hs] evict_rounds_P [of cs i j] by auto

lemma evict_smart_P:
  assumes "P cs" "evict_smart E t n cs = Some cs'"
  shows "P cs'"
proof -
  obtain ttl where ttl: "total_ttl cs = Some ttl"
    using assms(2) by (cases "total_ttl cs") (simp_all add: evict_smart_def)
  let ?hs = "map fst (filter (\<lambda>(_, e). elapsed (ck_now t) (ce_cached_at e) > ttl) (iter_entries E cs))"
  obtain k c1 where k: "remove_up_to E n 0 ?hs cs = (k, c1)" by fastforce
  obtain m c2 where m: "(if k < n then evict_rounds E (n - k) 0 c1 else (0, c1)) = (m, c2)" by fastforce
  have "P c1" using pair_P2(1) [OF k] assms(1) by simp
  then have "P c2" using m pair_P2(2) [of "n - k" 0 c1 m c2] by (auto split: if_splits)
  then show ?thesis using assms(2) by (auto simp: evict_smart_def ttl Let_def k m step_laws split: if_splits)
qed

lemma evict_truly_expired_P [step_laws]: "P cs \<Longrightarrow> P (snd (evict_truly_expired E t cs))"
  by (auto simp: evict_truly_expired_def Let_def split: prod.splits dest: pair_P simp: step_laws)

lemma enforce_per_upstream_limit_P [step_laws]:
  "P cs \<Longrightarrow> P (snd (enforce_per_upstream_limit E t u n cs))"
  by (simp add: enforce_per_upstream_limit_def Let_def step_laws)

lemma evict_filter_P [step_laws]:
  "P cs \<Longrightarrow> P (snd (evict_filter E t ctx pre old m cs))"
  by (auto simp: evict_filter_def Let_def split: prod.splits dest: pair_P simp: step_laws)

lemma remove_corrupted_P [step_laws]: "P cs \<Longrightarrow> P (snd (remove_corrupted E cs))"
  by (auto simp: remove_corrupted_def Let_def split: prod.splits dest: pair_P simp: step_laws)

lemma enforce_memory_limit_P [step_laws]:
  assumes "P cs"
  shows "P (snd (enforce_memory_limit E cs))"
proof (cases "0 < cs_max_memory_bytes cs")
  case True
  have "P (snd (snd (evict_while_heavy E (cs_max_memory_bytes cs) 0 0 cs)))"
    using evict_while_heavy_exit [of "P" E cs "cs_max_memory_bytes cs" 0 0] assms
      evict_one_P by blast
  then show ?thesis using enforce_memory_limit_state [OF True, of E] by (auto simp: step_laws)
next
  case False
  then show ?thesis using assms by (simp add: enforce_memory_limit_def word_gt_0)
qed

lemma cache_step_P: "cache_step E cs cs' \<Longrightarrow> P cs \<Longrightarrow> P cs'"
proof (induction rule: cache_step.induct)
  case (step_set_max_entries n cs cs')
  then show ?case by (auto simp: set_max_entries_def step_laws split: if_splits)
next
  case (step_evict_smart t n cs cs')
  then show ?case by (rule evict_smart_P [rotated])
qed (simp_all add: step_laws cache_insert_def insert_with_context_def get_by_hash_def cache_warmup_def
    set_max_memory_bytes_def set_per_upstream_limit_def set_fresh_duration_def
    set_stale_duration_def set_max_frozen_duration_def with_normalized_matching_def with_cdc_sender_def)

lemma cache_reachable_P:
  assumes "\<And>fresh stale m j. P (cache_with fresh stale n m j)" and "cache_reachable E n cs"
  shows "P cs"
  using assms(2)
proof (induction rule: cache_reachable.induct)
  case (reach_step cs cs')
  then show ?case using cache_step_P by blast
qed (simp_all only: cache_new_def cache_with_jitter_def cache_with_memory_limit_def assms(1))

end

interpretation sok: store_invariant E "store_ok E N"
proof unfold_locales
  fix cs h r u k c and t :: clock
  show "store_ok E N cs \<Longrightarrow> store_ok E N (store_entry E h (fresh_entry E t r u k c) cs)"
    by (rule store_entry_keeps) simp_all
qed (simp_all add: touch_keeps tracked_remove_keeps tracked_insert_present_keeps evict_one_keeps
    clear_state_keeps)

lemma store_ok_new: "store_ok E (max n 1) (cache_with fresh stale n m j)"
  by (auto simp: store_ok_def cache_inv_def cache_with_def s3fifo_new_def entries_ok_def covered_def
      ghost_ok_def queue_len_def queue_capacity_def Let_def)

lemma cache_reachable_ok: "cache_reachable E n cs \<Longrightarrow> store_ok E (max n 1) cs"
  by (rule sok.cache_reachable_P) (rule store_ok_new)

lemma memory_usage_sum:
  assumes "mset (iter_order E (cs_entries cs)) = mset (cs_entries cs)"
  shows "memory_usage E cs = sum_by (approximate_size E) (cs_entries cs)"
proof -
  have "mset (map (\<lambda>(_, e). approximate_size E e) (iter_order E (cs_entries cs))) =
      mset (map (\<lambda>(_, e). approximate_size E e) (cs_entries cs))"
    using assms by (simp add: mset_map)
  then have "sum_list (map (\<lambda>(_, e). approximate_size E e) (iter_order E (cs_entries cs))) =
      sum_list (map (\<lambda>(_, e). approximate_size E e) (cs_entries cs))"
    by (metis sum_mset_sum_list)
  then show ?thesis
    by (simp add: memory_usage_def iter_entries_def sum_by_def comp_def case_prod_unfold)
qed

lemma store_ok_length:
  assumes "store_ok E N cs"
  shows "length (cs_entries cs) \<le> N"
proof -
  have "length (cs_entries cs) \<le> length (s3_small (cs_s3fifo cs) @ s3_main (cs_s3fifo cs))"
    using assms
    by (intro length_le_keys_list) (simp_all add: store_ok_def cache_inv_def entries_ok_def covered_def)
  then show ?thesis using assms by (simp add: store_ok_def queue_len_def)
qed

section \<open>Properties\<close>

text \<open>C1. Whatever sequence of its methods is called on a cache created for \<open>n\<close> entries, it never
  holds more than \<open>max n 1\<close> entries, its queues together are never longer than that, every
  entry is in a queue and its counter is at most 3, the ghost list stays within its capacity, and
  the running memory counter is, modulo 2^64, what \<open>memory_usage\<close> recomputes from the entries.\<close>

theorem cache_reachable_invariant:
  assumes "cache_reachable E n cs"
    and "mset (iter_order E (cs_entries cs)) = mset (cs_entries cs)"
  shows "length (cs_entries cs) \<le> max n 1 \<and> distinct (map fst (cs_entries cs))
    \<and> length (s3_small (cs_s3fifo cs)) + length (s3_main (cs_s3fifo cs)) \<le> max n 1
    \<and> dom (map_of (cs_entries cs)) \<subseteq> set (s3_small (cs_s3fifo cs)) \<union> set (s3_main (cs_s3fifo cs))
    \<and> s3_ghost_set (cs_s3fifo cs) \<subseteq> set (s3_ghost (cs_s3fifo cs))
    \<and> length (s3_ghost (cs_s3fifo cs)) \<le> s3_ghost_capacity (cs_s3fifo cs)
    \<and> (\<forall>h e. map_of (cs_entries cs) h = Some e \<longrightarrow> ce_freq e \<le> 3)
    \<and> cs_total_memory_bytes cs = of_nat (memory_usage E cs)"
  using cache_reachable_ok [OF assms(1)] store_ok_length [OF cache_reachable_ok [OF assms(1)]]
    memory_usage_sum [OF assms(2)]
  by (simp add: store_ok_def cache_inv_def entries_ok_def covered_def ghost_ok_def queue_len_def)

theorem cache_reachable_invariant_witness:
  "length (cs_entries (cache_clear \<lparr>ck_now = 5, ck_wall = 5\<rparr>
      (cache_insert trivial_env \<lparr>ck_now = 3, ck_wall = 3\<rparr> (lit ''a b'') (response_of []) (lit ''u'')
        (cache_new 10 20 100)))) \<le> 100"
proof -
  let ?cs = "cache_clear \<lparr>ck_now = 5, ck_wall = 5\<rparr>
      (cache_insert trivial_env \<lparr>ck_now = 3, ck_wall = 3\<rparr> (lit ''a b'') (response_of []) (lit ''u'')
        (cache_new 10 20 100))"
  have "cache_reachable trivial_env 100 ?cs"
    by (rule reach_step [OF reach_step [OF reach_new]]) (rule step_insert step_clear)+
  from cache_reachable_invariant [OF this] show ?thesis by (simp add: trivial_env_def)
qed

end
