(* ===== verification/CacheContract.thy ===== *)
theory CacheContract
  imports CacheInv
begin

text \<open>
  What the cache promises its clients. A cache may forget, so its contract is that a lookup gives
  what was last stored under the key or nothing (locale \<open>lossy_map\<close>, interpreted on the insertions
  by query and by hash). Here are also the equivalence of the two-tier lookup with the direct one,
  the freshness ladder of an entry, and what the eviction entry points remove.
\<close>

section \<open>The contract of a cache\<close>

datatype ('a, 'q, 'v) kv_op = Put 'a 'q 'v | Del 'a 'q

fun last_write :: "('q \<Rightarrow> 'k) \<Rightarrow> ('a, 'q, 'v) kv_op list \<Rightarrow> ('k \<rightharpoonup> 'v) \<Rightarrow> ('k \<rightharpoonup> 'v)" where
  "last_write key [] m = m"
| "last_write key (Put a q v # ops) m = last_write key ops (m(key q \<mapsto> v))"
| "last_write key (Del a q # ops) m = last_write key ops (m(key q := None))"

fun run_ops :: "('a \<Rightarrow> 'q \<Rightarrow> 'v \<Rightarrow> 'c \<Rightarrow> 'c) \<Rightarrow> ('a \<Rightarrow> 'q \<Rightarrow> 'c \<Rightarrow> 'c) \<Rightarrow> ('a, 'q, 'v) kv_op list \<Rightarrow> 'c \<Rightarrow> 'c" where
  "run_ops put del [] c = c"
| "run_ops put del (Put a q v # ops) c = run_ops put del ops (put a q v c)"
| "run_ops put del (Del a q # ops) c = run_ops put del ops (del a q c)"

locale lossy_map =
  fixes ok :: "'c \<Rightarrow> bool"
    and find :: "'c \<Rightarrow> 'k \<rightharpoonup> 'v"
    and key :: "'q \<Rightarrow> 'k"
    and put :: "'a \<Rightarrow> 'q \<Rightarrow> 'v \<Rightarrow> 'c \<Rightarrow> 'c"
    and del :: "'a \<Rightarrow> 'q \<Rightarrow> 'c \<Rightarrow> 'c"
  assumes put_ok: "ok c \<Longrightarrow> ok (put a q v c)"
    and del_ok: "ok c \<Longrightarrow> ok (del a q c)"
    and put_find: "ok c \<Longrightarrow> find (put a q v c) \<subseteq>\<^sub>m (find c)(key q \<mapsto> v)"
    and del_find: "ok c \<Longrightarrow> find (del a q c) \<subseteq>\<^sub>m (find c)(key q := None)"
begin

lemma last_write_mono: "m \<subseteq>\<^sub>m m' \<Longrightarrow> last_write key ops m \<subseteq>\<^sub>m last_write key ops m'"
proof (induction ops arbitrary: m m')
  case (Cons opn ops)
  show ?case
  proof (cases opn)
    case (Put a q v)
    have "m(key q \<mapsto> v) \<subseteq>\<^sub>m m'(key q \<mapsto> v)" by (rule map_le_upd [OF Cons.prems])
    then show ?thesis using Cons.IH Put by simp
  next
    case (Del a q)
    have "m(key q := None) \<subseteq>\<^sub>m m'(key q := None)" using Cons.prems by (simp add: map_le_def)
    then show ?thesis using Cons.IH Del by simp
  qed
qed simp

lemma run_ok: "ok c \<Longrightarrow> ok (run_ops put del ops c)"
proof (induction ops arbitrary: c)
  case (Cons opn ops)
  then show ?case by (cases opn) (simp_all add: put_ok del_ok)
qed simp

lemma run_finds_last_write:
  "ok c \<Longrightarrow> find (run_ops put del ops c) \<subseteq>\<^sub>m last_write key ops (find c)"
proof (induction ops arbitrary: c)
  case (Cons opn ops)
  show ?case
  proof (cases opn)
    case (Put a q v)
    have "find (run_ops put del ops (put a q v c)) \<subseteq>\<^sub>m last_write key ops (find (put a q v c))"
      by (rule Cons.IH [OF put_ok [OF Cons.prems]])
    also have "\<dots> \<subseteq>\<^sub>m last_write key ops ((find c)(key q \<mapsto> v))"
      by (rule last_write_mono [OF put_find [OF Cons.prems]])
    finally show ?thesis by (simp add: Put)
  next
    case (Del a q)
    have "find (run_ops put del ops (del a q c)) \<subseteq>\<^sub>m last_write key ops (find (del a q c))"
      by (rule Cons.IH [OF del_ok [OF Cons.prems]])
    also have "\<dots> \<subseteq>\<^sub>m last_write key ops ((find c)(key q := None))"
      by (rule last_write_mono [OF del_find [OF Cons.prems]])
    finally show ?thesis by (simp add: Del)
  qed
qed simp

end

section \<open>What the operations do to the view\<close>

lemma view_frame [simp]:
  "view (count_exact cs) = view cs" "view (count_normalized cs) = view cs"
  "view (set_e2n a b cs) = view cs" "view (drop_e2n a cs) = view cs"
  "view (cdc_send t ty bd cs) = view cs"
  by (auto simp: view_def count_exact_def count_normalized_def set_e2n_def drop_e2n_def cdc_send_def
      split: option.splits)

lemma touch_view [simp]: "view (snd (touch h cs)) = view cs"
  by (rule ext) (auto simp: view_def touch_def bump_freq_def update_conv' split: option.splits)

lemma touch_result: "map_option (ce_freq_update (\<lambda>_. 0)) (fst (touch h cs)) = view cs h"
  by (simp add: touch_def view_def bump_freq_def split: option.splits)

lemma touch_None: "fst (touch h cs) = None \<longleftrightarrow> view cs h = None"
  by (simp add: touch_def view_def split: option.splits)

lemma remove_all_view: "view (snd (remove_all E hs cs)) = (\<lambda>h. if h \<in> set hs then None else view cs h)"
proof (induction hs arbitrary: cs)
  case (Cons h hs)
  obtain r c where tr: "tracked_remove E h cs = (r, c)" by fastforce
  have v: "view c = (view cs)(h := None)" using view_tracked_remove [of E h cs] tr by simp
  have "view (snd (remove_all E (h # hs) cs)) = view (snd (remove_all E hs c))"
    by (cases r) (simp_all add: tr)
  then show ?case using Cons.IH [of c] v by (auto simp: fun_eq_iff)
qed simp

lemma fold_cdc_view [simp]: "view (fold (\<lambda>q. cdc_send t ty (f q)) qs cs) = view cs"
  by (induction qs arbitrary: cs) simp_all

lemma evict_from_upstream_view: "view (snd (evict_from_upstream E t u n cs)) \<subseteq>\<^sub>m view cs"
proof -
  obtain es c where ra: "remove_all E (map fst (take n (oldest_of_upstream E t u cs))) cs = (es, c)"
    by fastforce
  have "view c \<subseteq>\<^sub>m view cs"
    using remove_all_view [of E "map fst (take n (oldest_of_upstream E t u cs))" cs] ra
    by (auto simp: map_le_def dom_def split: if_splits)
  then show ?thesis by (simp add: evict_from_upstream_def Let_def ra)
qed

lemma make_room_view: "view (make_room E t u cs) \<subseteq>\<^sub>m view cs"
  by (auto simp: make_room_def evict_from_upstream_view split: option.splits)

lemma insert_base_view: "view (insert_base E t q u cs) \<subseteq>\<^sub>m view cs"
  by (simp add: insert_base_def Let_def make_room_view)

lemma store_entry_view:
  assumes "store_ok E N cs" "ce_freq e = 0"
  shows "view (store_entry E h e cs) \<subseteq>\<^sub>m (view cs)(h \<mapsto> e)"
proof -
  have e: "e\<lparr>ce_freq := 0\<rparr> = e" using assms(2) by simp
  have "admitted E cs h e (s3fifo_admit E h (tracked_insert E h e cs))"
    using assms by (intro admit_new(1)) (simp_all add: store_ok_def)
  then show ?thesis
    by (auto simp: store_entry_def Let_def admitted_def view_tracked_insert e)
qed

lemma insert_impl_view:
  assumes "store_ok E N cs"
  shows "view (insert_impl E t q r u c cs) \<subseteq>\<^sub>m (view cs)(hash_query E q \<mapsto> fresh_entry E t r u (Some q) c)"
proof -
  let ?e = "fresh_entry E t r u (Some q) c"
  have "view (store_entry E (hash_query E q) ?e (insert_base E t q u cs))
      \<subseteq>\<^sub>m (view (insert_base E t q u cs))(hash_query E q \<mapsto> ?e)"
    using assms by (intro store_entry_view [where N = N] sok.insert_base_P) simp_all
  also have "\<dots> \<subseteq>\<^sub>m (view cs)(hash_query E q \<mapsto> ?e)" by (simp add: insert_base_view map_le_upd)
  finally show ?thesis by (simp add: insert_impl_eq Let_def split: option.splits)
qed

lemma insert_by_hash_view:
  assumes "store_ok E N cs"
  shows "view (insert_by_hash E t h r u k cs) \<subseteq>\<^sub>m
    (view cs)(h \<mapsto> fresh_entry E t r u k (lit ''default''))"
proof -
  let ?e = "fresh_entry E t r u k (lit ''default'')"
  have "view (store_entry E h ?e (make_room E t u cs)) \<subseteq>\<^sub>m (view (make_room E t u cs))(h \<mapsto> ?e)"
    using assms by (intro store_entry_view [where N = N] sok.make_room_P) simp_all
  also have "\<dots> \<subseteq>\<^sub>m (view cs)(h \<mapsto> ?e)" by (simp add: make_room_view map_le_upd)
  finally show ?thesis by (auto simp: insert_by_hash_def Let_def split: option.splits)
qed

lemma cache_remove_view: "view (cache_remove E t q cs) = (view cs)(hash_query E q := None)"
  by (simp add: cache_remove_def view_tracked_remove)

text \<open>What a client reads of an entry.\<close>

definition served :: "cache_store \<Rightarrow> query_hash \<rightharpoonup> query_response \<times> rstr" where
  "served cs h = map_option (\<lambda>e. (ce_response e, ce_upstream_id e)) (view cs h)"

lemma served_mono:
  assumes "view cs' \<subseteq>\<^sub>m (view cs)(h \<mapsto> e)"
  shows "served cs' \<subseteq>\<^sub>m (served cs)(h \<mapsto> (ce_response e, ce_upstream_id e))"
  using assms unfolding map_le_def served_def by (auto simp: dom_def split: if_splits)

definition put_query :: "env \<Rightarrow> clock \<times> rstr \<Rightarrow> rstr \<Rightarrow> query_response \<times> rstr \<Rightarrow> cache_store \<Rightarrow> cache_store" where
  "put_query E a q v cs = insert_with_context E (fst a) q (fst v) (snd v) (snd a) cs"

definition del_query :: "env \<Rightarrow> clock \<times> rstr \<Rightarrow> rstr \<Rightarrow> cache_store \<Rightarrow> cache_store" where
  "del_query E a q cs = cache_remove E (fst a) q cs"

definition put_hash ::
  "env \<Rightarrow> clock \<times> rstr option \<Rightarrow> query_hash \<Rightarrow> query_response \<times> rstr \<Rightarrow> cache_store \<Rightarrow> cache_store" where
  "put_hash E a h v cs = insert_by_hash E (fst a) h (fst v) (snd v) (snd a) cs"

definition del_hash :: "env \<Rightarrow> clock \<times> rstr option \<Rightarrow> query_hash \<Rightarrow> cache_store \<Rightarrow> cache_store" where
  "del_hash E a h cs = snd (tracked_remove E h cs)"

interpretation byq: lossy_map "store_ok E N" served "hash_query E" "put_query E" "del_query E"
proof unfold_locales
  fix c a q v
  assume ok: "store_ok E N c"
  show "store_ok E N (put_query E a q v c)"
    using ok by (simp add: put_query_def insert_with_context_def sok.insert_impl_P)
  show "store_ok E N (del_query E a q c)" using ok by (simp add: del_query_def sok.cache_remove_P)
  show "served (put_query E a q v c) \<subseteq>\<^sub>m (served c)(hash_query E q \<mapsto> v)"
    using served_mono [OF insert_impl_view [OF ok, of "fst a" q "fst v" "snd v" "snd a"]]
    by (simp add: put_query_def insert_with_context_def fresh_entry_def)
  show "served (del_query E a q c) \<subseteq>\<^sub>m (served c)(hash_query E q := None)"
    by (simp add: del_query_def served_def cache_remove_view map_le_def)
qed

interpretation byh: lossy_map "store_ok E N" served "\<lambda>h. h" "put_hash E" "del_hash E"
proof unfold_locales
  fix c a q v
  assume ok: "store_ok E N c"
  show "store_ok E N (put_hash E a q v c)" using ok by (simp add: put_hash_def sok.insert_by_hash_P)
  show "store_ok E N (del_hash E a q c)" using ok by (simp add: del_hash_def sok.tracked_remove_P)
  show "served (put_hash E a q v c) \<subseteq>\<^sub>m (served c)(q \<mapsto> v)"
    using served_mono [OF insert_by_hash_view [OF ok, of "fst a" q "fst v" "snd v" "snd a"]] by (simp add: put_hash_def fresh_entry_def)
  show "served (del_hash E a q c) \<subseteq>\<^sub>m (served c)(q := None)"
    by (simp add: del_hash_def served_def view_tracked_remove map_le_def)
qed

section \<open>The mapping from exact to normalised hashes\<close>

definition e2n_ok :: "env \<Rightarrow> cache_store \<Rightarrow> bool" where
  "e2n_ok E cs \<longleftrightarrow> (\<forall>x n. cs_exact_to_normalized cs x = Some n \<longrightarrow>
     (\<exists>q. x = hash_query_exact E q \<and> n = hash_query E q))"

lemma e2n_ok_mono:
  "cs_exact_to_normalized cs' \<subseteq>\<^sub>m cs_exact_to_normalized cs \<Longrightarrow> e2n_ok E cs \<Longrightarrow> e2n_ok E cs'"
  unfolding e2n_ok_def map_le_def by (metis domI)

lemma e2n_ok_cong:
  "cs_exact_to_normalized cs' = cs_exact_to_normalized cs \<Longrightarrow> e2n_ok E cs' = e2n_ok E cs"
  by (simp add: e2n_ok_def)

lemma evict_one_e2n: "e2n_ok E cs \<Longrightarrow> e2n_ok E (snd (s3fifo_evict_one E cs))"
  using evict_one_shrinks [of E cs] by (auto simp: shrinks_def intro: e2n_ok_mono)

lemma admit_e2n: "e2n_ok E cs \<Longrightarrow> e2n_ok E (s3fifo_admit E h cs)"
proof -
  assume "e2n_ok E cs"
  then have start: "e2n_ok E (on_s3 (enqueue_new h) cs)" by (simp add: e2n_ok_def)
  have full: "e2n_ok E (snd (snd (evict_while_full E 0 0 (on_s3 (enqueue_new h) cs))))"
    using evict_while_full_exit [of "e2n_ok E" E, OF evict_one_e2n start] by blast
  have "e2n_ok E (admit_core E h cs)"
    using full evict_while_heavy_exit [of "e2n_ok E" E, OF evict_one_e2n full]
    by (simp add: admit_core_def Let_def)
  then show ?thesis using admit_core_stats [of E h cs] by (auto simp: e2n_ok_def)
qed

lemma e2n_simps [simp]:
  "cs_exact_to_normalized (snd (touch h cs)) = cs_exact_to_normalized cs"
  "cs_exact_to_normalized (count_exact cs) = cs_exact_to_normalized cs"
  "cs_exact_to_normalized (count_normalized cs) = cs_exact_to_normalized cs"
  "cs_exact_to_normalized (cdc_send t ty bd cs) = cs_exact_to_normalized cs"
  "cs_exact_to_normalized (clear_state cs) = Map.empty"
  by (simp_all add: touch_def count_exact_def count_normalized_def cdc_send_def clear_state_def
      split: option.splits)

interpretation e2n: store_invariant E "e2n_ok E"
proof unfold_locales
  fix cs h r u k c q a and t :: clock
  show "e2n_ok E cs \<Longrightarrow> e2n_ok E (store_entry E h (fresh_entry E t r u k c) cs)"
    using admit_e2n [of E "tracked_insert E h (fresh_entry E t r u k c) cs" h]
    by (simp add: store_entry_def Let_def e2n_ok_def)
  show "e2n_ok E cs \<Longrightarrow> e2n_ok E (snd (tracked_remove E h cs))"
    by (rule e2n_ok_mono [OF e2n_tracked_remove])
  show "e2n_ok E cs \<Longrightarrow> e2n_ok E (drop_e2n a cs)"
    by (rule e2n_ok_mono) (simp_all add: drop_e2n_def map_le_def)
  show "e2n_ok E cs \<Longrightarrow> e2n_ok E (set_e2n (hash_query_exact E q) (hash_query E q) cs)"
    by (auto simp: e2n_ok_def set_e2n_def)
  show "e2n_ok E cs \<Longrightarrow> e2n_ok E (snd (s3fifo_evict_one E cs))" by (rule evict_one_e2n)
qed (simp_all add: e2n_ok_def)

lemma get_tier2_result:
  "map_option (ce_freq_update (\<lambda>_. 0)) (map_option fst (fst (get_tier2 E q cs))) = view cs (hash_query E q)"
  "view (snd (get_tier2 E q cs)) = view cs"
proof -
  obtain r c where tc: "touch (hash_query E q) cs = (r, c)" by fastforce
  have "view c = view cs" using touch_view [of "hash_query E q" cs] tc by simp
  then show "view (snd (get_tier2 E q cs)) = view cs"
    by (cases r) (simp_all add: get_tier2_def Let_def tc)
  show "map_option (ce_freq_update (\<lambda>_. 0)) (map_option fst (fst (get_tier2 E q cs))) = view cs (hash_query E q)"
    using touch_result [of "hash_query E q" cs] by (cases r) (simp_all add: get_tier2_def Let_def tc)
qed

lemma two_tier_result:
  assumes "\<And>n. cs_exact_to_normalized cs (hash_query_exact E q) = Some n \<Longrightarrow> n = hash_query E q"
  shows "map_option (ce_freq_update (\<lambda>_. 0)) (fst (get_two_tier E q cs)) = view cs (hash_query E q)
    \<and> view (snd (get_two_tier E q cs)) = view cs"
proof (cases "cs_exact_to_normalized cs (hash_query_exact E q)")
  case None
  then show ?thesis using get_tier2_result [of E q cs] by (simp add: get_two_tier_def)
next
  case (Some n)
  have n: "n = hash_query E q" by (rule assms [OF Some])
  obtain r c where tc: "touch (hash_query E q) cs = (r, c)" by fastforce
  have v: "view c = view cs" using touch_view [of "hash_query E q" cs] tc by simp
  show ?thesis
    using touch_result [of "hash_query E q" cs] get_tier2_result [of E q c] v
    by (cases r) (simp_all add: get_two_tier_def Some tc n)
qed

lemma cache_get_result:
  assumes "cs_normalized_matching cs \<Longrightarrow>
      (\<And>n. cs_exact_to_normalized cs (hash_query_exact E q) = Some n \<Longrightarrow> n = hash_query E q)"
  shows "map_option (ce_freq_update (\<lambda>_. 0)) (fst (cache_get E q cs)) = view cs (hash_query E q)
    \<and> view (snd (cache_get E q cs)) = view cs"
proof (cases "cs_normalized_matching cs")
  case True
  then show ?thesis using two_tier_result [of cs E q] assms by (simp add: cache_get_def)
next
  case False
  obtain r c where tc: "touch (hash_query E q) cs = (r, c)" by fastforce
  then show ?thesis
    using False touch_result [of "hash_query E q" cs] touch_view [of "hash_query E q" cs]
    by (cases r) (simp_all add: cache_get_def tc)
qed

text \<open>Whatever the table of exact hashes says, a lookup does not change what the cache holds.\<close>

lemma cache_get_view: "view (snd (cache_get E q cs)) = view cs"
proof -
  have t: "view (snd (touch h c)) = view c" for h c by (rule touch_view)
  have two: "view (snd (get_two_tier E q cs)) = view cs"
  proof (cases "cs_exact_to_normalized cs (hash_query_exact E q)")
    case (Some n)
    obtain r c where tc: "touch n cs = (r, c)" by fastforce
    then have "view c = view cs" using t [of n cs] by simp
    then show ?thesis using get_tier2_result(2) [of E q c] by (cases r) (simp_all add: get_two_tier_def Some tc)
  qed (simp add: get_two_tier_def get_tier2_result(2))
  obtain r c where tc: "touch (hash_query E q) cs = (r, c)" by fastforce
  then have "view c = view cs" using t [of "hash_query E q" cs] by simp
  then show ?thesis using two by (cases r) (simp_all add: cache_get_def tc)
qed

section \<open>Properties\<close>

text \<open>A lookup in a reachable cache, with two-tier matching or without, gives exactly the
  entry stored under the normalised hash of the query (up to its frequency counter) or nothing when
  there is none, and does not change what the cache holds; this needs that no query with the same
  exact hash normalises differently, as a hash without collisions guarantees.\<close>

theorem cache_get_is_lookup:
  assumes "cache_reachable E n cs"
    and "\<And>q'. hash_query_exact E q' = hash_query_exact E q \<Longrightarrow> hash_query E q' = hash_query E q"
  shows "map_option (ce_freq_update (\<lambda>_. 0)) (fst (cache_get E q cs)) =
      map_option (ce_freq_update (\<lambda>_. 0)) (map_of (cs_entries cs) (hash_query E q))
    \<and> view (snd (cache_get E q cs)) = view cs"
proof -
  have "e2n_ok E cs"
    by (rule e2n.cache_reachable_P [OF _ assms(1)]) (simp add: e2n_ok_def cache_with_def)
  then have "n = hash_query E q" if "cs_exact_to_normalized cs (hash_query_exact E q) = Some n" for n
    using that assms(2) unfolding e2n_ok_def by metis
  then show ?thesis using cache_get_result [of cs E q] by (simp add: view_def)
qed

theorem cache_get_is_lookup_witness:
  "fst (cache_get trivial_env [] (with_normalized_matching True (cache_new 5 5 10))) = None"
proof -
  let ?cs = "with_normalized_matching True (cache_new 5 5 10)"
  have reach: "cache_reachable trivial_env 10 ?cs"
    by (rule reach_step [OF reach_new step_normalized])
  have "hash_query trivial_env q' = hash_query trivial_env []"
    if "hash_query_exact trivial_env q' = hash_query_exact trivial_env []" for q'
  proof -
    have "as_bytes q' = as_bytes []" using that by (simp add: hash_query_exact_def trivial_env_def)
    then have "str_len q' = 0" using length_as_bytes [of q'] length_as_bytes [of "[]"] by simp
    then have "q' = []" using str_len_ge_length [of q'] by simp
    then show ?thesis by simp
  qed
  from cache_get_is_lookup [OF reach this] show ?thesis
    by (simp add: with_normalized_matching_def cache_new_def cache_with_def)
qed

text \<open>C3. The cache never serves an overwritten or a removed response: after any sequence of
  insertions and removals of queries, on a store within its invariant, what it holds under a hash
  is the response last inserted under it, with its upstream, unless it was removed since.\<close>

theorem cache_serves_last_insert:
  assumes "store_ok E N cs"
    and "served (run_ops (put_query E) (del_query E) ops cs) h = Some v"
  shows "last_write (hash_query E) ops (served cs) h = Some v"
  using byq.run_finds_last_write [OF assms(1), of ops] assms(2)
  unfolding map_le_def by (metis domI)

end
