(* ===== verification/Doubles.thy ===== *)
theory Doubles
  imports Floats
begin

text \<open>
  The \<open>f64\<close> operations that the rate limiter and the adaptive timeout compute with, on the value
  type of the theory \<open>Floats\<close>: every exact result is rounded to a 53-bit significand, ties to
  even. The section on errors bounds each rounding by a relative error of \<open>2 ^ -53\<close>.
\<close>

definition f64_round_pos :: "rat \<Rightarrow> fl" where
  "f64_round_pos x =
     (let r = round_at (max (binade x) (- 1022) - 52) x
      in if r < 2 ^ 1024 then Fin r else Inf False)"

definition f64_round :: "rat \<Rightarrow> fl" where
  "f64_round x =
     (if x = 0 then Fin 0
      else if 0 < x then f64_round_pos x
      else case f64_round_pos (- x) of Fin r \<Rightarrow> Fin (- r) | Inf b \<Rightarrow> Inf (\<not> b) | NaN \<Rightarrow> NaN)"

fun f64_mul :: "fl \<Rightarrow> fl \<Rightarrow> fl" where
  "f64_mul (Fin x) (Fin y) = f64_round (x * y)"
| "f64_mul NaN _ = NaN"
| "f64_mul _ NaN = NaN"
| "f64_mul (Inf a) y = (if y = Fin 0 then NaN else Inf (a \<noteq> fl_neg y))"
| "f64_mul x (Inf b) = (if x = Fin 0 then NaN else Inf (fl_neg x \<noteq> b))"

fun f64_add :: "fl \<Rightarrow> fl \<Rightarrow> fl" where
  "f64_add (Fin x) (Fin y) = f64_round (x + y)"
| "f64_add NaN _ = NaN"
| "f64_add _ NaN = NaN"
| "f64_add (Inf a) (Inf b) = (if a = b then Inf a else NaN)"
| "f64_add (Inf a) (Fin _) = Inf a"
| "f64_add (Fin _) (Inf b) = Inf b"

text \<open>Division by a positive finite constant.\<close>

fun f64_div_const :: "fl \<Rightarrow> rat \<Rightarrow> fl" where
  "f64_div_const (Fin x) c = f64_round (x / c)"
| "f64_div_const (Inf a) c = Inf a"
| "f64_div_const NaN c = NaN"

definition nat_as_f64 :: "nat \<Rightarrow> fl" where
  "nat_as_f64 n = f64_round (of_nat n)"

text \<open>\<open>Duration::as_secs_f64\<close>.\<close>

definition as_secs_f64 :: "duration \<Rightarrow> fl" where
  "as_secs_f64 d =
     f64_add (nat_as_f64 (d div 10 ^ 9)) (f64_div_const (nat_as_f64 (d mod 10 ^ 9)) (10 ^ 9))"

text \<open>\<open>f64::ceil\<close> followed by \<open>as usize\<close>.\<close>

fun f64_ceil_as_usize :: "fl \<Rightarrow> nat" where
  "f64_ceil_as_usize NaN = 0"
| "f64_ceil_as_usize (Inf b) = (if b then 0 else 2 ^ 64 - 1)"
| "f64_ceil_as_usize (Fin x) = min (nat \<lceil>x\<rceil>) (2 ^ 64 - 1)"

section \<open>Rounding errors\<close>

lemma pow2_add: "pow2 (a + b) = pow2 a * pow2 b"
proof -
  have p: "pow2 e = 2 powi e" for e by (simp add: pow2_def power_int_def field_simps)
  show ?thesis by (simp add: p power_int_add)
qed

lemma pow2_diff: "pow2 (a - b) = pow2 a / pow2 b"
proof -
  have "pow2 a = pow2 (a - b) * pow2 b" using pow2_add [of "a - b" b] by simp
  moreover have "pow2 b \<noteq> 0" using pow2_pos [of b] by linarith
  ultimately show ?thesis by (simp add: field_simps)
qed

lemma pow2_nonzero [simp]: "pow2 e \<noteq> 0"
  using pow2_pos [of e] by linarith

lemma pow2_mono: "a \<le> b \<Longrightarrow> pow2 a \<le> pow2 b"
proof -
  assume "a \<le> b"
  then have "pow2 b = pow2 a * 2 ^ nat (b - a)"
    using pow2_add [of a "b - a"] by (simp add: pow2_def)
  moreover have "(1 :: rat) \<le> 2 ^ nat (b - a)" by simp
  ultimately show ?thesis using pow2_pos [of a] by (simp add: less_imp_le)
qed

text \<open>A positive rational is not below its binade.\<close>

lemma binade_le:
  assumes "0 < x"
  shows "pow2 (binade x) \<le> x"
proof -
  obtain a b where ab: "quotient_of x = (a, b)" by (cases "quotient_of x")
  have b: "0 < b" using quotient_of_denom_pos [OF ab] .
  have x: "x = of_int a / of_int b" using quotient_of_div [OF ab] .
  have a: "0 < a" using assms b x by (simp add: zero_less_divide_iff)
  have la: "pow2 (bitlen a - 1) \<le> of_int a"
  proof -
    have "2 ^ nat (bitlen a - 1) \<le> a" using bitlen_bounds [OF a] by blast
    moreover have "0 \<le> bitlen a - 1" using bitlen_eq_zero_iff [of a] bitlen_nonneg [of a] a by linarith
    ultimately have "(2 :: rat) ^ nat (bitlen a - 1) \<le> of_int a"
      by (metis of_int_le_iff of_int_numeral of_int_power)
    then show ?thesis using \<open>0 \<le> bitlen a - 1\<close> by (simp add: pow2_def)
  qed
  have lb: "of_int b \<le> pow2 (bitlen b)"
  proof -
    have "b < 2 ^ nat (bitlen b)" using bitlen_bounds [OF b] by blast
    then have "of_int b < (2 :: rat) ^ nat (bitlen b)"
      by (metis of_int_less_iff of_int_numeral of_int_power)
    then show ?thesis using bitlen_nonneg [of b] by (simp add: pow2_def)
  qed
  have "pow2 (bitlen a - bitlen b - 1) = pow2 (bitlen a - 1) / pow2 (bitlen b)"
    by (simp add: pow2_diff [symmetric] algebra_simps)
  also have "\<dots> \<le> of_int a / of_int b"
    using la lb b by (intro frac_le) (simp_all add: a less_imp_le)
  finally have "pow2 (bitlen a - bitlen b - 1) \<le> x" by (simp only: x)
  then show ?thesis by (simp add: binade_def ab Let_def)
qed

lemma round_half_even_error: "\<bar>of_int (round_half_even y) - y\<bar> \<le> 1 / 2"
proof -
  have fl: "of_int \<lfloor>y\<rfloor> \<le> y" "y < of_int \<lfloor>y\<rfloor> + 1" using floor_correct [of y] by simp_all
  show ?thesis
  proof (cases "y - of_int \<lfloor>y\<rfloor> < 1 / 2")
    case True
    then show ?thesis using fl by (simp add: round_half_even_def Let_def)
  next
    case False
    then have "round_half_even y = \<lfloor>y\<rfloor> + 1 \<or> y - of_int \<lfloor>y\<rfloor> = 1 / 2 \<and> round_half_even y = \<lfloor>y\<rfloor>"
      by (auto simp: round_half_even_def Let_def)
    then show ?thesis using fl False by auto
  qed
qed

lemma round_at_error: "\<bar>round_at e x - x\<bar> \<le> pow2 e / 2"
proof -
  have "\<bar>round_at e x - x\<bar> = \<bar>of_int (round_half_even (x / pow2 e)) - x / pow2 e\<bar> * pow2 e"
    using pow2_pos [of e] unfolding round_at_def
    by (subst abs_mult_pos [of "pow2 e", OF less_imp_le]) (simp_all add: left_diff_distrib)
  also have "\<dots> \<le> 1 / 2 * pow2 e"
    using round_half_even_error by (intro mult_right_mono) (simp_all add: less_imp_le)
  finally show ?thesis by simp
qed

definition ulp64 :: rat where "ulp64 = 1 / 2 ^ 53"

text \<open>The range in which a rounding neither underflows nor overflows.\<close>

definition normal64 :: "rat \<Rightarrow> bool" where
  "normal64 x \<longleftrightarrow> x = 0 \<or> pow2 (- 1022) \<le> x \<and> x \<le> 2 ^ 1000"

definition near :: "nat \<Rightarrow> rat \<Rightarrow> fl \<Rightarrow> bool" where
  "near n x v \<longleftrightarrow> (case v of Fin r \<Rightarrow> (1 - ulp64) ^ n * x \<le> r \<and> r \<le> (1 + ulp64) ^ n * x | _ \<Rightarrow> False)"

lemma f64_round_near:
  assumes "normal64 x"
  shows "near 1 x (f64_round x)"
proof (cases "x = 0")
  case True
  then show ?thesis by (simp add: near_def f64_round_def)
next
  case False
  with assms have x: "pow2 (- 1022) \<le> x" "x \<le> 2 ^ 1000" by (simp_all add: normal64_def)
  then have x0: "0 < x" using pow2_pos [of "- 1022"] by linarith
  let ?e = "max (binade x) (- 1022) - 52"
  have "pow2 (max (binade x) (- 1022)) \<le> x"
    using binade_le [OF x0] x(1) by (simp add: max_def)
  moreover have "pow2 ?e = pow2 (max (binade x) (- 1022)) / 2 ^ 52"
    by (simp add: pow2_diff) (simp add: pow2_def)
  ultimately have "pow2 ?e / 2 \<le> ulp64 * x" by (simp add: ulp64_def)
  then have err: "\<bar>round_at ?e x - x\<bar> \<le> ulp64 * x" using round_at_error [of ?e x] by linarith
  moreover have "ulp64 * x \<le> x" using x0 by (simp add: ulp64_def)
  ultimately have "round_at ?e x \<le> 2 * x" by linarith
  also have "\<dots> \<le> 2 * 2 ^ 1000" using x(2) by simp
  also have "\<dots> < (2 :: rat) ^ 1024" by simp
  finally have "f64_round x = Fin (round_at ?e x)"
    using False x0 by (simp add: f64_round_def f64_round_pos_def Let_def)
  then show ?thesis using err by (simp add: near_def algebra_simps abs_le_iff)
qed

text \<open>Composing roundings: a value near \<open>x\<close> after a few roundings is within a factor of two.\<close>

lemma ulp64_bounds: "0 \<le> ulp64" "ulp64 \<le> 1"
  by (simp_all add: ulp64_def)

lemma near_mono:
  assumes "near m x v" and "m \<le> n" and "0 \<le> x"
  shows "near n x v"
proof -
  have "(1 - ulp64) ^ n \<le> (1 - ulp64) ^ m" "(1 + ulp64) ^ m \<le> (1 + ulp64) ^ n"
    using assms(2) ulp64_bounds by (auto intro: power_decreasing power_increasing)
  then have "(1 - ulp64) ^ n * x \<le> (1 - ulp64) ^ m * x" "(1 + ulp64) ^ m * x \<le> (1 + ulp64) ^ n * x"
    using assms(3) by (auto intro: mult_right_mono)
  then show ?thesis using assms(1) by (auto simp: near_def split: fl.splits)
qed

lemma near_coarse:
  assumes "near n x (Fin r)" and "n \<le> 16" and "0 \<le> x"
  shows "x / 2 \<le> r" and "r \<le> 2 * x"
proof -
  have "near 16 x (Fin r)" using near_mono assms by blast
  moreover have h: "1 / 2 \<le> (1 - ulp64) ^ 16" "(1 + ulp64) ^ 16 \<le> 2"
    by (simp_all add: ulp64_def power_divide)
  have "1 / 2 * x \<le> (1 - ulp64) ^ 16 * x" using h(1) assms(3) by (rule mult_right_mono)
  moreover have "(1 + ulp64) ^ 16 * x \<le> 2 * x" using h(2) assms(3) by (rule mult_right_mono)
  ultimately show "x / 2 \<le> r" "r \<le> 2 * x" by (auto simp: near_def)
qed

definition safe64 :: "rat \<Rightarrow> bool" where
  "safe64 x \<longleftrightarrow> x = 0 \<or> pow2 (- 900) \<le> x \<and> x \<le> 2 ^ 900"

lemma safe64_nonneg: "safe64 x \<Longrightarrow> 0 \<le> x"
  unfolding safe64_def using pow2_pos [of "- 900"] by linarith

lemma safe64_normal:
  assumes "safe64 x" and "x / 4 \<le> r" and "r \<le> 4 * x"
  shows "normal64 r"
proof (cases "x = 0")
  case True
  then show ?thesis using assms(2,3) by (simp add: normal64_def)
next
  case False
  then have x: "pow2 (- 900) \<le> x" "x \<le> 2 ^ 900" using assms(1) by (simp_all add: safe64_def)
  have "pow2 (- 1022) \<le> pow2 (- 902)" by (rule pow2_mono) simp
  also have "\<dots> = pow2 (- 900) / 4" using pow2_diff [of "- 900" 2] by (simp add: pow2_def)
  also have "\<dots> \<le> r" using x(1) assms(2) by linarith
  finally have "pow2 (- 1022) \<le> r" .
  moreover have "r \<le> 4 * 2 ^ 900" using assms(3) x(2) by linarith
  then have "r \<le> 2 ^ 1000" by (rule order_trans) simp
  ultimately show ?thesis by (simp add: normal64_def)
qed

lemma near_round:
  assumes "near n x (Fin r)" and "n \<le> 15" and "safe64 x"
  shows "near (Suc n) x (f64_round r)"
proof -
  have x0: "0 \<le> x" using assms(3) by (rule safe64_nonneg)
  note c = near_coarse [OF assms(1) _ x0]
  have "x / 4 \<le> r" "r \<le> 4 * x" using c assms(2) x0 by auto
  then have "near 1 r (f64_round r)" by (intro f64_round_near safe64_normal [OF assms(3)])
  then obtain q where q: "f64_round r = Fin q" "(1 - ulp64) * r \<le> q" "q \<le> (1 + ulp64) * r"
    by (auto simp: near_def split: fl.splits)
  have r: "(1 - ulp64) ^ n * x \<le> r" "r \<le> (1 + ulp64) ^ n * x" using assms(1) by (simp_all add: near_def)
  have "(1 - ulp64) * ((1 - ulp64) ^ n * x) \<le> (1 - ulp64) * r"
    "(1 + ulp64) * r \<le> (1 + ulp64) * ((1 + ulp64) ^ n * x)"
    using r ulp64_bounds by (auto intro: mult_left_mono)
  then show ?thesis using q by (simp add: near_def mult.assoc)
qed

lemma near_Fin: "near n x v \<Longrightarrow> \<exists>r. v = Fin r"
  by (auto simp: near_def split: fl.splits)

lemma near_mul:
  assumes "near m x v" and "near n y w" and "m + n \<le> 15" and "0 \<le> x" and "0 \<le> y" and "safe64 (x * y)"
  shows "near (Suc (m + n)) (x * y) (f64_mul v w)"
proof -
  obtain r s where rs: "v = Fin r" "w = Fin s" using near_Fin assms(1,2) by blast
  have b: "(1 - ulp64) ^ m * x \<le> r" "r \<le> (1 + ulp64) ^ m * x"
    "(1 - ulp64) ^ n * y \<le> s" "s \<le> (1 + ulp64) ^ n * y"
    using assms(1,2) rs by (simp_all add: near_def)
  have u: "0 \<le> (1 - ulp64) ^ m * x" "0 \<le> (1 - ulp64) ^ n * y"
    using ulp64_bounds assms(4,5) by simp_all
  have "(1 - ulp64) ^ m * x * ((1 - ulp64) ^ n * y) \<le> r * s"
    "r * s \<le> (1 + ulp64) ^ m * x * ((1 + ulp64) ^ n * y)"
    using b u by (auto intro!: mult_mono intro: order_trans)
  then have "near (m + n) (x * y) (Fin (r * s))"
    by (simp add: near_def power_add algebra_simps)
  then show ?thesis using near_round assms(3,6) rs by simp
qed

lemma near_add:
  assumes "near n x v" and "near n y w" and "n \<le> 15" and "0 \<le> x" and "0 \<le> y" and "safe64 (x + y)"
  shows "near (Suc n) (x + y) (f64_add v w)"
proof -
  obtain r s where rs: "v = Fin r" "w = Fin s" using near_Fin assms(1,2) by blast
  then have "near n (x + y) (Fin (r + s))"
    using assms(1,2) by (simp add: near_def distrib_left)
  then show ?thesis using near_round assms(3,6) rs by simp
qed

lemma near_div_const:
  assumes "near n x v" and "n \<le> 15" and "0 < c" and "safe64 (x / c)"
  shows "near (Suc n) (x / c) (f64_div_const v c)"
proof -
  obtain r where r: "v = Fin r" using near_Fin assms(1) by blast
  then have "near n (x / c) (Fin (r / c))"
    using assms(1,3) by (simp add: near_def divide_right_mono less_imp_le)
  then show ?thesis using near_round assms(2,4) r by simp
qed

lemma near_nat: "safe64 (of_nat k) \<Longrightarrow> near 1 (of_nat k) (nat_as_f64 k)"
  using near_round [of 0 "of_nat k" "of_nat k"] by (simp add: nat_as_f64_def near_def)

lemma safe64_range: "x = 0 \<or> 1 / 10 ^ 9 \<le> x \<and> x \<le> 2 ^ 300 \<Longrightarrow> safe64 x"
proof -
  assume x: "x = 0 \<or> 1 / 10 ^ 9 \<le> x \<and> x \<le> 2 ^ 300"
  have "pow2 (- 900) \<le> pow2 (- 30)" by (rule pow2_mono) simp
  also have "pow2 (- 30) \<le> 1 / 10 ^ 9" by (simp add: pow2_def)
  finally have "pow2 (- 900) \<le> 1 / 10 ^ 9" .
  then have l: "1 / 10 ^ 9 \<le> x \<Longrightarrow> pow2 (- 900) \<le> x" by linarith
  have "(2 :: rat) ^ 300 \<le> 2 ^ 900" by simp
  then have u: "x \<le> 2 ^ 300 \<Longrightarrow> x \<le> 2 ^ 900" by linarith
  show ?thesis using x l u by (auto simp: safe64_def)
qed

end
