(* ===== verification/CacheLimits.thy ===== *)
theory CacheLimits
  imports CacheContract Doubles
begin

text \<open>
  The limits of the cache: the freshness ladder of an entry and the bound of its jitter, the
  per-upstream limit, insertion into a store with room, the memory limit under updates, and what
  the administrative evictions remove.
\<close>

section \<open>Freshness\<close>

text \<open>One operation of binary32 adds a relative error of at most \<open>2\<^sup>-\<^sup>2\<^sup>2\<close> to a bound that is not tiny.\<close>

definition f32_slack :: rat where
  "f32_slack = 1 + 1 / 2 ^ 22"

lemma pow2_low: "pow2 (- 149) = 1 / 2 ^ 149" "pow2 (- 23) = 1 / 2 ^ 23"
  by (simp_all add: pow2_def)

lemma f32_round_err:
  assumes "0 \<le> x" and "x \<le> b" and "b = 0 \<or> 1 / 2 ^ 100 \<le> b" and "b \<le> 2 ^ 100"
  shows "fl_within (b * f32_slack) (f32_round x)"
proof (cases "x = 0")
  case True
  then show ?thesis using assms by (simp add: f32_round_def fl_within_def f32_slack_def)
next
  case False
  then have x: "0 < x" using assms(1) by simp
  then have b: "1 / 2 ^ 100 \<le> b" using assms(2,3) by linarith
  define r where "r = round_at (max (binade x) (- 126) - 23) x"
  have "pow2 (binade x - 23) \<le> x * (1 / 2 ^ 23)"
    using binade_le [OF x] pow2_add [of "binade x" "- 23"] pow2_low(2) by simp
  moreover have "0 \<le> x * (1 / 2 ^ 23)" using x by simp
  ultimately have "pow2 (max (binade x) (- 126) - 23) \<le> x * (1 / 2 ^ 23) + 1 / 2 ^ 149"
    by (cases "binade x \<le> - 126") (auto simp: max_def pow2_low)
  then have "\<bar>r - x\<bar> \<le> x * (1 / 2 ^ 23) + 1 / 2 ^ 149"
    using round_at_error [of "max (binade x) (- 126) - 23" x] unfolding r_def by linarith
  moreover have "x * (1 / 2 ^ 23) \<le> b * (1 / 2 ^ 23)" using assms(2) by (intro mult_right_mono) simp_all
  ultimately have "r \<le> b + b * (1 / 2 ^ 23) + 1 / 2 ^ 149" using assms(2) unfolding abs_le_iff by linarith
  moreover have "(1 :: rat) / 2 ^ 149 \<le> 1 / 2 ^ 100 * (1 / 2 ^ 23)" by simp
  ultimately have r: "r \<le> b * f32_slack" using b by (simp add: f32_slack_def algebra_simps)
  have "r < 2 ^ 128" using r assms(4) by (simp add: f32_slack_def)
  moreover have "0 \<le> r" using round_at_bounds [OF assms(1)] by (simp add: r_def)
  ultimately show ?thesis using x r by (simp add: f32_round_def f32_round_pos_def fl_within_def r_def Let_def)
qed

lemma fl_mul_err:
  assumes "fl_within a x" "fl_within b y" "a * b = 0 \<or> 1 / 2 ^ 100 \<le> a * b" "a * b \<le> 2 ^ 100"
  shows "fl_within (a * b * f32_slack) (fl_mul x y)"
proof (cases "(x, y)" rule: fl_mul.cases)
  case (1 r s)
  then have rs: "0 \<le> r" "r \<le> a" "0 \<le> s" "s \<le> b" using assms by (simp_all add: fl_within_def)
  then have "r * s \<le> a * b" by (intro mult_mono) simp_all
  then show ?thesis using f32_round_err [of "r * s" "a * b"] assms(3,4) rs 1 by simp
qed (use assms in \<open>auto simp: fl_within_def split: fl.splits\<close>)

lemma fl_add_err:
  assumes "fl_within a x" "fl_within b y" "a + b = 0 \<or> 1 / 2 ^ 100 \<le> a + b" "a + b \<le> 2 ^ 100"
  shows "fl_within ((a + b) * f32_slack) (fl_add x y)"
proof (cases "(x, y)" rule: fl_add.cases)
  case (1 r s)
  then have rs: "0 \<le> r" "r \<le> a" "0 \<le> s" "s \<le> b" using assms by (simp_all add: fl_within_def)
  then show ?thesis using f32_round_err [of "r + s" "a + b"] assms(3,4) 1 by simp
qed (use assms in \<open>auto simp: fl_within_def split: fl.splits\<close>)

lemma fl_div_err:
  assumes "fl_within a x" "0 < c" "a / c = 0 \<or> 1 / 2 ^ 100 \<le> a / c" "a / c \<le> 2 ^ 100"
  shows "fl_within (a / c * f32_slack) (fl_div_const x c)"
proof (cases x)
  case (Fin r)
  then have r: "0 \<le> r" "r \<le> a" using assms by (simp_all add: fl_within_def)
  then have "r / c \<le> a / c" using assms(2) by (simp add: divide_right_mono)
  then show ?thesis using f32_round_err [of "r / c" "a / c"] assms r Fin by simp
qed (use assms in \<open>auto simp: fl_within_def\<close>)

lemma fl_within_mono: "fl_within b x \<Longrightarrow> b \<le> c \<Longrightarrow> fl_within c x"
  by (auto simp: fl_within_def split: fl.splits)

text \<open>The jitter is at most the configured share of the window: the seconds of the window rounded up, times the share, times the
  rounding error of the seven operations.\<close>

lemma jitter_secs_bound:
  assumes "fl_within p (cs_ttl_jitter_percent cs)" "1 / 2 ^ 90 \<le> p" "p \<le> 1" "base div 10 ^ 9 < 2 ^ 60"
  shows "of_nat (jitter_secs cs base h) \<le> (of_nat (base div 10 ^ 9) + 1) * p * (1 + 1 / 2 ^ 19)"
proof -
  define byte where "byte = (case h of b # _ \<Rightarrow> unat b | [] \<Rightarrow> 0)"
  have byte: "byte < 256" using unat_bound [where 'a = 8]
    by (auto simp: byte_def split: list.splits)
  then have "(of_nat byte :: rat) \<le> of_nat 255" unfolding of_nat_le_iff by simp
  then have "fl_within (255 * f32_slack) (nat_as_f32 byte)" unfolding nat_as_f32_def by (intro f32_round_err) simp_all
  from fl_div_err [OF this, of 255] have "fl_within (f32_slack * f32_slack) (fl_div_const (nat_as_f32 byte) 255)" by (simp add: f32_slack_def)
  from fl_mul_err [OF this assms(1)] have f: "fl_within (f32_slack * f32_slack * p * f32_slack)
      (fl_mul (fl_div_const (nat_as_f32 byte) 255) (cs_ttl_jitter_percent cs))"
    using assms(2,3) by (simp add: f32_slack_def)
  define s where "s = base div 10 ^ 9"
  have s: "of_nat s < (2 ^ 60 :: rat)" using assms(4) unfolding s_def by (metis of_nat_less_iff of_nat_numeral of_nat_power)
  have s0: "s = 0 \<or> (1 :: rat) \<le> of_nat s" by (cases s) simp_all
  have s1: "fl_within (of_nat s * f32_slack) (nat_as_f32 s)"
    unfolding nat_as_f32_def using s s0 by (intro f32_round_err) auto
  have "(of_nat (base mod 10 ^ 9) :: rat) \<le> of_nat (10 ^ 9)" unfolding of_nat_le_iff by simp
  then have "fl_within (10 ^ 9 * f32_slack) (nat_as_f32 (base mod 10 ^ 9))" unfolding nat_as_f32_def by (intro f32_round_err) simp_all
  from fl_div_err [OF this, of "10 ^ 9"] have "fl_within (f32_slack * f32_slack) (fl_div_const (nat_as_f32 (base mod 10 ^ 9)) (10 ^ 9))"
    by (simp add: f32_slack_def)
  from fl_add_err [OF s1 this] have secs: "fl_within ((of_nat s * f32_slack + f32_slack * f32_slack) * f32_slack) (as_secs_f32 base)"
    unfolding as_secs_f32_def s_def [symmetric] using s by (simp add: f32_slack_def)
  have "(of_nat s * f32_slack + f32_slack * f32_slack) * f32_slack \<le> (of_nat s + 1) * (f32_slack * f32_slack * f32_slack)" by (simp add: f32_slack_def algebra_simps)
  from fl_within_mono [OF secs this] have secs: "fl_within ((of_nat s + 1) * (f32_slack * f32_slack * f32_slack)) (as_secs_f32 base)" .
  define b where "b = (of_nat s + 1) * (f32_slack * f32_slack * f32_slack) * (f32_slack * f32_slack * p * f32_slack)"
  have "1 / 2 ^ 100 \<le> b"
  proof -
    have "p * 1 \<le> p * ((of_nat s + 1) * (f32_slack * f32_slack * f32_slack * f32_slack * f32_slack * f32_slack))"
      using assms(2) by (intro mult_left_mono) (simp_all add: f32_slack_def add_increasing)
    then show ?thesis using assms(2) by (simp add: b_def algebra_simps)
  qed
  moreover have "b \<le> 2 ^ 100"
  proof -
    have "b \<le> (of_nat s + 1) * (f32_slack * f32_slack * f32_slack) * (f32_slack * f32_slack * 1 * f32_slack)"
      unfolding b_def using assms(3) by (intro mult_left_mono mult_right_mono) (simp_all add: f32_slack_def)
    then show ?thesis using s by (simp add: f32_slack_def)
  qed
  ultimately have "fl_within (b * f32_slack)
      (fl_mul (as_secs_f32 base) (fl_mul (fl_div_const (nat_as_f32 byte) 255) (cs_ttl_jitter_percent cs)))"
    unfolding b_def by (intro fl_mul_err secs f) simp_all
  then have "of_nat (jitter_secs cs base h) \<le> max (b * f32_slack) 0"
    unfolding jitter_secs_def byte_def [symmetric] Let_def by (rule fl_as_u64_le)
  moreover have "b * f32_slack \<le> (of_nat s + 1) * p * (1 + 1 / 2 ^ 19)"
  proof -
    have "b * f32_slack = (of_nat s + 1) * p * (f32_slack * f32_slack * f32_slack * f32_slack * f32_slack * f32_slack * f32_slack)" by (simp add: b_def)
    also have "\<dots> \<le> (of_nat s + 1) * p * (1 + 1 / 2 ^ 19)" using assms(2) by (intro mult_left_mono) (simp_all add: f32_slack_def)
    finally show ?thesis .
  qed
  moreover have "0 \<le> (of_nat s + 1) * p * (1 + 1 / 2 ^ 19)" using assms(2) by simp
  ultimately show ?thesis unfolding s_def [symmetric] by linarith
qed

definition verdict :: "cache_store \<Rightarrow> nat \<Rightarrow> duration \<Rightarrow> freshness" where
  "verdict cs j age =
     (let fresh = cs_fresh_duration cs + from_secs j
      in if age < fresh then Fresh
         else if age < fresh + cs_stale_duration cs then Stale
         else if age < cs_max_frozen_duration cs then Frozen
         else Expired)"

lemma freshness_verdict:
  assumes "map_of (cs_entries cs) h = Some e"
    and "fl_within p (cs_ttl_jitter_percent cs)" and "1 / 2 ^ 90 \<le> p" and "p \<le> 1"
    and "cs_fresh_duration cs \<le> from_secs (2 ^ 50)" and "cs_stale_duration cs \<le> from_secs (2 ^ 50)"
  shows "\<exists>j. of_nat j \<le> (of_nat (cs_fresh_duration cs div 10 ^ 9) + 1) * p * (1 + 1 / 2 ^ 19) \<and>
    (\<forall>t. check_freshness_by_hash t h cs = Some (Some (verdict cs j (elapsed (ck_now t) (ce_cached_at e)))))"
proof -
  let ?fresh = "cs_fresh_duration cs"
  let ?s = "?fresh div 10 ^ 9"
  define j where "j = (if fl_le_zero (cs_ttl_jitter_percent cs) then 0 else jitter_secs cs ?fresh h)"
  have s: "?s \<le> 2 ^ 50" using assms(5) by (simp add: from_secs_def nanos_per_sec_def)
  have j: "of_nat j \<le> (of_nat ?s + 1) * p * (1 + 1 / 2 ^ 19)"
    using jitter_secs_bound [OF assms(2-4), of ?fresh h] s assms(3) by (simp add: j_def)
  also have "\<dots> \<le> (of_nat ?s + 1) * 1 * (1 + 1 / 2 ^ 19)"
    using assms(4) by (intro mult_left_mono mult_right_mono) simp_all
  also have "\<dots> \<le> of_nat (2 * (?s + 1))" by simp
  finally have "j \<le> 2 * (?s + 1)" unfolding of_nat_le_iff .
  then have "?fresh + from_secs j + cs_stale_duration cs \<le> duration_max"
    using assms(5,6) s by (simp add: from_secs_def nanos_per_sec_def duration_max_def)
  then have "jittered_ttl cs ?fresh h = Some (?fresh + from_secs j)"
    "dur_add (?fresh + from_secs j) (cs_stale_duration cs) = Some (?fresh + from_secs j + cs_stale_duration cs)"
    by (auto simp: jittered_ttl_def j_def dur_add_def from_secs_def split: if_splits)
  then show ?thesis using j assms(1)
    by (intro exI [of _ j]) (simp add: check_freshness_by_hash_def verdict_def Let_def)
qed

lemma fresh_within_window:
  assumes "map_of (cs_entries cs) h = Some e" and "fl_within 1 (cs_ttl_jitter_percent cs)"
    and "cs_fresh_duration cs \<le> from_secs (2 ^ 50)" and "cs_stale_duration cs \<le> from_secs (2 ^ 50)"
    and "elapsed (ck_now t) (ce_cached_at e) < cs_fresh_duration cs"
  shows "check_freshness_by_hash t h cs = Some (Some Fresh)"
  using freshness_verdict [OF assms(1,2) _ _ assms(3,4)] assms(5) by (auto simp: verdict_def Let_def)

text \<open>C16. With a jitter share of at most \<open>p \<le> 1\<close> and fresh and stale windows of at most \<open>2\<^sup>5\<^sup>0\<close> seconds, checking the freshness of a
  cached entry never panics, and the verdict depends on its age alone: Fresh up to the fresh window extended by a jitter that is fixed for the
  hash, then Stale for exactly the stale window, then Frozen up to the frozen limit, then Expired. The jitter is at most the share
  \<open>p\<close> of the window, counted in seconds and rounded up, with a relative rounding error below two millionths.\<close>

theorem freshness_ladder:
  assumes "map_of (cs_entries cs) h = Some e"
    and "fl_within p (cs_ttl_jitter_percent cs)" and "1 / 2 ^ 90 \<le> p" and "p \<le> 1"
    and "cs_fresh_duration cs \<le> from_secs (2 ^ 50)" and "cs_stale_duration cs \<le> from_secs (2 ^ 50)"
  shows "\<exists>j. of_nat j \<le> (of_nat (cs_fresh_duration cs div 10 ^ 9) + 1) * p * (1 + 1 / 2 ^ 19) \<and>
    (\<forall>t. check_freshness_by_hash t h cs = Some (Some
      (let age = elapsed (ck_now t) (ce_cached_at e); fresh = cs_fresh_duration cs + from_secs j
       in if age < fresh then Fresh
          else if age < fresh + cs_stale_duration cs then Stale
          else if age < cs_max_frozen_duration cs then Frozen
          else Expired)))"
  using freshness_verdict [OF assms] by (simp add: verdict_def Let_def)

text \<open>A share of one eighth of 300 seconds is at most 37 seconds.\<close>

theorem freshness_ladder_witness:
  "let cs = (cache_with (from_secs 300) (from_secs 60) 10 0 (Fin (1 / 8)))\<lparr>cs_entries := [([7], plain_entry 0 0)]\<rparr>
   in check_freshness_by_hash \<lparr>ck_now = from_secs 299, ck_wall = 0\<rparr> [7] cs = Some (Some Fresh)
      \<and> check_freshness_by_hash \<lparr>ck_now = from_secs 338, ck_wall = 0\<rparr> [7] cs = Some (Some Stale)
      \<and> check_freshness_by_hash \<lparr>ck_now = from_secs 398, ck_wall = 0\<rparr> [7] cs = Some (Some Frozen)"
proof -
  let ?cs = "(cache_with (from_secs 300) (from_secs 60) 10 0 (Fin (1 / 8)))\<lparr>cs_entries := [([7], plain_entry 0 0)]\<rparr>"
  obtain j where j: "of_nat j \<le> (of_nat (cs_fresh_duration ?cs div 10 ^ 9) + 1) * (1 / 8) * (1 + 1 / 2 ^ 19 :: rat)"
    and v: "\<And>t. check_freshness_by_hash t [7] ?cs = Some (Some
      (let age = elapsed (ck_now t) (ce_cached_at (plain_entry 0 0)); fresh = cs_fresh_duration ?cs + from_secs j
       in if age < fresh then Fresh else if age < fresh + cs_stale_duration ?cs then Stale
          else if age < cs_max_frozen_duration ?cs then Frozen else Expired))"
    using freshness_ladder [of ?cs "[7]" "plain_entry 0 0" "1 / 8"]
    by (auto simp: cache_with_def fl_within_def from_secs_def nanos_per_sec_def)
  have "(of_nat j :: rat) < of_nat 38" using j by (simp add: cache_with_def from_secs_def nanos_per_sec_def)
  then have "j < 38" unfolding of_nat_less_iff .
  then show ?thesis unfolding Let_def v
    by (simp add: cache_with_def plain_entry_def elapsed_def from_secs_def nanos_per_sec_def default_max_frozen_duration_def)
qed

section \<open>Insertion into a store with room\<close>

lemma full_noop:
  "queue_len cs \<le> queue_capacity cs \<Longrightarrow> evict_while_full E a b cs = (a, b, cs)"
  by (simp add: evict_while_full.simps)

lemma heavy_noop: "cs_total_memory_bytes cs \<le> cap \<Longrightarrow> evict_while_heavy E cap a b cs = (a, b, cs)"
  by (subst evict_while_heavy.simps) (simp add: leD)

lemma admit_with_room:
  assumes "queue_len cs < queue_capacity cs" "cs_max_memory_bytes cs = 0 \<or> cs_total_memory_bytes cs \<le> cs_max_memory_bytes cs"
  shows "view (s3fifo_admit E h cs) = view cs" and "queue_len (s3fifo_admit E h cs) = Suc (queue_len cs)"
    and "cs_total_memory_bytes (s3fifo_admit E h cs) = cs_total_memory_bytes cs"
proof -
  let ?c = "on_s3 (enqueue_new h) cs"
  have len: "queue_len ?c = Suc (queue_len cs)" using enqueue_new_queues(2) [of h "cs_s3fifo cs"]
    by (simp add: queue_len_def)
  moreover have "queue_capacity ?c = queue_capacity cs" by (simp add: queue_capacity_def enqueue_new_def)
  ultimately have "evict_while_full E 0 0 ?c = (0, 0, ?c)" using assms(1) by (intro full_noop) simp
  then have core: "admit_core E h cs = ?c" using assms(2) by (auto simp: admit_core_def Let_def heavy_noop)
  have "view ?c = view cs" by (rule ext) (simp add: view_def)
  then show "view (s3fifo_admit E h cs) = view cs" "queue_len (s3fifo_admit E h cs) = Suc (queue_len cs)"
    "cs_total_memory_bytes (s3fifo_admit E h cs) = cs_total_memory_bytes cs"
    using admit_core_stats [of E h cs] core len by (auto simp: on_stats_def queue_len_def view_def)
qed

lemma admit_config: "cache_config (s3fifo_admit E h cs) = cache_config cs"
proof -
  let ?P = "\<lambda>c. cache_config c = cache_config cs"
  have step: "?P (snd (s3fifo_evict_one E c))" if "?P c" for c
    using that evict_one_shrinks [of E c] by (simp add: shrinks_def)
  have start: "?P (on_s3 (enqueue_new h) cs)"
    by (simp add: cache_config_def on_s3_def enqueue_new_def)
  have full: "?P (snd (snd (evict_while_full E 0 0 (on_s3 (enqueue_new h) cs))))"
    using evict_while_full_exit [of ?P E, OF step start] by blast
  have "?P (admit_core E h cs)"
    using full evict_while_heavy_exit [of ?P E, OF step full] by (simp add: admit_core_def Let_def)
  then show ?thesis using admit_core_stats [of E h cs] by auto
qed

text \<open>A store has room for an entry when storing it exceeds none of its limits: the upstream of the entry is below its own
  limit, if there is one, and either the key is present already or the queues are not full and the memory limit, if there is one,
  admits the size of the entry.\<close>

definition room_for :: "env \<Rightarrow> query_hash \<Rightarrow> cache_entry \<Rightarrow> cache_store \<Rightarrow> bool" where
  "room_for E h e cs \<longleftrightarrow>
     (case cs_per_upstream_limit cs of Some limit \<Rightarrow> count_for_upstream E (ce_upstream_id e) cs < limit | None \<Rightarrow> True)
     \<and> (map_of (cs_entries cs) h \<noteq> None \<or>
        queue_len cs < queue_capacity cs \<and>
        (cs_max_memory_bytes cs = 0 \<or> unat (cs_total_memory_bytes cs) + approximate_size E e \<le> unat (cs_max_memory_bytes cs)))"

lemma room_unlimited:
  "\<lbrakk>cs_per_upstream_limit cs = None; cs_max_memory_bytes cs = 0; queue_len cs < queue_capacity cs\<rbrakk> \<Longrightarrow> room_for E h e cs"
  by (simp add: room_for_def)

lemma room_make_room: "room_for E h e cs \<Longrightarrow> make_room E t (ce_upstream_id e) cs = cs"
  by (auto simp: room_for_def make_room_def split: option.splits)

lemma room_set_e2n: "room_for E h e (set_e2n a b cs) = room_for E h e cs"
  by (simp add: room_for_def set_e2n_def count_for_upstream_def iter_entries_def queue_len_def queue_capacity_def split: option.split)

lemma word_sum_bound:
  assumes "unat a + n \<le> unat (b :: u64)"
  shows "unat (a + of_nat n) = unat a + n" and "a + of_nat n \<le> b"
proof -
  have less: "unat a + n < 2 ^ 64" using assms unat_bound [of b] by simp
  then have "unat (of_nat n :: u64) = n" by (simp add: unat_of_nat take_bit_nat_eq_self)
  then show u: "unat (a + of_nat n) = unat a + n" using less by (simp add: unat_word_ariths)
  show "a + of_nat n \<le> b" using assms by (simp add: word_le_nat_alt u)
qed

lemma store_entry_with_room:
  assumes "room_for E h e cs" and "ce_freq e = 0"
  shows "view (store_entry E h e cs) = (view cs)(h \<mapsto> e)"
    and "queue_len (store_entry E h e cs) = (if map_of (cs_entries cs) h = None then Suc (queue_len cs) else queue_len cs)"
    and "map_of (cs_entries cs) h = None \<Longrightarrow>
      cs_total_memory_bytes (store_entry E h e cs) = cs_total_memory_bytes cs + of_nat (approximate_size E e)"
proof -
  let ?c = "tracked_insert E h e cs"
  have q: "queue_len ?c = queue_len cs" "queue_capacity ?c = queue_capacity cs"
    by (simp_all add: queue_len_def queue_capacity_def)
  have e: "e\<lparr>ce_freq := 0\<rparr> = e" using assms(2) by (cases e) simp
  have "view (store_entry E h e cs) = (view cs)(h \<mapsto> e)
    \<and> queue_len (store_entry E h e cs) = (if map_of (cs_entries cs) h = None then Suc (queue_len cs) else queue_len cs)
    \<and> (map_of (cs_entries cs) h = None \<longrightarrow>
        cs_total_memory_bytes (store_entry E h e cs) = cs_total_memory_bytes cs + of_nat (approximate_size E e))"
  proof (cases "map_of (cs_entries cs) h")
    case None
    have t: "cs_total_memory_bytes ?c = cs_total_memory_bytes cs + of_nat (approximate_size E e)"
      "cs_max_memory_bytes ?c = cs_max_memory_bytes cs"
      by (simp_all add: tracked_insert_def None Let_def)
    have "queue_len ?c < queue_capacity ?c" "cs_max_memory_bytes ?c = 0 \<or> cs_total_memory_bytes ?c \<le> cs_max_memory_bytes ?c"
      using assms(1) None word_sum_bound(2) by (auto simp: room_for_def q t)
    note a = admit_with_room [OF this, of E h]
    show ?thesis using a by (simp add: store_entry_def None view_tracked_insert e q t)
  qed (simp add: store_entry_def view_tracked_insert e q)
  then show "view (store_entry E h e cs) = (view cs)(h \<mapsto> e)"
    "queue_len (store_entry E h e cs) = (if map_of (cs_entries cs) h = None then Suc (queue_len cs) else queue_len cs)"
    "map_of (cs_entries cs) h = None \<Longrightarrow>
      cs_total_memory_bytes (store_entry E h e cs) = cs_total_memory_bytes cs + of_nat (approximate_size E e)"
    by blast+
qed

lemma store_entry_config: "cache_config (store_entry E h e cs) = cache_config cs"
proof -
  have "cache_config (tracked_insert E h e cs) = cache_config cs"
    by (simp add: cache_config_def tracked_insert_def Let_def)
  then show ?thesis by (simp add: store_entry_def Let_def admit_config)
qed

lemma cdc_send_durations [simp]:
  "cs_fresh_duration (cdc_send t ty b c) = cs_fresh_duration c"
  "cs_stale_duration (cdc_send t ty b c) = cs_stale_duration c"
  "cs_ttl_jitter_percent (cdc_send t ty b c) = cs_ttl_jitter_percent c"
  by (simp_all add: cdc_send_def split: option.splits)

lemma store_entry_durations:
  "cs_fresh_duration (store_entry E h e cs) = cs_fresh_duration cs"
  "cs_stale_duration (store_entry E h e cs) = cs_stale_duration cs"
  "cs_ttl_jitter_percent (store_entry E h e cs) = cs_ttl_jitter_percent cs"
  using cache_config_fields(2,3) [OF store_entry_config [of E h e cs]]
    arg_cong [OF store_entry_config [of E h e cs], of cs_ttl_jitter_percent] by (simp_all add: cache_config_def)

text \<open>An insertion into a store with room: the entry is there and the windows are as before.\<close>

lemma insert_by_hash_with_room:
  assumes "room_for E h (fresh_entry E t r u k (lit ''default'')) cs"
  shows "view (insert_by_hash E t h r u k cs) = (view cs)(h \<mapsto> fresh_entry E t r u k (lit ''default''))"
    and "cs_fresh_duration (insert_by_hash E t h r u k cs) = cs_fresh_duration cs"
    and "cs_stale_duration (insert_by_hash E t h r u k cs) = cs_stale_duration cs"
    and "cs_ttl_jitter_percent (insert_by_hash E t h r u k cs) = cs_ttl_jitter_percent cs"
proof -
  have room: "make_room E t u cs = cs" using room_make_room [OF assms, of t] by (simp add: fresh_entry_def)
  note v = store_entry_with_room(1) [OF assms]
  show "view (insert_by_hash E t h r u k cs) = (view cs)(h \<mapsto> fresh_entry E t r u k (lit ''default''))"
    "cs_fresh_duration (insert_by_hash E t h r u k cs) = cs_fresh_duration cs"
    "cs_stale_duration (insert_by_hash E t h r u k cs) = cs_stale_duration cs"
    "cs_ttl_jitter_percent (insert_by_hash E t h r u k cs) = cs_ttl_jitter_percent cs"
    using v by (auto simp: insert_by_hash_def Let_def room store_entry_durations split: option.splits)
qed

lemma insert_impl_with_room:
  assumes "room_for E (hash_query E q) (fresh_entry E t r u (Some q) c) cs"
  shows "view (insert_impl E t q r u c cs) = (view cs)(hash_query E q \<mapsto> fresh_entry E t r u (Some q) c)"
    and "cs_fresh_duration (insert_impl E t q r u c cs) = cs_fresh_duration cs"
    and "cs_stale_duration (insert_impl E t q r u c cs) = cs_stale_duration cs"
    and "cs_ttl_jitter_percent (insert_impl E t q r u c cs) = cs_ttl_jitter_percent cs"
proof -
  let ?b = "insert_base E t q u cs" and ?e = "fresh_entry E t r u (Some q) c"
  have room: "make_room E t u cs = cs" using room_make_room [OF assms, of t] by (simp add: fresh_entry_def)
  then have b: "room_for E (hash_query E q) ?e ?b" using assms by (simp add: insert_base_def room_set_e2n Let_def)
  have bv: "view ?b = view cs" "cs_fresh_duration ?b = cs_fresh_duration cs"
    "cs_stale_duration ?b = cs_stale_duration cs" "cs_ttl_jitter_percent ?b = cs_ttl_jitter_percent cs"
    using room by (auto simp: insert_base_def set_e2n_def view_def Let_def)
  note v = store_entry_with_room(1) [OF b]
  show "view (insert_impl E t q r u c cs) = (view cs)(hash_query E q \<mapsto> ?e)"
    "cs_fresh_duration (insert_impl E t q r u c cs) = cs_fresh_duration cs"
    "cs_stale_duration (insert_impl E t q r u c cs) = cs_stale_duration cs"
    "cs_ttl_jitter_percent (insert_impl E t q r u c cs) = cs_ttl_jitter_percent cs"
    using v bv by (auto simp: insert_impl_eq Let_def store_entry_durations split: option.splits)
qed

text \<open>Room for a number of new entries of a total size, in a store without per-upstream limit.\<close>

definition roomy :: "nat \<Rightarrow> nat \<Rightarrow> cache_store \<Rightarrow> bool" where
  "roomy n bytes cs \<longleftrightarrow> cs_per_upstream_limit cs = None \<and> queue_len cs + n \<le> queue_capacity cs
     \<and> (cs_max_memory_bytes cs = 0 \<or> unat (cs_total_memory_bytes cs) + bytes \<le> unat (cs_max_memory_bytes cs))"

lemma roomy_room: "roomy (Suc n) (approximate_size E e + b) cs \<Longrightarrow> room_for E h e cs"
  by (auto simp: roomy_def room_for_def)

lemma roomy_store:
  assumes "roomy (Suc n) (approximate_size E e + b) cs" and "ce_freq e = 0"
    and "map_of (cs_entries cs) h = None \<or> cs_max_memory_bytes cs = 0"
  shows "roomy n b (store_entry E h e cs)"
proof -
  note f = cache_config_fields [OF store_entry_config [of E h e cs]]
  note s = store_entry_with_room [OF roomy_room [OF assms(1)] assms(2), of h]
  have mem: "cs_max_memory_bytes cs \<noteq> 0 \<Longrightarrow>
      unat (cs_total_memory_bytes (store_entry E h e cs)) + b \<le> unat (cs_max_memory_bytes cs)"
    using assms(1,3) s(3) word_sum_bound(1) [of "cs_total_memory_bytes cs" "approximate_size E e" "cs_max_memory_bytes cs"]
    by (auto simp: roomy_def)
  show ?thesis using assms(1) mem by (auto simp: roomy_def f s(2))
qed

lemma roomy_cdc_send [simp]: "roomy n b (cdc_send t ty x cs) = roomy n b cs"
  by (simp add: roomy_def cdc_send_def queue_len_def queue_capacity_def split: option.splits)

lemma roomy_insert:
  assumes "roomy (Suc n) (approximate_size E (fresh_entry E t r u (Some q) c) + b) cs"
    and "map_of (cs_entries cs) (hash_query E q) = None \<or> cs_max_memory_bytes cs = 0"
  shows "roomy n b (insert_impl E t q r u c cs)"
proof -
  let ?b = "insert_base E t q u cs" and ?e = "fresh_entry E t r u (Some q) c"
  have "make_room E t u cs = cs" using assms(1) by (simp add: make_room_def roomy_def)
  then have "roomy (Suc n) (approximate_size E ?e + b) ?b" "cs_entries ?b = cs_entries cs" "cs_max_memory_bytes ?b = cs_max_memory_bytes cs"
    using assms(1) by (simp_all add: insert_base_def set_e2n_def roomy_def queue_len_def queue_capacity_def Let_def)
  then have "roomy n b (store_entry E (hash_query E q) ?e ?b)" using assms(2) by (intro roomy_store) simp_all
  then show ?thesis by (simp add: insert_impl_eq Let_def split: option.split)
qed

text \<open>With two-tier matching, a lookup trusts the table of exact hashes.\<close>

definition no_exact_collision :: "env \<Rightarrow> rstr \<Rightarrow> bool" where
  "no_exact_collision E q \<longleftrightarrow> (\<forall>q'. hash_query_exact E q' = hash_query_exact E q \<longrightarrow> hash_query E q' = hash_query E q)"

lemma e2n_lookup: "\<lbrakk>e2n_ok E cs; no_exact_collision E q; cs_exact_to_normalized cs (hash_query_exact E q) = Some n\<rbrakk> \<Longrightarrow> n = hash_query E q"
  unfolding e2n_ok_def no_exact_collision_def by metis

lemma reachable_e2n: "cache_reachable E n cs \<Longrightarrow> e2n_ok E cs"
  by (rule e2n.cache_reachable_P) (simp_all add: e2n_ok_def cache_with_def)

lemma insert_impl_matching: "cs_normalized_matching (insert_impl E t q r u c cs) = cs_normalized_matching (make_room E t u cs)"
proof -
  have "cs_normalized_matching (store_entry E h e b) = cs_normalized_matching b" for h e b
    by (rule cache_config_fields(7) [OF store_entry_config])
  then show ?thesis
    by (simp add: insert_impl_eq insert_base_def set_e2n_def cdc_send_def Let_def split: option.split)
qed

lemma insert_get_entry:
  assumes "room_for E (hash_query E q) (fresh_entry E t r u (Some q) (lit ''default'')) cs" and "hash_query E q' = hash_query E q"
    and "cs_normalized_matching cs \<Longrightarrow> e2n_ok E cs \<and> no_exact_collision E q'"
  shows "\<exists>e. fst (cache_get E q' (cache_insert E t q r u cs)) = Some e
      \<and> e\<lparr>ce_freq := 0\<rparr> = fresh_entry E t r u (Some q) (lit ''default'')"
    and "view (cache_insert E t q r u cs) =
      (view cs)(hash_query E q \<mapsto> fresh_entry E t r u (Some q) (lit ''default''))"
proof -
  let ?e = "fresh_entry E t r u (Some q) (lit ''default'')" and ?cs' = "cache_insert E t q r u cs"
  show v: "view ?cs' = (view cs)(hash_query E q \<mapsto> ?e)"
    unfolding cache_insert_def by (rule insert_impl_with_room(1) [OF assms(1)])
  have room: "make_room E t u cs = cs" using room_make_room [OF assms(1), of t] by (simp add: fresh_entry_def)
  have "n = hash_query E q'" if "cs_normalized_matching ?cs'" "cs_exact_to_normalized ?cs' (hash_query_exact E q') = Some n" for n
  proof (rule e2n_lookup [OF _ _ that(2)])
    have m: "cs_normalized_matching cs" using that(1) by (simp add: cache_insert_def insert_impl_matching room)
    then show "e2n_ok E ?cs'" using assms(3) e2n.insert_impl_P by (simp add: cache_insert_def)
    show "no_exact_collision E q'" using assms(3) m by simp
  qed
  then have "map_option (ce_freq_update (\<lambda>_. 0)) (fst (cache_get E q' ?cs')) = Some ?e"
    using cache_get_result [of ?cs' E q'] v assms(2) by simp
  then show "\<exists>e. fst (cache_get E q' ?cs') = Some e \<and> e\<lparr>ce_freq := 0\<rparr> = ?e" by auto
qed

text \<open>C17. Reading one's own write: in every reachable cache, with two-tier matching or without, that has room for the new entry within its
  limits (queues, memory and entries of the upstream), a lookup right after the insertion of a query gives the response and the
  upstream inserted, for every spelling of the query with the same normalised hash, and the other entries are untouched. With
  two-tier matching this needs that no query that normalises differently has the same exact hash as the spelling looked up.\<close>

theorem cache_insert_then_get:
  assumes "cache_reachable E n cs"
    and "room_for E (hash_query E q) (fresh_entry E t r u (Some q) (lit ''default'')) cs"
    and "hash_query E q' = hash_query E q"
    and "cs_normalized_matching cs \<Longrightarrow> no_exact_collision E q'"
  shows "let cs' = cache_insert E t q r u cs
    in (\<exists>e. fst (cache_get E q' cs') = Some e \<and> ce_response e = r \<and> ce_upstream_id e = u)
       \<and> (\<forall>h. h \<noteq> hash_query E q \<longrightarrow> view cs' h = view cs h)"
proof -
  have m: "cs_normalized_matching cs \<Longrightarrow> e2n_ok E cs \<and> no_exact_collision E q'" using assms(4) reachable_e2n [OF assms(1)] by simp
  obtain e where e: "fst (cache_get E q' (cache_insert E t q r u cs)) = Some e"
      "e\<lparr>ce_freq := 0\<rparr> = fresh_entry E t r u (Some q) (lit ''default'')"
    using insert_get_entry(1) [OF assms(2,3) m] by blast
  have "ce_response e = r" "ce_upstream_id e = u"
    using arg_cong [OF e(2), of ce_response] arg_cong [OF e(2), of ce_upstream_id]
    by (simp_all add: fresh_entry_def)
  then show ?thesis using e(1) insert_get_entry(2) [OF assms(2,3) m] by (simp add: Let_def)
qed

text \<open>Another spelling, two-tier matching, 256 MB of memory and 100 entries per upstream.\<close>

definition limited_cache :: cache_store where
  "limited_cache = with_normalized_matching True (set_per_upstream_limit (Some 100)
     (cache_with_memory_limit (from_secs 300) (from_secs 60) 1000 (256 * 1024 * 1024)))"

lemma limited_reachable: "cache_reachable E 1000 limited_cache"
  unfolding limited_cache_def by (rule reach_step [OF reach_step [OF reach_memory step_set_per_upstream] step_normalized])

lemma ascii_spelling:
  assumes "as_bytes q = [of_nat c]" and "c < 128"
  shows "q = [c]"
proof -
  have "str_len q = 1" using length_as_bytes [of q] assms(1) by simp
  then obtain d where d: "q = [d]" using str_len_ge_length [of q] by (cases q rule: remdups_adj.cases) (auto simp: str_len_def)
  then have u: "utf8_char d = [of_nat c]" using assms(1) by (simp add: as_bytes_def)
  then have "utf8_len d = 1" using length_utf8_char [of d] by simp
  then have "d < 128" by (simp add: utf8_len_def split: if_splits)
  then have "(of_nat d :: u8) = of_nat c" using u by (simp add: utf8_char_def)
  then have "unat (of_nat d :: u8) = unat (of_nat c :: u8)" by simp
  then show ?thesis using d \<open>d < 128\<close> assms(2) by (simp add: unat_of_nat take_bit_nat_eq_self)
qed

lemma no_collision_a: "no_exact_collision trivial_env (lit ''a'')"
proof -
  have "q' = lit ''a''" if "hash_query_exact trivial_env q' = hash_query_exact trivial_env (lit ''a'')" for q'
    using that ascii_spelling [of q' 97]
    by (simp add: hash_query_exact_def trivial_env_def as_bytes_def utf8_char_def lit_def)
  then show ?thesis by (auto simp: no_exact_collision_def)
qed

lemma same_normalised: "hash_query trivial_env (lit ''a'') = hash_query trivial_env (lit '' a '')"
  by (simp add: hash_query_def normalize_query_def trivial_env_def lit_def trim_def trim_start_def trim_end_def is_whitespace_def)

theorem cache_insert_then_get_witness:
  "\<exists>e. fst (cache_get trivial_env (lit ''a'')
      (cache_insert trivial_env \<lparr>ck_now = 3, ck_wall = 3\<rparr> (lit '' a '') (response_of []) (lit ''u'') limited_cache)) = Some e
     \<and> ce_upstream_id e = lit ''u''"
proof -
  have "room_for trivial_env (hash_query trivial_env (lit '' a ''))
      (fresh_entry trivial_env \<lparr>ck_now = 3, ck_wall = 3\<rparr> (response_of []) (lit ''u'') (Some (lit '' a '')) (lit ''default'')) limited_cache"
    by (simp add: room_for_def limited_cache_def with_normalized_matching_def set_per_upstream_limit_def cache_with_memory_limit_def
        cache_with_def count_for_upstream_def iter_entries_def trivial_env_def queue_len_def queue_capacity_def s3fifo_new_def
        approximate_size_def fresh_entry_def response_of_def schema_default_def opt_str_size_def str_len_def utf8_len_def
        usize_add_def usize_max_def lit_def Let_def)
  from cache_insert_then_get [OF limited_reachable this same_normalised no_collision_a] show ?thesis by (auto simp: Let_def)
qed

text \<open>A key that is written twice and a key that is written and removed.\<close>

definition demo_writes :: "(clock \<times> rstr, rstr, query_response \<times> rstr) kv_op list" where
  "demo_writes =
     [Put (\<lparr>ck_now = 1, ck_wall = 1\<rparr>, []) (lit ''a'') (response_of [], lit ''u''),
      Put (\<lparr>ck_now = 2, ck_wall = 2\<rparr>, []) (lit ''b'') (response_of [], lit ''v''),
      Put (\<lparr>ck_now = 3, ck_wall = 3\<rparr>, []) (lit ''a'') ((response_of [])\<lparr>qr_took_ms := 7\<rparr>, lit ''w''),
      Del (\<lparr>ck_now = 4, ck_wall = 4\<rparr>, []) (lit ''b'')]"

lemma put_in_room:
  assumes "roomy (Suc n) 0 cs" and "cs_max_memory_bytes cs = 0"
  shows "roomy n 0 (put_query E a q v cs)" and "cs_max_memory_bytes (put_query E a q v cs) = 0"
    and "served (put_query E a q v cs) = (served cs)(hash_query E q \<mapsto> v)"
proof -
  let ?e = "fresh_entry E (fst a) (fst v) (snd v) (Some q) (snd a)"
  have r: "roomy (Suc n) (approximate_size E ?e + 0) cs" using assms by (simp add: roomy_def)
  show "roomy n 0 (put_query E a q v cs)" using roomy_insert [OF r] assms(2) by (simp add: put_query_def insert_with_context_def)
  show "cs_max_memory_bytes (put_query E a q v cs) = 0"
    using assms cache_config_fields(5) [OF store_entry_config]
    by (simp add: put_query_def insert_with_context_def insert_impl_eq insert_base_def make_room_def roomy_def set_e2n_def cdc_send_def Let_def
        split: option.split)
  have "view (put_query E a q v cs) = (view cs)(hash_query E q \<mapsto> ?e)"
    unfolding put_query_def insert_with_context_def by (rule insert_impl_with_room(1) [OF roomy_room [OF r]])
  then show "served (put_query E a q v cs) = (served cs)(hash_query E q \<mapsto> v)"
    by (auto simp: served_def fresh_entry_def fun_eq_iff)
qed

lemma served_del: "served (del_query E a q cs) = (served cs)(hash_query E q := None)"
  by (auto simp: served_def del_query_def cache_remove_view fun_eq_iff)

theorem cache_serves_last_insert_witness:
  "let cs = run_ops (put_query trivial_env) (del_query trivial_env) demo_writes (cache_new 5 5 10); h = hash_query trivial_env (lit ''a'')
   in served cs h = Some ((response_of [])\<lparr>qr_took_ms := 7\<rparr>, lit ''w'')
      \<and> last_write (hash_query trivial_env) demo_writes (served (cache_new 5 5 10)) h = served cs h"
proof -
  let ?ops = "run_ops (put_query trivial_env) (del_query trivial_env)"
  let ?cs = "?ops demo_writes (cache_new 5 5 10)" and ?h = "hash_query trivial_env (lit ''a'')"
  have start: "roomy (Suc (Suc (Suc 0))) 0 (cache_new 5 5 10)" "cs_max_memory_bytes (cache_new 5 5 10) = 0"
    by (simp_all add: roomy_def cache_new_def cache_with_def queue_len_def queue_capacity_def s3fifo_new_def Let_def)
  note p1 = put_in_room [OF start]
  note p2 = put_in_room [OF p1(1,2)]
  note p3 = put_in_room [OF p2(1,2)]
  have ab: "?h \<noteq> hash_query trivial_env (lit ''b'')"
    by (simp add: hash_query_def normalize_query_def trivial_env_def lit_def trim_def trim_start_def trim_end_def is_whitespace_def
        as_bytes_def utf8_char_def)
  have "served ?cs ?h = Some ((response_of [])\<lparr>qr_took_ms := 7\<rparr>, lit ''w'')"
    using ab by (simp add: demo_writes_def served_del p3(3))
  moreover have "store_ok trivial_env (max 10 1) (cache_new 5 5 10)"
    unfolding cache_new_def by (rule store_ok_new)
  ultimately show ?thesis using cache_serves_last_insert [of trivial_env "max 10 1" "cache_new 5 5 10" demo_writes ?h]
    by (simp add: Let_def)
qed

text \<open>The memory limit is enforced for new keys only: replacing the response of a key that is
  already cached by a larger one leaves the store above its limit, though the documentation of
  \<open>enforce_memory_limit\<close> says that the admission path enforces the cap on insert.\<close>

theorem update_exceeds_memory_limit:
  "\<exists>cs resp. store_ok trivial_env 10 cs
     \<and> cs_total_memory_bytes cs \<le> cs_max_memory_bytes cs \<and> 0 < cs_max_memory_bytes cs
     \<and> cs_total_memory_bytes (insert_by_hash trivial_env \<lparr>ck_now = 0, ck_wall = 0\<rparr> [1] resp [] None cs)
         > cs_max_memory_bytes cs"
proof -
  let ?cs = "hot_store\<lparr>cs_max_memory_bytes := 300\<rparr>"
  let ?resp = "response_of [\<lparr>sr_id = replicate 50 97, sr_score = 0, sr_content = [],
      sr_metadata = None, sr_upstream_id = None\<rparr>]"
  let ?e = "fresh_entry trivial_env \<lparr>ck_now = 0, ck_wall = 0\<rparr> ?resp [] None (lit ''default'')"
  have "queue_len hot_store \<le> 10" "queue_capacity hot_store = 10"
    by (simp_all add: hot_store_def cache_with_def queue_len_def queue_capacity_def s3fifo_new_def Let_def)
  then have "store_ok trivial_env 10 hot_store" using hot_store_inv(1) by (simp add: store_ok_def)
  then have ok: "store_ok trivial_env 10 ?cs" by simp
  have big: "approximate_size trivial_env ?e = 310"
    by (simp add: approximate_size_def fresh_entry_def response_of_def trivial_env_def result_entry_size_def
        schema_default_def opt_str_size_def str_len_def utf8_len_def usize_add_def usize_max_def
        sum_list_replicate)
  have "cs_total_memory_bytes (tracked_insert trivial_env [1] ?e ?cs) = 310"
    using plain_entry_size [of 1]
    by (simp add: tracked_insert_def big Let_def hot_store_def cache_with_def)
  then have "cs_total_memory_bytes (insert_by_hash trivial_env \<lparr>ck_now = 0, ck_wall = 0\<rparr> [1] ?resp [] None ?cs)
      = 310"
    by (simp add: insert_by_hash_def make_room_def store_entry_def hot_store_def cache_with_def Let_def)
  then show ?thesis using ok
    by (intro exI [of _ ?cs] exI [of _ ?resp]) (simp add: hot_store_def cache_with_def)
qed

section \<open>The per-upstream limit\<close>

definition upstream_keys :: "rstr \<Rightarrow> cache_store \<Rightarrow> query_hash set" where
  "upstream_keys u cs = {h. \<exists>e. view cs h = Some e \<and> ce_upstream_id e = u}"

lemma finite_upstream_keys [simp]: "finite (upstream_keys u cs)"
proof (rule finite_subset)
  show "upstream_keys u cs \<subseteq> dom (map_of (cs_entries cs))" by (auto simp: upstream_keys_def view_def)
qed (simp add: finite_dom_map_of)

lemma upstream_keys_mono: "view cs' \<subseteq>\<^sub>m view cs \<Longrightarrow> upstream_keys u cs' \<subseteq> upstream_keys u cs"
  unfolding upstream_keys_def map_le_def by (auto intro: domI) (metis domI)

lemma upstream_list:
  assumes "mset (iter_order E (cs_entries cs)) = mset (cs_entries cs)" "distinct (map fst (cs_entries cs))"
  shows "set (map fst (filter (\<lambda>(_, e). ce_upstream_id e = u) (iter_entries E cs))) = upstream_keys u cs"
    and "distinct (map fst (filter (\<lambda>(_, e). ce_upstream_id e = u) (iter_entries E cs)))"
proof -
  have m: "map_of (iter_entries E cs) = map_of (cs_entries cs)"
    using mset_eq_map_of_eq [OF assms(1) [symmetric] assms(2)] by (simp add: iter_entries_def)
  have d: "distinct (map fst (iter_entries E cs))"
    using assms by (metis iter_entries_def mset_eq_imp_distinct_iff mset_map)
  show "distinct (map fst (filter (\<lambda>(_, e). ce_upstream_id e = u) (iter_entries E cs)))"
    using d by (rule distinct_map_filter)
  have "(h, e) \<in> set (iter_entries E cs) \<longleftrightarrow> map_of (cs_entries cs) h = Some e" for h e
    using m d by (metis map_of_eq_Some_iff)
  then show "set (map fst (filter (\<lambda>(_, e). ce_upstream_id e = u) (iter_entries E cs))) = upstream_keys u cs"
    by (force simp: upstream_keys_def view_def)
qed

lemma count_for_upstream_card:
  assumes "mset (iter_order E (cs_entries cs)) = mset (cs_entries cs)" "distinct (map fst (cs_entries cs))"
  shows "count_for_upstream E u cs = card (upstream_keys u cs)"
  using distinct_card [OF upstream_list(2) [OF assms, of u]] upstream_list(1) [OF assms, of u]
  by (simp add: count_for_upstream_def)

lemma set_oldest:
  "map fst (oldest_of_upstream E t u cs) = [] \<longleftrightarrow>
     filter (\<lambda>(_, e). ce_upstream_id e = u) (iter_entries E cs) = []"
  "set (map fst (oldest_of_upstream E t u cs)) =
     set (map fst (filter (\<lambda>(_, e). ce_upstream_id e = u) (iter_entries E cs)))"
proof -
  show "set (map fst (oldest_of_upstream E t u cs)) =
      set (map fst (filter (\<lambda>(_, e). ce_upstream_id e = u) (iter_entries E cs)))"
    by (force simp: oldest_of_upstream_def)
  then show "map fst (oldest_of_upstream E t u cs) = [] \<longleftrightarrow>
      filter (\<lambda>(_, e). ce_upstream_id e = u) (iter_entries E cs) = []"
    by (metis map_is_Nil_conv set_empty)
qed

lemma evict_one_of_upstream:
  assumes perm: "mset (iter_order E (cs_entries cs)) = mset (cs_entries cs)"
    and d: "distinct (map fst (cs_entries cs))" and ne: "upstream_keys u cs \<noteq> {}"
  shows "card (upstream_keys u (snd (evict_from_upstream E t u 1 cs))) < card (upstream_keys u cs)"
proof -
  let ?old = "oldest_of_upstream E t u cs"
  have set: "set (map fst ?old) = upstream_keys u cs"
    using set_oldest(2) [of E t u cs] upstream_list(1) [OF perm d, of u] by simp
  then obtain x rest where x: "?old = x # rest" using ne by (cases ?old) auto
  obtain es c where ra: "remove_all E (map fst (take 1 ?old)) cs = (es, c)" by fastforce
  have "view c = (\<lambda>h. if h \<in> set (map fst (take 1 ?old)) then None else view cs h)"
    using remove_all_view [of E "map fst (take 1 ?old)" cs] ra by simp
  then have v: "view (snd (evict_from_upstream E t u 1 cs)) = (view cs)(fst x := None)"
    using x ra by (auto simp: evict_from_upstream_def Let_def fun_eq_iff)
  have "upstream_keys u (snd (evict_from_upstream E t u 1 cs)) \<subseteq> upstream_keys u cs - {fst x}"
    unfolding upstream_keys_def v by auto
  moreover have "fst x \<in> upstream_keys u cs" using set x by auto
  ultimately show ?thesis
    by (meson card_Diff1_less card_mono finite_Diff finite_upstream_keys le_less_trans)
qed

text \<open>The per-upstream limit: if an upstream has at most as many entries as its limit allows,
  it still has at most that many, or one under a limit of 0, after the insertion of a further
  response of that upstream, when the iteration of the map visits every entry once.\<close>

theorem per_upstream_limit_holds:
  assumes "store_ok E N cs" and "cs_per_upstream_limit cs = Some limit"
    and "\<And>xs. mset (iter_order E xs) = mset xs"
    and "count_for_upstream E u cs \<le> limit"
  shows "count_for_upstream E u (insert_by_hash E t h r u k cs) \<le> max limit 1"
proof -
  have dist: "store_ok E N c \<Longrightarrow> distinct (map fst (cs_entries c))" for c
    by (simp add: store_ok_def cache_inv_def entries_ok_def)
  have card: "store_ok E N c \<Longrightarrow> count_for_upstream E u c = card (upstream_keys u c)" for c
    using count_for_upstream_card [OF assms(3) dist] by blast
  define c1 where "c1 = make_room E t u cs"
  have ok1: "store_ok E N c1" using assms(1) by (simp add: c1_def sok.make_room_P)
  have room: "card (upstream_keys u c1) \<le> max limit 1 - 1"
  proof (cases "count_for_upstream E u cs \<ge> limit")
    case True
    then have c1: "view c1 = view (snd (evict_from_upstream E t u 1 cs))"
      using assms(2) by (simp add: c1_def make_room_def)
    have keys: "upstream_keys u c1 = upstream_keys u (snd (evict_from_upstream E t u 1 cs))"
      by (simp add: upstream_keys_def c1)
    show ?thesis
    proof (cases "upstream_keys u cs = {}")
      case True
      then have "upstream_keys u c1 = {}"
        using upstream_keys_mono [OF evict_from_upstream_view] keys by blast
      then show ?thesis by simp
    next
      case False
      then show ?thesis
        using evict_one_of_upstream [OF assms(3) dist [OF assms(1)] False, of t] keys
          card [OF assms(1)] assms(4) by simp
    qed
  next
    case False
    then have "view c1 = view cs" using assms(2) by (simp add: c1_def make_room_def)
    then have "upstream_keys u c1 = upstream_keys u cs" by (simp add: upstream_keys_def)
    then show ?thesis using False card [OF assms(1)] by simp
  qed
  define e where "e = fresh_entry E t r u k (lit ''default'')"
  have "view (store_entry E h e c1) \<subseteq>\<^sub>m (view c1)(h \<mapsto> e)"
    by (rule store_entry_view [OF ok1]) (simp add: e_def)
  moreover have "view (insert_by_hash E t h r u k cs) = view (store_entry E h e c1)"
    by (auto simp: insert_by_hash_def Let_def c1_def e_def split: option.splits)
  ultimately have "upstream_keys u (insert_by_hash E t h r u k cs) \<subseteq> insert h (upstream_keys u c1)"
    unfolding upstream_keys_def map_le_def by (auto split: if_splits)
  then have "card (upstream_keys u (insert_by_hash E t h r u k cs)) \<le> card (insert h (upstream_keys u c1))"
    by (intro card_mono) simp_all
  then have "card (upstream_keys u (insert_by_hash E t h r u k cs)) \<le> Suc (card (upstream_keys u c1))"
    by (simp add: card_insert_if split: if_splits)
  then show ?thesis using room card [OF sok.insert_by_hash_P [OF assms(1)]] by simp
qed

theorem per_upstream_limit_holds_witness:
  "count_for_upstream trivial_env (lit ''u'') (insert_by_hash trivial_env \<lparr>ck_now = 0, ck_wall = 0\<rparr> [1]
      (response_of []) (lit ''u'') None (set_per_upstream_limit (Some 2) (cache_new 5 5 10))) \<le> 2"
proof -
  let ?cs = "set_per_upstream_limit (Some 2) (cache_new 5 5 10)"
  have ok: "store_ok trivial_env (max 10 1) ?cs"
    using store_ok_new [of trivial_env 10] by (simp add: set_per_upstream_limit_def cache_new_def)
  have "count_for_upstream trivial_env (lit ''u'') ?cs \<le> 2"
    by (simp add: count_for_upstream_def iter_entries_def trivial_env_def set_per_upstream_limit_def
        cache_new_def cache_with_def)
  then have "count_for_upstream trivial_env (lit ''u'') (insert_by_hash trivial_env
      \<lparr>ck_now = 0, ck_wall = 0\<rparr> [1] (response_of []) (lit ''u'') None ?cs) \<le> max 2 1"
    by (intro per_upstream_limit_holds [OF ok])
      (simp_all add: trivial_env_def set_per_upstream_limit_def)
  then show ?thesis by simp
qed

section \<open>Administrative evictions\<close>

lemma remove_all_length:
  "distinct hs \<Longrightarrow> set hs \<subseteq> dom (view cs) \<Longrightarrow> length (fst (remove_all E hs cs)) = length hs"
proof (induction hs arbitrary: cs)
  case (Cons h hs)
  obtain e where e: "map_of (cs_entries cs) h = Some e" using Cons.prems(2) by (auto simp: view_def)
  obtain c where tr: "tracked_remove E h cs = (Some e, c)"
    using tracked_remove_fst [of E h cs] e by (cases "tracked_remove E h cs") auto
  have "view c = (view cs)(h := None)" using view_tracked_remove [of E h cs] tr by simp
  then have "set hs \<subseteq> dom (view c)" using Cons.prems by auto
  then show ?case using Cons tr by simp
qed simp

text \<open>Removing what a criterion selects, where the criterion does not look at the access frequency.\<close>

lemma remove_matching:
  assumes "store_ok E N cs" and "mset (iter_order E (cs_entries cs)) = mset (cs_entries cs)"
    and "\<And>e. hit (e\<lparr>ce_freq := 0\<rparr>) = hit e"
    and "remove_all E (map fst (filter (\<lambda>(_, e). hit e) (iter_entries E cs))) cs = (es, c)"
  shows "view c = (\<lambda>h. case view cs h of Some e \<Rightarrow> if hit e then None else Some e | None \<Rightarrow> None)"
    and "length es = card {h. \<exists>e. view cs h = Some e \<and> hit e}"
proof -
  let ?hs = "map fst (filter (\<lambda>(_, e). hit e) (iter_entries E cs))"
  have dist: "distinct (map fst (cs_entries cs))" using assms(1)
    by (simp add: store_ok_def cache_inv_def entries_ok_def)
  have m: "map_of (iter_entries E cs) = map_of (cs_entries cs)"
    using mset_eq_map_of_eq [OF assms(2) [symmetric] dist] by (simp add: iter_entries_def)
  have d: "distinct (map fst (iter_entries E cs))"
    using assms(2) dist by (metis iter_entries_def mset_eq_imp_distinct_iff mset_map)
  have mem: "(h, e) \<in> set (iter_entries E cs) \<longleftrightarrow> map_of (cs_entries cs) h = Some e" for h e
    using m d by (metis map_of_eq_Some_iff)
  have hs: "set ?hs = {h. \<exists>e. view cs h = Some e \<and> hit e}"
    by (force simp: view_def mem assms(3))
  show "view c = (\<lambda>h. case view cs h of Some e \<Rightarrow> if hit e then None else Some e | None \<Rightarrow> None)"
    using remove_all_view [of E ?hs cs] assms(4) hs by (auto simp: fun_eq_iff split: option.splits)
  have dh: "distinct ?hs" using d by (rule distinct_map_filter)
  have "set ?hs \<subseteq> dom (view cs)" unfolding hs by blast
  then have "length es = length ?hs" using remove_all_length [OF dh, of cs E] assms(4) by simp
  then show "length es = card {h. \<exists>e. view cs h = Some e \<and> hit e}" using distinct_card [OF dh] hs by simp
qed

text \<open>The filtered eviction without a cap removes exactly the entries that match every given
  criterion, keeps all others as they are, and reports how many it removed.\<close>

theorem evict_filter_exact:
  assumes "store_ok E N cs" and "mset (iter_order E (cs_entries cs)) = mset (cs_entries cs)"
  shows "let thr = map_option (\<lambda>s. case system_time_checked_sub (ck_wall t) (from_secs s) of
             Some w \<Rightarrow> w | None \<Rightarrow> 0) older;
           hit = (\<lambda>e. filter_matches E ctx (map_option (to_lowercase E) prefix) thr e);
           res = evict_filter E t ctx prefix older None cs
    in view (snd res) = (\<lambda>h. case view cs h of Some e \<Rightarrow> if hit e then None else Some e | None \<Rightarrow> None)
       \<and> fst res = card {h. \<exists>e. view cs h = Some e \<and> hit e}"
proof -
  define thr where "thr = map_option (\<lambda>s. case system_time_checked_sub (ck_wall t) (from_secs s) of
             Some w \<Rightarrow> w | None \<Rightarrow> 0) older"
  define hit where "hit = filter_matches E ctx (map_option (to_lowercase E) prefix) thr"
  let ?hs = "map fst (filter (\<lambda>(_, e). hit e) (iter_entries E cs))"
  obtain es c where ra: "remove_all E ?hs cs = (es, c)" by fastforce
  have hit0: "hit (e\<lparr>ce_freq := 0\<rparr>) = hit e" for e
    unfolding hit_def filter_matches_def by (cases ctx; cases prefix; cases thr) simp_all
  note r = remove_matching [OF assms hit0 ra]
  show ?thesis
    unfolding Let_def thr_def [symmetric] hit_def [symmetric]
    using r ra by (simp add: evict_filter_def Let_def thr_def [symmetric] hit_def [symmetric])
qed

theorem evict_filter_exact_witness:
  "fst (evict_filter trivial_env \<lparr>ck_now = 0, ck_wall = 0\<rparr> (Some (lit ''ctx'')) None None None hot_store) = 0"
proof -
  have "queue_len hot_store \<le> 10" "queue_capacity hot_store = 10"
    by (simp_all add: hot_store_def cache_with_def queue_len_def queue_capacity_def s3fifo_new_def Let_def)
  then have ok: "store_ok trivial_env 10 hot_store" using hot_store_inv(1) by (simp add: store_ok_def)
  have none: "{h. \<exists>e. view hot_store h = Some e \<and>
      filter_matches trivial_env (Some (lit ''ctx'')) None None e} = {}"
    by (auto simp: hot_store_def view_def filter_matches_def plain_entry_def lit_def split: if_splits)
  have perm: "mset (iter_order trivial_env xs) = mset xs" for xs by (simp add: trivial_env_def)
  have "fst (evict_filter trivial_env \<lparr>ck_now = 0, ck_wall = 0\<rparr> (Some (lit ''ctx'')) None None None hot_store) =
      card {h. \<exists>e. view hot_store h = Some e \<and> filter_matches trivial_env (Some (lit ''ctx'')) None None e}"
    using evict_filter_exact [OF ok perm, of "\<lparr>ck_now = 0, ck_wall = 0\<rparr>" None "Some (lit ''ctx'')" None]
    by (simp only: Let_def option.map)
  then show ?thesis by (simp only: none card.empty)
qed

end
