(* ===== verification/Peer.thy ===== *)
theory Peer
  imports CacheLimits
begin

text \<open>
  Peer replication, \<open>src/src/proxy/peer/\<close>: the receiver that deduplicates and applies the events
  of a remote node to the local cache, and the distributed single-flight coordination of fetches.
  The notifiers of \<open>tokio\<close> are numbered; \<open>dc_notified\<close> lists those whose waiters were woken.
\<close>

section \<open>The receiver\<close>

datatype deduplicate_result = Apply | Echo | StaleEvent | ExpiredEvent

definition local_timestamp_ms :: "cache_entry \<Rightarrow> u64" where
  "local_timestamp_ms e =
     (case Option.bind (ce_cached_at_wall e) unix_ms of Some ms \<Rightarrow> ms | None \<Rightarrow> 0)"

definition deduplicate ::
  "env \<Rightarrow> clock \<Rightarrow> cdc_event \<Rightarrow> rstr \<Rightarrow> cache_store \<Rightarrow> deduplicate_result \<times> cache_store" where
  "deduplicate E t ev local_node_id cs =
     (if ev_origin_node_id ev = local_node_id then (Echo, cs)
      else if ev_absolute_expiry_ms ev > 0 \<and> ev_absolute_expiry_ms ev \<le> now_ms (ck_wall t)
      then (ExpiredEvent, cs)
      else if ev_event_type ev = CdcInsert
      then (case cache_get E (ev_query_key ev) cs of
              (Some existing, cs1) \<Rightarrow>
                (if local_timestamp_ms existing \<ge> ev_timestamp_ms ev then (StaleEvent, cs1)
                 else (Apply, cs1))
            | (None, cs1) \<Rightarrow> (Apply, cs1))
      else (Apply, cs))"

definition apply_event :: "env \<Rightarrow> clock \<Rightarrow> cdc_event \<Rightarrow> cache_store \<Rightarrow> bool \<times> cache_store" where
  "apply_event E t ev cs =
     (case ev_event_type ev of
        CdcInsert \<Rightarrow>
          (if ev_payload ev = [] then (False, cs)
           else case from_slice E (ev_payload ev) of
                  Some resp \<Rightarrow> (True, cache_insert E t (ev_query_key ev) resp (ev_upstream_id ev) cs)
                | None \<Rightarrow> (False, cs))
      | CdcRemove \<Rightarrow>
          (if ev_query_key ev = [] then (True, cache_clear t cs)
           else (True, cache_remove E t (ev_query_key ev) cs))
      | _ \<Rightarrow> (False, cs))"

record peer_replication_stats =
  ps_events_received :: u64
  ps_events_applied :: u64
  ps_events_skipped :: u64
  ps_errors :: u64

record peer_receiver =
  pr_local_node_id :: rstr
  pr_cache :: cache_store
  pr_stats :: peer_replication_stats

definition receiver_new :: "rstr \<Rightarrow> cache_store \<Rightarrow> peer_receiver" where
  "receiver_new node cs = \<lparr>pr_local_node_id = node, pr_cache = cs,
     pr_stats = \<lparr>ps_events_received = 0, ps_events_applied = 0, ps_events_skipped = 0, ps_errors = 0\<rparr>\<rparr>"

definition handle_event :: "env \<Rightarrow> clock \<Rightarrow> proto_event \<Rightarrow> peer_receiver \<Rightarrow> peer_receiver" where
  "handle_event E t pe pr =
     (case proto_to_internal pe of
        None \<Rightarrow> pr
      | Some ev \<Rightarrow>
          let (result, cs1) = deduplicate E t ev (pr_local_node_id pr) (pr_cache pr);
              (applied, cs2) = (if result = Apply then apply_event E t ev cs1 else (False, cs1));
              st = pr_stats pr
          in pr\<lparr>pr_cache := cs2,
                pr_stats := (if applied then st\<lparr>ps_events_applied := ps_events_applied st + 1\<rparr>
                             else st\<lparr>ps_events_skipped := ps_events_skipped st + 1\<rparr>)\<rparr>)"

text \<open>One message of the stream in \<open>connect_and_receive\<close>.\<close>

definition receive_message :: "env \<Rightarrow> clock \<Rightarrow> proto_event \<Rightarrow> peer_receiver \<Rightarrow> peer_receiver" where
  "receive_message E t pe pr =
     handle_event E t pe (pr\<lparr>pr_stats := (pr_stats pr)\<lparr>ps_events_received := ps_events_received (pr_stats pr) + 1\<rparr>\<rparr>)"

section \<open>Distributed single flight\<close>

record fetch_state =
  fs_origin_node_id :: rstr
  fs_notify :: nat

datatype coalesce_decision = Proceed | Wait nat

record distributed_coalescer =
  dc_active_fetches :: "rstr \<rightharpoonup> fetch_state"
  dc_next_notify :: nat
  dc_notified :: "nat list"
  dc_cdc_sender :: event_sender

definition coalescer_new :: "event_sender \<Rightarrow> distributed_coalescer" where
  "coalescer_new s = \<lparr>dc_active_fetches = Map.empty, dc_next_notify = 0, dc_notified = [],
     dc_cdc_sender = s\<rparr>"

definition dc_check :: "rstr \<Rightarrow> distributed_coalescer \<Rightarrow> coalesce_decision" where
  "dc_check key dc =
     (case dc_active_fetches dc key of Some st \<Rightarrow> Wait (fs_notify st) | None \<Rightarrow> Proceed)"

definition dc_publish ::
  "system_time \<Rightarrow> cdc_event_type \<Rightarrow> cdc_event_builder \<Rightarrow> distributed_coalescer \<Rightarrow> distributed_coalescer" where
  "dc_publish wall ty b dc = dc\<lparr>dc_cdc_sender := snd (sender_send wall ty b (dc_cdc_sender dc))\<rparr>"

definition register_fetch :: "system_time \<Rightarrow> rstr \<Rightarrow> distributed_coalescer \<Rightarrow> distributed_coalescer" where
  "register_fetch wall key dc = dc_publish wall FetchStart (builder_fetch_start key) dc"

definition remove_and_notify :: "rstr \<Rightarrow> distributed_coalescer \<Rightarrow> distributed_coalescer" where
  "remove_and_notify key dc =
     (case dc_active_fetches dc key of
        Some st \<Rightarrow> dc\<lparr>dc_active_fetches := (dc_active_fetches dc)(key := None),
                     dc_notified := fs_notify st # dc_notified dc\<rparr>
      | None \<Rightarrow> dc)"

definition complete_fetch :: "rstr \<Rightarrow> distributed_coalescer \<Rightarrow> distributed_coalescer" where
  "complete_fetch key dc = remove_and_notify key dc"

definition cancel_fetch :: "system_time \<Rightarrow> rstr \<Rightarrow> distributed_coalescer \<Rightarrow> distributed_coalescer" where
  "cancel_fetch wall key dc =
     dc_publish wall FetchCancel (builder_fetch_cancel key)
       (dc\<lparr>dc_active_fetches := (dc_active_fetches dc)(key := None)\<rparr>)"

definition on_remote_fetch_start :: "rstr \<Rightarrow> rstr \<Rightarrow> distributed_coalescer \<Rightarrow> distributed_coalescer" where
  "on_remote_fetch_start key origin dc =
     dc\<lparr>dc_active_fetches := (dc_active_fetches dc)(key \<mapsto>
          \<lparr>fs_origin_node_id = origin, fs_notify = dc_next_notify dc\<rparr>),
        dc_next_notify := Suc (dc_next_notify dc)\<rparr>"

definition on_remote_fetch_cancel :: "rstr \<Rightarrow> distributed_coalescer \<Rightarrow> distributed_coalescer" where
  "on_remote_fetch_cancel key dc = remove_and_notify key dc"

definition on_remote_insert :: "rstr \<Rightarrow> distributed_coalescer \<Rightarrow> distributed_coalescer" where
  "on_remote_insert key dc = remove_and_notify key dc"

inductive dc_step :: "distributed_coalescer \<Rightarrow> distributed_coalescer \<Rightarrow> bool" where
  dc_register: "dc_step dc (register_fetch w key dc)"
| dc_complete: "dc_step dc (complete_fetch key dc)"
| dc_cancel: "dc_step dc (cancel_fetch w key dc)"
| dc_remote_start: "dc_step dc (on_remote_fetch_start key origin dc)"
| dc_remote_cancel: "dc_step dc (on_remote_fetch_cancel key dc)"
| dc_remote_insert: "dc_step dc (on_remote_insert key dc)"

section \<open>Lemmas\<close>

lemma deduplicate_view: "view (snd (deduplicate E t ev node cs)) = view cs"
proof -
  obtain r c where g: "cache_get E (ev_query_key ev) cs = (r, c)" by fastforce
  then have "view c = view cs" using cache_get_view [of E "ev_query_key ev" cs] by simp
  then show ?thesis by (cases r) (simp_all add: deduplicate_def g)
qed

lemma deduplicate_ok: "store_ok E N cs \<Longrightarrow> store_ok E N (snd (deduplicate E t ev node cs))"
  using sok.cache_get_P [of E N cs "ev_query_key ev"]
  by (auto simp: deduplicate_def split: prod.splits option.splits)

lemma apply_event_ok: "store_ok E N cs \<Longrightarrow> store_ok E N (snd (apply_event E t ev cs))"
  by (auto simp: apply_event_def cache_insert_def sok.insert_impl_P sok.cache_clear_P sok.cache_remove_P
      split: cdc_event_type.splits option.splits)

lemma handle_event_eq:
  assumes "proto_to_internal pe = Some ev" "deduplicate E t ev (pr_local_node_id pr) (pr_cache pr) = (res, c)"
  shows "pr_cache (handle_event E t pe pr) = (if res = Apply then snd (apply_event E t ev c) else c)"
  using assms by (simp add: handle_event_def Let_def split: prod.splits)

lemma remove_published:
  assumes "cs_cdc_sender cs = Some s"
  shows "cs_cdc_sender (cache_remove E t q cs) = Some (snd (sender_send (ck_wall t) CdcRemove (builder_remove q) s))"
  using assms by (simp add: cache_remove_def cdc_send_def drop_e2n_def)

text \<open>The handles of the single flight: those of active fetches are distinct and not yet notified.\<close>

definition dc_ok :: "distributed_coalescer \<Rightarrow> bool" where
  "dc_ok dc \<longleftrightarrow>
     (\<forall>k st. dc_active_fetches dc k = Some st \<longrightarrow>
        fs_notify st < dc_next_notify dc \<and> fs_notify st \<notin> set (dc_notified dc)) \<and>
     (\<forall>k k' st st'. dc_active_fetches dc k = Some st \<longrightarrow> dc_active_fetches dc k' = Some st' \<longrightarrow>
        fs_notify st = fs_notify st' \<longrightarrow> k = k') \<and>
     (\<forall>n \<in> set (dc_notified dc). n < dc_next_notify dc)"

lemma dc_step_ok: "dc_step dc dc' \<Longrightarrow> dc_ok dc \<Longrightarrow> dc_ok dc'"
proof (induction rule: dc_step.induct)
  case (dc_remote_start dc key origin)
  then show ?case
    unfolding dc_ok_def on_remote_fetch_start_def by (auto split: if_splits dest: less_SucI) fastforce+
qed (auto simp: dc_ok_def register_fetch_def dc_publish_def complete_fetch_def remove_and_notify_def
    cancel_fetch_def on_remote_fetch_cancel_def on_remote_insert_def split: option.splits if_splits)

text \<open>A handle that is neither active nor notified is never notified any more.\<close>

definition dc_lost :: "nat \<Rightarrow> distributed_coalescer \<Rightarrow> bool" where
  "dc_lost n dc \<longleftrightarrow> n < dc_next_notify dc \<and> n \<notin> set (dc_notified dc) \<and>
     (\<forall>k st. dc_active_fetches dc k = Some st \<longrightarrow> fs_notify st \<noteq> n)"

lemma dc_step_lost: "dc_step dc dc' \<Longrightarrow> dc_lost n dc \<Longrightarrow> dc_lost n dc'"
  by (induction rule: dc_step.induct)
    (auto simp: dc_lost_def register_fetch_def dc_publish_def complete_fetch_def remove_and_notify_def
      cancel_fetch_def on_remote_fetch_cancel_def on_remote_insert_def on_remote_fetch_start_def
      split: option.splits if_splits)

lemma dc_steps_lost: "dc_step\<^sup>*\<^sup>* dc dc' \<Longrightarrow> dc_lost n dc \<Longrightarrow> dc_lost n dc'"
  by (induction rule: rtranclp_induct) (auto intro: dc_step_lost)

lemma dc_steps_ok: "dc_step\<^sup>*\<^sup>* dc dc' \<Longrightarrow> dc_ok dc \<Longrightarrow> dc_ok dc'"
  by (induction rule: rtranclp_induct) (auto intro: dc_step_ok)

lemma dc_new_ok: "dc_ok (coalescer_new s)"
  by (simp add: dc_ok_def coalescer_new_def)

section \<open>Properties\<close>

text \<open>C18. Handling an event of a peer keeps the invariant of the cache, with two-tier matching or without; an event of the local node
  itself, an expired one, an insertion without a payload and a fetch notice leave what the cache
  holds as it is; a removal removes the query, or everything when its key is empty; and an
  insertion at most replaces the entry of its query by the transported response.\<close>

theorem peer_handle_event_effect:
  assumes "proto_to_internal pe = Some ev" and "store_ok E N (pr_cache pr)"
  shows "let cs = pr_cache pr; cs' = pr_cache (handle_event E t pe pr); h = hash_query E (ev_query_key ev);
           skip = (ev_origin_node_id ev = pr_local_node_id pr \<or>
             ev_absolute_expiry_ms ev > 0 \<and> ev_absolute_expiry_ms ev \<le> now_ms (ck_wall t))
    in store_ok E N cs'
       \<and> (skip \<or> ev_event_type ev \<in> {FetchStart, FetchCancel} \<or>
          ev_event_type ev = CdcInsert \<and> ev_payload ev = [] \<longrightarrow> view cs' = view cs)
       \<and> (\<not> skip \<and> ev_event_type ev = CdcRemove \<longrightarrow>
            view cs' = (if ev_query_key ev = [] then Map.empty else (view cs)(h := None)))
       \<and> (ev_event_type ev = CdcInsert \<longrightarrow> served cs' \<subseteq>\<^sub>m served cs \<or>
            (\<exists>r. from_slice E (ev_payload ev) = Some r \<and> served cs' \<subseteq>\<^sub>m (served cs)(h \<mapsto> (r, ev_upstream_id ev))))"
proof -
  let ?cs = "pr_cache pr"
  obtain res c where dd: "deduplicate E t ev (pr_local_node_id pr) ?cs = (res, c)" by fastforce
  have v: "view c = view ?cs" using deduplicate_view [of E t ev "pr_local_node_id pr" ?cs] dd by simp
  have ok: "store_ok E N c" using deduplicate_ok [OF assms(2), of t ev "pr_local_node_id pr"] dd by simp
  note eq = handle_event_eq [OF assms(1) dd]
  have srv: "served c = served ?cs" by (simp add: served_def [abs_def] v)
  have ins: "served (cache_insert E t (ev_query_key ev) r (ev_upstream_id ev) c)
      \<subseteq>\<^sub>m (served ?cs)(hash_query E (ev_query_key ev) \<mapsto> (r, ev_upstream_id ev))" for r
    using served_mono [OF insert_impl_view [OF ok, of t "ev_query_key ev" r "ev_upstream_id ev" "lit ''default''"]]
    by (simp add: cache_insert_def fresh_entry_def srv)
  have "view (clear_state c) = Map.empty" by (rule ext) (simp add: view_def clear_state_def)
  then have clr: "view (cache_clear t c) = Map.empty" by (simp add: cache_clear_def)
  show ?thesis
    unfolding Let_def
  proof (intro conjI impI)
    show "store_ok E N (pr_cache (handle_event E t pe pr))" using ok apply_event_ok [OF ok] by (simp add: eq)
  next
    assume "(ev_origin_node_id ev = pr_local_node_id pr \<or>
        ev_absolute_expiry_ms ev > 0 \<and> ev_absolute_expiry_ms ev \<le> now_ms (ck_wall t)) \<or>
      ev_event_type ev \<in> {FetchStart, FetchCancel} \<or> ev_event_type ev = CdcInsert \<and> ev_payload ev = []"
    then show "view (pr_cache (handle_event E t pe pr)) = view ?cs"
      using dd v by (auto simp: eq apply_event_def deduplicate_def split: if_splits)
  next
    assume a: "\<not> (ev_origin_node_id ev = pr_local_node_id pr \<or>
        ev_absolute_expiry_ms ev > 0 \<and> ev_absolute_expiry_ms ev \<le> now_ms (ck_wall t)) \<and>
      ev_event_type ev = CdcRemove"
    then have "res = Apply" using dd by (auto simp: deduplicate_def split: if_splits)
    then show "view (pr_cache (handle_event E t pe pr)) =
        (if ev_query_key ev = [] then Map.empty else (view ?cs)(hash_query E (ev_query_key ev) := None))"
      using a v clr by (simp add: eq apply_event_def cache_remove_view)
  next
    assume a: "ev_event_type ev = CdcInsert"
    show "served (pr_cache (handle_event E t pe pr)) \<subseteq>\<^sub>m served ?cs \<or>
        (\<exists>r. from_slice E (ev_payload ev) = Some r \<and>
          served (pr_cache (handle_event E t pe pr)) \<subseteq>\<^sub>m
            (served ?cs)(hash_query E (ev_query_key ev) \<mapsto> (r, ev_upstream_id ev)))"
      using a ins by (cases "from_slice E (ev_payload ev)") (auto simp: eq apply_event_def srv)
  qed
qed

text \<open>A cache with two-tier matching that holds two queries receives the removal of one of them.\<close>

definition held :: cache_store where
  "held = cache_insert trivial_env \<lparr>ck_now = 1, ck_wall = 1\<rparr> (lit ''b'') (response_of []) (lit ''u'')
     (cache_insert trivial_env \<lparr>ck_now = 1, ck_wall = 1\<rparr> (lit ''a'') (response_of []) (lit ''u'') (with_normalized_matching True (cache_new 5 5 10)))"

lemma held_ok: "store_ok trivial_env (max 10 1) held"
proof -
  have "store_ok trivial_env (max 10 1) (cache_new 5 5 10)" unfolding cache_new_def by (rule store_ok_new)
  then show ?thesis by (simp add: held_def cache_insert_def sok.insert_impl_P with_normalized_matching_def)
qed

lemma held_view: "view held (hash_query trivial_env (lit ''a'')) \<noteq> None" "view held (hash_query trivial_env (lit ''b'')) \<noteq> None"
proof -
  let ?c = "with_normalized_matching True (cache_new 5 5 10)"
  have room: "roomy (Suc (Suc 0)) n ?c" for n
    by (simp add: roomy_def with_normalized_matching_def cache_new_def cache_with_def queue_len_def queue_capacity_def s3fifo_new_def Let_def)
  let ?i = "insert_impl trivial_env \<lparr>ck_now = 1, ck_wall = 1\<rparr>"
  let ?d = "?i (lit ''a'') (response_of []) (lit ''u'') (lit ''default'') ?c"
  have m: "map_of (cs_entries ?c) h = None" for h by (simp add: with_normalized_matching_def cache_new_def cache_with_def)
  have "roomy (Suc 0) n ?d" for n by (rule roomy_insert [OF room]) (simp add: m)
  then have "view held = (view ?d)(hash_query trivial_env (lit ''b'') \<mapsto>
      fresh_entry trivial_env \<lparr>ck_now = 1, ck_wall = 1\<rparr> (response_of []) (lit ''u'') (Some (lit ''b'')) (lit ''default''))"
    unfolding held_def cache_insert_def by (intro insert_impl_with_room(1) roomy_room)
  moreover have "view ?d (hash_query trivial_env (lit ''a'')) \<noteq> None"
    by (simp add: insert_impl_with_room(1) [OF roomy_room [OF room]])
  ultimately show "view held (hash_query trivial_env (lit ''a'')) \<noteq> None" "view held (hash_query trivial_env (lit ''b'')) \<noteq> None" by auto
qed

theorem peer_handle_event_effect_witness:
  "let cs' = pr_cache (handle_event trivial_env \<lparr>ck_now = 2, ck_wall = 2\<rparr>
         \<lparr>pe_sequence = 1, pe_timestamp_ms = 5, pe_event_type = 2, pe_query_key = lit ''a'', pe_payload = [],
          pe_upstream_id = [], pe_context_id = [], pe_origin_node_id = lit ''peer'', pe_absolute_expiry_ms = 0\<rparr>
         (receiver_new (lit ''me'') held))
   in view held (hash_query trivial_env (lit ''a'')) \<noteq> None \<and> view cs' (hash_query trivial_env (lit ''a'')) = None
      \<and> view cs' (hash_query trivial_env (lit ''b'')) = view held (hash_query trivial_env (lit ''b''))
      \<and> view held (hash_query trivial_env (lit ''b'')) \<noteq> None"
proof -
  have "hash_query trivial_env (lit ''b'') \<noteq> hash_query trivial_env (lit ''a'')"
    by (simp add: hash_query_def normalize_query_def trivial_env_def lit_def trim_def trim_start_def trim_end_def is_whitespace_def
        as_bytes_def utf8_char_def)
  then show ?thesis
    using peer_handle_event_effect [of "\<lparr>pe_sequence = 1, pe_timestamp_ms = 5, pe_event_type = 2,
        pe_query_key = lit ''a'', pe_payload = [], pe_upstream_id = [], pe_context_id = [],
        pe_origin_node_id = lit ''peer'', pe_absolute_expiry_ms = 0\<rparr>"
        "\<lparr>ev_sequence = 1, ev_timestamp_ms = 5, ev_event_type = CdcRemove, ev_query_key = lit ''a'', ev_payload = [],
        ev_upstream_id = [], ev_context_id = [], ev_origin_node_id = lit ''peer'', ev_absolute_expiry_ms = 0\<rparr>"
        trivial_env "max 10 1" "receiver_new (lit ''me'') held" "\<lparr>ck_now = 2, ck_wall = 2\<rparr>"] held_ok held_view
    by (simp add: Let_def proto_to_internal_def from_proto_def receiver_new_def lit_def)
qed

text \<open>Applying a removal of a peer publishes it again under the local node's name: the event that
  the local cache sends has the local node as its origin, so the peer does not take it for an echo
  and applies and publishes it in turn.\<close>

theorem peer_remove_republished:
  assumes "proto_to_internal pe = Some ev" and "ev_event_type ev = CdcRemove" and "ev_query_key ev \<noteq> []"
    and "ev_origin_node_id ev \<noteq> pr_local_node_id pr" and "ev_absolute_expiry_ms ev = 0"
    and "cs_cdc_sender (pr_cache pr) = Some s" and "es_node_id s = pr_local_node_id pr"
  shows "\<exists>s' ev'. cs_cdc_sender (pr_cache (handle_event E t pe pr)) = Some s'
    \<and> es_published s' = es_published s @ [ev'] \<and> ev_query_key ev' = ev_query_key ev
    \<and> ev_event_type ev' = CdcRemove \<and> ev_origin_node_id ev' = pr_local_node_id pr
    \<and> deduplicate E t' ev' (ev_origin_node_id ev) cs2 = (Apply, cs2)"
proof -
  have "deduplicate E t ev (pr_local_node_id pr) (pr_cache pr) = (Apply, pr_cache pr)"
    using assms by (simp add: deduplicate_def)
  then have "pr_cache (handle_event E t pe pr) = cache_remove E t (ev_query_key ev) (pr_cache pr)"
    using assms(2,3) by (simp add: handle_event_eq [OF assms(1)] apply_event_def)
  then show ?thesis using assms remove_published [OF assms(6)]
    by (simp add: sender_send_def builder_remove_def deduplicate_def)
qed

theorem peer_remove_republished_witness:
  "\<exists>s'. cs_cdc_sender (pr_cache (handle_event trivial_env \<lparr>ck_now = 0, ck_wall = 0\<rparr>
     \<lparr>pe_sequence = 1, pe_timestamp_ms = 5, pe_event_type = 2, pe_query_key = [97], pe_payload = [],
      pe_upstream_id = [], pe_context_id = [], pe_origin_node_id = lit ''b'', pe_absolute_expiry_ms = 0\<rparr>
     (receiver_new (lit ''a'') (with_cdc_sender (sender_new (lit ''a'')) (cache_new 5 5 10))))) = Some s'
     \<and> length (es_published s') = 1"
  using peer_remove_republished [of "\<lparr>pe_sequence = 1, pe_timestamp_ms = 5, pe_event_type = 2,
      pe_query_key = [97], pe_payload = [], pe_upstream_id = [], pe_context_id = [],
      pe_origin_node_id = lit ''b'', pe_absolute_expiry_ms = 0\<rparr>"
      "\<lparr>ev_sequence = 1, ev_timestamp_ms = 5, ev_event_type = CdcRemove, ev_query_key = [97], ev_payload = [],
      ev_upstream_id = [], ev_context_id = [], ev_origin_node_id = lit ''b'', ev_absolute_expiry_ms = 0\<rparr>"
      "receiver_new (lit ''a'') (with_cdc_sender (sender_new (lit ''a'')) (cache_new 5 5 10))"
      "sender_new (lit ''a'')" trivial_env "\<lparr>ck_now = 0, ck_wall = 0\<rparr>" "\<lparr>ck_now = 0, ck_wall = 0\<rparr>"
      "cache_new 5 5 10"]
  by (auto simp: proto_to_internal_def from_proto_def receiver_new_def with_cdc_sender_def sender_new_def lit_def)

text \<open>The last-write-wins rule compares the event's timestamp with the time at which the cached
  entry was stored locally, not with the timestamp of the write it came from: once a replicated
  insertion was applied at some wall-clock time, every insertion for the same query that was made
  before that time is dropped as stale, even when it is newer than the one applied.\<close>

theorem peer_lww_compares_arrival_time:
  assumes "cs_per_upstream_limit cs = None" and "cs_max_memory_bytes cs = 0"
    and "queue_len cs < queue_capacity cs" and "\<not> cs_normalized_matching cs"
    and "0 \<le> ck_wall t"
    and "ev_event_type ev2 = CdcInsert" and "ev_query_key ev2 = q"
    and "ev_origin_node_id ev2 \<noteq> node" and "ev_absolute_expiry_ms ev2 = 0"
    and "ev_timestamp_ms ev1 < ev_timestamp_ms ev2" and "ev_timestamp_ms ev2 \<le> now_ms (ck_wall t)"
    and "ev_event_type ev1 = CdcInsert" and "ev_query_key ev1 = q" and "ev_payload ev1 \<noteq> []"
    and "from_slice E (ev_payload ev1) = Some r"
  shows "fst (deduplicate E t' ev2 node (snd (apply_event E t ev1 cs))) = StaleEvent"
proof -
  obtain e c where g: "cache_get E q (cache_insert E t q r (ev_upstream_id ev1) cs) = (Some e, c)"
      and e: "e\<lparr>ce_freq := 0\<rparr> = fresh_entry E t r (ev_upstream_id ev1) (Some q) (lit ''default'')"
    using insert_get_entry(1) [OF room_unlimited [OF assms(1-3)] refl, of E q t r "ev_upstream_id ev1"] assms(4)
    by (metis prod.collapse)
  have "ce_cached_at_wall e = Some (ck_wall t)"
    using arg_cong [OF e, of ce_cached_at_wall] by (simp add: fresh_entry_def)
  then have "local_timestamp_ms e = now_ms (ck_wall t)"
    using assms(5) by (simp add: local_timestamp_ms_def unix_ms_def now_ms_def as_millis_u64_def)
  then show ?thesis using assms g by (simp add: apply_event_def deduplicate_def)
qed

definition echo_env :: env where
  "echo_env = trivial_env\<lparr>from_slice := (\<lambda>_. Some (response_of []))\<rparr>"

definition insert_event :: "u64 \<Rightarrow> cdc_event" where
  "insert_event ts = \<lparr>ev_sequence = 1, ev_timestamp_ms = ts, ev_event_type = CdcInsert, ev_query_key = [97],
     ev_payload = [1], ev_upstream_id = [], ev_context_id = [], ev_origin_node_id = lit ''b'',
     ev_absolute_expiry_ms = 0\<rparr>"

theorem peer_lww_compares_arrival_time_witness:
  "fst (deduplicate echo_env \<lparr>ck_now = 9, ck_wall = 10 ^ 9\<rparr> (insert_event 20) (lit ''a'')
     (snd (apply_event echo_env \<lparr>ck_now = 0, ck_wall = 10 ^ 9\<rparr> (insert_event 10) (cache_new 5 5 10)))) = StaleEvent"
  by (rule peer_lww_compares_arrival_time [where q = "[97]" and r = "response_of []"])
    (simp_all add: cache_new_def cache_with_def queue_len_def queue_capacity_def s3fifo_new_def Let_def
      insert_event_def echo_env_def now_ms_def as_millis_def nanos_per_milli_def lit_def)

text \<open>A peer that waits on a remote fetch: in every reachable state the handle it gets has not been
  notified; the arrival of the insertion, the completion and the remote cancellation notify it and
  let the next check proceed; but a local \<open>cancel_fetch\<close> drops the handle without notifying it,
  and no later operation ever does, so its waiters can only time out.\<close>

theorem single_flight_handles:
  assumes "dc_step\<^sup>*\<^sup>* (coalescer_new s) dc" and "dc_check key dc = Wait n"
  shows "n \<notin> set (dc_notified dc)
    \<and> n \<in> set (dc_notified (on_remote_insert key dc)) \<and> dc_check key (on_remote_insert key dc) = Proceed
    \<and> n \<in> set (dc_notified (on_remote_fetch_cancel key dc)) \<and> dc_check key (on_remote_fetch_cancel key dc) = Proceed
    \<and> n \<in> set (dc_notified (complete_fetch key dc)) \<and> dc_check key (complete_fetch key dc) = Proceed
    \<and> dc_check key (cancel_fetch w key dc) = Proceed
    \<and> (\<forall>dc'. dc_step\<^sup>*\<^sup>* (cancel_fetch w key dc) dc' \<longrightarrow> n \<notin> set (dc_notified dc'))"
proof -
  have ok: "dc_ok dc" by (rule dc_steps_ok [OF assms(1) dc_new_ok])
  obtain st where st: "dc_active_fetches dc key = Some st" "fs_notify st = n"
    using assms(2) by (auto simp: dc_check_def split: option.splits)
  have fresh: "n \<notin> set (dc_notified dc)" and lt: "n < dc_next_notify dc" using ok st by (auto simp: dc_ok_def)
  have uniq: "k = key" if "dc_active_fetches dc k = Some st'" "fs_notify st' = n" for k st'
    using ok st that unfolding dc_ok_def by blast
  have "dc_lost n (cancel_fetch w key dc)"
    using fresh lt uniq by (auto simp: dc_lost_def cancel_fetch_def dc_publish_def)
  then have "\<forall>dc'. dc_step\<^sup>*\<^sup>* (cancel_fetch w key dc) dc' \<longrightarrow> n \<notin> set (dc_notified dc')"
    using dc_steps_lost by (metis dc_lost_def)
  then show ?thesis using fresh st
    by (simp add: on_remote_insert_def on_remote_fetch_cancel_def complete_fetch_def remove_and_notify_def
        dc_check_def cancel_fetch_def dc_publish_def)
qed

theorem single_flight_handles_witness:
  "0 \<in> set (dc_notified (on_remote_insert (lit ''k'')
     (on_remote_fetch_start (lit ''k'') (lit ''b'') (coalescer_new (sender_new (lit ''a''))))))"
proof -
  have "dc_step\<^sup>*\<^sup>* (coalescer_new (sender_new (lit ''a'')))
      (on_remote_fetch_start (lit ''k'') (lit ''b'') (coalescer_new (sender_new (lit ''a''))))"
    by (rule r_into_rtranclp) (rule dc_remote_start)
  from single_flight_handles [OF this, of "lit ''k''" 0 0] show ?thesis
    by (simp add: dc_check_def on_remote_fetch_start_def coalescer_new_def)
qed

end
