(* ===== verification/Retry.thy ===== *)
theory Retry
  imports Prelude
begin

text \<open>
  Retry conditions, policies and the retry loop of \<open>src/src/proxy/retry.rs\<close>. The operation is the
  caller's closure: a function of the attempt number, the clock and its own state. The delay
  before an attempt (\<open>delay_for_attempt\<close>) rests on \<open>f64::powi\<close>, whose rounding Rust leaves open;
  the loop takes it as the parameter \<open>delay\<close>, and uses only that a positive delay is slept.
\<close>

section \<open>Policies and conditions\<close>

record retry_condition =
  on_network_error :: bool
  on_timeout :: bool
  on_server_error :: bool
  on_rate_limited :: bool
  on_status_codes :: "u16 list"

definition retry_condition_default :: retry_condition where
  "retry_condition_default = \<lparr>on_network_error = True, on_timeout = True, on_server_error = True,
     on_rate_limited = True, on_status_codes = []\<rparr>"

definition retry_condition_all :: retry_condition where
  "retry_condition_all = \<lparr>on_network_error = True, on_timeout = True, on_server_error = True,
     on_rate_limited = True, on_status_codes = []\<rparr>"

definition retry_condition_none :: retry_condition where
  "retry_condition_none = \<lparr>on_network_error = False, on_timeout = False, on_server_error = False,
     on_rate_limited = False, on_status_codes = []\<rparr>"

definition should_retry_status :: "retry_condition \<Rightarrow> u16 \<Rightarrow> bool" where
  "should_retry_status c status =
     (if on_server_error c \<and> 500 \<le> status \<and> status < 600 then True
      else if on_rate_limited c \<and> status = 429 then True
      else status \<in> set (on_status_codes c))"

datatype retry_error = Network rstr | Timeout | Status u16 rstr | Other rstr

fun retry_error_is_retryable :: "retry_error \<Rightarrow> retry_condition \<Rightarrow> bool" where
  "retry_error_is_retryable (Network _) c = on_network_error c"
| "retry_error_is_retryable Timeout c = on_timeout c"
| "retry_error_is_retryable (Status code _) c = should_retry_status c code"
| "retry_error_is_retryable (Other _) c = False"

text \<open>The policy's integer part; \<open>backoff_multiplier\<close> and \<open>jitter_factor\<close> only enter the delay.\<close>

record retry_policy =
  max_retries :: u32
  initial_delay :: duration
  max_delay :: duration
  retry_on :: retry_condition

definition retry_policy_default :: retry_policy where
  "retry_policy_default = \<lparr>max_retries = 3, initial_delay = from_millis 100,
     max_delay = from_secs 10, retry_on = retry_condition_default\<rparr>"

definition retry_policy_no_retry :: retry_policy where
  "retry_policy_no_retry = retry_policy_default\<lparr>max_retries := 0\<rparr>"

definition retry_policy_quick :: retry_policy where
  "retry_policy_quick = \<lparr>max_retries = 2, initial_delay = from_millis 50,
     max_delay = from_millis 200, retry_on = retry_condition_default\<rparr>"

definition retry_policy_patient :: retry_policy where
  "retry_policy_patient = \<lparr>max_retries = 5, initial_delay = from_millis 500,
     max_delay = from_secs 30, retry_on = retry_condition_all\<rparr>"

definition should_retry :: "retry_policy \<Rightarrow> u32 \<Rightarrow> bool" where
  "should_retry p attempt \<longleftrightarrow> attempt < max_retries p"

section \<open>The retry loop\<close>

record ('t, 'e) retry_result =
  rr_result :: "'e + 't"
  rr_attempts :: u32
  rr_total_duration :: duration

definition rr_is_success :: "('t, 'e) retry_result \<Rightarrow> bool" where
  "rr_is_success r \<longleftrightarrow> (case rr_result r of Inl _ \<Rightarrow> False | Inr _ \<Rightarrow> True)"

definition rr_retried :: "('t, 'e) retry_result \<Rightarrow> bool" where
  "rr_retried r \<longleftrightarrow> 1 < rr_attempts r"

type_synonym ('s, 't, 'e) operation = "u32 \<Rightarrow> instant \<Rightarrow> 's \<Rightarrow> ('e + 't) \<times> instant \<times> 's"

definition sleep_before :: "(u32 \<Rightarrow> duration) \<Rightarrow> u32 \<Rightarrow> instant \<Rightarrow> instant" where
  "sleep_before delay attempt now = (if 0 < delay attempt then now + delay attempt else now)"

lemma sat_add_one_lt:
  assumes "(a :: 'a::len word) < b"
  shows "unat (sat_add a 1) = Suc (unat a)"
proof -
  have "unat a < unat b" using assms by (simp add: word_less_nat_alt)
  moreover have "unat b < 2 ^ LENGTH('a)" by (rule unat_bound)
  ultimately have "unat a + 1 \<le> 2 ^ LENGTH('a) - 1" by linarith
  then show ?thesis by (simp add: sat_simps)
qed

function retry_loop ::
  "retry_policy \<Rightarrow> (u32 \<Rightarrow> duration) \<Rightarrow> ('e \<Rightarrow> retry_condition \<Rightarrow> bool) \<Rightarrow> ('s, 't, 'e) operation \<Rightarrow>
   instant \<Rightarrow> u32 \<Rightarrow> instant \<Rightarrow> 's \<Rightarrow> ('t, 'e) retry_result \<times> instant \<times> 's" where
  "retry_loop p delay retryable op start attempt now s =
     (case op attempt (sleep_before delay attempt now) s of
        (result, now', s') \<Rightarrow>
          let final = \<lparr>rr_result = result, rr_attempts = sat_add attempt 1,
                       rr_total_duration = elapsed now' start\<rparr>
          in case result of
               Inr _ \<Rightarrow> (final, now', s')
             | Inl e \<Rightarrow>
                 if should_retry p attempt \<and> retryable e (retry_on p)
                 then retry_loop p delay retryable op start (sat_add attempt 1) now' s'
                 else (final, now', s'))"
  by pat_completeness auto

termination
  by (relation "measure (\<lambda>(p, _, _, _, _, attempt, _, _). unat (max_retries p) - unat attempt)")
    (auto simp: should_retry_def sat_add_one_lt word_less_nat_alt)

declare retry_loop.simps [simp del]

definition retry_execute ::
  "retry_policy \<Rightarrow> (u32 \<Rightarrow> duration) \<Rightarrow> ('e \<Rightarrow> retry_condition \<Rightarrow> bool) \<Rightarrow> ('s, 't, 'e) operation \<Rightarrow>
   instant \<Rightarrow> 's \<Rightarrow> ('t, 'e) retry_result \<times> instant \<times> 's" where
  "retry_execute p delay retryable op now s = retry_loop p delay retryable op now 0 now s"

section \<open>What the loop does\<close>

text \<open>An operation whose outcome depends on the attempt only, and that logs its calls.\<close>

definition logged_op :: "(u32 \<Rightarrow> 'e + 't) \<Rightarrow> (u32 list, 't, 'e) operation" where
  "logged_op f attempt now calls = (f attempt, now, calls @ [attempt])"

text \<open>The attempt \<open>k\<close> is the last one: it succeeds, fails for good, or exhausts the policy.\<close>

definition decisive :: "retry_policy \<Rightarrow> ('e \<Rightarrow> retry_condition \<Rightarrow> bool) \<Rightarrow> (u32 \<Rightarrow> 'e + 't) \<Rightarrow> nat \<Rightarrow> bool" where
  "decisive p retryable f k \<longleftrightarrow>
     (case f (of_nat k) of
        Inr _ \<Rightarrow> True
      | Inl e \<Rightarrow> unat (max_retries p) \<le> k \<or> \<not> retryable e (retry_on p))"

lemma of_nat_Suc_sat:
  assumes "Suc k < 2 ^ 32"
  shows "sat_add (of_nat k :: u32) 1 = of_nat (Suc k)" and "unat (of_nat k :: u32) = k"
proof -
  show k: "unat (of_nat k :: u32) = k" using assms by (simp add: unat_of_nat)
  have "unat (of_nat k :: u32) + unat (1 :: u32) < 2 ^ LENGTH(32)"
    using assms k by simp
  then have "sat_add (of_nat k :: u32) 1 = of_nat k + 1" by (simp only: sat_add_def if_True)
  then show "sat_add (of_nat k :: u32) 1 = of_nat (Suc k)" by simp
qed

lemma retry_loop_to_decisive:
  assumes "j \<le> k" and "k \<le> unat (max_retries p)" and "Suc k < 2 ^ 32"
    and "decisive p retryable f k" and "\<forall>i. j \<le> i \<and> i < k \<longrightarrow> \<not> decisive p retryable f i"
  shows "\<exists>now'. fst (retry_loop p delay retryable (logged_op f) start (of_nat j) now calls) =
      \<lparr>rr_result = f (of_nat k), rr_attempts = of_nat (Suc k),
       rr_total_duration = elapsed now' start\<rparr>
    \<and> snd (snd (retry_loop p delay retryable (logged_op f) start (of_nat j) now calls)) =
      calls @ map of_nat [j..<Suc k]"
  using assms(1,5)
proof (induction "k - j" arbitrary: j now calls)
  case 0
  then have j: "j = k" by simp
  have sk: "sat_add (of_nat k :: u32) 1 = of_nat (Suc k)" "unat (of_nat k :: u32) = k"
    using of_nat_Suc_sat [OF assms(3)] by auto
  have "\<not> should_retry p (of_nat k) \<or> (\<forall>e. f (of_nat k) = Inl e \<longrightarrow> \<not> retryable e (retry_on p))
      \<or> (\<exists>v. f (of_nat k) = Inr v)"
    using assms(4) sk(2)
    by (auto simp: decisive_def should_retry_def word_less_nat_alt split: sum.splits)
  then show ?case
    using sk by (subst (1 2) retry_loop.simps)
      (auto simp: j logged_op_def Let_def split: sum.split)
next
  case (Suc n)
  then have jk: "j < k" by simp
  have sj: "sat_add (of_nat j :: u32) 1 = of_nat (Suc j)" "unat (of_nat j :: u32) = j"
    using of_nat_Suc_sat [of j] jk assms(3) by auto
  have nd: "\<not> decisive p retryable f j" using Suc.prems(2) jk by simp
  then obtain e where e: "f (of_nat j) = Inl e" "retryable e (retry_on p)"
    by (auto simp: decisive_def split: sum.splits)
  have sr: "should_retry p (of_nat j)"
    using jk assms(2) sj(2) by (simp add: should_retry_def word_less_nat_alt)
  let ?t = "sleep_before delay (of_nat j) now"
  have unf: "retry_loop p delay retryable (logged_op f) start (of_nat j) now calls =
      retry_loop p delay retryable (logged_op f) start (of_nat (Suc j)) ?t (calls @ [of_nat j])"
    by (subst retry_loop.simps) (simp add: logged_op_def e sr sj del: of_nat_Suc)
  have "n = k - Suc j" "Suc j \<le> k" "\<forall>i. Suc j \<le> i \<and> i < k \<longrightarrow> \<not> decisive p retryable f i"
    using Suc.hyps(2) jk Suc.prems(2) by auto
  from Suc.hyps(1) [OF this, of ?t "calls @ [of_nat j]"]
  show ?case
    using jk by (simp add: unf upt_conv_Cons del: of_nat_Suc)
qed

section \<open>Properties\<close>

lemma retry_execute_first_decisive_cases:
  assumes "k \<le> unat (max_retries p)" and "Suc k < 2 ^ 32"
    and "decisive p retryable f k" and "\<forall>i < k. \<not> decisive p retryable f i"
  shows "rr_result (fst (retry_execute p delay retryable (logged_op f) now [])) = f (of_nat k)"
    and "rr_attempts (fst (retry_execute p delay retryable (logged_op f) now [])) = of_nat (Suc k)"
    and "snd (snd (retry_execute p delay retryable (logged_op f) now [])) = map of_nat [0..<Suc k]"
  using retry_loop_to_decisive [of 0 k p retryable f delay now now "[]"] assms
  by (auto simp: retry_execute_def)

text \<open>C39. The retry loop stops, and stops exactly at the first decisive attempt: the first success,
  the first error the policy does not retry, or the attempt numbered \<open>max_retries\<close>. It returns that
  attempt's outcome, reports the number of attempts made, and calls the operation once per attempt,
  in order.\<close>

theorem retry_execute_first_decisive:
  assumes "k \<le> unat (max_retries p)" and "Suc k < 2 ^ 32"
    and "decisive p retryable f k" and "\<forall>i < k. \<not> decisive p retryable f i"
  shows "let r = retry_execute p delay retryable (logged_op f) now []
    in rr_result (fst r) = f (of_nat k) \<and> rr_attempts (fst r) = of_nat (Suc k)
     \<and> snd (snd r) = map of_nat [0..<Suc k]"
  using retry_execute_first_decisive_cases [OF assms, of delay now] by (simp add: Let_def)

theorem retry_execute_first_decisive_witness:
  "let r = retry_execute retry_policy_default (\<lambda>_. 0) retry_error_is_retryable
       (logged_op (\<lambda>a. if a < 2 then Inl (Status 503 []) else Inr (7 :: nat))) 0 []
   in rr_result (fst r) = Inr 7 \<and> rr_attempts (fst r) = 3 \<and> snd (snd r) = [0, 1, 2]"
proof -
  let ?f = "\<lambda>a :: u32. if a < 2 then Inl (Status 503 []) else Inr (7 :: nat)"
  have d: "decisive retry_policy_default retry_error_is_retryable ?f 2"
    by (simp add: decisive_def)
  have nd: "\<forall>i < 2. \<not> decisive retry_policy_default retry_error_is_retryable ?f i"
    by (auto simp: decisive_def retry_policy_default_def retry_condition_default_def
        should_retry_status_def less_2_cases_iff)
  have k: "2 \<le> unat (max_retries retry_policy_default)" "Suc 2 < 2 ^ 32"
    by (simp_all add: retry_policy_default_def)
  show ?thesis
    using retry_execute_first_decisive [OF k d nd, of "\<lambda>_. 0" 0]
    by (simp add: Let_def upt_rec)
qed

end
