(* ===== verification/Context.thy ===== *)
theory Context
  imports Prelude
begin

text \<open>
  The context manager (\<open>src/src/proxy/context.rs\<close>) and the context-prefixed cache key
  (\<open>context_query\<close> of \<open>src/src/proxy/server/mod.rs\<close>): the active contexts with their metadata,
  counters and policy, creation, switching with eviction of the least recently used, deletion and
  the installation of resolved configurations. The concurrent map is an association list with
  distinct keys; the order in which its iterator visits the entries is the argument \<open>ord\<close>. The
  policy of a context is a type variable: the manager only stores it and hands it out.
\<close>

section \<open>Data\<close>

datatype query_mode = TextNative | VectorOnly | ModeUnknown

definition supports_text :: "query_mode \<Rightarrow> bool" where
  "supports_text m \<longleftrightarrow> m = TextNative \<or> m = ModeUnknown"

definition requires_embedding :: "query_mode \<Rightarrow> bool" where
  "requires_embedding m \<longleftrightarrow> m = VectorOnly"

definition query_mode_from :: "u8 \<Rightarrow> query_mode" where
  "query_mode_from v = (if v = 1 then TextNative else if v = 2 then VectorOnly else ModeUnknown)"

datatype upstream_type = FullTextSearch | VectorDatabase | Hybrid | TypeUnknown

definition is_fts :: "upstream_type \<Rightarrow> bool" where
  "is_fts t \<longleftrightarrow> t = FullTextSearch \<or> t = Hybrid"

definition is_vector_db :: "upstream_type \<Rightarrow> bool" where
  "is_vector_db t \<longleftrightarrow> t = VectorDatabase \<or> t = Hybrid"

definition type_is_known :: "upstream_type \<Rightarrow> bool" where
  "type_is_known t \<longleftrightarrow> t \<noteq> TypeUnknown"

definition upstream_type_from_u8 :: "u8 \<Rightarrow> upstream_type" where
  "upstream_type_from_u8 v =
     (if v = 0 then FullTextSearch else if v = 1 then VectorDatabase
      else if v = 2 then Hybrid else TypeUnknown)"

fun upstream_type_to_u8 :: "upstream_type \<Rightarrow> u8" where
  "upstream_type_to_u8 FullTextSearch = 0"
| "upstream_type_to_u8 VectorDatabase = 1"
| "upstream_type_to_u8 Hybrid = 2"
| "upstream_type_to_u8 TypeUnknown = 3"

fun upstream_type_as_str :: "upstream_type \<Rightarrow> rstr" where
  "upstream_type_as_str FullTextSearch = lit ''fts''"
| "upstream_type_as_str VectorDatabase = lit ''vector_db''"
| "upstream_type_as_str Hybrid = lit ''hybrid''"
| "upstream_type_as_str TypeUnknown = lit ''unknown''"

type_synonym context_id = rstr

record context_metadata =
  cm_id :: context_id
  cm_upstream_url :: rstr
  cm_collection :: rstr
  cm_description :: "rstr option"
  cm_query_mode :: query_mode
  cm_upstream_type :: upstream_type
  cm_created_at :: u64
  cm_last_accessed :: u64
  cm_entry_count :: u64

text \<open>\<open>secs\<close> is the wall clock in seconds since the epoch.\<close>

definition metadata_new :: "u64 \<Rightarrow> rstr \<Rightarrow> rstr \<Rightarrow> rstr \<Rightarrow> context_metadata" where
  "metadata_new secs cid url collection =
     \<lparr>cm_id = cid, cm_upstream_url = url, cm_collection = collection, cm_description = None,
      cm_query_mode = ModeUnknown, cm_upstream_type = TypeUnknown,
      cm_created_at = secs, cm_last_accessed = secs, cm_entry_count = 0\<rparr>"

definition metadata_with_description :: "rstr \<Rightarrow> context_metadata \<Rightarrow> context_metadata" where
  "metadata_with_description d m = m\<lparr>cm_description := Some d\<rparr>"

definition metadata_with_upstream_type :: "upstream_type \<Rightarrow> context_metadata \<Rightarrow> context_metadata" where
  "metadata_with_upstream_type t m = m\<lparr>cm_upstream_type := t\<rparr>"

definition metadata_with_query_mode :: "query_mode \<Rightarrow> context_metadata \<Rightarrow> context_metadata" where
  "metadata_with_query_mode q m = m\<lparr>cm_query_mode := q\<rparr>"

record context_stats =
  xs_hits :: u64
  xs_misses :: u64
  xs_queries :: u64

definition stats_new :: context_stats where
  "stats_new = \<lparr>xs_hits = 0, xs_misses = 0, xs_queries = 0\<rparr>"

definition stats_record_hit :: "context_stats \<Rightarrow> context_stats" where
  "stats_record_hit s = s\<lparr>xs_hits := xs_hits s + 1, xs_queries := xs_queries s + 1\<rparr>"

definition stats_record_miss :: "context_stats \<Rightarrow> context_stats" where
  "stats_record_miss s = s\<lparr>xs_misses := xs_misses s + 1, xs_queries := xs_queries s + 1\<rparr>"

definition stats_reset :: "context_stats \<Rightarrow> context_stats" where
  "stats_reset s = s\<lparr>xs_hits := 0, xs_misses := 0, xs_queries := 0\<rparr>"

record context_config =
  cc_default_context :: context_id
  cc_max_active_contexts :: nat
  cc_auto_create :: bool
  cc_inactive_timeout :: duration

definition context_config_default :: context_config where
  "context_config_default =
     \<lparr>cc_default_context = lit ''default'', cc_max_active_contexts = 10, cc_auto_create = True,
      cc_inactive_timeout = from_secs 3600\<rparr>"

record 'p context_cache =
  cx_metadata :: context_metadata
  cx_stats :: context_stats
  cx_last_access :: instant
  cx_policy :: "'p option"

definition context_cache_new :: "instant \<Rightarrow> context_metadata \<Rightarrow> 'p context_cache" where
  "context_cache_new now m =
     \<lparr>cx_metadata = m, cx_stats = stats_new, cx_last_access = now, cx_policy = None\<rparr>"

definition context_touch :: "instant \<Rightarrow> 'p context_cache \<Rightarrow> 'p context_cache" where
  "context_touch now c = c\<lparr>cx_last_access := now\<rparr>"

record 'p context_manager =
  mg_active :: "(context_id \<times> 'p context_cache) list"
  mg_current :: context_id
  mg_config :: context_config

datatype context_error = NotFound rstr | AlreadyExists rstr | CannotDeleteDefault

section \<open>Operations\<close>

definition get_ctx :: "rstr \<Rightarrow> 'p context_manager \<Rightarrow> 'p context_cache option" where
  "get_ctx cid mg = map_of (mg_active mg) cid"

definition put_ctx :: "rstr \<Rightarrow> 'p context_cache \<Rightarrow> 'p context_manager \<Rightarrow> 'p context_manager" where
  "put_ctx cid c mg = mg\<lparr>mg_active := AList.update cid c (mg_active mg)\<rparr>"

text \<open>\<open>get_mut\<close> followed by a change, when the context is there.\<close>

definition modify_ctx ::
  "rstr \<Rightarrow> ('p context_cache \<Rightarrow> 'p context_cache) \<Rightarrow> 'p context_manager \<Rightarrow> 'p context_manager" where
  "modify_ctx cid f mg = (case get_ctx cid mg of Some c \<Rightarrow> put_ctx cid (f c) mg | None \<Rightarrow> mg)"

definition manager_new :: "instant \<Rightarrow> u64 \<Rightarrow> context_config \<Rightarrow> 'p context_manager" where
  "manager_new now secs cfg =
     \<lparr>mg_active = [(cc_default_context cfg,
                    context_cache_new now (metadata_new secs (cc_default_context cfg) [] []))],
      mg_current = cc_default_context cfg, mg_config = cfg\<rparr>"

definition context_create ::
  "instant \<Rightarrow> u64 \<Rightarrow> rstr \<Rightarrow> rstr \<Rightarrow> rstr \<Rightarrow> 'p context_manager \<Rightarrow>
   (context_error + unit) \<times> 'p context_manager" where
  "context_create now secs cid url collection mg =
     (if get_ctx cid mg \<noteq> None then (Inl (AlreadyExists cid), mg)
      else (Inr (), put_ctx cid (context_cache_new now (metadata_new secs cid url collection)) mg))"

definition evict_candidates ::
  "((context_id \<times> 'p context_cache) list \<Rightarrow> (context_id \<times> 'p context_cache) list) \<Rightarrow>
   'p context_manager \<Rightarrow> (context_id \<times> instant) list" where
  "evict_candidates ord mg =
     sort_key snd
       (map (\<lambda>(cid, c). (cid, cx_last_access c))
         (filter (\<lambda>(cid, _). cid \<noteq> mg_current mg \<and> cid \<noteq> cc_default_context (mg_config mg))
           (ord (mg_active mg))))"

definition maybe_evict ::
  "((context_id \<times> 'p context_cache) list \<Rightarrow> (context_id \<times> 'p context_cache) list) \<Rightarrow>
   'p context_manager \<Rightarrow> 'p context_manager" where
  "maybe_evict ord mg =
     (if length (mg_active mg) \<le> cc_max_active_contexts (mg_config mg) then mg
      else let to_evict = length (mg_active mg) - cc_max_active_contexts (mg_config mg)
           in mg\<lparr>mg_active :=
                fold (\<lambda>(cid, _). AList.delete cid) (take to_evict (evict_candidates ord mg)) (mg_active mg)\<rparr>)"

definition context_switch ::
  "((context_id \<times> 'p context_cache) list \<Rightarrow> (context_id \<times> 'p context_cache) list) \<Rightarrow>
   instant \<Rightarrow> u64 \<Rightarrow> rstr \<Rightarrow> 'p context_manager \<Rightarrow> (context_error + unit) \<times> 'p context_manager" where
  "context_switch ord now secs cid mg =
     (if get_ctx cid mg = None \<and> \<not> cc_auto_create (mg_config mg) then (Inl (NotFound cid), mg)
      else let mg1 = (if get_ctx cid mg = None then snd (context_create now secs cid [] [] mg) else mg);
               mg2 = modify_ctx cid (context_touch now) mg1;
               mg3 = mg2\<lparr>mg_current := cid\<rparr>
           in (Inr (), maybe_evict ord mg3))"

definition context_delete :: "rstr \<Rightarrow> 'p context_manager \<Rightarrow> (context_error + unit) \<times> 'p context_manager" where
  "context_delete cid mg =
     (if cid = cc_default_context (mg_config mg) then (Inl CannotDeleteDefault, mg)
      else if get_ctx cid mg = None then (Inl (NotFound cid), mg)
      else let mg1 = (if mg_current mg = cid then mg\<lparr>mg_current := cc_default_context (mg_config mg)\<rparr> else mg)
           in (Inr (), mg1\<lparr>mg_active := AList.delete cid (mg_active mg1)\<rparr>))"

text \<open>What \<open>install_resolved\<close> reads of a resolved context; the policy is already built.\<close>

record 'p resolved_context =
  rc_id :: rstr
  rc_description :: "rstr option"
  rc_legs :: "(rstr \<times> rstr option) list"
  rc_is_default :: bool
  rc_policy :: 'p

definition resolved_default_id :: "'p resolved_context list \<Rightarrow> rstr" where
  "resolved_default_id rs =
     (case find rc_is_default rs of Some r \<Rightarrow> rc_id r | None \<Rightarrow> lit ''default'')"

definition install_one ::
  "instant \<Rightarrow> u64 \<Rightarrow> 'p resolved_context \<Rightarrow> 'p context_manager \<Rightarrow> 'p context_manager" where
  "install_one now secs r mg =
     (let url = (case rc_legs r of [] \<Rightarrow> [] | l # _ \<Rightarrow> fst l);
          collection = (case rc_legs r of [] \<Rightarrow> [] | l # _ \<Rightarrow> (case snd l of Some i \<Rightarrow> i | None \<Rightarrow> []))
      in case get_ctx (rc_id r) mg of
           Some e \<Rightarrow>
             put_ctx (rc_id r)
               (context_touch now
                 (case rc_description r of
                    Some d \<Rightarrow> e\<lparr>cx_policy := Some (rc_policy r),
                                cx_metadata := (cx_metadata e)\<lparr>cm_description := Some d\<rparr>\<rparr>
                  | None \<Rightarrow> e\<lparr>cx_policy := Some (rc_policy r)\<rparr>)) mg
         | None \<Rightarrow>
             put_ctx (rc_id r)
               ((context_cache_new now
                   ((metadata_new secs (rc_id r) url collection)\<lparr>cm_description := rc_description r\<rparr>))
                 \<lparr>cx_policy := Some (rc_policy r)\<rparr>) mg)"

definition install_resolved ::
  "instant \<Rightarrow> u64 \<Rightarrow> 'p resolved_context list \<Rightarrow> 'p context_manager \<Rightarrow> 'p context_manager" where
  "install_resolved now secs rs mg =
     (let default_id = resolved_default_id rs;
          mg1 = foldl (\<lambda>m r. install_one now secs r m) mg rs
      in if get_ctx default_id mg1 \<noteq> None then mg1\<lparr>mg_current := default_id\<rparr> else mg1)"

definition manager_from_resolved :: "instant \<Rightarrow> u64 \<Rightarrow> 'p resolved_context list \<Rightarrow> 'p context_manager" where
  "manager_from_resolved now secs rs =
     install_resolved now secs rs
       (manager_new now secs (context_config_default\<lparr>cc_default_context := resolved_default_id rs\<rparr>))"

definition policy_for :: "rstr \<Rightarrow> 'p context_manager \<Rightarrow> 'p option" where
  "policy_for cid mg = Option.bind (get_ctx cid mg) cx_policy"

definition get_metadata :: "rstr \<Rightarrow> 'p context_manager \<Rightarrow> context_metadata option" where
  "get_metadata cid mg = map_option cx_metadata (get_ctx cid mg)"

definition record_hit_for :: "rstr \<Rightarrow> 'p context_manager \<Rightarrow> 'p context_manager" where
  "record_hit_for cid mg = modify_ctx cid (\<lambda>c. c\<lparr>cx_stats := stats_record_hit (cx_stats c)\<rparr>) mg"

definition record_miss_for :: "rstr \<Rightarrow> 'p context_manager \<Rightarrow> 'p context_manager" where
  "record_miss_for cid mg = modify_ctx cid (\<lambda>c. c\<lparr>cx_stats := stats_record_miss (cx_stats c)\<rparr>) mg"

definition context_record_hit :: "'p context_manager \<Rightarrow> 'p context_manager" where
  "context_record_hit mg = record_hit_for (mg_current mg) mg"

definition context_record_miss :: "'p context_manager \<Rightarrow> 'p context_manager" where
  "context_record_miss mg = record_miss_for (mg_current mg) mg"

definition reset_all_stats :: "'p context_manager \<Rightarrow> 'p context_manager" where
  "reset_all_stats mg =
     mg\<lparr>mg_active := map (\<lambda>(cid, c). (cid, c\<lparr>cx_stats := stats_reset (cx_stats c)\<rparr>)) (mg_active mg)\<rparr>"

definition update_metadata ::
  "rstr \<Rightarrow> (context_metadata \<Rightarrow> context_metadata) \<Rightarrow> 'p context_manager \<Rightarrow>
   (context_error + unit) \<times> 'p context_manager" where
  "update_metadata cid f mg =
     (case get_ctx cid mg of
        Some c \<Rightarrow> (Inr (), put_ctx cid (c\<lparr>cx_metadata := f (cx_metadata c)\<rparr>) mg)
      | None \<Rightarrow> (Inl (NotFound cid), mg))"

definition set_query_mode ::
  "rstr \<Rightarrow> query_mode \<Rightarrow> 'p context_manager \<Rightarrow> (context_error + unit) \<times> 'p context_manager" where
  "set_query_mode cid mode = update_metadata cid (\<lambda>m. m\<lparr>cm_query_mode := mode\<rparr>)"

definition context_active_count :: "'p context_manager \<Rightarrow> nat" where
  "context_active_count mg = length (mg_active mg)"

text \<open>The cache key of a query in a context, \<open>format!("ctx:{}:{}", context_id, query)\<close>.\<close>

definition context_query :: "rstr \<Rightarrow> rstr \<Rightarrow> rstr" where
  "context_query context_id query = lit ''ctx:'' @ context_id @ lit '':'' @ query"

section \<open>Invariant\<close>

text \<open>The keys are distinct, the default and the current context are active, and every context
  has counted each query as a hit or a miss (counters are 64-bit words, which wrap).\<close>

definition stats_ok :: "context_stats \<Rightarrow> bool" where
  "stats_ok s \<longleftrightarrow> xs_queries s = xs_hits s + xs_misses s"

definition manager_ok :: "'p context_manager \<Rightarrow> bool" where
  "manager_ok mg \<longleftrightarrow>
     distinct (map fst (mg_active mg)) \<and>
     get_ctx (cc_default_context (mg_config mg)) mg \<noteq> None \<and> get_ctx (mg_current mg) mg \<noteq> None \<and>
     (\<forall>cid c. get_ctx cid mg = Some c \<longrightarrow> stats_ok (cx_stats c))"

lemma get_put [simp]: "get_ctx i (put_ctx j c mg) = (if i = j then Some c else get_ctx i mg)"
  by (simp add: get_ctx_def put_ctx_def update_conv')

lemma put_simps [simp]:
  "mg_current (put_ctx j c mg) = mg_current mg" "mg_config (put_ctx j c mg) = mg_config mg"
  "get_ctx i (mg\<lparr>mg_current := k\<rparr>) = get_ctx i mg"
  by (simp_all add: put_ctx_def get_ctx_def)

lemma distinct_put: "distinct (map fst (mg_active mg)) \<Longrightarrow> distinct (map fst (mg_active (put_ctx j c mg)))"
  by (simp add: put_ctx_def distinct_update)

lemma put_ok:
  assumes "manager_ok mg" and "stats_ok (cx_stats c)"
  shows "manager_ok (put_ctx j c mg)"
  using assms by (auto simp: manager_ok_def distinct_put)

lemma modify_simps [simp]:
  "mg_current (modify_ctx j f mg) = mg_current mg" "mg_config (modify_ctx j f mg) = mg_config mg"
  "get_ctx i (modify_ctx j f mg) = (if i = j then map_option f (get_ctx j mg) else get_ctx i mg)"
  by (auto simp: modify_ctx_def split: option.split)

lemma modify_ok:
  assumes "manager_ok mg" and "\<And>c. stats_ok (cx_stats c) \<Longrightarrow> stats_ok (cx_stats (f c))"
  shows "manager_ok (modify_ctx j f mg)"
  using assms
  by (cases "get_ctx j mg") (auto simp: modify_ctx_def intro!: put_ok, auto simp: manager_ok_def)

lemma stats_ok_simps [simp]:
  "stats_ok stats_new" "stats_ok (stats_reset s)"
  "stats_ok s \<Longrightarrow> stats_ok (stats_record_hit s)" "stats_ok s \<Longrightarrow> stats_ok (stats_record_miss s)"
  by (simp_all add: stats_ok_def stats_new_def stats_reset_def stats_record_hit_def stats_record_miss_def)

lemma cx_simps [simp]:
  "cx_stats (context_cache_new now m) = stats_new" "cx_stats (context_touch now c) = cx_stats c"
  "cx_last_access (context_touch now c) = now" "cx_policy (context_touch now c) = cx_policy c"
  "cx_policy (context_cache_new now m) = None"
  by (simp_all add: context_cache_new_def context_touch_def)

subsection \<open>Eviction\<close>

lemma map_of_fold_delete:
  "map_of (fold (\<lambda>(i, _). AList.delete i) es xs) k = (if k \<in> fst ` set es then None else map_of xs k)"
  by (induction es arbitrary: xs) (auto simp: delete_conv')

lemma distinct_fold_delete:
  "distinct (map fst xs) \<Longrightarrow> distinct (map fst (fold (\<lambda>(i, _). AList.delete i) es xs))"
  by (induction es arbitrary: xs) (auto simp: distinct_delete)

lemma keys_delete: "fst ` set (AList.delete i xs) = fst ` set xs - {i}"
  by (induction xs) auto

lemma length_fold_delete:
  assumes "distinct (map fst xs)" and "distinct (map fst es)" and "fst ` set es \<subseteq> fst ` set xs"
  shows "length (fold (\<lambda>(i, _). AList.delete i) es xs) = length xs - length es"
  using assms
proof (induction es arbitrary: xs)
  case (Cons e es)
  obtain i t where e: "e = (i, t)" by (cases e)
  obtain w where w: "map_of xs i = Some w"
    using Cons.prems(1,3) e by (auto dest: map_of_is_SomeI)
  have sub: "fst ` set es \<subseteq> fst ` set (AList.delete i xs)"
    using Cons.prems(2,3) e by (simp add: keys_delete) blast
  have "length (AList.delete i xs) = length xs - 1"
    using length_delete_Some [OF Cons.prems(1) w] by simp
  then show ?case
    using Cons.IH [OF distinct_delete [OF Cons.prems(1)] _ sub] Cons.prems(2) e by simp
qed simp

lemma candidates_props:
  assumes "mset (ord (mg_active mg)) = mset (mg_active mg)" and "distinct (map fst (mg_active mg))"
  shows "distinct (map fst (evict_candidates ord mg))"
    and "set (evict_candidates ord mg) =
      {(cid, cx_last_access c) | cid c. get_ctx cid mg = Some c \<and> cid \<noteq> mg_current mg
         \<and> cid \<noteq> cc_default_context (mg_config mg)}"
    and "sorted (map snd (evict_candidates ord mg))"
proof -
  let ?keep = "\<lambda>(cid, _). cid \<noteq> mg_current mg \<and> cid \<noteq> cc_default_context (mg_config mg)"
  have d: "distinct (map fst (ord (mg_active mg)))"
    using assms by (metis mset_eq_imp_distinct_iff mset_map)
  have "mset (map fst (evict_candidates ord mg)) = mset (map fst (filter ?keep (ord (mg_active mg))))"
    unfolding evict_candidates_def
    by (simp only: mset_map mset_sort image_mset.compositionality) (simp add: comp_def case_prod_beta)
  moreover have "distinct (map fst (filter ?keep (ord (mg_active mg))))"
    using d by (simp add: distinct_map_filter)
  ultimately show "distinct (map fst (evict_candidates ord mg))"
    using mset_eq_imp_distinct_iff by blast
  have st: "set (ord (mg_active mg)) = set (mg_active mg)" using assms(1) by (rule mset_eq_setD)
  have "(cid, c) \<in> set (mg_active mg) \<longleftrightarrow> get_ctx cid mg = Some c" for cid c
    using assms(2) by (simp add: get_ctx_def)
  then show "set (evict_candidates ord mg) =
      {(cid, cx_last_access c) | cid c. get_ctx cid mg = Some c \<and> cid \<noteq> mg_current mg
         \<and> cid \<noteq> cc_default_context (mg_config mg)}"
    by (force simp: evict_candidates_def st)
  show "sorted (map snd (evict_candidates ord mg))"
    by (simp add: evict_candidates_def)
qed

lemma get_maybe_evict:
  "get_ctx i (maybe_evict ord mg) =
     (if cc_max_active_contexts (mg_config mg) < length (mg_active mg)
         \<and> i \<in> fst ` set (take (length (mg_active mg) - cc_max_active_contexts (mg_config mg))
             (evict_candidates ord mg))
      then None else get_ctx i mg)"
  by (auto simp: maybe_evict_def get_ctx_def Let_def map_of_fold_delete)

lemma maybe_evict_simps [simp]:
  "mg_current (maybe_evict ord mg) = mg_current mg" "mg_config (maybe_evict ord mg) = mg_config mg"
  by (simp_all add: maybe_evict_def Let_def)

lemma maybe_evict_keeps:
  assumes "mset (ord (mg_active mg)) = mset (mg_active mg)" and "distinct (map fst (mg_active mg))"
    and "i = mg_current mg \<or> i = cc_default_context (mg_config mg)"
  shows "get_ctx i (maybe_evict ord mg) = get_ctx i mg"
proof -
  have "i \<notin> fst ` set (evict_candidates ord mg)"
    using assms(3) by (auto simp: candidates_props(2) [where ord = ord, OF assms(1,2)])
  then have "i \<notin> fst ` set (take n (evict_candidates ord mg))" for n
    using set_take_subset [of n "evict_candidates ord mg"] by blast
  then show ?thesis by (simp add: get_maybe_evict)
qed

lemma maybe_evict_ok:
  assumes "manager_ok mg" and "mset (ord (mg_active mg)) = mset (mg_active mg)"
  shows "manager_ok (maybe_evict ord mg)"
proof -
  have d: "distinct (map fst (mg_active mg))" using assms(1) by (simp add: manager_ok_def)
  have sub: "get_ctx i (maybe_evict ord mg) = Some c \<Longrightarrow> get_ctx i mg = Some c" for i c
    by (simp add: get_maybe_evict split: if_splits)
  note keep = maybe_evict_keeps [where ord = ord, OF assms(2) d]
  show ?thesis
    unfolding manager_ok_def
  proof (intro conjI allI impI)
    show "distinct (map fst (mg_active (maybe_evict ord mg)))"
      using d by (simp add: maybe_evict_def Let_def distinct_fold_delete)
    show "get_ctx (cc_default_context (mg_config (maybe_evict ord mg))) (maybe_evict ord mg) \<noteq> None"
      "get_ctx (mg_current (maybe_evict ord mg)) (maybe_evict ord mg) \<noteq> None"
      using assms(1) keep by (simp_all add: manager_ok_def)
    show "stats_ok (cx_stats c)" if "get_ctx cid (maybe_evict ord mg) = Some c" for cid c
      using assms(1) sub [OF that] by (simp add: manager_ok_def)
  qed
qed

subsection \<open>Every operation keeps the invariant\<close>

lemma manager_new_ok: "manager_ok (manager_new now secs cfg)"
  by (auto simp: manager_ok_def manager_new_def get_ctx_def)

lemma create_ok:
  assumes "manager_ok mg"
  shows "manager_ok (snd (context_create now secs cid url col mg))"
  using assms by (auto simp: context_create_def intro!: put_ok)

text \<open>The state of \<open>switch\<close> just before it evicts.\<close>

definition switched :: "instant \<Rightarrow> u64 \<Rightarrow> rstr \<Rightarrow> 'p context_manager \<Rightarrow> 'p context_manager" where
  "switched now secs cid mg =
     (modify_ctx cid (context_touch now)
        (if get_ctx cid mg = None then snd (context_create now secs cid [] [] mg) else mg))
     \<lparr>mg_current := cid\<rparr>"

lemma switch_eq:
  assumes "get_ctx cid mg \<noteq> None \<or> cc_auto_create (mg_config mg)"
  shows "context_switch ord now secs cid mg = (Inr (), maybe_evict ord (switched now secs cid mg))"
  using assms by (auto simp: context_switch_def switched_def Let_def)

lemma switched_get:
  "get_ctx cid (switched now secs cid mg) \<noteq> None"
  "i \<noteq> cid \<Longrightarrow> get_ctx i (switched now secs cid mg) = get_ctx i mg"
  "mg_current (switched now secs cid mg) = cid" "mg_config (switched now secs cid mg) = mg_config mg"
  by (auto simp: switched_def context_create_def)

lemma switched_ok:
  assumes "manager_ok mg"
  shows "manager_ok (switched now secs cid mg)"
proof -
  let ?m = "modify_ctx cid (context_touch now)
        (if get_ctx cid mg = None then snd (context_create now secs cid [] [] mg) else mg)"
  have "manager_ok ?m"
    using create_ok [OF assms, of now secs cid "[]" "[]"] assms by (intro modify_ok) simp_all
  moreover have "switched now secs cid mg = ?m\<lparr>mg_current := cid\<rparr>" by (simp add: switched_def)
  ultimately show ?thesis
    using switched_get(1) [of cid now secs mg] by (simp add: manager_ok_def)
qed

lemma switch_ok:
  assumes "manager_ok mg" and "\<And>xs. mset (ord xs) = mset xs"
  shows "manager_ok (snd (context_switch ord now secs cid mg))"
proof (cases "get_ctx cid mg \<noteq> None \<or> cc_auto_create (mg_config mg)")
  case True
  then show ?thesis
    using maybe_evict_ok [where ord = ord, OF switched_ok [OF assms(1)] assms(2)]
    by (simp add: switch_eq)
next
  case False
  then show ?thesis using assms(1) by (simp add: context_switch_def)
qed

lemma get_delete:
  "get_ctx i (mg\<lparr>mg_active := AList.delete j (mg_active mg)\<rparr>) = (if i = j then None else get_ctx i mg)"
  by (simp add: get_ctx_def delete_conv')

lemma delete_ok:
  assumes "manager_ok mg"
  shows "manager_ok (snd (context_delete cid mg))"
proof (cases "cid = cc_default_context (mg_config mg) \<or> get_ctx cid mg = None")
  case False
  let ?mg = "if mg_current mg = cid then mg\<lparr>mg_current := cc_default_context (mg_config mg)\<rparr> else mg"
  have "snd (context_delete cid mg) = ?mg\<lparr>mg_active := AList.delete cid (mg_active ?mg)\<rparr>"
    using False by (auto simp: context_delete_def Let_def)
  then show ?thesis
    using assms False by (auto simp: manager_ok_def get_delete distinct_delete simp del: not_None_eq)
qed (use assms in \<open>auto simp: context_delete_def\<close>)

lemma install_one_ok: "manager_ok mg \<Longrightarrow> manager_ok (install_one now secs r mg)"
  by (auto simp: install_one_def Let_def manager_ok_def [of mg] intro!: put_ok split: option.split)

lemma install_all_ok: "manager_ok mg \<Longrightarrow> manager_ok (foldl (\<lambda>m r. install_one now secs r m) mg rs)"
  by (induction rs arbitrary: mg) (simp_all add: install_one_ok)

lemma install_resolved_ok:
  assumes "manager_ok mg"
  shows "manager_ok (install_resolved now secs rs mg)"
  using install_all_ok [OF assms, of now secs rs]
  by (simp add: install_resolved_def Let_def manager_ok_def)

lemma update_metadata_ok:
  assumes "manager_ok mg"
  shows "manager_ok (snd (update_metadata cid f mg))"
proof (cases "get_ctx cid mg")
  case (Some c)
  then have "stats_ok (cx_stats c)" using assms by (simp add: manager_ok_def)
  then show ?thesis using Some assms by (simp add: update_metadata_def put_ok)
qed (simp add: update_metadata_def assms)

lemma reset_all_ok:
  assumes "manager_ok mg"
  shows "manager_ok (reset_all_stats mg)"
proof -
  have "get_ctx i (reset_all_stats mg) = map_option (\<lambda>c. c\<lparr>cx_stats := stats_reset (cx_stats c)\<rparr>) (get_ctx i mg)"
    for i by (simp add: get_ctx_def reset_all_stats_def map_of_map [unfolded comp_def])
  moreover have "map fst (mg_active (reset_all_stats mg)) = map fst (mg_active mg)"
    "mg_current (reset_all_stats mg) = mg_current mg" "mg_config (reset_all_stats mg) = mg_config mg"
    by (auto simp: reset_all_stats_def)
  ultimately show ?thesis using assms by (auto simp: manager_ok_def)
qed

inductive context_step :: "'p context_manager \<Rightarrow> 'p context_manager \<Rightarrow> bool" where
  step_create: "context_step mg (snd (context_create now secs cid url col mg))"
| step_switch: "(\<And>xs. mset (ord xs) = mset xs) \<Longrightarrow> context_step mg (snd (context_switch ord now secs cid mg))"
| step_delete: "context_step mg (snd (context_delete cid mg))"
| step_install: "context_step mg (install_resolved now secs rs mg)"
| step_hit: "context_step mg (record_hit_for cid mg)"
| step_miss: "context_step mg (record_miss_for cid mg)"
| step_reset: "context_step mg (reset_all_stats mg)"
| step_metadata: "context_step mg (snd (update_metadata cid f mg))"

inductive_cases context_stepE: "context_step mg mg'"

lemma context_step_ok: "context_step mg mg' \<Longrightarrow> manager_ok mg \<Longrightarrow> manager_ok mg'"
  by (induction rule: context_step.induct)
    (simp_all add: create_ok switch_ok delete_ok install_resolved_ok reset_all_ok update_metadata_ok
      record_hit_for_def record_miss_for_def modify_ok)

lemma context_steps_ok: "context_step\<^sup>*\<^sup>* mg mg' \<Longrightarrow> manager_ok mg \<Longrightarrow> manager_ok mg'"
  by (induction rule: rtranclp_induct) (auto intro: context_step_ok)

section \<open>Properties\<close>

text \<open>C11. Whatever sequence of operations is applied to a new manager, its context ids are distinct,
  the default context and the current context are active, and every context has counted each of its
  queries as exactly one hit or miss.\<close>

theorem context_reachable_invariant:
  assumes "context_step\<^sup>*\<^sup>* (manager_new now secs cfg) mg"
  shows "distinct (map fst (mg_active mg))
    \<and> get_ctx (cc_default_context (mg_config mg)) mg \<noteq> None \<and> get_ctx (mg_current mg) mg \<noteq> None
    \<and> (\<forall>cid c. get_ctx cid mg = Some c \<longrightarrow>
         xs_queries (cx_stats c) = xs_hits (cx_stats c) + xs_misses (cx_stats c))"
  using context_steps_ok [OF assms manager_new_ok] unfolding manager_ok_def stats_ok_def by blast

theorem context_reachable_invariant_witness:
  "let mg = record_hit_for (lit ''default'')
       (manager_new 0 0 context_config_default :: nat context_manager)
   in get_ctx (mg_current mg) mg \<noteq> None"
proof -
  have "context_step\<^sup>*\<^sup>* (manager_new 0 0 context_config_default :: nat context_manager)
      (record_hit_for (lit ''default'') (manager_new 0 0 context_config_default))"
    by (rule r_into_rtranclp) (rule step_hit)
  from context_reachable_invariant [OF this] show ?thesis by (simp add: Let_def)
qed

text \<open>The switch either evicts nothing or brings the number of contexts down, and evicts by age.\<close>

lemma evicted_are_oldest:
  assumes "mset (ord (mg_active mg)) = mset (mg_active mg)" and "distinct (map fst (mg_active mg))"
    and "get_ctx e mg = Some ce" and "get_ctx e (maybe_evict ord mg) = None"
    and "get_ctx k (maybe_evict ord mg) = Some ck"
    and "k \<noteq> mg_current mg" and "k \<noteq> cc_default_context (mg_config mg)"
  shows "cx_last_access ce \<le> cx_last_access ck"
proof -
  note cand = candidates_props [where ord = ord, OF assms(1,2)]
  let ?c = "evict_candidates ord mg"
  let ?n = "length (mg_active mg) - cc_max_active_contexts (mg_config mg)"
  have "e \<in> fst ` set (take ?n ?c)" using assms(3,4) by (simp add: get_maybe_evict split: if_splits)
  then obtain te where te: "(e, te) \<in> set (take ?n ?c)" by auto
  then have "(e, te) \<in> set ?c" using set_take_subset by fastforce
  then have tel: "te = cx_last_access ce" using cand(2) assms(3) by auto
  have k: "get_ctx k mg = Some ck" "k \<notin> fst ` set (take ?n ?c)"
    using assms(4,5,3) by (auto simp: get_maybe_evict split: if_splits)
  then have "(k, cx_last_access ck) \<in> set ?c" using cand(2) assms(6,7) by auto
  then have kd: "(k, cx_last_access ck) \<in> set (drop ?n ?c)"
    using k(2) by (metis append_take_drop_id UnE fst_conv image_eqI set_append)
  have "sorted (map snd (take ?n ?c) @ map snd (drop ?n ?c))"
    using cand(3) by (metis append_take_drop_id map_append)
  then show ?thesis using te kd tel by (fastforce simp: sorted_append)
qed

lemma candidates_length:
  assumes "mset (ord (mg_active mg)) = mset (mg_active mg)" and "distinct (map fst (mg_active mg))"
  shows "length (mg_active mg) \<le> length (evict_candidates ord mg) + 2"
proof -
  let ?special = "{mg_current mg, cc_default_context (mg_config mg)}"
  have "set (map fst (mg_active mg)) \<subseteq> set (map fst (evict_candidates ord mg)) \<union> ?special"
  proof
    fix i assume "i \<in> set (map fst (mg_active mg))"
    then obtain c where "get_ctx i mg = Some c"
      using assms(2) by (auto simp: get_ctx_def)
    then show "i \<in> set (map fst (evict_candidates ord mg)) \<union> ?special"
      by (force simp: candidates_props(2) [where ord = ord, OF assms])
  qed
  then have "card (set (map fst (mg_active mg)))
      \<le> card (set (map fst (evict_candidates ord mg)) \<union> ?special)"
    by (intro card_mono) auto
  also have "\<dots> \<le> card (set (map fst (evict_candidates ord mg))) + card ?special"
    by (rule card_Un_le)
  also have "\<dots> \<le> length (evict_candidates ord mg) + 2"
    using card_length [of "map fst (evict_candidates ord mg)"]
    by (intro add_mono) (auto simp: card_insert_if)
  finally show ?thesis using distinct_card [OF assms(2)] by simp
qed

lemma maybe_evict_length:
  assumes "mset (ord (mg_active mg)) = mset (mg_active mg)" and "distinct (map fst (mg_active mg))"
  shows "length (mg_active (maybe_evict ord mg)) \<le> max (cc_max_active_contexts (mg_config mg)) 2"
proof (cases "length (mg_active mg) \<le> cc_max_active_contexts (mg_config mg)")
  case False
  let ?es = "take (length (mg_active mg) - cc_max_active_contexts (mg_config mg)) (evict_candidates ord mg)"
  note cand = candidates_props [where ord = ord, OF assms]
  have "fst ` set ?es \<subseteq> fst ` set (mg_active mg)"
    using set_take_subset [of _ "evict_candidates ord mg"] cand(2)
    by (force simp: get_ctx_def dest: map_of_SomeD)
  moreover have "distinct (map fst ?es)" using cand(1) by (simp add: take_map [symmetric])
  ultimately have "length (mg_active (maybe_evict ord mg)) = length (mg_active mg) - length ?es"
    using False length_fold_delete [OF assms(2), of ?es] by (simp add: maybe_evict_def Let_def)
  then show ?thesis using candidates_length [where ord = ord, OF assms] False by simp
qed (simp add: maybe_evict_def)

text \<open>Switching to a context that exists or may be created makes it the current one and leaves
  at most \<open>max_active_contexts\<close> contexts (two when the limit is smaller: the current and the default
  context always stay); the contexts evicted for that were not used more recently than any other
  context that stays, and no context but the new one appears.\<close>

theorem context_switch_evicts_lru:
  assumes "manager_ok mg" and "\<And>xs. mset (ord xs) = mset xs"
    and "get_ctx cid mg \<noteq> None \<or> cc_auto_create (mg_config mg)"
  shows "let mg' = snd (context_switch ord now secs cid mg)
    in mg_current mg' = cid \<and> get_ctx cid mg' \<noteq> None
     \<and> length (mg_active mg') \<le> max (cc_max_active_contexts (mg_config mg)) 2
     \<and> (\<forall>e ce k ck. e \<noteq> cid \<and> get_ctx e mg = Some ce \<and> get_ctx e mg' = None \<and> get_ctx k mg' = Some ck
          \<and> k \<noteq> cid \<and> k \<noteq> cc_default_context (mg_config mg)
          \<longrightarrow> cx_last_access ce \<le> cx_last_access ck)
     \<and> (\<forall>i. i \<noteq> cid \<longrightarrow> get_ctx i mg' = get_ctx i mg \<or> get_ctx i mg' = None)"
proof -
  let ?s = "switched now secs cid mg"
  have ok: "manager_ok ?s" using assms(1) by (rule switched_ok)
  then have d: "distinct (map fst (mg_active ?s))" by (simp add: manager_ok_def)
  note keep = maybe_evict_keeps [where ord = ord, OF assms(2) d, of cid]
  note len = maybe_evict_length [where ord = ord, OF assms(2) d]
  note old = evicted_are_oldest [where ord = ord, OF assms(2) d]
  show ?thesis
    unfolding switch_eq [OF assms(3)] Let_def snd_conv
  proof (intro conjI allI impI)
    show "mg_current (maybe_evict ord ?s) = cid" by (simp add: switched_get)
    show "get_ctx cid (maybe_evict ord ?s) \<noteq> None" using keep by (simp add: switched_get)
    show "length (mg_active (maybe_evict ord ?s)) \<le> max (cc_max_active_contexts (mg_config mg)) 2"
      using len by (simp add: switched_get)
    show "cx_last_access ce \<le> cx_last_access ck"
      if "e \<noteq> cid \<and> get_ctx e mg = Some ce \<and> get_ctx e (maybe_evict ord ?s) = None
          \<and> get_ctx k (maybe_evict ord ?s) = Some ck \<and> k \<noteq> cid
          \<and> k \<noteq> cc_default_context (mg_config mg)" for e ce k ck
      using that old [of e ce k ck] by (simp add: switched_get)
    show "get_ctx i (maybe_evict ord ?s) = get_ctx i mg \<or> get_ctx i (maybe_evict ord ?s) = None"
      if "i \<noteq> cid" for i
      using that by (simp add: get_maybe_evict switched_get)
  qed
qed

theorem context_switch_evicts_lru_witness:
  "mg_current (snd (context_switch (\<lambda>xs. xs) 5 0 (lit ''a'')
      (manager_new 0 0 context_config_default :: nat context_manager))) = lit ''a''"
proof -
  let ?mg = "manager_new 0 0 context_config_default :: nat context_manager"
  have "get_ctx (lit ''a'') ?mg \<noteq> None \<or> cc_auto_create (mg_config ?mg)"
    by (simp add: manager_new_def context_config_default_def)
  from context_switch_evicts_lru [OF manager_new_ok _ this, of "\<lambda>xs. xs" 5 0]
  show ?thesis by (simp add: Let_def)
qed

lemma split_at_colon:
  "c1 @ x # q1 = c2 @ x # q2 \<Longrightarrow> x \<notin> set c1 \<Longrightarrow> x \<notin> set c2 \<Longrightarrow> c1 = c2 \<and> q1 = q2"
proof (induction c1 arbitrary: c2)
  case Nil
  then show ?case by (cases c2) auto
next
  case (Cons a c1)
  then show ?case by (cases c2) auto
qed

text \<open>The prefix keeps the cache keys of different contexts apart as long as the context ids hold
  no colon: then two keys agree only for the same context and query. With a colon it does not: the
  key of the query \<open>c\<close> in the context \<open>a:b\<close> is the key of the query \<open>b:c\<close> in the context
  \<open>a\<close>, and nothing restricts the ids that a request may name.\<close>

theorem context_query_separates:
  "(58 \<notin> set c1 \<and> 58 \<notin> set c2 \<longrightarrow>
      (context_query c1 q1 = context_query c2 q2 \<longleftrightarrow> c1 = c2 \<and> q1 = q2))
   \<and> context_query (a @ lit '':'' @ b) c = context_query a (b @ lit '':'' @ c)"
proof
  have colon: "lit '':'' = [58]" by (simp add: lit_def)
  show "58 \<notin> set c1 \<and> 58 \<notin> set c2 \<longrightarrow>
      (context_query c1 q1 = context_query c2 q2 \<longleftrightarrow> c1 = c2 \<and> q1 = q2)"
    by (auto simp: context_query_def colon dest: split_at_colon)
qed (simp add: context_query_def)

theorem context_query_separates_witness:
  "context_query (lit ''a'') (lit ''x'') \<noteq> context_query (lit ''b'') (lit ''x'')
   \<and> context_query (lit ''a:b'') (lit ''c'') = context_query (lit ''a'') (lit ''b:c'')"
  using context_query_separates [of "lit ''a''" "lit ''b''" "lit ''x''" "lit ''x''" "lit ''a''" "lit ''b''" "lit ''c''"]
  by (simp add: lit_def)

end
