(* ===== verification/Upstream.thy ===== *)
theory Upstream
  imports Retry Context Floats
begin

text \<open>
  Upstreams as the pool and the cascade see them (\<open>src/src/proxy/upstream.rs\<close>, and the endpoint
  configuration of \<open>src/src/config/mod.rs\<close>): the errors of an upstream query, which of them are retried,
  and the health tracker that decides whether an upstream is online, degraded or offline.
\<close>

section \<open>Errors\<close>

datatype upstream_error =
    UpNetwork rstr | UpStatus u16 rstr | UpParse rstr | UpTimeout | UpNotConfigured
  | UpUnavailable rstr | UpUnsupportedQueryType rstr | UpEmbeddingRequired rstr | UpEmbeddingFailed rstr

fun upstream_is_retryable :: "upstream_error \<Rightarrow> retry_condition \<Rightarrow> bool" where
  "upstream_is_retryable (UpNetwork _) c = on_network_error c"
| "upstream_is_retryable UpTimeout c = on_timeout c"
| "upstream_is_retryable (UpStatus code _) c = should_retry_status c code"
| "upstream_is_retryable (UpParse _) c = False"
| "upstream_is_retryable UpNotConfigured c = False"
| "upstream_is_retryable (UpUnavailable _) c = on_server_error c"
| "upstream_is_retryable (UpUnsupportedQueryType _) c = False"
| "upstream_is_retryable (UpEmbeddingRequired _) c = False"
| "upstream_is_retryable (UpEmbeddingFailed _) c = on_server_error c"

fun upstream_error_display :: "upstream_error \<Rightarrow> rstr" where
  "upstream_error_display (UpNetwork msg) = lit ''Network error: '' @ msg"
| "upstream_error_display (UpStatus code msg) =
     lit ''Upstream error '' @ nat_to_dec (unat code) @ lit '': '' @ msg"
| "upstream_error_display (UpParse msg) = lit ''Parse error: '' @ msg"
| "upstream_error_display UpTimeout = lit ''Request timed out''"
| "upstream_error_display UpNotConfigured = lit ''Upstream not configured''"
| "upstream_error_display (UpUnavailable msg) = lit ''Upstream unavailable: '' @ msg"
| "upstream_error_display (UpUnsupportedQueryType msg) = lit ''Query type not supported: '' @ msg"
| "upstream_error_display (UpEmbeddingRequired msg) = lit ''Embedding required but not available: '' @ msg"
| "upstream_error_display (UpEmbeddingFailed msg) = lit ''Embedding failed: '' @ msg"

fun indicates_text_not_supported :: "upstream_error \<Rightarrow> bool" where
  "indicates_text_not_supported (UpUnsupportedQueryType _) = True"
| "indicates_text_not_supported (UpStatus code msg) \<longleftrightarrow>
     code = 400 \<and> (str_contains msg (lit ''vector'') \<or> str_contains msg (lit ''embedding'')
       \<or> str_contains msg (lit ''dense'') \<or> str_contains msg (lit ''query must be''))"
| "indicates_text_not_supported _ = False"

section \<open>More \<open>f32\<close> arithmetic\<close>

text \<open>Division and comparison; a comparison with NaN is false.\<close>

fun fl_div :: "fl \<Rightarrow> fl \<Rightarrow> fl" where
  "fl_div (Fin x) (Fin y) = (if y = 0 then (if x = 0 then NaN else Inf (x < 0)) else f32_round (x / y))"
| "fl_div NaN _ = NaN"
| "fl_div _ NaN = NaN"
| "fl_div (Inf a) (Inf b) = NaN"
| "fl_div (Inf a) (Fin y) = Inf (a \<noteq> (y < 0))"
| "fl_div (Fin x) (Inf b) = Fin 0"

fun fl_less :: "fl \<Rightarrow> fl \<Rightarrow> bool" where
  "fl_less (Fin x) (Fin y) = (x < y)"
| "fl_less NaN _ = False"
| "fl_less _ NaN = False"
| "fl_less (Inf a) (Inf b) = (a \<and> \<not> b)"
| "fl_less (Inf a) (Fin _) = a"
| "fl_less (Fin _) (Inf b) = (\<not> b)"

definition fl_le :: "fl \<Rightarrow> fl \<Rightarrow> bool" where
  "fl_le x y \<longleftrightarrow> fl_less x y \<or> (x = y \<and> x \<noteq> NaN)"

lemma fl_less_irrefl [simp]: "\<not> fl_less x x"
  by (cases x) auto

lemma fl_less_trans: "fl_less x y \<Longrightarrow> fl_less y z \<Longrightarrow> fl_less x z"
  by (cases x; cases y; cases z) auto

lemma fl_less_total: "x \<noteq> NaN \<Longrightarrow> y \<noteq> NaN \<Longrightarrow> fl_less x y \<or> x = y \<or> fl_less y x"
  by (cases x; cases y) auto

section \<open>Health\<close>

datatype upstream_status = Online | Degraded | Offline

record health_tracker =
  ht_consecutive_failures :: u32
  ht_consecutive_successes :: u32
  ht_is_offline :: u32
  ht_total_requests :: u32
  ht_failed_requests :: u32
  ht_last_success_ms :: u64
  ht_last_failure_ms :: u64
  ht_offline_threshold :: u32
  ht_recovery_threshold :: u32
  ht_degraded_threshold :: fl

definition health_with_thresholds :: "u32 \<Rightarrow> u32 \<Rightarrow> fl \<Rightarrow> health_tracker" where
  "health_with_thresholds off recv deg =
     \<lparr>ht_consecutive_failures = 0, ht_consecutive_successes = 0, ht_is_offline = 0, ht_total_requests = 0,
      ht_failed_requests = 0, ht_last_success_ms = 0, ht_last_failure_ms = 0, ht_offline_threshold = off,
      ht_recovery_threshold = recv, ht_degraded_threshold = deg\<rparr>"

definition health_new :: health_tracker where
  "health_new = health_with_thresholds 3 2 f32_one_tenth"

definition health_record_success :: "u64 \<Rightarrow> health_tracker \<Rightarrow> health_tracker" where
  "health_record_success now_ms h =
     (let successes = sat_add (ht_consecutive_successes h) 1;
          h1 = h\<lparr>ht_consecutive_failures := 0, ht_consecutive_successes := ht_consecutive_successes h + 1,
                 ht_total_requests := ht_total_requests h + 1\<rparr>;
          h2 = (if ht_is_offline h1 = 1 \<and> successes \<ge> ht_recovery_threshold h1
                then h1\<lparr>ht_is_offline := 0\<rparr> else h1)
      in h2\<lparr>ht_last_success_ms := now_ms\<rparr>)"

definition health_record_failure :: "u64 \<Rightarrow> health_tracker \<Rightarrow> health_tracker" where
  "health_record_failure now_ms h =
     (let failures = sat_add (ht_consecutive_failures h) 1;
          h1 = h\<lparr>ht_consecutive_successes := 0, ht_consecutive_failures := ht_consecutive_failures h + 1,
                 ht_total_requests := ht_total_requests h + 1, ht_failed_requests := ht_failed_requests h + 1\<rparr>;
          h2 = (if failures \<ge> ht_offline_threshold h1 then h1\<lparr>ht_is_offline := 1\<rparr> else h1)
      in h2\<lparr>ht_last_failure_ms := now_ms\<rparr>)"

definition health_status :: "health_tracker \<Rightarrow> upstream_status" where
  "health_status h =
     (if ht_is_offline h = 1 then Offline
      else if ht_total_requests h \<ge> 10 \<and> ht_consecutive_failures h = 0
              \<and> fl_less (ht_degraded_threshold h)
                  (fl_div (nat_as_f32 (unat (ht_failed_requests h))) (nat_as_f32 (unat (ht_total_requests h))))
           then Degraded
      else Online)"

definition health_reset_window :: "health_tracker \<Rightarrow> health_tracker" where
  "health_reset_window h = h\<lparr>ht_total_requests := 0, ht_failed_requests := 0\<rparr>"

definition time_since_last_success :: "u64 \<Rightarrow> health_tracker \<Rightarrow> duration option" where
  "time_since_last_success now_ms h =
     (if ht_last_success_ms h = 0 then None
      else if now_ms > ht_last_success_ms h then Some (from_millis (unat (now_ms - ht_last_success_ms h)))
      else Some 0)"

section \<open>Endpoint configuration\<close>

record endpoint_config =
  ec_id :: rstr
  ec_url :: rstr
  ec_timeout_secs :: "u64 option"
  ec_weight :: "u32 option"
  ec_priority :: "u32 option"
  ec_max_concurrent :: "nat option"
  ec_enabled :: "bool option"
  ec_version_endpoint :: "rstr option"
  ec_version_poll_interval_secs :: "u64 option"
  ec_upstream_type :: "rstr option"
  ec_query_mode :: "rstr option"
  ec_table :: "rstr option"
  ec_embedding_column :: "rstr option"
  ec_content_column :: "rstr option"
  ec_metadata_columns :: "rstr list"
  ec_distance_metric :: "rstr option"
  ec_dimensions :: "nat option"
  ec_index :: "rstr option"
  ec_search_fields :: "rstr list"
  ec_return_fields :: "rstr list"
  ec_api_key :: "rstr option"

definition endpoint_timeout_secs :: "endpoint_config \<Rightarrow> u64" where
  "endpoint_timeout_secs c = (case ec_timeout_secs c of Some t \<Rightarrow> t | None \<Rightarrow> 30)"

definition endpoint_weight :: "endpoint_config \<Rightarrow> u32" where
  "endpoint_weight c = (case ec_weight c of Some w \<Rightarrow> w | None \<Rightarrow> 1)"

definition endpoint_priority :: "endpoint_config \<Rightarrow> u32" where
  "endpoint_priority c = (case ec_priority c of Some p \<Rightarrow> p | None \<Rightarrow> 0)"

definition endpoint_enabled :: "endpoint_config \<Rightarrow> bool" where
  "endpoint_enabled c = (case ec_enabled c of Some e \<Rightarrow> e | None \<Rightarrow> True)"

definition version_poll_interval_secs :: "endpoint_config \<Rightarrow> u64" where
  "version_poll_interval_secs c = (case ec_version_poll_interval_secs c of Some t \<Rightarrow> t | None \<Rightarrow> 60)"

definition is_pgvector :: "endpoint_config \<Rightarrow> bool" where
  "is_pgvector c \<longleftrightarrow> ec_upstream_type c = Some (lit ''pgvector'')"

definition is_experimental :: "endpoint_config \<Rightarrow> bool" where
  "is_experimental c \<longleftrightarrow>
     (case ec_upstream_type c of Some t \<Rightarrow> t \<in> {lit ''pinecone'', lit ''milvus''} | None \<Rightarrow> False)"

definition valid_upstream_types :: "rstr list" where
  "valid_upstream_types = [lit ''elasticsearch'', lit ''opensearch'', lit ''qdrant'', lit ''pinecone'',
     lit ''milvus'', lit ''pgvector'', lit ''meilisearch'']"

definition valid_query_modes :: "rstr list" where
  "valid_query_modes = [lit ''text_native'', lit ''vector_only'', lit ''unknown'']"

definition valid_distance_metrics :: "rstr list" where
  "valid_distance_metrics = [lit ''cosine'', lit ''l2'', lit ''inner_product'']"

fun join_str :: "rstr \<Rightarrow> rstr list \<Rightarrow> rstr" where
  "join_str sep [] = []"
| "join_str sep [s] = s"
| "join_str sep (s # t # ts) = s @ sep @ join_str sep (t # ts)"

definition choice_error :: "endpoint_config \<Rightarrow> string \<Rightarrow> rstr \<Rightarrow> rstr list \<Rightarrow> rstr" where
  "choice_error c field value valid =
     lit ''upstream '' @ [39] @ ec_id c @ [39] @ lit '': invalid '' @ lit field @ lit '' '' @ [39] @ value @ [39]
     @ lit '', expected one of: '' @ join_str (lit '', '') valid"

definition endpoint_validate :: "endpoint_config \<Rightarrow> rstr + unit" where
  "endpoint_validate c =
     (let bad = (\<lambda>v valid. case v of Some x \<Rightarrow> x \<notin> set valid | None \<Rightarrow> False)
      in if bad (ec_upstream_type c) valid_upstream_types
         then Inl (choice_error c ''upstream_type'' (the (ec_upstream_type c)) valid_upstream_types)
         else if bad (ec_query_mode c) valid_query_modes
         then Inl (choice_error c ''query_mode'' (the (ec_query_mode c)) valid_query_modes)
         else if is_pgvector c \<and> ec_table c = None
         then Inl (lit ''upstream '' @ [39] @ ec_id c @ [39] @ lit '': pgvector upstream requires '' @ [39]
                   @ lit ''table'' @ [39] @ lit '' field'')
         else if bad (ec_distance_metric c) valid_distance_metrics
         then Inl (choice_error c ''distance_metric'' (the (ec_distance_metric c)) valid_distance_metrics)
         else Inr ())"

section \<open>When an upstream goes offline and comes back\<close>

text \<open>\<open>True\<close> is a success; every outcome comes with the time it is recorded.\<close>

definition health_record :: "u64 \<times> bool \<Rightarrow> health_tracker \<Rightarrow> health_tracker" where
  "health_record e h = (if snd e then health_record_success (fst e) h else health_record_failure (fst e) h)"

definition health_run :: "(u64 \<times> bool) list \<Rightarrow> health_tracker \<Rightarrow> health_tracker" where
  "health_run es h = fold health_record es h"


definition health_thresholds :: "health_tracker \<Rightarrow> u32 \<times> u32" where
  "health_thresholds h = (ht_offline_threshold h, ht_recovery_threshold h)"

lemma health_record_thresholds [simp]: "health_thresholds (health_record e h) = health_thresholds h"
  by (simp add: health_thresholds_def health_record_def health_record_success_def health_record_failure_def Let_def)

lemma health_run_thresholds [simp]: "health_thresholds (health_run es h) = health_thresholds h"
  by (induction es arbitrary: h) (simp_all add: health_run_def)

lemma health_run_append: "health_run (xs @ ys) h = health_run ys (health_run xs h)"
  by (simp add: health_run_def)

lemma offline_flag: "ht_is_offline h \<in> {0, 1} \<Longrightarrow> ht_is_offline (health_run es h) \<in> {0, 1}"
proof (induction es arbitrary: h)
  case (Cons e es)
  have "ht_is_offline (health_record e h) \<in> {0, 1}"
    using Cons.prems by (auto simp: health_record_def health_record_success_def health_record_failure_def Let_def)
  then show ?case using Cons.IH by (simp add: health_run_def)
qed (simp add: health_run_def)

text \<open>A streak of failures or of successes.\<close>

lemma failure_streak:
  assumes "\<forall>e \<in> set es. \<not> snd e"
    and "unat (ht_consecutive_failures h) + length es < 2 ^ 32"
  shows "unat (ht_consecutive_failures (health_run es h)) = unat (ht_consecutive_failures h) + length es
    \<and> (es \<noteq> [] \<longrightarrow> ht_consecutive_successes (health_run es h) = 0)
    \<and> (es \<noteq> [] \<longrightarrow> ht_is_offline (health_run es h) =
         (if unat (ht_offline_threshold h) \<le> unat (ht_consecutive_failures h) + length es then 1
          else ht_is_offline h))"
  using assms
proof (induction es rule: rev_induct)
  case (snoc e es)
  let ?h = "health_run es h"
  have IH: "unat (ht_consecutive_failures ?h) = unat (ht_consecutive_failures h) + length es"
    "es \<noteq> [] \<Longrightarrow> ht_is_offline ?h = (if unat (ht_offline_threshold h) \<le> unat (ht_consecutive_failures h) + length es
       then 1 else ht_is_offline h)" "es = [] \<Longrightarrow> ?h = h"
    using snoc by (simp_all add: health_run_def)
  have th: "ht_offline_threshold ?h = ht_offline_threshold h"
    using health_run_thresholds [of es h] by (simp add: health_thresholds_def)
  have inc: "unat (ht_consecutive_failures ?h + 1) = unat (ht_consecutive_failures h) + length (es @ [e])"
    "unat (sat_add (ht_consecutive_failures ?h) 1) = unat (ht_consecutive_failures h) + length (es @ [e])"
    using snoc.prems(2) IH(1) by (simp_all add: unat_word_ariths unat_sat_add)
  have "health_run (es @ [e]) h = health_record_failure (fst e) ?h"
    using snoc.prems(1) by (simp add: health_run_append) (simp add: health_run_def health_record_def)
  then show ?case
    using inc IH(2,3) th by (cases "es = []") (auto simp: health_record_failure_def Let_def word_le_nat_alt)
qed (simp add: health_run_def)

lemma success_streak:
  assumes "\<forall>e \<in> set es. snd e" and "unat (ht_consecutive_successes h) + length es < 2 ^ 32"
  shows "unat (ht_consecutive_successes (health_run es h)) = unat (ht_consecutive_successes h) + length es
    \<and> (es \<noteq> [] \<longrightarrow> ht_consecutive_failures (health_run es h) = 0)
    \<and> (es \<noteq> [] \<and> ht_is_offline h = 1 \<longrightarrow> ht_is_offline (health_run es h) =
         (if unat (ht_recovery_threshold h) \<le> unat (ht_consecutive_successes h) + length es then 0 else 1))
    \<and> (ht_is_offline h = 0 \<longrightarrow> ht_is_offline (health_run es h) = 0)"
  using assms
proof (induction es rule: rev_induct)
  case (snoc e es)
  let ?h = "health_run es h"
  have IH: "unat (ht_consecutive_successes ?h) = unat (ht_consecutive_successes h) + length es"
    "es \<noteq> [] \<Longrightarrow> ht_is_offline h = 1 \<Longrightarrow> ht_is_offline ?h =
       (if unat (ht_recovery_threshold h) \<le> unat (ht_consecutive_successes h) + length es then 0 else 1)"
    "ht_is_offline h = 0 \<Longrightarrow> ht_is_offline ?h = 0" "es = [] \<Longrightarrow> ?h = h"
    using snoc by (simp_all add: health_run_def)
  have th: "ht_recovery_threshold ?h = ht_recovery_threshold h"
    using health_run_thresholds [of es h] by (simp add: health_thresholds_def)
  have inc: "unat (ht_consecutive_successes ?h + 1) = unat (ht_consecutive_successes h) + length (es @ [e])"
    "unat (sat_add (ht_consecutive_successes ?h) 1) = unat (ht_consecutive_successes h) + length (es @ [e])"
    using snoc.prems(2) IH(1) by (simp_all add: unat_word_ariths unat_sat_add)
  have "health_run (es @ [e]) h = health_record_success (fst e) ?h"
    using snoc.prems(1) by (simp add: health_run_append) (simp add: health_run_def health_record_def)
  then show ?case
    using inc IH(2-4) th by (cases "es = []") (auto simp: health_record_success_def Let_def word_le_nat_alt)
qed (simp add: health_run_def)


text \<open>Going offline and coming back: an upstream that is not offline and has no failure pending goes
  offline with exactly the configured number of consecutive failures, and from then on comes back with
  exactly the configured number of consecutive successes; a streak that is one shorter changes nothing.
  Thresholds below one count as one.\<close>

theorem health_tracker_schedule:
  assumes "ht_consecutive_failures h = 0" and "ht_is_offline h = 0"
    and "\<forall>e \<in> set fs. \<not> snd e" and "fs \<noteq> []" and "length fs < 2 ^ 32"
    and "\<forall>e \<in> set ss. snd e" and "length ss < 2 ^ 32"
  shows "(health_status (health_run fs h) = Offline \<longleftrightarrow> unat (ht_offline_threshold h) \<le> length fs)
    \<and> (unat (ht_offline_threshold h) \<le> length fs \<longrightarrow>
         (health_status (health_run (fs @ ss) h) = Offline \<longleftrightarrow>
            ss = [] \<or> length ss < unat (ht_recovery_threshold h)))"
proof -
  let ?h = "health_run fs h"
  have f: "ht_is_offline ?h = (if unat (ht_offline_threshold h) \<le> length fs then 1 else 0)"
    "ht_consecutive_successes ?h = 0"
    using failure_streak [of fs h] assms by simp_all
  have th: "ht_recovery_threshold ?h = ht_recovery_threshold h"
    using health_run_thresholds [of fs h] by (simp add: health_thresholds_def)
  have offline: "health_status k = Offline \<longleftrightarrow> ht_is_offline k = 1" for k by (simp add: health_status_def)
  have "health_status (health_run ss ?h) = Offline \<longleftrightarrow> ss = [] \<or> length ss < unat (ht_recovery_threshold h)"
    if "unat (ht_offline_threshold h) \<le> length fs"
    using success_streak [of ss ?h] that f assms(6,7) th
    by (cases "ss = []") (auto simp: offline health_run_def)
  then show ?thesis using f(1) by (simp add: offline health_run_append)
qed

theorem health_tracker_schedule_witness:
  "health_status (health_run [(1, False), (2, False), (3, False)] health_new) = Offline
   \<and> health_status (health_run ([(1, False), (2, False), (3, False)] @ [(4, True)]) health_new) = Offline
   \<and> health_status (health_run ([(1, False), (2, False), (3, False)] @ [(4, True), (5, True)]) health_new) \<noteq> Offline"
proof -
  have n: "ht_consecutive_failures health_new = 0" "ht_is_offline health_new = 0"
    "unat (ht_offline_threshold health_new) = 3" "unat (ht_recovery_threshold health_new) = 2"
    by (simp_all add: health_new_def health_with_thresholds_def)
  show ?thesis
    using health_tracker_schedule [OF n(1,2), of "[(1, False), (2, False), (3, False)]" "[(4, True)]"]
      health_tracker_schedule [OF n(1,2), of "[(1, False), (2, False), (3, False)]" "[(4, True), (5, True)]"] n(3,4)
    by simp
qed

end
