(* ===== verification/Metrics.thy ===== *)
theory Metrics
  imports Doubles
begin

text \<open>
  The metrics collector (\<open>src/src/proxy/metrics.rs\<close>): its counters, the latency record with the ring
  buffer of recent latencies and the percentiles computed from it. Counters are atomic 64-bit words
  that wrap; the loops that update the maximum and the minimum by compare-and-swap set them to the
  maximum and the minimum of the old value and the new one. The text formats are not modelled.
\<close>

definition latency_ring_size :: nat where "latency_ring_size = 1000"

record proxy_metrics =
  mt_requests_total :: u64
  mt_cache_hits :: u64
  mt_cache_misses :: u64
  mt_miss_not_in_cache :: u64
  mt_miss_expired :: u64
  mt_miss_upstream_error :: u64
  mt_miss_circuit_open :: u64
  mt_cache_stale :: u64
  mt_cache_frozen :: u64
  mt_coalesced_requests :: u64
  mt_upstream_requests :: u64
  mt_upstream_failures :: u64
  mt_validation_errors :: u64
  mt_latency_sum_us :: u64
  mt_latency_max_us :: u64
  mt_latency_min_us :: u64
  mt_refresh_operations :: u64
  mt_evictions :: u64
  mt_drift_alerts :: u64
  mt_drift_none :: u64
  mt_drift_minor :: u64
  mt_drift_moderate :: u64
  mt_drift_significant :: u64
  mt_drift_major :: u64
  mt_integrity_failures :: u64
  mt_schema_changes :: u64
  mt_cascade_success :: u64
  mt_cascade_exhausted :: u64
  mt_cascade_timeout :: u64
  mt_cascade_depth_sum :: u64
  mt_cascade_depth_count :: u64
  mt_warmup_requests :: u64
  mt_warmup_entries :: u64
  mt_latency_ring :: "u64 list"
  mt_latency_ring_pos :: u64

definition metrics_new :: proxy_metrics where
  "metrics_new = \<lparr>mt_requests_total = 0, mt_cache_hits = 0, mt_cache_misses = 0, mt_miss_not_in_cache = 0,
     mt_miss_expired = 0, mt_miss_upstream_error = 0, mt_miss_circuit_open = 0, mt_cache_stale = 0,
     mt_cache_frozen = 0, mt_coalesced_requests = 0, mt_upstream_requests = 0, mt_upstream_failures = 0,
     mt_validation_errors = 0, mt_latency_sum_us = 0, mt_latency_max_us = 0, mt_latency_min_us = - 1,
     mt_refresh_operations = 0, mt_evictions = 0, mt_drift_alerts = 0, mt_drift_none = 0,
     mt_drift_minor = 0, mt_drift_moderate = 0, mt_drift_significant = 0, mt_drift_major = 0,
     mt_integrity_failures = 0, mt_schema_changes = 0, mt_cascade_success = 0, mt_cascade_exhausted = 0,
     mt_cascade_timeout = 0, mt_cascade_depth_sum = 0, mt_cascade_depth_count = 0, mt_warmup_requests = 0,
     mt_warmup_entries = 0, mt_latency_ring = replicate latency_ring_size 0, mt_latency_ring_pos = 0\<rparr>"

definition record_hit :: "proxy_metrics \<Rightarrow> proxy_metrics" where
  "record_hit m = m\<lparr>mt_requests_total := mt_requests_total m + 1, mt_cache_hits := mt_cache_hits m + 1\<rparr>"

definition record_miss :: "miss_reason \<Rightarrow> proxy_metrics \<Rightarrow> proxy_metrics" where
  "record_miss reason m0 =
     (let m = m0\<lparr>mt_requests_total := mt_requests_total m0 + 1, mt_cache_misses := mt_cache_misses m0 + 1\<rparr>
      in case reason of
           NotInCache \<Rightarrow> m\<lparr>mt_miss_not_in_cache := mt_miss_not_in_cache m + 1\<rparr>
         | MissExpired \<Rightarrow> m\<lparr>mt_miss_expired := mt_miss_expired m + 1\<rparr>
         | UpstreamError \<Rightarrow> m\<lparr>mt_miss_upstream_error := mt_miss_upstream_error m + 1\<rparr>
         | MissCircuitOpen \<Rightarrow> m\<lparr>mt_miss_circuit_open := mt_miss_circuit_open m + 1\<rparr>)"

definition record_stale :: "proxy_metrics \<Rightarrow> proxy_metrics" where
  "record_stale m = m\<lparr>mt_requests_total := mt_requests_total m + 1, mt_cache_stale := mt_cache_stale m + 1\<rparr>"

definition record_frozen :: "proxy_metrics \<Rightarrow> proxy_metrics" where
  "record_frozen m = m\<lparr>mt_requests_total := mt_requests_total m + 1, mt_cache_frozen := mt_cache_frozen m + 1\<rparr>"

definition record_coalesced :: "proxy_metrics \<Rightarrow> proxy_metrics" where
  "record_coalesced m = m\<lparr>mt_coalesced_requests := mt_coalesced_requests m + 1\<rparr>"

definition record_upstream_request :: "proxy_metrics \<Rightarrow> proxy_metrics" where
  "record_upstream_request m = m\<lparr>mt_upstream_requests := mt_upstream_requests m + 1\<rparr>"

definition record_upstream_failure :: "proxy_metrics \<Rightarrow> proxy_metrics" where
  "record_upstream_failure m = m\<lparr>mt_upstream_failures := mt_upstream_failures m + 1\<rparr>"

definition record_validation_error :: "proxy_metrics \<Rightarrow> proxy_metrics" where
  "record_validation_error m = m\<lparr>mt_validation_errors := mt_validation_errors m + 1\<rparr>"

definition as_micros_u64 :: "duration \<Rightarrow> u64" where
  "as_micros_u64 d = of_nat (d div 1000)"

definition record_latency :: "duration \<Rightarrow> proxy_metrics \<Rightarrow> proxy_metrics" where
  "record_latency d m =
     (let us = as_micros_u64 d
      in m\<lparr>mt_latency_sum_us := mt_latency_sum_us m + us,
           mt_latency_max_us := max (mt_latency_max_us m) us,
           mt_latency_min_us := min (mt_latency_min_us m) us,
           mt_latency_ring := (mt_latency_ring m)[unat (mt_latency_ring_pos m) mod latency_ring_size := us],
           mt_latency_ring_pos := mt_latency_ring_pos m + 1\<rparr>)"

definition record_refresh :: "proxy_metrics \<Rightarrow> proxy_metrics" where
  "record_refresh m = m\<lparr>mt_refresh_operations := mt_refresh_operations m + 1\<rparr>"

definition record_eviction :: "proxy_metrics \<Rightarrow> proxy_metrics" where
  "record_eviction m = m\<lparr>mt_evictions := mt_evictions m + 1\<rparr>"

definition record_drift_alert :: "proxy_metrics \<Rightarrow> proxy_metrics" where
  "record_drift_alert m = m\<lparr>mt_drift_alerts := mt_drift_alerts m + 1\<rparr>"

fun record_drift :: "drift_level \<Rightarrow> proxy_metrics \<Rightarrow> proxy_metrics" where
  "record_drift DriftNone m = m\<lparr>mt_drift_none := mt_drift_none m + 1\<rparr>"
| "record_drift Minor m = m\<lparr>mt_drift_minor := mt_drift_minor m + 1\<rparr>"
| "record_drift Moderate m = m\<lparr>mt_drift_moderate := mt_drift_moderate m + 1\<rparr>"
| "record_drift Significant m = m\<lparr>mt_drift_significant := mt_drift_significant m + 1,
     mt_drift_alerts := mt_drift_alerts m + 1\<rparr>"
| "record_drift Major m = m\<lparr>mt_drift_major := mt_drift_major m + 1,
     mt_drift_alerts := mt_drift_alerts m + 1\<rparr>"

definition record_integrity_failure :: "proxy_metrics \<Rightarrow> proxy_metrics" where
  "record_integrity_failure m = m\<lparr>mt_integrity_failures := mt_integrity_failures m + 1\<rparr>"

definition record_schema_change :: "proxy_metrics \<Rightarrow> proxy_metrics" where
  "record_schema_change m = m\<lparr>mt_schema_changes := mt_schema_changes m + 1\<rparr>"

definition record_cascade_success :: "nat \<Rightarrow> proxy_metrics \<Rightarrow> proxy_metrics" where
  "record_cascade_success depth m =
     m\<lparr>mt_cascade_success := mt_cascade_success m + 1, mt_cascade_depth_sum := mt_cascade_depth_sum m + of_nat depth,
       mt_cascade_depth_count := mt_cascade_depth_count m + 1\<rparr>"

definition record_cascade_exhausted :: "proxy_metrics \<Rightarrow> proxy_metrics" where
  "record_cascade_exhausted m = m\<lparr>mt_cascade_exhausted := mt_cascade_exhausted m + 1\<rparr>"

definition record_cascade_timeout :: "proxy_metrics \<Rightarrow> proxy_metrics" where
  "record_cascade_timeout m = m\<lparr>mt_cascade_timeout := mt_cascade_timeout m + 1\<rparr>"

definition record_cascade_depth :: "nat \<Rightarrow> proxy_metrics \<Rightarrow> proxy_metrics" where
  "record_cascade_depth depth m =
     m\<lparr>mt_cascade_depth_sum := mt_cascade_depth_sum m + of_nat depth,
       mt_cascade_depth_count := mt_cascade_depth_count m + 1\<rparr>"

definition record_warmup_request :: "proxy_metrics \<Rightarrow> proxy_metrics" where
  "record_warmup_request m = m\<lparr>mt_warmup_requests := mt_warmup_requests m + 1\<rparr>"

definition record_warmup_entry :: "proxy_metrics \<Rightarrow> proxy_metrics" where
  "record_warmup_entry m = m\<lparr>mt_warmup_entries := mt_warmup_entries m + 1\<rparr>"

definition metrics_reset :: "proxy_metrics \<Rightarrow> proxy_metrics" where
  "metrics_reset m = metrics_new\<lparr>mt_latency_ring := map (\<lambda>_. 0) (mt_latency_ring m)\<rparr>"

record latency_percentiles =
  lp_sample_count :: u64
  lp_p50_us :: u64
  lp_p95_us :: u64
  lp_p99_us :: u64

text \<open>The \<open>f64\<close> literals 0.50, 0.95 and 0.99 are the doubles nearest to them.\<close>

definition percentile_index :: "rat \<Rightarrow> nat \<Rightarrow> nat" where
  "percentile_index p len =
     min (f64_ceil_as_usize (f64_mul (nat_as_f64 len) (f64_round p)) - 1) (len - 1)"

definition sorted_get :: "u64 list \<Rightarrow> nat \<Rightarrow> u64" where
  "sorted_get xs i = (if i < length xs then xs ! i else 0)"

text \<open>The values in microseconds; the code divides them by 1000.0 for display.\<close>

definition latency_percentiles_of :: "proxy_metrics \<Rightarrow> latency_percentiles" where
  "latency_percentiles_of m =
     (let total_written = mt_latency_ring_pos m
      in if total_written = 0
         then \<lparr>lp_sample_count = 0, lp_p50_us = 0, lp_p95_us = 0, lp_p99_us = 0\<rparr>
         else let len = min (unat total_written) latency_ring_size;
                  sorted = sort (take len (mt_latency_ring m))
              in \<lparr>lp_sample_count = total_written,
                  lp_p50_us = sorted_get sorted (percentile_index (1 / 2) len),
                  lp_p95_us = sorted_get sorted (percentile_index (95 / 100) len),
                  lp_p99_us = sorted_get sorted (percentile_index (99 / 100) len)\<rparr>)"

end
