(* ===== verification/ConnPool.thy ===== *)
theory ConnPool
  imports Metrics
begin

text \<open>
  The connection pool of an upstream (\<open>src/src/proxy/connection_pool.rs\<close>). The asynchronous
  \<open>acquire\<close> is split at the points where another task may run: after the first attempt, after the
  request was queued, and when it resumes because it was signalled, because its channel was dropped or
  because it timed out. Dropping a connection first runs the body of \<open>Drop\<close>, which wakes a waiter, and
  releases the permit of the semaphore afterwards, as Rust drops the fields of a value after the body.
  A waiting request is identified by a number, and its sender in the queue is that number with the time
  it was queued. The step relation interleaves these segments for any number of requests.
\<close>

section \<open>State and operations\<close>

record conn_config =
  cn_max_connections :: nat
  cn_max_queue_size :: nat
  cn_queue_timeout_ms :: u64
  cn_idle_timeout_ms :: u64
  cn_fair_queueing :: bool

definition conn_config_default :: conn_config where
  "conn_config_default = \<lparr>cn_max_connections = 100, cn_max_queue_size = 500, cn_queue_timeout_ms = 30000,
     cn_idle_timeout_ms = 90000, cn_fair_queueing = True\<rparr>"

definition conn_config_new :: "nat \<Rightarrow> conn_config" where
  "conn_config_new n = conn_config_default\<lparr>cn_max_connections := n\<rparr>"

definition queue_timeout :: "conn_config \<Rightarrow> duration" where
  "queue_timeout cfg = from_millis (unat (cn_queue_timeout_ms cfg))"

record conn_stats =
  pst_active :: u64
  pst_queued :: u64
  pst_total_requests :: u64
  pst_immediate_permits :: u64
  pst_queued_requests :: u64
  pst_queue_timeouts :: u64
  pst_queue_rejections :: u64
  pst_wait_time_us :: u64
  pst_max_wait_time_us :: u64

definition conn_stats_default :: conn_stats where
  "conn_stats_default = \<lparr>pst_active = 0, pst_queued = 0, pst_total_requests = 0, pst_immediate_permits = 0,
     pst_queued_requests = 0, pst_queue_timeouts = 0, pst_queue_rejections = 0, pst_wait_time_us = 0,
     pst_max_wait_time_us = 0\<rparr>"

definition record_wait_time :: "duration \<Rightarrow> conn_stats \<Rightarrow> conn_stats" where
  "record_wait_time d st =
     (let us = as_micros_u64 d
      in st\<lparr>pst_wait_time_us := pst_wait_time_us st + us,
            pst_max_wait_time_us := (if us > pst_max_wait_time_us st then us else pst_max_wait_time_us st)\<rparr>)"

datatype pool_error = QueueFull | PoolTimeout | PoolShutdown

record conn_pool =
  cp_permits :: nat
  cp_waiting :: "(nat \<times> instant) list"
  cp_config :: conn_config
  cp_stats :: conn_stats

definition conn_pool_new :: "conn_config \<Rightarrow> conn_pool" where
  "conn_pool_new cfg =
     \<lparr>cp_permits = cn_max_connections cfg, cp_waiting = [], cp_config = cfg, cp_stats = conn_stats_default\<rparr>"

definition on_conn_stats :: "(conn_stats \<Rightarrow> conn_stats) \<Rightarrow> conn_pool \<Rightarrow> conn_pool" where
  "on_conn_stats f p = p\<lparr>cp_stats := f (cp_stats p)\<rparr>"

definition has_capacity :: "conn_pool \<Rightarrow> bool" where
  "has_capacity p \<longleftrightarrow> cp_permits p > 0"

text \<open>\<open>Semaphore::try_acquire\<close>.\<close>

definition try_permit :: "conn_pool \<Rightarrow> conn_pool option" where
  "try_permit p = (if cp_permits p > 0 then Some (p\<lparr>cp_permits := cp_permits p - 1\<rparr>) else None)"

text \<open>The segments of \<open>acquire\<close>.\<close>

definition acquire_try :: "conn_pool \<Rightarrow> bool \<times> conn_pool" where
  "acquire_try p =
     (let p1 = on_conn_stats (\<lambda>st. st\<lparr>pst_total_requests := pst_total_requests st + 1\<rparr>) p
      in case try_permit p1 of
           Some p2 \<Rightarrow>
             (True, on_conn_stats (\<lambda>st. st\<lparr>pst_immediate_permits := pst_immediate_permits st + 1,
                                           pst_active := pst_active st + 1\<rparr>) p2)
         | None \<Rightarrow> (False, p1))"

definition acquire_enqueue :: "instant \<Rightarrow> nat \<Rightarrow> conn_pool \<Rightarrow> (pool_error + unit) \<times> conn_pool" where
  "acquire_enqueue now w p =
     (if length (cp_waiting p) \<ge> cn_max_queue_size (cp_config p)
      then (Inl QueueFull, on_conn_stats (\<lambda>st. st\<lparr>pst_queue_rejections := pst_queue_rejections st + 1\<rparr>) p)
      else (Inr (), on_conn_stats (\<lambda>st. st\<lparr>pst_queued := pst_queued st + 1,
                                           pst_queued_requests := pst_queued_requests st + 1\<rparr>)
                      (p\<lparr>cp_waiting := cp_waiting p @ [(w, now)]\<rparr>)))"

definition acquire_signalled :: "instant \<Rightarrow> instant \<Rightarrow> conn_pool \<Rightarrow> (pool_error + unit) \<times> conn_pool" where
  "acquire_signalled now enqueued_at p =
     (let p1 = on_conn_stats (record_wait_time (elapsed now enqueued_at)) p
      in case try_permit p1 of
           Some p2 \<Rightarrow> (Inr (), on_conn_stats (\<lambda>st. st\<lparr>pst_active := pst_active st + 1\<rparr>) p2)
         | None \<Rightarrow>
             (Inl PoolTimeout, on_conn_stats (\<lambda>st. st\<lparr>pst_queue_timeouts := pst_queue_timeouts st + 1\<rparr>) p1))"

definition acquire_closed :: "conn_pool \<Rightarrow> pool_error \<times> conn_pool" where
  "acquire_closed p = (PoolShutdown, on_conn_stats (\<lambda>st. st\<lparr>pst_queued := pst_queued st - 1\<rparr>) p)"

definition acquire_timed_out :: "conn_pool \<Rightarrow> pool_error \<times> conn_pool" where
  "acquire_timed_out p =
     (PoolTimeout, on_conn_stats (\<lambda>st. st\<lparr>pst_queue_timeouts := pst_queue_timeouts st + 1,
                                          pst_queued := pst_queued st - 1\<rparr>) p)"

text \<open>\<open>listening w\<close> says whether the receiver of the waiter still exists.\<close>

fun wake_loop :: "(nat \<Rightarrow> bool) \<Rightarrow> duration \<Rightarrow> instant \<Rightarrow> (nat \<times> instant) list \<Rightarrow> u64 \<Rightarrow>
    nat option \<times> (nat \<times> instant) list \<times> u64" where
  "wake_loop listening timeout now [] queued = (None, [], queued)"
| "wake_loop listening timeout now ((w, enqueued_at) # queue) queued =
     (if elapsed now enqueued_at > timeout then wake_loop listening timeout now queue (queued - 1)
      else if listening w then (Some w, queue, queued - 1)
      else wake_loop listening timeout now queue (queued - 1))"

definition wake_next_waiter :: "(nat \<Rightarrow> bool) \<Rightarrow> instant \<Rightarrow> conn_pool \<Rightarrow> nat option \<times> conn_pool" where
  "wake_next_waiter listening now p =
     (let (w, queue, queued) = wake_loop listening (queue_timeout (cp_config p)) now (cp_waiting p)
                                 (pst_queued (cp_stats p))
      in (w, on_conn_stats (\<lambda>st. st\<lparr>pst_queued := queued\<rparr>) (p\<lparr>cp_waiting := queue\<rparr>)))"

definition conn_drop :: "(nat \<Rightarrow> bool) \<Rightarrow> instant \<Rightarrow> conn_pool \<Rightarrow> nat option \<times> conn_pool" where
  "conn_drop listening now p =
     wake_next_waiter listening now (on_conn_stats (\<lambda>st. st\<lparr>pst_active := pst_active st - 1\<rparr>) p)"

text \<open>The permit is released when the field \<open>_permit\<close> of the connection is dropped.\<close>

definition permit_release :: "conn_pool \<Rightarrow> conn_pool" where
  "permit_release p = p\<lparr>cp_permits := cp_permits p + 1\<rparr>"

definition drain_queue :: "conn_pool \<Rightarrow> nat list \<times> conn_pool" where
  "drain_queue p =
     (map fst (cp_waiting p),
      on_conn_stats (\<lambda>st. st\<lparr>pst_queued := pst_queued st - of_nat (length (cp_waiting p))\<rparr>)
        (p\<lparr>cp_waiting := []\<rparr>))"

section \<open>Interleaving\<close>

datatype conn_task =
    NeedsQueue | Queued instant | Signalled instant | ChannelDropped | Holding | Releasing
  | Ended "pool_error option"

record conn_sys =
  cy_pool :: conn_pool
  cy_tasks :: "conn_task list"

definition conn_listening :: "conn_task list \<Rightarrow> nat \<Rightarrow> bool" where
  "conn_listening ts w \<longleftrightarrow> w < length ts \<and> (\<exists>e. ts ! w = Queued e)"

fun queued_at :: "conn_task \<Rightarrow> instant" where
  "queued_at (Queued e) = e"
| "queued_at _ = 0"

definition signal_task :: "nat option \<Rightarrow> conn_task list \<Rightarrow> conn_task list" where
  "signal_task w ts = (case w of Some j \<Rightarrow> ts[j := Signalled (queued_at (ts ! j))] | None \<Rightarrow> ts)"

fun after_acquire :: "pool_error + unit \<Rightarrow> conn_task" where
  "after_acquire (Inr _) = Holding"
| "after_acquire (Inl e) = Ended (Some e)"

definition close_task :: "nat set \<Rightarrow> nat \<Rightarrow> conn_task \<Rightarrow> conn_task" where
  "close_task W i t = (if i \<in> W \<and> (case t of Queued _ \<Rightarrow> True | _ \<Rightarrow> False) then ChannelDropped else t)"

inductive conn_step :: "conn_sys \<Rightarrow> conn_sys \<Rightarrow> bool" where
  conn_arrive: "acquire_try (cy_pool s) = (got, p) \<Longrightarrow>
     conn_step s \<lparr>cy_pool = p, cy_tasks = cy_tasks s @ [if got then Holding else NeedsQueue]\<rparr>"
| conn_enqueue: "i < length (cy_tasks s) \<Longrightarrow> cy_tasks s ! i = NeedsQueue \<Longrightarrow>
     acquire_enqueue now i (cy_pool s) = (r, p) \<Longrightarrow>
     conn_step s \<lparr>cy_pool = p,
       cy_tasks = (cy_tasks s)[i := (case r of Inr _ \<Rightarrow> Queued now | Inl e \<Rightarrow> Ended (Some e))]\<rparr>"
| conn_timeout: "i < length (cy_tasks s) \<Longrightarrow> cy_tasks s ! i = Queued enq \<Longrightarrow>
     elapsed now enq \<ge> queue_timeout (cp_config (cy_pool s)) \<Longrightarrow> acquire_timed_out (cy_pool s) = (e, p) \<Longrightarrow>
     conn_step s \<lparr>cy_pool = p, cy_tasks = (cy_tasks s)[i := Ended (Some e)]\<rparr>"
| conn_signalled: "i < length (cy_tasks s) \<Longrightarrow> cy_tasks s ! i = Signalled enq \<Longrightarrow>
     acquire_signalled now enq (cy_pool s) = (r, p) \<Longrightarrow>
     conn_step s \<lparr>cy_pool = p, cy_tasks = (cy_tasks s)[i := after_acquire r]\<rparr>"
| conn_closed: "i < length (cy_tasks s) \<Longrightarrow> cy_tasks s ! i = ChannelDropped \<Longrightarrow>
     acquire_closed (cy_pool s) = (e, p) \<Longrightarrow>
     conn_step s \<lparr>cy_pool = p, cy_tasks = (cy_tasks s)[i := Ended (Some e)]\<rparr>"
| conn_dropped: "i < length (cy_tasks s) \<Longrightarrow> cy_tasks s ! i = Holding \<Longrightarrow>
     conn_drop (conn_listening (cy_tasks s)) now (cy_pool s) = (w, p) \<Longrightarrow>
     conn_step s \<lparr>cy_pool = p, cy_tasks = (signal_task w (cy_tasks s))[i := Releasing]\<rparr>"
| conn_released: "i < length (cy_tasks s) \<Longrightarrow> cy_tasks s ! i = Releasing \<Longrightarrow>
     conn_step s \<lparr>cy_pool = permit_release (cy_pool s), cy_tasks = (cy_tasks s)[i := Ended None]\<rparr>"
| conn_cancelled: "i < length (cy_tasks s) \<Longrightarrow>
     cy_tasks s ! i = NeedsQueue \<or> cy_tasks s ! i = Queued enq \<or> cy_tasks s ! i = Signalled enq \<Longrightarrow>
     conn_step s (s\<lparr>cy_tasks := (cy_tasks s)[i := Ended None]\<rparr>)"
| conn_drained: "drain_queue (cy_pool s) = (ws, p) \<Longrightarrow>
     conn_step s \<lparr>cy_pool = p, cy_tasks = map (\<lambda>(i, t). close_task (set ws) i t) (enumerate 0 (cy_tasks s))\<rparr>"

definition conn_start :: "conn_config \<Rightarrow> conn_sys" where
  "conn_start cfg = \<lparr>cy_pool = conn_pool_new cfg, cy_tasks = []\<rparr>"


section \<open>The invariant\<close>

definition count_tasks :: "(conn_task \<Rightarrow> bool) \<Rightarrow> conn_task list \<Rightarrow> nat" where
  "count_tasks P ts = length (filter P ts)"

definition holds_permit :: "conn_task \<Rightarrow> bool" where
  "holds_permit t \<longleftrightarrow> t = Holding \<or> t = Releasing"

definition conn_ok :: "conn_config \<Rightarrow> conn_sys \<Rightarrow> bool" where
  "conn_ok cfg s \<longleftrightarrow>
     cp_config (cy_pool s) = cfg
     \<and> cp_permits (cy_pool s) + count_tasks holds_permit (cy_tasks s) = cn_max_connections cfg
     \<and> length (cp_waiting (cy_pool s)) \<le> cn_max_queue_size cfg
     \<and> pst_active (cp_stats (cy_pool s)) = of_nat (count_tasks (\<lambda>t. t = Holding) (cy_tasks s))"

lemma count_update:
  "i < length ts \<Longrightarrow>
     count_tasks P (ts[i := x]) + (if P (ts ! i) then 1 else 0) = count_tasks P ts + (if P x then 1 else 0)"
proof (induction ts arbitrary: i)
  case (Cons t ts)
  then show ?case by (cases i) (auto simp: count_tasks_def)
qed simp

lemma count_update_same:
  "P x = P (ts ! i) \<Longrightarrow> count_tasks P (ts[i := x]) = count_tasks P ts"
  using count_update [of i ts P x] by (cases "i < length ts") (auto simp: list_update_beyond split: if_splits)

lemma count_append: "count_tasks P (ts @ [x]) = count_tasks P ts + (if P x then 1 else 0)"
  by (simp add: count_tasks_def)

lemma count_map_enumerate:
  "(\<And>i t. P (f i t) = P t) \<Longrightarrow> count_tasks P (map (\<lambda>(i, t). f i t) (enumerate n ts)) = count_tasks P ts"
  by (induction ts arbitrary: n) (simp_all add: count_tasks_def)

lemma stats_frame [simp]:
  "cp_config (on_conn_stats f p) = cp_config p" "cp_permits (on_conn_stats f p) = cp_permits p"
  "cp_waiting (on_conn_stats f p) = cp_waiting p" "cp_stats (on_conn_stats f p) = f (cp_stats p)"
  by (simp_all add: on_conn_stats_def)

lemma record_wait_active [simp]: "pst_active (record_wait_time d st) = pst_active st"
  by (simp add: record_wait_time_def Let_def)

text \<open>The first waiter of the queue that has neither waited too long nor gone is signalled; what stood
  before it is removed with it.\<close>

lemma wake_loop_spec:
  "wake_loop l timeout now q k =
     (let rest = dropWhile (\<lambda>(w, e). elapsed now e > timeout \<or> \<not> l w) q
      in (case rest of [] \<Rightarrow> None | (w, _) # _ \<Rightarrow> Some w, tl rest, k - of_nat (length q - length (tl rest))))"
proof (induction q arbitrary: k)
  case (Cons x q)
  obtain w e where x: "x = (w, e)" by (cases x)
  let ?P = "\<lambda>(w, e). elapsed now e > timeout \<or> \<not> l w"
  have "length (tl (dropWhile ?P q)) \<le> length q" using length_dropWhile_le [of ?P q] by simp
  then have "k - 1 - of_nat (length q - length (tl (dropWhile ?P q))) =
      k - of_nat (Suc (length q) - length (tl (dropWhile ?P q)))"
    by (simp add: Suc_diff_le)
  then show ?case
    using Cons.IH [of "k - 1"] by (simp add: x Let_def)
qed simp

lemma wake_loop_queue: "wake_loop l timeout now q k = (w, q', k') \<Longrightarrow> length q' \<le> length q"
  using length_dropWhile_le [of "\<lambda>(w, e). elapsed now e > timeout \<or> \<not> l w" q]
  by (auto simp: wake_loop_spec Let_def)

lemma wake_loop_listens: "wake_loop l timeout now q k = (Some w, q', k') \<Longrightarrow> l w"
  by (induction q arbitrary: k) (auto split: if_splits)

lemma conn_drop_frame:
  assumes "conn_drop l now p = (w, p')"
  shows "cp_config p' = cp_config p" "cp_permits p' = cp_permits p" "length (cp_waiting p') \<le> length (cp_waiting p)"
    "pst_active (cp_stats p') = pst_active (cp_stats p) - 1" "\<And>j. w = Some j \<Longrightarrow> l j"
  using assms
  by (auto simp: conn_drop_def wake_next_waiter_def Let_def split: prod.splits
      dest: wake_loop_queue wake_loop_listens)

lemma count_signal:
  assumes "\<And>j. w = Some j \<Longrightarrow> conn_listening ts j" and "\<And>e. \<not> P (Queued e)" and "\<And>e. \<not> P (Signalled e)"
  shows "count_tasks P (signal_task w ts) = count_tasks P ts"
proof (cases w)
  case (Some j)
  then obtain e where "ts ! j = Queued e" using assms(1) by (auto simp: conn_listening_def)
  then show ?thesis using Some assms(2,3) by (simp add: signal_task_def count_update_same)
qed (simp add: signal_task_def)

lemma signal_keeps:
  assumes "\<And>j. w = Some j \<Longrightarrow> conn_listening ts j" and "\<And>e. ts ! i \<noteq> Queued e"
  shows "signal_task w ts ! i = ts ! i" "length (signal_task w ts) = length ts"
proof -
  have "i \<noteq> j" if "w = Some j" for j using assms(1) [OF that] assms(2) by (auto simp: conn_listening_def)
  then show "signal_task w ts ! i = ts ! i" "length (signal_task w ts) = length ts"
    by (auto simp: signal_task_def split: option.splits)
qed

lemma conn_step_ok: "conn_step s s' \<Longrightarrow> conn_ok cfg s \<Longrightarrow> conn_ok cfg s'"
proof (induction rule: conn_step.induct)
  case (conn_arrive s got p)
  then show ?case
    by (auto simp: acquire_try_def try_permit_def conn_ok_def Let_def count_append holds_permit_def split: if_splits)
next
  case (conn_enqueue i s now r p)
  then show ?case
    by (auto simp: acquire_enqueue_def conn_ok_def holds_permit_def count_update_same split: if_splits)
next
  case (conn_timeout i s enq now e p)
  then show ?case by (auto simp: acquire_timed_out_def conn_ok_def holds_permit_def count_update_same)
next
  case (conn_signalled i s enq now r p)
  then show ?case
    using count_update [of i "cy_tasks s" holds_permit Holding] count_update [of i "cy_tasks s" "\<lambda>t. t = Holding" Holding]
    by (auto simp: acquire_signalled_def try_permit_def conn_ok_def Let_def holds_permit_def count_update_same
        split: if_splits)
next
  case (conn_closed i s e p)
  then show ?case by (auto simp: acquire_closed_def conn_ok_def holds_permit_def count_update_same)
next
  case (conn_dropped i s now w p)
  note d = conn_drop_frame [OF conn_dropped.hyps(3)]
  let ?ts = "signal_task w (cy_tasks s)"
  have i: "?ts ! i = Holding" "i < length ?ts"
    using signal_keeps [of w "cy_tasks s" i, OF d(5)] conn_dropped.hyps by auto
  have c: "count_tasks holds_permit ?ts = count_tasks holds_permit (cy_tasks s)"
    "count_tasks (\<lambda>t. t = Holding) ?ts = count_tasks (\<lambda>t. t = Holding) (cy_tasks s)"
    by (rule count_signal [OF d(5)]; simp add: holds_permit_def)+
  have minus: "of_nat b - 1 = (of_nat a :: u64)" if "Suc a = b" for a b by (simp flip: that)
  show ?case
    using conn_dropped.prems d(1-4) c i count_update [of i ?ts holds_permit Releasing]
      count_update [of i ?ts "\<lambda>t. t = Holding" Releasing]
    by (auto simp: conn_ok_def holds_permit_def intro: minus)
next
  case (conn_released i s)
  then show ?case
    using count_update [of i "cy_tasks s" holds_permit "Ended None"]
    by (auto simp: conn_ok_def permit_release_def holds_permit_def count_update_same)
next
  case (conn_cancelled i s enq)
  then show ?case by (auto simp: conn_ok_def holds_permit_def count_update_same)
next
  case (conn_drained s ws p)
  have "holds_permit (close_task W i t) = holds_permit t" "(close_task W i t = Holding) = (t = Holding)" for W i t
    by (auto simp: close_task_def holds_permit_def split: conn_task.splits)
  then show ?case using conn_drained by (auto simp: drain_queue_def conn_ok_def count_map_enumerate)
qed

lemma conn_steps_ok: "conn_step\<^sup>*\<^sup>* s s' \<Longrightarrow> conn_ok cfg s \<Longrightarrow> conn_ok cfg s'"
  by (induction rule: rtranclp_induct) (auto intro: conn_step_ok)

lemma conn_start_ok: "conn_ok cfg (conn_start cfg)"
  by (simp add: conn_ok_def conn_start_def conn_pool_new_def conn_stats_default_def count_tasks_def)


section \<open>Properties\<close>

text \<open>C24. The concurrency limit of an upstream: whatever the interleaving of arrivals, timeouts,
  cancellations, releases and drains, at most \<open>max_connections\<close> requests hold a permit, every permit
  that is not free is held, the queue never grows past its bound, and the counter of active connections
  is exact.\<close>

theorem connection_limit:
  assumes "conn_step\<^sup>*\<^sup>* (conn_start cfg) s"
  shows "count_tasks holds_permit (cy_tasks s) \<le> cn_max_connections cfg
    \<and> cp_permits (cy_pool s) = cn_max_connections cfg - count_tasks holds_permit (cy_tasks s)
    \<and> length (cp_waiting (cy_pool s)) \<le> cn_max_queue_size cfg
    \<and> pst_active (cp_stats (cy_pool s)) = of_nat (count_tasks (\<lambda>t. t = Holding) (cy_tasks s))"
  using conn_steps_ok [OF assms conn_start_ok] by (auto simp: conn_ok_def)

text \<open>Waking is fair: releasing a connection signals the request that has waited longest among those
  that neither exceeded the queue timeout nor went away, and removes exactly that request and the dead
  ones before it from the queue.\<close>

theorem wake_next_waiter_fifo:
  assumes "wake_next_waiter l now p = (w, p')"
  shows "let gone = (\<lambda>(w, e). elapsed now e > queue_timeout (cp_config p) \<or> \<not> l w)
    in (case w of
          None \<Rightarrow> (\<forall>x \<in> set (cp_waiting p). gone x) \<and> cp_waiting p' = []
        | Some j \<Rightarrow> \<exists>dead e. cp_waiting p = dead @ (j, e) # cp_waiting p' \<and> (\<forall>x \<in> set dead. gone x)
                      \<and> \<not> gone (j, e))
      \<and> pst_queued (cp_stats p') =
          pst_queued (cp_stats p) - of_nat (length (cp_waiting p) - length (cp_waiting p'))"
proof -
  let ?gone = "\<lambda>(w, e). elapsed now e > queue_timeout (cp_config p) \<or> \<not> l w"
  let ?rest = "dropWhile ?gone (cp_waiting p)"
  have w: "w = (case ?rest of [] \<Rightarrow> None | (w, _) # _ \<Rightarrow> Some w)" and q: "cp_waiting p' = tl ?rest"
    and k: "pst_queued (cp_stats p') = pst_queued (cp_stats p) - of_nat (length (cp_waiting p) - length (tl ?rest))"
    using assms by (auto simp: wake_next_waiter_def wake_loop_spec Let_def)
  have split: "cp_waiting p = takeWhile ?gone (cp_waiting p) @ ?rest" by simp
  show ?thesis
  proof (cases ?rest)
    case Nil
    then have "\<forall>x \<in> set (cp_waiting p). ?gone x" unfolding dropWhile_eq_Nil_conv .
    then show ?thesis using w q k unfolding Nil Let_def by simp
  next
    case (Cons x xs)
    obtain j e where x: "x = (j, e)" by (cases x)
    have "\<not> ?gone (j, e)" using hd_dropWhile [of ?gone "cp_waiting p"] Cons x by simp
    moreover have "\<forall>x \<in> set (takeWhile ?gone (cp_waiting p)). ?gone x" using set_takeWhileD by fast
    ultimately show ?thesis using w q k split Cons x by (auto simp: Let_def intro!: exI [of _ "takeWhile ?gone (cp_waiting p)"])
  qed
qed


text \<open>The runs of one connection with a queue timeout of a millisecond.\<close>

definition tiny_pool :: conn_config where
  "tiny_pool = (conn_config_new 1)\<lparr>cn_queue_timeout_ms := 1\<rparr>"

lemma tiny_timeout: "queue_timeout tiny_pool = 1000000"
  by (simp add: tiny_pool_def queue_timeout_def conn_config_new_def from_millis_def nanos_per_milli_def)

lemmas run_simps = acquire_try_def try_permit_def acquire_enqueue_def acquire_timed_out_def acquire_signalled_def
  conn_drop_def wake_next_waiter_def permit_release_def on_conn_stats_def record_wait_time_def
  conn_listening_def signal_task_def conn_pool_new_def conn_stats_default_def Let_def elapsed_def

definition busy_stats :: conn_stats where
  "busy_stats = conn_stats_default\<lparr>pst_active := 1, pst_total_requests := 2, pst_immediate_permits := 1\<rparr>"

text \<open>One request holds the connection, a second has found none.\<close>

definition two_requests :: conn_sys where
  "two_requests = \<lparr>cy_pool = \<lparr>cp_permits = 0, cp_waiting = [], cp_config = tiny_pool, cp_stats = busy_stats\<rparr>,
     cy_tasks = [Holding, NeedsQueue]\<rparr>"

lemma two_requests_reachable: "conn_step\<^sup>*\<^sup>* (conn_start tiny_pool) two_requests"
proof -
  let ?p1 = "\<lparr>cp_permits = 0, cp_waiting = [], cp_config = tiny_pool,
      cp_stats = conn_stats_default\<lparr>pst_active := 1, pst_total_requests := 1, pst_immediate_permits := 1\<rparr>\<rparr>"
  have "acquire_try (cy_pool (conn_start tiny_pool)) = (True, ?p1)"
    by (simp add: run_simps conn_start_def tiny_pool_def conn_config_new_def)
  from conn_arrive [OF this] have a: "conn_step (conn_start tiny_pool) \<lparr>cy_pool = ?p1, cy_tasks = [Holding]\<rparr>"
    by (simp add: conn_start_def)
  have "acquire_try ?p1 = (False, cy_pool two_requests)"
    by (simp add: run_simps two_requests_def busy_stats_def)
  from conn_arrive [of "\<lparr>cy_pool = ?p1, cy_tasks = [Holding]\<rparr>", simplified, OF this]
  have "conn_step \<lparr>cy_pool = ?p1, cy_tasks = [Holding]\<rparr> two_requests" by (simp add: two_requests_def)
  with a show ?thesis by (meson converse_rtranclp_into_rtranclp r_into_rtranclp)
qed

definition queued_pool :: conn_pool where
  "queued_pool = \<lparr>cp_permits = 0, cp_waiting = [(1, 0)], cp_config = tiny_pool,
     cp_stats = busy_stats\<lparr>pst_queued := 1, pst_queued_requests := 1\<rparr>\<rparr>"

lemma second_queues: "conn_step two_requests \<lparr>cy_pool = queued_pool, cy_tasks = [Holding, Queued 0]\<rparr>"
proof -
  have "acquire_enqueue 0 1 (cy_pool two_requests) = (Inr (), queued_pool)"
    by (simp add: run_simps two_requests_def queued_pool_def tiny_pool_def conn_config_new_def
        conn_config_default_def busy_stats_def)
  from conn_enqueue [OF _ _ this] show ?thesis by (simp add: two_requests_def)
qed

lemma steps_trans: "conn_step\<^sup>*\<^sup>* a b \<Longrightarrow> conn_step b c \<Longrightarrow> conn_step\<^sup>*\<^sup>* a c"
  by (rule rtranclp.rtrancl_into_rtrancl)

text \<open>Three races of the pool, each reached by a run with a single connection: a request that timed
  out in the queue is counted out twice, so that the queue depth wraps around to \<open>2 ^ 64 - 1\<close> while
  nothing is queued; a request that was signalled resumes before the releasing task has returned its
  permit and is refused with a timeout although it did not wait for the timeout; and a request that is
  queued just after the last connection was released waits although the connection is free and nobody is
  left to wake it.\<close>

theorem conn_pool_races:
  "(\<exists>s. conn_step\<^sup>*\<^sup>* (conn_start tiny_pool) s \<and> cp_waiting (cy_pool s) = []
      \<and> unat (pst_queued (cp_stats (cy_pool s))) = 2 ^ 64 - 1)
   \<and> (\<exists>s now. conn_step\<^sup>*\<^sup>* (conn_start tiny_pool) s \<and> cy_tasks s = [Releasing, Signalled 0]
      \<and> elapsed now 0 < queue_timeout tiny_pool
      \<and> fst (acquire_signalled now 0 (cy_pool s)) = Inl PoolTimeout)
   \<and> (\<exists>s. conn_step\<^sup>*\<^sup>* (conn_start tiny_pool) s \<and> cy_tasks s = [Ended None, Queued 7]
      \<and> cp_permits (cy_pool s) = cn_max_connections tiny_pool)"
proof (intro conjI)
  let ?q = "\<lparr>cy_pool = queued_pool, cy_tasks = [Holding, Queued 0]\<rparr>"
  have q: "conn_step\<^sup>*\<^sup>* (conn_start tiny_pool) ?q"
    by (rule steps_trans [OF two_requests_reachable second_queues])
  show "\<exists>s. conn_step\<^sup>*\<^sup>* (conn_start tiny_pool) s \<and> cp_waiting (cy_pool s) = []
      \<and> unat (pst_queued (cp_stats (cy_pool s))) = 2 ^ 64 - 1"
  proof -
    let ?p = "snd (acquire_timed_out queued_pool)"
    have "acquire_timed_out (cy_pool ?q) = (PoolTimeout, ?p)" by (simp add: acquire_timed_out_def)
    from conn_timeout [OF _ _ _ this, of 1 0 1000000]
    have "conn_step ?q \<lparr>cy_pool = ?p, cy_tasks = [Holding, Ended (Some PoolTimeout)]\<rparr>"
      using tiny_timeout by (simp add: queued_pool_def elapsed_def)
    note r = steps_trans [OF q this]
    let ?d = "conn_drop (conn_listening [Holding, Ended (Some PoolTimeout)]) 1000000 ?p"
    have d: "snd ?d = \<lparr>cp_permits = 0, cp_waiting = [], cp_config = tiny_pool,
        cp_stats = conn_stats_default\<lparr>pst_active := 0, pst_total_requests := 2, pst_immediate_permits := 1,
          pst_queued := - 1, pst_queued_requests := 1, pst_queue_timeouts := 1\<rparr>\<rparr>" "fst ?d = None"
      by (simp_all add: run_simps queued_pool_def busy_stats_def tiny_timeout)
    have "conn_step \<lparr>cy_pool = ?p, cy_tasks = [Holding, Ended (Some PoolTimeout)]\<rparr>
        \<lparr>cy_pool = snd ?d, cy_tasks = [Releasing, Ended (Some PoolTimeout)]\<rparr>"
      using conn_dropped [of 0 "\<lparr>cy_pool = ?p, cy_tasks = [Holding, Ended (Some PoolTimeout)]\<rparr>" 1000000 "fst ?d" "snd ?d"]
      by (simp add: d(2) signal_task_def prod_eq_iff)
    from steps_trans [OF r this] show ?thesis by (intro exI conjI, assumption) (simp_all add: d(1) unsigned_minus_1_eq_mask mask_eq_exp_minus_1)
  qed
  show "\<exists>s now. conn_step\<^sup>*\<^sup>* (conn_start tiny_pool) s \<and> cy_tasks s = [Releasing, Signalled 0]
      \<and> elapsed now 0 < queue_timeout tiny_pool
      \<and> fst (acquire_signalled now 0 (cy_pool s)) = Inl PoolTimeout"
  proof -
    let ?d = "conn_drop (conn_listening [Holding, Queued 0]) 5 queued_pool"
    have d: "fst ?d = Some 1" "cp_permits (snd ?d) = 0"
      by (simp_all add: run_simps queued_pool_def tiny_timeout)
    have "conn_step ?q \<lparr>cy_pool = snd ?d, cy_tasks = [Releasing, Signalled 0]\<rparr>"
      using conn_dropped [of 0 ?q 5 "fst ?d" "snd ?d"] by (simp add: d(1) signal_task_def prod_eq_iff)
    from steps_trans [OF q this] show ?thesis
      using d(2) tiny_timeout
      by (intro exI [of _ "\<lparr>cy_pool = snd ?d, cy_tasks = [Releasing, Signalled 0]\<rparr>"] exI [of _ 5])
         (simp add: elapsed_def acquire_signalled_def try_permit_def Let_def)
  qed
  show "\<exists>s. conn_step\<^sup>*\<^sup>* (conn_start tiny_pool) s \<and> cy_tasks s = [Ended None, Queued 7]
      \<and> cp_permits (cy_pool s) = cn_max_connections tiny_pool"
  proof -
    let ?d = "conn_drop (conn_listening [Holding, NeedsQueue]) 5 (cy_pool two_requests)"
    have d: "fst ?d = None" "cp_permits (snd ?d) = 0" "cp_waiting (snd ?d) = []" "cp_config (snd ?d) = tiny_pool"
      by (simp_all add: run_simps two_requests_def)
    have "conn_step two_requests \<lparr>cy_pool = snd ?d, cy_tasks = [Releasing, NeedsQueue]\<rparr>"
      using conn_dropped [of 0 two_requests 5 "fst ?d" "snd ?d"] d(1)
      by (simp add: two_requests_def signal_task_def prod_eq_iff)
    note r1 = steps_trans [OF two_requests_reachable this]
    have "conn_step \<lparr>cy_pool = snd ?d, cy_tasks = [Releasing, NeedsQueue]\<rparr>
        \<lparr>cy_pool = permit_release (snd ?d), cy_tasks = [Ended None, NeedsQueue]\<rparr>"
      using conn_released [of 0 "\<lparr>cy_pool = snd ?d, cy_tasks = [Releasing, NeedsQueue]\<rparr>"] by simp
    note r2 = steps_trans [OF r1 this]
    let ?e = "acquire_enqueue 7 1 (permit_release (snd ?d))"
    have e: "fst ?e = Inr ()" "cp_permits (snd ?e) = 1"
      using d by (simp_all add: acquire_enqueue_def permit_release_def tiny_pool_def conn_config_new_def
          conn_config_default_def on_conn_stats_def)
    have "conn_step \<lparr>cy_pool = permit_release (snd ?d), cy_tasks = [Ended None, NeedsQueue]\<rparr>
        \<lparr>cy_pool = snd ?e, cy_tasks = [Ended None, Queued 7]\<rparr>"
      using conn_enqueue [of 1 "\<lparr>cy_pool = permit_release (snd ?d), cy_tasks = [Ended None, NeedsQueue]\<rparr>" 7
          "fst ?e" "snd ?e"] e(1) by simp
    from steps_trans [OF r2 this] show ?thesis
      using e(2) by (intro exI [of _ "\<lparr>cy_pool = snd ?e, cy_tasks = [Ended None, Queued 7]\<rparr>"])
        (simp add: tiny_pool_def conn_config_new_def)
  qed
qed

theorem connection_limit_witness:
  "count_tasks holds_permit (cy_tasks two_requests) \<le> 1 \<and> cp_permits (cy_pool two_requests) = 0"
  using connection_limit [OF two_requests_reachable]
  by (simp add: two_requests_def tiny_pool_def conn_config_new_def)

theorem wake_next_waiter_fifo_witness:
  "fst (wake_next_waiter (\<lambda>_. True) 1 queued_pool) = Some 1
     \<and> (\<exists>dead e. cp_waiting queued_pool = dead @ (1, e) # cp_waiting (snd (wake_next_waiter (\<lambda>_. True) 1 queued_pool)))"
proof -
  have r: "fst (wake_next_waiter (\<lambda>_. True) 1 queued_pool) = Some 1"
    by (simp add: run_simps queued_pool_def tiny_timeout)
  have "wake_next_waiter (\<lambda>_. True) 1 queued_pool = (Some 1, snd (wake_next_waiter (\<lambda>_. True) 1 queued_pool))"
    using r by (metis prod.collapse)
  from wake_next_waiter_fifo [OF this] r show ?thesis by (auto simp: Let_def)
qed

end
