(* ===== verification/Pool.thy ===== *)
theory Pool
  imports Upstream ConnPool
begin

text \<open>
  The pool of upstreams (\<open>src/src/proxy/pool.rs\<close>): selection by the four strategies, and a query with
  failover. An upstream is shared between the lists of the pool by reference; here the lists hold its
  position. What an upstream answers lies outside: \<open>'w\<close> is the state of the world, in which
  \<open>ad_acquire\<close> is the outcome of taking a connection of an upstream, \<open>ad_query\<close> the answer of its
  adapter, and \<open>ad_now_ms\<close> and \<open>ad_instant\<close> the time on the wall and on the monotonic clock.
\<close>

section \<open>State\<close>

datatype load_balance_strategy = RoundRobin | Weighted | RandomChoice | Failover

record pooled_upstream =
  pu_id :: rstr
  pu_health :: health_tracker
  pu_max_connections :: nat
  pu_weight :: u32
  pu_priority :: u32
  pu_requests :: u64
  pu_failures :: u64
  pu_enabled :: bool
  pu_upstream_type :: u8
  pu_query_mode :: query_mode

definition config_upstream_type :: "rstr option \<Rightarrow> upstream_type" where
  "config_upstream_type t =
     (if t \<in> {Some (lit ''elasticsearch''), Some (lit ''opensearch''), Some (lit ''meilisearch'')} then FullTextSearch
      else if t \<in> {Some (lit ''qdrant''), Some (lit ''pinecone''), Some (lit ''milvus''), Some (lit ''pgvector'')}
           then VectorDatabase
      else TypeUnknown)"

definition config_query_mode :: "rstr option \<Rightarrow> query_mode option" where
  "config_query_mode m =
     (if m = Some (lit ''vector_only'') then Some VectorOnly
      else if m = Some (lit ''text_native'') then Some TextNative
      else None)"

text \<open>\<open>create\<close> builds the adapter of a configuration: its query mode, or why it cannot be built.\<close>

definition pooled_upstream_new ::
  "(endpoint_config \<Rightarrow> rstr + query_mode) \<Rightarrow> endpoint_config \<Rightarrow> rstr + pooled_upstream" where
  "pooled_upstream_new create c =
     (case create c of
        Inl e \<Rightarrow> Inl e
      | Inr mode \<Rightarrow>
          Inr \<lparr>pu_id = ec_id c, pu_health = health_new,
               pu_max_connections = cn_max_connections (case ec_max_concurrent c of
                   Some n \<Rightarrow> conn_config_new n | None \<Rightarrow> conn_config_default),
               pu_weight = endpoint_weight c, pu_priority = endpoint_priority c, pu_requests = 0,
               pu_failures = 0, pu_enabled = endpoint_enabled c,
               pu_upstream_type = upstream_type_to_u8 (config_upstream_type (ec_upstream_type c)),
               pu_query_mode = (case config_query_mode (ec_query_mode c) of Some m \<Rightarrow> m | None \<Rightarrow> mode)\<rparr>)"

definition upstream_is_healthy :: "pooled_upstream \<Rightarrow> bool" where
  "upstream_is_healthy u \<longleftrightarrow> pu_enabled u \<and> health_status (pu_health u) = Online"

definition upstream_is_available :: "pooled_upstream \<Rightarrow> bool" where
  "upstream_is_available u \<longleftrightarrow> pu_enabled u \<and> health_status (pu_health u) \<noteq> Offline"

definition upstream_enable :: "pooled_upstream \<Rightarrow> pooled_upstream" where
  "upstream_enable u = u\<lparr>pu_enabled := True\<rparr>"

definition upstream_disable :: "pooled_upstream \<Rightarrow> pooled_upstream" where
  "upstream_disable u = u\<lparr>pu_enabled := False\<rparr>"

definition upstream_record_success :: "u64 \<Rightarrow> pooled_upstream \<Rightarrow> pooled_upstream" where
  "upstream_record_success now_ms u =
     u\<lparr>pu_requests := pu_requests u + 1, pu_health := health_record_success now_ms (pu_health u)\<rparr>"

definition upstream_record_failure :: "u64 \<Rightarrow> pooled_upstream \<Rightarrow> pooled_upstream" where
  "upstream_record_failure now_ms u =
     u\<lparr>pu_requests := pu_requests u + 1, pu_failures := pu_failures u + 1,
       pu_health := health_record_failure now_ms (pu_health u)\<rparr>"

definition upstream_type_of :: "pooled_upstream \<Rightarrow> upstream_type" where
  "upstream_type_of u = upstream_type_from_u8 (pu_upstream_type u)"

record upstream_pool =
  po_upstreams :: "pooled_upstream list"
  po_by_priority :: "nat list"
  po_by_id :: "rstr \<rightharpoonup> nat"
  po_strategy :: load_balance_strategy
  po_current_index :: u64

fun collect_results :: "('e + 'a) list \<Rightarrow> 'e + 'a list" where
  "collect_results [] = Inr []"
| "collect_results (Inl e # rs) = Inl e"
| "collect_results (Inr x # rs) = (case collect_results rs of Inl e \<Rightarrow> Inl e | Inr xs \<Rightarrow> Inr (x # xs))"

definition pool_of :: "pooled_upstream list \<Rightarrow> load_balance_strategy \<Rightarrow> upstream_pool" where
  "pool_of us strategy =
     \<lparr>po_upstreams = us,
      po_by_priority = sort_key (\<lambda>i. pu_priority (us ! i)) [0..<length us],
      po_by_id = map_of (rev (map (\<lambda>i. (pu_id (us ! i), i)) [0..<length us])),
      po_strategy = strategy, po_current_index = 0\<rparr>"

definition pool_new ::
  "(endpoint_config \<Rightarrow> rstr + query_mode) \<Rightarrow> endpoint_config list \<Rightarrow> load_balance_strategy \<Rightarrow>
   rstr + upstream_pool" where
  "pool_new create configs strategy =
     (case collect_results (map (pooled_upstream_new create) configs) of
        Inl e \<Rightarrow> Inl e
      | Inr us \<Rightarrow> Inr (pool_of us strategy))"

definition pool_empty :: upstream_pool where
  "pool_empty = pool_of [] RoundRobin"

definition pool_get :: "rstr \<Rightarrow> upstream_pool \<Rightarrow> nat option" where
  "pool_get i po =
     (case po_by_id po i of
        Some k \<Rightarrow> if k < length (po_upstreams po) then Some k else None
      | None \<Rightarrow> None)"

definition pool_available :: "upstream_pool \<Rightarrow> nat list" where
  "pool_available po = filter (\<lambda>i. upstream_is_available (po_upstreams po ! i)) [0..<length (po_upstreams po)]"

definition pool_healthy :: "upstream_pool \<Rightarrow> nat list" where
  "pool_healthy po = filter (\<lambda>i. upstream_is_healthy (po_upstreams po ! i)) [0..<length (po_upstreams po)]"

section \<open>Selection\<close>

definition select_round_robin :: "nat list \<Rightarrow> upstream_pool \<Rightarrow> nat option \<times> upstream_pool" where
  "select_round_robin available po =
     (if available = [] then (None, po)
      else (Some (available ! (unat (po_current_index po) mod length available)),
            po\<lparr>po_current_index := po_current_index po + 1\<rparr>))"

fun weighted_pick :: "(nat \<Rightarrow> u32) \<Rightarrow> u32 \<Rightarrow> u32 \<Rightarrow> nat list \<Rightarrow> nat option" where
  "weighted_pick weight index accumulated [] = None"
| "weighted_pick weight index accumulated (u # us) =
     (let acc = sat_add accumulated (weight u)
      in if index < acc then Some u else weighted_pick weight index acc us)"

definition select_weighted :: "nat list \<Rightarrow> upstream_pool \<Rightarrow> nat option \<times> upstream_pool" where
  "select_weighted available po =
     (if available = [] then (None, po)
      else let weight = (\<lambda>i. pu_weight (po_upstreams po ! i));
               total = fold (\<lambda>i a. sat_add a (weight i)) available 0
           in if total = 0 then select_round_robin available po
              else let counter = ucast (po_current_index po) :: u32;
                       po1 = po\<lparr>po_current_index := po_current_index po + 1\<rparr>
                   in (case weighted_pick weight (counter mod total) 0 available of
                         Some u \<Rightarrow> (Some u, po1)
                       | None \<Rightarrow> (Some (last available), po1)))"

definition select_random :: "nat list \<Rightarrow> upstream_pool \<Rightarrow> nat option \<times> upstream_pool" where
  "select_random available po =
     (if available = [] then (None, po)
      else (Some (available ! (unat (po_current_index po * 2654435761) mod length available)),
            po\<lparr>po_current_index := po_current_index po + 1\<rparr>))"

definition select_failover :: "upstream_pool \<Rightarrow> nat option \<times> upstream_pool" where
  "select_failover po =
     (case find (\<lambda>i. upstream_is_available (po_upstreams po ! i) \<and> upstream_is_healthy (po_upstreams po ! i))
             (po_by_priority po) of
        Some i \<Rightarrow> (Some i, po)
      | None \<Rightarrow> (find (\<lambda>i. upstream_is_available (po_upstreams po ! i)) (po_by_priority po), po))"

definition select_from_available :: "nat list \<Rightarrow> upstream_pool \<Rightarrow> nat option \<times> upstream_pool" where
  "select_from_available available po =
     (if available = [] then (None, po)
      else case po_strategy po of
             RoundRobin \<Rightarrow> select_round_robin available po
           | Weighted \<Rightarrow> select_weighted available po
           | RandomChoice \<Rightarrow> select_random available po
           | Failover \<Rightarrow> select_failover po)"

definition pool_select :: "upstream_pool \<Rightarrow> nat option \<times> upstream_pool" where
  "pool_select po = select_from_available (pool_available po) po"

definition select_where :: "(pooled_upstream \<Rightarrow> bool) \<Rightarrow> upstream_pool \<Rightarrow> nat option \<times> upstream_pool" where
  "select_where P po =
     select_from_available (filter (\<lambda>i. P (po_upstreams po ! i)) (pool_available po)) po"

section \<open>Queries\<close>

record 'w adapters =
  ad_acquire :: "nat \<Rightarrow> 'w \<Rightarrow> (pool_error + unit) \<times> 'w"
  ad_query :: "nat \<Rightarrow> query_request \<Rightarrow> 'w \<Rightarrow> (upstream_error + query_response) \<times> 'w"
  ad_now_ms :: "'w \<Rightarrow> u64"
  ad_instant :: "'w \<Rightarrow> instant"

fun pool_error_as_upstream :: "pool_error \<Rightarrow> upstream_error" where
  "pool_error_as_upstream QueueFull = UpUnavailable (lit ''connection queue full'')"
| "pool_error_as_upstream PoolTimeout = UpTimeout"
| "pool_error_as_upstream PoolShutdown = UpUnavailable (lit ''connection pool shutdown'')"

definition query_pooled ::
  "'w adapters \<Rightarrow> nat \<Rightarrow> query_request \<Rightarrow> 'w \<Rightarrow> (upstream_error + query_response) \<times> 'w" where
  "query_pooled A i request w =
     (case ad_acquire A i w of
        (Inl e, w1) \<Rightarrow> (Inl (pool_error_as_upstream e), w1)
      | (Inr _, w1) \<Rightarrow> ad_query A i request w1)"

definition on_upstream :: "nat \<Rightarrow> (pooled_upstream \<Rightarrow> pooled_upstream) \<Rightarrow> upstream_pool \<Rightarrow> upstream_pool" where
  "on_upstream i f po = po\<lparr>po_upstreams := (po_upstreams po)[i := f (po_upstreams po ! i)]\<rparr>"

definition tag_results :: "rstr \<Rightarrow> search_result list \<Rightarrow> search_result list" where
  "tag_results uid rs = map (\<lambda>r. r\<lparr>sr_upstream_id := Some uid\<rparr>) rs"

text \<open>One attempt: the query, the tags of its results and what it records.\<close>

definition attempt ::
  "'w adapters \<Rightarrow> nat \<Rightarrow> query_request \<Rightarrow> 'w \<Rightarrow> upstream_pool \<Rightarrow>
   (upstream_error + query_response) \<times> 'w \<times> upstream_pool" where
  "attempt A i request w po =
     (case query_pooled A i request w of
        (Inr resp, w1) \<Rightarrow>
          (Inr (resp\<lparr>qr_results := tag_results (pu_id (po_upstreams po ! i)) (qr_results resp)\<rparr>), w1,
           on_upstream i (upstream_record_success (ad_now_ms A w1)) po)
      | (Inl e, w1) \<Rightarrow> (Inl e, w1, on_upstream i (upstream_record_failure (ad_now_ms A w1)) po))"

fun try_each ::
  "'w adapters \<Rightarrow> nat list \<Rightarrow> query_request \<Rightarrow> 'w \<Rightarrow> upstream_pool \<Rightarrow>
   (upstream_error + query_response) \<times> 'w \<times> upstream_pool" where
  "try_each A [] request w po = (Inl (UpUnavailable (lit ''All upstreams failed'')), w, po)"
| "try_each A (i # is) request w po =
     (case attempt A i request w po of
        (Inr resp, w1, po1) \<Rightarrow> (Inr resp, w1, po1)
      | (Inl _, w1, po1) \<Rightarrow> try_each A is request w1 po1)"

definition pool_candidates :: "upstream_pool \<Rightarrow> nat list" where
  "pool_candidates po =
     (if pool_available po = [] then [0..<length (po_upstreams po)] else pool_available po)"

text \<open>Without a target: the selected upstream first, then all candidates.\<close>

definition query_candidates ::
  "'w adapters \<Rightarrow> nat list \<Rightarrow> query_request \<Rightarrow> 'w \<Rightarrow> upstream_pool \<Rightarrow>
   (upstream_error + query_response) \<times> 'w \<times> upstream_pool" where
  "query_candidates A candidates request w po =
     (case select_from_available candidates po of
        (Some i, po1) \<Rightarrow>
          (case attempt A i request w po1 of
             (Inr resp, w1, po2) \<Rightarrow> (Inr resp, w1, po2)
           | (Inl e, w1, po2) \<Rightarrow>
               if length candidates = 1 then (Inl e, w1, po2) else try_each A candidates request w1 po2)
      | (None, po1) \<Rightarrow> try_each A candidates request w po1)"

definition pool_query ::
  "'w adapters \<Rightarrow> query_request \<Rightarrow> 'w \<Rightarrow> upstream_pool \<Rightarrow>
   (upstream_error + query_response) \<times> 'w \<times> upstream_pool" where
  "pool_query A request w po =
     (if po_upstreams po = [] then (Inl (UpUnavailable (lit ''No upstreams configured'')), w, po)
      else case Option.bind (rq_upstream_id request) (\<lambda>t. pool_get t po) of
             Some i \<Rightarrow> attempt A i request w po
           | None \<Rightarrow> query_candidates A (pool_candidates po) request w po)"


section \<open>Fairness of the selection\<close>

fun select_run :: "(upstream_pool \<Rightarrow> nat option \<times> upstream_pool) \<Rightarrow> nat \<Rightarrow> upstream_pool \<Rightarrow> nat option list" where
  "select_run sel 0 po = []"
| "select_run sel (Suc n) po = (case sel po of (r, po1) \<Rightarrow> r # select_run sel n po1)"

definition times_selected :: "nat \<Rightarrow> nat option list \<Rightarrow> nat" where
  "times_selected u rs = length (filter (\<lambda>r. r = Some u) rs)"

text \<open>A selection that reads the counter through \<open>f\<close> and advances it.\<close>

lemma select_run_counter:
  assumes "\<And>c. sel (po\<lparr>po_current_index := c\<rparr>) = (f (unat c), po\<lparr>po_current_index := c + 1\<rparr>)"
    and "unat c + n \<le> 2 ^ 64"
  shows "select_run sel n (po\<lparr>po_current_index := c\<rparr>) = map (\<lambda>k. f (unat c + k)) [0..<n]"
  using assms(2)
proof (induction n arbitrary: c)
  case (Suc n)
  show ?case
  proof (cases n)
    case 0
    then show ?thesis by (simp add: assms(1))
  next
    case (Suc m)
    then have "unat (c + 1) = unat c + 1" using Suc.prems by (simp add: unat_word_ariths)
    then have "select_run sel n (po\<lparr>po_current_index := c + 1\<rparr>) = map (\<lambda>k. f (Suc (unat c + k))) [0..<n]"
      using Suc.IH [of "c + 1"] Suc.prems by simp
    moreover have "map (\<lambda>k. f (unat c + k)) [0..<Suc n] = f (unat c) # map (\<lambda>k. f (Suc (unat c + k))) [0..<n]"
      by (simp add: map_upt_Suc del: upt_Suc)
    ultimately show ?thesis by (simp add: assms(1))
  qed
qed simp

lemma cyclic_bij: "0 < n \<Longrightarrow> bij_betw (\<lambda>k. (c + k) mod n) {..<n} {..<n :: nat}"
proof (rule bij_betw_imageI)
  assume n: "0 < n"
  show "inj_on (\<lambda>k. (c + k) mod n) {..<n}"
  proof (rule inj_onI)
    fix a b assume ab: "a \<in> {..<n}" "b \<in> {..<n}" "(c + a) mod n = (c + b) mod n"
    have le: "x = y" if "x \<le> y" "y < n" "(c + x) mod n = (c + y) mod n" for x y
    proof -
      have "n dvd (c + y) - (c + x)" using that mod_eq_dvd_iff_nat [of "c + x" "c + y" n] by simp
      then show ?thesis using that by (auto dest: dvd_imp_le)
    qed
    show "a = b"
    proof (cases "a \<le> b")
      case True
      then show ?thesis using le [of a b] ab by simp
    next
      case False
      then show ?thesis using le [of b a] ab by simp
    qed
  qed
  then show "(\<lambda>k. (c + k) mod n) ` {..<n} = {..<n}"
    using n by (intro endo_inj_surj) auto
qed

lemma times_selected_cyclic:
  assumes "0 < n"
  shows "times_selected u (map (\<lambda>k. g ((c + k) mod n)) [0..<n]) = card {x. x < n \<and> g x = Some u}"
proof -
  have "times_selected u (map (\<lambda>k. g ((c + k) mod n)) [0..<n]) = card {k. k < n \<and> g ((c + k) mod n) = Some u}"
    by (simp add: times_selected_def filter_map comp_def length_filter_conv_card cong: conj_cong)
  also have "\<dots> = card {x. x < n \<and> g x = Some u}"
  proof (rule bij_betw_same_card)
    let ?f = "\<lambda>k. (c + k) mod n"
    note b = cyclic_bij [OF assms, of c]
    have "?f ` {k. k < n \<and> g (?f k) = Some u} = {x \<in> ?f ` {..<n}. g x = Some u}" by auto
    also have "\<dots> = {x. x < n \<and> g x = Some u}" using bij_betw_imp_surj_on [OF b] by auto
    finally show "bij_betw ?f {k. k < n \<and> g (?f k) = Some u} {x. x < n \<and> g x = Some u}"
      by (rule bij_betw_subset [OF b, rotated]) auto
  qed
  finally show ?thesis .
qed


text \<open>How often the weighted choice picks an upstream over all indices.\<close>

definition total_weight :: "(nat \<Rightarrow> u32) \<Rightarrow> nat list \<Rightarrow> nat" where
  "total_weight weight us = sum_list (map (\<lambda>u. unat (weight u)) us)"

lemma sat_add_exact: "unat a + unat b < 2 ^ 32 \<Longrightarrow> unat (sat_add a (b :: u32)) = unat a + unat b"
  by (simp add: unat_sat_add)

lemma fold_sat_add:
  "unat a + total_weight weight us < 2 ^ 32 \<Longrightarrow>
     unat (fold (\<lambda>i x. sat_add x (weight i)) us a) = unat a + total_weight weight us"
proof (induction us arbitrary: a)
  case (Cons u us)
  have "unat (sat_add a (weight u)) = unat a + unat (weight u)"
    using Cons.prems by (intro sat_add_exact) (simp add: total_weight_def)
  then show ?case using Cons.IH [of "sat_add a (weight u)"] Cons.prems by (simp add: total_weight_def)
qed (simp add: total_weight_def)

lemma weighted_pick_count:
  assumes "distinct us" and "unat acc + total_weight weight us < 2 ^ 32"
  shows "card {x. unat acc \<le> x \<and> x < unat acc + total_weight weight us
      \<and> weighted_pick weight (of_nat x) acc us = Some u} = (if u \<in> set us then unat (weight u) else 0)"
  using assms
proof (induction us arbitrary: acc)
  case (Cons v us)
  let ?acc = "sat_add acc (weight v)" and ?n = "total_weight weight (v # us)"
  have acc: "unat ?acc = unat acc + unat (weight v)"
    using Cons.prems by (intro sat_add_exact) (simp add: total_weight_def)
  have n: "unat acc + ?n = unat ?acc + total_weight weight us" by (simp add: acc total_weight_def)
  have small: "of_nat x < ?acc \<longleftrightarrow> x < unat ?acc" if "x < unat acc + ?n" for x :: nat
    using that Cons.prems(2) by (simp add: word_less_nat_alt unat_of_nat)
  have "{x. unat acc \<le> x \<and> x < unat acc + ?n \<and> weighted_pick weight (of_nat x) acc (v # us) = Some u} =
      (if u = v then {unat acc..<unat ?acc} else {})
      \<union> {x. unat ?acc \<le> x \<and> x < unat ?acc + total_weight weight us
             \<and> weighted_pick weight (of_nat x) ?acc us = Some u}" (is "?L = ?A \<union> ?B")
    using small acc n by (auto simp: Let_def split: if_splits)
  moreover have "card (?A \<union> ?B) = card ?A + card ?B"
    by (intro card_Un_disjoint) (auto intro: finite_subset [of _ "{..<unat ?acc + total_weight weight us}"])
  moreover have "card ?B = (if u \<in> set us then unat (weight u) else 0)"
    using Cons.IH [of ?acc] Cons.prems n by simp
  ultimately show ?case using Cons.prems(1) acc by auto
qed (simp add: total_weight_def)

lemma weighted_pick_some:
  assumes "unat acc + total_weight weight us < 2 ^ 32" and "unat acc \<le> x" and "x < unat acc + total_weight weight us"
  shows "weighted_pick weight (of_nat x) acc us \<noteq> None"
  using assms
proof (induction us arbitrary: acc)
  case (Cons v us)
  let ?acc = "sat_add acc (weight v)"
  have acc: "unat ?acc = unat acc + unat (weight v)"
    using Cons.prems(1) by (intro sat_add_exact) (simp add: total_weight_def)
  have "of_nat x < ?acc \<longleftrightarrow> x < unat ?acc"
    using Cons.prems by (simp add: word_less_nat_alt unat_of_nat)
  then show ?case using Cons.IH [of ?acc] Cons.prems acc by (auto simp: Let_def total_weight_def not_less)
qed (simp add: total_weight_def)


lemma round_robin_once:
  assumes "distinct av" and "u \<in> set av" and "unat (po_current_index po) + length av \<le> 2 ^ 64"
  shows "times_selected u (select_run (select_round_robin av) (length av) po) = 1"
proof -
  let ?c = "unat (po_current_index po)" and ?n = "length av"
  have ne: "av \<noteq> []" "0 < ?n" using assms(2) by auto
  have "select_run (select_round_robin av) ?n (po\<lparr>po_current_index := po_current_index po\<rparr>) =
      map (\<lambda>k. Some (av ! ((?c + k) mod ?n))) [0..<?n]"
    using assms(3) ne by (intro select_run_counter) (simp_all add: select_round_robin_def)
  then have "times_selected u (select_run (select_round_robin av) ?n po) = card {x. x < ?n \<and> av ! x = u}"
    using times_selected_cyclic [OF ne(2), of u "\<lambda>x. Some (av ! x)" ?c] by simp
  also obtain i where i: "i < ?n" "av ! i = u" using assms(2) by (auto simp: in_set_conv_nth)
  then have "{x. x < ?n \<and> av ! x = u} = {i}" using assms(1) by (auto simp: nth_eq_iff_index_eq)
  finally show ?thesis by simp
qed

lemma of_nat_mod_u32: "m < 2 ^ 32 \<Longrightarrow> of_nat m mod t = (of_nat (m mod unat t) :: u32)"
proof (rule unsigned_word_eqI)
  assume m: "m < 2 ^ 32"
  then have "m mod unat t < 2 ^ 32" by (meson mod_less_eq_dividend le_less_trans)
  then show "unat (of_nat m mod t :: u32) = unat (of_nat (m mod unat t) :: u32)"
    using m by (simp add: unat_mod unat_of_nat)
qed

lemma weighted_share:
  assumes "distinct av" and "u \<in> set av"
    and "W = total_weight (\<lambda>i. pu_weight (po_upstreams po ! i)) av" and "0 < W"
    and "unat (po_current_index po) + W < 2 ^ 32"
  shows "times_selected u (select_run (select_weighted av) W po) = unat (pu_weight (po_upstreams po ! u))"
proof -
  let ?weight = "\<lambda>i. pu_weight (po_upstreams po ! i)" and ?c = "unat (po_current_index po)"
  let ?total = "fold (\<lambda>i x. sat_add x (?weight i)) av (0 :: u32)"
  let ?pick = "\<lambda>i. case weighted_pick ?weight i 0 av of Some v \<Rightarrow> Some v | None \<Rightarrow> Some (last av)"
  let ?f = "\<lambda>m :: nat. ?pick (of_nat m mod ?total)"
  let ?g = "\<lambda>x :: nat. ?pick (of_nat x)"
  have ne: "av \<noteq> []" using assms(2) by auto
  have total: "unat ?total = W" using fold_sat_add [of 0 ?weight av] assms(3,5) by simp
  then have tz: "?total \<noteq> 0" using assms(4) by auto
  have step: "select_weighted av (po\<lparr>po_current_index := c\<rparr>) = (?f (unat c), po\<lparr>po_current_index := c + 1\<rparr>)" for c
    using ne tz by (simp add: select_weighted_def Let_def split: option.splits)
  have "select_run (select_weighted av) W (po\<lparr>po_current_index := po_current_index po\<rparr>) =
      map (\<lambda>k. ?f (?c + k)) [0..<W]"
    using assms(5) by (intro select_run_counter step) simp
  also have "\<dots> = map (\<lambda>k. ?g ((?c + k) mod W)) [0..<W]"
  proof (rule map_cong [OF refl])
    fix k assume "k \<in> set [0..<W]"
    then have "?c + k < 2 ^ 32" using assms(5) by simp
    from of_nat_mod_u32 [OF this, of ?total]
    have "of_nat (?c + k) mod ?total = (of_nat ((?c + k) mod W) :: u32)" unfolding total .
    then show "?f (?c + k) = ?g ((?c + k) mod W)" by simp
  qed
  finally have "times_selected u (select_run (select_weighted av) W po) = card {x. x < W \<and> ?g x = Some u}"
    using times_selected_cyclic [OF assms(4), of u ?g ?c] by simp
  also have "{x. x < W \<and> ?g x = Some u} =
      {x. unat (0 :: u32) \<le> x \<and> x < unat (0 :: u32) + total_weight ?weight av
          \<and> weighted_pick ?weight (of_nat x) 0 av = Some u}"
    using weighted_pick_some [of 0 ?weight av] assms(3,5) by (auto split: option.splits)
  also have "card \<dots> = unat (?weight u)"
    using weighted_pick_count [OF assms(1), of 0 ?weight u] assms(2,3,5) by simp
  finally show ?thesis .
qed

text \<open>The load is shared as configured: while the set of available upstreams does not change and the
  counter does not wrap, as many consecutive round-robin selections as there are upstreams select each of
  them exactly once, and as many consecutive weighted selections as the sum of the weights select each of
  them exactly as often as its weight says.\<close>

theorem load_balancing_fair:
  assumes "distinct av" and "u \<in> set av"
    and "W = total_weight (\<lambda>i. pu_weight (po_upstreams po ! i)) av" and "0 < W"
    and "unat (po_current_index po) + W < 2 ^ 32" and "unat (po_current_index po) + length av \<le> 2 ^ 64"
  shows "times_selected u (select_run (select_round_robin av) (length av) po) = 1
    \<and> times_selected u (select_run (select_weighted av) W po) = unat (pu_weight (po_upstreams po ! u))"
  using round_robin_once [OF assms(1,2,6)] weighted_share [OF assms(1-5)] by simp


section \<open>Failover\<close>

definition pool_ok :: "upstream_pool \<Rightarrow> bool" where
  "pool_ok po \<longleftrightarrow> set (po_by_priority po) = {..<length (po_upstreams po)}"

lemma pool_of_ok: "pool_ok (pool_of us strategy)"
  by (auto simp: pool_ok_def pool_of_def)

lemma select_member:
  assumes "pool_ok po" and "select_from_available (pool_candidates po) po = (Some i, po1)"
  shows "i \<in> set (pool_candidates po)" "po_upstreams po1 = po_upstreams po"
proof -
  let ?c = "pool_candidates po"
  have ne: "?c \<noteq> []" using assms(2) by (auto simp: select_from_available_def)
  have av: "i \<in> set ?c" if "upstream_is_available (po_upstreams po ! i)" "i \<in> set (po_by_priority po)" for i
    using that assms(1) by (auto simp: pool_candidates_def pool_available_def pool_ok_def)
  have pick: "weighted_pick f x a us = Some v \<Longrightarrow> v \<in> set us" for f x a us v
    by (induction us arbitrary: a) (auto simp: Let_def split: if_splits)
  have "i \<in> set ?c \<and> po_upstreams po1 = po_upstreams po"
  proof (cases "po_strategy po")
    case Failover
    then show ?thesis
      using assms(2) av ne
      by (auto simp: select_from_available_def select_failover_def find_Some_iff split: option.splits)
  next
    case Weighted
    then show ?thesis
      using assms(2) ne
      by (auto simp: select_from_available_def select_weighted_def select_round_robin_def Let_def
          split: if_splits option.splits dest: pick)
  qed (use assms(2) ne in \<open>auto simp: select_from_available_def select_round_robin_def select_random_def\<close>)
  then show "i \<in> set ?c" "po_upstreams po1 = po_upstreams po" by simp_all
qed

definition same_ids :: "upstream_pool \<Rightarrow> upstream_pool \<Rightarrow> bool" where
  "same_ids po po' \<longleftrightarrow> map pu_id (po_upstreams po') = map pu_id (po_upstreams po)"

definition tagged :: "upstream_pool \<Rightarrow> nat \<Rightarrow> query_response \<Rightarrow> query_response" where
  "tagged po i r = r\<lparr>qr_results := tag_results (pu_id (po_upstreams po ! i)) (qr_results r)\<rparr>"

lemma tagged_same:
  assumes "same_ids po po'" and "i < length (po_upstreams po)"
  shows "tagged po' i r = tagged po i r"
proof -
  have "length (po_upstreams po') = length (po_upstreams po)"
    using assms(1) unfolding same_ids_def by (metis length_map)
  then have "pu_id (po_upstreams po' ! i) = pu_id (po_upstreams po ! i)"
    using assms unfolding same_ids_def by (metis nth_map)
  then show ?thesis by (simp add: tagged_def)
qed

lemma attempt_cases:
  assumes "attempt A i rq w po = (r, w1, po1)"
  shows "r = (case fst (query_pooled A i rq w) of Inl e \<Rightarrow> Inl e | Inr x \<Rightarrow> Inr (tagged po i x))"
    and "same_ids po po1"
proof -
  have ids: "same_ids po (on_upstream i f po)" if "\<And>u. pu_id (f u) = pu_id u" for f
    using that by (cases "i < length (po_upstreams po)")
      (simp_all add: same_ids_def on_upstream_def map_update list_update_same_conv list_update_beyond)
  show "r = (case fst (query_pooled A i rq w) of Inl e \<Rightarrow> Inl e | Inr x \<Rightarrow> Inr (tagged po i x))"
    using assms by (auto simp: attempt_def tagged_def split: prod.splits sum.splits)
  show "same_ids po po1"
    using assms by (auto simp: attempt_def split: prod.splits sum.splits intro!: ids
        simp: upstream_record_success_def upstream_record_failure_def)
qed


lemma try_each_outcome:
  assumes "\<And>i w. fst (query_pooled A i rq w) = ans i"
  shows "case fst (try_each A us rq w po) of
      Inr resp \<Rightarrow> \<exists>i po' r. i \<in> set us \<and> same_ids po po' \<and> ans i = Inr r \<and> resp = tagged po' i r
    | Inl _ \<Rightarrow> \<forall>i \<in> set us. \<exists>e. ans i = Inl e"
proof (induction us arbitrary: w po)
  case (Cons i us)
  obtain r w1 po1 where a: "attempt A i rq w po = (r, w1, po1)" by (metis prod_cases3)
  note c = attempt_cases [OF a]
  show ?case
  proof (cases "ans i")
    case (Inr x)
    have "r = Inr (tagged po i x)" using c(1) unfolding assms Inr by simp
    then show ?thesis
      using a Inr by (auto simp: same_ids_def)
  next
    case (Inl e)
    then have r: "r = Inl e" using c(1) by (simp add: assms)
    show ?thesis
      using Cons.IH [where w = w1 and po = po1] c(2) Inl by (fastforce simp: a r same_ids_def split: sum.splits)
  qed
qed simp

text \<open>C35. Failover is complete: as long as the answers of the upstreams do not depend on when they are
  asked, a query of the pool without a target succeeds if and only if some candidate answers, the
  candidates being the available upstreams, or all of them when none is available; the results carry the
  id of the upstream that answered.\<close>

theorem pool_query_failover:
  assumes "pool_ok po" and "po_upstreams po \<noteq> []"
    and "Option.bind (rq_upstream_id rq) (\<lambda>t. pool_get t po) = None"
    and "\<forall>i w. fst (query_pooled A i rq w) = ans i"
  shows "case fst (pool_query A rq w po) of
      Inr resp \<Rightarrow> \<exists>i r. i \<in> set (pool_candidates po) \<and> ans i = Inr r \<and> resp = tagged po i r
    | Inl _ \<Rightarrow> \<forall>i \<in> set (pool_candidates po). \<exists>e. ans i = Inl e"
proof -
  let ?c = "pool_candidates po"
  have lt: "i < length (po_upstreams po)" if "i \<in> set ?c" for i
    using that by (auto simp: pool_candidates_def pool_available_def split: if_splits)
  have ans: "fst (query_pooled A i rq w) = ans i" for i w using assms(4) by blast
  have each: "case fst (try_each A ?c rq w' po') of
      Inr resp \<Rightarrow> \<exists>i r. i \<in> set ?c \<and> ans i = Inr r \<and> resp = tagged po i r
    | Inl _ \<Rightarrow> \<forall>i \<in> set ?c. \<exists>e. ans i = Inl e" if ids: "same_ids po po'" for w' po'
  proof (cases "fst (try_each A ?c rq w' po')")
    case (Inr resp)
    then obtain i po2 r where i: "i \<in> set ?c" "same_ids po' po2" "ans i = Inr r" "resp = tagged po2 i r"
      using try_each_outcome [where A = A and us = ?c and w = w' and po = po', OF ans] by auto
    have "same_ids po po2" using ids i(2) by (simp add: same_ids_def)
    then show ?thesis using i tagged_same [OF _ lt [OF i(1)]] by (auto simp: Inr)
  next
    case (Inl e)
    then show ?thesis using try_each_outcome [where A = A and us = ?c and w = w' and po = po', OF ans] by auto
  qed
  have q: "pool_query A rq w po = query_candidates A ?c rq w po"
    using assms(2,3) by (simp add: pool_query_def)
  show ?thesis
  proof (cases "select_from_available ?c po")
    case sel: (Pair o1 po1)
    show ?thesis
    proof (cases o1)
      case None
      then have "same_ids po po1"
        using sel by (auto simp: select_from_available_def select_round_robin_def select_weighted_def Let_def
            select_random_def select_failover_def same_ids_def
            split: if_splits load_balance_strategy.splits option.splits)
      from each [OF this, of w] show ?thesis using sel None by (simp add: q query_candidates_def)
    next
      case (Some i)
      note m = select_member [OF assms(1) sel [unfolded Some]]
      obtain r w1 po2 where a: "attempt A i rq w po1 = (r, w1, po2)" by (metis prod_cases3)
      note c = attempt_cases [OF a]
      have ids: "same_ids po po2" "tagged po1 i x = tagged po i x" for x
        using c(2) m(2) by (simp_all add: same_ids_def tagged_def)
      show ?thesis
      proof (cases "ans i")
        case (Inr x)
        then have "r = Inr (tagged po i x)" using c(1) ids(2) unfolding ans Inr by simp
        then show ?thesis using sel Some a m(1) Inr by (auto simp: q query_candidates_def)
      next
        case (Inl e)
        then have r: "r = Inl e" using c(1) by (simp add: ans)
        show ?thesis
        proof (cases "length ?c = 1")
          case True
          then have "set ?c = {i}" using m(1) by (auto simp: length_Suc_conv)
          then show ?thesis using sel Some a r Inl True by (simp add: q query_candidates_def)
        next
          case False
          then show ?thesis using each [OF ids(1), of w1] sel Some a r by (simp add: q query_candidates_def)
        qed
      qed
    qed
  qed
qed


section \<open>A failing primary\<close>

text \<open>Upstreams that always fail, in a world that remembers who was asked.\<close>

definition failing_adapters :: "nat list adapters" where
  "failing_adapters = \<lparr>ad_acquire = (\<lambda>i w. (Inr (), w)), ad_query = (\<lambda>i rq w. (Inl UpTimeout, w @ [i])),
     ad_now_ms = (\<lambda>w. 0), ad_instant = (\<lambda>w. 0)\<rparr>"

lemma failing_attempt:
  "attempt failing_adapters i rq w po = (Inl UpTimeout, w @ [i], on_upstream i (upstream_record_failure 0) po)"
  by (simp add: attempt_def query_pooled_def failing_adapters_def)

lemma failing_each:
  "\<exists>po'. try_each failing_adapters us rq w po = (Inl (UpUnavailable (lit ''All upstreams failed'')), w @ us, po')"
proof (induction us arbitrary: w po)
  case (Cons i us)
  then show ?case using Cons [of "w @ [i]"] by (simp add: failing_attempt)
qed simp

text \<open>A failing primary is asked twice: when every upstream of a pool fails and there is more than one
  candidate, the selected upstream is asked first and then again with all the candidates, in their order,
  so that it sees two requests, and records two failures, for one query.\<close>

theorem failed_primary_asked_again:
  assumes "pool_ok po" and "po_upstreams po \<noteq> []"
    and "Option.bind (rq_upstream_id rq) (\<lambda>t. pool_get t po) = None"
    and "select_from_available (pool_candidates po) po = (Some i, po1)" and "length (pool_candidates po) > 1"
  shows "fst (snd (pool_query failing_adapters rq [] po)) = i # pool_candidates po
    \<and> length (filter (\<lambda>k. k = i) (fst (snd (pool_query failing_adapters rq [] po)))) = 2"
proof -
  let ?c = "pool_candidates po"
  have log: "fst (snd (pool_query failing_adapters rq [] po)) = i # ?c"
    using failing_each [of ?c rq "[i]"] assms(2-5)
    by (auto simp: pool_query_def query_candidates_def failing_attempt split: prod.splits) (metis fst_conv snd_conv)
  have "distinct ?c" by (simp add: pool_candidates_def pool_available_def)
  then have "length (filter (\<lambda>k. k = i) ?c) = 1"
    using select_member(1) [OF assms(1,4)] by (auto simp: distinct_length_filter)
  then show ?thesis by (simp add: log)
qed

definition demo_upstream :: "string \<Rightarrow> u32 \<Rightarrow> pooled_upstream" where
  "demo_upstream n w = \<lparr>pu_id = lit n, pu_health = health_new, pu_max_connections = 10, pu_weight = w,
     pu_priority = 0, pu_requests = 0, pu_failures = 0, pu_enabled = True, pu_upstream_type = 3,
     pu_query_mode = ModeUnknown\<rparr>"

definition demo_pool :: upstream_pool where
  "demo_pool = pool_of [demo_upstream ''a'' 1, demo_upstream ''b'' 3] RoundRobin"

definition pool_request :: query_request where
  "pool_request = \<lparr>rq_query = lit ''q'', rq_top_k = None, rq_priority = None, rq_upstream_id = None,
     rq_upstream_type = None\<rparr>"

lemma demo_upstream_available: "upstream_is_available (demo_upstream n w)"
  by (simp add: upstream_is_available_def demo_upstream_def health_status_def health_new_def health_with_thresholds_def)

lemma demo_pool_candidates: "pool_candidates demo_pool = [0, 1]"
proof -
  have "[0..<Suc (Suc 0)] = [0, 1]" by (simp add: upt_rec)
  then show ?thesis
    by (simp add: pool_candidates_def pool_available_def demo_pool_def pool_of_def demo_upstream_available
        nth_Cons')
qed

theorem load_balancing_fair_witness:
  "times_selected 1 (select_run (select_round_robin [0, 1]) (length [0, 1 :: nat]) demo_pool) = 1
   \<and> times_selected 1 (select_run (select_weighted [0, 1]) 4 demo_pool) = 3"
proof -
  have w: "4 = total_weight (\<lambda>i. pu_weight (po_upstreams demo_pool ! i)) [0, 1]"
    "unat (po_current_index demo_pool) = 0" "unat (pu_weight (po_upstreams demo_pool ! 1)) = 3"
    by (simp_all add: total_weight_def demo_pool_def pool_of_def demo_upstream_def)
  show ?thesis using load_balancing_fair [of "[0, 1]" 1 4 demo_pool, OF _ _ w(1)] w(2,3) by simp
qed

theorem pool_query_failover_witness:
  "\<exists>e. fst (pool_query failing_adapters pool_request [] demo_pool) = Inl e"
proof -
  have "\<forall>i w. fst (query_pooled failing_adapters i pool_request w) = Inl UpTimeout"
    by (simp add: query_pooled_def failing_adapters_def)
  moreover have "po_upstreams demo_pool \<noteq> []" by (simp add: demo_pool_def pool_of_def)
  moreover have "pool_ok demo_pool" by (simp add: demo_pool_def pool_of_ok)
  ultimately show ?thesis
    using pool_query_failover [of demo_pool pool_request failing_adapters "\<lambda>_. Inl UpTimeout" "[]"]
    by (auto simp: pool_request_def split: sum.splits)
qed

theorem failed_primary_asked_again_witness:
  "fst (snd (pool_query failing_adapters pool_request [] demo_pool)) = [0, 0, 1]"
proof -
  have s: "\<exists>po1. select_from_available (pool_candidates demo_pool) demo_pool = (Some 0, po1)"
    unfolding demo_pool_candidates
    by (simp add: select_from_available_def select_round_robin_def demo_pool_def pool_of_def)
  then obtain po1 where "select_from_available (pool_candidates demo_pool) demo_pool = (Some 0, po1)" by blast
  moreover have "pool_ok demo_pool" "po_upstreams demo_pool \<noteq> []" by (simp_all add: demo_pool_def pool_of_ok) (simp add: pool_of_def)
  moreover have "Option.bind (rq_upstream_id pool_request) (\<lambda>t. pool_get t demo_pool) = None"
    by (simp add: pool_request_def)
  ultimately show ?thesis
    using failed_primary_asked_again [of demo_pool pool_request 0 po1] by (simp add: demo_pool_candidates)
qed

end
