(* ===== verification/Cascade.thy ===== *)
theory Cascade
  imports Pool
begin

text \<open>
  The cascade over the upstreams of a pool (\<open>src/src/proxy/cascade.rs\<close>): priority groups tried in order
  until the results meet the threshold, with optional reciprocal rank fusion inside a group. The loop of
  \<open>query\<close> carries its local variables in a record. Parameters: the order in which a hash map yields its
  values, the order in which the parallel queries of a group complete, and Unicode lower-casing. The
  default feature set is modelled, without \<open>embed-api\<close>. Of the parallel queries of a group that the
  timeout abandons, those that have not been joined leave no trace.
\<close>

section \<open>Configuration and results\<close>

datatype fusion_method = FusionNone | Rrf

record cascade_config =
  cf_enabled :: bool
  cf_min_score_threshold :: fl
  cf_min_results :: nat
  cf_max_cascade_depth :: nat
  cf_merge_cascade_results :: bool
  cf_cascade_timeout_ms :: u64
  cf_fusion_method :: fusion_method
  cf_rrf_k :: u32

text \<open>The literal \<open>0.7\<close> of type \<open>f32\<close> is the bit pattern 0x3F333333.\<close>

definition cascade_config_default :: cascade_config where
  "cascade_config_default =
     \<lparr>cf_enabled = True, cf_min_score_threshold = f32_decode 0x3F333333, cf_min_results = 1,
      cf_max_cascade_depth = 3, cf_merge_cascade_results = False, cf_cascade_timeout_ms = 30000,
      cf_fusion_method = FusionNone, cf_rrf_k = 60\<rparr>"

definition cascade_timeout :: "cascade_config \<Rightarrow> duration" where
  "cascade_timeout c = from_millis (unat (cf_cascade_timeout_ms c))"

datatype cascade_stop_reason =
  ThresholdMet | MinResultsMet | MaxDepthReached | AllExhausted | CascadeTimeout | CascadeDisabled | NoUpstreams

fun stop_reason_as_str :: "cascade_stop_reason \<Rightarrow> rstr" where
  "stop_reason_as_str ThresholdMet = lit ''threshold_met''"
| "stop_reason_as_str MinResultsMet = lit ''min_results_met''"
| "stop_reason_as_str MaxDepthReached = lit ''max_depth_reached''"
| "stop_reason_as_str AllExhausted = lit ''all_exhausted''"
| "stop_reason_as_str CascadeTimeout = lit ''timeout''"
| "stop_reason_as_str CascadeDisabled = lit ''disabled''"
| "stop_reason_as_str NoUpstreams = lit ''no_upstreams''"

record upstream_score =
  us_upstream_id :: rstr
  us_upstream_type :: upstream_type
  us_query_mode :: query_mode
  us_max_score :: f32
  us_normalized_score :: fl
  us_result_count :: nat
  us_latency_ms :: u64
  us_met_threshold :: bool
  us_error :: "rstr option"

record cascade_result =
  cr_results :: "search_result list"
  cr_upstreams_tried :: "rstr list"
  cr_final_upstream :: "rstr option"
  cr_stop_reason :: cascade_stop_reason
  cr_upstream_scores :: "upstream_score list"
  cr_cascade_time_ms :: u64
  cr_cascade_depth :: nat

definition cascade_is_success :: "cascade_result \<Rightarrow> bool" where
  "cascade_is_success r \<longleftrightarrow> cr_stop_reason r = ThresholdMet \<or> cr_stop_reason r = MinResultsMet"

text \<open>\<open>iter().max_by(partial_cmp or Equal)\<close>: of two equal or incomparable scores the later one.\<close>

fun max_score_from :: "f32 \<Rightarrow> f32 list \<Rightarrow> f32" where
  "max_score_from m [] = m"
| "max_score_from m (x # xs) = max_score_from (if fl_less (f32_decode x) (f32_decode m) then m else x) xs"

fun max_score :: "search_result list \<Rightarrow> f32 option" where
  "max_score [] = None"
| "max_score (r # rs) = Some (max_score_from (sr_score r) (map sr_score rs))"

definition max_score_or_zero :: "search_result list \<Rightarrow> f32" where
  "max_score_or_zero rs = (case max_score rs of Some x \<Rightarrow> x | None \<Rightarrow> 0)"

section \<open>Scores\<close>

definition score_range :: "upstream_type \<Rightarrow> fl \<times> fl" where
  "score_range t = (case t of FullTextSearch \<Rightarrow> (Fin 0, Fin 100) | _ \<Rightarrow> (Fin 0, Fin 1))"

fun fl_minus :: "fl \<Rightarrow> fl" where
  "fl_minus (Fin x) = Fin (- x)"
| "fl_minus (Inf b) = Inf (\<not> b)"
| "fl_minus NaN = NaN"

definition fl_sub :: "fl \<Rightarrow> fl \<Rightarrow> fl" where
  "fl_sub x y = fl_add x (fl_minus y)"

definition normalize_score :: "f32 \<Rightarrow> upstream_type \<Rightarrow> fl" where
  "normalize_score score t =
     (let (lo, hi) = score_range t
      in if fl_le hi lo then fl_clamp01 (f32_decode score)
         else fl_clamp01 (fl_div (fl_sub (f32_decode score) lo) (fl_sub hi lo)))"

definition meets_threshold :: "cascade_config \<Rightarrow> fl \<Rightarrow> search_result list \<Rightarrow> bool" where
  "meets_threshold c normalized rs \<longleftrightarrow>
     fl_le (cf_min_score_threshold c) normalized \<and> length rs \<ge> cf_min_results c"

section \<open>Reciprocal rank fusion\<close>

record rrf_accum =
  rf_score :: fl
  rf_best :: search_result

definition rrf_weight :: "u32 \<Rightarrow> nat \<Rightarrow> fl" where
  "rrf_weight k rank = fl_div (Fin 1) (fl_add (fl_add (nat_as_f32 (unat k)) (nat_as_f32 rank)) (Fin 1))"

definition rrf_add :: "fl \<Rightarrow> search_result \<Rightarrow> rrf_accum \<Rightarrow> rrf_accum" where
  "rrf_add rrf r a =
     \<lparr>rf_score = fl_add (rf_score a) rrf,
      rf_best = (if fl_less (f32_decode (sr_score (rf_best a))) (f32_decode (sr_score r)) then r else rf_best a)\<rparr>"

definition rrf_enter :: "env \<Rightarrow> u32 \<Rightarrow> nat \<times> search_result \<Rightarrow> (u8 list \<times> rrf_accum) list \<Rightarrow> (u8 list \<times> rrf_accum) list" where
  "rrf_enter E k x acc =
     (let (rank, r) = x; key = blake3 E (as_bytes (sr_content r)); rrf = rrf_weight k rank
      in case map_of acc key of
           Some a \<Rightarrow> AList.update key (rrf_add rrf r a) acc
         | None \<Rightarrow> AList.update key \<lparr>rf_score = rrf, rf_best = r\<rparr> acc)"

definition rrf_collect :: "env \<Rightarrow> u32 \<Rightarrow> (rstr \<times> search_result list) list \<Rightarrow> (u8 list \<times> rrf_accum) list" where
  "rrf_collect E k ranked = fold (\<lambda>(_, rs). fold (rrf_enter E k) (enumerate 0 rs)) ranked []"

text \<open>\<open>sort_by\<close> with the descending comparison: a stable sort.\<close>

fun insert_desc :: "fl \<times> 'a \<Rightarrow> (fl \<times> 'a) list \<Rightarrow> (fl \<times> 'a) list" where
  "insert_desc x [] = [x]"
| "insert_desc x (y # ys) = (if fl_less (fst x) (fst y) then y # insert_desc x ys else x # y # ys)"

definition sort_desc :: "(fl \<times> 'a) list \<Rightarrow> (fl \<times> 'a) list" where
  "sort_desc xs = foldr insert_desc xs []"

definition fuse_rrf ::
  "env \<Rightarrow> ((u8 list \<times> rrf_accum) list \<Rightarrow> (u8 list \<times> rrf_accum) list) \<Rightarrow>
   (rstr \<times> search_result list) list \<Rightarrow> u32 \<Rightarrow> nat \<Rightarrow> search_result list" where
  "fuse_rrf E hm_order ranked k limit =
     map snd (take limit (sort_desc
       (map (\<lambda>(_, a). (rf_score a, rf_best a)) (hm_order (rrf_collect E k ranked)))))"


section \<open>Order of the upstreams\<close>

record 'w cascade_env =
  cv_env :: env
  cv_hm_order :: "(u8 list \<times> rrf_accum) list \<Rightarrow> (u8 list \<times> rrf_accum) list"
  cv_join_order :: "'w \<Rightarrow> nat list \<Rightarrow> nat list"
  cv_adapters :: "'w adapters"

definition priority_of :: "upstream_pool \<Rightarrow> nat \<Rightarrow> u32" where
  "priority_of po i = pu_priority (po_upstreams po ! i)"

definition cascade_order :: "upstream_pool \<Rightarrow> nat list" where
  "cascade_order po = sort_key (priority_of po) (pool_candidates po)"

definition preference_match :: "env \<Rightarrow> rstr \<Rightarrow> pooled_upstream \<Rightarrow> bool" where
  "preference_match E pref u \<longleftrightarrow>
     str_contains (map to_ascii_lowercase (upstream_type_as_str (upstream_type_of u))) (to_lowercase E pref)
     \<or> str_contains (map to_ascii_lowercase (pu_id u)) (to_lowercase E pref)"

text \<open>The key \<open>(u32, u32)\<close>, whose first part is 0 or 1, as one number of the same order.\<close>

definition preference_key :: "env \<Rightarrow> rstr \<Rightarrow> upstream_pool \<Rightarrow> nat \<Rightarrow> nat" where
  "preference_key E pref po i =
     (if preference_match E pref (po_upstreams po ! i) then 0 else 2 ^ 32) + unat (priority_of po i)"

definition cascade_order_with_preference :: "env \<Rightarrow> rstr option \<Rightarrow> upstream_pool \<Rightarrow> nat list" where
  "cascade_order_with_preference E preferred po =
     (case preferred of
        None \<Rightarrow> cascade_order po
      | Some pref \<Rightarrow> sort_key (preference_key E pref po) (cascade_order po))"

text \<open>A \<open>BTreeMap\<close> by priority, each group in the order of the list.\<close>

definition group_by_priority :: "upstream_pool \<Rightarrow> nat list \<Rightarrow> nat list list" where
  "group_by_priority po us =
     map (\<lambda>p. filter (\<lambda>i. priority_of po i = p) us) (sort (remdups (map (priority_of po) us)))"

section \<open>The executor\<close>

record 'w cascade_run =
  ca_world :: 'w
  ca_pool :: upstream_pool
  ca_metrics :: "proxy_metrics option"
  ca_tried :: "rstr list"
  ca_scores :: "upstream_score list"
  ca_best :: "(rstr \<times> search_result list \<times> fl) option"
  ca_depth :: nat

definition on_cascade_metrics :: "(proxy_metrics \<Rightarrow> proxy_metrics) \<Rightarrow> 'w cascade_run \<Rightarrow> 'w cascade_run" where
  "on_cascade_metrics f st = st\<lparr>ca_metrics := map_option f (ca_metrics st)\<rparr>"

definition cascade_elapsed :: "'w cascade_env \<Rightarrow> instant \<Rightarrow> 'w cascade_run \<Rightarrow> duration" where
  "cascade_elapsed V start st = elapsed (ad_instant (cv_adapters V) (ca_world st)) start"

definition best_result ::
  "'w cascade_env \<Rightarrow> instant \<Rightarrow> cascade_stop_reason \<Rightarrow> nat \<Rightarrow> 'w cascade_run \<Rightarrow> cascade_result" where
  "best_result V start reason depth st =
     \<lparr>cr_results = (case ca_best st of Some (_, rs, _) \<Rightarrow> rs | None \<Rightarrow> []),
      cr_upstreams_tried = ca_tried st,
      cr_final_upstream = map_option fst (ca_best st),
      cr_stop_reason = reason, cr_upstream_scores = ca_scores st,
      cr_cascade_time_ms = as_millis_u64 (cascade_elapsed V start st), cr_cascade_depth = depth\<rparr>"

text \<open>The checks of depth and time at the head of the loops.\<close>

definition cascade_guard ::
  "'w cascade_env \<Rightarrow> cascade_config \<Rightarrow> instant \<Rightarrow> 'w cascade_run \<Rightarrow> cascade_result option \<times> 'w cascade_run" where
  "cascade_guard V c start st =
     (if ca_depth st \<ge> cf_max_cascade_depth c
      then (Some (best_result V start MaxDepthReached (ca_depth st) st),
            on_cascade_metrics (record_cascade_depth (ca_depth st)) st)
      else if cascade_elapsed V start st > cascade_timeout c
      then (Some (best_result V start CascadeTimeout (ca_depth st) st),
            on_cascade_metrics record_cascade_timeout st)
      else (None, st))"

definition better_than :: "fl \<Rightarrow> (rstr \<times> search_result list \<times> fl) option \<Rightarrow> bool" where
  "better_than x best \<longleftrightarrow> (case best of None \<Rightarrow> True | Some (_, _, y) \<Rightarrow> fl_less y x)"

text \<open>One upstream of the sequential path.\<close>

definition try_upstream ::
  "'w cascade_env \<Rightarrow> cascade_config \<Rightarrow> query_request \<Rightarrow> instant \<Rightarrow> nat \<Rightarrow> 'w cascade_run \<Rightarrow>
   cascade_result option \<times> 'w cascade_run" where
  "try_upstream V c request start i st =
     (let A = cv_adapters V; u = po_upstreams (ca_pool st) ! i; uid = pu_id u;
          t = upstream_type_of u; mode = pu_query_mode u;
          query_start = ad_instant A (ca_world st);
          st1 = st\<lparr>ca_tried := ca_tried st @ [uid]\<rparr>
      in case query_pooled A i request (ca_world st1) of
           (Inr response, w) \<Rightarrow>
             let results = tag_results uid (qr_results response);
                 mx = max_score_or_zero results;
                 normalized = normalize_score mx t;
                 met = meets_threshold c normalized results;
                 score = \<lparr>us_upstream_id = uid, us_upstream_type = t, us_query_mode = mode, us_max_score = mx,
                          us_normalized_score = normalized, us_result_count = length results,
                          us_latency_ms = as_millis_u64 (elapsed (ad_instant A w) query_start),
                          us_met_threshold = met, us_error = None\<rparr>;
                 st2 = st1\<lparr>ca_world := w, ca_scores := ca_scores st1 @ [score],
                           ca_pool := on_upstream i (upstream_record_success (ad_now_ms A w)) (ca_pool st1)\<rparr>
             in if met
                then (Some \<lparr>cr_results = results, cr_upstreams_tried = ca_tried st2, cr_final_upstream = Some uid,
                            cr_stop_reason = ThresholdMet, cr_upstream_scores = ca_scores st2,
                            cr_cascade_time_ms = as_millis_u64 (cascade_elapsed V start st2),
                            cr_cascade_depth = Suc (ca_depth st2)\<rparr>,
                      on_cascade_metrics (record_cascade_success (Suc (ca_depth st2))) st2)
                else (None, st2\<lparr>ca_best := (if better_than normalized (ca_best st2)
                                             then Some (uid, results, normalized) else ca_best st2),
                                ca_depth := Suc (ca_depth st2)\<rparr>)
         | (Inl e, w) \<Rightarrow>
             let score = \<lparr>us_upstream_id = uid, us_upstream_type = t, us_query_mode = mode, us_max_score = 0,
                          us_normalized_score = Fin 0, us_result_count = 0,
                          us_latency_ms = as_millis_u64 (elapsed (ad_instant A w) query_start),
                          us_met_threshold = False, us_error = Some (upstream_error_display e)\<rparr>
             in (None, st1\<lparr>ca_world := w, ca_scores := ca_scores st1 @ [score],
                           ca_pool := on_upstream i (upstream_record_failure (ad_now_ms A w)) (ca_pool st1),
                           ca_depth := Suc (ca_depth st1)\<rparr>))"

fun sequential_group ::
  "'w cascade_env \<Rightarrow> cascade_config \<Rightarrow> query_request \<Rightarrow> instant \<Rightarrow> nat list \<Rightarrow> 'w cascade_run \<Rightarrow>
   cascade_result option \<times> 'w cascade_run" where
  "sequential_group V c request start [] st = (None, st)"
| "sequential_group V c request start (i # is) st =
     (case cascade_guard V c start st of
        (Some r, st1) \<Rightarrow> (Some r, st1)
      | (None, st1) \<Rightarrow>
          (case try_upstream V c request start i st1 of
             (Some r, st2) \<Rightarrow> (Some r, st2)
           | (None, st2) \<Rightarrow> sequential_group V c request start is st2))"


text \<open>The parallel path: the queries of a group, joined in the order of their completion.\<close>

record rrf_group_outcome =
  ro_fused_results :: "search_result list option"
  ro_met_threshold :: bool
  ro_best_normalized :: fl
  ro_upstream_ids :: "rstr list"
  ro_scores :: "upstream_score list"

record rrf_joined =
  rj_upstream_ids :: "rstr list"
  rj_scores :: "upstream_score list"
  rj_lists :: "(rstr \<times> search_result list) list"
  rj_best :: fl

definition join_one ::
  "cascade_config \<Rightarrow> pooled_upstream \<Rightarrow> u64 \<Rightarrow> search_result list \<Rightarrow> rstr option \<Rightarrow> rrf_joined \<Rightarrow> rrf_joined" where
  "join_one c u latency_ms results err j =
     (let uid = pu_id u; t = upstream_type_of u; mx = max_score_or_zero results; norm = normalize_score mx t;
          score = \<lparr>us_upstream_id = uid, us_upstream_type = t, us_query_mode = pu_query_mode u, us_max_score = mx,
                   us_normalized_score = norm, us_result_count = length results, us_latency_ms = latency_ms,
                   us_met_threshold = meets_threshold c norm results, us_error = err\<rparr>;
          j1 = j\<lparr>rj_upstream_ids := rj_upstream_ids j @ [uid], rj_scores := rj_scores j @ [score]\<rparr>
      in if results = [] then j1
         else j1\<lparr>rj_best := (if fl_less (rj_best j1) norm then norm else rj_best j1),
                 rj_lists := rj_lists j1 @ [(uid, results)]\<rparr>)"

fun join_all ::
  "'w cascade_env \<Rightarrow> cascade_config \<Rightarrow> query_request \<Rightarrow> instant \<Rightarrow> instant \<Rightarrow> nat list \<Rightarrow> rrf_joined \<Rightarrow>
   'w cascade_run \<Rightarrow> rrf_joined \<times> 'w cascade_run" where
  "join_all V c request start query_start [] j st = (j, st)"
| "join_all V c request start query_start (i # is) j st =
     (let A = cv_adapters V; u = po_upstreams (ca_pool st) ! i;
          (answer, w) = query_pooled A i request (ca_world st);
          results = (case answer of Inr response \<Rightarrow> tag_results (pu_id u) (qr_results response) | Inl _ \<Rightarrow> []);
          err = (case answer of Inr _ \<Rightarrow> None | Inl e \<Rightarrow> Some (upstream_error_display e));
          note_outcome = (case answer of Inr _ \<Rightarrow> upstream_record_success | Inl _ \<Rightarrow> upstream_record_failure);
          st1 = st\<lparr>ca_world := w, ca_pool := on_upstream i (note_outcome (ad_now_ms A w)) (ca_pool st)\<rparr>
      in if cascade_elapsed V start st1 > cascade_timeout c then (j, st1)
         else join_all V c request start query_start is
                (join_one c u (as_millis_u64 (elapsed (ad_instant A w) query_start)) results err j) st1)"

definition run_rrf_group ::
  "'w cascade_env \<Rightarrow> cascade_config \<Rightarrow> query_request \<Rightarrow> instant \<Rightarrow> nat list \<Rightarrow> 'w cascade_run \<Rightarrow>
   rrf_group_outcome \<times> 'w cascade_run" where
  "run_rrf_group V c request start g st =
     (let A = cv_adapters V;
          (j, st1) = join_all V c request start (ad_instant A (ca_world st)) (cv_join_order V (ca_world st) g)
                       \<lparr>rj_upstream_ids = [], rj_scores = [], rj_lists = [], rj_best = Fin 0\<rparr> st
      in if rj_lists j = []
         then (\<lparr>ro_fused_results = None, ro_met_threshold = False, ro_best_normalized = Fin 0,
                ro_upstream_ids = rj_upstream_ids j, ro_scores = rj_scores j\<rparr>, st1)
         else let limit = max (case rq_top_k request of Some k \<Rightarrow> k | None \<Rightarrow> 10) 1;
                  fused = fuse_rrf (cv_env V) (cv_hm_order V) (rj_lists j) (cf_rrf_k c) limit
              in (\<lparr>ro_fused_results = Some fused,
                   ro_met_threshold = (fused \<noteq> [] \<and> meets_threshold c (rj_best j) fused),
                   ro_best_normalized = rj_best j, ro_upstream_ids = rj_upstream_ids j,
                   ro_scores = rj_scores j\<rparr>, st1))"

definition try_rrf_group ::
  "'w cascade_env \<Rightarrow> cascade_config \<Rightarrow> query_request \<Rightarrow> instant \<Rightarrow> nat list \<Rightarrow> 'w cascade_run \<Rightarrow>
   cascade_result option \<times> 'w cascade_run" where
  "try_rrf_group V c request start g st =
     (let (o', st1) = run_rrf_group V c request start g st;
          st2 = st1\<lparr>ca_depth := ca_depth st1 + length g, ca_tried := ca_tried st1 @ ro_upstream_ids o',
                    ca_scores := ca_scores st1 @ ro_scores o'\<rparr>
      in case ro_fused_results o' of
           None \<Rightarrow> (None, st2)
         | Some fused \<Rightarrow>
             if ro_met_threshold o'
             then (Some \<lparr>cr_results = fused, cr_upstreams_tried = ca_tried st2, cr_final_upstream = None,
                         cr_stop_reason = ThresholdMet, cr_upstream_scores = ca_scores st2,
                         cr_cascade_time_ms = as_millis_u64 (cascade_elapsed V start st2),
                         cr_cascade_depth = ca_depth st2\<rparr>,
                   on_cascade_metrics (record_cascade_success (ca_depth st2)) st2)
             else (None, st2\<lparr>ca_best := (if better_than (ro_best_normalized o') (ca_best st2)
                      then Some (case ro_upstream_ids o' of i # _ \<Rightarrow> i | [] \<Rightarrow> [], fused, ro_best_normalized o')
                      else ca_best st2)\<rparr>))"

fun try_groups ::
  "'w cascade_env \<Rightarrow> cascade_config \<Rightarrow> query_request \<Rightarrow> instant \<Rightarrow> nat list list \<Rightarrow> 'w cascade_run \<Rightarrow>
   cascade_result option \<times> 'w cascade_run" where
  "try_groups V c request start [] st = (None, st)"
| "try_groups V c request start (g # gs) st =
     (case cascade_guard V c start st of
        (Some r, st1) \<Rightarrow> (Some r, st1)
      | (None, st1) \<Rightarrow>
          (case (if cf_fusion_method c = Rrf \<and> length g \<ge> 2 then try_rrf_group V c request start g st1
                 else sequential_group V c request start g st1) of
             (Some r, st2) \<Rightarrow> (Some r, st2)
           | (None, st2) \<Rightarrow> try_groups V c request start gs st2))"

definition bare_result :: "'w cascade_env \<Rightarrow> instant \<Rightarrow> cascade_stop_reason \<Rightarrow> 'w cascade_run \<Rightarrow> cascade_result" where
  "bare_result V start reason st =
     \<lparr>cr_results = [], cr_upstreams_tried = [], cr_final_upstream = None, cr_stop_reason = reason,
      cr_upstream_scores = [], cr_cascade_time_ms = as_millis_u64 (cascade_elapsed V start st),
      cr_cascade_depth = 0\<rparr>"

definition query_single_targeted ::
  "'w cascade_env \<Rightarrow> query_request \<Rightarrow> nat \<Rightarrow> instant \<Rightarrow> 'w cascade_run \<Rightarrow> cascade_result \<times> 'w cascade_run" where
  "query_single_targeted V request i start st =
     (let A = cv_adapters V; uid = pu_id (po_upstreams (ca_pool st) ! i);
          (answer, w, po) = attempt A i request (ca_world st) (ca_pool st);
          st1 = st\<lparr>ca_world := w, ca_pool := po\<rparr>
      in (\<lparr>cr_results = (case answer of Inr response \<Rightarrow> qr_results response | Inl _ \<Rightarrow> []),
           cr_upstreams_tried = [uid],
           cr_final_upstream = (case answer of Inr _ \<Rightarrow> Some uid | Inl _ \<Rightarrow> None),
           cr_stop_reason = (case answer of Inr _ \<Rightarrow> ThresholdMet | Inl _ \<Rightarrow> AllExhausted),
           cr_upstream_scores = [], cr_cascade_time_ms = as_millis_u64 (cascade_elapsed V start st1),
           cr_cascade_depth = 1\<rparr>, st1))"

text \<open>The cascade proper, after the targeted upstream.\<close>

definition cascade_groups ::
  "'w cascade_env \<Rightarrow> cascade_config \<Rightarrow> query_request \<Rightarrow> instant \<Rightarrow> 'w cascade_run \<Rightarrow> cascade_result \<times> 'w cascade_run" where
  "cascade_groups V c request start st =
     (let us = cascade_order_with_preference (cv_env V) (rq_upstream_type request) (ca_pool st)
      in if us = [] then (bare_result V start NoUpstreams st, st)
         else case try_groups V c request start (group_by_priority (ca_pool st) us) st of
                (Some r, st1) \<Rightarrow> (r, st1)
              | (None, st1) \<Rightarrow>
                  let depth = length (ca_tried st1);
                      st2 = on_cascade_metrics (record_cascade_depth depth)
                              (on_cascade_metrics record_cascade_exhausted st1)
                  in (best_result V start AllExhausted depth st2, st2))"

definition cascade_start :: "'w \<Rightarrow> upstream_pool \<Rightarrow> proxy_metrics option \<Rightarrow> 'w cascade_run" where
  "cascade_start w po m =
     \<lparr>ca_world = w, ca_pool = po, ca_metrics = m, ca_tried = [], ca_scores = [], ca_best = None, ca_depth = 0\<rparr>"

definition cascade_query ::
  "'w cascade_env \<Rightarrow> cascade_config \<Rightarrow> query_request \<Rightarrow> 'w cascade_run \<Rightarrow> cascade_result \<times> 'w cascade_run" where
  "cascade_query V c request st =
     (let start = ad_instant (cv_adapters V) (ca_world st)
      in if \<not> cf_enabled c then (bare_result V start CascadeDisabled st, st)
         else case Option.bind (rq_upstream_id request) (\<lambda>t. pool_get t (ca_pool st)) of
                Some i \<Rightarrow>
                  (let (r, st1) = query_single_targeted V request i start st
                   in if cr_results r \<noteq> [] then (r, st1) else cascade_groups V c request start st1)
              | None \<Rightarrow> cascade_groups V c request start st)"


section \<open>Fusion\<close>

definition content_key :: "env \<Rightarrow> search_result \<Rightarrow> u8 list" where
  "content_key E r = blake3 E (as_bytes (sr_content r))"

definition accum_ok :: "env \<Rightarrow> search_result set \<Rightarrow> (u8 list \<times> rrf_accum) list \<Rightarrow> bool" where
  "accum_ok E R acc \<longleftrightarrow>
     distinct (map fst acc) \<and> fst ` set acc = content_key E ` R
     \<and> (\<forall>(k, a) \<in> set acc. content_key E (rf_best a) = k \<and> rf_best a \<in> R)"

lemma accum_ok_enter:
  assumes "accum_ok E R acc"
  shows "accum_ok E (insert r R) (rrf_enter E k (rank, r) acc)"
proof -
  let ?key = "content_key E r"
  have d: "distinct (map fst acc)" and ks: "fst ` set acc = content_key E ` R"
    and bs: "\<And>k a. (k, a) \<in> set acc \<Longrightarrow> content_key E (rf_best a) = k \<and> rf_best a \<in> R"
    using assms by (auto simp: accum_ok_def)
  obtain a where a: "rrf_enter E k (rank, r) acc = AList.update ?key a acc"
    "content_key E (rf_best a) = ?key" "rf_best a \<in> insert r R"
  proof (cases "map_of acc ?key")
    case None
    then show ?thesis
      using that [of "\<lparr>rf_score = rrf_weight k rank, rf_best = r\<rparr>"] by (simp add: rrf_enter_def content_key_def)
  next
    case (Some b)
    then have "content_key E (rf_best b) = ?key \<and> rf_best b \<in> R" using bs map_of_SomeD by fast
    then show ?thesis
      using that [of "rrf_add (rrf_weight k rank) r b"] Some
      by (simp add: rrf_enter_def rrf_add_def content_key_def)
  qed
  have "(j, b) \<in> set (AList.update ?key a acc) \<Longrightarrow> (j, b) = (?key, a) \<or> (j, b) \<in> set acc" for j b
    using d by (metis distinct_update map_of_eq_Some_iff update_conv' fun_upd_apply option.inject)
  moreover have "fst ` set (AList.update ?key a acc) = insert ?key (fst ` set acc)"
    using arg_cong [OF update_keys [of ?key a acc], of set] by auto
  ultimately show ?thesis
    using d ks bs a by (fastforce simp: accum_ok_def distinct_update)
qed

lemma accum_ok_list:
  "accum_ok E R acc \<Longrightarrow> accum_ok E (R \<union> set rs) (fold (rrf_enter E k) (enumerate n rs) acc)"
proof (induction rs arbitrary: n R acc)
  case (Cons r rs)
  from Cons.IH [OF accum_ok_enter [OF Cons.prems]] show ?case by (simp add: insert_commute)
qed simp

lemma accum_ok_collect: "accum_ok E (\<Union>(_, rs) \<in> set ranked. set rs) (rrf_collect E k ranked)"
proof -
  have "accum_ok E (R \<union> (\<Union>(_, rs) \<in> set ranked. set rs))
      (fold (\<lambda>(_, rs). fold (rrf_enter E k) (enumerate 0 rs)) ranked acc)" if "accum_ok E R acc" for R acc
    using that
  proof (induction ranked arbitrary: R acc)
    case (Cons x ranked)
    obtain i rs where x: "x = (i, rs)" by (cases x)
    from Cons.IH [OF accum_ok_list [OF Cons.prems, of rs k 0]] show ?case by (simp add: x Un_assoc)
  qed simp
  from this [of "{}" "[]"] show ?thesis by (simp add: rrf_collect_def accum_ok_def)
qed

lemma mset_insert_desc: "mset (insert_desc x ys) = add_mset x (mset ys)"
  by (induction ys) auto

lemma mset_sort_desc [simp]: "mset (sort_desc xs) = mset xs"
  by (induction xs) (simp_all add: sort_desc_def mset_insert_desc)

text \<open>Reciprocal rank fusion deduplicates and keeps within its limit: the fused list has at most the
  requested number of results, each taken from one of the lists, no two of them have contents with the
  same hash, and when the limit allows it every content of the lists is represented. This holds for
  every order in which the hash map yields its values.\<close>

theorem fuse_rrf_dedup:
  assumes "\<forall>xs. mset (hm_order xs) = mset xs"
  shows "let fused = fuse_rrf E hm_order ranked k limit; all = (\<Union>(_, rs) \<in> set ranked. set rs)
    in length fused \<le> limit \<and> set fused \<subseteq> all \<and> distinct (map (content_key E) fused)
       \<and> (card (content_key E ` all) \<le> limit \<longrightarrow> content_key E ` set fused = content_key E ` all)"
proof -
  let ?acc = "rrf_collect E k ranked" and ?all = "\<Union>(_, rs) \<in> set ranked. set rs"
  let ?vals = "map (\<lambda>(_, a). (rf_score a, rf_best a)) (hm_order ?acc)"
  have ok: "accum_ok E ?all ?acc" by (rule accum_ok_collect)
  have perm: "mset (hm_order ?acc) = mset ?acc" using assms by blast
  then have set: "set (hm_order ?acc) = set ?acc" by (rule mset_eq_setD)
  have key: "content_key E (rf_best a) = j" "rf_best a \<in> ?all" if "(j, a) \<in> set ?acc" for j a
    using ok that by (auto simp: accum_ok_def)
  have bests: "map (\<lambda>x. content_key E (snd x)) ?vals = map fst (hm_order ?acc)"
    using key(1) set by (auto simp: comp_def)
  have mk: "mset (map (\<lambda>x. content_key E (snd x)) (sort_desc ?vals)) = mset (map fst ?acc)"
  proof -
    have "mset (map (\<lambda>x. content_key E (snd x)) (sort_desc ?vals)) = mset (map (\<lambda>x. content_key E (snd x)) ?vals)"
      by (simp only: mset_map mset_sort_desc)
    also have "\<dots> = mset (map fst (hm_order ?acc))" by (simp only: bests)
    also have "\<dots> = mset (map fst ?acc)" by (simp add: perm)
    finally show ?thesis .
  qed
  have dist: "distinct (map (\<lambda>x. content_key E (snd x)) (sort_desc ?vals))"
    using ok mset_eq_imp_distinct_iff [OF mk] by (simp add: accum_ok_def)
  have keys: "set (map (\<lambda>x. content_key E (snd x)) (sort_desc ?vals)) = content_key E ` ?all"
    using ok mset_eq_setD [OF mk] by (simp add: accum_ok_def)
  have len: "length (sort_desc ?vals) = card (content_key E ` ?all)"
    using distinct_card [OF dist] keys by simp
  have f: "fuse_rrf E hm_order ranked k limit = map snd (take limit (sort_desc ?vals))"
    by (simp add: fuse_rrf_def)
  have mem: "set (sort_desc ?vals) = set ?vals" using mset_eq_setD [OF mset_sort_desc] .
  have "set (map snd (take limit (sort_desc ?vals))) \<subseteq> ?all"
    using key(2) set mem by (fastforce dest: in_set_takeD)
  moreover have "distinct (map (content_key E) (map snd (take limit (sort_desc ?vals))))"
    using distinct_take [OF dist, of limit] by (simp add: take_map comp_def)
  moreover have "content_key E ` set (map snd (take limit (sort_desc ?vals))) = content_key E ` ?all"
    if "card (content_key E ` ?all) \<le> limit"
    using that len keys by (simp add: image_image)
  ultimately show ?thesis by (simp add: f Let_def)
qed

definition demo_hit :: "string \<Rightarrow> search_result" where
  "demo_hit c = \<lparr>sr_id = lit ''h'', sr_score = 0, sr_content = lit c, sr_metadata = None, sr_upstream_id = None\<rparr>"

theorem fuse_rrf_dedup_witness:
  "length (fuse_rrf trivial_env (\<lambda>xs. xs) [(lit ''a'', [demo_hit ''x'', demo_hit ''y'']), (lit ''b'', [demo_hit ''x''])] 60 5) \<le> 5
   \<and> content_key trivial_env ` set (fuse_rrf trivial_env (\<lambda>xs. xs)
       [(lit ''a'', [demo_hit ''x'', demo_hit ''y'']), (lit ''b'', [demo_hit ''x''])] 60 5)
     = content_key trivial_env ` {demo_hit ''x'', demo_hit ''y''}"
proof -
  have "card (content_key trivial_env ` {demo_hit ''x'', demo_hit ''y''}) \<le> 5"
    by (rule order_trans [OF card_image_le]) (auto simp: card_insert_if)
  then show ?thesis
    using fuse_rrf_dedup [of "\<lambda>xs. xs" trivial_env
        "[(lit ''a'', [demo_hit ''x'', demo_hit ''y'']), (lit ''b'', [demo_hit ''x''])]" 60 5]
    by (simp add: Let_def insert_absorb insert_commute)
qed

end
