(* ===== verification/RateLimit.thy ===== *)
theory RateLimit
  imports Doubles
begin

text \<open>
  The token bucket of \<open>src/src/proxy/middleware.rs\<close>: a bucket of thousandths of tokens that is
  refilled by \<open>f64\<close> arithmetic from the time elapsed, and from which a request takes one token.
\<close>

record rate_limiter =
  rl_capacity :: u32
  rl_refill_rate :: u32
  rl_tokens :: u64
  rl_last_refill :: instant

definition limiter_new :: "instant \<Rightarrow> u32 \<Rightarrow> u32 \<Rightarrow> rate_limiter" where
  "limiter_new now requests_per_second burst_size =
     \<lparr>rl_capacity = burst_size, rl_refill_rate = requests_per_second,
      rl_tokens = sat_mul (ucast burst_size) 1000, rl_last_refill = now\<rparr>"

definition tokens_to_add :: "duration \<Rightarrow> u32 \<Rightarrow> nat" where
  "tokens_to_add el rate =
     fl_as_u64 (f64_mul (f64_mul (as_secs_f64 el) (nat_as_f64 (unat rate))) (Fin 1000))"

definition limiter_refill :: "instant \<Rightarrow> rate_limiter \<Rightarrow> rate_limiter" where
  "limiter_refill now l =
     (let el = elapsed now (rl_last_refill l)
      in if el \<ge> from_millis 1
         then l\<lparr>rl_tokens := min (sat_add (rl_tokens l) (of_nat (tokens_to_add el (rl_refill_rate l))))
                                 (sat_mul (ucast (rl_capacity l)) 1000),
                rl_last_refill := now\<rparr>
         else l)"

definition try_acquire :: "instant \<Rightarrow> rate_limiter \<Rightarrow> bool \<times> rate_limiter" where
  "try_acquire now l =
     (let l1 = limiter_refill now l
      in if rl_tokens l1 < 1000 then (False, l1)
         else (True, l1\<lparr>rl_tokens := sat_sub (rl_tokens l1) 1000\<rparr>))"

definition available_tokens :: "instant \<Rightarrow> rate_limiter \<Rightarrow> u32 \<times> rate_limiter" where
  "available_tokens now l =
     (let l1 = limiter_refill now l in (ucast (rl_tokens l1 div 1000), l1))"

text \<open>How many requests of a sequence are let through, and the bucket afterwards.\<close>

fun run_acquires :: "instant list \<Rightarrow> rate_limiter \<Rightarrow> nat \<times> rate_limiter" where
  "run_acquires [] l = (0, l)"
| "run_acquires (t # ts) l =
     (let (ok, l1) = try_acquire t l; (n, l2) = run_acquires ts l1
      in ((if ok then 1 else 0) + n, l2))"

section \<open>What a refill adds\<close>

definition exact_tokens :: "duration \<Rightarrow> u32 \<Rightarrow> rat" where
  "exact_tokens el rate = of_nat el / 10 ^ 9 * of_nat (unat rate) * 1000"

lemma safe64_of_nat: "k < 2 ^ 200 \<Longrightarrow> safe64 (of_nat k)"
proof (rule safe64_range)
  assume "k < 2 ^ 200"
  then have "(of_nat k :: rat) < 2 ^ 200" by (metis of_nat_less_iff of_nat_numeral of_nat_power)
  moreover have "(2 :: rat) ^ 200 \<le> 2 ^ 300" by simp
  ultimately show "(of_nat k :: rat) = 0 \<or> 1 / 10 ^ 9 \<le> (of_nat k :: rat) \<and> (of_nat k :: rat) \<le> 2 ^ 300"
    by (cases k) auto
qed

lemma safe64_scaled:
  assumes "k < 2 ^ 200"
  shows "safe64 (of_nat k / 10 ^ 9)"
proof (cases "k = 0")
  case False
  have "(of_nat k :: rat) < 2 ^ 200" using assms by (metis of_nat_less_iff of_nat_numeral of_nat_power)
  moreover have "(2 :: rat) ^ 200 \<le> 2 ^ 300 * 10 ^ 9" by simp
  ultimately have "of_nat k / 10 ^ 9 \<le> (2 :: rat) ^ 300" by (simp add: divide_le_eq)
  moreover have "1 / 10 ^ 9 \<le> (of_nat k / 10 ^ 9 :: rat)" using False by (simp add: divide_right_mono)
  ultimately show ?thesis by (intro safe64_range) blast
qed (simp add: safe64_def)

lemma duration_split: "(of_nat (d div 10 ^ 9) :: rat) + of_nat (d mod 10 ^ 9) / 10 ^ 9 = of_nat d / 10 ^ 9"
proof -
  have "(of_nat d :: rat) = of_nat (d div 10 ^ 9 * 10 ^ 9 + d mod 10 ^ 9)" by simp
  also have "\<dots> = of_nat (d div 10 ^ 9) * 10 ^ 9 + of_nat (d mod 10 ^ 9)"
    by (simp only: of_nat_add of_nat_mult) simp
  finally show ?thesis by (simp add: field_simps)
qed

lemma as_secs_f64_near:
  assumes "d \<le> duration_max"
  shows "near 3 (of_nat d / 10 ^ 9) (as_secs_f64 d)"
proof -
  have big: "d < 2 ^ 200" using assms by (simp add: duration_max_def nanos_per_sec_def)
  let ?s = "d div 10 ^ 9" and ?n = "d mod 10 ^ 9"
  have s: "?s < 2 ^ 200" using big by (meson div_le_dividend le_less_trans)
  have n: "?n < 2 ^ 200" by (rule less_trans [OF mod_less_divisor]) simp_all
  have "near 1 (of_nat ?s) (nat_as_f64 ?s)" using s by (intro near_nat safe64_of_nat)
  then have ns: "near 2 (of_nat ?s) (nat_as_f64 ?s)" by (rule near_mono) simp_all
  have "near 1 (of_nat ?n) (nat_as_f64 ?n)" using n by (intro near_nat safe64_of_nat)
  then have "near (Suc 1) (of_nat ?n / 10 ^ 9) (f64_div_const (nat_as_f64 ?n) (10 ^ 9))"
    using n by (intro near_div_const safe64_scaled) simp_all
  then have nn: "near 2 (of_nat ?n / 10 ^ 9) (f64_div_const (nat_as_f64 ?n) (10 ^ 9))"
    by (simp add: numeral_2_eq_2)
  have sf: "safe64 (of_nat ?s + of_nat ?n / 10 ^ 9)"
    by (simp only: duration_split safe64_scaled [OF big])
  have "near (Suc 2) (of_nat ?s + of_nat ?n / 10 ^ 9)
      (f64_add (nat_as_f64 ?s) (f64_div_const (nat_as_f64 ?n) (10 ^ 9)))"
    by (intro near_add [OF ns nn] sf) simp_all
  then show ?thesis
    unfolding as_secs_f64_def duration_split by (simp only: numeral_3_eq_3 numeral_2_eq_2)
qed

text \<open>The number of thousandths added, before the cast: six roundings away from the exact one.\<close>

lemma tokens_near:
  assumes "el \<le> duration_max"
  shows "near 6 (exact_tokens el rate)
    (f64_mul (f64_mul (as_secs_f64 el) (nat_as_f64 (unat rate))) (Fin 1000))"
proof -
  let ?r = "unat rate" and ?x = "of_nat el / 10 ^ 9 :: rat"
  have r32: "?r < 2 ^ 32" using unat_bound [of rate] by simp
  have e94: "el < 2 ^ 94" using assms by (simp add: duration_max_def nanos_per_sec_def)
  have er: "el * ?r < 2 ^ 94 * 2 ^ 32" using e94 r32 by (intro mult_strict_mono) auto
  have er1: "el * ?r < 2 ^ 200" by (rule less_trans [OF er]) simp
  have er2: "el * ?r * 1000 < 2 ^ 200"
  proof -
    have "el * ?r * 1000 < 2 ^ 94 * 2 ^ 32 * 1000" using er by simp
    also have "\<dots> < 2 ^ 200" by simp
    finally show ?thesis .
  qed
  have xr: "?x * of_nat ?r = of_nat (el * ?r) / 10 ^ 9" by simp
  have xr2: "?x * of_nat ?r * 1000 = of_nat (el * ?r * 1000) / 10 ^ 9" by simp
  have s1: "safe64 (?x * of_nat ?r)" unfolding xr using er1 by (rule safe64_scaled)
  have s2: "safe64 (?x * of_nat ?r * 1000)" unfolding xr2 using er2 by (rule safe64_scaled)
  have "near 1 (of_nat ?r) (nat_as_f64 ?r)"
  proof (intro near_nat safe64_of_nat)
    show "?r < 2 ^ 200" by (rule less_trans [OF r32]) simp
  qed
  then have n5: "near (Suc (3 + 1)) (?x * of_nat ?r) (f64_mul (as_secs_f64 el) (nat_as_f64 ?r))"
    by (intro near_mul [OF as_secs_f64_near [OF assms]] s1) (simp_all del: of_nat_unat)
  have n0: "near 0 1000 (Fin 1000)" by (simp add: near_def)
  have "near (Suc (Suc (3 + 1) + 0)) (?x * of_nat ?r * 1000)
      (f64_mul (f64_mul (as_secs_f64 el) (nat_as_f64 ?r)) (Fin 1000))"
    by (rule near_mul [OF n5 n0 _ _ _ s2]) (simp_all del: of_nat_unat)
  then show ?thesis by (simp add: exact_tokens_def)
qed

definition slack :: rat where "slack = 1 / 2 ^ 50"

lemma exact_tokens_nonneg [simp]: "0 \<le> exact_tokens el rate"
  by (simp add: exact_tokens_def del: of_nat_unat)

lemma tokens_bounds:
  assumes "el \<le> duration_max"
  shows "of_nat (tokens_to_add el rate) \<le> (1 + slack) * exact_tokens el rate"
    and "of_nat k \<le> (1 - slack) * exact_tokens el rate \<Longrightarrow> k < 2 ^ 64 \<Longrightarrow> k \<le> tokens_to_add el rate"
proof -
  let ?v = "f64_mul (f64_mul (as_secs_f64 el) (nat_as_f64 (unat rate))) (Fin 1000)"
  obtain r where r: "?v = Fin r" and lo: "(1 - ulp64) ^ 6 * exact_tokens el rate \<le> r"
    and hi: "r \<le> (1 + ulp64) ^ 6 * exact_tokens el rate"
    using tokens_near [OF assms, of rate] by (auto simp: near_def split: fl.splits)
  have h: "(1 + ulp64) ^ 6 \<le> 1 + slack" "1 - slack \<le> (1 - ulp64) ^ 6"
    by (simp_all add: ulp64_def slack_def power_divide)
  have hi': "r \<le> (1 + slack) * exact_tokens el rate"
    using hi mult_right_mono [OF h(1) exact_tokens_nonneg [of el rate]] by linarith
  have lo': "(1 - slack) * exact_tokens el rate \<le> r"
    using lo mult_right_mono [OF h(2) exact_tokens_nonneg [of el rate]] by linarith
  have "0 \<le> (1 - slack) * exact_tokens el rate" by (simp add: slack_def)
  then have r0: "0 \<le> r" using lo' by linarith
  have t: "tokens_to_add el rate = min (nat \<lfloor>r\<rfloor>) (2 ^ 64 - 1)" by (simp add: tokens_to_add_def r)
  have "of_nat (tokens_to_add el rate) \<le> (of_nat (nat \<lfloor>r\<rfloor>) :: rat)"
    unfolding of_nat_le_iff by (simp add: t)
  also have "\<dots> \<le> r" using r0 by simp
  finally show "of_nat (tokens_to_add el rate) \<le> (1 + slack) * exact_tokens el rate" using hi' by linarith
  show "k \<le> tokens_to_add el rate" if "of_nat k \<le> (1 - slack) * exact_tokens el rate" "k < 2 ^ 64"
  proof -
    have "of_nat k \<le> r" using that(1) lo' by linarith
    then have "int k \<le> \<lfloor>r\<rfloor>" by (simp add: le_floor_iff)
    then have "k \<le> nat \<lfloor>r\<rfloor>" by linarith
    then show ?thesis using that(2) by (simp add: t)
  qed
qed

section \<open>Properties\<close>

lemma unat_min: "unat (min a b) = min (unat a) (unat b)"
  by (simp add: min_def word_le_nat_alt)

lemma unat_ucast_u32: "unat (ucast (c :: u32) :: u64) = unat c"
  using unat_bound [of c] by (simp add: unsigned_ucast_eq take_bit_nat_eq_self)

lemma capacity_tokens: "unat (sat_mul (ucast (c :: u32)) (1000 :: u64)) = unat c * 1000"
proof -
  have "unat c < 2 ^ 32" using unat_bound [of c] by simp
  then show ?thesis by (simp add: unat_sat_mul unat_ucast_u32)
qed

lemma tokens_to_add_bound: "tokens_to_add el rate < 2 ^ 64"
  by (cases "f64_mul (f64_mul (as_secs_f64 el) (nat_as_f64 (unat rate))) (Fin 1000)")
    (simp_all add: tokens_to_add_def)

text \<open>A refill in numbers.\<close>

lemma refill_tokens:
  assumes "from_millis 1 \<le> elapsed now (rl_last_refill l)"
  shows "unat (rl_tokens (limiter_refill now l)) =
    min (min (unat (rl_tokens l) + tokens_to_add (elapsed now (rl_last_refill l)) (rl_refill_rate l))
             (2 ^ 64 - 1)) (unat (rl_capacity l) * 1000)"
  using assms tokens_to_add_bound [of "elapsed now (rl_last_refill l)" "rl_refill_rate l"]
  by (simp add: limiter_refill_def Let_def unat_min unat_sat_add capacity_tokens unat_of_nat)

lemma refill_simps [simp]:
  "rl_capacity (limiter_refill now l) = rl_capacity l"
  "rl_refill_rate (limiter_refill now l) = rl_refill_rate l"
  by (simp_all add: limiter_refill_def Let_def)

lemma acquire_simps [simp]:
  "rl_capacity (snd (try_acquire now l)) = rl_capacity l"
  "rl_refill_rate (snd (try_acquire now l)) = rl_refill_rate l"
  "rl_last_refill (snd (try_acquire now l)) = rl_last_refill (limiter_refill now l)"
  by (simp_all add: try_acquire_def Let_def)

lemma acquire_tokens:
  "1000 * (if fst (try_acquire now l) then 1 else 0) + unat (rl_tokens (snd (try_acquire now l)))
     = unat (rl_tokens (limiter_refill now l))"
  by (auto simp: try_acquire_def Let_def unat_sat_sub word_less_nat_alt word_le_nat_alt)

lemma refill_exact:
  assumes "rl_last_refill l \<le> now" and "now - rl_last_refill l \<le> duration_max"
  shows "(of_nat (unat (rl_tokens (limiter_refill now l))) :: rat) \<le>
      of_nat (unat (rl_tokens l))
      + (1 + slack) * exact_tokens (rl_last_refill (limiter_refill now l) - rl_last_refill l) (rl_refill_rate l)"
proof (cases "from_millis 1 \<le> elapsed now (rl_last_refill l)")
  case True
  let ?el = "elapsed now (rl_last_refill l)"
  have "unat (rl_tokens (limiter_refill now l)) \<le> unat (rl_tokens l) + tokens_to_add ?el (rl_refill_rate l)"
    by (simp add: refill_tokens [OF True])
  then have "(of_nat (unat (rl_tokens (limiter_refill now l))) :: rat)
      \<le> of_nat (unat (rl_tokens l)) + of_nat (tokens_to_add ?el (rl_refill_rate l))"
    by (metis of_nat_add of_nat_le_iff)
  moreover have "rl_last_refill (limiter_refill now l) = now"
    using True by (simp add: limiter_refill_def Let_def)
  moreover have "?el = now - rl_last_refill l" by (simp add: elapsed_def)
  ultimately show ?thesis
    using tokens_bounds(1) [of ?el "rl_refill_rate l"] assms(2) by (simp del: of_nat_unat)
next
  case False
  then show ?thesis by (simp add: limiter_refill_def Let_def exact_tokens_def)
qed

lemma exact_tokens_add: "exact_tokens (a + b) rate = exact_tokens a rate + exact_tokens b rate"
  by (simp add: exact_tokens_def add_divide_distrib distrib_right del: of_nat_unat)

lemma refill_last: "rl_last_refill l \<le> now \<Longrightarrow>
    rl_last_refill l \<le> rl_last_refill (limiter_refill now l) \<and> rl_last_refill (limiter_refill now l) \<le> now"
  by (simp add: limiter_refill_def Let_def)

lemma run_acquires_bound:
  assumes "sorted ts" and "\<forall>t \<in> set ts. rl_last_refill l \<le> t \<and> t \<le> T"
    and "rl_last_refill l \<le> T" and "T - rl_last_refill l \<le> duration_max"
  shows "rl_last_refill l \<le> rl_last_refill (snd (run_acquires ts l))
    \<and> rl_last_refill (snd (run_acquires ts l)) \<le> T
    \<and> (of_nat (1000 * fst (run_acquires ts l)) :: rat) \<le> of_nat (unat (rl_tokens l))
        + (1 + slack) * exact_tokens (rl_last_refill (snd (run_acquires ts l)) - rl_last_refill l) (rl_refill_rate l)"
  using assms
proof (induction ts arbitrary: l)
  case Nil
  then show ?case by (simp add: exact_tokens_def del: of_nat_unat)
next
  case (Cons t ts)
  let ?l1 = "snd (try_acquire t l)"
  define l2 where "l2 = snd (run_acquires ts ?l1)"
  define n where "n = fst (run_acquires ts ?l1)"
  define g where "g = (if fst (try_acquire t l) then 1 else 0 :: nat)"
  have run: "run_acquires (t # ts) l = (g + n, l2)"
    by (simp add: l2_def n_def g_def case_prod_beta)
  have lt: "rl_last_refill l \<le> rl_last_refill ?l1" "rl_last_refill ?l1 \<le> t" "t \<le> T"
    using refill_last [of l t] Cons.prems(2) by auto
  have IH: "rl_last_refill ?l1 \<le> rl_last_refill l2 \<and> rl_last_refill l2 \<le> T
    \<and> (of_nat (1000 * n) :: rat) \<le> of_nat (unat (rl_tokens ?l1))
        + (1 + slack) * exact_tokens (rl_last_refill l2 - rl_last_refill ?l1) (rl_refill_rate ?l1)"
    unfolding l2_def n_def using Cons.prems lt by (intro Cons.IH) (auto intro: order_trans)
  let ?a = "rl_last_refill ?l1 - rl_last_refill l" and ?b = "rl_last_refill l2 - rl_last_refill ?l1"
  have ab: "rl_last_refill l2 - rl_last_refill l = ?a + ?b" using IH lt by linarith
  have el: "t - rl_last_refill l \<le> duration_max" using Cons.prems(4) lt(3) by linarith
  have "(of_nat (1000 * g + unat (rl_tokens ?l1)) :: rat) = of_nat (unat (rl_tokens (limiter_refill t l)))"
    using acquire_tokens [of t l] by (simp only: g_def)
  then have "(of_nat (1000 * g) :: rat) + of_nat (unat (rl_tokens ?l1))
      \<le> of_nat (unat (rl_tokens l)) + (1 + slack) * exact_tokens ?a (rl_refill_rate l)"
    using refill_exact [of l t] Cons.prems(2) el by (simp del: of_nat_unat)
  moreover have "(of_nat (1000 * (g + n)) :: rat) = of_nat (1000 * g) + of_nat (1000 * n)" by simp
  moreover have "(1 + slack) * exact_tokens (?a + ?b) (rl_refill_rate l)
      = (1 + slack) * exact_tokens ?a (rl_refill_rate l) + (1 + slack) * exact_tokens ?b (rl_refill_rate l)"
    by (simp only: exact_tokens_add distrib_left)
  ultimately have "(of_nat (1000 * (g + n)) :: rat) \<le> of_nat (unat (rl_tokens l))
      + (1 + slack) * exact_tokens (rl_last_refill l2 - rl_last_refill l) (rl_refill_rate l)"
    unfolding ab using IH by (simp del: of_nat_unat of_nat_mult of_nat_add)
  then show ?case unfolding run using IH lt by auto
qed

lemma exact_tokens_mono: "a \<le> b \<Longrightarrow> exact_tokens a rate \<le> exact_tokens b rate"
  using exact_tokens_add [of a "b - a" rate] by simp

text \<open>C10. The rate limit: of the requests that arrive in a span of time after the limiter was created,
  it lets through at most the burst capacity plus the configured rate times the span; the
  arithmetic of the refills in \<open>f64\<close> exceeds this by a relative error of at most \<open>2 ^ -50\<close>.\<close>

theorem rate_limiter_bound:
  assumes "sorted ts" and "\<forall>t \<in> set ts. t0 \<le> t \<and> t \<le> t0 + period" and "period \<le> duration_max"
  shows "(of_nat (fst (run_acquires ts (limiter_new t0 rps burst))) :: rat) \<le>
    of_nat (unat burst) + (1 + 1 / 2 ^ 50) * (of_nat (unat rps) * of_nat period / 10 ^ 9)"
proof -
  let ?l = "limiter_new t0 rps burst" and ?n = "fst (run_acquires ts (limiter_new t0 rps burst))"
  have l: "rl_last_refill ?l = t0" "rl_refill_rate ?l = rps" "unat (rl_tokens ?l) = unat burst * 1000"
    by (simp_all add: limiter_new_def capacity_tokens)
  have "rl_last_refill (snd (run_acquires ts ?l)) - t0 \<le> period
    \<and> (of_nat (1000 * ?n) :: rat) \<le> of_nat (unat burst * 1000)
        + (1 + slack) * exact_tokens (rl_last_refill (snd (run_acquires ts ?l)) - t0) rps"
    using run_acquires_bound [of ts ?l "t0 + period"] assms by (auto simp: l simp del: of_nat_unat)
  moreover from this have "(1 + slack) * exact_tokens (rl_last_refill (snd (run_acquires ts ?l)) - t0) rps
      \<le> (1 + slack) * exact_tokens period rps"
    by (intro mult_left_mono exact_tokens_mono) (simp_all add: slack_def)
  ultimately have "(of_nat (1000 * ?n) :: rat) \<le> of_nat (unat burst * 1000) + (1 + slack) * exact_tokens period rps"
    by linarith
  then have "1000 * (of_nat ?n :: rat) \<le> 1000 * (of_nat (unat burst)
      + (1 + slack) * (of_nat (unat rps) * of_nat period / 10 ^ 9))"
    by (simp add: exact_tokens_def field_simps del: of_nat_unat)
  then show ?thesis by (simp add: slack_def del: of_nat_unat)
qed

theorem rate_limiter_bound_witness:
  "fst (run_acquires [0, 0, 0] (limiter_new 0 1 2)) \<le> 2"
proof -
  have "(of_nat (fst (run_acquires [0, 0, 0] (limiter_new 0 1 2))) :: rat) \<le> 2"
    using rate_limiter_bound [of "[0, 0, 0]" 0 0 1 2] by simp
  then show ?thesis by (metis of_nat_le_iff of_nat_numeral)
qed

text \<open>No request starves: in a bucket with room for a token, a request is let through when, since
  the last refill, at least a millisecond and 1.001 times the time that the configured rate takes for
  one token have passed.\<close>

theorem rate_limiter_grants:
  assumes "0 < rl_capacity l" and "from_millis 1 \<le> elapsed now (rl_last_refill l)"
    and "elapsed now (rl_last_refill l) \<le> duration_max"
    and "1001 * 10 ^ 6 \<le> elapsed now (rl_last_refill l) * unat (rl_refill_rate l)"
  shows "fst (try_acquire now l)"
proof -
  let ?el = "elapsed now (rl_last_refill l)" and ?r = "rl_refill_rate l"
  have "(1001 * 10 ^ 6 :: rat) \<le> of_nat (?el * unat ?r)"
    using assms(4) by (metis of_nat_le_iff of_nat_mult of_nat_numeral of_nat_power)
  then have "1001 \<le> exact_tokens ?el ?r" by (simp add: exact_tokens_def mult.commute del: of_nat_unat)
  then have "(1 - slack) * 1001 \<le> (1 - slack) * exact_tokens ?el ?r"
    by (intro mult_left_mono) (simp_all add: slack_def)
  moreover have "of_nat 1000 \<le> (1 - slack) * 1001" by (simp add: slack_def)
  ultimately have "1000 \<le> tokens_to_add ?el ?r"
    by (intro tokens_bounds(2) [OF assms(3)]) simp_all
  moreover have "1 \<le> unat (rl_capacity l)" using assms(1) by (simp add: word_less_nat_alt)
  ultimately have "1000 \<le> unat (rl_tokens (limiter_refill now l))"
    by (simp add: refill_tokens [OF assms(2)])
  then show ?thesis by (simp add: try_acquire_def Let_def word_less_nat_alt)
qed

theorem rate_limiter_grants_witness:
  "fst (try_acquire 2000000000
     \<lparr>rl_capacity = 1, rl_refill_rate = 1, rl_tokens = 0, rl_last_refill = 0\<rparr>)"
  by (rule rate_limiter_grants)
    (simp_all add: elapsed_def from_millis_def nanos_per_milli_def duration_max_def nanos_per_sec_def)

text \<open>A refill forgets fractions of a thousandth, since it moves the time of the last refill to now:
  a bucket of one request per second that is asked every 1999999 nanoseconds gains one thousandth
  each time, half of the configured rate.\<close>

lemma refill_loses_fractions:
  assumes "rl_refill_rate l = 1" and "unat (rl_tokens l) < unat (rl_capacity l) * 1000"
  shows "unat (rl_tokens (limiter_refill (rl_last_refill l + 1999999) l)) = unat (rl_tokens l) + 1
    \<and> rl_last_refill (limiter_refill (rl_last_refill l + 1999999) l) = rl_last_refill l + 1999999"
proof -
  let ?now = "rl_last_refill l + 1999999"
  have el: "elapsed ?now (rl_last_refill l) = 1999999" by (simp add: elapsed_def)
  have d: "1999999 \<le> duration_max" by (simp add: duration_max_def nanos_per_sec_def)
  have "exact_tokens 1999999 1 = 1999999 / 10 ^ 6" by (simp add: exact_tokens_def)
  then have "(of_nat (tokens_to_add 1999999 1) :: rat) < of_nat 2" and "1 \<le> tokens_to_add 1999999 1"
    using tokens_bounds(1) [OF d, of 1] tokens_bounds(2) [OF d, of 1 1] by (simp_all add: slack_def)
  then have one: "tokens_to_add 1999999 1 = 1" by (simp only: of_nat_less_iff)
  have ms: "from_millis 1 \<le> elapsed ?now (rl_last_refill l)"
    by (simp add: el from_millis_def nanos_per_milli_def)
  have "unat (rl_capacity l) < 2 ^ 32" using unat_bound [of "rl_capacity l"] by simp
  then have "unat (rl_tokens l) + 1 \<le> 2 ^ 64 - 1" using assms(2) by simp
  then show ?thesis
    using refill_tokens [OF ms] assms one ms
    by (simp add: el limiter_refill_def [of ?now l] Let_def)
qed

end
