(* ===== verification/Agents.thy ===== *)
theory Agents
  imports RateLimit
begin

text \<open>
  The agent registry (\<open>src/src/proxy/agent.rs\<close>), the HTTP authentication and rate-limit middleware
  (\<open>src/src/proxy/middleware.rs\<close>) and the gRPC interceptors (\<open>src/src/proxy/grpc/middleware.rs\<close>):
  which requests are let through, as which agent, and what the decision changes. A request is what
  the decision reads of it: the method, the path and the headers; a header value that is not
  readable text is \<open>Opaque\<close>.
\<close>

section \<open>The registry\<close>

record agent_identity =
  ai_id :: rstr
  ai_default_context :: "rstr option"
  ai_allowed_contexts :: "rstr list"
  ai_priority_class :: u32

definition can_access_context :: "rstr \<Rightarrow> agent_identity \<Rightarrow> bool" where
  "can_access_context ctx a \<longleftrightarrow>
     ai_allowed_contexts a = [] \<or> list_ex (\<lambda>c. c = ctx) (ai_allowed_contexts a)"

record agent_quota =
  aq_requests_total :: u64
  aq_cache_hits :: u64
  aq_cache_misses :: u64
  aq_rate_limited :: u64
  aq_context_denied :: u64

definition quota_new :: agent_quota where
  "quota_new = \<lparr>aq_requests_total = 0, aq_cache_hits = 0, aq_cache_misses = 0, aq_rate_limited = 0,
     aq_context_denied = 0\<rparr>"

definition quota_record_request :: "agent_quota \<Rightarrow> agent_quota" where
  "quota_record_request q = q\<lparr>aq_requests_total := aq_requests_total q + 1\<rparr>"

definition quota_record_rate_limited :: "agent_quota \<Rightarrow> agent_quota" where
  "quota_record_rate_limited q = q\<lparr>aq_rate_limited := aq_rate_limited q + 1\<rparr>"

record agent_entry =
  ae_identity :: agent_identity
  ae_rate_limiter :: "rate_limiter option"
  ae_quota :: agent_quota
  ae_enabled :: bool

record agent_config =
  ag_id :: rstr
  ag_api_key :: rstr
  ag_default_context :: "rstr option"
  ag_allowed_contexts :: "rstr list"
  ag_priority_class :: "u32 option"
  ag_rate_limit_rps :: "u32 option"
  ag_enabled :: bool

record agent_registry =
  rg_agents :: "rstr \<rightharpoonup> agent_entry"
  rg_id_to_key :: "rstr \<rightharpoonup> rstr"

definition registry_new :: agent_registry where
  "registry_new = \<lparr>rg_agents = Map.empty, rg_id_to_key = Map.empty\<rparr>"

definition config_priority_class :: "agent_config \<Rightarrow> u32" where
  "config_priority_class c = (case ag_priority_class c of Some p \<Rightarrow> p | None \<Rightarrow> 0)"

definition agent_entry_of :: "instant \<Rightarrow> agent_config \<Rightarrow> agent_entry" where
  "agent_entry_of now c =
     \<lparr>ae_identity = \<lparr>ai_id = ag_id c, ai_default_context = ag_default_context c,
        ai_allowed_contexts = ag_allowed_contexts c, ai_priority_class = config_priority_class c\<rparr>,
      ae_rate_limiter =
        map_option (\<lambda>rps. limiter_new now rps (max (sat_mul rps 2) 1)) (ag_rate_limit_rps c),
      ae_quota = quota_new, ae_enabled = ag_enabled c\<rparr>"

definition agent_register :: "instant \<Rightarrow> agent_config \<Rightarrow> agent_registry \<Rightarrow> agent_registry" where
  "agent_register now c r =
     r\<lparr>rg_id_to_key := (rg_id_to_key r)(ag_id c \<mapsto> ag_api_key c),
       rg_agents := (rg_agents r)(ag_api_key c \<mapsto> agent_entry_of now c)\<rparr>"

definition registry_from_config :: "instant \<Rightarrow> agent_config list \<Rightarrow> agent_registry" where
  "registry_from_config now cs = foldl (\<lambda>r c. agent_register now c r) registry_new cs"

definition agent_lookup :: "rstr \<Rightarrow> agent_registry \<Rightarrow> agent_entry option" where
  "agent_lookup key r =
     (case rg_agents r key of
        Some e \<Rightarrow> if \<not> ae_enabled e then None else Some e
      | None \<Rightarrow> None)"

definition remove_by_id :: "rstr \<Rightarrow> agent_registry \<Rightarrow> bool \<times> agent_registry" where
  "remove_by_id agent r =
     (case rg_id_to_key r agent of
        Some key \<Rightarrow> (True, r\<lparr>rg_id_to_key := (rg_id_to_key r)(agent := None),
                            rg_agents := (rg_agents r)(key := None)\<rparr>)
      | None \<Rightarrow> (False, r))"

definition rotate_key :: "rstr \<Rightarrow> rstr \<Rightarrow> agent_registry \<Rightarrow> bool \<times> agent_registry" where
  "rotate_key agent new_key r =
     (case rg_id_to_key r agent of
        None \<Rightarrow> (False, r)
      | Some old_key \<Rightarrow>
          (case rg_agents r old_key of
             Some e \<Rightarrow> (True, r\<lparr>rg_agents := ((rg_agents r)(old_key := None))(new_key \<mapsto> e),
                               rg_id_to_key := (rg_id_to_key r)(agent \<mapsto> new_key)\<rparr>)
           | None \<Rightarrow> (False, r)))"

section \<open>Authentication\<close>

text \<open>The loop over the bytes of both strings, which accumulates their differences.\<close>

unbundle bit_operations_syntax

definition constant_time_eq :: "rstr \<Rightarrow> rstr \<Rightarrow> bool" where
  "constant_time_eq a b =
     (if str_len a \<noteq> str_len b then False
      else foldl (\<lambda>result (x, y). result OR (x XOR y)) (0 :: u8) (zip (as_bytes a) (as_bytes b)) = 0)"

datatype header_value = Text rstr | Opaque

record http_request =
  hq_is_get :: bool
  hq_path :: rstr
  hq_x_api_key :: "header_value option"
  hq_authorization :: "header_value option"

definition strip_prefix :: "rstr \<Rightarrow> rstr \<Rightarrow> rstr option" where
  "strip_prefix p s = (if take (length p) s = p then Some (drop (length p) s) else None)"

definition extract_api_key :: "http_request \<Rightarrow> rstr option" where
  "extract_api_key q =
     (case hq_x_api_key q of
        Some (Text key) \<Rightarrow> Some key
      | Some Opaque \<Rightarrow> None
      | None \<Rightarrow>
          (case hq_authorization q of
             Some (Text auth) \<Rightarrow> strip_prefix (lit ''Bearer '') auth
           | _ \<Rightarrow> None))"

fun split_char :: "rchar \<Rightarrow> rstr \<Rightarrow> rstr list" where
  "split_char c [] = [[]]"
| "split_char c (x # xs) =
     (if x = c then [] # split_char c xs
      else case split_char c xs of w # ws \<Rightarrow> (x # w) # ws | [] \<Rightarrow> [[x]])"

definition is_context_stats_path :: "rstr \<Rightarrow> bool" where
  "is_context_stats_path path =
     (let trimmed = rev (dropWhile (\<lambda>c. c = 47) (rev (dropWhile (\<lambda>c. c = 47) path)));
          parts = split_char 47 trimmed
      in length parts = 3 \<and> parts ! 0 = lit ''contexts'' \<and> parts ! 2 = lit ''stats'')"

definition web_ui_allowlist :: "rstr list" where
  "web_ui_allowlist = map lit [''/stats'', ''/stats/queries'', ''/metrics'', ''/audit'', ''/circuit'',
     ''/queue'', ''/clients'', ''/cache/integrity'', ''/cache/upstreams'', ''/contexts'',
     ''/contexts/current'']"

definition is_web_ui_allowlisted :: "rstr \<Rightarrow> bool" where
  "is_web_ui_allowlisted path \<longleftrightarrow> path \<in> set web_ui_allowlist \<or> is_context_stats_path path"

record auth_config =
  au_api_key :: "rstr option"
  au_agent_registry :: "agent_registry option"
  au_web_ui_enabled :: bool

text \<open>Either the request is passed on, with the identity attached to it, or it is answered.\<close>

datatype auth_outcome = PassOn "agent_identity option" | MissingKey | InvalidKey | RateLimited

definition registry_is_empty :: "agent_registry \<Rightarrow> bool" where
  "registry_is_empty r \<longleftrightarrow> dom (rg_agents r) = {}"

definition put_agent :: "rstr \<Rightarrow> agent_entry \<Rightarrow> auth_config \<Rightarrow> auth_config" where
  "put_agent key e cfg =
     cfg\<lparr>au_agent_registry :=
       map_option (\<lambda>r. r\<lparr>rg_agents := (rg_agents r)(key \<mapsto> e)\<rparr>) (au_agent_registry cfg)\<rparr>"

definition check_global_key :: "rstr \<Rightarrow> auth_config \<Rightarrow> auth_outcome" where
  "check_global_key provided cfg =
     (case au_api_key cfg of
        Some expected \<Rightarrow> if constant_time_eq provided expected then PassOn None else InvalidKey
      | None \<Rightarrow> InvalidKey)"

definition auth_middleware :: "instant \<Rightarrow> http_request \<Rightarrow> auth_config \<Rightarrow> auth_outcome \<times> auth_config" where
  "auth_middleware now q cfg =
     (if au_web_ui_enabled cfg \<and> hq_is_get q \<and> is_web_ui_allowlisted (hq_path q) then (PassOn None, cfg)
      else if au_api_key cfg = None
              \<and> (case au_agent_registry cfg of Some r \<Rightarrow> registry_is_empty r | None \<Rightarrow> True)
      then (PassOn None, cfg)
      else case extract_api_key q of
             None \<Rightarrow> (MissingKey, cfg)
           | Some key \<Rightarrow>
               (case Option.bind (au_agent_registry cfg) (agent_lookup key) of
                  Some e \<Rightarrow>
                    (case ae_rate_limiter e of
                       Some limiter \<Rightarrow>
                         (case try_acquire now limiter of
                            (False, limiter') \<Rightarrow>
                              (RateLimited, put_agent key
                                 (e\<lparr>ae_rate_limiter := Some limiter',
                                    ae_quota := quota_record_rate_limited (ae_quota e)\<rparr>) cfg)
                          | (True, limiter') \<Rightarrow>
                              (PassOn (Some (ae_identity e)), put_agent key
                                 (e\<lparr>ae_rate_limiter := Some limiter',
                                    ae_quota := quota_record_request (ae_quota e)\<rparr>) cfg))
                     | None \<Rightarrow>
                         (PassOn (Some (ae_identity e)),
                          put_agent key (e\<lparr>ae_quota := quota_record_request (ae_quota e)\<rparr>) cfg))
                | None \<Rightarrow> (check_global_key key cfg, cfg)))"

text \<open>The global rate limit: requests of an agent were limited before.\<close>

definition rate_limit_middleware ::
  "instant \<Rightarrow> agent_identity option \<Rightarrow> rate_limiter option \<Rightarrow> bool \<times> rate_limiter option" where
  "rate_limit_middleware now identity limiter =
     (case limiter of
        None \<Rightarrow> (True, None)
      | Some l \<Rightarrow>
          if identity \<noteq> None then (True, Some l)
          else apsnd Some (try_acquire now l))"

section \<open>The gRPC interceptors\<close>

record grpc_config =
  gc_agent_registry :: "agent_registry option"
  gc_rate_limiter :: "rate_limiter option"
  gc_api_key :: "rstr option"

datatype grpc_status = GrpcOk | ResourceExhausted | Unauthenticated

definition requires_auth :: "grpc_config \<Rightarrow> bool" where
  "requires_auth cfg \<longleftrightarrow> gc_agent_registry cfg \<noteq> None \<or> gc_api_key cfg \<noteq> None"

definition grpc_authenticated :: "rstr \<Rightarrow> grpc_config \<Rightarrow> bool" where
  "grpc_authenticated key cfg \<longleftrightarrow>
     (case gc_agent_registry cfg of Some r \<Rightarrow> agent_lookup key r \<noteq> None | None \<Rightarrow> False)
     \<or> (case gc_api_key cfg of Some expected \<Rightarrow> constant_time_eq key expected | None \<Rightarrow> False)"

definition grpc_interceptor :: "instant \<Rightarrow> http_request \<Rightarrow> grpc_config \<Rightarrow> grpc_status \<times> grpc_config" where
  "grpc_interceptor now q cfg =
     (let (ok, limiter') = (case gc_rate_limiter cfg of
                              Some l \<Rightarrow> apsnd Some (try_acquire now l) | None \<Rightarrow> (True, None));
          cfg1 = cfg\<lparr>gc_rate_limiter := limiter'\<rparr>
      in if \<not> ok then (ResourceExhausted, cfg1)
         else if requires_auth cfg1
         then (case extract_api_key q of
                 Some key \<Rightarrow> (if grpc_authenticated key cfg1 then GrpcOk else Unauthenticated, cfg1)
               | None \<Rightarrow> (Unauthenticated, cfg1))
         else (GrpcOk, cfg1))"

definition extract_peer_secret :: "header_value option \<Rightarrow> header_value option \<Rightarrow> rstr option" where
  "extract_peer_secret x_peer_secret x_api_key =
     (case x_peer_secret of
        Some (Text key) \<Rightarrow> Some key
      | Some Opaque \<Rightarrow> None
      | None \<Rightarrow> (case x_api_key of Some (Text key) \<Rightarrow> Some key | _ \<Rightarrow> None))"

definition peer_secret_interceptor ::
  "rstr \<Rightarrow> header_value option \<Rightarrow> header_value option \<Rightarrow> grpc_status" where
  "peer_secret_interceptor expected x_peer_secret x_api_key =
     (case extract_peer_secret x_peer_secret x_api_key of
        Some provided \<Rightarrow> if constant_time_eq provided expected then GrpcOk else Unauthenticated
      | None \<Rightarrow> Unauthenticated)"

section \<open>Comparing keys\<close>

lemma or_zero_iff: "x OR y = 0 \<longleftrightarrow> x = 0 \<and> y = (0 :: 'a::len word)"
  by (auto simp: bit_eq_iff bit_or_iff)

lemma xor_zero_iff: "x XOR y = 0 \<longleftrightarrow> x = (y :: 'a::len word)"
  by (auto simp: bit_eq_iff bit_xor_iff)

lemma accumulated_difference:
  "foldl (\<lambda>result (x, y). result OR (x XOR y)) r ps = (0 :: 'a::len word) \<longleftrightarrow>
     r = 0 \<and> (\<forall>(x, y) \<in> set ps. x = y)"
  by (induction ps arbitrary: r) (auto simp: or_zero_iff xor_zero_iff)

lemma zip_all_equal: "length xs = length ys \<Longrightarrow> (\<forall>(x, y) \<in> set (zip xs ys). x = y) \<longleftrightarrow> xs = ys"
  by (induction xs ys rule: list_induct2) auto

lemma constant_time_eq_iff: "constant_time_eq a b \<longleftrightarrow> as_bytes a = as_bytes b"
  using zip_all_equal [of "as_bytes a" "as_bytes b"]
  by (auto simp: constant_time_eq_def accumulated_difference length_as_bytes [symmetric])

section \<open>Key management\<close>

text \<open>In a consistent registry an id points to a key exactly when that agent is stored under it.\<close>

definition registry_ok :: "agent_registry \<Rightarrow> bool" where
  "registry_ok r \<longleftrightarrow>
     (\<forall>k a. rg_id_to_key r a = Some k \<longleftrightarrow> (\<exists>e. rg_agents r k = Some e \<and> ai_id (ae_identity e) = a))"

lemma entry_id [simp]: "ai_id (ae_identity (agent_entry_of now c)) = ag_id c"
  by (simp add: agent_entry_of_def)

lemma entry_enabled [simp]: "ae_enabled (agent_entry_of now c) = ag_enabled c"
  by (simp add: agent_entry_of_def)

lemma registry_okI:
  assumes "\<And>k e. rg_agents r k = Some e \<Longrightarrow> rg_id_to_key r (ai_id (ae_identity e)) = Some k"
    and "\<And>k a. rg_id_to_key r a = Some k \<Longrightarrow> \<exists>e. rg_agents r k = Some e \<and> ai_id (ae_identity e) = a"
  shows "registry_ok r"
  using assms by (auto simp: registry_ok_def)

lemma registry_okD:
  assumes "registry_ok r"
  shows "rg_agents r k = Some e \<Longrightarrow> rg_id_to_key r (ai_id (ae_identity e)) = Some k"
    and "rg_id_to_key r a = Some k \<Longrightarrow> \<exists>e. rg_agents r k = Some e \<and> ai_id (ae_identity e) = a"
  using assms by (auto simp: registry_ok_def)

lemma registry_new_ok: "registry_ok registry_new"
  by (simp add: registry_ok_def registry_new_def)

lemma register_ok:
  assumes "registry_ok r" and "rg_id_to_key r (ag_id c) = None" and "rg_agents r (ag_api_key c) = None"
  shows "registry_ok (agent_register now c r)"
proof (rule registry_okI)
  fix k e
  assume "rg_agents (agent_register now c r) k = Some e"
  then show "rg_id_to_key (agent_register now c r) (ai_id (ae_identity e)) = Some k"
    using registry_okD(1) [OF assms(1), of k e] assms(2)
    by (auto simp: agent_register_def split: if_splits)
next
  fix k a
  assume "rg_id_to_key (agent_register now c r) a = Some k"
  then show "\<exists>e. rg_agents (agent_register now c r) k = Some e \<and> ai_id (ae_identity e) = a"
    using registry_okD(2) [OF assms(1), of a k] assms(3)
    by (auto simp: agent_register_def split: if_splits)
qed

lemma remove_ok:
  assumes "registry_ok r"
  shows "registry_ok (snd (remove_by_id a r))"
proof (cases "rg_id_to_key r a")
  case (Some key)
  then obtain e where e: "rg_agents r key = Some e" "ai_id (ae_identity e) = a"
    using registry_okD(2) [OF assms] by blast
  show ?thesis
  proof (rule registry_okI)
    fix k e'
    assume "rg_agents (snd (remove_by_id a r)) k = Some e'"
    then show "rg_id_to_key (snd (remove_by_id a r)) (ai_id (ae_identity e')) = Some k"
      using Some registry_okD(1) [OF assms, of k e'] by (auto simp: remove_by_id_def split: if_splits)
  next
    fix k b
    assume b: "rg_id_to_key (snd (remove_by_id a r)) b = Some k"
    then obtain e' where "rg_agents r k = Some e'" "ai_id (ae_identity e') = b" "b \<noteq> a"
      using Some registry_okD(2) [OF assms, of b k] by (auto simp: remove_by_id_def split: if_splits)
    then show "\<exists>e. rg_agents (snd (remove_by_id a r)) k = Some e \<and> ai_id (ae_identity e) = b"
      using Some e by (auto simp: remove_by_id_def)
  qed
qed (simp add: remove_by_id_def assms)

lemma rotate_eq:
  assumes "registry_ok r" and "rg_id_to_key r a = Some key"
  shows "\<exists>e. rg_agents r key = Some e \<and> ai_id (ae_identity e) = a \<and>
    rotate_key a new_key r = (True, r\<lparr>rg_agents := ((rg_agents r)(key := None))(new_key \<mapsto> e),
      rg_id_to_key := (rg_id_to_key r)(a \<mapsto> new_key)\<rparr>)"
  using registry_okD(2) [OF assms] assms(2) by (auto simp: rotate_key_def)

lemma rotate_ok:
  assumes "registry_ok r" and "rg_agents r new_key = None"
  shows "registry_ok (snd (rotate_key a new_key r))"
proof (cases "rg_id_to_key r a")
  case (Some key)
  then obtain e where e: "rg_agents r key = Some e" "ai_id (ae_identity e) = a"
    and rot: "rotate_key a new_key r = (True, r\<lparr>rg_agents := ((rg_agents r)(key := None))(new_key \<mapsto> e),
      rg_id_to_key := (rg_id_to_key r)(a \<mapsto> new_key)\<rparr>)"
    using rotate_eq [OF assms(1) Some] by blast
  show ?thesis
  proof (rule registry_okI)
    fix k e'
    assume "rg_agents (snd (rotate_key a new_key r)) k = Some e'"
    then show "rg_id_to_key (snd (rotate_key a new_key r)) (ai_id (ae_identity e')) = Some k"
      using Some e registry_okD(1) [OF assms(1), of k e'] by (auto simp: rot split: if_splits)
  next
    fix k b
    assume b: "rg_id_to_key (snd (rotate_key a new_key r)) b = Some k"
    show "\<exists>e. rg_agents (snd (rotate_key a new_key r)) k = Some e \<and> ai_id (ae_identity e) = b"
    proof (cases "b = a")
      case True
      then show ?thesis using b e unfolding rot by simp
    next
      case False
      then obtain e' where "rg_agents r k = Some e'" "ai_id (ae_identity e') = b"
        using b registry_okD(2) [OF assms(1), of b k] by (auto simp: rot)
      then show ?thesis using False e assms(2) by (auto simp: rot)
    qed
  qed
qed (simp add: rotate_key_def assms)

text \<open>C21. In a consistent registry, removing an agent revokes it: afterwards no key authenticates as it, and every other key
  authenticates as before; rotating an agent to an unused key moves its authentication from the old key to the new one
  and touches no other; both keep the registry consistent. Registering an agent again under a second key breaks this: after the
  removal of the agent, its first key still looks up the identity it looked up before.\<close>

theorem registry_key_management:
  assumes "registry_ok r" and "rg_id_to_key r a = Some key" and "rg_agents r new_key = None"
    and "ag_id c = a" and "ag_api_key c = new_key"
  shows "registry_ok (snd (remove_by_id a r)) \<and> registry_ok (snd (rotate_key a new_key r))
    \<and> (\<forall>k. agent_lookup k (snd (remove_by_id a r)) = (if k = key then None else agent_lookup k r))
    \<and> (\<forall>k e. agent_lookup k (snd (remove_by_id a r)) = Some e \<longrightarrow> ai_id (ae_identity e) \<noteq> a)
    \<and> (\<forall>k. agent_lookup k (snd (rotate_key a new_key r)) =
           (if k = new_key then agent_lookup key r else if k = key then None else agent_lookup k r))
    \<and> agent_lookup key (snd (remove_by_id a (agent_register now c r))) = agent_lookup key r"
proof -
  obtain e where e: "rg_agents r key = Some e" "ai_id (ae_identity e) = a"
    and rot: "rotate_key a new_key r = (True, r\<lparr>rg_agents := ((rg_agents r)(key := None))(new_key \<mapsto> e),
      rg_id_to_key := (rg_id_to_key r)(a \<mapsto> new_key)\<rparr>)"
    using rotate_eq [OF assms(1,2)] by blast
  have ne: "key \<noteq> new_key" using e(1) assms(3) by auto
  have rem: "agent_lookup k (snd (remove_by_id a r)) = (if k = key then None else agent_lookup k r)" for k
    using assms(2) by (simp add: remove_by_id_def agent_lookup_def)
  have other: "ai_id (ae_identity e') \<noteq> a" if "agent_lookup k r = Some e'" "k \<noteq> key" for k e'
    using that registry_okD(1) [OF assms(1), of k e'] assms(2)
    by (auto simp: agent_lookup_def split: option.splits if_splits)
  have rotl: "agent_lookup k (snd (rotate_key a new_key r)) =
      (if k = new_key then agent_lookup key r else if k = key then None else agent_lookup k r)" for k
    using e ne by (simp add: rot agent_lookup_def)
  have stale: "agent_lookup key (snd (remove_by_id a (agent_register now c r))) = agent_lookup key r"
    using assms(4,5) ne by (simp add: agent_register_def remove_by_id_def agent_lookup_def)
  show ?thesis
    using remove_ok [OF assms(1)] rotate_ok [OF assms(1,3)] rem other rotl stale by auto
qed

theorem registry_key_management_witness:
  "let c = \<lparr>ag_id = lit ''bot'', ag_api_key = lit ''k1'', ag_default_context = None,
       ag_allowed_contexts = [], ag_priority_class = None, ag_rate_limit_rps = None, ag_enabled = True\<rparr>;
       r = agent_register 0 c registry_new
   in agent_lookup (lit ''k1'') (snd (remove_by_id (lit ''bot'')
        (agent_register 0 (c\<lparr>ag_api_key := lit ''k2''\<rparr>) r))) = agent_lookup (lit ''k1'') r"
proof -
  let ?c = "\<lparr>ag_id = lit ''bot'', ag_api_key = lit ''k1'', ag_default_context = None,
       ag_allowed_contexts = [], ag_priority_class = None, ag_rate_limit_rps = None, ag_enabled = True\<rparr>"
  let ?r = "agent_register 0 ?c registry_new"
  have ok: "registry_ok ?r"
    by (rule register_ok [OF registry_new_ok]) (simp_all add: registry_new_def)
  have "rg_id_to_key ?r (lit ''bot'') = Some (lit ''k1'')" "rg_agents ?r (lit ''k2'') = None"
    by (simp_all add: agent_register_def registry_new_def lit_def)
  from registry_key_management [OF ok this, of "?c\<lparr>ag_api_key := lit ''k2''\<rparr>" 0]
  show ?thesis by (simp add: Let_def)
qed

section \<open>Authentication\<close>

text \<open>C7. Who gets through: when the dashboard bypass does not apply and some authentication is
  configured, a request is passed on exactly if it carries a key, and the key is that of an enabled
  agent whose rate limiter, if it has one, grants a token, in which case it carries that agent's
  identity, or it is no enabled agent's key and has the bytes of the global key, in which case it
  carries none. Nothing but the entry of the agent with this key changes.\<close>

theorem auth_middleware_decision:
  assumes "\<not> (au_web_ui_enabled cfg \<and> hq_is_get q \<and> is_web_ui_allowlisted (hq_path q))"
    and "au_api_key cfg \<noteq> None \<or> (\<exists>r. au_agent_registry cfg = Some r \<and> \<not> registry_is_empty r)"
  shows "(fst (auth_middleware now q cfg) = PassOn i \<longleftrightarrow>
      (\<exists>key. extract_api_key q = Some key \<and>
         (case Option.bind (au_agent_registry cfg) (agent_lookup key) of
            Some e \<Rightarrow> i = Some (ae_identity e) \<and>
              (\<forall>l. ae_rate_limiter e = Some l \<longrightarrow> fst (try_acquire now l))
          | None \<Rightarrow> i = None \<and> (\<exists>g. au_api_key cfg = Some g \<and> as_bytes key = as_bytes g))))
    \<and> au_api_key (snd (auth_middleware now q cfg)) = au_api_key cfg
    \<and> (\<forall>k. Some k \<noteq> extract_api_key q \<longrightarrow>
         map_option (\<lambda>r. rg_agents r k) (au_agent_registry (snd (auth_middleware now q cfg))) =
         map_option (\<lambda>r. rg_agents r k) (au_agent_registry cfg))"
proof -
  have guard: "\<not> (au_api_key cfg = None
      \<and> (case au_agent_registry cfg of Some r \<Rightarrow> registry_is_empty r | None \<Rightarrow> True))"
    using assms(2) by auto
  have put: "au_api_key (put_agent key e cfg) = au_api_key cfg"
    "k \<noteq> key \<Longrightarrow> map_option (\<lambda>r. rg_agents r k) (au_agent_registry (put_agent key e cfg)) =
       map_option (\<lambda>r. rg_agents r k) (au_agent_registry cfg)" for key k e
    by (simp_all add: put_agent_def option.map_comp comp_def)
  note unf = auth_middleware_def if_not_P [OF assms(1)] if_not_P [OF guard]
  show ?thesis
  proof (cases "extract_api_key q")
    case None
    then show ?thesis by (simp add: unf)
  next
    case (Some key)
    show ?thesis
    proof (cases "Option.bind (au_agent_registry cfg) (agent_lookup key)")
      case None
      then show ?thesis
        using Some by (auto simp: unf check_global_key_def constant_time_eq_iff split: option.split)
    next
      case (Some e)
      note agent = \<open>extract_api_key q = Some key\<close> Some
      show ?thesis
      proof (cases "ae_rate_limiter e")
        case None
        then show ?thesis using agent by (auto simp: unf put)
      next
        case (Some l)
        obtain ok l' where "try_acquire now l = (ok, l')" by (cases "try_acquire now l")
        then show ?thesis using agent Some by (cases ok) (auto simp: unf put)
      qed
    qed
  qed
qed

theorem auth_middleware_decision_witness:
  "let cfg = \<lparr>au_api_key = Some (lit ''secret''), au_agent_registry = None, au_web_ui_enabled = False\<rparr>;
       q = \<lparr>hq_is_get = True, hq_path = lit ''/query'', hq_x_api_key = None,
            hq_authorization = Some (Text (lit ''Bearer secret''))\<rparr>
   in fst (auth_middleware 0 q cfg) = PassOn None"
  using auth_middleware_decision [of
      "\<lparr>au_api_key = Some (lit ''secret''), au_agent_registry = None, au_web_ui_enabled = False\<rparr>"
      "\<lparr>hq_is_get = True, hq_path = lit ''/query'', hq_x_api_key = None,
         hq_authorization = Some (Text (lit ''Bearer secret''))\<rparr>" 0 None]
  by (simp add: Let_def extract_api_key_def strip_prefix_def lit_def)

end
