(* ===== verification/QueryStats.thy ===== *)
theory QueryStats
  imports Metrics
begin

text \<open>
  Per-query statistics (\<open>src/src/proxy/query_stats.rs\<close>): the counters of a query, the bounded
  tracker that evicts the query seen longest ago, and the aggregates. The tracker's map is an
  association list with distinct keys, visited in the order \<open>ord\<close>; the key is the text of the
  query, or its hash \<open>key_hash\<close> when texts are not stored. Averages and hit rates are left in
  integers; the code divides them for display.
\<close>

record query_stats =
  qs_count :: u64
  qs_hits :: u64
  qs_misses :: u64
  qs_total_latency_us :: u64
  qs_max_latency_us :: u64
  qs_min_latency_us :: u64
  qs_first_seen :: u64
  qs_last_seen :: u64

definition query_stats_new :: "u64 \<Rightarrow> query_stats" where
  "query_stats_new ts =
     \<lparr>qs_count = 1, qs_hits = 0, qs_misses = 1, qs_total_latency_us = 0, qs_max_latency_us = 0,
      qs_min_latency_us = - 1, qs_first_seen = ts, qs_last_seen = ts\<rparr>"

definition query_stats_record :: "bool \<Rightarrow> duration \<Rightarrow> u64 \<Rightarrow> query_stats \<Rightarrow> query_stats" where
  "query_stats_record is_hit latency ts s =
     (let us = as_micros_u64 latency
      in s\<lparr>qs_count := qs_count s + 1,
           qs_hits := (if is_hit then qs_hits s + 1 else qs_hits s),
           qs_misses := (if is_hit then qs_misses s else qs_misses s + 1),
           qs_total_latency_us := qs_total_latency_us s + us,
           qs_max_latency_us := max (qs_max_latency_us s) us,
           qs_min_latency_us := min (qs_min_latency_us s) us,
           qs_last_seen := ts\<rparr>)"

record stats_tracker =
  tr_stats :: "(rstr \<times> query_stats) list"
  tr_max_queries :: nat
  tr_store_query_text :: bool

definition tracker_new :: "nat \<Rightarrow> stats_tracker" where
  "tracker_new n = \<lparr>tr_stats = [], tr_max_queries = n, tr_store_query_text = True\<rparr>"

definition tracker_hash_only :: "nat \<Rightarrow> stats_tracker" where
  "tracker_hash_only n = \<lparr>tr_stats = [], tr_max_queries = n, tr_store_query_text = False\<rparr>"

definition stats_query_key :: "(rstr \<Rightarrow> rstr) \<Rightarrow> rstr \<Rightarrow> stats_tracker \<Rightarrow> rstr" where
  "stats_query_key key_hash query tr =
     (if tr_store_query_text tr then query else lit ''hash:'' @ key_hash query)"

text \<open>The loop of \<open>evict_oldest\<close>: the first entry with the smallest time below the maximum.\<close>

fun oldest_key :: "(rstr \<times> query_stats) list \<Rightarrow> u64 \<Rightarrow> rstr option \<Rightarrow> rstr option" where
  "oldest_key [] best k = k"
| "oldest_key ((key, s) # xs) best k =
     (if qs_last_seen s < best then oldest_key xs (qs_last_seen s) (Some key) else oldest_key xs best k)"

definition stats_evict_oldest ::
  "((rstr \<times> query_stats) list \<Rightarrow> (rstr \<times> query_stats) list) \<Rightarrow> stats_tracker \<Rightarrow> stats_tracker" where
  "stats_evict_oldest ord tr =
     (case oldest_key (ord (tr_stats tr)) (- 1) None of
        Some key \<Rightarrow> tr\<lparr>tr_stats := AList.delete key (tr_stats tr)\<rparr>
      | None \<Rightarrow> tr)"

definition first_record :: "bool \<Rightarrow> duration \<Rightarrow> u64 \<Rightarrow> query_stats" where
  "first_record is_hit latency ts =
     (let us = as_micros_u64 latency; s = query_stats_new ts
      in s\<lparr>qs_hits := (if is_hit then 1 else 0), qs_misses := (if is_hit then 0 else 1),
           qs_total_latency_us := us, qs_max_latency_us := us, qs_min_latency_us := us\<rparr>)"

definition tracker_record ::
  "((rstr \<times> query_stats) list \<Rightarrow> (rstr \<times> query_stats) list) \<Rightarrow> (rstr \<Rightarrow> rstr) \<Rightarrow> u64 \<Rightarrow>
   rstr \<Rightarrow> bool \<Rightarrow> duration \<Rightarrow> stats_tracker \<Rightarrow> stats_tracker" where
  "tracker_record ord key_hash ts query is_hit latency tr =
     (let key = stats_query_key key_hash query tr
      in case map_of (tr_stats tr) key of
           Some s \<Rightarrow> tr\<lparr>tr_stats := AList.update key (query_stats_record is_hit latency ts s) (tr_stats tr)\<rparr>
         | None \<Rightarrow>
             let tr1 = (if length (tr_stats tr) \<ge> tr_max_queries tr then stats_evict_oldest ord tr else tr)
             in tr1\<lparr>tr_stats := AList.update key (first_record is_hit latency ts) (tr_stats tr1)\<rparr>)"

definition tracker_get :: "(rstr \<Rightarrow> rstr) \<Rightarrow> rstr \<Rightarrow> stats_tracker \<Rightarrow> query_stats option" where
  "tracker_get key_hash query tr = map_of (tr_stats tr) (stats_query_key key_hash query tr)"

definition top_by_count ::
  "((rstr \<times> query_stats) list \<Rightarrow> (rstr \<times> query_stats) list) \<Rightarrow> nat \<Rightarrow> stats_tracker \<Rightarrow>
   (rstr \<times> query_stats) list" where
  "top_by_count ord n tr = take n (sort_key (\<lambda>(_, s). - int (unat (qs_count s))) (ord (tr_stats tr)))"

definition tracker_clear :: "stats_tracker \<Rightarrow> stats_tracker" where
  "tracker_clear tr = tr\<lparr>tr_stats := []\<rparr>"

record aggregate_stats =
  ag_unique_queries :: nat
  ag_total_requests :: u64
  ag_total_hits :: u64
  ag_avg_latency_us :: u64

definition aggregate ::
  "((rstr \<times> query_stats) list \<Rightarrow> (rstr \<times> query_stats) list) \<Rightarrow> stats_tracker \<Rightarrow> aggregate_stats" where
  "aggregate ord tr =
     (let (reqs, hits, lat) =
            foldl (\<lambda>(reqs, hits, lat) (_, s). (sat_add reqs (qs_count s), sat_add hits (qs_hits s),
                     sat_add lat (qs_total_latency_us s))) (0, 0, 0) (ord (tr_stats tr))
      in \<lparr>ag_unique_queries = length (tr_stats tr), ag_total_requests = reqs, ag_total_hits = hits,
          ag_avg_latency_us = (if reqs = 0 then 0 else lat div reqs)\<rparr>)"

section \<open>Properties\<close>

definition query_stats_ok :: "query_stats \<Rightarrow> bool" where
  "query_stats_ok s \<longleftrightarrow> qs_count s = qs_hits s + qs_misses s \<and> qs_min_latency_us s \<le> qs_max_latency_us s"

definition tracker_ok :: "stats_tracker \<Rightarrow> bool" where
  "tracker_ok tr \<longleftrightarrow> distinct (map fst (tr_stats tr)) \<and> (\<forall>(k, s) \<in> set (tr_stats tr). query_stats_ok s)
     \<and> length (tr_stats tr) \<le> max 1 (tr_max_queries tr)"

lemma oldest_key_some:
  "oldest_key xs best k = Some key \<Longrightarrow> k = Some key \<or> key \<in> fst ` set xs"
  by (induction xs best k rule: oldest_key.induct) (auto split: if_splits)

lemma oldest_key_none:
  "oldest_key xs best k = None \<Longrightarrow> k = None \<and> (\<forall>(key, s) \<in> set xs. best \<le> qs_last_seen s)"
  by (induction xs best k rule: oldest_key.induct) (auto split: if_splits)

lemma record_stats_ok:
  "query_stats_ok s \<Longrightarrow> query_stats_ok (query_stats_record h d ts s)" "query_stats_ok (first_record h d ts)"
  by (auto simp: query_stats_ok_def query_stats_record_def first_record_def query_stats_new_def Let_def
      min_def max_def)

lemma set_update_subset: "set (AList.update k v xs) \<subseteq> insert (k, v) (set xs)"
  by (induction xs) auto

lemma set_delete_subset: "set (AList.delete k xs) \<subseteq> set xs"
  by (simp add: AList.delete_eq)

lemma tracker_put_ok:
  assumes "tracker_ok tr" and "query_stats_ok s"
    and "key \<in> fst ` set (tr_stats tr) \<or> length (tr_stats tr) < max 1 (tr_max_queries tr)"
  shows "tracker_ok (tr\<lparr>tr_stats := AList.update key s (tr_stats tr)\<rparr>)"
proof -
  have "\<forall>(k, v) \<in> set (AList.update key s (tr_stats tr)). query_stats_ok v"
    using assms(1,2) set_update_subset [of key s "tr_stats tr"] unfolding tracker_ok_def by blast
  moreover have "length (AList.update key s (tr_stats tr)) \<le> max 1 (tr_max_queries tr)"
    using assms(1,3) by (auto simp: tracker_ok_def length_update)
  ultimately show ?thesis using assms(1) by (simp add: tracker_ok_def distinct_update)
qed

lemma tracker_get_put:
  "stats_query_key kh q tr = key \<Longrightarrow>
   tracker_get kh q (tr\<lparr>tr_stats := AList.update key s (tr_stats tr)\<rparr>) = Some s"
  by (simp add: tracker_get_def stats_query_key_def update_conv')

lemma last_seen [simp]:
  "qs_last_seen (query_stats_record h d ts s) = ts" "qs_last_seen (first_record h d ts) = ts"
  by (simp_all add: query_stats_record_def first_record_def query_stats_new_def Let_def)

lemma tracker_record_max [simp]: "tr_max_queries (tracker_record ord kh ts q h d tr) = tr_max_queries tr"
  by (auto simp: tracker_record_def stats_evict_oldest_def Let_def split: option.split)

text \<open>Evicting makes room, unless every query was last seen at the very last second of the clock.\<close>

lemma evict_oldest_ok:
  assumes "tracker_ok tr" and "mset (ord (tr_stats tr)) = mset (tr_stats tr)"
    and "\<forall>(k, s) \<in> set (tr_stats tr). qs_last_seen s < - 1" and "tr_stats tr \<noteq> []"
  shows "tracker_ok (stats_evict_oldest ord tr)
    \<and> Suc (length (tr_stats (stats_evict_oldest ord tr))) = length (tr_stats tr)"
proof -
  have st: "set (ord (tr_stats tr)) = set (tr_stats tr)" using assms(2) by (rule mset_eq_setD)
  have "oldest_key (ord (tr_stats tr)) (- 1) None \<noteq> None"
  proof
    assume "oldest_key (ord (tr_stats tr)) (- 1) None = None"
    then have "\<forall>(k, s) \<in> set (tr_stats tr). - 1 \<le> qs_last_seen s" using oldest_key_none st by blast
    moreover obtain k s where "(k, s) \<in> set (tr_stats tr)"
      using assms(4) by (metis list.set_intros(1) neq_Nil_conv surj_pair)
    ultimately show False using assms(3) by (metis (no_types, lifting) case_prodD leD)
  qed
  then obtain key where key: "oldest_key (ord (tr_stats tr)) (- 1) None = Some key" by blast
  then have "key \<in> fst ` set (tr_stats tr)" using oldest_key_some st by fastforce
  then obtain w where w: "map_of (tr_stats tr) key = Some w"
    using assms(1) by (auto simp: tracker_ok_def)
  have d: "distinct (map fst (tr_stats tr))" using assms(1) by (simp add: tracker_ok_def)
  have len: "Suc (length (AList.delete key (tr_stats tr))) = length (tr_stats tr)"
    using length_delete_Some [OF d w] .
  have "tracker_ok (tr\<lparr>tr_stats := AList.delete key (tr_stats tr)\<rparr>)"
    using assms(1) len set_delete_subset [of key "tr_stats tr"] by (auto simp: tracker_ok_def distinct_delete)
  then show ?thesis using key len by (simp add: stats_evict_oldest_def)
qed

text \<open>The tracker of query statistics stays within its bounds: recording a request keeps at most
  \<open>max_queries\<close> queries (one for a bound of 0), every one of them counted each of its requests as a
  hit or as a miss and its least latency is not above its greatest, and the request just recorded is
  among them.\<close>

theorem tracker_record_bounded:
  assumes "tracker_ok tr" and "\<And>xs. mset (ord xs) = mset xs"
    and "\<forall>(k, s) \<in> set (tr_stats tr). qs_last_seen s < - 1"
  shows "let tr' = tracker_record ord key_hash ts query is_hit latency tr
    in length (tr_stats tr') \<le> max 1 (tr_max_queries tr')
     \<and> (\<forall>(k, s) \<in> set (tr_stats tr'). qs_count s = qs_hits s + qs_misses s
          \<and> qs_min_latency_us s \<le> qs_max_latency_us s)
     \<and> (\<exists>s. tracker_get key_hash query tr' = Some s \<and> qs_last_seen s = ts)"
proof -
  let ?key = "stats_query_key key_hash query tr"
  let ?tr' = "tracker_record ord key_hash ts query is_hit latency tr"
  have d: "distinct (map fst (tr_stats tr))" using assms(1) by (simp add: tracker_ok_def)
  have "tracker_ok ?tr' \<and> (\<exists>s. tracker_get key_hash query ?tr' = Some s \<and> qs_last_seen s = ts)"
  proof (cases "map_of (tr_stats tr) ?key")
    case (Some s)
    have s: "query_stats_ok s" using Some assms(1) by (auto simp: tracker_ok_def dest: map_of_SomeD)
    have t: "?tr' = tr\<lparr>tr_stats := AList.update ?key (query_stats_record is_hit latency ts s) (tr_stats tr)\<rparr>"
      using Some by (simp add: tracker_record_def Let_def)
    have "?key \<in> fst ` set (tr_stats tr)" using Some by (metis map_of_SomeD fst_conv image_eqI)
    then show ?thesis
      using tracker_put_ok [OF assms(1) record_stats_ok(1) [OF s]] by (simp add: t tracker_get_put)
  next
    case None
    let ?t1 = "if length (tr_stats tr) \<ge> tr_max_queries tr then stats_evict_oldest ord tr else tr"
    have t: "?tr' = ?t1\<lparr>tr_stats := AList.update ?key (first_record is_hit latency ts) (tr_stats ?t1)\<rparr>"
      using None by (simp add: tracker_record_def Let_def)
    have t1: "tracker_ok ?t1 \<and> length (tr_stats ?t1) < max 1 (tr_max_queries tr)
        \<and> tr_max_queries ?t1 = tr_max_queries tr \<and> tr_store_query_text ?t1 = tr_store_query_text tr"
    proof (cases "length (tr_stats tr) \<ge> tr_max_queries tr \<and> tr_stats tr \<noteq> []")
      case True
      then show ?thesis
        using evict_oldest_ok [where ord = ord, OF assms(1) assms(2) assms(3)] assms(1)
        by (auto simp: tracker_ok_def stats_evict_oldest_def split: option.split)
    next
      case False
      have "mset (ord []) = mset []" by (rule assms(2))
      then have "ord [] = []" by simp
      then have "tr_stats tr = [] \<Longrightarrow> stats_evict_oldest ord tr = tr" by (simp add: stats_evict_oldest_def)
      then show ?thesis using False assms(1) by auto
    qed
    then have "tracker_ok ?tr'" unfolding t by (intro tracker_put_ok) (auto intro: record_stats_ok)
    moreover have "stats_query_key key_hash query ?t1 = ?key"
      using t1 by (simp add: stats_query_key_def)
    ultimately show ?thesis unfolding t using tracker_get_put [of key_hash query ?t1 ?key] by simp
  qed
  then show ?thesis by (auto simp: tracker_ok_def query_stats_ok_def Let_def)
qed

theorem tracker_record_bounded_witness:
  "length (tr_stats (tracker_record (\<lambda>xs. xs) (\<lambda>x. x) 5 (lit ''b'') True 7
     (tracker_record (\<lambda>xs. xs) (\<lambda>x. x) 4 (lit ''a'') True 7 (tracker_new 1)))) \<le> 1"
proof -
  define tr where "tr = tracker_record (\<lambda>xs. xs) (\<lambda>x. x) 4 (lit ''a'') True 7 (tracker_new 1)"
  have tr: "tr_stats tr = [(lit ''a'', first_record True 7 4)]" "tr_max_queries tr = 1"
    by (simp_all add: tr_def, simp_all add: tracker_record_def tracker_new_def stats_query_key_def)
  have "tracker_ok tr" by (simp add: tracker_ok_def tr record_stats_ok)
  moreover have "\<forall>(k, s) \<in> set (tr_stats tr). qs_last_seen s < - 1" by (simp add: tr)
  ultimately show ?thesis
    using tracker_record_bounded [of tr "\<lambda>xs. xs" "\<lambda>x. x" 5 "lit ''b''" True 7]
    unfolding tr_def [symmetric] by (simp add: Let_def tr(2))
qed

end
