(* ===== verification/Adaptive.thy ===== *)
theory Adaptive
  imports Metrics
begin

text \<open>
  The adaptive timeout (\<open>src/src/proxy/adaptive.rs\<close>): a ring of latency samples, the 99th percentile
  over it every ten samples, and the timeout as a multiple of it, clamped between two bounds; and the
  timeout budget of a request. \<open>u64::clamp\<close> panics when its bounds are crossed: \<open>None\<close>.
\<close>

record adaptive_config =
  ac_min_timeout :: duration
  ac_max_timeout :: duration
  ac_latency_multiplier :: fl
  ac_sample_size :: nat
  ac_initial_timeout :: duration

definition adaptive_config_default :: adaptive_config where
  "adaptive_config_default =
     \<lparr>ac_min_timeout = from_millis 100, ac_max_timeout = from_secs 30, ac_latency_multiplier = Fin 2,
      ac_sample_size = 100, ac_initial_timeout = from_secs 5\<rparr>"

record adaptive_timeout =
  at_config :: adaptive_config
  at_samples :: "u64 list"
  at_write_pos :: u64
  at_sample_count :: u64
  at_cached_p99 :: u64
  at_current_timeout :: u64

definition adaptive_new :: "adaptive_config \<Rightarrow> adaptive_timeout" where
  "adaptive_new cfg =
     \<lparr>at_config = cfg, at_samples = [], at_write_pos = 0, at_sample_count = 0, at_cached_p99 = 0,
      at_current_timeout = as_micros_u64 (ac_initial_timeout cfg)\<rparr>"

definition clamp_u64 :: "u64 \<Rightarrow> u64 \<Rightarrow> u64 \<Rightarrow> u64 option" where
  "clamp_u64 lo hi x = (if lo \<le> hi then Some (if x < lo then lo else if hi < x then hi else x) else None)"

definition recalculate :: "adaptive_timeout \<Rightarrow> adaptive_timeout option" where
  "recalculate a =
     (if at_samples a = [] then Some a
      else let sorted = sort (at_samples a);
               p99_us = sorted_get sorted (percentile_index (99 / 100) (length sorted));
               timeout_us = of_nat (fl_as_u64 (f64_mul (nat_as_f64 (unat p99_us))
                              (ac_latency_multiplier (at_config a))))
           in case clamp_u64 (as_micros_u64 (ac_min_timeout (at_config a)))
                             (as_micros_u64 (ac_max_timeout (at_config a))) timeout_us of
                Some t \<Rightarrow> Some (a\<lparr>at_cached_p99 := p99_us, at_current_timeout := t\<rparr>)
              | None \<Rightarrow> None)"

definition push_sample :: "u64 \<Rightarrow> adaptive_timeout \<Rightarrow> adaptive_timeout" where
  "push_sample us a =
     (let pos = unat (at_write_pos a); size = ac_sample_size (at_config a);
          idx = (if size = 0 then 0 else pos mod size)
      in a\<lparr>at_write_pos := at_write_pos a + 1,
           at_samples := (if length (at_samples a) < size then at_samples a @ [us]
                          else (at_samples a)[idx := us])\<rparr>)"

definition adaptive_record :: "duration \<Rightarrow> adaptive_timeout \<Rightarrow> adaptive_timeout option" where
  "adaptive_record latency a =
     (let a1 = push_sample (as_micros_u64 latency) a;
          a2 = a1\<lparr>at_sample_count := at_sample_count a1 + 1\<rparr>
      in if at_sample_count a2 mod 10 = 0 then recalculate a2 else Some a2)"

definition adaptive_timeout_of :: "adaptive_timeout \<Rightarrow> duration" where
  "adaptive_timeout_of a = unat (at_current_timeout a) * 1000"

definition adaptive_reset :: "adaptive_timeout \<Rightarrow> adaptive_timeout" where
  "adaptive_reset a =
     a\<lparr>at_samples := [], at_write_pos := 0, at_sample_count := 0, at_cached_p99 := 0,
       at_current_timeout := as_micros_u64 (ac_initial_timeout (at_config a))\<rparr>"

record timeout_budget =
  tb_deadline :: instant
  tb_original :: duration

definition budget_new :: "instant \<Rightarrow> duration \<Rightarrow> timeout_budget" where
  "budget_new now timeout = \<lparr>tb_deadline = now + timeout, tb_original = timeout\<rparr>"

definition budget_from_adaptive :: "instant \<Rightarrow> adaptive_timeout \<Rightarrow> timeout_budget" where
  "budget_from_adaptive now a = budget_new now (adaptive_timeout_of a)"

definition budget_remaining :: "instant \<Rightarrow> timeout_budget \<Rightarrow> duration" where
  "budget_remaining now b = tb_deadline b - now"

definition budget_is_expired :: "instant \<Rightarrow> timeout_budget \<Rightarrow> bool" where
  "budget_is_expired now b \<longleftrightarrow> now \<ge> tb_deadline b"

definition budget_elapsed :: "instant \<Rightarrow> timeout_budget \<Rightarrow> duration" where
  "budget_elapsed now b = tb_original b - budget_remaining now b"

section \<open>The sample window\<close>

definition window_ok :: "adaptive_timeout \<Rightarrow> bool" where
  "window_ok a \<longleftrightarrow> length (at_samples a) \<le> ac_sample_size (at_config a)
     \<and> (at_current_timeout a = as_micros_u64 (ac_initial_timeout (at_config a))
        \<or> as_micros_u64 (ac_min_timeout (at_config a)) \<le> at_current_timeout a
          \<and> at_current_timeout a \<le> as_micros_u64 (ac_max_timeout (at_config a)))"

lemma clamp_bounds: "clamp_u64 lo hi x = Some y \<Longrightarrow> lo \<le> y \<and> y \<le> hi"
  by (auto simp: clamp_u64_def split: if_splits)

lemma recalculate_ok:
  assumes "recalculate a = Some a'" and "window_ok a"
  shows "window_ok a' \<and> at_config a' = at_config a"
proof (cases "at_samples a = []")
  case True
  then show ?thesis using assms by (simp add: recalculate_def)
next
  case False
  then show ?thesis
    using assms by (auto simp: recalculate_def Let_def window_ok_def split: option.splits dest: clamp_bounds)
qed

lemma push_ok: "window_ok a \<Longrightarrow> window_ok (push_sample us a) \<and> at_config (push_sample us a) = at_config a"
  by (auto simp: push_sample_def window_ok_def Let_def)

lemma record_ok:
  assumes "adaptive_record d a = Some a'" and "window_ok a"
  shows "window_ok a' \<and> at_config a' = at_config a"
proof -
  let ?a = "push_sample (as_micros_u64 d) a"
  let ?b = "?a\<lparr>at_sample_count := at_sample_count ?a + 1\<rparr>"
  have b: "window_ok ?b" "at_config ?b = at_config a"
    using push_ok [OF assms(2), of "as_micros_u64 d"] by (auto simp: window_ok_def)
  show ?thesis
  proof (cases "at_sample_count ?b mod 10 = 0")
    case True
    then have "recalculate ?b = Some a'" using assms(1) by (simp add: adaptive_record_def Let_def)
    from recalculate_ok [OF this b(1)] show ?thesis by (simp only: b(2))
  next
    case False
    then have "a' = ?b" using assms(1) by (simp add: adaptive_record_def Let_def)
    then show ?thesis using b by simp
  qed
qed

lemma record_returns:
  assumes "as_micros_u64 (ac_min_timeout (at_config a)) \<le> as_micros_u64 (ac_max_timeout (at_config a))"
    and "window_ok a"
  shows "\<exists>a'. adaptive_record d a = Some a'"
  using assms push_ok [OF assms(2), of "as_micros_u64 d"]
  by (simp add: adaptive_record_def Let_def recalculate_def clamp_u64_def)

fun record_list :: "duration list \<Rightarrow> adaptive_timeout \<Rightarrow> adaptive_timeout option" where
  "record_list [] a = Some a"
| "record_list (d # ds) a = Option.bind (adaptive_record d a) (record_list ds)"

lemma record_list_ok:
  assumes "as_micros_u64 (ac_min_timeout (at_config a)) \<le> as_micros_u64 (ac_max_timeout (at_config a))"
    and "window_ok a"
  shows "\<exists>a'. record_list ds a = Some a' \<and> window_ok a' \<and> at_config a' = at_config a"
  using assms
proof (induction ds arbitrary: a)
  case (Cons d ds)
  obtain a1 where a1: "adaptive_record d a = Some a1" using record_returns [OF Cons.prems] by blast
  have "window_ok a1" "at_config a1 = at_config a" using record_ok [OF a1 Cons.prems(2)] by simp_all
  then show ?case using Cons.IH [of a1] Cons.prems(1) a1 by simp
qed simp

text \<open>With bounds that are not crossed, recording any latencies never panics, the window never
  grows past the sample size, and the timeout is the initial one or lies between the bounds.\<close>

theorem adaptive_timeout_bounded:
  assumes "as_micros_u64 (ac_min_timeout cfg) \<le> as_micros_u64 (ac_max_timeout cfg)"
  shows "\<exists>a. record_list ds (adaptive_new cfg) = Some a \<and> length (at_samples a) \<le> ac_sample_size cfg
    \<and> (at_current_timeout a = as_micros_u64 (ac_initial_timeout cfg)
       \<or> as_micros_u64 (ac_min_timeout cfg) \<le> at_current_timeout a
         \<and> at_current_timeout a \<le> as_micros_u64 (ac_max_timeout cfg))"
proof -
  have "window_ok (adaptive_new cfg)" "at_config (adaptive_new cfg) = cfg"
    by (simp_all add: adaptive_new_def window_ok_def)
  then show ?thesis using record_list_ok [of "adaptive_new cfg" ds] assms by (auto simp: window_ok_def)
qed

theorem adaptive_timeout_bounded_witness:
  "\<exists>a. record_list [7, 8, 9] (adaptive_new adaptive_config_default) = Some a \<and> length (at_samples a) \<le> 100"
  using adaptive_timeout_bounded [of adaptive_config_default "[7, 8, 9]"]
  by (auto simp: adaptive_config_default_def as_micros_u64_def from_millis_def from_secs_def
      nanos_per_milli_def nanos_per_sec_def)

end
