(* ===== verification/Coalesce.thy ===== *)
theory Coalesce
  imports Types
begin

text \<open>
  Request coalescing (\<open>src/src/proxy/coalesce.rs\<close>). A broadcast channel is a number; \<open>co_sent\<close>
  holds what was sent on it. The coalescer keeps the only sender of a channel, sends at most one
  value on it and then drops it: a receiver gets the value, or \<open>Closed\<close> when the sender was dropped
  without sending, and waits (\<open>None\<close>) while the sender is still in the map.
\<close>

datatype proxy_error = StartupTimeout rstr | Http rstr

type_synonym coalesce_result = "proxy_error + query_response"

record request_coalescer =
  co_in_flight :: "query_hash \<rightharpoonup> nat"
  co_sent :: "nat \<rightharpoonup> coalesce_result"
  co_next :: nat

datatype coalesce_action = Leader | Waiter nat

definition coalescer_empty :: request_coalescer where
  "coalescer_empty = \<lparr>co_in_flight = Map.empty, co_sent = Map.empty, co_next = 0\<rparr>"

definition get_or_insert :: "query_hash \<Rightarrow> request_coalescer \<Rightarrow> coalesce_action \<times> request_coalescer" where
  "get_or_insert h co =
     (case co_in_flight co h of
        Some ch \<Rightarrow> (Waiter ch, co)
      | None \<Rightarrow> (Leader, co\<lparr>co_in_flight := (co_in_flight co)(h \<mapsto> co_next co), co_next := Suc (co_next co)\<rparr>))"

definition co_complete :: "query_hash \<Rightarrow> coalesce_result \<Rightarrow> request_coalescer \<Rightarrow> request_coalescer" where
  "co_complete h r co =
     (case co_in_flight co h of
        Some ch \<Rightarrow> co\<lparr>co_in_flight := (co_in_flight co)(h := None), co_sent := (co_sent co)(ch \<mapsto> r)\<rparr>
      | None \<Rightarrow> co)"

definition co_remove :: "query_hash \<Rightarrow> request_coalescer \<Rightarrow> request_coalescer" where
  "co_remove h co = co\<lparr>co_in_flight := (co_in_flight co)(h := None)\<rparr>"

definition is_in_flight :: "query_hash \<Rightarrow> request_coalescer \<Rightarrow> bool" where
  "is_in_flight h co \<longleftrightarrow> co_in_flight co h \<noteq> None"

datatype received = Received coalesce_result | ChannelClosed

text \<open>\<open>receiver.recv()\<close>: \<open>None\<close> while it has to wait.\<close>

definition co_recv :: "nat \<Rightarrow> request_coalescer \<Rightarrow> received option" where
  "co_recv ch co =
     (case co_sent co ch of
        Some r \<Rightarrow> Some (Received r)
      | None \<Rightarrow> if ch \<in> ran (co_in_flight co) then None else Some ChannelClosed)"

section \<open>The channel invariant\<close>

definition channels_ok :: "request_coalescer \<Rightarrow> bool" where
  "channels_ok co \<longleftrightarrow>
     (\<forall>h ch. co_in_flight co h = Some ch \<longrightarrow> ch < co_next co \<and> co_sent co ch = None)
     \<and> (\<forall>ch r. co_sent co ch = Some r \<longrightarrow> ch < co_next co)
     \<and> (\<forall>h h' ch. co_in_flight co h = Some ch \<longrightarrow> co_in_flight co h' = Some ch \<longrightarrow> h = h')"

lemma channels_ok_empty: "channels_ok coalescer_empty"
  by (simp add: channels_ok_def coalescer_empty_def)

lemma channels_ok_get_or_insert: "channels_ok co \<Longrightarrow> channels_ok (snd (get_or_insert h co))"
  by (cases "co_in_flight co h") (fastforce simp: channels_ok_def get_or_insert_def)+

lemma channels_ok_complete: "channels_ok co \<Longrightarrow> channels_ok (co_complete h r co)"
  by (cases "co_in_flight co h") (auto simp: channels_ok_def co_complete_def)

lemma get_or_insert_cases:
  "get_or_insert h co = (Waiter ch, co') \<Longrightarrow> co' = co \<and> co_in_flight co h = Some ch"
  "get_or_insert h co = (Leader, co') \<Longrightarrow> co_in_flight co h = None
     \<and> co_in_flight co' = (co_in_flight co)(h \<mapsto> co_next co) \<and> co_sent co' = co_sent co
     \<and> co_next co' = Suc (co_next co)"
  by (auto simp: get_or_insert_def split: option.splits)

lemma complete_sends:
  assumes "co_in_flight co h = Some ch"
  shows "co_recv ch (co_complete h r co) = Some (Received r)"
  using assms by (simp add: co_recv_def co_complete_def)

end
