(* ===== verification/QueryCore.thy ===== *)
theory QueryCore
  imports Cascade CacheLimits Circuit Upstream Agents QueryStats Adaptive Coalesce
begin

text \<open>
  The query core (\<open>src/src/proxy/server/query_core.rs\<close>), shared by the HTTP and gRPC handlers and the
  engine, with the client tracker of \<open>server/mod.rs\<close> and the upstream errors of \<open>upstream.rs\<close>. The
  asynchronous function \<open>execute_query\<close> runs without interruption up to the point where it awaits the
  upstream as the leader of a fetch or the channel as a waiter, and again from there to its end: the
  definitions \<open>execute_query_begin\<close>, \<open>leader_finish\<close> and \<open>waiter_finish\<close> are these segments, and the
  step relation \<open>sys_step\<close> interleaves the segments of any number of requests. The default feature set
  is modelled, without \<open>embed-api\<close>. Parameters are what lies outside: the iteration orders of the maps,
  the hash of query keys, and the scope filter of a context as the function it applies to results.
\<close>

section \<open>Upstream errors and dispatch\<close>

text \<open>What the upstreams would answer at one attempt: \<open>None\<close> where none is configured.\<close>

record dispatch_io =
  io_permit :: bool
  io_cascade :: "cascade_result option"
  io_pool :: "(upstream_error + query_response) option"
  io_upstream :: "(upstream_error + query_response) option"

definition default_upstream_id :: "search_result \<Rightarrow> search_result" where
  "default_upstream_id r = (if sr_upstream_id r = None then r\<lparr>sr_upstream_id := Some (lit ''default'')\<rparr> else r)"

definition cascade_failed :: "cascade_result \<Rightarrow> bool" where
  "cascade_failed cr \<longleftrightarrow>
     cr_stop_reason cr = CascadeTimeout \<or> cr_stop_reason cr = NoUpstreams
     \<or> (cr_stop_reason cr = AllExhausted \<and> cr_upstream_scores cr \<noteq> []
         \<and> list_all (\<lambda>s. us_error s \<noteq> None) (cr_upstream_scores cr))"

definition dispatch_upstream_query :: "dispatch_io \<Rightarrow> upstream_error + query_response" where
  "dispatch_upstream_query io =
     (if \<not> io_permit io then Inl (UpUnavailable (lit ''Global connection limit reached''))
      else case io_cascade io of
             Some cr \<Rightarrow>
               if cascade_failed cr then Inl (UpUnavailable (lit ''All upstreams failed in cascade''))
               else Inr \<lparr>qr_results = cr_results cr, qr_cache_status = Miss, qr_took_ms = cr_cascade_time_ms cr,
                         qr_generated_at = None, qr_miss_reason = None\<rparr>
           | None \<Rightarrow>
               (case io_pool io of
                  Some r \<Rightarrow> r
                | None \<Rightarrow>
                    (case io_upstream io of
                       Some (Inr resp) \<Rightarrow> Inr (resp\<lparr>qr_results := map default_upstream_id (qr_results resp)\<rparr>)
                     | Some (Inl e) \<Rightarrow> Inl e
                     | None \<Rightarrow> Inl UpNotConfigured)))"

section \<open>State\<close>

record client_info =
  ci_request_id :: rstr
  ci_started_at_ms :: u64
  ci_query :: rstr
  ci_source :: rstr

record client_tracker =
  ct_active :: "rstr \<rightharpoonup> client_info"
  ct_total_completed :: u64
  ct_total_rejected :: u64

definition client_tracker_new :: client_tracker where
  "client_tracker_new = \<lparr>ct_active = Map.empty, ct_total_completed = 0, ct_total_rejected = 0\<rparr>"

definition client_track :: "system_time \<Rightarrow> rstr \<Rightarrow> rstr \<Rightarrow> rstr \<Rightarrow> client_tracker \<Rightarrow> client_tracker" where
  "client_track wall rid query source ct =
     ct\<lparr>ct_active := (ct_active ct)(rid \<mapsto>
        \<lparr>ci_request_id = rid, ci_started_at_ms = now_ms wall, ci_query = query, ci_source = source\<rparr>)\<rparr>"

definition client_complete :: "rstr \<Rightarrow> client_tracker \<Rightarrow> client_tracker" where
  "client_complete rid ct =
     ct\<lparr>ct_active := (ct_active ct)(rid := None), ct_total_completed := ct_total_completed ct + 1\<rparr>"

definition client_reject :: "client_tracker \<Rightarrow> client_tracker" where
  "client_reject ct = ct\<lparr>ct_total_rejected := ct_total_rejected ct + 1\<rparr>"

record 'p stale_task =
  sk_query :: rstr
  sk_context_id :: rstr
  sk_has_upstream :: bool
  sk_scope_filter :: 'p

record 'p app_state =
  ap_paused :: bool
  ap_tracker :: client_tracker
  ap_metrics :: proxy_metrics
  ap_contexts :: "'p context_manager"
  ap_cache :: cache_store
  ap_stats :: stats_tracker
  ap_circuit :: circuit_breaker
  ap_coalescer :: request_coalescer
  ap_adaptive :: adaptive_timeout
  ap_tracked_queries :: "(query_hash \<rightharpoonup> rstr) option"
  ap_upstream_id :: rstr
  ap_scope_filter :: 'p
  ap_has_cascade :: bool
  ap_has_pool :: bool
  ap_has_upstream :: bool
  ap_spawned :: "'p stale_task list"

text \<open>The parameters of the model.\<close>

record 'p query_env =
  qe_env :: env
  qe_ctx_order :: "(rstr \<times> 'p context_cache) list \<Rightarrow> (rstr \<times> 'p context_cache) list"
  qe_stats_order :: "(rstr \<times> query_stats) list \<Rightarrow> (rstr \<times> query_stats) list"
  qe_key_hash :: "rstr \<Rightarrow> rstr"
  qe_apply_filter :: "'p \<Rightarrow> search_result list \<Rightarrow> search_result list"

record query_result =
  qx_response :: cached_response
  qx_status :: u16

definition result_ok :: "cached_response \<Rightarrow> query_result" where
  "result_ok r = \<lparr>qx_response = r, qx_status = 200\<rparr>"

definition result_with_status :: "cached_response \<Rightarrow> u16 \<Rightarrow> query_result" where
  "result_with_status r s = \<lparr>qx_response = r, qx_status = s\<rparr>"

definition empty_miss_response :: "u64 \<Rightarrow> miss_reason option \<Rightarrow> query_response" where
  "empty_miss_response took reason =
     \<lparr>qr_results = [], qr_cache_status = Miss, qr_took_ms = took, qr_generated_at = None,
      qr_miss_reason = reason\<rparr>"

text \<open>What a request keeps while it waits.\<close>

record pending =
  pd_request :: query_request
  pd_context_id :: rstr
  pd_request_id :: rstr
  pd_hash :: query_hash
  pd_ctx_query :: rstr
  pd_start :: instant
  pd_miss_reason :: miss_reason

datatype phase = Finished query_result | Leading pending | Waiting pending nat | Panicked

definition scope_filter_for :: "rstr \<Rightarrow> 'p app_state \<Rightarrow> 'p" where
  "scope_filter_for cid st =
     (case policy_for cid (ap_contexts st) of Some f \<Rightarrow> f | None \<Rightarrow> ap_scope_filter st)"

definition on_metrics :: "(proxy_metrics \<Rightarrow> proxy_metrics) \<Rightarrow> 'p app_state \<Rightarrow> 'p app_state" where
  "on_metrics f st = st\<lparr>ap_metrics := f (ap_metrics st)\<rparr>"

definition on_tracker :: "(client_tracker \<Rightarrow> client_tracker) \<Rightarrow> 'p app_state \<Rightarrow> 'p app_state" where
  "on_tracker f st = st\<lparr>ap_tracker := f (ap_tracker st)\<rparr>"

definition on_contexts :: "('p context_manager \<Rightarrow> 'p context_manager) \<Rightarrow> 'p app_state \<Rightarrow> 'p app_state" where
  "on_contexts f st = st\<lparr>ap_contexts := f (ap_contexts st)\<rparr>"

definition unix_secs :: "system_time \<Rightarrow> u64" where
  "unix_secs wall = (if wall < 0 then 0 else of_nat (nat wall div nanos_per_sec))"

definition record_query :: "'p query_env \<Rightarrow> clock \<Rightarrow> rstr \<Rightarrow> bool \<Rightarrow> duration \<Rightarrow> 'p app_state \<Rightarrow> 'p app_state" where
  "record_query Q t query is_hit d st =
     st\<lparr>ap_stats := tracker_record (qe_stats_order Q) (qe_key_hash Q)
          (unix_secs (ck_wall t)) query is_hit d (ap_stats st)\<rparr>"

definition register_query :: "env \<Rightarrow> rstr \<Rightarrow> 'p app_state \<Rightarrow> 'p app_state" where
  "register_query E query st =
     st\<lparr>ap_tracked_queries := map_option (\<lambda>m. m(hash_query E query \<mapsto> query)) (ap_tracked_queries st)\<rparr>"

section \<open>From the start to the first await\<close>

definition ensure_context :: "'p query_env \<Rightarrow> clock \<Rightarrow> rstr \<Rightarrow> 'p app_state \<Rightarrow> 'p app_state" where
  "ensure_context Q t cid st =
     (if get_metadata cid (ap_contexts st) = None
      then on_contexts (\<lambda>mg. snd (context_switch (qe_ctx_order Q) (ck_now t) (unix_secs (ck_wall t)) cid mg)) st
      else st)"

definition has_upstream :: "'p app_state \<Rightarrow> bool" where
  "has_upstream st \<longleftrightarrow> ap_has_cascade st \<or> ap_has_pool st \<or> ap_has_upstream st"

text \<open>After the cache: the circuit breaker and the coalescer, or the answer without an upstream.\<close>

definition fetch_phase :: "'p query_env \<Rightarrow> clock \<Rightarrow> pending \<Rightarrow> 'p app_state \<Rightarrow> phase \<times> 'p app_state" where
  "fetch_phase Q t p st =
     (let took = as_millis_u64 (elapsed (ck_now t) (pd_start p))
      in if has_upstream st
         then (case circuit_allow_request (ck_now t) (ap_circuit st) of
                 (False, cb) \<Rightarrow>
                   let st1 = st\<lparr>ap_circuit := cb\<rparr>
                   in (case get_by_hash (pd_hash p) (ap_cache st1) of
                         (Some e, cs) \<Rightarrow>
                           (Finished (result_ok (from_cache e FrozenHit took)),
                            on_tracker (client_complete (pd_request_id p))
                              (on_metrics record_frozen (st1\<lparr>ap_cache := cs\<rparr>)))
                       | (None, cs) \<Rightarrow>
                           (Finished (result_with_status
                              (FreshResponse (empty_miss_response took (Some MissCircuitOpen))) 503),
                            on_tracker (client_complete (pd_request_id p))
                              (on_metrics (record_miss MissCircuitOpen) (st1\<lparr>ap_cache := cs\<rparr>))))
               | (True, cb) \<Rightarrow>
                   let st1 = st\<lparr>ap_circuit := cb\<rparr>
                   in (case get_or_insert (pd_hash p) (ap_coalescer st1) of
                         (Leader, co) \<Rightarrow>
                           (Leading p, on_metrics record_upstream_request (st1\<lparr>ap_coalescer := co\<rparr>))
                       | (Waiter ch, co) \<Rightarrow>
                           (Waiting p ch, on_metrics record_coalesced (st1\<lparr>ap_coalescer := co\<rparr>))))
         else (case get_by_hash (pd_hash p) (ap_cache st) of
                 (Some e, cs) \<Rightarrow>
                   (Finished (result_ok (from_cache e Hit took)),
                    on_tracker (client_complete (pd_request_id p)) (st\<lparr>ap_cache := cs\<rparr>))
               | (None, cs) \<Rightarrow>
                   (Finished (result_with_status
                      (FreshResponse (empty_miss_response took (Some (pd_miss_reason p)))) 503),
                    on_tracker (client_complete (pd_request_id p))
                      (on_metrics (record_miss (pd_miss_reason p)) (st\<lparr>ap_cache := cs\<rparr>)))))"

definition serve_fresh ::
  "'p query_env \<Rightarrow> clock \<Rightarrow> pending \<Rightarrow> cache_entry \<Rightarrow> 'p app_state \<Rightarrow> phase \<times> 'p app_state" where
  "serve_fresh Q t p e st =
     (let d = elapsed (ck_now t) (pd_start p)
      in (Finished (result_ok (from_cache e Hit (as_millis_u64 d))),
          on_tracker (client_complete (pd_request_id p))
            (record_query Q t (rq_query (pd_request p)) True d
              (on_metrics (record_latency d)
                (on_contexts (record_hit_for (pd_context_id p)) (on_metrics record_hit st))))))"

definition serve_stale ::
  "'p query_env \<Rightarrow> clock \<Rightarrow> pending \<Rightarrow> cache_entry \<Rightarrow> 'p app_state \<Rightarrow> phase \<times> 'p app_state" where
  "serve_stale Q t p e st =
     (let d = elapsed (ck_now t) (pd_start p);
          task = \<lparr>sk_query = rq_query (pd_request p), sk_context_id = pd_context_id p,
                  sk_has_upstream = ap_has_upstream st,
                  sk_scope_filter = scope_filter_for (pd_context_id p) st\<rparr>;
          st1 = on_metrics record_stale st;
          st2 = st1\<lparr>ap_spawned := ap_spawned st1 @ [task]\<rparr>
      in (Finished (result_ok (from_cache e StaleHit (as_millis_u64 d))),
          on_tracker (client_complete (pd_request_id p))
            (record_query Q t (rq_query (pd_request p)) True d (on_metrics (record_latency d) st2))))"

definition execute_query_begin ::
  "'p query_env \<Rightarrow> instant \<Rightarrow> clock \<Rightarrow> query_request \<Rightarrow> rstr \<Rightarrow> rstr \<Rightarrow> agent_identity option \<Rightarrow>
   rstr \<Rightarrow> bool \<Rightarrow> 'p app_state \<Rightarrow> phase \<times> 'p app_state" where
  "execute_query_begin Q start t request context_id request_id agent source skip_cache st =
     (let took = as_millis_u64 (elapsed (ck_now t) start)
      in if ap_paused st
         then (Finished (result_with_status (FreshResponse (empty_miss_response took None)) 503),
               on_tracker client_reject st)
         else if request_validate request \<noteq> Inr ()
         then (Finished (result_with_status (FreshResponse (empty_miss_response took None)) 400),
               on_metrics record_validation_error st)
         else let st1 = on_tracker (client_track (ck_wall t) request_id (rq_query request) source) st;
                  st2 = ensure_context Q t context_id st1
              in if (case agent of Some a \<Rightarrow> \<not> can_access_context context_id a | None \<Rightarrow> False)
                 then (Finished (result_with_status (FreshResponse (empty_miss_response took None)) 403),
                       on_tracker (client_complete request_id) st2)
                 else let ctx_query = context_query context_id (rq_query request);
                          h = hash_query (qe_env Q) ctx_query;
                          p = \<lparr>pd_request = request, pd_context_id = context_id, pd_request_id = request_id,
                               pd_hash = h, pd_ctx_query = ctx_query, pd_start = start,
                               pd_miss_reason = NotInCache\<rparr>
                      in if skip_cache then fetch_phase Q t p st2
                         else (case check_freshness_by_hash t h (ap_cache st2) of
                                 None \<Rightarrow> (Panicked, st2)
                               | Some None \<Rightarrow> fetch_phase Q t p st2
                               | Some (Some Fresh) \<Rightarrow>
                                   (case get_by_hash h (ap_cache st2) of
                                      (Some e, cs) \<Rightarrow> serve_fresh Q t p e (st2\<lparr>ap_cache := cs\<rparr>)
                                    | (None, cs) \<Rightarrow> fetch_phase Q t p (st2\<lparr>ap_cache := cs\<rparr>))
                               | Some (Some Stale) \<Rightarrow>
                                   (case get_by_hash h (ap_cache st2) of
                                      (Some e, cs) \<Rightarrow> serve_stale Q t p e (st2\<lparr>ap_cache := cs\<rparr>)
                                    | (None, cs) \<Rightarrow> fetch_phase Q t p (st2\<lparr>ap_cache := cs\<rparr>))
                               | Some (Some _) \<Rightarrow>
                                   fetch_phase Q t (p\<lparr>pd_miss_reason := MissExpired\<rparr>) st2))"

section \<open>From the await to the end\<close>

definition complete_fetch_with :: "query_hash \<Rightarrow> coalesce_result \<Rightarrow> 'p app_state \<Rightarrow> 'p app_state" where
  "complete_fetch_with h r st = st\<lparr>ap_coalescer := co_complete h r (ap_coalescer st)\<rparr>"

text \<open>The leader, with the outcome of the retries: success and failure.\<close>

definition leader_success ::
  "'p query_env \<Rightarrow> clock \<Rightarrow> pending \<Rightarrow> query_response \<Rightarrow> 'p app_state \<Rightarrow> phase \<times> 'p app_state" where
  "leader_success Q t p response st =
     (let h = pd_hash p; reason = pd_miss_reason p;
          st1 = on_contexts (record_miss_for (pd_context_id p)) (on_metrics (record_miss reason) st);
          st2 = st1\<lparr>ap_circuit := circuit_record_success (ck_now t) (ap_circuit st1)\<rparr>;
          filtered = qe_apply_filter Q (scope_filter_for (pd_context_id p) st2) (qr_results response);
          resp = response\<lparr>qr_results := filtered, qr_cache_status := Miss, qr_miss_reason := Some reason\<rparr>;
          d = elapsed (ck_now t) (pd_start p);
          took = as_millis_u64 d;
          shared = resp\<lparr>qr_took_ms := took\<rparr>
      in if response_validate resp \<noteq> Inr ()
         then (Finished (result_ok (SharedFresh shared took)),
               on_tracker (client_complete (pd_request_id p))
                 (on_metrics (record_latency d)
                   (complete_fetch_with h (Inr shared) (on_metrics record_validation_error st2))))
         else let st3 = st2\<lparr>ap_cache := insert_by_hash (qe_env Q) t h resp (ap_upstream_id st2)
                                          (Some (pd_ctx_query p)) (ap_cache st2)\<rparr>;
                  st4 = register_query (qe_env Q) (pd_ctx_query p) st3
              in (Finished (result_ok (SharedFresh shared took)),
                  on_tracker (client_complete (pd_request_id p))
                    (record_query Q t (rq_query (pd_request p)) False d
                      (on_metrics (record_latency d) (complete_fetch_with h (Inr shared) st4)))))"

definition leader_failure ::
  "'p query_env \<Rightarrow> clock \<Rightarrow> pending \<Rightarrow> upstream_error \<Rightarrow> 'p app_state \<Rightarrow> phase \<times> 'p app_state" where
  "leader_failure Q t p err st =
     (let h = pd_hash p;
          st1 = on_metrics (record_upstream_failure \<circ> record_miss UpstreamError) st;
          st2 = st1\<lparr>ap_circuit := circuit_record_failure (ck_now t) (ap_circuit st1)\<rparr>;
          d = elapsed (ck_now t) (pd_start p);
          took = as_millis_u64 d
      in case get_by_hash h (ap_cache st2) of
           (Some e, cs) \<Rightarrow>
             (Finished (result_ok (from_cache e FrozenHit took)),
              on_tracker (client_complete (pd_request_id p))
                (on_metrics (record_latency d)
                  (complete_fetch_with h
                    (Inr \<lparr>qr_results = qr_results (ce_response e), qr_cache_status = FrozenHit,
                          qr_took_ms = took, qr_generated_at = qr_generated_at (ce_response e),
                          qr_miss_reason = qr_miss_reason (ce_response e)\<rparr>)
                    (on_metrics record_frozen (st2\<lparr>ap_cache := cs\<rparr>)))))
         | (None, cs) \<Rightarrow>
             (Finished (result_with_status
                (FreshResponse (empty_miss_response took (Some UpstreamError))) 502),
              on_tracker (client_complete (pd_request_id p))
                (on_metrics (record_latency d)
                  (complete_fetch_with h (Inl (Http (upstream_error_display err))) (st2\<lparr>ap_cache := cs\<rparr>)))))"

definition leader_finish ::
  "'p query_env \<Rightarrow> clock \<Rightarrow> pending \<Rightarrow> (query_response, upstream_error) retry_result \<Rightarrow> 'p app_state \<Rightarrow>
   phase \<times> 'p app_state" where
  "leader_finish Q t p rr st =
     (case (if rr_is_success rr then adaptive_record (rr_total_duration rr) (ap_adaptive st)
            else Some (ap_adaptive st)) of
        None \<Rightarrow> (Panicked, st)
      | Some ad \<Rightarrow>
          let st1 = st\<lparr>ap_adaptive := ad\<rparr>;
              st2 = (if rr_retried rr then on_metrics record_upstream_request st1 else st1)
          in case rr_result rr of
               Inr response \<Rightarrow> leader_success Q t p response st2
             | Inl err \<Rightarrow> leader_failure Q t p err st2)"

definition waiter_finish ::
  "'p query_env \<Rightarrow> clock \<Rightarrow> pending \<Rightarrow> received \<Rightarrow> 'p app_state \<Rightarrow> phase \<times> 'p app_state" where
  "waiter_finish Q t p msg st =
     (let d = elapsed (ck_now t) (pd_start p); took = as_millis_u64 d
      in case msg of
           Received (Inr resp) \<Rightarrow>
             (Finished (result_ok (SharedFresh resp took)),
              on_tracker (client_complete (pd_request_id p)) (on_metrics (record_latency d) st))
         | _ \<Rightarrow>
             (case get_by_hash (pd_hash p) (ap_cache st) of
                (Some e, cs) \<Rightarrow>
                  (Finished (result_ok (from_cache e FrozenHit took)),
                   on_tracker (client_complete (pd_request_id p))
                     (on_metrics (record_latency d) (on_metrics record_frozen (st\<lparr>ap_cache := cs\<rparr>))))
              | (None, cs) \<Rightarrow>
                  (Finished (result_with_status
                     (FreshResponse (empty_miss_response took (Some UpstreamError))) 502),
                   on_tracker (client_complete (pd_request_id p))
                     (on_metrics (record_latency d) (st\<lparr>ap_cache := cs\<rparr>)))))"

text \<open>The task that a stale hit spawns, with the answer of the upstream.\<close>

definition stale_task_run ::
  "'p query_env \<Rightarrow> clock \<Rightarrow> 'p stale_task \<Rightarrow> upstream_error + query_response \<Rightarrow> 'p app_state \<Rightarrow> 'p app_state" where
  "stale_task_run Q t task answer st =
     (if \<not> sk_has_upstream task then st
      else case answer of
             Inl _ \<Rightarrow> st
           | Inr resp0 \<Rightarrow>
               let resp = resp0\<lparr>qr_results := qe_apply_filter Q (sk_scope_filter task) (qr_results resp0)\<rparr>;
                   key = context_query (sk_context_id task) (sk_query task)
               in if response_validate resp = Inr ()
                  then register_query (qe_env Q) key
                         (st\<lparr>ap_cache := insert_with_context (qe_env Q) t key resp (ap_upstream_id st)
                               (sk_context_id task) (ap_cache st)\<rparr>)
                  else st)"

section \<open>What each segment touches\<close>

lemma frame_coalescer [simp]:
  "ap_coalescer (on_metrics f st) = ap_coalescer st" "ap_coalescer (on_tracker g st) = ap_coalescer st"
  "ap_coalescer (on_contexts k st) = ap_coalescer st" "ap_coalescer (record_query Q t q b d st) = ap_coalescer st"
  "ap_coalescer (register_query E q st) = ap_coalescer st"
  "ap_coalescer (ensure_context Q t cid st) = ap_coalescer st"
  "ap_coalescer (complete_fetch_with h r st) = co_complete h r (ap_coalescer st)"
  by (simp_all add: on_metrics_def on_tracker_def on_contexts_def record_query_def register_query_def
      ensure_context_def complete_fetch_with_def)

lemma frame_cache [simp]:
  "ap_cache (on_metrics f st) = ap_cache st" "ap_cache (on_tracker g st) = ap_cache st"
  "ap_cache (on_contexts k st) = ap_cache st" "ap_cache (record_query Q t q b d st) = ap_cache st"
  "ap_cache (register_query E q st) = ap_cache st" "ap_cache (ensure_context Q t cid st) = ap_cache st"
  "ap_cache (complete_fetch_with h r st) = ap_cache st"
  by (simp_all add: on_metrics_def on_tracker_def on_contexts_def record_query_def register_query_def
      ensure_context_def complete_fetch_with_def)

lemma frame_tracker [simp]:
  "ap_tracker (on_metrics f st) = ap_tracker st" "ap_tracker (on_tracker g st) = g (ap_tracker st)"
  "ap_tracker (on_contexts k st) = ap_tracker st" "ap_tracker (record_query Q t q b d st) = ap_tracker st"
  "ap_tracker (register_query E q st) = ap_tracker st" "ap_tracker (ensure_context Q t cid st) = ap_tracker st"
  "ap_tracker (complete_fetch_with h r st) = ap_tracker st"
  by (simp_all add: on_metrics_def on_tracker_def on_contexts_def record_query_def register_query_def
      ensure_context_def complete_fetch_with_def)

lemma frame_circuit [simp]:
  "ap_circuit (on_metrics f st) = ap_circuit st" "ap_circuit (on_tracker g st) = ap_circuit st"
  "ap_circuit (on_contexts k st) = ap_circuit st" "ap_circuit (ensure_context Q t cid st) = ap_circuit st"
  by (simp_all add: on_metrics_def on_tracker_def on_contexts_def ensure_context_def)

lemma frame_metrics [simp]:
  "ap_metrics (on_metrics f st) = f (ap_metrics st)" "ap_metrics (on_tracker g st) = ap_metrics st"
  "ap_metrics (on_contexts k st) = ap_metrics st" "ap_metrics (record_query Q t q b d st) = ap_metrics st"
  "ap_metrics (register_query E q st) = ap_metrics st" "ap_metrics (ensure_context Q t cid st) = ap_metrics st"
  "ap_metrics (complete_fetch_with h r st) = ap_metrics st"
  by (simp_all add: on_metrics_def on_tracker_def on_contexts_def record_query_def register_query_def
      ensure_context_def complete_fetch_with_def)

lemma frame_upstreams [simp]:
  "has_upstream (on_metrics f st) = has_upstream st" "has_upstream (on_tracker g st) = has_upstream st"
  "has_upstream (on_contexts k st) = has_upstream st" "has_upstream (ensure_context Q t cid st) = has_upstream st"
  "has_upstream (st\<lparr>ap_cache := cs\<rparr>) = has_upstream st"
  by (simp_all add: has_upstream_def on_metrics_def on_tracker_def on_contexts_def ensure_context_def)

text \<open>What a segment does to the coalescer: nothing when it finishes, joins or opens a fetch when it
  has to wait.\<close>

definition joins :: "query_hash \<Rightarrow> phase \<Rightarrow> request_coalescer \<Rightarrow> request_coalescer \<Rightarrow> bool" where
  "joins h ph co co' \<longleftrightarrow>
     (case ph of
        Leading p \<Rightarrow> pd_hash p = h \<and> get_or_insert h co = (Leader, co')
      | Waiting p ch \<Rightarrow> pd_hash p = h \<and> get_or_insert h co = (Waiter ch, co')
      | _ \<Rightarrow> co' = co)"

lemma fetch_phase_joins:
  assumes "fetch_phase Q t p st = (ph, st')"
  shows "joins (pd_hash p) ph (ap_coalescer st) (ap_coalescer st')"
  using assms
  by (auto simp: fetch_phase_def joins_def Let_def split: if_splits bool.splits prod.splits option.splits
      coalesce_action.splits)

lemma serve_joins:
  assumes "serve_fresh Q t p e st = (ph, st') \<or> serve_stale Q t p e st = (ph, st')"
  shows "joins h ph (ap_coalescer st) (ap_coalescer st')"
  using assms by (auto simp: serve_fresh_def serve_stale_def joins_def Let_def)

lemma begin_joins:
  assumes "execute_query_begin Q start t rq cid rid agent src skip st = (ph, st')"
  shows "joins (hash_query (qe_env Q) (context_query cid (rq_query rq))) ph (ap_coalescer st) (ap_coalescer st')"
proof -
  let ?h = "hash_query (qe_env Q) (context_query cid (rq_query rq))"
  have f: "joins ?h ph (ap_coalescer st) (ap_coalescer st')"
    if "fetch_phase Q t p s = (ph, st')" "pd_hash p = ?h" "ap_coalescer s = ap_coalescer st" for p s
    using fetch_phase_joins [OF that(1)] that(2,3) by simp
  have v: "joins ?h ph (ap_coalescer st) (ap_coalescer st')"
    if "serve_fresh Q t p e s = (ph, st') \<or> serve_stale Q t p e s = (ph, st')"
      "ap_coalescer s = ap_coalescer st" for p e s
    using serve_joins [OF that(1), of ?h] that(2) by simp
  have fin: "joins ?h (Finished r) (ap_coalescer st) (ap_coalescer st)"
    "joins ?h Panicked (ap_coalescer st) (ap_coalescer st)" for r
    by (simp_all add: joins_def)
  show ?thesis
    using assms unfolding execute_query_begin_def Let_def
    by (auto split: if_splits option.splits prod.splits freshness.splits
        intro: f v fin elim!: Pair_inject)
qed

end
