(* ===== verification/QueryFlow.thy ===== *)
theory QueryFlow
  imports QueryCore
begin

text \<open>
  The proxy as a system of concurrent requests: the shared state, the requests that lead a fetch and
  those that wait for one. A step lets one segment of one request run; \<open>sys_other\<close> stands for all
  other activity, which changes anything but the coalescer (only the query core uses it). A request
  whose future is dropped while it awaits the upstream, because its client went away, is
  \<open>lost_leader\<close>: its remaining segment never runs.
\<close>

record 'p system =
  sy_app :: "'p app_state"
  sy_leaders :: "pending list"
  sy_waiters :: "(pending \<times> nat) list"

fun admit_phase :: "phase \<Rightarrow> 'p app_state \<Rightarrow> 'p system \<Rightarrow> 'p system" where
  "admit_phase (Leading p) st s = s\<lparr>sy_app := st, sy_leaders := p # sy_leaders s\<rparr>"
| "admit_phase (Waiting p ch) st s = s\<lparr>sy_app := st, sy_waiters := (p, ch) # sy_waiters s\<rparr>"
| "admit_phase _ st s = s\<lparr>sy_app := st\<rparr>"

inductive sys_step :: "'p query_env \<Rightarrow> 'p system \<Rightarrow> 'p system \<Rightarrow> bool" for Q where
  sys_arrive: "execute_query_begin Q start t rq cid rid agent src skip (sy_app s) = (ph, st) \<Longrightarrow>
     sys_step Q s (admit_phase ph st s)"
| sys_lead: "p \<in> set (sy_leaders s) \<Longrightarrow> leader_finish Q t p rr (sy_app s) = (Finished r, st) \<Longrightarrow>
     sys_step Q s (s\<lparr>sy_app := st, sy_leaders := remove1 p (sy_leaders s)\<rparr>)"
| sys_recv: "(p, ch) \<in> set (sy_waiters s) \<Longrightarrow> co_recv ch (ap_coalescer (sy_app s)) = Some msg \<Longrightarrow>
     waiter_finish Q t p msg (sy_app s) = (ph, st) \<Longrightarrow>
     sys_step Q s (s\<lparr>sy_app := st, sy_waiters := remove1 (p, ch) (sy_waiters s)\<rparr>)"
| sys_drop_waiter: "w \<in> set (sy_waiters s) \<Longrightarrow> sys_step Q s (s\<lparr>sy_waiters := remove1 w (sy_waiters s)\<rparr>)"
| sys_other: "ap_coalescer st = ap_coalescer (sy_app s) \<Longrightarrow> sys_step Q s (s\<lparr>sy_app := st\<rparr>)"

definition lost_leader :: "pending \<Rightarrow> 'p system \<Rightarrow> 'p system" where
  "lost_leader p s = s\<lparr>sy_leaders := remove1 p (sy_leaders s)\<rparr>"

inductive sys_step_lossy :: "'p query_env \<Rightarrow> 'p system \<Rightarrow> 'p system \<Rightarrow> bool" for Q where
  lossy_step: "sys_step Q s s' \<Longrightarrow> sys_step_lossy Q s s'"
| lossy_lost: "p \<in> set (sy_leaders s) \<Longrightarrow> sys_step_lossy Q s (lost_leader p s)"

definition sys_start :: "'p app_state \<Rightarrow> 'p system" where
  "sys_start st = \<lparr>sy_app = st\<lparr>ap_coalescer := coalescer_empty\<rparr>, sy_leaders = [], sy_waiters = []\<rparr>"

section \<open>Single flight\<close>

definition flight_ok :: "request_coalescer \<Rightarrow> pending list \<Rightarrow> (pending \<times> nat) list \<Rightarrow> bool" where
  "flight_ok co leaders waiters \<longleftrightarrow>
     channels_ok co \<and> distinct (map pd_hash leaders) \<and> dom (co_in_flight co) = pd_hash ` set leaders
     \<and> (\<forall>(p, ch) \<in> set waiters. co_in_flight co (pd_hash p) = Some ch \<or> co_sent co ch \<noteq> None)"

definition sys_ok :: "'p system \<Rightarrow> bool" where
  "sys_ok s \<longleftrightarrow> flight_ok (ap_coalescer (sy_app s)) (sy_leaders s) (sy_waiters s)"

text \<open>Finishing a fetch completes its hash.\<close>

lemma leader_finish_coalescer:
  assumes "leader_finish Q t p rr st = (Finished r, st')"
  shows "\<exists>res. ap_coalescer st' = co_complete (pd_hash p) res (ap_coalescer st)"
  using assms
  by (auto simp: leader_finish_def leader_success_def leader_failure_def Let_def
      split: if_splits option.splits prod.splits sum.splits)

lemma waiter_finish_coalescer:
  assumes "waiter_finish Q t p msg st = (ph, st')"
  shows "ap_coalescer st' = ap_coalescer st"
  using assms by (auto simp: waiter_finish_def Let_def split: received.splits sum.splits option.splits prod.splits)

lemma flight_ok_lead:
  assumes "flight_ok co ls ws" and "get_or_insert (pd_hash p) co = (Leader, co')"
  shows "flight_ok co' (p # ls) ws"
proof -
  note c = get_or_insert_cases(2) [OF assms(2)]
  have "channels_ok co'" using channels_ok_get_or_insert [of co "pd_hash p"] assms by (simp add: flight_ok_def)
  moreover have "pd_hash p \<notin> pd_hash ` set ls" using assms(1) c unfolding flight_ok_def by blast
  ultimately show ?thesis using assms(1) c unfolding flight_ok_def by (auto split: prod.splits)
qed

lemma flight_ok_wait:
  assumes "flight_ok co ls ws" and "get_or_insert (pd_hash p) co = (Waiter ch, co')"
  shows "flight_ok co' ls ((p, ch) # ws)"
  using get_or_insert_cases(1) [OF assms(2)] assms(1) by (simp add: flight_ok_def)

lemma flight_ok_complete:
  assumes "flight_ok co ls ws" and "p \<in> set ls"
  shows "flight_ok (co_complete (pd_hash p) r co) (remove1 p ls) ws"
proof -
  have "pd_hash p \<in> dom (co_in_flight co)" using assms by (auto simp: flight_ok_def)
  then obtain ch where ch: "co_in_flight co (pd_hash p) = Some ch" by blast
  have d: "distinct (map pd_hash ls)" using assms(1) by (simp add: flight_ok_def)
  then have "pd_hash ` set (remove1 p ls) = pd_hash ` set ls - {pd_hash p}"
    using assms(2) by (auto simp: distinct_map inj_on_def set_remove1_eq)
  moreover have "distinct (map pd_hash (remove1 p ls))"
    using d by (simp add: distinct_map inj_on_def set_remove1_eq)
  ultimately show ?thesis
    using assms(1) ch channels_ok_complete [of co "pd_hash p" r]
    by (auto simp: flight_ok_def co_complete_def)
qed

lemma flight_ok_waiters: "flight_ok co ls ws \<Longrightarrow> set ws' \<subseteq> set ws \<Longrightarrow> flight_ok co ls ws'"
  by (auto simp: flight_ok_def)

lemma sys_step_ok: "sys_step Q s s' \<Longrightarrow> sys_ok s \<Longrightarrow> sys_ok s'"
proof (induction rule: sys_step.induct)
  case (sys_arrive start t rq cid rid agent src skip s ph st)
  note j = begin_joins [OF sys_arrive.hyps]
  show ?case
  proof (cases ph)
    case (Leading p)
    then show ?thesis
      using j sys_arrive.prems flight_ok_lead [of _ _ _ p] by (auto simp: joins_def sys_ok_def)
  next
    case (Waiting p ch)
    then show ?thesis
      using j sys_arrive.prems flight_ok_wait [of _ _ _ p ch] by (auto simp: joins_def sys_ok_def)
  qed (use j sys_arrive.prems in \<open>auto simp: joins_def sys_ok_def\<close>)
next
  case (sys_lead p s t rr r st)
  obtain res where "ap_coalescer st = co_complete (pd_hash p) res (ap_coalescer (sy_app s))"
    using leader_finish_coalescer [OF sys_lead.hyps(2)] by blast
  then show ?case using flight_ok_complete sys_lead by (simp add: sys_ok_def)
next
  case (sys_recv p ch s msg t ph st)
  then show ?case
    using waiter_finish_coalescer [OF sys_recv.hyps(3)] flight_ok_waiters
    by (simp add: sys_ok_def set_remove1_subset)
next
  case (sys_drop_waiter w s)
  then show ?case using flight_ok_waiters by (simp add: sys_ok_def set_remove1_subset)
next
  case (sys_other st s)
  then show ?case by (simp add: sys_ok_def)
qed

lemma sys_start_ok: "sys_ok (sys_start st)"
  by (simp add: sys_ok_def sys_start_def flight_ok_def channels_ok_empty) (simp add: coalescer_empty_def)

lemma sys_steps_ok: "(sys_step Q)\<^sup>*\<^sup>* s s' \<Longrightarrow> sys_ok s \<Longrightarrow> sys_ok s'"
  by (induction rule: rtranclp_induct) (auto intro: sys_step_ok)

section \<open>Properties\<close>


text \<open>What a successful leader returns, broadcasts and caches.\<close>

definition leader_response :: "'p query_env \<Rightarrow> clock \<Rightarrow> pending \<Rightarrow> query_response \<Rightarrow> 'p app_state \<Rightarrow> query_response" where
  "leader_response Q t p response st =
     response\<lparr>qr_results := qe_apply_filter Q (scope_filter_for (pd_context_id p) st) (qr_results response),
              qr_cache_status := Miss, qr_miss_reason := Some (pd_miss_reason p)\<rparr>"

lemma policy_record_miss: "policy_for i (record_miss_for j mg) = policy_for i mg"
  by (cases "get_ctx j mg") (auto simp: policy_for_def record_miss_for_def)

lemma scope_filter_frame:
  "scope_filter_for cid ((on_contexts (record_miss_for c) (on_metrics f st))\<lparr>ap_circuit := cb\<rparr>) = scope_filter_for cid st"
  "scope_filter_for cid (on_metrics f st) = scope_filter_for cid st"
  "scope_filter_for cid (st\<lparr>ap_adaptive := ad\<rparr>) = scope_filter_for cid st"
  by (simp_all add: scope_filter_for_def on_contexts_def on_metrics_def policy_record_miss split: option.split)

lemma leader_finish_success:
  assumes "rr_result rr = Inr response" and "leader_finish Q t p rr st = (Finished x, st')"
  shows "\<exists>took. x = result_ok (SharedFresh ((leader_response Q t p response st)\<lparr>qr_took_ms := took\<rparr>) took)
    \<and> ap_coalescer st' = co_complete (pd_hash p)
         (Inr ((leader_response Q t p response st)\<lparr>qr_took_ms := took\<rparr>)) (ap_coalescer st)"
    and "response_validate (leader_response Q t p response st) = Inr () \<Longrightarrow>
      ap_cache st' = insert_by_hash (qe_env Q) t (pd_hash p) (leader_response Q t p response st)
        (ap_upstream_id st) (Some (pd_ctx_query p)) (ap_cache st)"
    and "response_validate (leader_response Q t p response st) \<noteq> Inr () \<Longrightarrow> ap_cache st' = ap_cache st"
proof -
  obtain ad where st2: "leader_success Q t p response
      (if rr_retried rr then on_metrics record_upstream_request (st\<lparr>ap_adaptive := ad\<rparr>) else st\<lparr>ap_adaptive := ad\<rparr>)
      = (Finished x, st')"
    using assms by (auto simp: leader_finish_def Let_def split: option.splits if_splits)
  have up: "ap_upstream_id (on_metrics f s) = ap_upstream_id s" "ap_upstream_id (on_contexts g s) = ap_upstream_id s"
    for f g and s :: "'a app_state" by (simp_all add: on_metrics_def on_contexts_def)
  show "\<exists>took. x = result_ok (SharedFresh ((leader_response Q t p response st)\<lparr>qr_took_ms := took\<rparr>) took)
    \<and> ap_coalescer st' = co_complete (pd_hash p)
         (Inr ((leader_response Q t p response st)\<lparr>qr_took_ms := took\<rparr>)) (ap_coalescer st)"
    "response_validate (leader_response Q t p response st) = Inr () \<Longrightarrow>
      ap_cache st' = insert_by_hash (qe_env Q) t (pd_hash p) (leader_response Q t p response st)
        (ap_upstream_id st) (Some (pd_ctx_query p)) (ap_cache st)"
    "response_validate (leader_response Q t p response st) \<noteq> Inr () \<Longrightarrow> ap_cache st' = ap_cache st"
    using st2
    by (auto simp: leader_success_def Let_def scope_filter_frame leader_response_def up split: if_splits)
qed

text \<open>Waiters share the leader's answer: when the leader's fetch succeeds, a request that waits on
  its channel, whenever it resumes, is answered with status 200 and the results, generation time and
  miss reason that the leader returned to its own client.\<close>

theorem waiter_gets_leader_response:
  assumes "co_in_flight (ap_coalescer st) (pd_hash l) = Some ch" and "rr_result rr = Inr response"
    and "leader_finish Q t l rr st = (Finished x, st')"
  shows "\<exists>resp took msg. x = result_ok (SharedFresh resp took)
    \<and> co_recv ch (ap_coalescer st') = Some msg
    \<and> (\<forall>t' w st''. \<exists>took'. fst (waiter_finish Q t' w msg st'') = Finished (result_ok (SharedFresh resp took')))"
proof -
  obtain took where x: "x = result_ok (SharedFresh ((leader_response Q t l response st)\<lparr>qr_took_ms := took\<rparr>) took)"
    and co: "ap_coalescer st' = co_complete (pd_hash l)
         (Inr ((leader_response Q t l response st)\<lparr>qr_took_ms := took\<rparr>)) (ap_coalescer st)"
    using leader_finish_success(1) [OF assms(2,3)] by blast
  let ?r = "(leader_response Q t l response st)\<lparr>qr_took_ms := took\<rparr>"
  have "co_recv ch (ap_coalescer st') = Some (Received (Inr ?r))"
    using complete_sends [OF assms(1)] by (simp add: co)
  moreover have "\<exists>took'. fst (waiter_finish Q t' w (Received (Inr ?r)) st'') = Finished (result_ok (SharedFresh ?r took'))"
    for t' w and st'' :: "'a app_state"
    by (rule exI) (simp add: waiter_finish_def Let_def)
  ultimately show ?thesis using x by blast
qed

text \<open>A request that finds a fresh entry under its hash is answered with it.\<close>

lemma fresh_entry_hits:
  assumes "map_of (cs_entries (ap_cache st)) h = Some e"
    and "fl_within 1 (cs_ttl_jitter_percent (ap_cache st))"
    and "cs_fresh_duration (ap_cache st) \<le> from_secs (2 ^ 50)"
    and "cs_stale_duration (ap_cache st) \<le> from_secs (2 ^ 50)"
    and "elapsed (ck_now t) (ce_cached_at e) < cs_fresh_duration (ap_cache st)"
    and "\<not> ap_paused st" and "request_validate rq = Inr ()"
    and "\<forall>a. agent = Some a \<longrightarrow> can_access_context cid a"
    and "hash_query (qe_env Q) (context_query cid (rq_query rq)) = h"
  shows "\<exists>took st'. execute_query_begin Q start t rq cid rid agent src False st =
      (Finished (result_ok (Cached (bump_freq e) Hit took)), st')
    \<and> ap_coalescer st' = ap_coalescer st \<and> ap_circuit st' = ap_circuit st"
proof -
  have fresh: "check_freshness_by_hash t h (ap_cache st) = Some (Some Fresh)"
    by (rule fresh_within_window [OF assms(1-5)])
  have get: "get_by_hash h (ap_cache st) = (Some (bump_freq e),
      (ap_cache st)\<lparr>cs_entries := AList.update h (bump_freq e) (cs_entries (ap_cache st))\<rparr>)"
    using assms(1) by (simp add: get_by_hash_def touch_def)
  have denied: "\<not> (case agent of Some a \<Rightarrow> \<not> can_access_context cid a | None \<Rightarrow> False)"
    using assms(8) by (auto split: option.splits)
  show ?thesis
    unfolding execute_query_begin_def Let_def if_not_P [OF denied] assms(9)
    using assms(6,7) fresh get
    by (simp add: serve_fresh_def from_cache_def Let_def record_query_def result_ok_def)
qed

text \<open>C4. From a miss to a hit: in a cache with room and without memory or per-upstream limits, after a
  fetch whose response is valid, a request for a query with the same key hash that arrives within the
  fresh window is answered from the cache, as a hit, with exactly the results that the fetch returned,
  without the upstream, the circuit breaker or the coalescer being involved.\<close>

theorem fetch_then_hit:
  assumes "cs_per_upstream_limit (ap_cache st) = None" and "cs_max_memory_bytes (ap_cache st) = 0"
    and "queue_len (ap_cache st) < queue_capacity (ap_cache st)"
    and "fl_within 1 (cs_ttl_jitter_percent (ap_cache st))"
    and "cs_fresh_duration (ap_cache st) \<le> from_secs (2 ^ 50)"
    and "cs_stale_duration (ap_cache st) \<le> from_secs (2 ^ 50)"
    and "rr_result rr = Inr response" and "leader_finish Q t p rr st = (Finished x, st')"
    and "response_validate (leader_response Q t p response st) = Inr ()"
    and "\<not> ap_paused st'" and "request_validate rq = Inr ()"
    and "\<forall>a. agent = Some a \<longrightarrow> can_access_context cid a"
    and "hash_query (qe_env Q) (context_query cid (rq_query rq)) = pd_hash p"
    and "elapsed (ck_now t') (ck_now t) < cs_fresh_duration (ap_cache st)"
  shows "\<exists>e took st''. execute_query_begin Q start t' rq cid rid agent src False st' =
      (Finished (result_ok (Cached e Hit took)), st'')
    \<and> qr_results (ce_response e) = qr_results (into_query_response (qx_response x))
    \<and> ap_coalescer st'' = ap_coalescer st' \<and> ap_circuit st'' = ap_circuit st'"
proof -
  let ?h = "pd_hash p" and ?resp = "leader_response Q t p response st"
  let ?e = "fresh_entry (qe_env Q) t ?resp (ap_upstream_id st) (Some (pd_ctx_query p)) (lit ''default'')"
  obtain took where x: "x = result_ok (SharedFresh (?resp\<lparr>qr_took_ms := took\<rparr>) took)"
    using leader_finish_success(1) [OF assms(7,8)] by blast
  have cache: "ap_cache st' = insert_by_hash (qe_env Q) t ?h ?resp (ap_upstream_id st)
      (Some (pd_ctx_query p)) (ap_cache st)"
    using leader_finish_success(2) [OF assms(7,8,9)] .
  note room = insert_by_hash_with_room [OF room_unlimited [OF assms(1-3)], of "qe_env Q" t ?h ?resp "ap_upstream_id st"
      "Some (pd_ctx_query p)", folded cache]
  have "view (ap_cache st') ?h = Some ?e" by (simp add: room(1))
  then obtain e where e: "map_of (cs_entries (ap_cache st')) ?h = Some e" "e\<lparr>ce_freq := 0\<rparr> = ?e"
    by (auto simp: view_def)
  have resp: "ce_response e = ?resp" "ce_cached_at e = ck_now t"
    using arg_cong [OF e(2), of ce_response] arg_cong [OF e(2), of ce_cached_at] by (simp_all add: fresh_entry_def)
  have "\<exists>took' st''. execute_query_begin Q start t' rq cid rid agent src False st' =
      (Finished (result_ok (Cached (bump_freq e) Hit took')), st'')
      \<and> ap_coalescer st'' = ap_coalescer st' \<and> ap_circuit st'' = ap_circuit st'"
    using fresh_entry_hits [OF e(1)] assms(4-6,10-14) by (simp add: room(2-4) resp(2))
  moreover have "ce_response (bump_freq e) = ?resp" by (simp add: bump_freq_def resp)
  ultimately show ?thesis by (auto simp: x result_ok_def)
qed

lemma leader_failure_frozen:
  assumes "map_of (cs_entries (ap_cache st)) (pd_hash p) = Some e"
  shows "\<exists>took st'. leader_failure Q t p err st = (Finished (result_ok (Cached (bump_freq e) FrozenHit took)), st')
    \<and> ap_circuit st' = circuit_record_failure (ck_now t) (ap_circuit st)
    \<and> ap_coalescer st' = co_complete (pd_hash p)
        (Inr \<lparr>qr_results = qr_results (ce_response e), qr_cache_status = FrozenHit, qr_took_ms = took,
              qr_generated_at = qr_generated_at (ce_response e),
              qr_miss_reason = qr_miss_reason (ce_response e)\<rparr>) (ap_coalescer st)"
  using assms
  by (simp add: leader_failure_def Let_def get_by_hash_def touch_def result_ok_def from_cache_def bump_freq_def
      complete_fetch_with_def)

lemma leader_failure_bare:
  assumes "map_of (cs_entries (ap_cache st)) (pd_hash p) = None"
  shows "\<exists>took st'. leader_failure Q t p err st =
      (Finished (result_with_status (FreshResponse (empty_miss_response took (Some UpstreamError))) 502), st')
    \<and> ap_circuit st' = circuit_record_failure (ck_now t) (ap_circuit st)
    \<and> ap_coalescer st' = co_complete (pd_hash p) (Inl (Http (upstream_error_display err))) (ap_coalescer st)"
  using assms
  by (simp add: leader_failure_def Let_def get_by_hash_def touch_def result_with_status_def empty_miss_response_def
      complete_fetch_with_def)

text \<open>C6. Upstream outage: when every attempt of a fetch failed, the leader answers with the cached entry
  of the query, whatever its age, as a frozen hit with status 200, and the requests that wait receive
  the same results; without an entry the leader answers 502 without results and the waiters receive the
  error. Either way the breaker counts the failure and the fetch is no longer in flight.\<close>

theorem outage_serves_cached:
  assumes "rr_result rr = Inl err" and "co_in_flight (ap_coalescer st) (pd_hash p) = Some ch"
  shows "\<exists>x st'. leader_finish Q t p rr st = (Finished x, st')
    \<and> ap_circuit st' = circuit_record_failure (ck_now t) (ap_circuit st)
    \<and> \<not> is_in_flight (pd_hash p) (ap_coalescer st')
    \<and> (case map_of (cs_entries (ap_cache st)) (pd_hash p) of
         Some e \<Rightarrow> qx_status x = 200 \<and> (\<exists>took. qx_response x = Cached (bump_freq e) FrozenHit took)
           \<and> (\<exists>r. co_recv ch (ap_coalescer st') = Some (Received (Inr r))
                \<and> qr_results r = qr_results (ce_response e) \<and> qr_cache_status r = FrozenHit)
       | None \<Rightarrow> qx_status x = 502 \<and> qr_results (into_query_response (qx_response x)) = []
           \<and> co_recv ch (ap_coalescer st') = Some (Received (Inl (Http (upstream_error_display err)))))"
proof -
  have run: "leader_finish Q t p rr st =
      leader_failure Q t p err (if rr_retried rr then on_metrics record_upstream_request st else st)"
    using assms(1) by (simp add: leader_finish_def rr_is_success_def)
  have gone: "\<not> is_in_flight (pd_hash p) (co_complete (pd_hash p) r (ap_coalescer st))" for r
    using assms(2) by (simp add: is_in_flight_def co_complete_def)
  let ?st = "if rr_retried rr then on_metrics record_upstream_request st else st"
  have same: "ap_cache ?st = ap_cache st" "ap_circuit ?st = ap_circuit st" "ap_coalescer ?st = ap_coalescer st"
    by simp_all
  show ?thesis
  proof (cases "map_of (cs_entries (ap_cache st)) (pd_hash p)")
    case None
    then show ?thesis
      using leader_failure_bare [of ?st p Q t err] complete_sends [OF assms(2)] gone
      by (auto simp: same run result_with_status_def empty_miss_response_def)
  next
    case (Some e)
    then obtain took st' where
      st': "leader_failure Q t p err ?st = (Finished (result_ok (Cached (bump_freq e) FrozenHit took)), st')"
      "ap_circuit st' = circuit_record_failure (ck_now t) (ap_circuit st)"
      "ap_coalescer st' = co_complete (pd_hash p)
        (Inr \<lparr>qr_results = qr_results (ce_response e), qr_cache_status = FrozenHit, qr_took_ms = took,
              qr_generated_at = qr_generated_at (ce_response e),
              qr_miss_reason = qr_miss_reason (ce_response e)\<rparr>) (ap_coalescer st)"
      using leader_failure_frozen [of ?st p e Q t err] unfolding same by blast
    then show ?thesis
      using Some complete_sends [OF assms(2)] gone by (simp add: run result_ok_def)
  qed
qed

text \<open>A refused request reveals nothing: for an agent without access to the context the answer is
  403 without results, and the cache, the coalescer, the circuit breaker and the statistics stay as they
  were. The context itself is nevertheless created and made current before the check, when it does not
  exist and contexts are created automatically.\<close>

theorem denied_request_isolated:
  assumes "\<not> ap_paused st" and "request_validate rq = Inr ()" and "\<not> can_access_context cid a"
  shows "\<exists>x st'. execute_query_begin Q start t rq cid rid (Some a) src skip st = (Finished x, st')
    \<and> qx_status x = 403 \<and> qr_results (into_query_response (qx_response x)) = []
    \<and> ap_cache st' = ap_cache st \<and> ap_coalescer st' = ap_coalescer st \<and> ap_circuit st' = ap_circuit st
    \<and> ap_metrics st' = ap_metrics st
    \<and> (get_metadata cid (ap_contexts st) = None \<longrightarrow> cc_auto_create (mg_config (ap_contexts st)) \<longrightarrow>
         mg_current (ap_contexts st') = cid)"
proof -
  have "mg_current (ap_contexts (ensure_context Q t cid st1)) = cid"
    if "get_metadata cid (ap_contexts st1) = None" "cc_auto_create (mg_config (ap_contexts st1))"
    for st1 :: "'a app_state"
    using that
    by (auto simp: ensure_context_def on_contexts_def context_switch_def Let_def)
  then show ?thesis
    using assms
    by (simp add: execute_query_begin_def Let_def result_with_status_def empty_miss_response_def)
       (simp add: on_tracker_def)
qed

definition answer_ok :: "query_result \<Rightarrow> bool" where
  "answer_ok x \<longleftrightarrow> qx_status x \<in> {200, 400, 403, 502, 503}
     \<and> (qx_status x \<noteq> 200 \<longrightarrow> qr_results (into_query_response (qx_response x)) = [])"

lemma answer_ok_simps [simp]:
  "answer_ok (result_ok r)"
  "s \<in> {400, 403, 502, 503} \<Longrightarrow> answer_ok (result_with_status (FreshResponse (empty_miss_response took m)) s)"
  by (auto simp: answer_ok_def result_ok_def result_with_status_def empty_miss_response_def)

lemma fetch_answer: "fetch_phase Q t p st = (Finished x, st') \<Longrightarrow> answer_ok x"
  by (auto simp: fetch_phase_def Let_def split: if_splits prod.splits bool.splits option.splits
      coalesce_action.splits)

lemma serve_answer:
  "serve_fresh Q t p e st = (Finished x, st') \<Longrightarrow> answer_ok x"
  "serve_stale Q t p e st = (Finished x, st') \<Longrightarrow> answer_ok x"
  by (auto simp: serve_fresh_def serve_stale_def Let_def)

lemma begin_answer:
  assumes "execute_query_begin Q start t rq cid rid agent src skip st = (Finished x, st')"
  shows "answer_ok x"
  using assms unfolding execute_query_begin_def Let_def
  by (auto split: if_splits option.splits prod.splits freshness.splits intro: fetch_answer serve_answer)

lemma leader_answer: "leader_finish Q t p rr st = (Finished x, st') \<Longrightarrow> answer_ok x"
  by (auto simp: leader_finish_def leader_success_def leader_failure_def Let_def
      split: if_splits option.splits prod.splits sum.splits)

lemma waiter_answer: "waiter_finish Q t p msg st = (Finished x, st') \<Longrightarrow> answer_ok x"
  by (auto simp: waiter_finish_def Let_def split: received.splits option.splits prod.splits sum.splits)

text \<open>C23. Error answers carry no results: whatever path a request takes, its status is one of 200, 400,
  403, 502 and 503, and an answer whose status is not 200 has no results.\<close>

theorem error_answers_empty:
  assumes "execute_query_begin Q start t rq cid rid agent src skip st = (Finished x, st')
    \<or> leader_finish Q t p rr st = (Finished x, st') \<or> waiter_finish Q t p msg st = (Finished x, st')"
  shows "qx_status x \<in> {200, 400, 403, 502, 503}
    \<and> (qx_status x \<noteq> 200 \<longrightarrow> qr_results (into_query_response (qx_response x)) = [])"
proof -
  have "answer_ok x" using assms by (auto intro: begin_answer leader_answer waiter_answer)
  then show ?thesis by (simp add: answer_ok_def)
qed

section \<open>A leader that is dropped\<close>

definition stranded :: "query_hash \<Rightarrow> nat \<Rightarrow> 'p system \<Rightarrow> bool" where
  "stranded h ch s \<longleftrightarrow>
     channels_ok (ap_coalescer (sy_app s)) \<and> co_in_flight (ap_coalescer (sy_app s)) h = Some ch
     \<and> h \<notin> pd_hash ` set (sy_leaders s)"

lemma complete_other:
  assumes "channels_ok co" and "co_in_flight co h = Some ch" and "h' \<noteq> h"
  shows "co_in_flight (co_complete h' r co) h = Some ch"
  using assms by (auto simp: co_complete_def split: option.splits)

lemma stranded_step: "sys_step Q s s' \<Longrightarrow> stranded h ch s \<Longrightarrow> stranded h ch s'"
proof (induction rule: sys_step.induct)
  case (sys_arrive start t rq cid rid agent src skip s ph st)
  note j = begin_joins [OF sys_arrive.hyps]
  let ?g = "hash_query (qe_env Q) (context_query cid (rq_query rq))"
  have ok: "channels_ok (snd (get_or_insert ?g (ap_coalescer (sy_app s))))"
    using sys_arrive.prems by (simp add: stranded_def channels_ok_get_or_insert)
  show ?case
  proof (cases ph)
    case (Leading p)
    then show ?thesis
      using j ok sys_arrive.prems get_or_insert_cases(2) [of ?g] by (auto simp: joins_def stranded_def)
  next
    case (Waiting p c)
    then show ?thesis
      using j sys_arrive.prems by (auto simp: joins_def stranded_def dest!: get_or_insert_cases(1))
  qed (use j sys_arrive.prems in \<open>auto simp: joins_def stranded_def\<close>)
next
  case (sys_lead p s t rr r st)
  obtain res where co: "ap_coalescer st = co_complete (pd_hash p) res (ap_coalescer (sy_app s))"
    using leader_finish_coalescer [OF sys_lead.hyps(2)] by blast
  have "pd_hash p \<noteq> h" using sys_lead.prems sys_lead.hyps(1) by (auto simp: stranded_def)
  moreover have "h \<notin> pd_hash ` set (remove1 p (sy_leaders s))"
    using sys_lead.prems notin_set_remove1 by (fastforce simp: stranded_def)
  ultimately show ?case
    using co sys_lead.prems complete_other channels_ok_complete by (simp add: stranded_def)
next
  case (sys_recv p ch' s msg t ph st)
  then show ?case using waiter_finish_coalescer [OF sys_recv.hyps(3)] by (simp add: stranded_def)
qed (simp_all add: stranded_def)

lemma stranded_lossy: "sys_step_lossy Q s s' \<Longrightarrow> stranded h ch s \<Longrightarrow> stranded h ch s'"
proof (induction rule: sys_step_lossy.induct)
  case (lossy_lost p s)
  then show ?case using notin_set_remove1 by (fastforce simp: stranded_def lost_leader_def)
qed (rule stranded_step)

lemma stranded_forever: "(sys_step_lossy Q)\<^sup>*\<^sup>* s s' \<Longrightarrow> stranded h ch s \<Longrightarrow> stranded h ch s'"
  by (induction rule: rtranclp_induct) (auto intro: stranded_lossy)

text \<open>What single flight does not survive: when the future of a leader is dropped while it awaits
  the upstream, its hash stays in flight for the rest of the process, whatever happens next: no request
  ever leads a fetch for that hash again, and a request that waits for it never receives anything, so
  every request for that query that the cache cannot answer hangs.\<close>

theorem lost_leader_strands:
  assumes "(sys_step Q)\<^sup>*\<^sup>* (sys_start st0) s" and "p \<in> set (sy_leaders s)"
  shows "\<exists>ch. \<forall>s'. (sys_step_lossy Q)\<^sup>*\<^sup>* (lost_leader p s) s' \<longrightarrow>
     get_or_insert (pd_hash p) (ap_coalescer (sy_app s')) = (Waiter ch, ap_coalescer (sy_app s'))
     \<and> co_recv ch (ap_coalescer (sy_app s')) = None \<and> pd_hash p \<notin> pd_hash ` set (sy_leaders s')"
proof -
  have ok: "flight_ok (ap_coalescer (sy_app s)) (sy_leaders s) (sy_waiters s)"
    using sys_steps_ok [OF assms(1) sys_start_ok] by (simp add: sys_ok_def)
  then obtain ch where ch: "co_in_flight (ap_coalescer (sy_app s)) (pd_hash p) = Some ch"
    using assms(2) unfolding flight_ok_def by blast
  have "pd_hash p \<notin> pd_hash ` set (remove1 p (sy_leaders s))"
    using ok assms(2) by (auto simp: flight_ok_def distinct_map inj_on_def set_remove1_eq)
  then have "stranded (pd_hash p) ch (lost_leader p s)"
    using ok ch by (simp add: stranded_def lost_leader_def flight_ok_def)
  then have st: "stranded (pd_hash p) ch s'" if "(sys_step_lossy Q)\<^sup>*\<^sup>* (lost_leader p s) s'" for s'
    using stranded_forever that by blast
  have "get_or_insert (pd_hash p) (ap_coalescer (sy_app s')) = (Waiter ch, ap_coalescer (sy_app s'))
     \<and> co_recv ch (ap_coalescer (sy_app s')) = None \<and> pd_hash p \<notin> pd_hash ` set (sy_leaders s')"
    if "(sys_step_lossy Q)\<^sup>*\<^sup>* (lost_leader p s) s'" for s'
  proof -
    have "co_sent (ap_coalescer (sy_app s')) ch = None"
      using st [OF that] unfolding stranded_def channels_ok_def by blast
    then show ?thesis
      using st [OF that] by (auto simp: stranded_def get_or_insert_def co_recv_def ran_def)
  qed
  then show ?thesis by blast
qed


section \<open>A run\<close>

text \<open>The witnesses: two requests for the same query reach an empty proxy.\<close>

definition demo_env :: "unit query_env" where
  "demo_env = \<lparr>qe_env = trivial_env, qe_ctx_order = (\<lambda>xs. xs), qe_stats_order = (\<lambda>xs. xs),
     qe_key_hash = (\<lambda>s. s), qe_apply_filter = (\<lambda>_ rs. rs)\<rparr>"

definition demo_app :: "unit app_state" where
  "demo_app = \<lparr>ap_paused = False, ap_tracker = client_tracker_new, ap_metrics = metrics_new,
     ap_contexts = manager_new 0 0 context_config_default, ap_cache = cache_with 10 20 100 0 (Fin 0),
     ap_stats = tracker_new 10, ap_circuit = circuit_new 0 circuit_config_default,
     ap_coalescer = coalescer_empty, ap_adaptive = adaptive_new adaptive_config_default,
     ap_tracked_queries = None, ap_upstream_id = lit ''u'', ap_scope_filter = (),
     ap_has_cascade = False, ap_has_pool = False, ap_has_upstream = True, ap_spawned = []\<rparr>"

definition demo_request :: query_request where
  "demo_request = \<lparr>rq_query = lit ''a'', rq_top_k = None, rq_priority = None, rq_upstream_id = None,
     rq_upstream_type = None\<rparr>"

definition demo_clock :: clock where
  "demo_clock = \<lparr>ck_now = 0, ck_wall = 0\<rparr>"

definition demo_pending :: pending where
  "demo_pending = \<lparr>pd_request = demo_request, pd_context_id = lit ''default'', pd_request_id = lit ''r'',
     pd_hash = hash_query trivial_env (context_query (lit ''default'') (lit ''a'')),
     pd_ctx_query = context_query (lit ''default'') (lit ''a''), pd_start = 0, pd_miss_reason = NotInCache\<rparr>"

definition demo_begin :: "unit app_state \<Rightarrow> phase \<times> unit app_state" where
  "demo_begin st = execute_query_begin demo_env 0 demo_clock demo_request (lit ''default'') (lit ''r'') None
     (lit ''http'') False st"

lemma demo_valid: "request_validate demo_request = Inr ()"
  by (simp add: request_validate_def demo_request_def lit_def trim_eq_Nil is_whitespace_def utf8_len_def
      str_len_def max_query_length_def)

definition demo_ready :: "unit app_state \<Rightarrow> bool" where
  "demo_ready st \<longleftrightarrow> \<not> ap_paused st \<and> ap_has_upstream st
     \<and> map_of (cs_entries (ap_cache st)) (pd_hash demo_pending) = None
     \<and> circuit_allow_request 0 (ap_circuit st) = (True, ap_circuit st)
     \<and> get_metadata (lit ''default'') (ap_contexts st) \<noteq> None"

lemma demo_app_ready: "demo_ready (demo_app\<lparr>ap_coalescer := co\<rparr>)"
  by (simp add: demo_ready_def demo_app_def cache_with_def circuit_allow_request_def Let_def
      circuit_from_u8_def circuit_maybe_transition_def circuit_new_def get_metadata_def manager_new_def get_ctx_def
      context_config_default_def)

lemma demo_begin_phase:
  assumes "demo_ready st" and "get_or_insert (pd_hash demo_pending) (ap_coalescer st) = (act, co)"
  shows "\<exists>st'. demo_begin st =
      ((case act of Leader \<Rightarrow> Leading demo_pending | Waiter ch \<Rightarrow> Waiting demo_pending ch), st')
    \<and> ap_coalescer st' = co \<and> demo_ready st'"
proof -
  let ?st = "on_tracker (client_track (ck_wall demo_clock) (lit ''r'') (lit ''a'') (lit ''http'')) st"
  have "ensure_context demo_env demo_clock (lit ''default'') ?st = ?st"
    using assms(1) by (auto simp: demo_ready_def ensure_context_def on_tracker_def)
  moreover have "demo_begin st = fetch_phase demo_env demo_clock demo_pending
      (ensure_context demo_env demo_clock (lit ''default'') ?st)"
    using assms(1) demo_valid [unfolded demo_request_def]
    by (simp add: Let_def demo_begin_def execute_query_begin_def demo_ready_def check_freshness_by_hash_def
        demo_pending_def demo_request_def demo_env_def)
  ultimately have "demo_begin st = fetch_phase demo_env demo_clock demo_pending ?st" by simp
  then show ?thesis
    using assms
    by (auto simp: fetch_phase_def has_upstream_def demo_ready_def demo_clock_def on_tracker_def on_metrics_def
        split: coalesce_action.splits)
qed


text \<open>The first request leads, the second waits.\<close>

definition demo_flight :: request_coalescer where
  "demo_flight = snd (get_or_insert (pd_hash demo_pending) coalescer_empty)"

lemma demo_flight_in_flight: "co_in_flight demo_flight (pd_hash demo_pending) = Some 0"
  by (simp add: demo_flight_def get_or_insert_def coalescer_empty_def)

lemma demo_run:
  "\<exists>st. (sys_step demo_env)\<^sup>*\<^sup>* (sys_start demo_app)
      \<lparr>sy_app = st, sy_leaders = [demo_pending], sy_waiters = [(demo_pending, 0)]\<rparr>"
proof -
  let ?h = "pd_hash demo_pending"
  have first: "get_or_insert ?h (ap_coalescer (demo_app\<lparr>ap_coalescer := coalescer_empty\<rparr>)) = (Leader, demo_flight)"
    by (simp add: demo_flight_def get_or_insert_def coalescer_empty_def)
  have second: "get_or_insert ?h demo_flight = (Waiter 0, demo_flight)"
    by (simp add: get_or_insert_def demo_flight_in_flight)
  obtain st1 where st1: "demo_begin (demo_app\<lparr>ap_coalescer := coalescer_empty\<rparr>) = (Leading demo_pending, st1)"
    "ap_coalescer st1 = demo_flight" "demo_ready st1"
    using demo_begin_phase [OF demo_app_ready first] by auto
  obtain st2 where st2: "demo_begin st1 = (Waiting demo_pending 0, st2)"
    using demo_begin_phase [OF st1(3)] second st1(2) by fastforce
  let ?s1 = "\<lparr>sy_app = st1, sy_leaders = [demo_pending], sy_waiters = []\<rparr>"
  have "sys_step demo_env (sys_start demo_app) ?s1"
    using sys_arrive [of demo_env 0 demo_clock demo_request "lit ''default''" "lit ''r''" None "lit ''http''" False
        "sys_start demo_app"] st1(1)
    by (simp add: demo_begin_def sys_start_def)
  moreover have "sys_step demo_env ?s1
      \<lparr>sy_app = st2, sy_leaders = [demo_pending], sy_waiters = [(demo_pending, 0)]\<rparr>"
    using sys_arrive [of demo_env 0 demo_clock demo_request "lit ''default''" "lit ''r''" None "lit ''http''" False ?s1] st2
    by (simp add: demo_begin_def)
  ultimately show ?thesis by (meson rtranclp.rtrancl_refl rtranclp.rtrancl_into_rtrancl)
qed

lemma demo_window: "window_ok (ap_adaptive demo_app)"
  "as_micros_u64 (ac_min_timeout (at_config (ap_adaptive demo_app)))
     \<le> as_micros_u64 (ac_max_timeout (at_config (ap_adaptive demo_app)))"
  by (simp_all add: demo_app_def window_ok_def adaptive_new_def adaptive_config_default_def as_micros_u64_def
      from_millis_def from_secs_def nanos_per_milli_def nanos_per_sec_def)

definition demo_answer :: "(query_response, upstream_error) retry_result" where
  "demo_answer = \<lparr>rr_result = Inr (response_of []), rr_attempts = 1, rr_total_duration = 3\<rparr>"

lemma demo_finish:
  "\<exists>x st'. leader_finish demo_env demo_clock demo_pending demo_answer (demo_app\<lparr>ap_coalescer := co\<rparr>) = (Finished x, st')
     \<and> \<not> ap_paused st'"
proof -
  obtain a where "adaptive_record 3 (ap_adaptive demo_app) = Some a" using record_returns [OF demo_window(2,1)] by blast
  then show ?thesis
    by (auto simp: leader_finish_def demo_answer_def rr_is_success_def rr_retried_def leader_success_def Let_def
        on_metrics_def on_tracker_def on_contexts_def record_query_def register_query_def complete_fetch_with_def
        demo_app_def)
qed



theorem waiter_gets_leader_response_witness:
  "\<exists>x st' msg resp took took'.
     leader_finish demo_env demo_clock demo_pending demo_answer (demo_app\<lparr>ap_coalescer := demo_flight\<rparr>) = (Finished x, st')
     \<and> x = result_ok (SharedFresh resp took) \<and> co_recv 0 (ap_coalescer st') = Some msg
     \<and> fst (waiter_finish demo_env demo_clock demo_pending msg st') = Finished (result_ok (SharedFresh resp took'))"
proof -
  obtain x st' where f: "leader_finish demo_env demo_clock demo_pending demo_answer
      (demo_app\<lparr>ap_coalescer := demo_flight\<rparr>) = (Finished x, st')"
    using demo_finish by blast
  have "co_in_flight (ap_coalescer (demo_app\<lparr>ap_coalescer := demo_flight\<rparr>)) (pd_hash demo_pending) = Some 0"
    by (simp add: demo_flight_in_flight)
  from waiter_gets_leader_response [OF this _ f] show ?thesis using f by (simp add: demo_answer_def) blast
qed

theorem fetch_then_hit_witness:
  "\<exists>x st' e took st''. leader_finish demo_env demo_clock demo_pending demo_answer demo_app = (Finished x, st')
     \<and> demo_begin st' = (Finished (result_ok (Cached e Hit took)), st'')
     \<and> qr_results (ce_response e) = qr_results (into_query_response (qx_response x))"
proof -
  have same: "demo_app\<lparr>ap_coalescer := ap_coalescer demo_app\<rparr> = demo_app" by (cases demo_app) simp
  obtain x st' where f: "leader_finish demo_env demo_clock demo_pending demo_answer demo_app = (Finished x, st')"
      "\<not> ap_paused st'"
    using demo_finish [of "ap_coalescer demo_app"] unfolding same by blast
  have cs: "ap_cache demo_app = cache_with 10 20 100 0 (Fin 0)" by (simp add: demo_app_def)
  have room: "cs_per_upstream_limit (ap_cache demo_app) = None" "cs_max_memory_bytes (ap_cache demo_app) = 0"
    "queue_len (ap_cache demo_app) < queue_capacity (ap_cache demo_app)"
    "fl_within 1 (cs_ttl_jitter_percent (ap_cache demo_app))"
    "cs_fresh_duration (ap_cache demo_app) \<le> from_secs (2 ^ 50)"
    "cs_stale_duration (ap_cache demo_app) \<le> from_secs (2 ^ 50)"
    "elapsed (ck_now demo_clock) (ck_now demo_clock) < cs_fresh_duration (ap_cache demo_app)"
    unfolding cs
    by (simp_all add: cache_with_def queue_len_def queue_capacity_def s3fifo_new_def fl_within_def from_secs_def
        nanos_per_sec_def demo_clock_def elapsed_def Let_def)
  have valid: "response_validate (leader_response demo_env demo_clock demo_pending (response_of []) demo_app) = Inr ()"
    by (simp add: leader_response_def response_of_def demo_env_def response_validate_def max_results_def
        max_response_size_def)
  have "hash_query (qe_env demo_env) (context_query (lit ''default'') (rq_query demo_request)) = pd_hash demo_pending"
    by (simp add: demo_env_def demo_pending_def demo_request_def)
  from fetch_then_hit [OF room(1-6) _ f(1) valid f(2) demo_valid _ this room(7), of None]
  show ?thesis using f(1) by (simp add: demo_begin_def demo_answer_def) blast
qed

definition demo_outage :: "(query_response, upstream_error) retry_result" where
  "demo_outage = \<lparr>rr_result = Inl UpTimeout, rr_attempts = 1, rr_total_duration = 3\<rparr>"

theorem outage_serves_cached_witness:
  "\<exists>x st'. leader_finish demo_env demo_clock demo_pending demo_outage (demo_app\<lparr>ap_coalescer := demo_flight\<rparr>)
     = (Finished x, st') \<and> qx_status x = 502 \<and> \<not> is_in_flight (pd_hash demo_pending) (ap_coalescer st')"
proof -
  let ?st = "demo_app\<lparr>ap_coalescer := demo_flight\<rparr>"
  have "co_in_flight (ap_coalescer ?st) (pd_hash demo_pending) = Some 0" by (simp add: demo_flight_in_flight)
  moreover have "map_of (cs_entries (ap_cache ?st)) (pd_hash demo_pending) = None"
    using demo_app_ready by (simp add: demo_ready_def)
  ultimately show ?thesis
    using outage_serves_cached [of demo_outage UpTimeout ?st demo_pending 0 demo_env demo_clock]
    by (auto simp: demo_outage_def)
qed

definition demo_agent :: agent_identity where
  "demo_agent = \<lparr>ai_id = lit ''x'', ai_default_context = None, ai_allowed_contexts = [lit ''default''],
     ai_priority_class = 0\<rparr>"

theorem denied_request_isolated_witness:
  "\<exists>x st'. execute_query_begin demo_env 0 demo_clock demo_request (lit ''other'') (lit ''r'') (Some demo_agent)
      (lit ''http'') False demo_app = (Finished x, st') \<and> qx_status x = 403
     \<and> mg_current (ap_contexts st') = lit ''other''"
proof -
  have same: "demo_app\<lparr>ap_coalescer := ap_coalescer demo_app\<rparr> = demo_app" by (cases demo_app) simp
  have "\<not> ap_paused demo_app" using demo_app_ready [of "ap_coalescer demo_app"] by (simp add: same demo_ready_def)
  moreover have "\<not> can_access_context (lit ''other'') demo_agent" by (simp add: can_access_context_def demo_agent_def lit_def)
  moreover have "get_metadata (lit ''other'') (ap_contexts demo_app) = None" "cc_auto_create (mg_config (ap_contexts demo_app))"
    by (simp_all add: demo_app_def manager_new_def get_metadata_def get_ctx_def context_config_default_def lit_def)
  ultimately show ?thesis
    using denied_request_isolated [of demo_app demo_request "lit ''other''" demo_agent demo_env 0 demo_clock
        "lit ''r''" "lit ''http''" False] demo_valid
    by auto
qed

theorem error_answers_empty_witness:
  "\<exists>x st'. leader_finish demo_env demo_clock demo_pending demo_answer (demo_app\<lparr>ap_coalescer := demo_flight\<rparr>)
     = (Finished x, st') \<and> qx_status x \<in> {200, 400, 403, 502, 503}"
proof -
  obtain x st' where f: "leader_finish demo_env demo_clock demo_pending demo_answer
      (demo_app\<lparr>ap_coalescer := demo_flight\<rparr>) = (Finished x, st')"
    using demo_finish by blast
  then show ?thesis using error_answers_empty [OF disjI2 [OF disjI1 [OF f]]] by blast
qed

theorem lost_leader_strands_witness:
  "\<exists>s. (sys_step demo_env)\<^sup>*\<^sup>* (sys_start demo_app) s \<and> sy_leaders (lost_leader demo_pending s) = []
     \<and> (\<exists>ch. co_recv ch (ap_coalescer (sy_app (lost_leader demo_pending s))) = None)"
proof -
  obtain st where run: "(sys_step demo_env)\<^sup>*\<^sup>* (sys_start demo_app)
      \<lparr>sy_app = st, sy_leaders = [demo_pending], sy_waiters = [(demo_pending, 0)]\<rparr>" (is "rtranclp _ _ ?s")
    using demo_run by blast
  have "\<exists>ch. \<forall>s'. (sys_step_lossy demo_env)\<^sup>*\<^sup>* (lost_leader demo_pending ?s) s' \<longrightarrow>
     get_or_insert (pd_hash demo_pending) (ap_coalescer (sy_app s')) = (Waiter ch, ap_coalescer (sy_app s'))
     \<and> co_recv ch (ap_coalescer (sy_app s')) = None \<and> pd_hash demo_pending \<notin> pd_hash ` set (sy_leaders s')"
    by (rule lost_leader_strands [OF run]) simp
  then have "\<exists>ch. co_recv ch (ap_coalescer (sy_app (lost_leader demo_pending ?s))) = None" by blast
  then show ?thesis using run by (intro exI [of _ ?s]) (simp add: lost_leader_def)
qed

end
