(* ===== verification/CascadeOrder.thy ===== *)
theory CascadeOrder
  imports QueryCore
begin

text \<open>
  What the sequential cascade (\<open>src/src/proxy/cascade.rs\<close>, no fusion) does to the upstreams of its pool:
  the order of the attempts, the bound on their number, what the answer contains, and how the result is
  read by the dispatch of a query.
\<close>

section \<open>Groups\<close>

lemma group_by_priority_nonempty: "g \<in> set (group_by_priority po us) \<Longrightarrow> g \<noteq> []"
  by (auto simp: group_by_priority_def filter_empty_conv)

lemma filter_sort_key: "filter (\<lambda>x. f x = k) (sort_key f xs) = filter (\<lambda>x. f x = k) xs"
  by (rule sort_key_stable)

lemma concat_filters:
  assumes "sorted ks" and "distinct ks" and "sorted (map f xs)" and "f ` set xs \<subseteq> set ks"
  shows "concat (map (\<lambda>k. filter (\<lambda>x. f x = k) xs) ks) = xs"
  using assms
proof (induction ks arbitrary: xs)
  case (Cons k ks)
  let ?eq = "filter (\<lambda>x. f x = k) xs" and ?ne = "filter (\<lambda>x. f x \<noteq> k) xs"
  have lo: "k \<le> f x" if "x \<in> set xs" for x using that Cons.prems by auto
  have split: "xs = ?eq @ ?ne"
    using lo Cons.prems(3)
  proof (induction xs)
    case (Cons x xs)
    show ?case
    proof (cases "f x = k")
      case True
      with Cons show ?thesis by simp
    next
      case False
      with Cons.prems have "\<forall>y \<in> set xs. f y \<noteq> k" by fastforce
      with False show ?thesis by (simp add: filter_empty_conv)
    qed
  qed simp
  have "concat (map (\<lambda>j. filter (\<lambda>x. f x = j) ?ne) ks) = ?ne"
    using Cons.prems by (intro Cons.IH) (auto simp: sorted_filter)
  moreover have "filter (\<lambda>x. f x = j) ?ne = filter (\<lambda>x. f x = j) xs" if "j \<in> set ks" for j
    using that Cons.prems(2) by (auto simp: intro!: filter_cong)
  ultimately have "concat (map (\<lambda>j. filter (\<lambda>x. f x = j) xs) ks) = ?ne"
    by (metis (no_types, lifting) map_eq_conv)
  then show ?case using split by simp
qed simp

lemma concat_group_by_priority:
  "concat (group_by_priority po us) = sort_key (priority_of po) us"
proof -
  have "group_by_priority po us = map (\<lambda>p. filter (\<lambda>i. priority_of po i = p) (sort_key (priority_of po) us))
      (sort (remdups (map (priority_of po) us)))"
    by (simp add: group_by_priority_def filter_sort_key)
  then show ?thesis by (simp add: concat_filters)
qed

section \<open>The loop\<close>

lemma sequential_append:
  "sequential_group V c rq start (us @ vs) st =
     (case sequential_group V c rq start us st of
        (Some r, st1) \<Rightarrow> (Some r, st1)
      | (None, st1) \<Rightarrow> sequential_group V c rq start vs st1)"
  by (induction us arbitrary: st) (auto split: prod.splits option.splits)

lemma sequential_guarded:
  fixes V :: "'w cascade_env" and rq :: query_request
  shows "us \<noteq> [] \<Longrightarrow> (case cascade_guard V c start st of
        (Some r, st1) \<Rightarrow> (Some r, st1)
      | (None, st1) \<Rightarrow> sequential_group V c rq start us st1) = sequential_group V c rq start us st"
  by (cases us) (auto simp: cascade_guard_def split: prod.splits option.splits if_splits)

text \<open>Without fusion the groups are tried as one list: the check at the head of a group repeats that of
  its first member.\<close>

lemma try_groups_concat:
  assumes "cf_fusion_method c = FusionNone" and "\<forall>g \<in> set gs. g \<noteq> []"
  shows "try_groups V c rq start gs st = sequential_group V c rq start (concat gs) st"
  using assms(2)
proof (induction gs arbitrary: st)
  case (Cons g gs)
  have "try_groups V c rq start (g # gs) st =
      (case sequential_group V c rq start g st of (Some r, st1) \<Rightarrow> (Some r, st1)
       | (None, st1) \<Rightarrow> try_groups V c rq start gs st1)"
    using sequential_guarded [where us = g and rq = rq and V = V and c = c and start = start and st = st] Cons.prems assms(1)
    by (auto split: prod.splits option.splits)
  then show ?case using Cons by (simp add: sequential_append split: prod.splits option.splits)
qed simp

text \<open>What the upstreams of a list answer when they are asked in turn, and how the cascade rates an answer: the normalised score
  and the results, tagged with the upstream; an error has no rating.\<close>

fun answers_from ::
  "'w adapters \<Rightarrow> query_request \<Rightarrow> nat list \<Rightarrow> 'w \<Rightarrow> (upstream_error + query_response) list \<times> 'w" where
  "answers_from A rq [] w = ([], w)"
| "answers_from A rq (i # is) w =
     (let (a, w1) = query_pooled A i rq w; (as, w2) = answers_from A rq is w1 in (a # as, w2))"

definition rated :: "upstream_pool \<Rightarrow> nat \<Rightarrow> upstream_error + query_response \<Rightarrow> (fl \<times> search_result list) option" where
  "rated po i a =
     (case a of
        Inl _ \<Rightarrow> None
      | Inr resp \<Rightarrow>
          (let u = po_upstreams po ! i; rs = tag_results (pu_id u) (qr_results resp)
           in Some (normalize_score (max_score_or_zero rs) (upstream_type_of u), rs)))"

definition ratings ::
  "'w adapters \<Rightarrow> query_request \<Rightarrow> upstream_pool \<Rightarrow> 'w \<Rightarrow> nat list \<Rightarrow> (fl \<times> search_result list) option list" where
  "ratings A rq po w ns = map2 (rated po) ns (fst (answers_from A rq ns w))"

definition accepted :: "cascade_config \<Rightarrow> (fl \<times> search_result list) option \<Rightarrow> bool" where
  "accepted c x = (case x of Some (score, rs) \<Rightarrow> meets_threshold c score rs | None \<Rightarrow> False)"

lemma answers_snoc:
  "answers_from A rq (ns @ [i]) w =
     (let (as, w1) = answers_from A rq ns w; (a, w2) = query_pooled A i rq w1 in (as @ [a], w2))"
  by (induction ns arbitrary: w) (simp_all split: prod.splits)

lemma answers_length: "length (fst (answers_from A rq ns w)) = length ns"
  by (induction ns arbitrary: w) (simp_all split: prod.splits, metis fst_conv)

lemma ratings_length: "length (ratings A rq po w ns) = length ns"
  by (simp add: ratings_def answers_length)

lemma ratings_snoc:
  "ratings A rq po w (ns @ [i]) =
     ratings A rq po w ns @ [rated po i (fst (query_pooled A i rq (snd (answers_from A rq ns w))))]"
  using answers_length [of A rq ns w] by (auto simp: ratings_def answers_snoc zip_append split: prod.splits)

text \<open>The candidate kept as the fallback answer is one of the answers and none has a higher score; there is one unless every
  upstream failed.\<close>

definition best_of ::
  "upstream_pool \<Rightarrow> nat list \<Rightarrow> (fl \<times> search_result list) option list \<Rightarrow> (rstr \<times> search_result list \<times> fl) option \<Rightarrow> bool" where
  "best_of po ns xs best \<longleftrightarrow>
     (case best of
        None \<Rightarrow> \<forall>x \<in> set xs. x = None
      | Some (uid, rs, score) \<Rightarrow>
          (\<exists>k < length ns. xs ! k = Some (score, rs) \<and> uid = pu_id (po_upstreams po ! (ns ! k)))
          \<and> (\<forall>y rs'. Some (y, rs') \<in> set xs \<longrightarrow> \<not> fl_less score y))"

lemma best_of_error:
  assumes "best_of po ns xs best" and "length xs = length ns"
  shows "best_of po (ns @ [i]) (xs @ [None]) best"
proof (cases best)
  case (Some b)
  obtain uid rs score where b: "best = Some (uid, rs, score)" using Some by (cases b) simp
  then obtain k where "k < length ns" "xs ! k = Some (score, rs)" "uid = pu_id (po_upstreams po ! (ns ! k))"
    using assms(1) by (auto simp: best_of_def)
  then have "\<exists>k < length (ns @ [i]). (xs @ [None]) ! k = Some (score, rs) \<and> uid = pu_id (po_upstreams po ! ((ns @ [i]) ! k))"
    using assms(2) by (intro exI [of _ k]) (simp add: nth_append)
  then show ?thesis using assms(1) by (simp add: best_of_def b)
qed (use assms in \<open>simp add: best_of_def\<close>)

lemma best_of_kept:
  assumes "best_of po ns xs best" and "length xs = length ns" and "\<not> better_than y best"
  shows "best_of po (ns @ [i]) (xs @ [Some (y, rs)]) best"
proof (cases best)
  case (Some b)
  obtain uid rs' score where b: "best = Some (uid, rs', score)" using Some by (cases b) simp
  then obtain k where "k < length ns" "xs ! k = Some (score, rs')" "uid = pu_id (po_upstreams po ! (ns ! k))"
    using assms(1) by (auto simp: best_of_def)
  then have "\<exists>k < length (ns @ [i]). (xs @ [Some (y, rs)]) ! k = Some (score, rs') \<and> uid = pu_id (po_upstreams po ! ((ns @ [i]) ! k))"
    using assms(2) by (intro exI [of _ k]) (simp add: nth_append)
  then show ?thesis using assms(1,3) by (auto simp: best_of_def b better_than_def)
qed (use assms in \<open>simp add: better_than_def\<close>)

lemma best_of_better:
  assumes "best_of po ns xs best" and "length xs = length ns" and "better_than y best"
  shows "best_of po (ns @ [i]) (xs @ [Some (y, rs)]) (Some (pu_id (po_upstreams po ! i), rs, y))"
proof -
  have "\<not> fl_less y z" if "Some (z, rs') \<in> set xs" for z rs'
    using that assms(1,3)
    by (cases best) (auto simp: best_of_def better_than_def split: prod.splits dest: fl_less_trans)
  moreover have "\<not> fl_less y y" by (cases y) simp_all
  moreover have "\<exists>k < length (ns @ [i]). (xs @ [Some (y, rs)]) ! k = Some (y, rs) \<and> pu_id (po_upstreams po ! i) = pu_id (po_upstreams po ! ((ns @ [i]) ! k))"
    using assms(2) by (intro exI [of _ "length ns"]) (simp add: nth_append)
  ultimately show ?thesis by (auto simp: best_of_def)
qed

text \<open>The identity and the type of the upstreams, which no attempt changes.\<close>

definition same_shape :: "upstream_pool \<Rightarrow> upstream_pool \<Rightarrow> bool" where
  "same_shape po po' \<longleftrightarrow>
     map (\<lambda>u. (pu_id u, upstream_type_of u)) (po_upstreams po') = map (\<lambda>u. (pu_id u, upstream_type_of u)) (po_upstreams po)"

lemma same_shape_nth:
  assumes "same_shape po po'" and "i < length (po_upstreams po)"
  shows "pu_id (po_upstreams po' ! i) = pu_id (po_upstreams po ! i)"
    and "upstream_type_of (po_upstreams po' ! i) = upstream_type_of (po_upstreams po ! i)"
proof -
  have "length (po_upstreams po') = length (po_upstreams po)" using assms(1) unfolding same_shape_def by (metis length_map)
  then show "pu_id (po_upstreams po' ! i) = pu_id (po_upstreams po ! i)"
    "upstream_type_of (po_upstreams po' ! i) = upstream_type_of (po_upstreams po ! i)"
    using arg_cong [OF assms(1) [unfolded same_shape_def], of "\<lambda>xs. xs ! i"] assms(2) by simp_all
qed

lemma same_shape_on_upstream:
  assumes "same_shape po po'" and "\<And>u. pu_id (f u) = pu_id u" and "\<And>u. upstream_type_of (f u) = upstream_type_of u"
  shows "same_shape po (on_upstream i f po')"
proof -
  let ?g = "\<lambda>u. (pu_id u, upstream_type_of u)"
  have "map ?g ((po_upstreams po')[i := f (po_upstreams po' ! i)]) = map ?g (po_upstreams po')"
    using assms(2,3) by (cases "i < length (po_upstreams po')")
      (simp_all add: map_update list_update_same_conv list_update_beyond)
  then show ?thesis using assms(1) by (simp add: same_shape_def on_upstream_def)
qed

text \<open>The state after the upstreams \<open>ns\<close> have been tried without success, starting in the world \<open>w\<close>.\<close>

definition tried_state ::
  "'w cascade_env \<Rightarrow> cascade_config \<Rightarrow> query_request \<Rightarrow> upstream_pool \<Rightarrow> 'w \<Rightarrow> nat list \<Rightarrow> 'w cascade_run \<Rightarrow> bool" where
  "tried_state V c rq po w ns st \<longleftrightarrow>
     same_shape po (ca_pool st) \<and> ca_depth st = length ns
     \<and> ca_tried st = map (\<lambda>i. pu_id (po_upstreams po ! i)) ns
     \<and> map us_upstream_id (ca_scores st) = ca_tried st
     \<and> ca_world st = snd (answers_from (cv_adapters V) rq ns w)
     \<and> (\<forall>x \<in> set (ratings (cv_adapters V) rq po w ns). \<not> accepted c x)
     \<and> best_of po ns (ratings (cv_adapters V) rq po w ns) (ca_best st)"

text \<open>The fallback answer: no answer was good enough, and the result is the best of them, or nothing when every upstream
  failed.\<close>

definition fallback_answer ::
  "cascade_config \<Rightarrow> upstream_pool \<Rightarrow> nat list \<Rightarrow> (fl \<times> search_result list) option list \<Rightarrow> cascade_result \<Rightarrow> bool" where
  "fallback_answer c po ns xs r \<longleftrightarrow>
     (\<forall>x \<in> set xs. \<not> accepted c x)
     \<and> (\<exists>best. best_of po ns xs best \<and> cr_final_upstream r = map_option fst best
          \<and> cr_results r = (case best of Some (_, rs, _) \<Rightarrow> rs | None \<Rightarrow> []))"

text \<open>The answer that ends the cascade: the last one asked for, good enough as none before it, and it is what is returned.\<close>

definition threshold_answer ::
  "cascade_config \<Rightarrow> upstream_pool \<Rightarrow> nat list \<Rightarrow> (fl \<times> search_result list) option list \<Rightarrow> cascade_result \<Rightarrow> bool" where
  "threshold_answer c po ns xs r \<longleftrightarrow>
     ns \<noteq> [] \<and> accepted c (last xs) \<and> (\<forall>x \<in> set (butlast xs). \<not> accepted c x)
     \<and> cr_final_upstream r = Some (pu_id (po_upstreams po ! last ns))
     \<and> (\<exists>score. last xs = Some (score, cr_results r))"

definition stopped ::
  "'w cascade_env \<Rightarrow> cascade_config \<Rightarrow> query_request \<Rightarrow> upstream_pool \<Rightarrow> 'w \<Rightarrow> nat list \<Rightarrow> cascade_result \<Rightarrow> bool" where
  "stopped V c rq po w ns r \<longleftrightarrow>
     cr_upstreams_tried r = map (\<lambda>i. pu_id (po_upstreams po ! i)) ns
     \<and> map us_upstream_id (cr_upstream_scores r) = cr_upstreams_tried r
     \<and> cr_cascade_depth r = length ns \<and> length ns \<le> cf_max_cascade_depth c
     \<and> (cr_stop_reason r = ThresholdMet \<and> threshold_answer c po ns (ratings (cv_adapters V) rq po w ns) r
        \<or> cr_stop_reason r = MaxDepthReached \<and> length ns = cf_max_cascade_depth c
            \<and> fallback_answer c po ns (ratings (cv_adapters V) rq po w ns) r
        \<or> cr_stop_reason r = CascadeTimeout \<and> fallback_answer c po ns (ratings (cv_adapters V) rq po w ns) r)"

lemma best_result_fallback:
  "tried_state V c rq po w ns st \<Longrightarrow>
     fallback_answer c po ns (ratings (cv_adapters V) rq po w ns) (best_result V start reason d st)"
  by (auto simp: fallback_answer_def best_result_def tried_state_def)

lemma guard_outcome:
  assumes "tried_state V c rq po w ns st" and "length ns \<le> cf_max_cascade_depth c"
  shows "cascade_guard V c start st = (None, st) \<and> length ns < cf_max_cascade_depth c
    \<or> (\<exists>r st'. cascade_guard V c start st = (Some r, st') \<and> stopped V c rq po w ns r)"
proof -
  have "stopped V c rq po w ns (best_result V start reason (ca_depth st) st)"
    if "reason = CascadeTimeout \<or> reason = MaxDepthReached \<and> length ns = cf_max_cascade_depth c" for reason
    using that assms best_result_fallback [OF assms(1), of start reason "ca_depth st"]
    by (auto simp: stopped_def best_result_def tried_state_def)
  then show ?thesis using assms by (auto simp: cascade_guard_def tried_state_def)
qed

lemma try_upstream_outcome:
  assumes st: "tried_state V c rq po w ns st" and len: "length ns < cf_max_cascade_depth c"
    and i: "i < length (po_upstreams po)"
  shows "case try_upstream V c rq start i st of
      (None, st') \<Rightarrow> tried_state V c rq po w (ns @ [i]) st' | (Some r, _) \<Rightarrow> stopped V c rq po w (ns @ [i]) r"
proof -
  have sid: "same_shape po (ca_pool st)" using st by (simp add: tried_state_def)
  note shape = same_shape_nth [OF sid i]
  have ids: "same_shape po (on_upstream i (upstream_record_success t) (ca_pool st))"
    "same_shape po (on_upstream i (upstream_record_failure t) (ca_pool st))" for t
    by (rule same_shape_on_upstream [OF sid];
        simp add: upstream_record_success_def upstream_record_failure_def upstream_type_of_def)+
  let ?xs = "ratings (cv_adapters V) rq po w ns"
  obtain answer w' where q: "query_pooled (cv_adapters V) i rq (ca_world st) = (answer, w')" by fastforce
  have world: "ca_world st = snd (answers_from (cv_adapters V) rq ns w)" using st by (simp add: tried_state_def)
  have xs: "ratings (cv_adapters V) rq po w (ns @ [i]) = ?xs @ [rated po i answer]"
    "snd (answers_from (cv_adapters V) rq (ns @ [i]) w) = w'"
    using q world by (auto simp: ratings_snoc answers_snoc split: prod.splits)
  have best: "best_of po ns ?xs (ca_best st)" "length ?xs = length ns" "\<forall>x \<in> set ?xs. \<not> accepted c x"
    using st by (simp_all add: tried_state_def ratings_length)
  show ?thesis
  proof (cases answer)
    case (Inl e)
    then show ?thesis using st q ids shape xs best_of_error [OF best(1,2)]
      by (auto simp: try_upstream_def tried_state_def Let_def rated_def accepted_def)
  next
    case (Inr resp)
    let ?rs = "tag_results (pu_id (po_upstreams po ! i)) (qr_results resp)"
    let ?score = "normalize_score (max_score_or_zero ?rs) (upstream_type_of (po_upstreams po ! i))"
    have r: "rated po i answer = Some (?score, ?rs)" by (simp add: rated_def Inr Let_def)
    show ?thesis
    proof (cases "meets_threshold c ?score ?rs")
      case True
      then show ?thesis using st q ids shape len Inr xs r best(3)
        by (simp add: try_upstream_def tried_state_def stopped_def threshold_answer_def accepted_def Let_def)
    next
      case False
      then show ?thesis using st q ids shape Inr xs r best(3) best_of_better [OF best(1,2)] best_of_kept [OF best(1,2)]
        by (auto simp: try_upstream_def tried_state_def Let_def accepted_def)
    qed
  qed
qed

lemma sequential_outcome:
  assumes "tried_state V c rq po w ns st" and "length ns \<le> cf_max_cascade_depth c"
    and "\<forall>i \<in> set us. i < length (po_upstreams po)"
  shows "case sequential_group V c rq start us st of
      (None, st') \<Rightarrow> tried_state V c rq po w (ns @ us) st' \<and> length (ns @ us) \<le> cf_max_cascade_depth c
    | (Some r, _) \<Rightarrow> \<exists>k \<le> length us. stopped V c rq po w (ns @ take k us) r"
  using assms
proof (induction us arbitrary: ns st)
  case (Cons i us)
  from guard_outcome [OF Cons.prems(1,2), of start] show ?case
  proof (elim disjE exE conjE)
    fix r st' assume "cascade_guard V c start st = (Some r, st')" "stopped V c rq po w ns r"
    then show ?thesis by (auto intro!: exI [of _ 0])
  next
    assume g: "cascade_guard V c start st = (None, st)" "length ns < cf_max_cascade_depth c"
    have i: "i < length (po_upstreams po)" using Cons.prems by simp
    note t = try_upstream_outcome [OF Cons.prems(1) g(2) i, of start]
    show ?thesis
    proof (cases "try_upstream V c rq start i st")
      case (Pair o' st')
      show ?thesis
      proof (cases o')
        case None
        with t Pair have "tried_state V c rq po w (ns @ [i]) st'" by simp
        from Cons.IH [OF this] g(2) Cons.prems(3)
        show ?thesis using g Pair None
          by (auto split: prod.splits option.splits intro: exI [of _ "Suc _"])
      next
        case (Some r)
        with t Pair g show ?thesis by (auto intro!: exI [of _ 1])
      qed
    qed
  qed
qed simp

lemma cascade_order_members:
  "i \<in> set (cascade_order_with_preference E pref po) \<Longrightarrow> i < length (po_upstreams po)"
  by (auto simp: cascade_order_with_preference_def cascade_order_def pool_candidates_def pool_available_def
      split: option.splits if_splits)

lemma cascade_order_empty:
  "cascade_order_with_preference E pref po = [] \<longleftrightarrow> po_upstreams po = []"
proof -
  have s: "sort_key f xs = [] \<longleftrightarrow> xs = []" for f :: "nat \<Rightarrow> 'b :: linorder" and xs
    by (metis length_0_conv length_sort)
  show ?thesis
    by (auto simp: cascade_order_with_preference_def cascade_order_def pool_candidates_def pool_available_def s
        split: option.split)
qed

lemma groups_run:
  assumes "cf_fusion_method c = FusionNone"
  shows "try_groups V c rq start (group_by_priority po us) st
    = sequential_group V c rq start (sort_key (priority_of po) us) st"
  by (subst try_groups_concat [OF assms])
    (auto simp: concat_group_by_priority dest: group_by_priority_nonempty)



section \<open>An outage deeper than the cascade\<close>

lemma failing_sequence:
  assumes "\<And>i w. \<exists>e. fst (query_pooled (cv_adapters V) i rq w) = Inl e"
    and "\<And>w. elapsed (ad_instant (cv_adapters V) w) start \<le> cascade_timeout c"
    and "cf_max_cascade_depth c < ca_depth st + length us" and "ca_best st = None"
    and "ca_depth st \<le> cf_max_cascade_depth c"
  shows "\<exists>r st'. sequential_group V c rq start us st = (Some r, st')
    \<and> cr_stop_reason r = MaxDepthReached \<and> cr_results r = []"
  using assms(3-5)
proof (induction us arbitrary: st)
  case (Cons i us)
  have quick: "\<not> cascade_timeout c < cascade_elapsed V start st"
    using assms(2) by (simp add: cascade_elapsed_def not_less)
  obtain e w where q: "query_pooled (cv_adapters V) i rq (ca_world st) = (Inl e, w)"
    using assms(1) [of i "ca_world st"] by (metis prod.collapse)
  obtain st1 where t: "try_upstream V c rq start i st = (None, st1)" "ca_depth st1 = Suc (ca_depth st)"
    "ca_best st1 = None"
    using q Cons.prems(2) by (simp add: try_upstream_def Let_def)
  show ?case using Cons.IH [of st1] t Cons.prems quick
    by (cases "cf_max_cascade_depth c \<le> ca_depth st") (auto simp: cascade_guard_def best_result_def)
qed simp

text \<open>A full outage that is wider than the cascade is deep is not reported as one: when every upstream
  fails and there are more candidates than \<open>max_cascade_depth\<close>, the cascade stops with
  \<open>MaxDepthReached\<close>, and the dispatch answers successfully with no results. With no more candidates
  than that depth, the same outage is an error.\<close>

theorem deep_outage_hidden:
  assumes "cf_enabled c" and "cf_fusion_method c = FusionNone" and "rq_upstream_id rq = None"
    and fails: "\<And>i w. \<exists>e. fst (query_pooled (cv_adapters V) i rq w) = Inl e"
    and quick: "\<And>w. elapsed (ad_instant (cv_adapters V) w) (ad_instant (cv_adapters V) wi) \<le> cascade_timeout c"
    and more: "cf_max_cascade_depth c < length (pool_candidates po)"
    and io: "io_permit io" "io_cascade io = Some (fst (cascade_query V c rq (cascade_start wi po m)))"
  shows "\<exists>resp. dispatch_upstream_query io = Inr resp \<and> qr_results resp = []"
proof -
  let ?start = "ad_instant (cv_adapters V) wi" and ?st = "cascade_start wi po m"
  let ?us = "cascade_order_with_preference (cv_env V) (rq_upstream_type rq) po"
  let ?order = "sort_key (priority_of po) ?us"
  have len: "length ?us = length (pool_candidates po)"
    by (simp add: cascade_order_with_preference_def cascade_order_def split: option.split)
  then have ne: "?us \<noteq> []" using more by auto
  have run: "try_groups V c rq ?start (group_by_priority po ?us) ?st = sequential_group V c rq ?start ?order ?st"
    by (rule groups_run [OF assms(2)])
  obtain r st' where r: "sequential_group V c rq ?start ?order ?st = (Some r, st')"
    "cr_stop_reason r = MaxDepthReached" "cr_results r = []"
    using failing_sequence [OF fails quick, of ?st ?order] more len by (auto simp: cascade_start_def)
  have "fst (cascade_query V c rq ?st) = r"
    using assms(1,3) run r(1) ne by (simp add: cascade_query_def cascade_groups_def cascade_start_def Let_def)
  then show ?thesis using io r by (simp add: dispatch_upstream_query_def cascade_failed_def)
qed


section \<open>Examples\<close>

definition demo_cascade_env :: "nat list cascade_env" where
  "demo_cascade_env = \<lparr>cv_env = trivial_env, cv_hm_order = (\<lambda>xs. xs), cv_join_order = (\<lambda>_ g. g),
     cv_adapters = failing_adapters\<rparr>"

definition shallow_config :: cascade_config where
  "shallow_config = cascade_config_default\<lparr>cf_max_cascade_depth := 1\<rparr>"

text \<open>The first upstream times out, the second answers with a result of score one.\<close>

definition demo_answer :: query_response where
  "demo_answer = response_of [\<lparr>sr_id = lit ''1'', sr_score = 0x3F800000, sr_content = lit ''x'', sr_metadata = None, sr_upstream_id = None\<rparr>]"

definition second_adapters :: "nat list adapters" where
  "second_adapters = failing_adapters\<lparr>ad_query := (\<lambda>i rq w. (if i = 1 then Inr demo_answer else Inl UpTimeout, w @ [i]))\<rparr>"

definition half_config :: cascade_config where
  "half_config = cascade_config_default\<lparr>cf_min_score_threshold := Fin (1 / 2)\<rparr>"

lemma score_one: "normalize_score 0x3F800000 TypeUnknown = Fin 1"
proof -
  have "f32_decode 0x3F800000 = Fin 1" by (simp add: f32_decode_def f32_exponent_def f32_mantissa_def pow2_def Let_def)
  moreover have "fl_clamp01 (fl_div (fl_sub (Fin 1) (Fin 0)) (fl_sub (Fin 1) (Fin 0))) = Fin 1" by code_simp
  moreover have "\<not> fl_le (Fin 1) (Fin 0)" by code_simp
  ultimately show ?thesis by (simp add: normalize_score_def score_range_def)
qed

lemma demo_order: "sort_key (priority_of demo_pool) (cascade_order_with_preference trivial_env None demo_pool) = [0, 1]"
proof -
  have p: "priority_of demo_pool 0 = 0" "priority_of demo_pool (Suc 0) = 0"
    by (simp_all add: priority_of_def demo_pool_def pool_of_def demo_upstream_def)
  show ?thesis by (simp add: cascade_order_with_preference_def cascade_order_def demo_pool_candidates p)
qed

lemma demo_cascade_stop:
  "cr_stop_reason (fst (cascade_query (demo_cascade_env\<lparr>cv_adapters := second_adapters\<rparr>) half_config pool_request
      (cascade_start [] demo_pool None))) = ThresholdMet"
proof -
  let ?V = "demo_cascade_env\<lparr>cv_adapters := second_adapters\<rparr>" and ?st = "cascade_start [] demo_pool None"
  have env: "cv_env demo_cascade_env = trivial_env" by (simp add: demo_cascade_env_def)
  have half: "fl_le (Fin (1 / 2)) (Fin 1)" by code_simp
  have c: "cf_enabled half_config" "cf_fusion_method half_config = FusionNone" "cf_max_cascade_depth half_config = 3"
    "cf_min_score_threshold half_config = Fin (1 / 2)" "cf_min_results half_config = 1"
    by (simp_all add: half_config_def cascade_config_default_def)
  have t: "upstream_type_of (po_upstreams demo_pool ! Suc 0) = TypeUnknown"
    by (simp add: demo_pool_def pool_of_def demo_upstream_def upstream_type_of_def upstream_type_from_u8_def)
  have A: "query_pooled second_adapters 0 pool_request [] = (Inl UpTimeout, [0])"
    "query_pooled second_adapters (Suc 0) pool_request [0] = (Inr demo_answer, [0, 1])" "ad_instant second_adapters w = 0" for w
    by (simp_all add: query_pooled_def second_adapters_def failing_adapters_def)
  have quick: "\<not> cascade_timeout half_config < cascade_elapsed ?V 0 st" for st
    by (simp add: cascade_elapsed_def A elapsed_def)
  have u: "po_upstreams (on_upstream 0 f demo_pool) ! Suc 0 = po_upstreams demo_pool ! 1" for f by (simp add: on_upstream_def)
  have "\<exists>r st'. sequential_group ?V half_config pool_request 0 [0, 1] ?st = (Some r, st') \<and> cr_stop_reason r = ThresholdMet"
    using half score_one
    by (simp add: cascade_guard_def c quick cascade_start_def try_upstream_def A u t meets_threshold_def
        demo_answer_def response_of_def tag_results_def max_score_or_zero_def Let_def)
  then obtain r st' where "sequential_group ?V half_config pool_request 0 [0, 1] ?st = (Some r, st')" "cr_stop_reason r = ThresholdMet" by blast
  moreover have "po_upstreams demo_pool \<noteq> []" by (simp add: demo_pool_def pool_of_def)
  ultimately show ?thesis
    using groups_run [OF c(2), of ?V pool_request 0 demo_pool "cascade_order_with_preference trivial_env None demo_pool" ?st]
    by (simp add: cascade_query_def cascade_groups_def c A demo_order pool_request_def cascade_order_empty env
        cascade_start_def Let_def)
qed


theorem deep_outage_hidden_witness:
  "\<exists>resp. dispatch_upstream_query
      \<lparr>io_permit = True, io_cascade = Some (fst (cascade_query demo_cascade_env shallow_config pool_request
         (cascade_start [] demo_pool None))), io_pool = None, io_upstream = None\<rparr> = Inr resp
    \<and> qr_results resp = []"
proof (rule deep_outage_hidden [where c = shallow_config and rq = pool_request and V = demo_cascade_env
      and wi = "[]" and po = demo_pool and m = None])
  show "\<exists>e. fst (query_pooled (cv_adapters demo_cascade_env) i pool_request w) = Inl e" for i w
    by (simp add: query_pooled_def demo_cascade_env_def failing_adapters_def)
  show "cf_max_cascade_depth shallow_config < length (pool_candidates demo_pool)"
    by (simp add: demo_pool_candidates shallow_config_def)
qed (simp_all add: shallow_config_def cascade_config_default_def pool_request_def demo_cascade_env_def
    failing_adapters_def elapsed_def)

end
