(* ===== verification/ConfigSections.thy ===== *)
theory ConfigSections
  imports Cascade Circuit Agents ConnPool RateLimit Retry
begin

text \<open>
  The sections of the configuration (\<open>src/src/config/mod.rs\<close>): what a file says of each part of the proxy,
  every setting optional, how a local section is laid over a global one (\<open>merge_with\<close>), the values
  in force when nothing is set, and the validation of each section. The interface of a section that can
  be laid over another is the locale \<open>overlay\<close>, interpreted on every section. Parameters: Unicode case
  conversion, the printing of a float, and the environment variables.
\<close>

section \<open>Layers\<close>

fun or_else :: "'a option \<Rightarrow> 'a option \<Rightarrow> 'a option" where
  "or_else None b = b"
| "or_else (Some x) b = Some x"

definition list_or :: "'a list \<Rightarrow> 'a list \<Rightarrow> 'a list" where
  "list_or xs ys = (if xs = [] then ys else xs)"

definition unwrap_or :: "'a option \<Rightarrow> 'a \<Rightarrow> 'a" where
  "unwrap_or x d = (case x of Some v \<Rightarrow> v | None \<Rightarrow> d)"

lemma or_else_simps [simp]: "or_else (or_else a b) c = or_else a (or_else b c)" "or_else a None = a"
  by (cases a; simp)+

lemma list_or_simps [simp]: "list_or (list_or xs ys) zs = list_or xs (list_or ys zs)" "list_or xs [] = xs"
  "list_or [] ys = ys"
  by (simp_all add: list_or_def)

lemma or_else_Some: "or_else a b = Some v \<longleftrightarrow> a = Some v \<or> (a = None \<and> b = Some v)"
  by (cases a) auto

locale overlay =
  fixes over :: "'c \<Rightarrow> 'c \<Rightarrow> 'c" and none :: 'c
  assumes over_assoc [simp]: "over (over a b) c = over a (over b c)"
    and none_over [simp]: "over none b = b"
    and over_none [simp]: "over a none = a"
begin

text \<open>Layers can be merged in any grouping.\<close>

lemma layers_append: "foldr over (ls @ ms) none = over (foldr over ls none) (foldr over ms none)"
  by (induction ls) simp_all

lemma foldl_layers: "foldl over none ls = foldr over ls none"
proof (induction ls rule: rev_induct)
  case (snoc l ls)
  then show ?case using layers_append [of ls "[l]"] by simp
qed simp

end

text \<open>A setting of such a section: the first layer that has it decides.\<close>

locale overlay_setting = overlay over none
  for over :: "'c \<Rightarrow> 'c \<Rightarrow> 'c" and none :: 'c +
  fixes get :: "'c \<Rightarrow> 'v option"
  assumes get_over: "get (over a b) = or_else (get a) (get b)"
    and get_none: "get none = None"
begin

lemma first_layer_decides:
  "get (foldr over ls none) = Some v \<longleftrightarrow>
     (\<exists>ms l ns. ls = ms @ l # ns \<and> get l = Some v \<and> (\<forall>m \<in> set ms. get m = None))"
proof (induction ls)
  case (Cons l ls)
  show ?case
  proof (cases "get l")
    case None
    have "(\<exists>ms k ns. l # ls = ms @ k # ns \<and> get k = Some v \<and> (\<forall>m \<in> set ms. get m = None)) \<longleftrightarrow>
        (\<exists>ms k ns. ls = ms @ k # ns \<and> get k = Some v \<and> (\<forall>m \<in> set ms. get m = None))" (is "?l \<longleftrightarrow> ?r")
    proof
      assume ?l
      then obtain ms k ns where m: "l # ls = ms @ k # ns" "get k = Some v" "\<forall>m \<in> set ms. get m = None" by blast
      with None show ?r by (cases ms) auto
    next
      assume ?r
      then obtain ms k ns where "ls = ms @ k # ns" "get k = Some v" "\<forall>m \<in> set ms. get m = None" by blast
      with None show ?l by (intro exI [of _ "l # ms"]) auto
    qed
    with Cons None show ?thesis by (simp add: get_over)
  next
    case (Some w)
    have "(\<exists>ms k ns. l # ls = ms @ k # ns \<and> get k = Some v \<and> (\<forall>m \<in> set ms. get m = None)) \<longleftrightarrow> w = v"
      (is "?l \<longleftrightarrow> _")
    proof
      assume ?l
      then obtain ms k ns where m: "l # ls = ms @ k # ns" "get k = Some v" "\<forall>m \<in> set ms. get m = None" by blast
      with Some show "w = v" by (cases ms) auto
    next
      assume "w = v"
      with Some show ?l by (intro exI [of _ "[]"]) auto
    qed
    with Some show ?thesis by (simp add: get_over)
  qed
qed (simp add: get_none)

end

section \<open>Sections\<close>

record weighted_phrase =
  wp_text :: rstr
  wp_weight :: fl
  wp_min_similarity :: "fl option"

definition weighted_phrase_new :: "rstr \<Rightarrow> weighted_phrase" where
  "weighted_phrase_new t = \<lparr>wp_text = t, wp_weight = Fin 1, wp_min_similarity = None\<rparr>"

record federated_config =
  fd_enabled :: "bool option"
  fd_min_local_results :: "nat option"
  fd_min_local_confidence :: "fl option"
  fd_fallback_on_empty :: "bool option"
  fd_fallback_on_low_confidence :: "bool option"
  fd_merge_mode :: "rstr option"
  fd_max_merged_results :: "nat option"

definition federated_none :: federated_config where
  "federated_none =
     \<lparr>fd_enabled = None, fd_min_local_results = None, fd_min_local_confidence = None,
      fd_fallback_on_empty = None, fd_fallback_on_low_confidence = None, fd_merge_mode = None,
      fd_max_merged_results = None\<rparr>"

definition federated_over :: "federated_config \<Rightarrow> federated_config \<Rightarrow> federated_config" where
  "federated_over a b =
     \<lparr>fd_enabled = or_else (fd_enabled a) (fd_enabled b),
      fd_min_local_results = or_else (fd_min_local_results a) (fd_min_local_results b),
      fd_min_local_confidence = or_else (fd_min_local_confidence a) (fd_min_local_confidence b),
      fd_fallback_on_empty = or_else (fd_fallback_on_empty a) (fd_fallback_on_empty b),
      fd_fallback_on_low_confidence = or_else (fd_fallback_on_low_confidence a) (fd_fallback_on_low_confidence b),
      fd_merge_mode = or_else (fd_merge_mode a) (fd_merge_mode b),
      fd_max_merged_results = or_else (fd_max_merged_results a) (fd_max_merged_results b)\<rparr>"

interpretation federated_layers: overlay federated_over federated_none
  by unfold_locales (simp_all add: federated_over_def federated_none_def)

record search_config =
  sc_use_hybrid :: "bool option"
  sc_default_limit :: "nat option"
  sc_auto_index_on_install :: "bool option"
  sc_federated :: federated_config

definition search_none :: search_config where
  "search_none =
     \<lparr>sc_use_hybrid = None, sc_default_limit = None, sc_auto_index_on_install = None,
      sc_federated = federated_none\<rparr>"

definition search_over :: "search_config \<Rightarrow> search_config \<Rightarrow> search_config" where
  "search_over a b =
     \<lparr>sc_use_hybrid = or_else (sc_use_hybrid a) (sc_use_hybrid b),
      sc_default_limit = or_else (sc_default_limit a) (sc_default_limit b),
      sc_auto_index_on_install = or_else (sc_auto_index_on_install a) (sc_auto_index_on_install b),
      sc_federated = federated_over (sc_federated a) (sc_federated b)\<rparr>"

interpretation search_layers: overlay search_over search_none
  by unfold_locales (simp_all add: search_over_def search_none_def)

record embedding_config =
  eb_model_path :: "rstr option"
  eb_tokenizer_path :: "rstr option"
  eb_batch_size :: "nat option"
  eb_provider :: "rstr option"
  eb_api_key :: "rstr option"
  eb_base_url :: "rstr option"

definition embedding_none :: embedding_config where
  "embedding_none =
     \<lparr>eb_model_path = None, eb_tokenizer_path = None, eb_batch_size = None, eb_provider = None,
      eb_api_key = None, eb_base_url = None\<rparr>"

definition embedding_over :: "embedding_config \<Rightarrow> embedding_config \<Rightarrow> embedding_config" where
  "embedding_over a b =
     \<lparr>eb_model_path = or_else (eb_model_path a) (eb_model_path b),
      eb_tokenizer_path = or_else (eb_tokenizer_path a) (eb_tokenizer_path b),
      eb_batch_size = or_else (eb_batch_size a) (eb_batch_size b),
      eb_provider = or_else (eb_provider a) (eb_provider b),
      eb_api_key = or_else (eb_api_key a) (eb_api_key b),
      eb_base_url = or_else (eb_base_url a) (eb_base_url b)\<rparr>"

interpretation embedding_layers: overlay embedding_over embedding_none
  by unfold_locales (simp_all add: embedding_over_def embedding_none_def)

record web_config =
  wb_auto_index :: "bool option"
  wb_content_dir :: "rstr option"

definition web_none :: web_config where
  "web_none =
     \<lparr>wb_auto_index = None, wb_content_dir = None\<rparr>"

definition web_over :: "web_config \<Rightarrow> web_config \<Rightarrow> web_config" where
  "web_over a b =
     \<lparr>wb_auto_index = or_else (wb_auto_index a) (wb_auto_index b),
      wb_content_dir = or_else (wb_content_dir a) (wb_content_dir b)\<rparr>"

interpretation web_layers: overlay web_over web_none
  by unfold_locales (simp_all add: web_over_def web_none_def)

record advanced_security_config =
  as_enabled :: "bool option"
  as_signature_algorithm :: "rstr option"
  as_tls_pinning :: "bool option"
  as_replay_detection :: "bool option"
  as_replay_window_seconds :: "u64 option"

definition advanced_security_none :: advanced_security_config where
  "advanced_security_none =
     \<lparr>as_enabled = None, as_signature_algorithm = None, as_tls_pinning = None,
      as_replay_detection = None, as_replay_window_seconds = None\<rparr>"

definition advanced_security_over :: "advanced_security_config \<Rightarrow> advanced_security_config \<Rightarrow> advanced_security_config" where
  "advanced_security_over a b =
     \<lparr>as_enabled = or_else (as_enabled a) (as_enabled b),
      as_signature_algorithm = or_else (as_signature_algorithm a) (as_signature_algorithm b),
      as_tls_pinning = or_else (as_tls_pinning a) (as_tls_pinning b),
      as_replay_detection = or_else (as_replay_detection a) (as_replay_detection b),
      as_replay_window_seconds = or_else (as_replay_window_seconds a) (as_replay_window_seconds b)\<rparr>"

interpretation advanced_security_layers: overlay advanced_security_over advanced_security_none
  by unfold_locales (simp_all add: advanced_security_over_def advanced_security_none_def)

record rate_limit_config =
  rt_enabled :: "bool option"
  rt_requests_per_second :: "u32 option"
  rt_burst_size :: "u32 option"

definition rate_limit_none :: rate_limit_config where
  "rate_limit_none =
     \<lparr>rt_enabled = None, rt_requests_per_second = None, rt_burst_size = None\<rparr>"

definition rate_limit_over :: "rate_limit_config \<Rightarrow> rate_limit_config \<Rightarrow> rate_limit_config" where
  "rate_limit_over a b =
     \<lparr>rt_enabled = or_else (rt_enabled a) (rt_enabled b),
      rt_requests_per_second = or_else (rt_requests_per_second a) (rt_requests_per_second b),
      rt_burst_size = or_else (rt_burst_size a) (rt_burst_size b)\<rparr>"

interpretation rate_limit_layers: overlay rate_limit_over rate_limit_none
  by unfold_locales (simp_all add: rate_limit_over_def rate_limit_none_def)

record security_config =
  se_api_key :: "rstr option"
  se_rate_limit :: rate_limit_config
  se_advanced :: advanced_security_config

definition security_none :: security_config where
  "security_none =
     \<lparr>se_api_key = None, se_rate_limit = rate_limit_none, se_advanced = advanced_security_none\<rparr>"

definition security_over :: "security_config \<Rightarrow> security_config \<Rightarrow> security_config" where
  "security_over a b =
     \<lparr>se_api_key = or_else (se_api_key a) (se_api_key b),
      se_rate_limit = rate_limit_over (se_rate_limit a) (se_rate_limit b),
      se_advanced = advanced_security_over (se_advanced a) (se_advanced b)\<rparr>"

interpretation security_layers: overlay security_over security_none
  by unfold_locales (simp_all add: security_over_def security_none_def)

record cdc_config =
  dc_enabled :: "bool option"
  dc_buffer_size :: "nat option"

definition cdc_none :: cdc_config where
  "cdc_none =
     \<lparr>dc_enabled = None, dc_buffer_size = None\<rparr>"

definition cdc_over :: "cdc_config \<Rightarrow> cdc_config \<Rightarrow> cdc_config" where
  "cdc_over a b =
     \<lparr>dc_enabled = or_else (dc_enabled a) (dc_enabled b),
      dc_buffer_size = or_else (dc_buffer_size a) (dc_buffer_size b)\<rparr>"

interpretation cdc_layers: overlay cdc_over cdc_none
  by unfold_locales (simp_all add: cdc_over_def cdc_none_def)

record peer_config =
  pc_enabled :: "bool option"
  pc_node_id :: "rstr option"
  pc_peers :: "rstr list"
  pc_reconnect_interval_ms :: "u64 option"
  pc_fetch_wait_timeout_ms :: "u64 option"
  pc_snapshot_on_join :: "bool option"
  pc_ready_threshold :: "fl option"
  pc_snapshot_batch_size :: "nat option"
  pc_shared_secret :: "rstr option"

definition peer_none :: peer_config where
  "peer_none =
     \<lparr>pc_enabled = None, pc_node_id = None, pc_peers = [], pc_reconnect_interval_ms = None,
      pc_fetch_wait_timeout_ms = None, pc_snapshot_on_join = None, pc_ready_threshold = None,
      pc_snapshot_batch_size = None, pc_shared_secret = None\<rparr>"

definition peer_over :: "peer_config \<Rightarrow> peer_config \<Rightarrow> peer_config" where
  "peer_over a b =
     \<lparr>pc_enabled = or_else (pc_enabled a) (pc_enabled b),
      pc_node_id = or_else (pc_node_id a) (pc_node_id b), pc_peers = list_or (pc_peers a) (pc_peers b),
      pc_reconnect_interval_ms = or_else (pc_reconnect_interval_ms a) (pc_reconnect_interval_ms b),
      pc_fetch_wait_timeout_ms = or_else (pc_fetch_wait_timeout_ms a) (pc_fetch_wait_timeout_ms b),
      pc_snapshot_on_join = or_else (pc_snapshot_on_join a) (pc_snapshot_on_join b),
      pc_ready_threshold = or_else (pc_ready_threshold a) (pc_ready_threshold b),
      pc_snapshot_batch_size = or_else (pc_snapshot_batch_size a) (pc_snapshot_batch_size b),
      pc_shared_secret = or_else (pc_shared_secret a) (pc_shared_secret b)\<rparr>"

interpretation peer_layers: overlay peer_over peer_none
  by unfold_locales (simp_all add: peer_over_def peer_none_def)

record retry_config =
  ry_enabled :: "bool option"
  ry_max_retries :: "u32 option"
  ry_initial_delay_ms :: "u64 option"
  ry_max_delay_ms :: "u64 option"
  ry_backoff_multiplier :: "fl option"
  ry_on_network_error :: "bool option"
  ry_on_timeout :: "bool option"
  ry_on_server_error :: "bool option"
  ry_on_rate_limited :: "bool option"

definition retry_none :: retry_config where
  "retry_none =
     \<lparr>ry_enabled = None, ry_max_retries = None, ry_initial_delay_ms = None, ry_max_delay_ms = None,
      ry_backoff_multiplier = None, ry_on_network_error = None, ry_on_timeout = None,
      ry_on_server_error = None, ry_on_rate_limited = None\<rparr>"

definition retry_over :: "retry_config \<Rightarrow> retry_config \<Rightarrow> retry_config" where
  "retry_over a b =
     \<lparr>ry_enabled = or_else (ry_enabled a) (ry_enabled b),
      ry_max_retries = or_else (ry_max_retries a) (ry_max_retries b),
      ry_initial_delay_ms = or_else (ry_initial_delay_ms a) (ry_initial_delay_ms b),
      ry_max_delay_ms = or_else (ry_max_delay_ms a) (ry_max_delay_ms b),
      ry_backoff_multiplier = or_else (ry_backoff_multiplier a) (ry_backoff_multiplier b),
      ry_on_network_error = or_else (ry_on_network_error a) (ry_on_network_error b),
      ry_on_timeout = or_else (ry_on_timeout a) (ry_on_timeout b),
      ry_on_server_error = or_else (ry_on_server_error a) (ry_on_server_error b),
      ry_on_rate_limited = or_else (ry_on_rate_limited a) (ry_on_rate_limited b)\<rparr>"

interpretation retry_layers: overlay retry_over retry_none
  by unfold_locales (simp_all add: retry_over_def retry_none_def)

record scope_config =
  so_weighted_phrases :: "weighted_phrase list"
  so_seeds :: "rstr list"
  so_mode :: "rstr option"
  so_min_seed_similarity :: "fl option"
  so_seed_weight :: "fl option"
  so_query_prefix :: "rstr option"
  so_lexical_weight :: "fl option"
  so_embed_band :: "(fl \<times> fl) option"

definition scope_none :: scope_config where
  "scope_none =
     \<lparr>so_weighted_phrases = [], so_seeds = [], so_mode = None, so_min_seed_similarity = None,
      so_seed_weight = None, so_query_prefix = None, so_lexical_weight = None, so_embed_band = None\<rparr>"

definition scope_over :: "scope_config \<Rightarrow> scope_config \<Rightarrow> scope_config" where
  "scope_over a b =
     \<lparr>so_weighted_phrases = list_or (so_weighted_phrases a) (so_weighted_phrases b),
      so_seeds = list_or (so_seeds a) (so_seeds b), so_mode = or_else (so_mode a) (so_mode b),
      so_min_seed_similarity = or_else (so_min_seed_similarity a) (so_min_seed_similarity b),
      so_seed_weight = or_else (so_seed_weight a) (so_seed_weight b),
      so_query_prefix = or_else (so_query_prefix a) (so_query_prefix b),
      so_lexical_weight = or_else (so_lexical_weight a) (so_lexical_weight b),
      so_embed_band = or_else (so_embed_band a) (so_embed_band b)\<rparr>"

interpretation scope_layers: overlay scope_over scope_none
  by unfold_locales (simp_all add: scope_over_def scope_none_def)

record per_upstream_config =
  pe_enabled :: "bool option"
  pe_max_entries_per_upstream :: "nat option"

definition per_upstream_none :: per_upstream_config where
  "per_upstream_none =
     \<lparr>pe_enabled = None, pe_max_entries_per_upstream = None\<rparr>"

definition per_upstream_over :: "per_upstream_config \<Rightarrow> per_upstream_config \<Rightarrow> per_upstream_config" where
  "per_upstream_over a b =
     \<lparr>pe_enabled = or_else (pe_enabled a) (pe_enabled b),
      pe_max_entries_per_upstream = or_else (pe_max_entries_per_upstream a) (pe_max_entries_per_upstream b)\<rparr>"

interpretation per_upstream_layers: overlay per_upstream_over per_upstream_none
  by unfold_locales (simp_all add: per_upstream_over_def per_upstream_none_def)

record semantic_config =
  sm_enabled :: "bool option"
  sm_similarity_threshold :: "fl option"
  sm_max_entries :: "nat option"
  sm_allow_unsafe_threshold :: "bool option"

definition semantic_none :: semantic_config where
  "semantic_none =
     \<lparr>sm_enabled = None, sm_similarity_threshold = None, sm_max_entries = None,
      sm_allow_unsafe_threshold = None\<rparr>"

definition semantic_over :: "semantic_config \<Rightarrow> semantic_config \<Rightarrow> semantic_config" where
  "semantic_over a b =
     \<lparr>sm_enabled = or_else (sm_enabled a) (sm_enabled b),
      sm_similarity_threshold = or_else (sm_similarity_threshold a) (sm_similarity_threshold b),
      sm_max_entries = or_else (sm_max_entries a) (sm_max_entries b),
      sm_allow_unsafe_threshold = or_else (sm_allow_unsafe_threshold a) (sm_allow_unsafe_threshold b)\<rparr>"

interpretation semantic_layers: overlay semantic_over semantic_none
  by unfold_locales (simp_all add: semantic_over_def semantic_none_def)

record distill_config =
  di_output_dir :: "rstr option"
  di_post_process_cmd :: "rstr option"
  di_format :: "rstr option"
  di_include_stale :: "bool option"

definition distill_none :: distill_config where
  "distill_none =
     \<lparr>di_output_dir = None, di_post_process_cmd = None, di_format = None, di_include_stale = None\<rparr>"

definition distill_over :: "distill_config \<Rightarrow> distill_config \<Rightarrow> distill_config" where
  "distill_over a b =
     \<lparr>di_output_dir = or_else (di_output_dir a) (di_output_dir b),
      di_post_process_cmd = or_else (di_post_process_cmd a) (di_post_process_cmd b),
      di_format = or_else (di_format a) (di_format b),
      di_include_stale = or_else (di_include_stale a) (di_include_stale b)\<rparr>"

interpretation distill_layers: overlay distill_over distill_none
  by unfold_locales (simp_all add: distill_over_def distill_none_def)

record store_config =
  ch_max_memory_mb :: "nat option"
  ch_max_entry_size_kb :: "nat option"
  ch_eviction_policy :: "rstr option"
  ch_error_ttl_5xx_secs :: "u64 option"
  ch_error_ttl_timeout_secs :: "u64 option"
  ch_error_ttl_connection_secs :: "u64 option"
  ch_normalized_matching :: "bool option"
  ch_per_upstream :: per_upstream_config
  ch_semantic :: semantic_config

definition store_none :: store_config where
  "store_none =
     \<lparr>ch_max_memory_mb = None, ch_max_entry_size_kb = None, ch_eviction_policy = None,
      ch_error_ttl_5xx_secs = None, ch_error_ttl_timeout_secs = None,
      ch_error_ttl_connection_secs = None, ch_normalized_matching = None,
      ch_per_upstream = per_upstream_none, ch_semantic = semantic_none\<rparr>"

definition store_over :: "store_config \<Rightarrow> store_config \<Rightarrow> store_config" where
  "store_over a b =
     \<lparr>ch_max_memory_mb = or_else (ch_max_memory_mb a) (ch_max_memory_mb b),
      ch_max_entry_size_kb = or_else (ch_max_entry_size_kb a) (ch_max_entry_size_kb b),
      ch_eviction_policy = or_else (ch_eviction_policy a) (ch_eviction_policy b),
      ch_error_ttl_5xx_secs = or_else (ch_error_ttl_5xx_secs a) (ch_error_ttl_5xx_secs b),
      ch_error_ttl_timeout_secs = or_else (ch_error_ttl_timeout_secs a) (ch_error_ttl_timeout_secs b),
      ch_error_ttl_connection_secs = or_else (ch_error_ttl_connection_secs a) (ch_error_ttl_connection_secs b),
      ch_normalized_matching = or_else (ch_normalized_matching a) (ch_normalized_matching b),
      ch_per_upstream = per_upstream_over (ch_per_upstream a) (ch_per_upstream b),
      ch_semantic = semantic_over (ch_semantic a) (ch_semantic b)\<rparr>"

interpretation store_layers: overlay store_over store_none
  by unfold_locales (simp_all add: store_over_def store_none_def)

record paths_config =
  pt_paths :: "rstr list option"
  pt_warm_interval :: "u64 option"
  pt_warm_limit :: "nat option"

definition paths_none :: paths_config where
  "paths_none =
     \<lparr>pt_paths = None, pt_warm_interval = None, pt_warm_limit = None\<rparr>"

definition paths_over :: "paths_config \<Rightarrow> paths_config \<Rightarrow> paths_config" where
  "paths_over a b =
     \<lparr>pt_paths = or_else (pt_paths a) (pt_paths b),
      pt_warm_interval = or_else (pt_warm_interval a) (pt_warm_interval b),
      pt_warm_limit = or_else (pt_warm_limit a) (pt_warm_limit b)\<rparr>"

interpretation paths_layers: overlay paths_over paths_none
  by unfold_locales (simp_all add: paths_over_def paths_none_def)

record server_config =
  sv_listen :: "rstr option"
  sv_http_listen :: "rstr option"

definition server_none :: server_config where
  "server_none =
     \<lparr>sv_listen = None, sv_http_listen = None\<rparr>"

definition server_over :: "server_config \<Rightarrow> server_config \<Rightarrow> server_config" where
  "server_over a b =
     \<lparr>sv_listen = or_else (sv_listen a) (sv_listen b),
      sv_http_listen = or_else (sv_http_listen a) (sv_http_listen b)\<rparr>"

interpretation server_layers: overlay server_over server_none
  by unfold_locales (simp_all add: server_over_def server_none_def)

section \<open>Values in force\<close>

definition federated_enabled :: "federated_config \<Rightarrow> bool" where
  "federated_enabled c = unwrap_or (fd_enabled c) False"

definition federated_min_local_results :: "federated_config \<Rightarrow> nat" where
  "federated_min_local_results c = unwrap_or (fd_min_local_results c) 3"

definition federated_min_local_confidence :: "federated_config \<Rightarrow> fl" where
  "federated_min_local_confidence c = unwrap_or (fd_min_local_confidence c) (f32_round (7 / 10))"

definition federated_merge_mode :: "federated_config \<Rightarrow> rstr" where
  "federated_merge_mode c = unwrap_or (fd_merge_mode c) (lit ''local_only_fallback'')"

definition federated_max_merged_results :: "federated_config \<Rightarrow> nat" where
  "federated_max_merged_results c = unwrap_or (fd_max_merged_results c) 10"

definition search_use_hybrid :: "search_config \<Rightarrow> bool" where
  "search_use_hybrid c = unwrap_or (sc_use_hybrid c) False"

definition search_default_limit :: "search_config \<Rightarrow> nat" where
  "search_default_limit c = unwrap_or (sc_default_limit c) 10"

definition search_auto_index_on_install :: "search_config \<Rightarrow> bool" where
  "search_auto_index_on_install c = unwrap_or (sc_auto_index_on_install c) False"

definition embedding_batch_size :: "embedding_config \<Rightarrow> nat" where
  "embedding_batch_size c = unwrap_or (eb_batch_size c) 32"

definition embedding_provider :: "embedding_config \<Rightarrow> rstr" where
  "embedding_provider c = unwrap_or (eb_provider c) (lit ''onnx'')"

definition web_auto_index :: "web_config \<Rightarrow> bool" where
  "web_auto_index c = unwrap_or (wb_auto_index c) False"

definition web_content_dir :: "web_config \<Rightarrow> rstr" where
  "web_content_dir c = unwrap_or (wb_content_dir c) (lit ''web'')"

definition advanced_security_enabled :: "advanced_security_config \<Rightarrow> bool" where
  "advanced_security_enabled c = unwrap_or (as_enabled c) False"

definition advanced_security_tls_pinning :: "advanced_security_config \<Rightarrow> bool" where
  "advanced_security_tls_pinning c = unwrap_or (as_tls_pinning c) False"

definition advanced_security_replay_detection :: "advanced_security_config \<Rightarrow> bool" where
  "advanced_security_replay_detection c = unwrap_or (as_replay_detection c) False"

definition advanced_security_replay_window_seconds :: "advanced_security_config \<Rightarrow> u64" where
  "advanced_security_replay_window_seconds c = unwrap_or (as_replay_window_seconds c) 300"

definition rate_limit_enabled :: "rate_limit_config \<Rightarrow> bool" where
  "rate_limit_enabled c = unwrap_or (rt_enabled c) False"

definition rate_limit_requests_per_second :: "rate_limit_config \<Rightarrow> u32" where
  "rate_limit_requests_per_second c = unwrap_or (rt_requests_per_second c) 100"

definition rate_limit_burst_size :: "rate_limit_config \<Rightarrow> u32" where
  "rate_limit_burst_size c = unwrap_or (rt_burst_size c) 50"

definition cdc_enabled :: "cdc_config \<Rightarrow> bool" where
  "cdc_enabled c = unwrap_or (dc_enabled c) False"

definition cdc_buffer_size :: "cdc_config \<Rightarrow> nat" where
  "cdc_buffer_size c = unwrap_or (dc_buffer_size c) 10000"

definition peer_enabled :: "peer_config \<Rightarrow> bool" where
  "peer_enabled c = unwrap_or (pc_enabled c) False"

definition peer_reconnect_interval_ms :: "peer_config \<Rightarrow> u64" where
  "peer_reconnect_interval_ms c = unwrap_or (pc_reconnect_interval_ms c) 5000"

definition peer_fetch_wait_timeout_ms :: "peer_config \<Rightarrow> u64" where
  "peer_fetch_wait_timeout_ms c = unwrap_or (pc_fetch_wait_timeout_ms c) 5000"

definition peer_snapshot_on_join :: "peer_config \<Rightarrow> bool" where
  "peer_snapshot_on_join c = unwrap_or (pc_snapshot_on_join c) True"

definition peer_ready_threshold :: "peer_config \<Rightarrow> fl" where
  "peer_ready_threshold c = unwrap_or (pc_ready_threshold c) (f64_round (4 / 5))"

definition peer_snapshot_batch_size :: "peer_config \<Rightarrow> nat" where
  "peer_snapshot_batch_size c = unwrap_or (pc_snapshot_batch_size c) 100"

definition retry_enabled :: "retry_config \<Rightarrow> bool" where
  "retry_enabled c = unwrap_or (ry_enabled c) True"

definition retry_max_retries :: "retry_config \<Rightarrow> u32" where
  "retry_max_retries c = unwrap_or (ry_max_retries c) 3"

definition retry_initial_delay_ms :: "retry_config \<Rightarrow> u64" where
  "retry_initial_delay_ms c = unwrap_or (ry_initial_delay_ms c) 100"

definition retry_max_delay_ms :: "retry_config \<Rightarrow> u64" where
  "retry_max_delay_ms c = unwrap_or (ry_max_delay_ms c) 10000"

definition retry_backoff_multiplier :: "retry_config \<Rightarrow> fl" where
  "retry_backoff_multiplier c = unwrap_or (ry_backoff_multiplier c) (Fin 2)"

definition retry_on_network_error :: "retry_config \<Rightarrow> bool" where
  "retry_on_network_error c = unwrap_or (ry_on_network_error c) True"

definition retry_on_timeout :: "retry_config \<Rightarrow> bool" where
  "retry_on_timeout c = unwrap_or (ry_on_timeout c) True"

definition retry_on_server_error :: "retry_config \<Rightarrow> bool" where
  "retry_on_server_error c = unwrap_or (ry_on_server_error c) True"

definition retry_on_rate_limited :: "retry_config \<Rightarrow> bool" where
  "retry_on_rate_limited c = unwrap_or (ry_on_rate_limited c) True"

definition scope_mode :: "scope_config \<Rightarrow> rstr" where
  "scope_mode c = unwrap_or (so_mode c) (lit ''filter'')"

definition scope_min_seed_similarity :: "scope_config \<Rightarrow> fl" where
  "scope_min_seed_similarity c = unwrap_or (so_min_seed_similarity c) (Fin (1 / 4))"

definition scope_seed_weight :: "scope_config \<Rightarrow> fl" where
  "scope_seed_weight c = unwrap_or (so_seed_weight c) (f32_round (3 / 10))"

definition scope_lexical_weight :: "scope_config \<Rightarrow> fl" where
  "scope_lexical_weight c = unwrap_or (so_lexical_weight c) (Fin (1 / 2))"

definition scope_embed_band :: "scope_config \<Rightarrow> (fl \<times> fl)" where
  "scope_embed_band c = unwrap_or (so_embed_band c) (f32_round (1 / 10), f32_round (11 / 20))"

definition per_upstream_enabled :: "per_upstream_config \<Rightarrow> bool" where
  "per_upstream_enabled c = unwrap_or (pe_enabled c) False"

definition per_upstream_max_entries_per_upstream :: "per_upstream_config \<Rightarrow> nat" where
  "per_upstream_max_entries_per_upstream c = unwrap_or (pe_max_entries_per_upstream c) 500"

definition semantic_enabled :: "semantic_config \<Rightarrow> bool" where
  "semantic_enabled c = unwrap_or (sm_enabled c) False"

definition semantic_similarity_threshold :: "semantic_config \<Rightarrow> fl" where
  "semantic_similarity_threshold c = unwrap_or (sm_similarity_threshold c) (f32_round (23 / 25))"

definition semantic_max_entries :: "semantic_config \<Rightarrow> nat" where
  "semantic_max_entries c = unwrap_or (sm_max_entries c) 10000"

definition semantic_allow_unsafe_threshold :: "semantic_config \<Rightarrow> bool" where
  "semantic_allow_unsafe_threshold c = unwrap_or (sm_allow_unsafe_threshold c) False"

definition distill_format :: "distill_config \<Rightarrow> rstr" where
  "distill_format c = unwrap_or (di_format c) (lit ''md'')"

definition distill_include_stale :: "distill_config \<Rightarrow> bool" where
  "distill_include_stale c = unwrap_or (di_include_stale c) False"

definition store_max_memory_mb :: "store_config \<Rightarrow> nat" where
  "store_max_memory_mb c = unwrap_or (ch_max_memory_mb c) 256"

definition store_max_entry_size_kb :: "store_config \<Rightarrow> nat" where
  "store_max_entry_size_kb c = unwrap_or (ch_max_entry_size_kb c) 512"

definition store_eviction_policy :: "store_config \<Rightarrow> rstr" where
  "store_eviction_policy c = unwrap_or (ch_eviction_policy c) (lit ''lru'')"

definition store_normalized_matching :: "store_config \<Rightarrow> bool" where
  "store_normalized_matching c = unwrap_or (ch_normalized_matching c) False"

definition paths_paths :: "paths_config \<Rightarrow> rstr list" where
  "paths_paths c = unwrap_or (pt_paths c) [lit ''packages/**/*.md'']"

definition paths_warm_interval :: "paths_config \<Rightarrow> u64" where
  "paths_warm_interval c = unwrap_or (pt_warm_interval c) 300"

definition paths_warm_limit :: "paths_config \<Rightarrow> nat" where
  "paths_warm_limit c = unwrap_or (pt_warm_limit c) 1000"

definition server_listen :: "server_config \<Rightarrow> rstr" where
  "server_listen c = unwrap_or (sv_listen c) (lit ''127.0.0.1:9999'')"

definition effective_phrases :: "scope_config \<Rightarrow> weighted_phrase list" where
  "effective_phrases c =
     (if so_weighted_phrases c \<noteq> [] then so_weighted_phrases c
      else map weighted_phrase_new (filter (\<lambda>s. s \<noteq> []) (so_seeds c)))"

definition phrase_texts :: "scope_config \<Rightarrow> rstr list" where
  "phrase_texts c = map wp_text (effective_phrases c)"

text \<open>The process id of \<open>node_id\<close> is an argument.\<close>

record config_env =
  ce_lower :: "rstr \<Rightarrow> rstr"
  ce_upper :: "rstr \<Rightarrow> rstr"
  ce_show_f32 :: "fl \<Rightarrow> rstr"
  ce_var :: "rstr \<Rightarrow> rstr option"

definition peer_node_id :: "config_env \<Rightarrow> nat \<Rightarrow> peer_config \<Rightarrow> rstr" where
  "peer_node_id E pid c =
     (case pc_node_id c of
        Some n \<Rightarrow> n
      | None \<Rightarrow> (case ce_var E (lit ''HOSTNAME'') of Some h \<Rightarrow> h | None \<Rightarrow> lit ''node-'' @ nat_to_dec pid))"

definition ends_with :: "rstr \<Rightarrow> rstr \<Rightarrow> bool" where
  "ends_with p s \<longleftrightarrow> length p \<le> length s \<and> drop (length s - length p) s = p"

definition begins_with :: "rstr \<Rightarrow> rstr \<Rightarrow> bool" where
  "begins_with p s \<longleftrightarrow> take (length p) s = p"

definition resolve_env_ref :: "config_env \<Rightarrow> rstr \<Rightarrow> rstr option" where
  "resolve_env_ref E s =
     (if begins_with (lit ''${'') s \<and> ends_with (lit ''}'') s
      then (case ce_var E (take (length s - 3) (drop 2 s)) of
              Some v \<Rightarrow> if v \<noteq> [] then Some v else None
            | None \<Rightarrow> None)
      else Some s)"

definition resolve_shared_secret :: "config_env \<Rightarrow> peer_config \<Rightarrow> rstr + rstr option" where
  "resolve_shared_secret E c =
     (case pc_shared_secret c of
        None \<Rightarrow> Inr None
      | Some raw0 \<Rightarrow>
          (let raw = trim raw0
           in if raw = [] then Inl (lit ''peer.shared_secret must not be empty when set'')
              else case resolve_env_ref E raw of
                     Some v \<Rightarrow> Inr (Some v)
                   | None \<Rightarrow> Inl (lit ''peer.shared_secret references undefined env var: '' @ raw)))"

definition resolve_api_key :: "config_env \<Rightarrow> endpoint_config \<Rightarrow> rstr + rstr option" where
  "resolve_api_key E c =
     (case ec_api_key c of
        None \<Rightarrow> Inr None
      | Some raw \<Rightarrow>
          (case resolve_env_ref E raw of
             None \<Rightarrow> Inl (lit ''upstream '' @ [39] @ ec_id c @ [39]
                            @ lit '': api_key references undefined env var: '' @ raw)
           | Some v \<Rightarrow> if v = [] then Inr None else Inr (Some v)))"

section \<open>Validation\<close>

text \<open>A validation is a sequence of checks, left at the first that fails.\<close>

definition check :: "bool \<Rightarrow> rstr \<Rightarrow> rstr + unit" where
  "check b msg = (if b then Inr () else Inl msg)"

fun first_error :: "('e + unit) list \<Rightarrow> 'e + unit" where
  "first_error [] = Inr ()"
| "first_error (Inl e # cs) = Inl e"
| "first_error (Inr _ # cs) = first_error cs"

named_theorems validity

lemma check_ok [validity]: "check b msg = Inr () \<longleftrightarrow> b"
  by (simp add: check_def)

lemma first_error_ok [validity]: "first_error cs = Inr () \<longleftrightarrow> (\<forall>c \<in> set cs. c = Inr ())"
  by (induction cs rule: first_error.induct) auto

definition within01 :: "fl \<Rightarrow> bool" where
  "within01 x \<longleftrightarrow> fl_le (Fin 0) x \<and> fl_le x (Fin 1)"

definition optionally :: "('a \<Rightarrow> bool) \<Rightarrow> 'a option \<Rightarrow> bool" where
  "optionally P v \<longleftrightarrow> (case v of Some x \<Rightarrow> P x | None \<Rightarrow> True)"

definition quoted :: "rstr \<Rightarrow> rstr" where
  "quoted s = [39] @ s @ [39]"

definition expected_one_of :: "rstr \<Rightarrow> rstr \<Rightarrow> rstr list \<Rightarrow> rstr" where
  "expected_one_of field v valid =
     field @ lit '' '' @ quoted v @ lit '' invalid, expected one of: '' @ join_str (lit '', '') valid"

definition choice :: "(rstr \<Rightarrow> rstr) \<Rightarrow> rstr \<Rightarrow> rstr list \<Rightarrow> rstr option \<Rightarrow> rstr + unit" where
  "choice nf field valid v =
     (case v of Some x \<Rightarrow> check (nf x \<in> set valid) (expected_one_of field x valid) | None \<Rightarrow> Inr ())"

definition federated_validate :: "config_env \<Rightarrow> federated_config \<Rightarrow> rstr + unit" where
  "federated_validate E c =
     first_error
       [check (optionally within01 (fd_min_local_confidence c))
          (lit ''federated.min_local_confidence must be between 0.0 and 1.0''),
        choice (ce_lower E) (lit ''federated.merge_mode'')
          [lit ''local_only_fallback'', lit ''local_priority'', lit ''remote_priority'', lit ''interleave'']
          (fd_merge_mode c),
        check (fd_max_merged_results c \<noteq> Some 0) (lit ''federated.max_merged_results must be > 0''),
        check (fd_min_local_results c \<noteq> Some 0) (lit ''federated.min_local_results must be > 0'')]"

definition advanced_security_validate :: "advanced_security_config \<Rightarrow> rstr + unit" where
  "advanced_security_validate c =
     first_error
       [choice (\<lambda>s. s) (lit ''advanced.signature_algorithm'') [lit ''hmac-sha256'', lit ''blake3'']
          (as_signature_algorithm c),
        check (as_replay_window_seconds c \<noteq> Some 0) (lit ''advanced.replay_window_seconds must be > 0'')]"

definition security_validate :: "security_config \<Rightarrow> rstr + unit" where
  "security_validate c =
     first_error
       [check (se_api_key c \<noteq> Some []) (lit ''security.api_key must not be empty''),
        advanced_security_validate (se_advanced c)]"

definition rate_limit_validate :: "rate_limit_config \<Rightarrow> rstr + unit" where
  "rate_limit_validate c =
     first_error
       [check (rt_requests_per_second c \<noteq> Some 0) (lit ''rate_limit.requests_per_second must be > 0''),
        check (rt_burst_size c \<noteq> Some 0) (lit ''rate_limit.burst_size must be > 0'')]"

definition retry_validate :: "retry_config \<Rightarrow> rstr + unit" where
  "retry_validate c =
     first_error
       [check (ry_max_delay_ms c \<noteq> Some 0) (lit ''retry.max_delay_ms must be > 0''),
        check (optionally (\<lambda>mx. optionally (\<lambda>i. i \<le> mx) (ry_initial_delay_ms c)) (ry_max_delay_ms c))
          (lit ''retry.max_delay_ms must be >= retry.initial_delay_ms''),
        check (optionally (\<lambda>v. \<not> fl_less v (Fin 1)) (ry_backoff_multiplier c))
          (lit ''retry.backoff_multiplier must be >= 1.0'')]"

definition phrase_validate :: "nat \<times> weighted_phrase \<Rightarrow> rstr + unit" where
  "phrase_validate x =
     (let (i, p) = x; pos = lit ''scope.weighted_phrases['' @ nat_to_dec i @ lit '']''
      in first_error
           [check (trim (wp_text p) \<noteq> []) (pos @ lit ''.text must be non-empty''),
            check (case wp_weight p of Fin q \<Rightarrow> 0 \<le> q | _ \<Rightarrow> False) (pos @ lit ''.weight must be finite and >= 0''),
            check (optionally within01 (wp_min_similarity p))
              (pos @ lit ''.min_similarity must be between 0.0 and 1.0'')])"

definition scope_validate :: "config_env \<Rightarrow> scope_config \<Rightarrow> rstr + unit" where
  "scope_validate E c =
     first_error
       ([choice (ce_lower E) (lit ''scope.mode'') [lit ''filter'', lit ''rerank'', lit ''boost''] (so_mode c),
         check (optionally within01 (so_min_seed_similarity c))
           (lit ''scope.min_similarity / min_seed_similarity must be between 0.0 and 1.0''),
         check (optionally within01 (so_seed_weight c))
           (lit ''scope.scope_weight / seed_weight must be between 0.0 and 1.0''),
         check (optionally within01 (so_lexical_weight c)) (lit ''scope.lexical_weight must be between 0.0 and 1.0''),
         check (optionally (\<lambda>(lo, hi). within01 lo \<and> within01 hi) (so_embed_band c))
           (lit ''scope.embed_band values must be between 0.0 and 1.0''),
         check (optionally (\<lambda>(lo, hi). \<not> fl_less hi lo) (so_embed_band c)) (lit ''scope.embed_band lo must be <= hi'')]
        @ map phrase_validate (enumerate 0 (so_weighted_phrases c)))"

definition safe_similarity_threshold_floor :: fl where
  "safe_similarity_threshold_floor = f32_round (17 / 20)"

definition semantic_validate :: "config_env \<Rightarrow> semantic_config \<Rightarrow> rstr + unit" where
  "semantic_validate E c =
     (case sm_similarity_threshold c of
        None \<Rightarrow> Inr ()
      | Some t \<Rightarrow>
          first_error
            [check (within01 t)
               (lit ''cache.semantic.similarity_threshold must be in [0.0, 1.0], got '' @ ce_show_f32 E t),
             check (\<not> (semantic_enabled c \<and> fl_less t safe_similarity_threshold_floor
                       \<and> \<not> semantic_allow_unsafe_threshold c))
               (lit ''cache.semantic.similarity_threshold '' @ ce_show_f32 E t @ lit '' is below the safe floor ''
                @ ce_show_f32 E safe_similarity_threshold_floor
                @ lit ''. Below this, bench-hitrate-sem shows false-hit 34'' @ [8211]
                @ lit ''88%. Set allow_unsafe_threshold = true to override (discouraged).'')])"

definition distill_validate :: "distill_config \<Rightarrow> rstr + unit" where
  "distill_validate c =
     (case di_format c of
        None \<Rightarrow> Inr ()
      | Some f \<Rightarrow>
          check (f \<in> {lit ''md'', lit ''json'', lit ''both''})
            (lit ''proxy.distill.format must be '' @ quoted (lit ''md'') @ lit '', '' @ quoted (lit ''json'')
             @ lit '', or '' @ quoted (lit ''both'') @ lit '', got '' @ quoted f))"

definition per_upstream_validate :: "per_upstream_config \<Rightarrow> rstr + unit" where
  "per_upstream_validate c =
     check (pe_max_entries_per_upstream c \<noteq> Some 0) (lit ''cache.per_upstream.max_entries_per_upstream must be > 0'')"

definition store_validate :: "config_env \<Rightarrow> store_config \<Rightarrow> rstr + unit" where
  "store_validate E c =
     first_error
       [choice (\<lambda>s. s) (lit ''cache.eviction_policy'') [lit ''lru'', lit ''lfu'', lit ''ttl_first''] (ch_eviction_policy c),
        check (ch_max_entry_size_kb c \<noteq> Some 0) (lit ''cache.max_entry_size_kb must be > 0''),
        per_upstream_validate (ch_per_upstream c), semantic_validate E (ch_semantic c)]"

record breaker_config =
  bk_failure_threshold :: u32
  bk_success_threshold :: u32
  bk_open_duration_secs :: u64
  bk_failure_window_secs :: u64

definition breaker_config_default :: breaker_config where
  "breaker_config_default = \<lparr>bk_failure_threshold = 25, bk_success_threshold = 2, bk_open_duration_secs = 30,
     bk_failure_window_secs = 60\<rparr>"

definition to_circuit_breaker_config :: "breaker_config \<Rightarrow> circuit_config" where
  "to_circuit_breaker_config c =
     \<lparr>failure_threshold = bk_failure_threshold c, success_threshold = bk_success_threshold c,
      open_duration = from_secs (unat (bk_open_duration_secs c)),
      failure_window = from_secs (unat (bk_failure_window_secs c))\<rparr>"

definition breaker_validate :: "breaker_config \<Rightarrow> rstr + unit" where
  "breaker_validate c =
     first_error
       [check (bk_failure_threshold c \<noteq> 0) (lit ''circuit_breaker.failure_threshold must be > 0''),
        check (bk_success_threshold c \<noteq> 0) (lit ''circuit_breaker.success_threshold must be > 0''),
        check (bk_open_duration_secs c \<noteq> 0) (lit ''circuit_breaker.open_duration_secs must be > 0''),
        check (bk_failure_window_secs c \<noteq> 0) (lit ''circuit_breaker.failure_window_secs must be > 0'')]"

record socket_tuning_config =
  tn_tcp_nodelay :: bool
  tn_tcp_keepalive_secs :: u64
  tn_tcp_keepalive_interval :: u64
  tn_tcp_keepalive_probes :: u32
  tn_listen_backlog :: u32
  tn_send_buffer_size :: "nat option"
  tn_recv_buffer_size :: "nat option"
  tn_defer_accept_secs :: int
  tn_user_timeout_ms :: u32
  tn_reuse_port :: bool
  tn_upstream_pool_idle_timeout_secs :: u64
  tn_upstream_pool_max_idle :: nat

definition socket_tuning_default :: socket_tuning_config where
  "socket_tuning_default =
     \<lparr>tn_tcp_nodelay = True, tn_tcp_keepalive_secs = 60, tn_tcp_keepalive_interval = 15,
      tn_tcp_keepalive_probes = 5, tn_listen_backlog = 4096, tn_send_buffer_size = None,
      tn_recv_buffer_size = None, tn_defer_accept_secs = 5, tn_user_timeout_ms = 30000, tn_reuse_port = True,
      tn_upstream_pool_idle_timeout_secs = 90, tn_upstream_pool_max_idle = 32\<rparr>"

definition socket_tuning_over :: "socket_tuning_config \<Rightarrow> socket_tuning_config \<Rightarrow> socket_tuning_config" where
  "socket_tuning_over a b = a"

interpretation retry_attempts: overlay_setting retry_over retry_none ry_max_retries
  by unfold_locales (simp_all add: retry_over_def retry_none_def)

interpretation request_rate: overlay_setting rate_limit_over rate_limit_none rt_requests_per_second
  by unfold_locales (simp_all add: rate_limit_over_def rate_limit_none_def)

end
