(* ===== verification/ConfigProxy.thy ===== *)
theory ConfigProxy
  imports ConfigSections
begin

text \<open>
  The proxy's part of the configuration (\<open>src/src/config/mod.rs\<close>): the record of all sections, how a local
  file is laid over a global one, the deprecated single upstream, and the overrides by environment
  variables.
\<close>

section \<open>The proxy section\<close>

record proxy_config =
  px_listen :: "rstr option"
  px_http_listen :: "rstr option"
  px_fresh_duration_secs :: "u64 option"
  px_stale_duration_secs :: "u64 option"
  px_max_entries :: "nat option"
  px_upstream_url :: "rstr option"
  px_upstream_timeout_secs :: "u64 option"
  px_ttl_jitter_percent :: "fl option"
  px_refresh_interval_secs :: "u64 option"
  px_scope :: scope_config
  px_cache :: store_config
  px_distill :: distill_config
  px_api_key :: "rstr option"
  px_rate_limit :: rate_limit_config
  px_retry :: retry_config
  px_upstreams :: "endpoint_config list"
  px_federated :: federated_config
  px_security :: security_config
  px_cascade :: cascade_config
  px_pool :: conn_config
  px_circuit_breaker :: breaker_config
  px_agents :: "agent_config list"
  px_cdc :: cdc_config
  px_peer :: peer_config
  px_socket_tuning :: socket_tuning_config
  px_shutdown_timeout_secs :: "u64 option"
  px_max_global_connections :: "nat option"
  px_web_ui_enabled :: bool

definition proxy_config_default :: proxy_config where
  "proxy_config_default =
     \<lparr>px_listen = None, px_http_listen = None, px_fresh_duration_secs = None,
      px_stale_duration_secs = None, px_max_entries = None, px_upstream_url = None,
      px_upstream_timeout_secs = None, px_ttl_jitter_percent = None, px_refresh_interval_secs = None,
      px_scope = scope_none, px_cache = store_none, px_distill = distill_none, px_api_key = None,
      px_rate_limit = rate_limit_none, px_retry = retry_none, px_upstreams = [],
      px_federated = federated_none, px_security = security_none, px_cascade = cascade_config_default,
      px_pool = conn_config_default, px_circuit_breaker = breaker_config_default, px_agents = [],
      px_cdc = cdc_none, px_peer = peer_none, px_socket_tuning = socket_tuning_default,
      px_shutdown_timeout_secs = None, px_max_global_connections = None, px_web_ui_enabled = False\<rparr>"

definition proxy_over :: "proxy_config \<Rightarrow> proxy_config \<Rightarrow> proxy_config" where
  "proxy_over a b =
     \<lparr>px_listen = or_else (px_listen a) (px_listen b),
      px_http_listen = or_else (px_http_listen a) (px_http_listen b),
      px_fresh_duration_secs = or_else (px_fresh_duration_secs a) (px_fresh_duration_secs b),
      px_stale_duration_secs = or_else (px_stale_duration_secs a) (px_stale_duration_secs b),
      px_max_entries = or_else (px_max_entries a) (px_max_entries b),
      px_upstream_url = or_else (px_upstream_url a) (px_upstream_url b),
      px_upstream_timeout_secs = or_else (px_upstream_timeout_secs a) (px_upstream_timeout_secs b),
      px_ttl_jitter_percent = or_else (px_ttl_jitter_percent a) (px_ttl_jitter_percent b),
      px_refresh_interval_secs = or_else (px_refresh_interval_secs a) (px_refresh_interval_secs b),
      px_scope = scope_over (px_scope a) (px_scope b), px_cache = store_over (px_cache a) (px_cache b),
      px_distill = distill_over (px_distill a) (px_distill b),
      px_api_key = or_else (px_api_key a) (px_api_key b),
      px_rate_limit = rate_limit_over (px_rate_limit a) (px_rate_limit b),
      px_retry = retry_over (px_retry a) (px_retry b),
      px_upstreams = list_or (px_upstreams a) (px_upstreams b),
      px_federated = federated_over (px_federated a) (px_federated b),
      px_security = security_over (px_security a) (px_security b), px_cascade = px_cascade a,
      px_pool = px_pool a, px_circuit_breaker = px_circuit_breaker a,
      px_agents = list_or (px_agents a) (px_agents b), px_cdc = cdc_over (px_cdc a) (px_cdc b),
      px_peer = peer_over (px_peer a) (px_peer b),
      px_socket_tuning = socket_tuning_over (px_socket_tuning a) (px_socket_tuning b),
      px_shutdown_timeout_secs = or_else (px_shutdown_timeout_secs a) (px_shutdown_timeout_secs b),
      px_max_global_connections = or_else (px_max_global_connections a) (px_max_global_connections b),
      px_web_ui_enabled = (px_web_ui_enabled a \<or> px_web_ui_enabled b)\<rparr>"

definition proxy_listen :: "proxy_config \<Rightarrow> rstr" where
  "proxy_listen c = unwrap_or (px_listen c) (lit ''127.0.0.1:9999'')"

definition proxy_fresh_duration_secs :: "proxy_config \<Rightarrow> u64" where
  "proxy_fresh_duration_secs c = unwrap_or (px_fresh_duration_secs c) 300"

definition proxy_stale_duration_secs :: "proxy_config \<Rightarrow> u64" where
  "proxy_stale_duration_secs c = unwrap_or (px_stale_duration_secs c) 3600"

definition proxy_max_entries :: "proxy_config \<Rightarrow> nat" where
  "proxy_max_entries c = unwrap_or (px_max_entries c) 10000"

definition proxy_upstream_timeout_secs :: "proxy_config \<Rightarrow> u64" where
  "proxy_upstream_timeout_secs c = unwrap_or (px_upstream_timeout_secs c) 30"

definition proxy_ttl_jitter_percent :: "proxy_config \<Rightarrow> fl" where
  "proxy_ttl_jitter_percent c = unwrap_or (px_ttl_jitter_percent c) (f32_round (1 / 10))"

definition proxy_refresh_interval_secs :: "proxy_config \<Rightarrow> u64" where
  "proxy_refresh_interval_secs c = unwrap_or (px_refresh_interval_secs c) 60"

definition proxy_shutdown_timeout_secs :: "proxy_config \<Rightarrow> u64" where
  "proxy_shutdown_timeout_secs c = unwrap_or (px_shutdown_timeout_secs c) 30"

definition proxy_max_global_connections :: "proxy_config \<Rightarrow> nat" where
  "proxy_max_global_connections c = unwrap_or (px_max_global_connections c) 1000"

definition requires_auth :: "proxy_config \<Rightarrow> bool" where
  "requires_auth c \<longleftrightarrow> px_api_key c \<noteq> None"

definition enabled_upstreams :: "proxy_config \<Rightarrow> endpoint_config list" where
  "enabled_upstreams c = filter endpoint_enabled (px_upstreams c)"

definition has_multiple_upstreams :: "proxy_config \<Rightarrow> bool" where
  "has_multiple_upstreams c \<longleftrightarrow> length (px_upstreams c) > 1"

definition enabled_agents :: "proxy_config \<Rightarrow> agent_config list" where
  "enabled_agents c = filter ag_enabled (px_agents c)"

definition has_agents :: "proxy_config \<Rightarrow> bool" where
  "has_agents c \<longleftrightarrow> px_agents c \<noteq> []"

definition proxy_cdc_enabled :: "proxy_config \<Rightarrow> bool" where
  "proxy_cdc_enabled c \<longleftrightarrow> cdc_enabled (px_cdc c) \<or> peer_enabled (px_peer c)"

text \<open>\<open>scope_seeds_mut\<close>: the state in which the caller then changes the seeds.\<close>

definition scope_seeds_mut :: "proxy_config \<Rightarrow> proxy_config" where
  "scope_seeds_mut c =
     (let s = px_scope c
      in if so_weighted_phrases s \<noteq> []
         then c\<lparr>px_scope := s\<lparr>so_weighted_phrases := [],
                so_seeds := (if so_seeds s = [] then map wp_text (so_weighted_phrases s) else so_seeds s)\<rparr>\<rparr>
         else c)"

definition default_endpoint :: "rstr \<Rightarrow> u64 option \<Rightarrow> endpoint_config" where
  "default_endpoint url timeout =
     \<lparr>ec_id = lit ''default'', ec_url = url, ec_timeout_secs = timeout, ec_weight = None, ec_priority = None,
      ec_max_concurrent = None, ec_enabled = None, ec_version_endpoint = None,
      ec_version_poll_interval_secs = None, ec_upstream_type = None, ec_query_mode = None, ec_table = None,
      ec_embedding_column = None, ec_content_column = None, ec_metadata_columns = [], ec_distance_metric = None,
      ec_dimensions = None, ec_index = None, ec_search_fields = [], ec_return_fields = [], ec_api_key = None\<rparr>"

definition normalize_upstreams :: "proxy_config \<Rightarrow> bool \<times> proxy_config" where
  "normalize_upstreams c =
     (if px_upstreams c = []
      then case px_upstream_url c of
             Some url \<Rightarrow> (True, c\<lparr>px_upstreams := [default_endpoint url (px_upstream_timeout_secs c)]\<rparr>)
           | None \<Rightarrow> (False, c)
      else (False, c))"

section \<open>Environment\<close>

text \<open>\<open>rsplitn(2, ':')\<close>: what follows the last colon, and what precedes it.\<close>

definition rsplit_colon :: "rstr \<Rightarrow> rstr \<times> rstr option" where
  "rsplit_colon s =
     (let r = takeWhile (\<lambda>c. c \<noteq> 58) (rev s)
      in if length r = length s then (s, None) else (rev r, Some (take (length s - length r - 1) s)))"

fun digits_value :: "nat \<Rightarrow> rstr \<Rightarrow> nat option" where
  "digits_value acc [] = Some acc"
| "digits_value acc (c # cs) = (if 48 \<le> c \<and> c \<le> 57 then digits_value (10 * acc + (c - 48)) cs else None)"

text \<open>\<open>str::parse::<usize>\<close>.\<close>

definition parse_usize :: "rstr \<Rightarrow> nat option" where
  "parse_usize s =
     (let ds = (case s of c # cs \<Rightarrow> if c = 43 then cs else s | [] \<Rightarrow> [])
      in if ds = [] then None
         else case digits_value 0 ds of Some n \<Rightarrow> if n \<le> usize_max then Some n else None | None \<Rightarrow> None)"

definition override_listen :: "config_env \<Rightarrow> nat \<times> proxy_config \<Rightarrow> nat \<times> proxy_config" where
  "override_listen E x =
     (let (n, c) = x; host = ce_var E (lit ''CONPROXY_HOST''); port = ce_var E (lit ''CONPROXY_PORT'')
      in if host = None \<and> port = None then x
         else let current = unwrap_or (px_listen c) (lit ''127.0.0.1:3000'');
                  (cur_port, before) = rsplit_colon current;
                  cur_host = unwrap_or before (lit ''127.0.0.1'')
              in (Suc n, c\<lparr>px_listen := Some (unwrap_or host cur_host @ lit '':'' @ unwrap_or port cur_port)\<rparr>))"

definition override_api_key :: "config_env \<Rightarrow> nat \<times> proxy_config \<Rightarrow> nat \<times> proxy_config" where
  "override_api_key E x =
     (let (n, c) = x
      in case ce_var E (lit ''CONPROXY_API_KEY'') of
           Some key \<Rightarrow> (Suc n, c\<lparr>px_api_key := Some key, px_security := (px_security c)\<lparr>se_api_key := Some key\<rparr>\<rparr>)
         | None \<Rightarrow> x)"

definition override_max_entries :: "config_env \<Rightarrow> nat \<times> proxy_config \<Rightarrow> nat \<times> proxy_config" where
  "override_max_entries E x =
     (let (n, c) = x
      in case Option.bind (ce_var E (lit ''CONPROXY_CACHE_MAX_ENTRIES'')) parse_usize of
           Some m \<Rightarrow> (Suc n, c\<lparr>px_max_entries := Some m\<rparr>)
         | None \<Rightarrow> x)"

definition upstream_env_key :: "config_env \<Rightarrow> rstr \<Rightarrow> rstr" where
  "upstream_env_key E uid =
     lit ''CONPROXY_UPSTREAM_'' @ map (\<lambda>c. if c = 45 then 95 else c) (ce_upper E uid) @ lit ''_URL''"

definition override_url :: "config_env \<Rightarrow> endpoint_config \<Rightarrow> endpoint_config" where
  "override_url E u = (case ce_var E (upstream_env_key E (ec_id u)) of Some url \<Rightarrow> u\<lparr>ec_url := url\<rparr> | None \<Rightarrow> u)"

definition override_upstreams :: "config_env \<Rightarrow> nat \<times> proxy_config \<Rightarrow> nat \<times> proxy_config" where
  "override_upstreams E x =
     (let (n, c) = x
      in (n + length (filter (\<lambda>u. ce_var E (upstream_env_key E (ec_id u)) \<noteq> None) (px_upstreams c)),
          c\<lparr>px_upstreams := map (override_url E) (px_upstreams c)\<rparr>))"

definition apply_env_overrides :: "config_env \<Rightarrow> proxy_config \<Rightarrow> nat \<times> proxy_config" where
  "apply_env_overrides E c =
     override_upstreams E (override_max_entries E (override_api_key E (override_listen E (0, c))))"

section \<open>Layers of the proxy section\<close>

lemma socket_tuning_over_simp [simp]: "socket_tuning_over a b = a"
  by (simp add: socket_tuning_over_def)

lemma proxy_over_assoc: "proxy_over (proxy_over a b) c = proxy_over a (proxy_over b c)"
  by (simp add: proxy_over_def disj_assoc)

lemma proxy_over_default: "proxy_over a proxy_config_default = a"
  by (simp add: proxy_over_def proxy_config_default_def)

text \<open>Four sections are not laid over but replaced, so an empty proxy section resets them.\<close>

lemma default_over_proxy:
  "proxy_over proxy_config_default b =
     b\<lparr>px_cascade := cascade_config_default, px_pool := conn_config_default,
       px_circuit_breaker := breaker_config_default, px_socket_tuning := socket_tuning_default\<rparr>"
  by (simp add: proxy_over_def proxy_config_default_def)

lemma normalize_upstreams_idem:
  "normalize_upstreams (snd (normalize_upstreams c)) = (False, snd (normalize_upstreams c))"
  by (auto simp: normalize_upstreams_def split: option.splits)

lemma rsplit_colon_append: "58 \<notin> set port \<Longrightarrow> rsplit_colon (host @ 58 # port) = (port, Some host)"
proof -
  assume a: "58 \<notin> set port"
  have "takeWhile (\<lambda>c. c \<noteq> 58) (rev (host @ 58 # port)) = rev port"
    using a by (simp, subst takeWhile_append2) auto
  then show ?thesis by (simp add: rsplit_colon_def Let_def)
qed

end
