(* ===== verification/ConfigFile.thy ===== *)
theory ConfigFile
  imports ConfigProxy Context "HOL-Library.Finite_Map" "HOL-Library.List_Lexorder"
begin

text \<open>
  Configuration files as a whole (\<open>src/src/config/mod.rs\<close>) and the context-rooted tables
  (\<open>src/src/config/context_rooted.rs\<close>): named upstream and embedder resources, contexts whose legs refer to
  them with overrides, their resolution, validation and projection to the configuration the proxy runs
  with. The tables are hash maps: the order in which one is iterated is an argument. Reading and
  parsing the files is outside: a file is its parsed content.
\<close>

section \<open>Resources and contexts\<close>

record upstream_resource =
  ur_url :: "rstr option"
  ur_upstream_type :: "rstr option"
  ur_timeout_secs :: "u64 option"
  ur_weight :: "u32 option"
  ur_priority :: "u32 option"
  ur_max_concurrent :: "nat option"
  ur_enabled :: "bool option"
  ur_version_endpoint :: "rstr option"
  ur_version_poll_interval_secs :: "u64 option"
  ur_query_mode :: "rstr option"
  ur_table :: "rstr option"
  ur_embedding_column :: "rstr option"
  ur_content_column :: "rstr option"
  ur_metadata_columns :: "rstr list"
  ur_distance_metric :: "rstr option"
  ur_dimensions :: "nat option"
  ur_index :: "rstr option"
  ur_search_fields :: "rstr list"
  ur_return_fields :: "rstr list"
  ur_api_key :: "rstr option"

record context_leg =
  lg_resource_ref :: rstr
  lg_url :: "rstr option"
  lg_upstream_type :: "rstr option"
  lg_timeout_secs :: "u64 option"
  lg_weight :: "u32 option"
  lg_priority :: "u32 option"
  lg_max_concurrent :: "nat option"
  lg_enabled :: "bool option"
  lg_version_endpoint :: "rstr option"
  lg_version_poll_interval_secs :: "u64 option"
  lg_query_mode :: "rstr option"
  lg_table :: "rstr option"
  lg_embedding_column :: "rstr option"
  lg_content_column :: "rstr option"
  lg_metadata_columns :: "rstr list option"
  lg_distance_metric :: "rstr option"
  lg_dimensions :: "nat option"
  lg_index :: "rstr option"
  lg_search_fields :: "rstr list option"
  lg_return_fields :: "rstr list option"
  lg_api_key :: "rstr option"

record embedder_resource =
  er_provider :: "rstr option"
  er_model :: "rstr option"
  er_api_key :: "rstr option"
  er_base_url :: "rstr option"
  er_batch_size :: "nat option"

record context_embedder =
  cm_resource_ref :: rstr
  cm_provider :: "rstr option"
  cm_model :: "rstr option"
  cm_api_key :: "rstr option"
  cm_base_url :: "rstr option"
  cm_batch_size :: "nat option"

record context_cache =
  xc_fresh_secs :: "u64 option"
  xc_stale_secs :: "u64 option"
  xc_max_entries :: "nat option"
  xc_max_memory_mb :: "nat option"
  xc_eviction_policy :: "rstr option"

record named_context =
  nc_default :: "bool option"
  nc_description :: "rstr option"
  nc_upstreams :: "context_leg list"
  nc_embedder :: "context_embedder option"
  nc_cache :: context_cache
  nc_scope :: scope_config
  nc_cascade :: cascade_config
  nc_federated :: federated_config

record resolved_leg =
  rv_resource_id :: rstr
  rv_endpoint :: endpoint_config

record resolved_embedder =
  re_resource_id :: rstr
  re_provider :: "rstr option"
  re_model :: "rstr option"
  re_api_key :: "rstr option"
  re_base_url :: "rstr option"
  re_batch_size :: "nat option"

record resolved_ctx =
  rx_id :: rstr
  rx_is_default :: bool
  rx_description :: "rstr option"
  rx_legs :: "resolved_leg list"
  rx_embedder :: "resolved_embedder option"
  rx_cache :: context_cache
  rx_scope :: scope_config
  rx_cascade :: cascade_config
  rx_federated :: federated_config

type_synonym upstream_table = "(rstr, upstream_resource) fmap"
type_synonym embedder_table = "(rstr, embedder_resource) fmap"
type_synonym context_table = "(rstr, named_context) fmap"

text \<open>The order in which a hash map yields its keys: each of them once.\<close>

definition table_order :: "(rstr set \<Rightarrow> rstr list) \<Rightarrow> bool" where
  "table_order ord \<longleftrightarrow> (\<forall>S. finite S \<longrightarrow> distinct (ord S) \<and> set (ord S) = S)"

definition table_entries :: "(rstr set \<Rightarrow> rstr list) \<Rightarrow> (rstr, 'v) fmap \<Rightarrow> (rstr \<times> 'v) list" where
  "table_entries ord m = map (\<lambda>k. (k, the (fmlookup m k))) (ord (fmdom' m))"

definition to_proxy_cache :: "context_cache \<Rightarrow> store_config" where
  "to_proxy_cache c = store_none\<lparr>ch_max_memory_mb := xc_max_memory_mb c, ch_eviction_policy := xc_eviction_policy c\<rparr>"

section \<open>Resolution\<close>

definition merged_endpoint :: "rstr \<Rightarrow> rstr \<Rightarrow> upstream_resource \<Rightarrow> context_leg \<Rightarrow> endpoint_config" where
  "merged_endpoint rid url res leg =
     \<lparr>ec_id = rid, ec_url = url, ec_timeout_secs = or_else (lg_timeout_secs leg) (ur_timeout_secs res),
      ec_weight = or_else (lg_weight leg) (ur_weight res),
      ec_priority = or_else (lg_priority leg) (ur_priority res),
      ec_max_concurrent = or_else (lg_max_concurrent leg) (ur_max_concurrent res),
      ec_enabled = or_else (lg_enabled leg) (ur_enabled res),
      ec_version_endpoint = or_else (lg_version_endpoint leg) (ur_version_endpoint res),
      ec_version_poll_interval_secs = or_else (lg_version_poll_interval_secs leg) (ur_version_poll_interval_secs res),
      ec_upstream_type = or_else (lg_upstream_type leg) (ur_upstream_type res),
      ec_query_mode = or_else (lg_query_mode leg) (ur_query_mode res),
      ec_table = or_else (lg_table leg) (ur_table res),
      ec_embedding_column = or_else (lg_embedding_column leg) (ur_embedding_column res),
      ec_content_column = or_else (lg_content_column leg) (ur_content_column res),
      ec_metadata_columns = unwrap_or (lg_metadata_columns leg) (ur_metadata_columns res),
      ec_distance_metric = or_else (lg_distance_metric leg) (ur_distance_metric res),
      ec_dimensions = or_else (lg_dimensions leg) (ur_dimensions res),
      ec_index = or_else (lg_index leg) (ur_index res),
      ec_search_fields = unwrap_or (lg_search_fields leg) (ur_search_fields res),
      ec_return_fields = unwrap_or (lg_return_fields leg) (ur_return_fields res),
      ec_api_key = or_else (lg_api_key leg) (ur_api_key res)\<rparr>"

definition resolve_leg :: "rstr \<Rightarrow> upstream_resource \<Rightarrow> context_leg \<Rightarrow> rstr + resolved_leg" where
  "resolve_leg rid res leg =
     (case or_else (lg_url leg) (ur_url res) of
        None \<Rightarrow> Inl (lit ''upstream resource '' @ quoted rid @ lit '': url required after leg merge'')
      | Some url \<Rightarrow>
          (let ep = merged_endpoint rid url res leg
           in case endpoint_validate ep of
                Inl e \<Rightarrow> Inl e
              | Inr _ \<Rightarrow> Inr \<lparr>rv_resource_id = rid, rv_endpoint = ep\<rparr>))"

definition resolve_embedder :: "rstr \<Rightarrow> embedder_resource \<Rightarrow> context_embedder \<Rightarrow> resolved_embedder" where
  "resolve_embedder rid res att =
     \<lparr>re_resource_id = rid, re_provider = or_else (cm_provider att) (er_provider res),
      re_model = or_else (cm_model att) (er_model res), re_api_key = or_else (cm_api_key att) (er_api_key res),
      re_base_url = or_else (cm_base_url att) (er_base_url res),
      re_batch_size = or_else (cm_batch_size att) (er_batch_size res)\<rparr>"

text \<open>Collecting results with the question mark: the first error, or all values.\<close>

fun collect :: "('a \<Rightarrow> 'e + 'b) \<Rightarrow> 'a list \<Rightarrow> 'e + 'b list" where
  "collect f [] = Inr []"
| "collect f (x # xs) =
     (case f x of
        Inl e \<Rightarrow> Inl e
      | Inr y \<Rightarrow> (case collect f xs of Inl e \<Rightarrow> Inl e | Inr ys \<Rightarrow> Inr (y # ys)))"

definition resolve_one_leg :: "upstream_table \<Rightarrow> rstr \<Rightarrow> context_leg \<Rightarrow> rstr + resolved_leg" where
  "resolve_one_leg upstreams cid leg =
     (case fmlookup upstreams (lg_resource_ref leg) of
        None \<Rightarrow> Inl (lit ''context '' @ quoted cid @ lit '': upstream ref '' @ quoted (lg_resource_ref leg)
                       @ lit '' not found in [upstreams]'')
      | Some res \<Rightarrow> resolve_leg (lg_resource_ref leg) res leg)"

definition resolve_context_embedder ::
  "embedder_table \<Rightarrow> rstr \<Rightarrow> context_embedder option \<Rightarrow> rstr + resolved_embedder option" where
  "resolve_context_embedder embedders cid att =
     (case att of
        None \<Rightarrow> Inr None
      | Some a \<Rightarrow>
          (case fmlookup embedders (cm_resource_ref a) of
             None \<Rightarrow> Inl (lit ''context '' @ quoted cid @ lit '': embedder ref '' @ quoted (cm_resource_ref a)
                            @ lit '' not found in [embedders]'')
           | Some res \<Rightarrow> Inr (Some (resolve_embedder (cm_resource_ref a) res a))))"

definition resolve_context ::
  "upstream_table \<Rightarrow> embedder_table \<Rightarrow> rstr \<times> named_context \<Rightarrow> rstr + resolved_ctx" where
  "resolve_context upstreams embedders x =
     (let (cid, ctx) = x
      in case collect (resolve_one_leg upstreams cid) (nc_upstreams ctx) of
           Inl e \<Rightarrow> Inl e
         | Inr legs \<Rightarrow>
             (case resolve_context_embedder embedders cid (nc_embedder ctx) of
                Inl e \<Rightarrow> Inl e
              | Inr emb \<Rightarrow>
                  Inr \<lparr>rx_id = cid, rx_is_default = unwrap_or (nc_default ctx) False,
                       rx_description = nc_description ctx, rx_legs = legs, rx_embedder = emb,
                       rx_cache = nc_cache ctx, rx_scope = nc_scope ctx, rx_cascade = nc_cascade ctx,
                       rx_federated = nc_federated ctx\<rparr>))"

definition resolve_all_contexts ::
  "(rstr set \<Rightarrow> rstr list) \<Rightarrow> upstream_table \<Rightarrow> embedder_table \<Rightarrow> context_table \<Rightarrow> rstr + resolved_ctx list" where
  "resolve_all_contexts ord upstreams embedders contexts =
     (if contexts = fmempty then Inr []
      else collect (resolve_context upstreams embedders) (table_entries ord contexts))"

section \<open>Validation of the tables\<close>

definition valid_url :: "rstr \<Rightarrow> bool" where
  "valid_url url \<longleftrightarrow>
     begins_with (lit ''http://'') url \<or> begins_with (lit ''https://'') url
     \<or> begins_with (lit ''postgres://'') url \<or> begins_with (lit ''postgresql://'') url"

definition url_error :: "rstr \<Rightarrow> rstr \<Rightarrow> rstr" where
  "url_error uid url =
     lit ''upstream '' @ quoted uid @ lit '': URL must start with http(s):// or postgres(ql)://, got '' @ quoted url"

definition validate_url :: "rstr \<Rightarrow> rstr \<Rightarrow> rstr + unit" where
  "validate_url uid url = check (valid_url url) (url_error uid url)"

definition prefix_error :: "rstr \<Rightarrow> rstr + unit \<Rightarrow> rstr + unit" where
  "prefix_error p r = (case r of Inl e \<Rightarrow> Inl (p @ e) | Inr _ \<Rightarrow> Inr ())"

text \<open>The endpoint that stands for a resource whose type is checked before any leg refers to it.\<close>

definition type_stub :: "rstr \<Rightarrow> upstream_resource \<Rightarrow> endpoint_config" where
  "type_stub name res =
     \<lparr>ec_id = name, ec_url = unwrap_or (ur_url res) (lit ''http://placeholder''),
      ec_timeout_secs = None, ec_weight = None, ec_priority = None, ec_max_concurrent = None,
      ec_enabled = None, ec_version_endpoint = None, ec_version_poll_interval_secs = None,
      ec_upstream_type = ur_upstream_type res, ec_query_mode = ur_query_mode res,
      ec_table = ur_table res, ec_embedding_column = None, ec_content_column = None,
      ec_metadata_columns = [], ec_distance_metric = ur_distance_metric res, ec_dimensions = None,
      ec_index = None, ec_search_fields = [], ec_return_fields = [], ec_api_key = None\<rparr>"

definition validate_resource :: "rstr \<times> upstream_resource \<Rightarrow> rstr + unit" where
  "validate_resource x =
     (let (name, res) = x
      in first_error
           [case ur_url res of Some url \<Rightarrow> validate_url name url | None \<Rightarrow> Inr (),
            if ur_upstream_type res \<noteq> None
            then prefix_error (lit ''upstreams.'' @ name @ lit '': '') (endpoint_validate (type_stub name res))
            else Inr ()])"

definition validate_embedder_resource :: "rstr \<times> embedder_resource \<Rightarrow> rstr + unit" where
  "validate_embedder_resource x =
     (let (name, emb) = x
      in check (er_provider emb \<noteq> Some []) (lit ''embedders.'' @ name @ lit '': provider must not be empty''))"

definition timeout_in_range :: "u64 option \<Rightarrow> bool" where
  "timeout_in_range t \<longleftrightarrow> optionally (\<lambda>s. 1 \<le> s \<and> s \<le> 300) t"

definition validate_leg :: "rstr \<Rightarrow> resolved_leg \<Rightarrow> rstr + unit" where
  "validate_leg cid leg =
     first_error
       [validate_url (rv_resource_id leg) (ec_url (rv_endpoint leg)),
        check (timeout_in_range (ec_timeout_secs (rv_endpoint leg)))
          (lit ''context '' @ quoted cid @ lit '': leg '' @ quoted (rv_resource_id leg)
           @ lit '': timeout_secs must be 1..=300, got ''
           @ nat_to_dec (unat (unwrap_or (ec_timeout_secs (rv_endpoint leg)) 0)))]"

definition validate_resolved :: "config_env \<Rightarrow> resolved_ctx \<Rightarrow> rstr + unit" where
  "validate_resolved E ctx =
     first_error
       ([check (rx_legs ctx \<noteq> [])
           (lit ''context '' @ quoted (rx_id ctx) @ lit '': at least one upstream leg required'')]
        @ map (validate_leg (rx_id ctx)) (rx_legs ctx)
        @ [prefix_error (lit ''context '' @ quoted (rx_id ctx) @ lit '': scope: '') (scope_validate E (rx_scope ctx)),
           check (xc_max_entries (rx_cache ctx) \<noteq> Some 0)
             (lit ''context '' @ quoted (rx_id ctx) @ lit '': cache.max_entries must be > 0'')])"

definition validate_agent :: "context_table \<Rightarrow> agent_config \<Rightarrow> rstr + unit" where
  "validate_agent contexts a =
     first_error
       ([check (ag_id a \<noteq> []) (lit ''agent id must not be empty'')]
        @ map (\<lambda>c. check (c |\<in>| fmdom contexts)
            (lit ''agent '' @ quoted (ag_id a) @ lit '': allowed_contexts entry '' @ quoted c
             @ lit '' not found in [contexts]'')) (ag_allowed_contexts a)
        @ [case ag_default_context a of
             Some dc \<Rightarrow> check (dc |\<in>| fmdom contexts)
               (lit ''agent '' @ quoted (ag_id a) @ lit '': default_context '' @ quoted dc
                @ lit '' not found in [contexts]'')
           | None \<Rightarrow> Inr ()])"

definition default_count :: "(rstr set \<Rightarrow> rstr list) \<Rightarrow> context_table \<Rightarrow> nat" where
  "default_count ord contexts =
     length (filter (\<lambda>(_, c). unwrap_or (nc_default c) False) (table_entries ord contexts))"

definition validate_context_rooted ::
  "config_env \<Rightarrow> (rstr set \<Rightarrow> rstr list) \<Rightarrow> upstream_table \<Rightarrow> embedder_table \<Rightarrow> context_table \<Rightarrow>
   agent_config list \<Rightarrow> rstr + unit" where
  "validate_context_rooted E ord upstreams embedders contexts agents =
     (if contexts = fmempty then Inr ()
      else first_error
        ([check (upstreams \<noteq> fmempty) (lit ''contexts defined but [upstreams] is empty''),
          check (default_count ord contexts \<noteq> 0) (lit ''contexts: exactly one context must have default = true''),
          check (default_count ord contexts \<le> 1) (lit ''contexts: only one context may have default = true'')]
         @ map validate_resource (table_entries ord upstreams)
         @ map validate_embedder_resource (table_entries ord embedders)
         @ (case resolve_all_contexts ord upstreams embedders contexts of
              Inl e \<Rightarrow> [Inl e]
            | Inr resolved \<Rightarrow> map (validate_resolved E) resolved)
         @ map (validate_agent contexts) agents))"

section \<open>Projection\<close>

definition pool_resource_ids :: "resolved_ctx list \<Rightarrow> rstr list" where
  "pool_resource_ids resolved =
     sort (remdups (map rv_resource_id (concat (map rx_legs resolved))))"

fun unique_legs :: "rstr set \<Rightarrow> resolved_leg list \<Rightarrow> endpoint_config list" where
  "unique_legs seen [] = []"
| "unique_legs seen (l # ls) =
     (if rv_resource_id l \<in> seen then unique_legs seen ls
      else rv_endpoint l # unique_legs (insert (rv_resource_id l) seen) ls)"

definition project_cache :: "context_cache \<Rightarrow> store_config \<Rightarrow> store_config" where
  "project_cache x c =
     (if xc_max_memory_mb x \<noteq> None \<or> xc_eviction_policy x \<noteq> None
      then c\<lparr>ch_max_memory_mb := or_else (xc_max_memory_mb x) (ch_max_memory_mb c),
             ch_eviction_policy := or_else (xc_eviction_policy x) (ch_eviction_policy c)\<rparr>
      else c)"

definition project_to_proxy :: "proxy_config \<Rightarrow> resolved_ctx list \<Rightarrow> rstr + proxy_config" where
  "project_to_proxy base resolved =
     (case (case find rx_is_default resolved of Some c \<Rightarrow> Some c | None \<Rightarrow> (case resolved of c # _ \<Rightarrow> Some c | [] \<Rightarrow> None)) of
        None \<Rightarrow> Inl (lit ''project_to_proxy: no resolved contexts'')
      | Some d \<Rightarrow>
          (let out = base\<lparr>px_scope := rx_scope d, px_cascade := rx_cascade d, px_federated := rx_federated d,
                          px_fresh_duration_secs := or_else (xc_fresh_secs (rx_cache d)) (px_fresh_duration_secs base),
                          px_stale_duration_secs := or_else (xc_stale_secs (rx_cache d)) (px_stale_duration_secs base),
                          px_max_entries := or_else (xc_max_entries (rx_cache d)) (px_max_entries base),
                          px_cache := project_cache (rx_cache d) (px_cache base)\<rparr>;
               ups = unique_legs {} (concat (map rx_legs resolved))
           in Inr (if ups \<noteq> [] then out\<lparr>px_upstreams := ups, px_upstream_url := None\<rparr> else out)))"

section \<open>Files\<close>

record package_entry =
  pk_git :: rstr
  pk_tag :: "rstr option"

text \<open>Of the removed table \<open>llm\<close> only its presence is kept.\<close>

record config_file =
  cg_llm :: bool
  cg_packages :: "(rstr, package_entry) fmap"
  cg_registries :: "(rstr, rstr) fmap"
  cg_search :: search_config
  cg_embedding :: embedding_config
  cg_web :: web_config
  cg_proxy :: proxy_config
  cg_context :: paths_config
  cg_server :: server_config
  cg_upstreams :: upstream_table
  cg_embedders :: embedder_table
  cg_contexts :: context_table
  cg_agents :: "agent_config list"

definition config_default :: config_file where
  "config_default =
     \<lparr>cg_llm = False, cg_packages = fmempty, cg_registries = fmempty, cg_search = search_none,
      cg_embedding = embedding_none, cg_web = web_none, cg_proxy = proxy_config_default, cg_context = paths_none,
      cg_server = server_none, cg_upstreams = fmempty, cg_embedders = fmempty, cg_contexts = fmempty,
      cg_agents = []\<rparr>"

definition fmap_or :: "('k, 'v) fmap \<Rightarrow> ('k, 'v) fmap \<Rightarrow> ('k, 'v) fmap" where
  "fmap_or m n = (if m = fmempty then n else m)"

text \<open>\<open>self.merge_with(other)\<close>: the other file overrides.\<close>

definition config_merge :: "config_file \<Rightarrow> config_file \<Rightarrow> config_file" where
  "config_merge g l =
     \<lparr>cg_llm = False, cg_packages = fmap_or (cg_packages l) (cg_packages g),
      cg_registries = cg_registries g ++\<^sub>f cg_registries l,
      cg_search = search_over (cg_search l) (cg_search g),
      cg_embedding = embedding_over (cg_embedding l) (cg_embedding g),
      cg_web = web_over (cg_web l) (cg_web g),
      cg_proxy = proxy_over (cg_proxy l) (cg_proxy g),
      cg_context = paths_over (cg_context l) (cg_context g),
      cg_server = server_over (cg_server l) (cg_server g),
      cg_upstreams = cg_upstreams g ++\<^sub>f cg_upstreams l,
      cg_embedders = cg_embedders g ++\<^sub>f cg_embedders l,
      cg_contexts = fmap_or (cg_contexts l) (cg_contexts g),
      cg_agents = list_or (cg_agents l) (cg_agents g)\<rparr>"

definition endpoint_checks :: "endpoint_config \<Rightarrow> rstr + unit" where
  "endpoint_checks u =
     first_error
       [endpoint_validate u, check (valid_url (ec_url u)) (url_error (ec_id u) (ec_url u)),
        check (timeout_in_range (ec_timeout_secs u))
          (lit ''upstream '' @ quoted (ec_id u) @ lit '': timeout_secs must be 1..=300, got ''
           @ nat_to_dec (unat (unwrap_or (ec_timeout_secs u) 0)))]"

definition http_url :: "rstr \<Rightarrow> bool" where
  "http_url s \<longleftrightarrow> begins_with (lit ''http://'') s \<or> begins_with (lit ''https://'') s"

definition proxy_checks :: "config_env \<Rightarrow> proxy_config \<Rightarrow> (rstr + unit) list" where
  "proxy_checks E p =
     map endpoint_checks (px_upstreams p)
     @ [check (optionally http_url (px_upstream_url p))
          (lit ''proxy.upstream_url: must start with http(s)://, got '' @ quoted (unwrap_or (px_upstream_url p) [])),
        check (timeout_in_range (px_upstream_timeout_secs p))
          (lit ''proxy.upstream_timeout_secs must be 1..=300, got ''
           @ nat_to_dec (unat (unwrap_or (px_upstream_timeout_secs p) 0))),
        check (px_max_entries p \<noteq> Some 0) (lit ''proxy.max_entries must be > 0''),
        check (1 \<le> cn_max_connections (px_pool p) \<and> cn_max_connections (px_pool p) \<le> 10000)
          (lit ''proxy.pool.max_connections must be 1..=10000, got '' @ nat_to_dec (cn_max_connections (px_pool p))),
        check (tn_listen_backlog (px_socket_tuning p) \<le> 65535)
          (lit ''proxy.socket_tuning.listen_backlog must be <= 65535, got ''
           @ nat_to_dec (unat (tn_listen_backlog (px_socket_tuning p)))),
        check (px_fresh_duration_secs p \<noteq> Some 0) (lit ''proxy.fresh_duration_secs must be > 0''),
        check (px_stale_duration_secs p \<noteq> Some 0) (lit ''proxy.stale_duration_secs must be > 0''),
        check (px_refresh_interval_secs p \<noteq> Some 0) (lit ''proxy.refresh_interval_secs must be > 0''),
        distill_validate (px_distill p), federated_validate E (px_federated p), scope_validate E (px_scope p),
        rate_limit_validate (px_rate_limit p), retry_validate (px_retry p), store_validate E (px_cache p),
        security_validate (px_security p), breaker_validate (px_circuit_breaker p)]"

definition llm_removed :: rstr where
  "llm_removed =
     lit ''[llm] / [[llm.providers]] removed (plan 01). Use an external gateway (e.g. LiteLLM) for provider proxy/routing. conproxy owns search cache and distill only.''"

definition config_validate :: "config_env \<Rightarrow> (rstr set \<Rightarrow> rstr list) \<Rightarrow> config_file \<Rightarrow> rstr + unit" where
  "config_validate E ord cf =
     first_error
       ([check (\<not> cg_llm cf) llm_removed] @ proxy_checks E (cg_proxy cf)
        @ [validate_context_rooted E ord (cg_upstreams cf) (cg_embedders cf) (cg_contexts cf)
             (if cg_agents cf = [] then px_agents (cg_proxy cf) else cg_agents cf)])"

definition is_context_rooted :: "config_file \<Rightarrow> bool" where
  "is_context_rooted cf \<longleftrightarrow> cg_contexts cf \<noteq> fmempty"

definition effective_scope_seeds :: "(rstr set \<Rightarrow> rstr list) \<Rightarrow> config_file \<Rightarrow> rstr list" where
  "effective_scope_seeds ord cf =
     (case find (\<lambda>(_, c). nc_default c = Some True) (table_entries ord (cg_contexts cf)) of
        Some (_, c) \<Rightarrow> phrase_texts (nc_scope c)
      | None \<Rightarrow> phrase_texts (px_scope (cg_proxy cf)))"

definition resolve_contexts :: "(rstr set \<Rightarrow> rstr list) \<Rightarrow> config_file \<Rightarrow> rstr + resolved_ctx list" where
  "resolve_contexts ord cf = resolve_all_contexts ord (cg_upstreams cf) (cg_embedders cf) (cg_contexts cf)"

definition effective_proxy :: "(rstr set \<Rightarrow> rstr list) \<Rightarrow> config_file \<Rightarrow> rstr + proxy_config" where
  "effective_proxy ord cf =
     (let base0 = snd (normalize_upstreams (cg_proxy cf));
          base = base0\<lparr>px_listen := or_else (sv_listen (cg_server cf)) (px_listen base0),
                       px_http_listen := or_else (sv_http_listen (cg_server cf)) (px_http_listen base0)\<rparr>
      in case resolve_contexts ord cf of
           Inl e \<Rightarrow> Inl e
         | Inr resolved \<Rightarrow>
             (case project_to_proxy base resolved of
                Inl e \<Rightarrow> Inl e
              | Inr p \<Rightarrow> Inr (if cg_agents cf \<noteq> [] then p\<lparr>px_agents := cg_agents cf\<rparr> else p)))"

text \<open>\<open>Config::load\<close>, from the parsed contents of the global and the local file.\<close>

definition config_load ::
  "config_env \<Rightarrow> (rstr set \<Rightarrow> rstr list) \<Rightarrow> config_file option \<Rightarrow> config_file option \<Rightarrow> rstr + config_file" where
  "config_load E ord global local =
     (let merged = (case (global, local) of
                      (Some g, Some l) \<Rightarrow> config_merge g l
                    | (Some g, None) \<Rightarrow> g
                    | (None, Some l) \<Rightarrow> l
                    | (None, None) \<Rightarrow> config_default)
      in case config_validate E ord merged of Inl e \<Rightarrow> Inl e | Inr _ \<Rightarrow> Inr merged)"

end
