(* ===== verification/ConfigLaws.thy ===== *)
theory ConfigLaws
  imports ConfigFile
begin

text \<open>
  What the configuration guarantees to the parts of the proxy that are built from it: the order of files,
  what validation rules out, the projection of the context-rooted tables, and the overrides by
  environment variables.
\<close>

section \<open>Merging files\<close>

lemma fmap_or_simps [simp]: "fmap_or (fmap_or a b) c = fmap_or a (fmap_or b c)" "fmap_or a fmempty = a"
  "fmap_or fmempty b = b"
  by (simp_all add: fmap_or_def)

text \<open>C25. Files can be merged in any grouping, and a file over an empty global file is that file (without the
  removed table). An empty local file, however, does not leave a global file as it is: the cascade, the
  connection pool, the circuit breaker and the socket options fall back to the built-in defaults.\<close>

theorem config_merge_laws:
  "config_merge (config_merge a b) c = config_merge a (config_merge b c)
   \<and> config_merge config_default a = a\<lparr>cg_llm := False\<rparr>
   \<and> config_merge a config_default =
       a\<lparr>cg_llm := False, cg_proxy := (cg_proxy a)\<lparr>px_cascade := cascade_config_default,
           px_pool := conn_config_default, px_circuit_breaker := breaker_config_default,
           px_socket_tuning := socket_tuning_default\<rparr>\<rparr>"
proof (intro conjI)
  show "config_merge (config_merge a b) c = config_merge a (config_merge b c)"
    by (simp add: config_merge_def proxy_over_assoc)
  show "config_merge config_default a = a\<lparr>cg_llm := False\<rparr>"
    by (simp add: config_merge_def config_default_def proxy_over_default)
  show "config_merge a config_default =
       a\<lparr>cg_llm := False, cg_proxy := (cg_proxy a)\<lparr>px_cascade := cascade_config_default,
           px_pool := conn_config_default, px_circuit_breaker := breaker_config_default,
           px_socket_tuning := socket_tuning_default\<rparr>\<rparr>"
    by (simp add: config_merge_def config_default_def default_over_proxy)
qed

section \<open>What validation guarantees\<close>

lemma load_validates: "config_load E ord g l = Inr cf \<Longrightarrow> config_validate E ord cf = Inr ()"
  by (auto simp: config_load_def Let_def split: sum.splits)

lemma validated_parts:
  assumes "config_validate E ord cf = Inr ()"
  shows "\<not> cg_llm cf" and "\<forall>c \<in> set (proxy_checks E (cg_proxy cf)). c = Inr ()"
    and "validate_context_rooted E ord (cg_upstreams cf) (cg_embedders cf) (cg_contexts cf)
      (if cg_agents cf = [] then px_agents (cg_proxy cf) else cg_agents cf) = Inr ()"
  using assms by (simp_all add: config_validate_def validity)

lemma unwrap_or_neq: "v \<noteq> Some x \<Longrightarrow> d \<noteq> x \<Longrightarrow> unwrap_or v d \<noteq> x"
  by (auto simp: unwrap_or_def split: option.splits)

lemma fresh_limiter_grants:
  assumes "burst \<noteq> 0"
  shows "fst (try_acquire now (limiter_new now rps burst))"
proof -
  have "\<not> from_millis 1 \<le> (0 :: duration)" by (simp add: from_millis_def nanos_per_milli_def)
  then have "rl_tokens (limiter_refill now (limiter_new now rps burst)) = sat_mul (ucast burst) 1000"
    by (simp add: limiter_refill_def limiter_new_def)
  moreover have "\<not> sat_mul (ucast burst) 1000 < (1000 :: u64)"
    using assms by (simp add: word_less_nat_alt capacity_tokens unat_gt_0 not_less)
  ultimately show ?thesis by (simp add: try_acquire_def Let_def)
qed

lemma open_breaker_rejects:
  assumes "0 < open_duration cfg"
  shows "\<not> fst (circuit_allow_request t (circuit_trip t (circuit_new now cfg)))"
  using assms by (simp add: circuit_allow_request_def circuit_trip_def circuit_open_def circuit_new_def
      circuit_maybe_transition_def circuit_from_u8_def Let_def)

text \<open>What the validation of the section \<open>proxy\<close> gives: upstreams with a URL of a known scheme and a timeout between 1 and 300 seconds, a cache
  with room and positive times, and parts that work when they are built from it.\<close>

lemma loaded_section_usable:
  assumes "config_load E ord global local = Inr cf"
  shows "let p = cg_proxy cf; rl = px_rate_limit p; cb = to_circuit_breaker_config (px_circuit_breaker p)
    in (\<forall>u \<in> set (px_upstreams p). valid_url (ec_url u) \<and> endpoint_validate u = Inr ()
          \<and> 1 \<le> endpoint_timeout_secs u \<and> endpoint_timeout_secs u \<le> 300)
       \<and> px_max_entries p \<noteq> Some 0 \<and> px_fresh_duration_secs p \<noteq> Some 0 \<and> px_stale_duration_secs p \<noteq> Some 0
       \<and> fst (try_acquire now (limiter_new now (rate_limit_requests_per_second rl) (rate_limit_burst_size rl)))
       \<and> fst (acquire_try (conn_pool_new (px_pool p)))
       \<and> 0 < failure_threshold cb \<and> 0 < success_threshold cb
       \<and> \<not> fst (circuit_allow_request now (circuit_trip now (circuit_new now cb)))"
proof -
  let ?p = "cg_proxy cf"
  have checks: "\<forall>c \<in> set (proxy_checks E ?p). c = Inr ()"
    using validated_parts(2) [OF load_validates [OF assms]] .
  have ups: "valid_url (ec_url u) \<and> endpoint_validate u = Inr ()
      \<and> 1 \<le> endpoint_timeout_secs u \<and> endpoint_timeout_secs u \<le> 300" if "u \<in> set (px_upstreams ?p)" for u
  proof -
    have "endpoint_checks u = Inr ()" using checks that by (simp add: proxy_checks_def)
    then show ?thesis
      by (auto simp: endpoint_checks_def validity timeout_in_range_def optionally_def endpoint_timeout_secs_def
          split: option.splits)
  qed
  have set: "px_max_entries ?p \<noteq> Some 0" "px_fresh_duration_secs ?p \<noteq> Some 0" "px_stale_duration_secs ?p \<noteq> Some 0"
    "1 \<le> cn_max_connections (px_pool ?p)" "rate_limit_validate (px_rate_limit ?p) = Inr ()"
    "breaker_validate (px_circuit_breaker ?p) = Inr ()"
    using checks by (simp_all add: proxy_checks_def validity)
  have lim: "fst (try_acquire now (limiter_new now rps (rate_limit_burst_size (px_rate_limit ?p))))" for rps
    using set(5) by (intro fresh_limiter_grants) (simp add: rate_limit_burst_size_def rate_limit_validate_def validity unwrap_or_neq)
  have pool: "fst (acquire_try (conn_pool_new (px_pool ?p)))"
    using set(4) by (simp add: acquire_try_def conn_pool_new_def try_permit_def on_conn_stats_def Let_def)
  have brk: "0 < bk_failure_threshold (px_circuit_breaker ?p)" "0 < bk_success_threshold (px_circuit_breaker ?p)"
    "0 < bk_open_duration_secs (px_circuit_breaker ?p)"
    using set(6) by (simp_all add: breaker_validate_def validity word_neq_0_conv)
  have "0 < open_duration (to_circuit_breaker_config (px_circuit_breaker ?p))"
    using brk(3) by (simp add: to_circuit_breaker_config_def from_secs_def nanos_per_sec_def unat_gt_0 word_neq_0_conv)
  note rej = open_breaker_rejects [OF this]
  show ?thesis using ups set(1-3) lim pool brk rej unfolding Let_def
    by (intro conjI) (simp_all add: to_circuit_breaker_config_def)
qed

section \<open>Context-rooted files\<close>

lemma collect_Inr: "collect f xs = Inr ys \<longleftrightarrow> list_all2 (\<lambda>x y. f x = Inr y) xs ys"
proof (induction xs arbitrary: ys)
  case (Cons x xs)
  show ?case
  proof (cases "f x")
    case (Inr y)
    show ?thesis
    proof (cases "collect f xs")
      case (Inl e)
      then have "\<not> list_all2 (\<lambda>x y. f x = Inr y) xs zs" for zs using Cons.IH [of zs] by simp
      with Inr Inl show ?thesis by (auto simp: list_all2_Cons1)
    next
      case c: (Inr zs)
      then have "list_all2 (\<lambda>x y. f x = Inr y) xs us \<longleftrightarrow> us = zs" for us using Cons.IH [of us] by auto
      with Inr c show ?thesis by (auto simp: list_all2_Cons1)
    qed
  qed (simp add: list_all2_Cons1)
qed auto

lemma list_all2_sets:
  assumes "list_all2 P xs ys"
  shows "y \<in> set ys \<Longrightarrow> \<exists>x \<in> set xs. P x y" and "x \<in> set xs \<Longrightarrow> \<exists>y \<in> set ys. P x y"
  using assms by (induction xs ys rule: list_all2_induct) auto

lemma set_table_entries:
  "table_order ord \<Longrightarrow> set (table_entries ord m) = {(k, v). fmlookup m k = Some v}"
  by (auto simp: table_order_def table_entries_def fmlookup_dom'_iff image_iff finite_fmdom')

lemma resolved_leg_id: "resolve_one_leg us cid leg = Inr l \<Longrightarrow>
  rv_resource_id l = lg_resource_ref leg \<and> ec_id (rv_endpoint l) = lg_resource_ref leg"
  by (auto simp: resolve_one_leg_def resolve_leg_def merged_endpoint_def Let_def split: option.splits sum.splits)

lemma collected_leg_ids:
  "list_all2 (\<lambda>leg l. resolve_one_leg us cid leg = Inr l) legs ls \<Longrightarrow>
     map rv_resource_id ls = map lg_resource_ref legs \<and> (\<forall>l \<in> set ls. ec_id (rv_endpoint l) = rv_resource_id l)"
  by (induction legs ls rule: list_all2_induct) (auto dest: resolved_leg_id)

lemma resolved_context_parts:
  assumes "resolve_context us es (cid, c) = Inr r"
  shows "rx_is_default r = unwrap_or (nc_default c) False" and "rx_scope r = nc_scope c"
    and "rx_cascade r = nc_cascade c" and "map rv_resource_id (rx_legs r) = map lg_resource_ref (nc_upstreams c)"
    and "\<forall>l \<in> set (rx_legs r). ec_id (rv_endpoint l) = rv_resource_id l"
  using assms by (auto simp: resolve_context_def collect_Inr dest: collected_leg_ids split: sum.splits)

lemma unique_legs_ids:
  assumes "\<forall>l \<in> set ls. ec_id (rv_endpoint l) = rv_resource_id l"
  shows "distinct (map ec_id (unique_legs seen ls))
    \<and> set (map ec_id (unique_legs seen ls)) = rv_resource_id ` set ls - seen"
  using assms by (induction seen ls rule: unique_legs.induct) auto

lemma validated_tables:
  assumes "validate_context_rooted E ord us es cs agents = Inr ()" and "cs \<noteq> fmempty"
  obtains resolved where "resolve_all_contexts ord us es cs = Inr resolved"
    and "\<exists>x \<in> set (table_entries ord cs). nc_default (snd x) = Some True"
    and "\<forall>r \<in> set resolved. rx_legs r \<noteq> []"
proof -
  have f: "default_count ord cs \<noteq> 0" "\<forall>c \<in> set (case resolve_all_contexts ord us es cs of
        Inl e \<Rightarrow> [Inl e] | Inr resolved \<Rightarrow> map (validate_resolved E) resolved). c = Inr ()"
    using assms by (auto simp: validate_context_rooted_def validity)
  then obtain resolved where r: "resolve_all_contexts ord us es cs = Inr resolved"
    by (cases "resolve_all_contexts ord us es cs") auto
  then have "\<forall>r \<in> set resolved. rx_legs r \<noteq> []"
    using f(2) by (auto simp: validate_resolved_def validity)
  moreover have "\<exists>x \<in> set (table_entries ord cs). nc_default (snd x) = Some True"
    using f(1) by (force simp: default_count_def filter_empty_conv unwrap_or_def split: option.splits prod.splits)
  ultimately show thesis using that r by blast
qed

text \<open>C27. A file with contexts that loads can be run: the projection succeeds whatever the order of the
  tables, takes its policy from a context marked as default, and gives the pool each upstream resource
  that some context refers to exactly once.\<close>

theorem context_rooted_projection:
  assumes "config_load E ord global local = Inr cf" and "is_context_rooted cf" and "table_order ord"
  shows "\<exists>p cid d. effective_proxy ord cf = Inr p \<and> fmlookup (cg_contexts cf) cid = Some d
    \<and> nc_default d = Some True \<and> px_scope p = nc_scope d \<and> px_cascade p = nc_cascade d
    \<and> px_upstream_url p = None \<and> distinct (map ec_id (px_upstreams p))
    \<and> set (map ec_id (px_upstreams p)) =
        {lg_resource_ref leg | leg k c. fmlookup (cg_contexts cf) k = Some c \<and> leg \<in> set (nc_upstreams c)}"
proof -
  let ?cs = "cg_contexts cf"
  have ne: "?cs \<noteq> fmempty" using assms(2) by (simp add: is_context_rooted_def)
  obtain resolved where r: "resolve_contexts ord cf = Inr resolved"
    and dflt: "\<exists>x \<in> set (table_entries ord ?cs). nc_default (snd x) = Some True"
    and legs: "\<forall>r \<in> set resolved. rx_legs r \<noteq> []"
    using validated_tables [OF validated_parts(3) [OF load_validates [OF assms(1)]] ne]
    by (metis resolve_contexts_def)
  have entries: "set (table_entries ord ?cs) = {(k, v). fmlookup ?cs k = Some v}"
    by (rule set_table_entries [OF assms(3)])
  have all2: "list_all2 (\<lambda>x y. resolve_context (cg_upstreams cf) (cg_embedders cf) x = Inr y)
      (table_entries ord ?cs) resolved"
    using r ne by (simp add: resolve_contexts_def resolve_all_contexts_def collect_Inr)
  have origin: "\<exists>k c. fmlookup ?cs k = Some c \<and> resolve_context (cg_upstreams cf) (cg_embedders cf) (k, c) = Inr y"
    if "y \<in> set resolved" for y
    using list_all2_sets(1) [OF all2 that] entries by auto
  have present: "\<exists>y \<in> set resolved. resolve_context (cg_upstreams cf) (cg_embedders cf) (k, c) = Inr y"
    if "fmlookup ?cs k = Some c" for k c
    using list_all2_sets(2) [OF all2, of "(k, c)"] that entries by simp
  obtain k d where kd: "fmlookup ?cs k = Some d" "nc_default d = Some True" using dflt entries by auto
  then obtain y where "y \<in> set resolved" "rx_is_default y"
    using present [OF kd(1)] resolved_context_parts(1) by (fastforce simp: unwrap_or_def)
  then obtain x where x: "find rx_is_default resolved = Some x" by (cases "find rx_is_default resolved") (auto simp: find_None_iff)
  then have xd: "x \<in> set resolved" "rx_is_default x" by (auto simp: find_Some_iff)
  then obtain cid dd where dd: "fmlookup ?cs cid = Some dd" "nc_default dd = Some True"
    "rx_scope x = nc_scope dd" "rx_cascade x = nc_cascade dd"
    using origin [of x] resolved_context_parts by (fastforce simp: unwrap_or_def split: option.splits)
  let ?legs = "concat (map rx_legs resolved)"
  have ids: "\<forall>l \<in> set ?legs. ec_id (rv_endpoint l) = rv_resource_id l"
    using origin resolved_context_parts(5) by fastforce
  have refs: "rv_resource_id ` set ?legs =
      {lg_resource_ref leg | leg k c. fmlookup ?cs k = Some c \<and> leg \<in> set (nc_upstreams c)}" (is "_ = ?refs")
  proof (intro equalityI subsetI)
    fix i assume "i \<in> rv_resource_id ` set ?legs"
    then obtain y where y: "y \<in> set resolved" "i \<in> set (map rv_resource_id (rx_legs y))" by auto
    with origin [OF y(1)] resolved_context_parts(4) show "i \<in> ?refs" by fastforce
  next
    fix i assume "i \<in> ?refs"
    then obtain k c where c: "fmlookup ?cs k = Some c" "i \<in> set (map lg_resource_ref (nc_upstreams c))" by auto
    obtain y where "y \<in> set resolved" "i \<in> set (map rv_resource_id (rx_legs y))"
      using present [OF c(1)] resolved_context_parts(4) c(2) by metis
    then show "i \<in> rv_resource_id ` set ?legs" by auto
  qed
  have "?legs \<noteq> []" using legs xd(1) by auto
  then have "unique_legs {} ?legs \<noteq> []" by (cases ?legs) auto
  then obtain p where p: "effective_proxy ord cf = Inr p" "px_scope p = rx_scope x" "px_cascade p = rx_cascade x"
    "px_upstream_url p = None" "px_upstreams p = unique_legs {} ?legs"
    using r x by (simp add: effective_proxy_def project_to_proxy_def Let_def)
  show ?thesis
    using p dd refs unique_legs_ids [OF ids, of "{}"] by (intro exI [of _ p] exI [of _ cid] exI [of _ dd]) simp
qed

lemma resolved_leg_valid: "resolve_one_leg us cid leg = Inr l \<Longrightarrow> endpoint_validate (rv_endpoint l) = Inr ()"
  by (auto simp: resolve_one_leg_def resolve_leg_def Let_def split: option.splits sum.splits)

lemma loaded_resolved:
  assumes "config_load E ord global local = Inr cf" and "is_context_rooted cf" and "table_order ord" and "table_order ord'"
    and "resolve_contexts ord' cf = Inr resolved"
  shows "\<forall>r \<in> set resolved. validate_resolved E r = Inr () \<and> (\<forall>l \<in> set (rx_legs r). endpoint_validate (rv_endpoint l) = Inr ())"
    and "\<exists>x cid d. find rx_is_default resolved = Some x \<and> x \<in> set resolved \<and> fmlookup (cg_contexts cf) cid = Some d
      \<and> nc_default d = Some True \<and> rx_cache x = nc_cache d"
proof -
  let ?cs = "cg_contexts cf" and ?res = "resolve_context (cg_upstreams cf) (cg_embedders cf)"
  have ne: "?cs \<noteq> fmempty" using assms(2) by (simp add: is_context_rooted_def)
  have entries: "set (table_entries o' ?cs) = {(k, v). fmlookup ?cs k = Some v}" if "table_order o'" for o'
    by (rule set_table_entries [OF that])
  note v = validated_parts(3) [OF load_validates [OF assms(1)]]
  obtain rs where rs: "resolve_all_contexts ord (cg_upstreams cf) (cg_embedders cf) ?cs = Inr rs"
    and dflt: "\<exists>x \<in> set (table_entries ord ?cs). nc_default (snd x) = Some True"
    using validated_tables [OF v ne] by metis
  have ok: "\<forall>r \<in> set rs. validate_resolved E r = Inr ()" using v ne rs by (simp add: validate_context_rooted_def validity)
  have all: "list_all2 (\<lambda>x y. ?res x = Inr y) (table_entries ord ?cs) rs" "list_all2 (\<lambda>x y. ?res x = Inr y) (table_entries ord' ?cs) resolved"
    using rs assms(5) ne by (simp_all add: resolve_contexts_def resolve_all_contexts_def collect_Inr)
  have legs: "endpoint_validate (rv_endpoint l) = Inr ()" if "?res (k, c) = Inr r" "l \<in> set (rx_legs r)" for k c r l
  proof -
    have "list_all2 (\<lambda>leg l. resolve_one_leg (cg_upstreams cf) k leg = Inr l) (nc_upstreams c) (rx_legs r)"
      using that(1) by (auto simp: resolve_context_def collect_Inr split: sum.splits)
    from list_all2_sets(1) [OF this that(2)] show ?thesis using resolved_leg_valid by blast
  qed
  show "\<forall>r \<in> set resolved. validate_resolved E r = Inr () \<and> (\<forall>l \<in> set (rx_legs r). endpoint_validate (rv_endpoint l) = Inr ())"
  proof
    fix r assume "r \<in> set resolved"
    then obtain k c where kc: "fmlookup ?cs k = Some c" "?res (k, c) = Inr r"
      using list_all2_sets(1) [OF all(2)] entries [OF assms(4)] by fastforce
    then have "r \<in> set rs" using list_all2_sets(2) [OF all(1), of "(k, c)"] entries [OF assms(3)] by auto
    then show "validate_resolved E r = Inr () \<and> (\<forall>l \<in> set (rx_legs r). endpoint_validate (rv_endpoint l) = Inr ())"
      using ok legs [OF kc(2)] by blast
  qed
  obtain k d where kd: "fmlookup ?cs k = Some d" "nc_default d = Some True" using dflt entries [OF assms(3)] by auto
  then obtain y where "y \<in> set resolved" "?res (k, d) = Inr y"
    using list_all2_sets(2) [OF all(2), of "(k, d)"] entries [OF assms(4)] by auto
  then have "y \<in> set resolved" "rx_is_default y" using resolved_context_parts(1) kd(2) by (fastforce simp: unwrap_or_def)+
  then obtain x where x: "find rx_is_default resolved = Some x" by (cases "find rx_is_default resolved") (auto simp: find_None_iff)
  then have xd: "x \<in> set resolved" "rx_is_default x" by (auto simp: find_Some_iff)
  then obtain cid dd where dd: "fmlookup ?cs cid = Some dd" "?res (cid, dd) = Inr x"
    using list_all2_sets(1) [OF all(2)] entries [OF assms(4)] by fastforce
  then have "nc_default dd = Some True" "rx_cache x = nc_cache dd"
    using resolved_context_parts(1) [OF dd(2)] xd(2) by (auto simp: unwrap_or_def resolve_context_def split: option.splits sum.splits)
  then show "\<exists>x cid d. find rx_is_default resolved = Some x \<and> x \<in> set resolved \<and> fmlookup ?cs cid = Some d
      \<and> nc_default d = Some True \<and> rx_cache x = nc_cache d" using x xd(1) dd(1) by blast
qed

lemma unique_legs_subset: "u \<in> set (unique_legs seen ls) \<Longrightarrow> \<exists>l \<in> set ls. u = rv_endpoint l"
  by (induction seen ls rule: unique_legs.induct) (auto split: if_splits)

text \<open>C26. The configuration that runs is usable: when a file with contexts loads, the proxy configuration projected from it, whatever the
  order of the tables, has at least one upstream, and every upstream in it has a URL of a known scheme, a timeout between 1 and 300 seconds,
  a type and a query mode that are unset or known ones, and a table when it is a pgvector upstream; the cache has
  room; and the parts built from it work: a new rate limiter lets a first request through, a new connection pool gives
  out a connection, and a breaker that has just opened refuses requests and needs at least one failure to open and one
  success to close. The lifetimes of the cache are not checked in contexts: the fresh time that runs is zero exactly when the default
  context sets it to zero, and so is the stale time.\<close>

theorem projected_config_usable:
  assumes "config_load E ord global local = Inr cf" and "table_order ord" and "table_order ord'" and "effective_proxy ord' cf = Inr p"
  shows "let rl = px_rate_limit p; cb = to_circuit_breaker_config (px_circuit_breaker p)
    in px_upstreams p \<noteq> []
       \<and> (\<forall>u \<in> set (px_upstreams p). valid_url (ec_url u) \<and> 1 \<le> endpoint_timeout_secs u \<and> endpoint_timeout_secs u \<le> 300
            \<and> (\<forall>ty. ec_upstream_type u = Some ty \<longrightarrow> ty \<in> set valid_upstream_types)
            \<and> (\<forall>m. ec_query_mode u = Some m \<longrightarrow> m \<in> set valid_query_modes) \<and> (is_pgvector u \<longrightarrow> ec_table u \<noteq> None))
       \<and> proxy_max_entries p \<noteq> 0
       \<and> fst (try_acquire now (limiter_new now (rate_limit_requests_per_second rl) (rate_limit_burst_size rl)))
       \<and> fst (acquire_try (conn_pool_new (px_pool p)))
       \<and> 0 < failure_threshold cb \<and> 0 < success_threshold cb
       \<and> \<not> fst (circuit_allow_request now (circuit_trip now (circuit_new now cb)))
       \<and> (\<exists>cid d. fmlookup (cg_contexts cf) cid = Some d \<and> nc_default d = Some True
            \<and> (proxy_fresh_duration_secs p = 0 \<longleftrightarrow> xc_fresh_secs (nc_cache d) = Some 0)
            \<and> (proxy_stale_duration_secs p = 0 \<longleftrightarrow> xc_stale_secs (nc_cache d) = Some 0))"
proof -
  let ?q = "cg_proxy cf"
  have rooted: "is_context_rooted cf"
    using assms(4) by (auto simp: is_context_rooted_def effective_proxy_def resolve_contexts_def resolve_all_contexts_def project_to_proxy_def Let_def)
  obtain rs where rs: "resolve_contexts ord' cf = Inr rs"
    using assms(4) by (cases "resolve_contexts ord' cf") (auto simp: effective_proxy_def Let_def)
  note ok = loaded_resolved [OF assms(1) rooted assms(2,3) rs]
  obtain x cid d where x: "find rx_is_default rs = Some x" "x \<in> set rs" "fmlookup (cg_contexts cf) cid = Some d" "nc_default d = Some True"
    "rx_cache x = nc_cache d" using ok(2) by blast
  have valid: "rx_legs r \<noteq> []" "\<forall>l \<in> set (rx_legs r). validate_leg (rx_id r) l = Inr ()" "xc_max_entries (rx_cache r) \<noteq> Some 0"
    if "r \<in> set rs" for r
    using ok(1) that by (auto simp: validate_resolved_def validity)
  let ?legs = "concat (map rx_legs rs)"
  have "?legs \<noteq> []" using valid(1) [OF x(2)] x(2) by auto
  then have ne: "unique_legs {} ?legs \<noteq> []" by (cases ?legs) auto
  have kept: "px_rate_limit (snd (normalize_upstreams ?q)) = px_rate_limit ?q" "px_pool (snd (normalize_upstreams ?q)) = px_pool ?q"
    "px_circuit_breaker (snd (normalize_upstreams ?q)) = px_circuit_breaker ?q" "px_max_entries (snd (normalize_upstreams ?q)) = px_max_entries ?q"
    "px_fresh_duration_secs (snd (normalize_upstreams ?q)) = px_fresh_duration_secs ?q"
    "px_stale_duration_secs (snd (normalize_upstreams ?q)) = px_stale_duration_secs ?q"
    by (simp_all add: normalize_upstreams_def split: option.split)
  have p: "px_upstreams p = unique_legs {} ?legs" "px_rate_limit p = px_rate_limit ?q" "px_pool p = px_pool ?q"
    "px_circuit_breaker p = px_circuit_breaker ?q" "px_max_entries p = or_else (xc_max_entries (nc_cache d)) (px_max_entries ?q)"
    "px_fresh_duration_secs p = or_else (xc_fresh_secs (nc_cache d)) (px_fresh_duration_secs ?q)"
    "px_stale_duration_secs p = or_else (xc_stale_secs (nc_cache d)) (px_stale_duration_secs ?q)"
    using assms(4) rs x(1,5) ne kept by (auto simp: effective_proxy_def project_to_proxy_def Let_def split: if_splits)
  have ups: "valid_url (ec_url u) \<and> 1 \<le> endpoint_timeout_secs u \<and> endpoint_timeout_secs u \<le> 300
      \<and> (\<forall>ty. ec_upstream_type u = Some ty \<longrightarrow> ty \<in> set valid_upstream_types)
      \<and> (\<forall>m. ec_query_mode u = Some m \<longrightarrow> m \<in> set valid_query_modes) \<and> (is_pgvector u \<longrightarrow> ec_table u \<noteq> None)"
    if u: "u \<in> set (px_upstreams p)" for u
  proof -
    obtain r l where l: "r \<in> set rs" "l \<in> set (rx_legs r)" "u = rv_endpoint l" using unique_legs_subset u unfolding p(1) by fastforce
    have "validate_leg (rx_id r) l = Inr ()" "endpoint_validate u = Inr ()" using l valid(2) ok(1) by blast+
    then show ?thesis
      by (auto simp: l(3) validate_leg_def validate_url_def validity timeout_in_range_def optionally_def endpoint_timeout_secs_def
          endpoint_validate_def Let_def split: option.splits if_splits)
  qed
  have "proxy_max_entries p \<noteq> 0" "proxy_fresh_duration_secs p = 0 \<longleftrightarrow> xc_fresh_secs (nc_cache d) = Some 0"
    "proxy_stale_duration_secs p = 0 \<longleftrightarrow> xc_stale_secs (nc_cache d) = Some 0"
    using loaded_section_usable [OF assms(1), where now = now] valid(3) [OF x(2)] x(5)
    by (auto simp: p proxy_max_entries_def proxy_fresh_duration_secs_def proxy_stale_duration_secs_def or_else_Some unwrap_or_def Let_def
        split: option.splits)
  then show ?thesis using loaded_section_usable [OF assms(1), where now = now] ups ne x(3,4) unfolding Let_def p by blast
qed

text \<open>A file without contexts cannot be projected: \<open>effective_proxy\<close> answers with an error for every such
  file, although one that loads is valid and usable as it stands.\<close>

theorem legacy_file_not_projected:
  assumes "\<not> is_context_rooted cf"
  shows "effective_proxy ord cf = Inl (lit ''project_to_proxy: no resolved contexts'')"
  using assms by (simp add: is_context_rooted_def effective_proxy_def resolve_contexts_def resolve_all_contexts_def
      project_to_proxy_def Let_def)

section \<open>Environment variables\<close>

text \<open>Setting only the host in the environment keeps a configured port, but when no address is
  configured the port becomes 3000 and not that of the default address, 9999.\<close>

theorem env_host_override:
  assumes "ce_var E (lit ''CONPROXY_HOST'') = Some host" and "ce_var E (lit ''CONPROXY_PORT'') = None"
    and "58 \<notin> set port"
  shows "px_listen (snd (apply_env_overrides E (c\<lparr>px_listen := Some (h @ lit '':'' @ port)\<rparr>))) = Some (host @ lit '':'' @ port)
    \<and> px_listen (snd (apply_env_overrides E (c\<lparr>px_listen := None\<rparr>))) = Some (host @ lit '':3000'')
    \<and> proxy_listen (c\<lparr>px_listen := None\<rparr>) = lit ''127.0.0.1:9999''"
proof -
  have keep: "px_listen (snd (override_upstreams E (override_max_entries E (override_api_key E x)))) = px_listen (snd x)" for x
    by (cases x) (simp add: override_upstreams_def override_max_entries_def override_api_key_def split: option.split)
  have split3000: "rsplit_colon (lit ''127.0.0.1:3000'') = (lit ''3000'', Some (lit ''127.0.0.1''))"
    using rsplit_colon_append [of "lit ''3000''" "lit ''127.0.0.1''"] by (simp add: lit_def)
  have colon: "lit '':'' = [58]" by (simp add: lit_def)
  show ?thesis using assms rsplit_colon_append [OF assms(3), of h] split3000
    by (simp add: apply_env_overrides_def keep override_listen_def unwrap_or_def proxy_listen_def colon)
      (simp add: lit_def)
qed

section \<open>Examples\<close>

definition demo_config_env :: config_env where
  "demo_config_env = \<lparr>ce_lower = (\<lambda>s. s), ce_upper = (\<lambda>s. s), ce_show_f32 = (\<lambda>_. []),
     ce_var = (\<lambda>v. if v = lit ''CONPROXY_HOST'' then Some (lit ''0.0.0.0'') else None)\<rparr>"

lemmas section_checks = validity optionally_def timeout_in_range_def choice_def distill_validate_def
  distill_none_def federated_validate_def federated_none_def scope_validate_def scope_none_def
  rate_limit_validate_def rate_limit_none_def retry_validate_def retry_none_def store_validate_def
  store_none_def per_upstream_validate_def per_upstream_none_def semantic_validate_def semantic_none_def
  security_validate_def security_none_def advanced_security_validate_def advanced_security_none_def
  breaker_validate_def breaker_config_default_def conn_config_default_def socket_tuning_default_def

lemma default_proxy_checks: "\<forall>c \<in> set (proxy_checks E proxy_config_default). c = Inr ()"
  by (simp add: proxy_checks_def proxy_config_default_def section_checks)

lemma default_file_loads: "config_load E ord None None = Inr config_default"
proof -
  have "config_validate E ord config_default = Inr ()"
    using default_proxy_checks [of E]
    by (simp add: config_validate_def config_default_def validity validate_context_rooted_def)
  then show ?thesis by (simp add: config_load_def)
qed

definition demo_resource :: upstream_resource where
  "demo_resource = \<lparr>ur_url = Some (lit ''http://m''), ur_upstream_type = None, ur_timeout_secs = None,
     ur_weight = None, ur_priority = None, ur_max_concurrent = None, ur_enabled = None,
     ur_version_endpoint = None, ur_version_poll_interval_secs = None, ur_query_mode = None, ur_table = None,
     ur_embedding_column = None, ur_content_column = None, ur_metadata_columns = [], ur_distance_metric = None,
     ur_dimensions = None, ur_index = None, ur_search_fields = [], ur_return_fields = [], ur_api_key = None\<rparr>"

definition demo_leg :: "string \<Rightarrow> context_leg" where
  "demo_leg i = \<lparr>lg_resource_ref = lit ''m'', lg_url = None, lg_upstream_type = None, lg_timeout_secs = None,
     lg_weight = None, lg_priority = None, lg_max_concurrent = None, lg_enabled = None,
     lg_version_endpoint = None, lg_version_poll_interval_secs = None, lg_query_mode = None, lg_table = None,
     lg_embedding_column = None, lg_content_column = None, lg_metadata_columns = None, lg_distance_metric = None,
     lg_dimensions = None, lg_index = Some (lit i), lg_search_fields = None, lg_return_fields = None,
     lg_api_key = None\<rparr>"

definition demo_context :: "bool \<Rightarrow> string \<Rightarrow> named_context" where
  "demo_context d i = \<lparr>nc_default = Some d, nc_description = None, nc_upstreams = [demo_leg i], nc_embedder = None,
     nc_cache = \<lparr>xc_fresh_secs = None, xc_stale_secs = None, xc_max_entries = None, xc_max_memory_mb = None,
                 xc_eviction_policy = None\<rparr>,
     nc_scope = scope_none, nc_cascade = cascade_config_default, nc_federated = federated_none\<rparr>"

definition demo_file :: config_file where
  "demo_file = config_default\<lparr>cg_upstreams := fmap_of_list [(lit ''m'', demo_resource)],
     cg_contexts := fmap_of_list [(lit ''a'', demo_context True ''x''), (lit ''b'', demo_context False ''y'')]\<rparr>"

definition in_order :: "rstr set \<Rightarrow> rstr list" where
  "in_order S = sorted_list_of_set S"

definition in_reverse :: "rstr set \<Rightarrow> rstr list" where
  "in_reverse S = rev (sorted_list_of_set S)"

lemma table_orders: "table_order in_order" "table_order in_reverse"
  by (simp_all add: table_order_def in_order_def in_reverse_def)

lemma demo_entries:
  "table_entries in_order (cg_contexts demo_file)
     = [(lit ''a'', demo_context True ''x''), (lit ''b'', demo_context False ''y'')]"
  "table_entries in_reverse (cg_contexts demo_file)
     = [(lit ''b'', demo_context False ''y''), (lit ''a'', demo_context True ''x'')]"
  "table_entries ord (cg_embedders demo_file) = map (\<lambda>k. (k, the None)) (ord {})"
  "fmlookup (cg_upstreams demo_file) (lit ''m'') = Some demo_resource"
proof -
  have d: "fmdom' (cg_contexts demo_file) = {lit ''a'', lit ''b''}"
    by (simp add: demo_file_def fmdom'_alt_def)
  have s: "sorted_list_of_set {lit ''a'', lit ''b''} = [lit ''a'', lit ''b'']"
    by (simp add: lit_def)
  show "table_entries in_order (cg_contexts demo_file)
     = [(lit ''a'', demo_context True ''x''), (lit ''b'', demo_context False ''y'')]"
    unfolding table_entries_def in_order_def d s by (simp add: demo_file_def fmlookup_of_list lit_def)
  show "table_entries in_reverse (cg_contexts demo_file)
     = [(lit ''b'', demo_context False ''y''), (lit ''a'', demo_context True ''x'')]"
    unfolding table_entries_def in_reverse_def d s by (simp add: demo_file_def fmlookup_of_list lit_def)
  show "table_entries ord (cg_embedders demo_file) = map (\<lambda>k. (k, the None)) (ord {})"
    by (simp add: table_entries_def demo_file_def config_default_def)
  show "fmlookup (cg_upstreams demo_file) (lit ''m'') = Some demo_resource"
    by (simp add: demo_file_def fmlookup_of_list)
qed

theorem legacy_file_not_projected_witness:
  "config_load demo_config_env (\<lambda>_. []) None None = Inr config_default
   \<and> (\<exists>e. effective_proxy (\<lambda>_. []) config_default = Inl e)"
  using legacy_file_not_projected [of config_default "\<lambda>_. []"] default_file_loads
  by (simp add: is_context_rooted_def config_default_def)

theorem env_host_override_witness:
  "px_listen (snd (apply_env_overrides demo_config_env proxy_config_default)) = Some (lit ''0.0.0.0:3000'')"
proof -
  have n: "proxy_config_default\<lparr>px_listen := None\<rparr> = proxy_config_default" by (simp add: proxy_config_default_def)
  have "ce_var demo_config_env (lit ''CONPROXY_HOST'') = Some (lit ''0.0.0.0'')"
    "ce_var demo_config_env (lit ''CONPROXY_PORT'') = None"
    by (simp_all add: demo_config_env_def lit_def)
  from env_host_override [OF this, where port = "lit ''80''" and c = proxy_config_default and h = "[]"] show ?thesis
    by (simp add: n) (simp add: lit_def)
qed

definition demo_endpoint :: "string \<Rightarrow> endpoint_config" where
  "demo_endpoint i = merged_endpoint (lit ''m'') (lit ''http://m'') demo_resource (demo_leg i)"

lemma demo_endpoint_fields:
  "ec_id (demo_endpoint i) = lit ''m''" "ec_url (demo_endpoint i) = lit ''http://m''"
  "ec_timeout_secs (demo_endpoint i) = None" "ec_index (demo_endpoint i) = Some (lit i)"
  "endpoint_validate (demo_endpoint i) = Inr ()"
  by (simp_all add: demo_endpoint_def merged_endpoint_def demo_resource_def demo_leg_def endpoint_validate_def
      is_pgvector_def)

definition demo_resolved :: "string \<Rightarrow> bool \<Rightarrow> string \<Rightarrow> resolved_ctx" where
  "demo_resolved k d i =
     \<lparr>rx_id = lit k, rx_is_default = d, rx_description = None,
      rx_legs = [\<lparr>rv_resource_id = lit ''m'', rv_endpoint = demo_endpoint i\<rparr>], rx_embedder = None,
      rx_cache = nc_cache (demo_context d i), rx_scope = scope_none, rx_cascade = cascade_config_default,
      rx_federated = federated_none\<rparr>"

lemma demo_resolve:
  "resolve_context (cg_upstreams demo_file) es (lit k, demo_context d i) = Inr (demo_resolved k d i)"
proof -
  have "resolve_one_leg (cg_upstreams demo_file) (lit k) (demo_leg i)
      = Inr \<lparr>rv_resource_id = lit ''m'', rv_endpoint = demo_endpoint i\<rparr>"
    using demo_endpoint_fields(5) [of i] demo_entries(4)
    by (simp add: resolve_one_leg_def resolve_leg_def demo_leg_def demo_resource_def demo_endpoint_def Let_def)
  then show ?thesis
    by (simp add: resolve_context_def resolve_context_embedder_def demo_context_def demo_resolved_def unwrap_or_def)
qed

lemma demo_rooted: "cg_contexts demo_file \<noteq> fmempty"
  using demo_entries(1) by (auto simp: table_entries_def in_order_def)

lemma demo_resolve_all:
  "resolve_contexts in_order demo_file = Inr [demo_resolved ''a'' True ''x'', demo_resolved ''b'' False ''y'']"
  "resolve_contexts in_reverse demo_file = Inr [demo_resolved ''b'' False ''y'', demo_resolved ''a'' True ''x'']"
  by (simp_all add: resolve_contexts_def resolve_all_contexts_def demo_rooted demo_entries demo_resolve)

lemma demo_resolved_valid: "validate_resolved E (demo_resolved k d i) = Inr ()"
proof -
  have "scope_validate E scope_none = Inr ()" by (simp add: section_checks)
  then show ?thesis
    by (simp add: validate_resolved_def demo_resolved_def validity validate_leg_def validate_url_def
        demo_endpoint_fields valid_url_def begins_with_def lit_def timeout_in_range_def optionally_def
        prefix_error_def demo_context_def)
qed

lemma demo_file_loads: "config_load E in_order None (Some demo_file) = Inr demo_file"
proof -
  have f: "cg_upstreams demo_file \<noteq> fmempty" using demo_entries(4) by auto
  have res: "table_entries in_order (cg_upstreams demo_file) = [(lit ''m'', demo_resource)]"
    by (simp add: table_entries_def in_order_def demo_file_def fmdom'_alt_def fmlookup_of_list)
  have "validate_resource (lit ''m'', demo_resource) = Inr ()"
    by (simp add: validate_resource_def demo_resource_def validate_url_def validity valid_url_def begins_with_def
        lit_def)
  then have "validate_context_rooted E in_order (cg_upstreams demo_file) (cg_embedders demo_file)
      (cg_contexts demo_file) [] = Inr ()"
    using demo_resolve_all(1) demo_resolved_valid f res
    by (simp add: validate_context_rooted_def demo_rooted validity resolve_contexts_def default_count_def
        demo_entries in_order_def demo_context_def unwrap_or_def)
  moreover have "\<not> cg_llm demo_file" "cg_proxy demo_file = proxy_config_default" "cg_agents demo_file = []"
    "px_agents proxy_config_default = []"
    by (simp_all add: demo_file_def config_default_def proxy_config_default_def)
  ultimately have "config_validate E in_order demo_file = Inr ()"
    using default_proxy_checks [of E] by (simp add: config_validate_def validity)
  then show ?thesis by (simp add: config_load_def)
qed

theorem context_rooted_projection_witness:
  "\<exists>p. effective_proxy in_order demo_file = Inr p \<and> px_scope p = scope_none \<and> distinct (map ec_id (px_upstreams p))"
proof -
  have "is_context_rooted demo_file" by (simp add: is_context_rooted_def demo_rooted)
  from context_rooted_projection [OF demo_file_loads [of demo_config_env] this table_orders(1)]
  show ?thesis by (force simp: demo_file_def fmlookup_of_list demo_context_def split: if_splits)
qed

theorem projected_config_usable_witness:
  "\<exists>p. effective_proxy in_reverse demo_file = Inr p \<and> px_upstreams p \<noteq> [] \<and> (\<forall>u \<in> set (px_upstreams p). valid_url (ec_url u))
     \<and> fst (acquire_try (conn_pool_new (px_pool p)))"
proof -
  have "is_context_rooted demo_file" by (simp add: is_context_rooted_def demo_rooted)
  obtain p where p: "effective_proxy in_reverse demo_file = Inr p"
    using demo_resolve_all(2) by (auto simp: effective_proxy_def project_to_proxy_def demo_resolved_def Let_def)
  from projected_config_usable [OF demo_file_loads [of demo_config_env] table_orders p] p show ?thesis by (auto simp: Let_def)
qed

text \<open>When two contexts refer to the same resource with different overrides, the pool has one endpoint for
  it, and which context's overrides it carries depends on the iteration order of the hash map.\<close>

theorem shared_resource_order_dependent:
  "config_load E in_order None (Some demo_file) = Inr demo_file
   \<and> (\<exists>p q. effective_proxy in_order demo_file = Inr p \<and> effective_proxy in_reverse demo_file = Inr q
        \<and> map ec_index (px_upstreams p) = [Some (lit ''x'')] \<and> map ec_index (px_upstreams q) = [Some (lit ''y'')])"
  using demo_file_loads [of E]
  by (simp add: effective_proxy_def demo_resolve_all project_to_proxy_def demo_resolved_def Let_def
      demo_endpoint_fields)

end
