(* ===== verification/Scope.thy ===== *)
theory Scope
  imports ConfigSections
begin

text \<open>
  The scope filter of a context (\<open>src/src/proxy/scope.rs\<close>): results are dropped, boosted or reranked by their
  lexical similarity to the configured phrases. The default feature set is modelled, in which no
  embeddings are attached and the similarity is the lexical one. Parameter: Unicode lower-casing. The sign
  of a zero score is not kept.
\<close>

section \<open>Words and floats\<close>

fun words_from :: "rstr \<Rightarrow> rstr \<Rightarrow> rstr list" where
  "words_from cur [] = (if cur = [] then [] else [cur])"
| "words_from cur (c # cs) =
     (if is_whitespace c then (if cur = [] then words_from [] cs else cur # words_from [] cs)
      else words_from (cur @ [c]) cs)"

definition split_whitespace :: "rstr \<Rightarrow> rstr list" where
  "split_whitespace s = words_from [] s"

text \<open>\<open>f32::max\<close> ignores a NaN.\<close>

definition fl_max :: "fl \<Rightarrow> fl \<Rightarrow> fl" where
  "fl_max x y = (if x = NaN then y else if y = NaN then x else if fl_less x y then y else x)"

text \<open>The bit pattern of a value of the \<open>f32\<close> arithmetic.\<close>

definition f32_encode_pos :: "rat \<Rightarrow> f32" where
  "f32_encode_pos a =
     (let e = max (binade a) (- 126); m = nat \<lfloor>a / pow2 (e - 23)\<rfloor>
      in if m < 2 ^ 23 then of_nat m else of_nat (nat (e + 127) * 2 ^ 23 + (m - 2 ^ 23)))"

fun f32_encode :: "fl \<Rightarrow> f32" where
  "f32_encode NaN = 0x7FC00000"
| "f32_encode (Inf b) = (if b then 0xFF800000 else 0x7F800000)"
| "f32_encode (Fin x) = (if x = 0 then 0 else if 0 < x then f32_encode_pos x else 0x80000000 + f32_encode_pos (- x))"

section \<open>The filter\<close>

datatype filter_mode = FilterMode | RerankMode | BoostMode

definition filter_mode_from :: "config_env \<Rightarrow> rstr \<Rightarrow> filter_mode" where
  "filter_mode_from E s =
     (let l = ce_lower E s
      in if l = lit ''filter'' then FilterMode else if l = lit ''rerank'' then RerankMode
         else if l = lit ''boost'' then BoostMode else FilterMode)"

record phrase_entry =
  ph_text_lower :: rstr
  ph_word_set :: "rstr list"
  ph_weight :: fl
  ph_min_similarity :: "fl option"

record scope_signals =
  sg_best_sim :: fl
  sg_best_weighted :: fl
  sg_any :: bool

record scope_filter =
  sf_phrases :: "phrase_entry list"
  sf_phrase_texts :: "rstr list"
  sf_mode :: filter_mode
  sf_min_similarity :: fl
  sf_scope_weight :: fl
  sf_query_prefix :: "rstr option"

definition finite_nonneg :: "fl \<Rightarrow> bool" where
  "finite_nonneg x = (case x of Fin q \<Rightarrow> 0 \<le> q | _ \<Rightarrow> False)"

text \<open>A word set is a list without repetitions.\<close>

definition phrase_entry_of :: "config_env \<Rightarrow> weighted_phrase \<Rightarrow> phrase_entry" where
  "phrase_entry_of E p =
     (let text_lower = ce_lower E (wp_text p)
      in \<lparr>ph_text_lower = text_lower, ph_word_set = remdups (split_whitespace text_lower),
          ph_weight = (if finite_nonneg (wp_weight p) then wp_weight p else Fin 1),
          ph_min_similarity = wp_min_similarity p\<rparr>)"

definition scope_filter_from_config :: "config_env \<Rightarrow> scope_config \<Rightarrow> scope_filter" where
  "scope_filter_from_config E c =
     \<lparr>sf_phrases = map (phrase_entry_of E) (effective_phrases c),
      sf_phrase_texts = map wp_text (effective_phrases c),
      sf_mode = (case so_mode c of Some s \<Rightarrow> filter_mode_from E s | None \<Rightarrow> FilterMode),
      sf_min_similarity = scope_min_seed_similarity c, sf_scope_weight = scope_seed_weight c,
      sf_query_prefix = so_query_prefix c\<rparr>"

definition scope_filter_none :: scope_filter where
  "scope_filter_none = \<lparr>sf_phrases = [], sf_phrase_texts = [], sf_mode = FilterMode, sf_min_similarity = Fin 0,
     sf_scope_weight = Fin 0, sf_query_prefix = None\<rparr>"

definition scope_is_enabled :: "scope_filter \<Rightarrow> bool" where
  "scope_is_enabled f \<longleftrightarrow> sf_phrases f \<noteq> []"

definition apply_prefix :: "scope_filter \<Rightarrow> rstr \<Rightarrow> rstr" where
  "apply_prefix f query = (case sf_query_prefix f of Some p \<Rightarrow> p @ lit '' '' @ query | None \<Rightarrow> query)"

definition lexical_sim :: "phrase_entry \<Rightarrow> rstr \<Rightarrow> rstr list \<Rightarrow> fl" where
  "lexical_sim p content_lower content_words =
     (if ph_word_set p = [] \<or> content_words = [] then Fin 0
      else let overlap = length (filter (\<lambda>w. w \<in> set content_words) (ph_word_set p));
               recall = fl_div (nat_as_f32 overlap) (nat_as_f32 (length (ph_word_set p)));
               bonus = (if str_contains content_lower (ph_text_lower p) then f32_round (3 / 10) else Fin 0)
           in fl_clamp01 (fl_add recall bonus))"

definition signals_step :: "scope_filter \<Rightarrow> rstr \<Rightarrow> rstr list \<Rightarrow> phrase_entry \<Rightarrow> scope_signals \<Rightarrow> scope_signals" where
  "signals_step f content_lower content_words p s =
     (let sim = lexical_sim p content_lower content_words;
          floor = unwrap_or (ph_min_similarity p) (sf_min_similarity f)
      in if fl_less sim floor then s
         else \<lparr>sg_best_sim = fl_max (sg_best_sim s) sim,
               sg_best_weighted = fl_max (sg_best_weighted s) (fl_mul sim (ph_weight p)), sg_any = True\<rparr>)"

definition signals_none :: scope_signals where
  "signals_none = \<lparr>sg_best_sim = Fin 0, sg_best_weighted = Fin 0, sg_any = False\<rparr>"

definition signals_for :: "config_env \<Rightarrow> scope_filter \<Rightarrow> rstr \<Rightarrow> scope_signals" where
  "signals_for E f content =
     (if sf_phrases f = [] then \<lparr>sg_best_sim = Fin 1, sg_best_weighted = Fin 1, sg_any = True\<rparr>
      else let content_lower = ce_lower E content; content_words = split_whitespace content_lower;
               s = fold (signals_step f content_lower content_words) (sf_phrases f) signals_none
           in if \<not> sg_any s then signals_none else s)"

definition best_sim :: "config_env \<Rightarrow> scope_filter \<Rightarrow> rstr \<Rightarrow> fl" where
  "best_sim E f content =
     (let s = signals_for E f content
      in if sg_any s then sg_best_sim s else if sf_phrases f = [] then Fin 1 else Fin 0)"

definition in_scope :: "config_env \<Rightarrow> scope_filter \<Rightarrow> search_result \<Rightarrow> bool" where
  "in_scope E f r =
     (let s = signals_for E f (sr_content r) in sg_any s \<and> fl_le (sf_min_similarity f) (sg_best_sim s))"

definition scope_apply_filter :: "config_env \<Rightarrow> scope_filter \<Rightarrow> search_result list \<Rightarrow> search_result list" where
  "scope_apply_filter E f results = filter (in_scope E f) results"

definition max_phrase_weight :: "scope_filter \<Rightarrow> fl" where
  "max_phrase_weight f = fl_max (foldl fl_max (Fin 1) (map ph_weight (sf_phrases f))) (Fin 1)"

definition blended_score :: "config_env \<Rightarrow> scope_filter \<Rightarrow> search_result \<Rightarrow> fl" where
  "blended_score E f r =
     (let w = fl_clamp01 (sf_scope_weight f); s = signals_for E f (sr_content r);
          signal = (if sg_any s then fl_clamp01 (fl_div (sg_best_weighted s) (max_phrase_weight f)) else Fin 0)
      in fl_add (fl_mul (fl_sub (Fin 1) w) (f32_decode (sr_score r))) (fl_mul w signal))"

definition scope_apply_rerank :: "config_env \<Rightarrow> scope_filter \<Rightarrow> search_result list \<Rightarrow> search_result list" where
  "scope_apply_rerank E f results =
     map (\<lambda>(x, r). r\<lparr>sr_score := f32_encode x\<rparr>)
       (sort_desc (map (\<lambda>r. (blended_score E f r, r)) results))"

definition boosted :: "config_env \<Rightarrow> scope_filter \<Rightarrow> search_result \<Rightarrow> search_result" where
  "boosted E f r =
     (let w = fl_clamp01 (sf_scope_weight f); s = signals_for E f (sr_content r)
      in if in_scope E f r
         then r\<lparr>sr_score := f32_encode (fl_mul (f32_decode (sr_score r))
                  (fl_add (Fin 1) (fl_mul w (fl_clamp01 (fl_div (sg_best_weighted s) (max_phrase_weight f))))))\<rparr>
         else r)"

definition scope_apply_boost :: "config_env \<Rightarrow> scope_filter \<Rightarrow> search_result list \<Rightarrow> search_result list" where
  "scope_apply_boost E f results = map (boosted E f) results"

definition filter_results :: "config_env \<Rightarrow> scope_filter \<Rightarrow> search_result list \<Rightarrow> search_result list" where
  "filter_results E f results =
     (if \<not> scope_is_enabled f then results
      else case sf_mode f of
             FilterMode \<Rightarrow> scope_apply_filter E f results
           | RerankMode \<Rightarrow> scope_apply_rerank E f results
           | BoostMode \<Rightarrow> scope_apply_boost E f results)"

definition apply_scope_filter :: "config_env \<Rightarrow> scope_filter \<Rightarrow> search_result list \<Rightarrow> search_result list" where
  "apply_scope_filter E f results = (if \<not> scope_is_enabled f then results else filter_results E f results)"

record filter_stats =
  fs_input_count :: nat
  fs_output_count :: nat
  fs_filtered_count :: nat
  fs_avg_similarity :: fl

definition filter_with_stats ::
  "config_env \<Rightarrow> scope_filter \<Rightarrow> search_result list \<Rightarrow> search_result list \<times> filter_stats" where
  "filter_with_stats E f results =
     (if \<not> scope_is_enabled f
      then (results, \<lparr>fs_input_count = length results, fs_output_count = length results,
                      fs_filtered_count = 0, fs_avg_similarity = Fin 1\<rparr>)
      else let filtered = filter_results E f results
           in (filtered,
               \<lparr>fs_input_count = length results, fs_output_count = length filtered,
                fs_filtered_count = length results - length filtered,
                fs_avg_similarity = (if filtered = [] then Fin 0
                  else fl_div (foldl fl_add (Fin 0) (map (\<lambda>r. sg_best_sim (signals_for E f (sr_content r))) filtered))
                         (nat_as_f32 (length filtered)))\<rparr>))"

record discarded_result =
  dr_id :: rstr
  dr_similarity :: fl
  dr_threshold :: fl

definition filter_with_discarded ::
  "config_env \<Rightarrow> scope_filter \<Rightarrow> search_result list \<Rightarrow> search_result list \<times> discarded_result list" where
  "filter_with_discarded E f results =
     (if \<not> scope_is_enabled f then (results, [])
      else (filter (in_scope E f) results,
            map (\<lambda>r. let s = signals_for E f (sr_content r)
                      in \<lparr>dr_id = sr_id r, dr_similarity = sg_best_sim s, dr_threshold = sf_min_similarity f\<rparr>)
              (filter (\<lambda>r. \<not> in_scope E f r) results)))"

section \<open>Similarities are numbers between 0 and 1\<close>

lemma f32_round_not_NaN [simp]: "f32_round x \<noteq> NaN"
  by (auto simp: f32_round_def f32_round_pos_def Let_def)

lemma f32_round_nonneg_Fin:
  assumes "0 \<le> x" and "2 * x < 2 ^ 128"
  shows "\<exists>r \<ge> 0. f32_round x = Fin r"
  using f32_round_within [OF assms] by (auto simp: fl_within_def split: fl.splits)

lemma f32_round_ge_one:
  assumes "1 \<le> x" and "2 * x < 2 ^ 128"
  shows "\<exists>r > 0. f32_round x = Fin r"
proof -
  define e where "e = max (binade x) (- 126) - 23"
  have x: "0 < x" using assms(1) by simp
  have le: "pow2 e \<le> x"
  proof (cases "binade x \<le> - 126")
    case True
    then have "pow2 e \<le> pow2 0" unfolding e_def by (intro pow2_mono) simp
    then show ?thesis using assms(1) by (simp add: pow2_def)
  next
    case False
    then have "pow2 e \<le> pow2 (binade x)" unfolding e_def by (intro pow2_mono) simp
    then show ?thesis using binade_le [OF x] by simp
  qed
  then have "1 \<le> x / pow2 e" by (simp add: le_divide_eq)
  then have "(0 :: rat) < of_int (round_half_even (x / pow2 e))"
    using round_half_even_error [of "x / pow2 e"] by linarith
  then have "0 < round_at e x" by (simp add: round_at_def)
  moreover obtain r where "r \<ge> 0" "f32_round x = Fin r" using f32_round_nonneg_Fin [of x] assms by auto
  ultimately show ?thesis
    using x by (auto simp: f32_round_def f32_round_pos_def e_def Let_def split: if_splits)
qed

definition unit_value :: "fl \<Rightarrow> bool" where
  "unit_value x = (case x of Fin q \<Rightarrow> 0 \<le> q \<and> q \<le> 1 | _ \<Rightarrow> False)"

lemma clamp_unit: "x \<noteq> NaN \<Longrightarrow> unit_value (fl_clamp01 x)"
  by (cases x) (auto simp: unit_value_def)

lemma lexical_sim_unit:
  assumes "length (ph_word_set p) < 2 ^ 64"
  shows "unit_value (lexical_sim p c ws)"
proof (cases "ph_word_set p = [] \<or> ws = []")
  case True
  then show ?thesis by (auto simp: lexical_sim_def unit_value_def)
next
  case False
  let ?n = "length (filter (\<lambda>w. w \<in> set ws) (ph_word_set p))" and ?m = "length (ph_word_set p)"
  have n: "?n < 2 ^ 64" by (rule le_less_trans [OF length_filter_le assms])
  have big: "(of_nat k :: rat) < 2 ^ 64" if "k < 2 ^ 64" for k
    using that by (simp flip: of_nat_power_eq_of_nat_cancel_iff)
  obtain a where a: "0 \<le> a" "nat_as_f32 ?n = Fin a"
    using f32_round_nonneg_Fin [of "of_nat ?n"] big [OF n] by (auto simp: nat_as_f32_def)
  have "1 \<le> (of_nat ?m :: rat)" using False by (cases "ph_word_set p") simp_all
  then obtain b where b: "0 < b" "nat_as_f32 ?m = Fin b"
    using f32_round_ge_one [of "of_nat ?m"] big [OF assms] by (auto simp: nat_as_f32_def)
  have "fl_add (fl_div (nat_as_f32 ?n) (nat_as_f32 ?m)) (if q then f32_round (3 / 10) else Fin 0) \<noteq> NaN" for q
  proof -
    obtain d where "f32_round (3 / 10) = Fin d" using f32_round_nonneg_Fin [of "3 / 10"] by auto
    then show ?thesis using a b by (cases "f32_round (a / b)") auto
  qed
  then show ?thesis using False by (simp add: lexical_sim_def Let_def clamp_unit)
qed

section \<open>What each mode does\<close>

text \<open>The signal of a result is the best of the phrases that contribute.\<close>

lemma fl_max_unit: "unit_value x \<Longrightarrow> unit_value y \<Longrightarrow> unit_value (fl_max x y)"
  by (auto simp: fl_max_def)

definition contributes :: "scope_filter \<Rightarrow> rstr \<Rightarrow> rstr list \<Rightarrow> phrase_entry \<Rightarrow> bool" where
  "contributes f c ws p \<longleftrightarrow> \<not> fl_less (lexical_sim p c ws) (unwrap_or (ph_min_similarity p) (sf_min_similarity f))"

lemma fl_le_max: "unit_value x \<Longrightarrow> unit_value y \<Longrightarrow> fl_le m (fl_max x y) \<longleftrightarrow> fl_le m x \<or> fl_le m y"
  by (cases m; cases x; cases y) (auto simp: unit_value_def fl_max_def fl_le_def)

lemma signals_fold:
  fixes f c ws
  assumes "\<forall>p \<in> set ps. length (ph_word_set p) < 2 ^ 64" and "unit_value (sg_best_sim s)"
  defines "t \<equiv> fold (signals_step f c ws) ps s"
  shows "unit_value (sg_best_sim t) \<and> (sg_any t \<longleftrightarrow> sg_any s \<or> (\<exists>p \<in> set ps. contributes f c ws p))
    \<and> (fl_le m (sg_best_sim t) \<longleftrightarrow> fl_le m (sg_best_sim s)
         \<or> (\<exists>p \<in> set ps. contributes f c ws p \<and> fl_le m (lexical_sim p c ws)))"
  unfolding t_def using assms(1,2)
proof (induction ps arbitrary: s)
  case (Cons p ps)
  have u: "unit_value (lexical_sim p c ws)" using Cons.prems by (intro lexical_sim_unit) simp
  show ?case
  proof (cases "contributes f c ws p")
    case True
    let ?s = "signals_step f c ws p s"
    have "sg_best_sim ?s = fl_max (sg_best_sim s) (lexical_sim p c ws)" "sg_any ?s"
      using True by (simp_all add: signals_step_def contributes_def Let_def)
    then show ?thesis using Cons.IH [of ?s] Cons.prems True u fl_max_unit fl_le_max by auto
  next
    case False
    then have "signals_step f c ws p s = s" by (simp add: signals_step_def contributes_def Let_def)
    then show ?thesis using Cons.IH [of s] Cons.prems False by auto
  qed
qed simp

definition words_of :: "config_env \<Rightarrow> search_result \<Rightarrow> rstr list" where
  "words_of E r = split_whitespace (ce_lower E (sr_content r))"

lemma in_scope_iff:
  assumes "\<forall>p \<in> set (sf_phrases f). length (ph_word_set p) < 2 ^ 64" and "sf_phrases f \<noteq> []"
  shows "in_scope E f r \<longleftrightarrow>
    (\<exists>p \<in> set (sf_phrases f). contributes f (ce_lower E (sr_content r)) (words_of E r) p
       \<and> fl_le (sf_min_similarity f) (lexical_sim p (ce_lower E (sr_content r)) (words_of E r)))"
proof -
  let ?c = "ce_lower E (sr_content r)" and ?ws = "words_of E r" and ?m = "sf_min_similarity f"
  have zero: "fl_le ?m (Fin 0) \<Longrightarrow> fl_le ?m (lexical_sim p ?c ?ws)" if "p \<in> set (sf_phrases f)" for p
    using lexical_sim_unit [of p ?c ?ws] assms(1) that
    by (cases ?m; cases "lexical_sim p ?c ?ws") (auto simp: unit_value_def fl_le_def)
  show ?thesis
    using signals_fold [OF assms(1), of signals_none f ?c ?ws ?m] assms(2) zero
    by (auto simp: in_scope_def signals_for_def words_of_def [symmetric] Let_def signals_none_def unit_value_def)
qed

definition unscored :: "search_result \<Rightarrow> search_result" where
  "unscored r = r\<lparr>sr_score := 0\<rparr>"

lemma rerank_permutes: "mset (map unscored (scope_apply_rerank E f rs)) = mset (map unscored rs)"
proof -
  have "mset (map unscored (scope_apply_rerank E f rs))
      = image_mset (\<lambda>(_, r). unscored r) (mset (sort_desc (map (\<lambda>r. (blended_score E f r, r)) rs)))"
    by (simp add: scope_apply_rerank_def unscored_def comp_def case_prod_unfold image_mset.compositionality)
  also have "\<dots> = mset (map unscored rs)" by (simp add: comp_def image_mset.compositionality)
  finally show ?thesis .
qed

text \<open>C28. The scope filter: with no phrase it changes nothing. In the mode filter the answer is the sublist of
  results that reach, for some phrase, both the floor of that phrase and the threshold of the context,
  whatever the weights. In the mode rerank no result is lost or added, only scores and order change; in
  the mode boost the order stays and only the scores of results within the scope change.\<close>

theorem scope_filter_outcome:
  assumes "\<forall>p \<in> set (sf_phrases f). length (ph_word_set p) < 2 ^ 64"
  shows "let out = apply_scope_filter E f rs
    in if sf_phrases f = [] then out = rs
       else case sf_mode f of
         FilterMode \<Rightarrow> out = filter (\<lambda>r. \<exists>p \<in> set (sf_phrases f).
             contributes f (ce_lower E (sr_content r)) (words_of E r) p
             \<and> fl_le (sf_min_similarity f) (lexical_sim p (ce_lower E (sr_content r)) (words_of E r))) rs
       | RerankMode \<Rightarrow> mset (map unscored out) = mset (map unscored rs)
       | BoostMode \<Rightarrow> map unscored out = map unscored rs
           \<and> (\<forall>i < length rs. \<not> in_scope E f (rs ! i) \<longrightarrow> out ! i = rs ! i)"
proof (cases "sf_phrases f = []")
  case True
  then show ?thesis by (simp add: apply_scope_filter_def scope_is_enabled_def)
next
  case False
  have flt: "scope_apply_filter E f rs = filter (\<lambda>r. \<exists>p \<in> set (sf_phrases f).
             contributes f (ce_lower E (sr_content r)) (words_of E r) p
             \<and> fl_le (sf_min_similarity f) (lexical_sim p (ce_lower E (sr_content r)) (words_of E r))) rs"
    unfolding scope_apply_filter_def by (intro filter_cong in_scope_iff [OF assms False]) simp
  have bst: "map unscored (scope_apply_boost E f rs) = map unscored rs"
    "\<And>i. i < length rs \<Longrightarrow> \<not> in_scope E f (rs ! i) \<Longrightarrow> scope_apply_boost E f rs ! i = rs ! i"
    by (simp_all add: scope_apply_boost_def boosted_def unscored_def Let_def)
  show ?thesis using False flt bst rerank_permutes [of E f rs]
    by (cases "sf_mode f") (simp_all add: apply_scope_filter_def scope_is_enabled_def filter_results_def Let_def)
qed

definition demo_scope :: scope_filter where
  "demo_scope = \<lparr>sf_phrases = [\<lparr>ph_text_lower = lit ''api'', ph_word_set = [lit ''api''], ph_weight = Fin 1,
      ph_min_similarity = None\<rparr>], sf_phrase_texts = [lit ''api''], sf_mode = BoostMode, sf_min_similarity = Fin 1,
     sf_scope_weight = Fin 1, sf_query_prefix = None\<rparr>"

theorem scope_filter_outcome_witness:
  "map unscored (apply_scope_filter \<lparr>ce_lower = (\<lambda>s. s), ce_upper = (\<lambda>s. s), ce_show_f32 = (\<lambda>_. []), ce_var = (\<lambda>_. None)\<rparr>
      demo_scope [demo_hit ''x'', demo_hit ''y'']) = map unscored [demo_hit ''x'', demo_hit ''y'']"
  using scope_filter_outcome [of demo_scope "\<lparr>ce_lower = (\<lambda>s. s), ce_upper = (\<lambda>s. s), ce_show_f32 = (\<lambda>_. []), ce_var = (\<lambda>_. None)\<rparr>"
      "[demo_hit ''x'', demo_hit ''y'']"]
  by (simp add: demo_scope_def Let_def)

end
