(* ===== verification/Federated.thy ===== *)
theory Federated
  imports Scope
begin

text \<open>
  Federated search (\<open>src/src/proxy/federated.rs\<close>): when the local results do not suffice, and how local and
  remote results are merged. Parameter: Unicode lower-casing.
\<close>

section \<open>Configuration and decision\<close>

datatype result_source = LocalSource | RemoteSource

record federated_result =
  fr_result :: search_result
  fr_source :: result_source

datatype merge_mode = LocalOnlyFallback | LocalPriority | RemotePriority | Interleave

definition merge_mode_parse :: "config_env \<Rightarrow> rstr \<Rightarrow> merge_mode" where
  "merge_mode_parse E s =
     (let l = ce_lower E s
      in if l \<in> {lit ''local_only_fallback'', lit ''localonly'', lit ''fallback''} then LocalOnlyFallback
         else if l \<in> {lit ''local_priority'', lit ''local''} then LocalPriority
         else if l \<in> {lit ''remote_priority'', lit ''remote''} then RemotePriority
         else if l \<in> {lit ''interleave'', lit ''blend'', lit ''merge''} then Interleave
         else LocalOnlyFallback)"

datatype fallback_decision = LocalSufficient | EmptyLocal | BelowMinResults | LowConfidence | AlwaysRemote

record federated_search_config =
  fg_enabled :: bool
  fg_min_local_results :: nat
  fg_min_local_confidence :: fl
  fg_fallback_on_empty :: bool
  fg_fallback_on_low_confidence :: bool
  fg_merge_mode :: merge_mode
  fg_max_merged_results :: nat

definition federated_search_default :: federated_search_config where
  "federated_search_default = \<lparr>fg_enabled = False, fg_min_local_results = 3,
     fg_min_local_confidence = f32_round (7 / 10), fg_fallback_on_empty = True,
     fg_fallback_on_low_confidence = True, fg_merge_mode = LocalOnlyFallback, fg_max_merged_results = 10\<rparr>"

definition federated_search_from :: "config_env \<Rightarrow> federated_config \<Rightarrow> federated_search_config" where
  "federated_search_from E c =
     \<lparr>fg_enabled = federated_enabled c, fg_min_local_results = federated_min_local_results c,
      fg_min_local_confidence = federated_min_local_confidence c,
      fg_fallback_on_empty = unwrap_or (fd_fallback_on_empty c) True,
      fg_fallback_on_low_confidence = unwrap_or (fd_fallback_on_low_confidence c) True,
      fg_merge_mode = merge_mode_parse E (federated_merge_mode c),
      fg_max_merged_results = unwrap_or (fd_max_merged_results c) 10\<rparr>"

record federated_stats =
  ft_local_count :: nat
  ft_remote_count :: nat
  ft_merged_count :: nat
  ft_duplicates_removed :: nat
  ft_remote_queried :: bool
  ft_fallback_reason :: "rstr option"
  ft_local_latency_ms :: u64
  ft_remote_latency_ms :: "u64 option"

definition should_query_remote :: "federated_search_config \<Rightarrow> search_result list \<Rightarrow> fallback_decision" where
  "should_query_remote c local =
     (if fg_merge_mode c = Interleave \<or> fg_merge_mode c = RemotePriority then AlwaysRemote
      else if local = [] then (if fg_fallback_on_empty c then EmptyLocal else LocalSufficient)
      else if length local < fg_min_local_results c then BelowMinResults
      else if fg_fallback_on_low_confidence c
              \<and> fl_less (foldl fl_max (Fin 0) (map (\<lambda>r. f32_decode (sr_score r)) local)) (fg_min_local_confidence c)
      then LowConfidence
      else LocalSufficient)"

section \<open>Merging\<close>

definition tag_source :: "result_source \<Rightarrow> search_result \<Rightarrow> federated_result" where
  "tag_source src r = \<lparr>fr_result = r, fr_source = src\<rparr>"

text \<open>The results whose identifier has not been seen, in order, and the number of the others.\<close>

fun drop_seen :: "rstr set \<Rightarrow> federated_result list \<Rightarrow> federated_result list \<times> nat" where
  "drop_seen seen [] = ([], 0)"
| "drop_seen seen (x # xs) =
     (if sr_id (fr_result x) \<in> seen
      then (let (kept, n) = drop_seen seen xs in (kept, Suc n))
      else (let (kept, n) = drop_seen (insert (sr_id (fr_result x)) seen) xs in (x # kept, n)))"

definition merge_priority ::
  "search_result list \<Rightarrow> search_result list \<Rightarrow> bool \<Rightarrow> federated_result list \<times> nat" where
  "merge_priority local remote local_first =
     (let (primary, secondary) = (if local_first then (local, remote) else (remote, local));
          (src1, src2) = (if local_first then (LocalSource, RemoteSource) else (RemoteSource, LocalSource));
          (kept, duplicates) = drop_seen (sr_id ` set primary) (map (tag_source src2) secondary)
      in (map (tag_source src1) primary @ kept, duplicates))"

definition merge_interleave :: "search_result list \<Rightarrow> search_result list \<Rightarrow> federated_result list \<times> nat" where
  "merge_interleave local remote =
     drop_seen {} (map snd (sort_desc (map (\<lambda>x. (f32_decode (sr_score (fr_result x)), x))
       (map (tag_source LocalSource) local @ map (tag_source RemoteSource) remote))))"

definition merge_results ::
  "federated_search_config \<Rightarrow> search_result list \<Rightarrow> search_result list \<Rightarrow> federated_result list \<times> nat" where
  "merge_results c local remote =
     (case fg_merge_mode c of
        LocalOnlyFallback \<Rightarrow>
          (if local = [] then map (tag_source RemoteSource) remote else map (tag_source LocalSource) local, 0)
      | LocalPriority \<Rightarrow> merge_priority local remote True
      | RemotePriority \<Rightarrow> merge_priority local remote False
      | Interleave \<Rightarrow> merge_interleave local remote)"

definition federated_merge ::
  "federated_search_config \<Rightarrow> search_result list \<Rightarrow> search_result list \<Rightarrow>
   federated_result list \<times> federated_stats" where
  "federated_merge c local remote =
     (let (merged0, duplicates) = merge_results c local remote;
          merged = take (fg_max_merged_results c) merged0
      in (merged, \<lparr>ft_local_count = length local, ft_remote_count = length remote,
                   ft_merged_count = length merged, ft_duplicates_removed = duplicates,
                   ft_remote_queried = (length remote > 0), ft_fallback_reason = None,
                   ft_local_latency_ms = 0, ft_remote_latency_ms = None\<rparr>))"

definition merge_responses ::
  "federated_search_config \<Rightarrow> query_response \<Rightarrow> query_response option \<Rightarrow> query_response \<times> federated_stats" where
  "merge_responses c local remote =
     (let remote_latency = map_option qr_took_ms remote;
          (merged, stats) = federated_merge c (qr_results local)
                              (case remote of Some r \<Rightarrow> qr_results r | None \<Rightarrow> [])
      in (\<lparr>qr_results = map fr_result merged, qr_cache_status = Miss,
           qr_took_ms = sat_add (qr_took_ms local) (unwrap_or remote_latency 0),
           qr_generated_at = None, qr_miss_reason = None\<rparr>,
          stats\<lparr>ft_local_latency_ms := qr_took_ms local, ft_remote_latency_ms := remote_latency\<rparr>))"

section \<open>Merging keeps and loses nothing but duplicates\<close>

definition source_id :: "federated_result \<Rightarrow> rstr" where
  "source_id x = sr_id (fr_result x)"

lemma drop_seen_props:
  fixes xs :: "federated_result list"
  shows "case drop_seen seen xs of (kept, n) \<Rightarrow>
     set kept \<subseteq> set xs \<and> distinct (map source_id kept) \<and> source_id ` set kept = source_id ` set xs - seen
     \<and> length kept + n = length xs"
proof (induction xs arbitrary: seen)
  case (Cons x xs)
  have step: "drop_seen seen (x # xs) = (if source_id x \<in> seen
      then (let (kept, n) = drop_seen seen xs in (kept, Suc n))
      else (let (kept, n) = drop_seen (insert (source_id x) seen) xs in (x # kept, n)))"
    by (simp add: source_id_def)
  show ?case
  proof (cases "source_id x \<in> seen")
    case True
    then show ?thesis using Cons.IH [of seen] unfolding step by (auto split: prod.splits)
  next
    case False
    obtain kept n where d: "drop_seen (insert (source_id x) seen) xs = (kept, n)" by fastforce
    with Cons.IH [of "insert (source_id x) seen"]
    have k: "set kept \<subseteq> set xs" "distinct (map source_id kept)" "length kept + n = length xs"
      "source_id ` set kept = source_id ` set xs - insert (source_id x) seen" by auto
    have "source_id x \<notin> source_id ` set kept" unfolding k(4) by blast
    then show ?thesis using False k unfolding step d by (auto simp del: image_eqI)
  qed
qed simp

lemma sort_desc_members: "set (map snd (sort_desc (map (\<lambda>x. (g x, x)) xs))) = set xs"
  "length (sort_desc ys) = length ys"
proof -
  have "set (sort_desc (map (\<lambda>x. (g x, x)) xs)) = set (map (\<lambda>x. (g x, x)) xs)" by (metis mset_sort_desc set_mset_mset)
  then show "set (map snd (sort_desc (map (\<lambda>x. (g x, x)) xs))) = set xs" by (force simp: image_image)
  show "length (sort_desc ys) = length ys" by (metis mset_sort_desc size_mset)
qed

lemma merge_priority_props:
  fixes local remote
  defines "p \<equiv> \<lambda>b. if b then local else remote" and "q \<equiv> \<lambda>b. if b then remote else local"
  assumes "merge_priority local remote b = (m, n)" and "distinct (map sr_id (p b))"
  shows "set m \<subseteq> tag_source LocalSource ` set local \<union> tag_source RemoteSource ` set remote"
    and "distinct (map source_id m)" and "source_id ` set m = sr_id ` (set local \<union> set remote)"
    and "length m + n = length local + length remote"
    and "take (length (p b)) m = map (tag_source (if b then LocalSource else RemoteSource)) (p b)"
proof -
  let ?src = "if b then LocalSource else RemoteSource" and ?alt = "if b then RemoteSource else LocalSource"
  obtain kept k where d: "drop_seen (sr_id ` set (p b)) (map (tag_source ?alt) (q b)) = (kept, k)" by fastforce
  have m: "m = map (tag_source ?src) (p b) @ kept" "n = k"
    using assms(3) d by (auto simp: merge_priority_def p_def q_def split: if_splits prod.splits)
  note k = drop_seen_props [where seen = "sr_id ` set (p b)" and xs = "map (tag_source ?alt) (q b)", unfolded d, simplified]
  have ids: "map source_id (map (tag_source s) xs) = map sr_id xs" "source_id ` tag_source s ` X = sr_id ` X" for s xs X
    by (simp_all add: source_id_def tag_source_def image_image)
  show "set m \<subseteq> tag_source LocalSource ` set local \<union> tag_source RemoteSource ` set remote"
    using k m(1) by (auto simp: p_def q_def split: if_splits)
  have ids': "set (map source_id kept) \<inter> set (map sr_id (p b)) = {}" using k by auto
  then show "distinct (map source_id m)" using k assms(4) ids(1) by (auto simp: m(1) simp del: map_map)
  show "source_id ` set m = sr_id ` (set local \<union> set remote)"
    using k by (auto simp: m(1) image_Un ids(2) p_def q_def split: if_splits)
  show "length m + n = length local + length remote" using k m by (auto simp: p_def q_def split: if_splits)
  show "take (length (p b)) m = map (tag_source ?src) (p b)" by (simp add: m(1))
qed

lemma interleave_props:
  assumes "merge_interleave local remote = (m, n)"
  shows "set m \<subseteq> tag_source LocalSource ` set local \<union> tag_source RemoteSource ` set remote"
    and "distinct (map source_id m)" and "source_id ` set m = sr_id ` (set local \<union> set remote)"
    and "length m + n = length local + length remote"
proof -
  let ?all = "map (tag_source LocalSource) local @ map (tag_source RemoteSource) remote"
  let ?sorted = "map snd (sort_desc (map (\<lambda>x. (f32_decode (sr_score (fr_result x)), x)) ?all))"
  have d: "drop_seen {} ?sorted = (m, n)" using assms by (simp add: merge_interleave_def)
  have "set ?sorted = set ?all" "length ?sorted = length ?all"
    by (rule sort_desc_members(1)) (simp add: sort_desc_members(2))
  with drop_seen_props [where seen = "{}" and xs = ?sorted, unfolded d]
  have k: "set m \<subseteq> set ?all" "distinct (map source_id m)" "source_id ` set m = source_id ` set ?all"
    "length m + n = length ?all" by simp_all
  show "set m \<subseteq> tag_source LocalSource ` set local \<union> tag_source RemoteSource ` set remote" using k(1) by simp
  show "distinct (map source_id m)" by (rule k(2))
  show "source_id ` set m = sr_id ` (set local \<union> set remote)"
    unfolding k(3) by (simp add: image_Un image_image source_id_def tag_source_def)
  show "length m + n = length local + length remote" using k(4) by simp
qed

text \<open>C32. Merging local and remote results (each with distinct identifiers): at most the configured number, each
  taken from one of the sides and marked with it, no identifier twice. In the three modes that merge (local priority, remote
  priority, interleaving), when the limit allows it, every identifier of either side is represented and the statistics
  account for every result; the side that has priority comes first, and all of it. In the default mode, local results with remote
  fallback, nothing is merged: the answer is the beginning of the local results, and the remote ones are dropped, unless there is no
  local result, in which case it is the beginning of the remote results.\<close>

theorem federated_merge_outcome:
  assumes "distinct (map sr_id local)" and "distinct (map sr_id remote)"
  shows "let (m, st) = federated_merge c local remote
    in length m \<le> fg_max_merged_results c
       \<and> set m \<subseteq> tag_source LocalSource ` set local \<union> tag_source RemoteSource ` set remote
       \<and> distinct (map source_id m)
       \<and> (if fg_merge_mode c = LocalOnlyFallback
          then m = take (fg_max_merged_results c)
                     (if local = [] then map (tag_source RemoteSource) remote else map (tag_source LocalSource) local)
          else length local + length remote \<le> fg_max_merged_results c \<longrightarrow>
            source_id ` set m = sr_id ` (set local \<union> set remote)
            \<and> ft_merged_count st + ft_duplicates_removed st = ft_local_count st + ft_remote_count st)
       \<and> (fg_merge_mode c = LocalPriority \<and> length local \<le> fg_max_merged_results c \<longrightarrow>
            take (length local) m = map (tag_source LocalSource) local)
       \<and> (fg_merge_mode c = RemotePriority \<and> length remote \<le> fg_max_merged_results c \<longrightarrow>
            take (length remote) m = map (tag_source RemoteSource) remote)"
proof -
  obtain m n where r: "merge_results c local remote = (m, n)" by fastforce
  let ?limit = "fg_max_merged_results c"
  have base: "set m \<subseteq> tag_source LocalSource ` set local \<union> tag_source RemoteSource ` set remote"
    "distinct (map source_id m)"
  proof -
    have "distinct (map source_id (map (tag_source s) xs))" if "distinct (map sr_id xs)" for s xs
      using that by (simp add: comp_def source_id_def tag_source_def)
    then show "set m \<subseteq> tag_source LocalSource ` set local \<union> tag_source RemoteSource ` set remote"
      "distinct (map source_id m)"
      using r assms merge_priority_props(1,2) [of local remote _ m n] interleave_props(1,2) [of local remote m n]
      by (auto simp: merge_results_def split: merge_mode.splits if_splits)
  qed
  have full: "source_id ` set m = sr_id ` (set local \<union> set remote)" "length m + n = length local + length remote"
    if "fg_merge_mode c \<noteq> LocalOnlyFallback"
    using r that assms merge_priority_props(3,4) [of local remote _ m n] interleave_props(3,4) [of local remote m n]
    by (auto simp: merge_results_def split: merge_mode.splits)
  have first: "take (length local) m = map (tag_source LocalSource) local" if "fg_merge_mode c = LocalPriority"
    using r that assms merge_priority_props(5) [of local remote True m n] by (simp add: merge_results_def)
  have remote_first: "take (length remote) m = map (tag_source RemoteSource) remote" if "fg_merge_mode c = RemotePriority"
    using r that by (auto simp: merge_results_def merge_priority_def Let_def split: prod.splits)
  have fallback: "m = (if local = [] then map (tag_source RemoteSource) remote else map (tag_source LocalSource) local)"
    if "fg_merge_mode c = LocalOnlyFallback"
    using r that by (simp add: merge_results_def)
  have "set (take ?limit m) \<subseteq> set m" by (rule set_take_subset)
  moreover have "distinct (map source_id (take ?limit m))" using distinct_take [OF base(2), of ?limit] by (simp add: take_map)
  moreover have "take ?limit m = m" if "length m \<le> ?limit" using that by simp
  moreover have "take k (take ?limit m) = take k m" if "k \<le> ?limit" for k
    using that by (simp add: min_def)
  ultimately show ?thesis using base full first remote_first fallback
    by (cases "fg_merge_mode c") (auto simp: federated_merge_def r Let_def simp del: take_take)
qed

text \<open>In the mode of local results with remote fallback, too few local results make the search ask the
  remote side, but the merge then throws the remote answer away whenever there is any local result.\<close>

theorem fallback_answer_discarded:
  assumes "fg_merge_mode c = LocalOnlyFallback" and "local \<noteq> []" and "length local < fg_min_local_results c"
  shows "should_query_remote c local = BelowMinResults
    \<and> fst (federated_merge c local remote) = take (fg_max_merged_results c) (map (tag_source LocalSource) local)"
  using assms by (simp add: should_query_remote_def federated_merge_def merge_results_def Let_def)

definition named_hit :: "string \<Rightarrow> search_result" where
  "named_hit n = (demo_hit n)\<lparr>sr_id := lit n\<rparr>"

theorem federated_merge_outcome_witness:
  "source_id ` set (fst (federated_merge (federated_search_default\<lparr>fg_merge_mode := Interleave\<rparr>)
     [named_hit ''x'', named_hit ''y''] [named_hit ''y'', named_hit ''z''])) = {lit ''x'', lit ''y'', lit ''z''}"
proof -
  let ?c = "federated_search_default\<lparr>fg_merge_mode := Interleave\<rparr>"
  have d: "distinct (map sr_id [named_hit ''x'', named_hit ''y''])" "distinct (map sr_id [named_hit ''y'', named_hit ''z''])"
    by (simp_all add: named_hit_def lit_def)
  have "fg_merge_mode ?c = Interleave" "fg_max_merged_results ?c = 10" by (simp_all add: federated_search_default_def)
  moreover have "sr_id ` (set [named_hit ''x'', named_hit ''y''] \<union> set [named_hit ''y'', named_hit ''z'']) = {lit ''x'', lit ''y'', lit ''z''}"
    by (auto simp: named_hit_def)
  ultimately show ?thesis using federated_merge_outcome [OF d, of ?c] by (simp split: prod.splits)
qed

theorem fallback_answer_discarded_witness:
  "should_query_remote federated_search_default [demo_hit ''x''] = BelowMinResults
   \<and> fst (federated_merge federated_search_default [demo_hit ''x''] [demo_hit ''y'']) = [tag_source LocalSource (demo_hit ''x'')]"
  using fallback_answer_discarded [of federated_search_default "[demo_hit ''x'']" "[demo_hit ''y'']"]
  by (simp add: federated_search_default_def)

end
