(* ===== verification/Batch.thy ===== *)
theory Batch
  imports Types
begin

text \<open>
  Batches of queries (\<open>src/src/proxy/batch.rs\<close>): validation, the sequential path, and the parallel path with
  its fail-fast flag and deadline. The query function is a state-passing parameter. The parallel path is
  run by a schedule: what each task saw of the fail-fast flag and how it was joined, in the order of the
  handles; a task that panicked or missed the deadline has no result.
\<close>

section \<open>Requests and responses\<close>

record batch_query =
  bq_id :: rstr
  bq_query :: rstr
  bq_top_k :: "nat option"
  bq_priority :: "u8 option"

record batch_request =
  br_queries :: "batch_query list"
  br_fail_fast :: bool
  br_timeout_ms :: "u64 option"

definition to_query_request :: "batch_query \<Rightarrow> query_request" where
  "to_query_request q = \<lparr>rq_query = bq_query q, rq_top_k = bq_top_k q, rq_priority = bq_priority q,
     rq_upstream_id = None, rq_upstream_type = None\<rparr>"

record batch_query_result =
  bs_success :: bool
  bs_response :: "query_response option"
  bs_error :: "rstr option"
  bs_took_ms :: u64

definition result_success :: "query_response \<Rightarrow> batch_query_result" where
  "result_success r = \<lparr>bs_success = True, bs_response = Some r, bs_error = None, bs_took_ms = qr_took_ms r\<rparr>"

definition result_error :: "rstr \<Rightarrow> u64 \<Rightarrow> batch_query_result" where
  "result_error msg took = \<lparr>bs_success = False, bs_response = None, bs_error = Some msg, bs_took_ms = took\<rparr>"

record batch_config =
  bc_max_queries :: nat
  bc_max_total_results :: nat
  bc_default_query_timeout :: duration
  bc_max_batch_timeout :: duration
  bc_parallel :: bool
  bc_max_parallel :: nat

definition batch_config_default :: batch_config where
  "batch_config_default = \<lparr>bc_max_queries = 100, bc_max_total_results = 1000,
     bc_default_query_timeout = from_secs 30, bc_max_batch_timeout = from_secs 300, bc_parallel = True,
     bc_max_parallel = 10\<rparr>"

datatype batch_error = EmptyBatch | TooManyQueries nat nat | DuplicateId rstr

fun batch_error_display :: "batch_error \<Rightarrow> rstr" where
  "batch_error_display EmptyBatch = lit ''Batch cannot be empty''"
| "batch_error_display (TooManyQueries n m) =
     lit ''Too many queries ('' @ nat_to_dec n @ lit '') in batch, max is '' @ nat_to_dec m"
| "batch_error_display (DuplicateId i) = lit ''Duplicate query ID: '' @ i"

fun first_duplicate :: "rstr set \<Rightarrow> batch_query list \<Rightarrow> rstr option" where
  "first_duplicate seen [] = None"
| "first_duplicate seen (q # qs) =
     (if bq_id q \<in> seen then Some (bq_id q) else first_duplicate (insert (bq_id q) seen) qs)"

definition batch_validate :: "batch_config \<Rightarrow> batch_request \<Rightarrow> batch_error + unit" where
  "batch_validate c rq =
     (if br_queries rq = [] then Inl EmptyBatch
      else if length (br_queries rq) > bc_max_queries c
      then Inl (TooManyQueries (length (br_queries rq)) (bc_max_queries c))
      else case first_duplicate {} (br_queries rq) of Some i \<Rightarrow> Inl (DuplicateId i) | None \<Rightarrow> Inr ())"

section \<open>Processing\<close>

record batch_response =
  bp_results :: "rstr \<rightharpoonup> batch_query_result"
  bp_took_ms :: u64
  bp_success_count :: nat
  bp_error_count :: nat
  bp_complete :: bool

record batch_acc =
  ba_results :: "rstr \<rightharpoonup> batch_query_result"
  ba_success_count :: nat
  ba_error_count :: nat
  ba_complete :: bool

definition acc_start :: batch_acc where
  "acc_start = \<lparr>ba_results = Map.empty, ba_success_count = 0, ba_error_count = 0, ba_complete = True\<rparr>"

definition count_result :: "rstr \<Rightarrow> batch_query_result \<Rightarrow> batch_acc \<Rightarrow> batch_acc" where
  "count_result i r a =
     a\<lparr>ba_results := (ba_results a)(i \<mapsto> r),
       ba_success_count := ba_success_count a + (if bs_success r then 1 else 0),
       ba_error_count := ba_error_count a + (if bs_success r then 0 else 1)\<rparr>"

definition batch_timeout :: "batch_config \<Rightarrow> batch_request \<Rightarrow> duration" where
  "batch_timeout c rq =
     (case br_timeout_ms rq of Some ms \<Rightarrow> from_millis (unat ms) | None \<Rightarrow> bc_max_batch_timeout c)"

text \<open>The query function and the clock of the surrounding world.\<close>

record 'w batch_env =
  bv_query :: "query_request \<Rightarrow> 'w \<Rightarrow> (rstr + query_response) \<times> 'w"
  bv_now :: "'w \<Rightarrow> instant"

fun process_sequential ::
  "'w batch_env \<Rightarrow> bool \<Rightarrow> duration \<Rightarrow> instant \<Rightarrow> batch_query list \<Rightarrow> batch_acc \<Rightarrow> 'w \<Rightarrow> batch_acc \<times> 'w" where
  "process_sequential V fail_fast timeout start [] a w = (a, w)"
| "process_sequential V fail_fast timeout start (q # qs) a w =
     (if elapsed (bv_now V w) start > timeout then (a\<lparr>ba_complete := False\<rparr>, w)
      else case bv_query V (to_query_request q) w of
             (Inr resp, w1) \<Rightarrow>
               process_sequential V fail_fast timeout start qs (count_result (bq_id q) (result_success resp) a) w1
           | (Inl e, w1) \<Rightarrow>
               let a1 = count_result (bq_id q)
                          (result_error e (as_millis_u64 (elapsed (bv_now V w1) (bv_now V w)))) a
               in if fail_fast then (a1\<lparr>ba_complete := False\<rparr>, w1)
                  else process_sequential V fail_fast timeout start qs a1 w1)"

text \<open>One task of the parallel path: \<open>saw_failed\<close> is what it read of the flag when it started, \<open>permit\<close> whether
  the semaphore was still open.\<close>

datatype task_end = Joined bool bool "rstr + query_response" u64 | Panicked | DeadlinePassed

fun task_result :: "bool \<Rightarrow> task_end \<Rightarrow> batch_query_result option" where
  "task_result fail_fast (Joined saw_failed permit answer took) =
     Some (if fail_fast \<and> saw_failed then result_error (lit ''Skipped due to fail-fast'') 0
           else if \<not> permit then result_error (lit ''Batch processing interrupted (shutdown)'') 0
           else case answer of Inr resp \<Rightarrow> result_success resp | Inl e \<Rightarrow> result_error e took)"
| "task_result fail_fast Panicked = None"
| "task_result fail_fast DeadlinePassed = None"

fun join_tasks :: "bool \<Rightarrow> (batch_query \<times> task_end) list \<Rightarrow> batch_acc \<Rightarrow> batch_acc" where
  "join_tasks fail_fast [] a = a"
| "join_tasks fail_fast ((q, e) # ts) a =
     (case e of
        DeadlinePassed \<Rightarrow> a\<lparr>ba_complete := False\<rparr>
      | Panicked \<Rightarrow> join_tasks fail_fast ts (a\<lparr>ba_error_count := ba_error_count a + 1, ba_complete := False\<rparr>)
      | Joined _ _ _ _ \<Rightarrow> join_tasks fail_fast ts (count_result (bq_id q) (the (task_result fail_fast e)) a))"

definition batch_response_of :: "batch_acc \<Rightarrow> u64 \<Rightarrow> batch_response" where
  "batch_response_of a took = \<lparr>bp_results = ba_results a, bp_took_ms = took,
     bp_success_count = ba_success_count a, bp_error_count = ba_error_count a, bp_complete = ba_complete a\<rparr>"

definition batch_process ::
  "'w batch_env \<Rightarrow> batch_config \<Rightarrow> batch_request \<Rightarrow> ('w \<Rightarrow> task_end list \<times> 'w) \<Rightarrow> 'w \<Rightarrow>
   (batch_error + batch_response) \<times> 'w" where
  "batch_process V c rq schedule w =
     (case batch_validate c rq of
        Inl e \<Rightarrow> (Inl e, w)
      | Inr _ \<Rightarrow>
          (let start = bv_now V w;
               (a, w1) = (if bc_parallel c \<and> length (br_queries rq) > 1
                          then (let (ends, w1) = schedule w
                                in (join_tasks (br_fail_fast rq) (zip (br_queries rq) ends) acc_start, w1))
                          else process_sequential V (br_fail_fast rq) (batch_timeout c rq) start (br_queries rq)
                                 acc_start w)
           in (Inr (batch_response_of a (as_millis_u64 (elapsed (bv_now V w1) start))), w1)))"

section \<open>Every query is accounted for\<close>

lemma first_duplicate_None: "first_duplicate seen qs = None \<longleftrightarrow> distinct (map bq_id qs) \<and> bq_id ` set qs \<inter> seen = {}"
  by (induction seen qs rule: first_duplicate.induct) auto

lemma validate_distinct: "batch_validate c rq = Inr () \<Longrightarrow> distinct (map bq_id (br_queries rq))"
  by (auto simp: batch_validate_def first_duplicate_None split: if_splits option.splits)

definition acc_ok :: "batch_query list \<Rightarrow> batch_acc \<Rightarrow> bool" where
  "acc_ok qs a \<longleftrightarrow>
     dom (ba_results a) \<subseteq> bq_id ` set qs
     \<and> ba_success_count a = card {i. \<exists>r. ba_results a i = Some r \<and> bs_success r}
     \<and> ba_success_count a + ba_error_count a \<le> length qs
     \<and> (ba_complete a \<longrightarrow> dom (ba_results a) = bq_id ` set qs
          \<and> ba_success_count a + ba_error_count a = length qs)"

lemma acc_ok_count:
  assumes "acc_ok qs a" and "bq_id q \<notin> bq_id ` set qs"
  shows "acc_ok (qs @ [q]) (count_result (bq_id q) r a)"
proof -
  let ?S = "\<lambda>m. {i. \<exists>r. m i = Some r \<and> bs_success r}"
  have sub: "?S (ba_results a) \<subseteq> bq_id ` set qs" using assms(1) by (force simp: acc_ok_def)
  then have fin: "finite (?S (ba_results a))" by (rule finite_subset) simp
  have new: "bq_id q \<notin> ?S (ba_results a)" using sub assms(2) by blast
  have none: "ba_results a (bq_id q) = None" using assms by (force simp: acc_ok_def)
  have "?S ((ba_results a)(bq_id q \<mapsto> r)) = (if bs_success r then insert (bq_id q) (?S (ba_results a)) else ?S (ba_results a))"
    using none by auto
  then have "card (?S ((ba_results a)(bq_id q \<mapsto> r))) = card (?S (ba_results a)) + (if bs_success r then 1 else 0)"
    using fin new by simp
  then show ?thesis using assms(1) by (auto simp: acc_ok_def count_result_def)
qed

lemma acc_ok_abort: "acc_ok qs a \<Longrightarrow> acc_ok (qs @ rest) (a\<lparr>ba_complete := False\<rparr>)"
  by (auto simp: acc_ok_def)

lemma acc_ok_panic: "acc_ok qs a \<Longrightarrow> acc_ok (qs @ [q]) (a\<lparr>ba_error_count := ba_error_count a + 1, ba_complete := False\<rparr>)"
  by (auto simp: acc_ok_def)

lemma sequential_ok:
  assumes "acc_ok ps a" and "distinct (map bq_id (ps @ qs))"
  shows "acc_ok (ps @ qs) (fst (process_sequential V ff timeout start qs a w))"
  using assms
proof (induction qs arbitrary: ps a w)
  case (Cons q qs)
  have new: "bq_id q \<notin> bq_id ` set ps" and dist: "distinct (map bq_id ((ps @ [q]) @ qs))"
    using Cons.prems(2) by auto
  note ok = acc_ok_count [OF Cons.prems(1) new]
  show ?case
    using Cons.IH [OF ok dist] acc_ok_abort [OF Cons.prems(1), of "q # qs"] acc_ok_abort [OF ok, of qs]
    by (auto simp: Let_def split: prod.splits sum.splits)
qed simp

lemma parallel_ok:
  assumes "acc_ok ps a" and "distinct (map bq_id (ps @ map fst ts))"
  shows "acc_ok (ps @ map fst ts) (join_tasks ff ts a)"
  using assms
proof (induction ts arbitrary: ps a)
  case (Cons t ts)
  obtain q e where t: "t = (q, e)" by (cases t)
  have new: "bq_id q \<notin> bq_id ` set ps" and dist: "distinct (map bq_id ((ps @ [q]) @ map fst ts))"
    using Cons.prems(2) by (auto simp: t)
  note ok = acc_ok_count [OF Cons.prems(1) new]
  show ?case
  proof (cases e)
    case (Joined s p ans took)
    then show ?thesis using Cons.IH [OF ok dist] by (simp add: t)
  next
    case Panicked
    then show ?thesis using Cons.IH [OF acc_ok_panic [OF Cons.prems(1)] dist] by (simp add: t)
  next
    case DeadlinePassed
    then show ?thesis using acc_ok_abort [OF Cons.prems(1), of "q # map fst ts"] by (simp add: t)
  qed
qed simp

text \<open>A batch that is accepted is accounted for, on both paths and whatever the interleaving: there are
  results only for its queries, the success count is the number of successful results, successes and
  errors together are no more than the queries, and a batch reported as complete has exactly one result for
  every query.\<close>

theorem batch_accounts:
  assumes "batch_process V c rq schedule w = (Inr resp, w')" and "\<forall>w. length (fst (schedule w)) = length (br_queries rq)"
  shows "dom (bp_results resp) \<subseteq> bq_id ` set (br_queries rq)
    \<and> bp_success_count resp = card {i. \<exists>r. bp_results resp i = Some r \<and> bs_success r}
    \<and> bp_success_count resp + bp_error_count resp \<le> length (br_queries rq)
    \<and> (bp_complete resp \<longrightarrow> dom (bp_results resp) = bq_id ` set (br_queries rq)
         \<and> bp_success_count resp + bp_error_count resp = length (br_queries rq))"
proof -
  have v: "batch_validate c rq = Inr ()" using assms(1) by (auto simp: batch_process_def split: sum.splits)
  have d: "distinct (map bq_id ([] @ br_queries rq))" using validate_distinct [OF v] by simp
  have start: "acc_ok [] acc_start" by (simp add: acc_ok_def acc_start_def)
  obtain ends w1 where sch: "schedule w = (ends, w1)" by fastforce
  then have zip: "map fst (zip (br_queries rq) ends) = br_queries rq" using assms(2) by (metis fst_conv map_fst_zip)
  have par: "acc_ok (br_queries rq) (join_tasks (br_fail_fast rq) (zip (br_queries rq) ends) acc_start)"
    using parallel_ok [OF start, of "zip (br_queries rq) ends" "br_fail_fast rq"] d zip by simp
  have seq: "acc_ok (br_queries rq) (fst (process_sequential V (br_fail_fast rq) (batch_timeout c rq) (bv_now V w)
      (br_queries rq) acc_start w))"
    using sequential_ok [OF start d] by simp
  obtain a where a: "acc_ok (br_queries rq) a" "\<exists>t. resp = batch_response_of a t"
    using assms(1) v sch par seq
    by (auto simp: batch_process_def Let_def split: if_splits prod.splits)
  from a(2) obtain t where t: "resp = batch_response_of a t" by blast
  have r: "bp_results resp = ba_results a" "bp_success_count resp = ba_success_count a"
    "bp_error_count resp = ba_error_count a" "bp_complete resp = ba_complete a"
    by (simp_all add: t batch_response_of_def)
  show ?thesis using a(1) unfolding acc_ok_def r .
qed

lemma joined_complete:
  "\<forall>(_, e) \<in> set ts. \<exists>s p ans t. e = Joined s p ans t \<Longrightarrow> ba_complete (join_tasks ff ts a) = ba_complete a"
  by (induction ts arbitrary: a) (auto simp: count_result_def)

lemma sequential_fails:
  "\<lbrakk>\<And>w. elapsed (bv_now V w) start \<le> timeout; \<And>rq w. \<exists>e. fst (bv_query V rq w) = Inl e; qs \<noteq> []\<rbrakk> \<Longrightarrow>
     \<not> ba_complete (fst (process_sequential V True timeout start qs a w))"
proof (cases qs)
  case (Cons q rest)
  assume a: "\<And>w. elapsed (bv_now V w) start \<le> timeout" "\<And>rq w. \<exists>e. fst (bv_query V rq w) = Inl e"
  then obtain e w1 where "bv_query V (to_query_request q) w = (Inl e, w1)" by (metis prod.collapse)
  then show ?thesis using a(1) [of w] by (simp add: Cons Let_def not_less [symmetric])
qed simp

text \<open>With fail-fast, a batch in which every query fails is reported as incomplete on the sequential
  path, but as complete on the parallel path, even when tasks were skipped.\<close>

theorem fail_fast_complete_differs:
  assumes "batch_validate c rq = Inr ()" and "br_fail_fast rq"
    and "\<And>rq w. \<exists>e. fst (bv_query V rq w) = Inl e"
    and "\<And>w w'. elapsed (bv_now V w) (bv_now V w') \<le> batch_timeout c rq"
    and "\<forall>w. \<forall>e \<in> set (fst (schedule w)). \<exists>s p err t. e = Joined s p (Inl err) t"
  shows "\<exists>resp w'. batch_process V c rq schedule w = (Inr resp, w')
    \<and> (bp_complete resp \<longleftrightarrow> bc_parallel c \<and> length (br_queries rq) > 1)"
proof (cases "bc_parallel c \<and> length (br_queries rq) > 1")
  case True
  obtain ends w1 where sch: "schedule w = (ends, w1)" by fastforce
  have "\<forall>(_, e) \<in> set (zip (br_queries rq) ends). \<exists>s p ans t. e = Joined s p ans t"
    using assms(5) sch by (metis (mono_tags, lifting) case_prodI2 fst_conv set_zip_rightD)
  from joined_complete [OF this] show ?thesis
    using assms(1) True sch by (simp add: batch_process_def batch_response_of_def acc_start_def)
next
  case False
  have ne: "br_queries rq \<noteq> []" using assms(1) by (auto simp: batch_validate_def)
  obtain a w1 where p: "process_sequential V True (batch_timeout c rq) (bv_now V w) (br_queries rq) acc_start w = (a, w1)"
    by fastforce
  then have "\<not> ba_complete a" using sequential_fails [where a = acc_start and w = w and start = "bv_now V w", OF assms(4) assms(3) ne] by simp
  then show ?thesis using assms(1,2) False p by (auto simp: batch_process_def batch_response_of_def)
qed

section \<open>Examples\<close>

definition demo_batch :: batch_request where
  "demo_batch = \<lparr>br_queries = [\<lparr>bq_id = lit ''1'', bq_query = lit ''q'', bq_top_k = None, bq_priority = None\<rparr>,
       \<lparr>bq_id = lit ''2'', bq_query = lit ''r'', bq_top_k = None, bq_priority = None\<rparr>],
     br_fail_fast = True, br_timeout_ms = None\<rparr>"

definition failing_batch_env :: "unit batch_env" where
  "failing_batch_env = \<lparr>bv_query = (\<lambda>_ w. (Inl (lit ''down''), w)), bv_now = (\<lambda>_. 0)\<rparr>"

definition demo_schedule :: "unit \<Rightarrow> task_end list \<times> unit" where
  "demo_schedule w = ([Joined False True (Inl (lit ''down'')) 0, Joined True True (Inl (lit ''down'')) 0], w)"

lemma demo_batch_valid: "batch_validate batch_config_default demo_batch = Inr ()"
  by (simp add: batch_validate_def demo_batch_def batch_config_default_def lit_def)

theorem fail_fast_complete_differs_witness:
  "\<exists>resp w'. batch_process failing_batch_env batch_config_default demo_batch demo_schedule () = (Inr resp, w')
     \<and> bp_complete resp"
proof -
  have "\<exists>resp w'. batch_process failing_batch_env batch_config_default demo_batch demo_schedule () = (Inr resp, w')
    \<and> (bp_complete resp \<longleftrightarrow> bc_parallel batch_config_default \<and> length (br_queries demo_batch) > 1)"
    by (rule fail_fast_complete_differs [OF demo_batch_valid])
      (auto simp: demo_batch_def failing_batch_env_def elapsed_def demo_schedule_def batch_timeout_def)
  then show ?thesis by (simp add: batch_config_default_def demo_batch_def)
qed

theorem batch_accounts_witness:
  "\<exists>resp w'. batch_process failing_batch_env batch_config_default demo_batch demo_schedule () = (Inr resp, w')
     \<and> dom (bp_results resp) = {lit ''1'', lit ''2''}"
proof -
  have "\<exists>resp w'. batch_process failing_batch_env batch_config_default demo_batch demo_schedule () = (Inr resp, w')
      \<and> bp_complete resp"
    using demo_batch_valid
    by (simp add: batch_process_def batch_response_of_def acc_start_def Let_def)
      (simp add: demo_batch_def batch_config_default_def demo_schedule_def count_result_def)
  then obtain resp w' where p: "batch_process failing_batch_env batch_config_default demo_batch demo_schedule () = (Inr resp, w')"
    "bp_complete resp" by blast
  have "\<forall>w. length (fst (demo_schedule w)) = length (br_queries demo_batch)"
    by (simp add: demo_schedule_def demo_batch_def)
  from batch_accounts [OF p(1) this] p show ?thesis by (simp add: demo_batch_def)
qed

end
