(* ===== verification/Refresh.thy ===== *)
theory Refresh
  imports QueryFlow Scope
begin

text \<open>
  The background refresh (\<open>src/src/proxy/refresh.rs\<close>, \<open>detect_drift\<close> of \<open>types.rs\<close>): the workers that refresh
  stale entries, run together with the query core. A refresh is a task of two segments, before and after
  the upstream answers. The tasks hold a clone of the table of pending hashes; \<open>shared\<close> says whether a clone of a
  \<open>DashMap\<close> is the same table, the parameter that stands for that library. Its \<open>Clone\<close>, like that of every
  container, gives an independent copy, which is \<open>shared = False\<close>.
\<close>

section \<open>Drift between two responses\<close>

fun fl_uminus :: "fl \<Rightarrow> fl" where
  "fl_uminus (Fin x) = Fin (- x)"
| "fl_uminus (Inf b) = Inf (\<not> b)"
| "fl_uminus NaN = NaN"

fun fl_abs :: "fl \<Rightarrow> fl" where
  "fl_abs (Fin x) = Fin \<bar>x\<bar>"
| "fl_abs (Inf b) = Inf False"
| "fl_abs NaN = NaN"

definition fl_sub :: "fl \<Rightarrow> fl \<Rightarrow> fl" where
  "fl_sub x y = fl_add x (fl_uminus y)"

definition result_score :: "search_result \<Rightarrow> fl" where
  "result_score r = f32_decode (sr_score r)"

definition score_diff :: "search_result list \<Rightarrow> search_result \<Rightarrow> fl option" where
  "score_diff new old =
     map_option (\<lambda>r. fl_abs (fl_sub (result_score old) (result_score r))) (find (\<lambda>r. sr_id r = sr_id old) new)"

definition score_drift :: "search_result list \<Rightarrow> search_result list \<Rightarrow> fl \<times> u32" where
  "score_drift old new =
     foldl (\<lambda>(s, n) r. case score_diff new r of Some d \<Rightarrow> (fl_add s d, sat_add n 1) | None \<Rightarrow> (s, n)) (Fin 0, 0) old"

definition detect_drift :: "query_response \<Rightarrow> query_response \<Rightarrow> drift_level" where
  "detect_drift old new =
     (let os = qr_results old; ns = qr_results new
      in if os = [] \<and> ns = [] then DriftNone
         else if os = [] \<or> ns = [] then Major
         else let old_ids = sr_id ` set os; new_ids = sr_id ` set ns;
                  overlap = fl_div (nat_as_f32 (card (old_ids \<inter> new_ids)))
                              (nat_as_f32 (max (card old_ids) (card new_ids)));
                  (drift_sum, drift_count) = score_drift os ns;
                  avg = (if drift_count > 0 then fl_div drift_sum (nat_as_f32 (unat drift_count)) else Fin 1)
              in if fl_le (f32_round (9 / 10)) overlap \<and> fl_less avg (f32_round (5 / 100)) then DriftNone
                 else if fl_le (f32_round (7 / 10)) overlap \<and> fl_less avg (f32_round (15 / 100)) then Minor
                 else if fl_le (f32_round (5 / 10)) overlap \<and> fl_less avg (f32_round (3 / 10)) then Moderate
                 else if fl_le (f32_round (3 / 10)) overlap then Significant
                 else Major)"

section \<open>The worker with query tracking\<close>

record refresh_worker =
  rw_pending :: "query_hash set"
  rw_drift :: drift_aggregator
  rw_last_schema :: "schema_fingerprint option"
  rw_metrics :: "proxy_metrics option"

definition refresh_worker_new :: refresh_worker where
  "refresh_worker_new =
     \<lparr>rw_pending = {}, rw_drift = drift_with_defaults, rw_last_schema = None, rw_metrics = None\<rparr>"

definition refresh_worker_with_metrics :: "proxy_metrics \<Rightarrow> refresh_worker" where
  "refresh_worker_with_metrics m = refresh_worker_new\<lparr>rw_metrics := Some m\<rparr>"

definition refresh_worker_with_drift :: "drift_aggregator \<Rightarrow> refresh_worker" where
  "refresh_worker_with_drift d = refresh_worker_new\<lparr>rw_drift := d\<rparr>"

definition unregister_query :: "env \<Rightarrow> rstr \<Rightarrow> 'p app_state \<Rightarrow> 'p app_state" where
  "unregister_query E query st =
     st\<lparr>ap_tracked_queries := map_option (\<lambda>m. m(hash_query E query := None)) (ap_tracked_queries st)\<rparr>"

definition worker_update_schema :: "schema_fingerprint \<Rightarrow> refresh_worker \<Rightarrow> refresh_worker" where
  "worker_update_schema schema w =
     (let w1 = (case rw_last_schema w of
                  Some old \<Rightarrow> if \<not> schema_is_compatible old schema
                               then w\<lparr>rw_metrics := map_option record_schema_change (rw_metrics w)\<rparr> else w
                | None \<Rightarrow> w)
      in w1\<lparr>rw_last_schema := Some schema\<rparr>)"

definition worker_clear_drift :: "refresh_worker \<Rightarrow> refresh_worker" where
  "worker_clear_drift w = w\<lparr>rw_drift := drift_clear (rw_drift w)\<rparr>"

definition has_drift_alert :: "refresh_worker \<Rightarrow> bool" where
  "has_drift_alert w = drift_should_alert (rw_drift w)"

text \<open>A task: spawned with the hash and the tracked text, or waiting for the upstream with the old entry.\<close>

datatype refresh_task = RefreshSpawned (rt_hash: query_hash) rstr | RefreshAsked (rt_hash: query_hash) rstr "cache_entry option"

fun spawn_refreshes ::
  "(query_hash \<rightharpoonup> rstr) \<Rightarrow> query_hash list \<Rightarrow> refresh_worker \<Rightarrow> refresh_task list \<times> refresh_worker" where
  "spawn_refreshes tracked [] w = ([], w)"
| "spawn_refreshes tracked (h # hs) w =
     (if h \<in> rw_pending w then spawn_refreshes tracked hs w
      else case tracked h of
             None \<Rightarrow> spawn_refreshes tracked hs w
           | Some query \<Rightarrow>
               let (ts, w1) = spawn_refreshes tracked hs (w\<lparr>rw_pending := insert h (rw_pending w)\<rparr>)
               in (RefreshSpawned h query # ts, w1))"

definition refresh_stale_entries ::
  "env \<Rightarrow> clock \<Rightarrow> 'p app_state \<Rightarrow> refresh_worker \<Rightarrow> (refresh_task list \<times> refresh_worker) option" where
  "refresh_stale_entries E t st w =
     map_option (\<lambda>hs. spawn_refreshes (unwrap_or (ap_tracked_queries st) Map.empty) hs w)
       (get_stale_hashes E t (ap_cache st))"

definition refresh_request :: "rstr \<Rightarrow> query_request" where
  "refresh_request query = \<lparr>rq_query = query, rq_top_k = None, rq_priority = None, rq_upstream_id = None,
     rq_upstream_type = None\<rparr>"

text \<open>The first segment reads the old entry and sends the request.\<close>

definition refresh_ask :: "env \<Rightarrow> rstr \<Rightarrow> 'p app_state \<Rightarrow> cache_entry option \<times> query_request \<times> 'p app_state" where
  "refresh_ask E query st =
     (let (old, cs) = cache_get E query (ap_cache st) in (old, refresh_request query, st\<lparr>ap_cache := cs\<rparr>))"

text \<open>The second segment, with the answer; \<open>None\<close> when the drift window has size 0 and its trimming never ends.\<close>

definition refresh_record ::
  "clock \<Rightarrow> query_hash \<Rightarrow> cache_entry option \<Rightarrow> query_response \<Rightarrow> refresh_worker \<Rightarrow> refresh_worker option" where
  "refresh_record t h old resp w =
     (case old of
        Some e \<Rightarrow>
          let drift = detect_drift (ce_response e) resp
          in map_option (\<lambda>agg. w\<lparr>rw_drift := agg, rw_metrics := map_option (record_refresh \<circ> record_drift drift) (rw_metrics w)\<rparr>)
               (drift_record (ck_now t) drift h (rw_drift w))
      | None \<Rightarrow> Some (w\<lparr>rw_metrics := map_option record_refresh (rw_metrics w)\<rparr>))"

definition pending_remove :: "bool \<Rightarrow> query_hash \<Rightarrow> refresh_worker \<Rightarrow> refresh_worker" where
  "pending_remove shared h w = (if shared then w\<lparr>rw_pending := rw_pending w - {h}\<rparr> else w)"

definition refresh_answered ::
  "env \<Rightarrow> bool \<Rightarrow> clock \<Rightarrow> query_hash \<Rightarrow> rstr \<Rightarrow> cache_entry option \<Rightarrow> upstream_error + query_response \<Rightarrow>
   'p app_state \<Rightarrow> refresh_worker \<Rightarrow> ('p app_state \<times> refresh_worker) option" where
  "refresh_answered E shared t h query old answer st w =
     (case answer of
        Inl _ \<Rightarrow> Some (st, pending_remove shared h w)
      | Inr resp \<Rightarrow>
          map_option (\<lambda>w1. (st\<lparr>ap_cache := cache_insert E t query resp (ap_upstream_id st) (ap_cache st)\<rparr>,
                              pending_remove shared h w1))
            (refresh_record t h old resp w))"

section \<open>The worker without tracking\<close>

text \<open>It takes the query from the entry. Only the requests it makes and their effect differ.\<close>

definition plain_refresh_request :: "cache_entry \<Rightarrow> query_request option" where
  "plain_refresh_request e =
     map_option (\<lambda>q. \<lparr>rq_query = q, rq_top_k = Some (max (length (qr_results (ce_response e))) 10),
         rq_priority = None, rq_upstream_id = None, rq_upstream_type = None\<rparr>) (ce_query_text e)"

definition plain_refresh_ask :: "query_hash \<Rightarrow> cache_store \<Rightarrow> query_request option \<times> cache_store" where
  "plain_refresh_ask h cs =
     (let (e, cs1) = get_by_hash h cs in (Option.bind e plain_refresh_request, cs1))"

definition plain_refresh_answered ::
  "env \<Rightarrow> clock \<Rightarrow> query_hash \<Rightarrow> rstr \<Rightarrow> query_request \<Rightarrow> upstream_error + query_response \<Rightarrow> cache_store \<Rightarrow> cache_store" where
  "plain_refresh_answered E t h upstream_id rq answer cs =
     (case answer of Inl _ \<Rightarrow> cs | Inr resp \<Rightarrow> insert_by_hash E t h resp upstream_id (Some (rq_query rq)) cs)"

section \<open>The worker beside the query core\<close>

record 'p refresh_system =
  rs_app :: "'p app_state"
  rs_worker :: refresh_worker
  rs_tasks :: "refresh_task list"
  rs_sent :: "(query_hash \<times> query_request) list"

text \<open>Queries are registered by the leaders of a fetch and by the tasks of stale hits; \<open>rs_env\<close> is everything else.\<close>

inductive refresh_step :: "'p query_env \<Rightarrow> bool \<Rightarrow> 'p refresh_system \<Rightarrow> 'p refresh_system \<Rightarrow> bool" for Q shared where
  rs_lead: "pd_ctx_query p = context_query (pd_context_id p) (rq_query (pd_request p)) \<Longrightarrow>
     leader_finish Q t p rr (rs_app s) = (ph, st) \<Longrightarrow> refresh_step Q shared s (s\<lparr>rs_app := st\<rparr>)"
| rs_stale: "refresh_step Q shared s (s\<lparr>rs_app := stale_task_run Q t task answer (rs_app s)\<rparr>)"
| rs_env: "ap_tracked_queries st = ap_tracked_queries (rs_app s) \<Longrightarrow> refresh_step Q shared s (s\<lparr>rs_app := st\<rparr>)"
| rs_tick: "refresh_stale_entries (qe_env Q) t (rs_app s) (rs_worker s) = Some (ts, w) \<Longrightarrow>
     refresh_step Q shared s (s\<lparr>rs_worker := w, rs_tasks := rs_tasks s @ ts\<rparr>)"
| rs_ask: "RefreshSpawned h query \<in> set (rs_tasks s) \<Longrightarrow> refresh_ask (qe_env Q) query (rs_app s) = (old, rq, st) \<Longrightarrow>
     refresh_step Q shared s (s\<lparr>rs_app := st, rs_sent := rs_sent s @ [(h, rq)],
       rs_tasks := remove1 (RefreshSpawned h query) (rs_tasks s) @ [RefreshAsked h query old]\<rparr>)"
| rs_answer: "RefreshAsked h query old \<in> set (rs_tasks s) \<Longrightarrow>
     refresh_answered (qe_env Q) shared t h query old answer (rs_app s) (rs_worker s) = Some (st, w) \<Longrightarrow>
     refresh_step Q shared s (s\<lparr>rs_app := st, rs_worker := w,
       rs_tasks := remove1 (RefreshAsked h query old) (rs_tasks s)\<rparr>)"

definition refresh_start :: "'p app_state \<Rightarrow> refresh_worker \<Rightarrow> 'p refresh_system" where
  "refresh_start st w = \<lparr>rs_app = st\<lparr>ap_tracked_queries := Some Map.empty\<rparr>, rs_worker = w\<lparr>rw_pending := {}\<rparr>,
     rs_tasks = [], rs_sent = []\<rparr>"

text \<open>A key is the prefixed text of some client query.\<close>

definition client_key :: "env \<Rightarrow> query_hash \<Rightarrow> rstr \<Rightarrow> bool" where
  "client_key E h query \<longleftrightarrow> h = hash_query E query \<and> (\<exists>cid text. query = context_query cid text)"

fun task_query :: "refresh_task \<Rightarrow> rstr" where
  "task_query (RefreshSpawned h q) = q"
| "task_query (RefreshAsked h q e) = q"

definition tracked_ok :: "env \<Rightarrow> 'p app_state \<Rightarrow> bool" where
  "tracked_ok E st \<longleftrightarrow> (\<forall>m h q. ap_tracked_queries st = Some m \<longrightarrow> m h = Some q \<longrightarrow> client_key E h q)"

definition tasks_ok :: "env \<Rightarrow> refresh_task list \<Rightarrow> query_hash set \<Rightarrow> bool" where
  "tasks_ok E ts pending \<longleftrightarrow> distinct (map rt_hash ts) \<and> rt_hash ` set ts \<subseteq> pending
     \<and> (\<forall>task \<in> set ts. client_key E (rt_hash task) (task_query task))"

definition sent_ok :: "env \<Rightarrow> bool \<Rightarrow> (query_hash \<times> query_request) list \<Rightarrow> refresh_task list \<Rightarrow> query_hash set \<Rightarrow> bool" where
  "sent_ok E shared sent ts pending \<longleftrightarrow>
     (\<forall>(h, rq) \<in> set sent. client_key E h (rq_query rq))
     \<and> (shared \<or> distinct (map fst sent) \<and> fst ` set sent \<subseteq> pending
          \<and> (\<forall>h q. RefreshSpawned h q \<in> set ts \<longrightarrow> h \<notin> fst ` set sent))"

definition refresh_ok :: "'p query_env \<Rightarrow> bool \<Rightarrow> 'p refresh_system \<Rightarrow> bool" where
  "refresh_ok Q shared s \<longleftrightarrow> tracked_ok (qe_env Q) (rs_app s)
     \<and> tasks_ok (qe_env Q) (rs_tasks s) (rw_pending (rs_worker s))
     \<and> sent_ok (qe_env Q) shared (rs_sent s) (rs_tasks s) (rw_pending (rs_worker s))"

lemma register_tracked:
  "tracked_ok E st \<Longrightarrow> tracked_ok E (register_query E (context_query cid text) st)"
  by (auto simp: tracked_ok_def register_query_def client_key_def split: if_splits) blast

lemma tracked_same:
  "tracked_ok E st \<Longrightarrow> ap_tracked_queries st' = ap_tracked_queries st \<Longrightarrow> tracked_ok E st'"
  by (simp add: tracked_ok_def)

lemma tracked_keeps:
  assumes "tracked_ok E st"
    and "ap_tracked_queries st' = ap_tracked_queries st
      \<or> (\<exists>cid text. ap_tracked_queries st' = ap_tracked_queries (register_query E (context_query cid text) st))"
  shows "tracked_ok E st'"
  using assms by (elim disjE exE) (blast intro: tracked_same register_tracked)+

lemma tracked_frame [simp]:
  "ap_tracked_queries (on_metrics f st) = ap_tracked_queries st"
  "ap_tracked_queries (on_tracker g st) = ap_tracked_queries st"
  "ap_tracked_queries (on_contexts k st) = ap_tracked_queries st"
  "ap_tracked_queries (record_query Q t q b d st) = ap_tracked_queries st"
  "ap_tracked_queries (complete_fetch_with h r st) = ap_tracked_queries st"
  by (simp_all add: on_metrics_def on_tracker_def on_contexts_def record_query_def complete_fetch_with_def)

lemma tracked_register: "ap_tracked_queries (register_query E q st) = map_option (\<lambda>m. m(hash_query E q \<mapsto> q)) (ap_tracked_queries st)"
  by (simp add: register_query_def)

lemma leader_tracked:
  assumes "leader_finish Q t p rr st = (ph, st')"
  shows "ap_tracked_queries st' = ap_tracked_queries st
    \<or> ap_tracked_queries st' = ap_tracked_queries (register_query (qe_env Q) (pd_ctx_query p) st)"
  using assms
  by (auto simp: leader_finish_def leader_success_def leader_failure_def Let_def tracked_register
      split: if_splits option.splits prod.splits sum.splits)

lemma stale_tracked:
  "ap_tracked_queries (stale_task_run Q t task answer st) = ap_tracked_queries st
   \<or> ap_tracked_queries (stale_task_run Q t task answer st)
       = ap_tracked_queries (register_query (qe_env Q) (context_query (sk_context_id task) (sk_query task)) st)"
  by (auto simp: stale_task_run_def Let_def tracked_register split: sum.splits)

text \<open>The pending request of a leader holds the prefixed text, as \<open>rs_lead\<close> supposes.\<close>

lemma fetch_leading: "fetch_phase Q t p st = (Leading p', st') \<Longrightarrow> p' = p"
  by (auto simp: fetch_phase_def Let_def split: if_splits bool.splits prod.splits option.splits coalesce_action.splits)

lemma leading_ctx_query:
  assumes "execute_query_begin Q start t rq cid rid agent src skip st = (Leading p, st')"
  shows "pd_ctx_query p = context_query (pd_context_id p) (rq_query (pd_request p))"
  using assms
  by (auto simp: execute_query_begin_def serve_fresh_def serve_stale_def Let_def dest!: fetch_leading
      split: if_splits option.splits prod.splits freshness.splits)

lemma spawn_ok:
  assumes "spawn_refreshes tracked hs w = (ts, w')"
    and "\<forall>h q. tracked h = Some q \<longrightarrow> client_key E h q"
  shows "distinct (map rt_hash ts) \<and> rt_hash ` set ts \<inter> rw_pending w = {}
    \<and> rw_pending w' = rw_pending w \<union> rt_hash ` set ts
    \<and> (\<forall>task \<in> set ts. \<exists>h q. task = RefreshSpawned h q \<and> client_key E h q)"
  using assms(1)
proof (induction hs arbitrary: w ts)
  case (Cons h hs)
  show ?case
  proof (cases "h \<in> rw_pending w \<or> tracked h = None")
    case True
    then show ?thesis using Cons by (auto split: option.splits)
  next
    case False
    then obtain q where q: "tracked h = Some q" "h \<notin> rw_pending w" by blast
    obtain ts1 w1 where rec: "spawn_refreshes tracked hs (w\<lparr>rw_pending := insert h (rw_pending w)\<rparr>) = (ts1, w1)"
      by fastforce
    with Cons.prems q have ts: "ts = RefreshSpawned h q # ts1" "w' = w1" by simp_all
    from Cons.IH [OF rec [folded ts(2)]] show ?thesis using q assms(2) by (auto simp: ts(1))
  qed
qed simp

lemma distinct_remove1_hash:
  assumes "distinct (map rt_hash ts)" and "task \<in> set ts"
  shows "distinct (map rt_hash (remove1 task ts))" and "rt_hash task \<notin> rt_hash ` set (remove1 task ts)"
    and "set (remove1 task ts) = set ts - {task}"
proof -
  have d: "distinct ts" using assms(1) by (simp add: distinct_map)
  then show s: "set (remove1 task ts) = set ts - {task}" by (rule set_remove1_eq)
  have inj: "inj_on rt_hash (set ts)" using assms(1) by (simp add: distinct_map)
  show "distinct (map rt_hash (remove1 task ts))"
    using d inj s by (simp add: distinct_map distinct_remove1 inj_on_def)
  show "rt_hash task \<notin> rt_hash ` set (remove1 task ts)" using inj assms(2) unfolding s by (auto dest: inj_onD)
qed

lemma tasks_spawn:
  assumes "distinct (map rt_hash ts) \<and> rt_hash ` set ts \<inter> rw_pending w = {}
    \<and> rw_pending w' = rw_pending w \<union> rt_hash ` set ts
    \<and> (\<forall>task \<in> set ts. \<exists>h q. task = RefreshSpawned h q \<and> client_key E h q)"
    and "tasks_ok E old (rw_pending w)"
  shows "tasks_ok E (old @ ts) (rw_pending w')"
proof -
  have "client_key E (rt_hash task) (task_query task)" if "task \<in> set ts" for task using assms(1) that by fastforce
  then show ?thesis using assms unfolding tasks_ok_def by auto
qed

lemma sent_spawn:
  assumes "distinct (map rt_hash ts) \<and> rt_hash ` set ts \<inter> rw_pending w = {}
    \<and> rw_pending w' = rw_pending w \<union> rt_hash ` set ts
    \<and> (\<forall>task \<in> set ts. \<exists>h q. task = RefreshSpawned h q \<and> client_key E h q)"
    and "sent_ok E shared sent old (rw_pending w)"
  shows "sent_ok E shared sent (old @ ts) (rw_pending w')"
proof -
  have "h \<notin> rw_pending w" if "RefreshSpawned h q \<in> set ts" for h q
  proof -
    have "h \<in> rt_hash ` set ts" using that by force
    then show ?thesis using assms(1) by blast
  qed
  then show ?thesis using assms unfolding sent_ok_def by auto
qed

lemma ask_ok:
  assumes "tasks_ok E ts pending" and "sent_ok E shared sent ts pending" and "RefreshSpawned h query \<in> set ts"
  shows "tasks_ok E (remove1 (RefreshSpawned h query) ts @ [RefreshAsked h query old]) pending"
    and "rq_query rq = query \<Longrightarrow>
      sent_ok E shared (sent @ [(h, rq)]) (remove1 (RefreshSpawned h query) ts @ [RefreshAsked h query old]) pending"
proof -
  let ?t = "RefreshSpawned h query"
  have d: "distinct (map rt_hash ts)" using assms(1) by (simp add: tasks_ok_def)
  note rm = distinct_remove1_hash [OF d assms(3)]
  have key: "client_key E h query" "h \<in> pending" using assms(1,3) by (force simp: tasks_ok_def)+
  show "tasks_ok E (remove1 ?t ts @ [RefreshAsked h query old]) pending"
    using assms(1) key rm by (auto simp: tasks_ok_def)
  have other: "h' \<noteq> h" if "RefreshSpawned h' q \<in> set (remove1 ?t ts)" for h' q
    using rm(2) that by force
  assume "rq_query rq = query"
  then show "sent_ok E shared (sent @ [(h, rq)]) (remove1 ?t ts @ [RefreshAsked h query old]) pending"
    using assms(2,3) key other rm(3) unfolding sent_ok_def by auto
qed

lemma refresh_record_pending: "refresh_record t h old resp w = Some w' \<Longrightarrow> rw_pending w' = rw_pending w"
  by (auto simp: refresh_record_def Let_def split: option.splits)

lemma answered_frame:
  assumes "refresh_answered E shared t h q old answer st w = Some (st', w')"
  shows "ap_tracked_queries st' = ap_tracked_queries st"
    and "rw_pending w' = (if shared then rw_pending w - {h} else rw_pending w)"
  using assms by (auto simp: refresh_answered_def pending_remove_def dest: refresh_record_pending split: sum.splits)

lemma refresh_step_ok:
  assumes "refresh_step Q shared s s'" and "refresh_ok Q shared s"
  shows "refresh_ok Q shared s'"
proof -
  let ?E = "qe_env Q" and ?pending = "rw_pending (rs_worker s)"
  have ok: "tracked_ok ?E (rs_app s)" "tasks_ok ?E (rs_tasks s) ?pending" "sent_ok ?E shared (rs_sent s) (rs_tasks s) ?pending"
    using assms(2) by (simp_all add: refresh_ok_def)
  have d: "distinct (map rt_hash (rs_tasks s))" using ok(2) by (simp add: tasks_ok_def)
  from assms(1) show ?thesis
  proof cases
    case (rs_lead p t rr ph st)
    have "tracked_ok ?E st" using tracked_keeps [OF ok(1)] leader_tracked [OF rs_lead(3)] rs_lead(2) by metis
    then show ?thesis using ok rs_lead(1) by (simp add: refresh_ok_def)
  next
    case (rs_stale t task answer)
    have "tracked_ok ?E (stale_task_run Q t task answer (rs_app s))"
      using tracked_keeps [OF ok(1)] stale_tracked [of Q t task answer "rs_app s"] by metis
    then show ?thesis using ok rs_stale by (simp add: refresh_ok_def)
  next
    case (rs_env st)
    then show ?thesis using ok tracked_same [OF ok(1)] by (simp add: refresh_ok_def)
  next
    case (rs_tick t ts w)
    let ?m = "unwrap_or (ap_tracked_queries (rs_app s)) Map.empty"
    obtain hs where sp: "spawn_refreshes ?m hs (rs_worker s) = (ts, w)"
      using rs_tick(2) by (auto simp: refresh_stale_entries_def)
    have "\<forall>h q. ?m h = Some q \<longrightarrow> client_key ?E h q"
      using ok(1) by (cases "ap_tracked_queries (rs_app s)") (auto simp: tracked_ok_def unwrap_or_def)
    note k = spawn_ok [OF sp this]
    have "tasks_ok ?E (rs_tasks s @ ts) (rw_pending w)" using k ok(2) by (rule tasks_spawn)
    moreover have "sent_ok ?E shared (rs_sent s) (rs_tasks s @ ts) (rw_pending w)" using k ok(3) by (rule sent_spawn)
    ultimately show ?thesis using ok(1) rs_tick(1) by (simp add: refresh_ok_def)
  next
    case (rs_ask h query old rq st)
    have key: "client_key ?E h query" "h \<in> ?pending" using ok(2) rs_ask(2) by (force simp: tasks_ok_def)+
    have rq: "rq_query rq = query" "ap_tracked_queries st = ap_tracked_queries (rs_app s)"
      using rs_ask(3) by (auto simp: refresh_ask_def refresh_request_def split: prod.splits)
    show ?thesis using ask_ok [OF ok(2,3) rs_ask(2)] rq key tracked_same [OF ok(1)] rs_ask(1)
      by (simp add: refresh_ok_def)
  next
    case (rs_answer h query old t answer st w)
    note rm = distinct_remove1_hash [OF d rs_answer(2)] and fr = answered_frame [OF rs_answer(3)]
    have "tasks_ok ?E (remove1 (RefreshAsked h query old) (rs_tasks s)) (rw_pending w)"
      using ok(2) rm unfolding fr(2) by (auto simp: tasks_ok_def)
    moreover have "sent_ok ?E shared (rs_sent s) (remove1 (RefreshAsked h query old) (rs_tasks s)) (rw_pending w)"
      using ok(3) rm unfolding fr(2) by (auto simp: sent_ok_def)
    ultimately show ?thesis using tracked_same [OF ok(1)] rs_answer(1) fr(1) by (simp add: refresh_ok_def)
  qed
qed

lemma refresh_steps_ok:
  assumes "(refresh_step Q shared)\<^sup>*\<^sup>* (refresh_start st w) s"
  shows "refresh_ok Q shared s"
  using assms
proof (induction rule: rtranclp_induct)
  case base
  show ?case by (simp add: refresh_ok_def refresh_start_def tracked_ok_def tasks_ok_def sent_ok_def)
next
  case (step y z)
  then show ?case by (blast intro: refresh_step_ok)
qed

text \<open>C31. However the worker, its tasks and the requests interleave, at most one refresh of a hash is under way, and
  every request it sends asks the upstream for the prefixed cache key of a client query, never for the text that
  the client sent. When a clone of the pending table is a copy, every hash is refreshed at most
  once in the life of the worker.\<close>

theorem refresh_requests:
  assumes "(refresh_step Q shared)\<^sup>*\<^sup>* (refresh_start st w) s"
  shows "distinct (map rt_hash (rs_tasks s))
    \<and> (\<forall>(h, rq) \<in> set (rs_sent s). \<exists>cid text. rq_query rq = context_query cid text \<and> rq_query rq \<noteq> text
         \<and> h = hash_query (qe_env Q) (context_query cid text))
    \<and> (\<not> shared \<longrightarrow> distinct (map fst (rs_sent s)))"
proof -
  have ne: "context_query cid q \<noteq> q" for cid q
  proof
    assume "context_query cid q = q"
    then have "length (context_query cid q) = length q" by simp
    then show False by (simp add: context_query_def lit_def)
  qed
  from refresh_steps_ok [OF assms] show ?thesis
    using ne unfolding refresh_ok_def tasks_ok_def sent_ok_def client_key_def by (fastforce split: prod.splits)
qed


section \<open>What a refresh stores\<close>

text \<open>An insertion into a store with room: the entry is there and the configuration as before.\<close>

text \<open>What such an insertion stored is served, within the fresh window, to the request with its key.\<close>

lemma inserted_hits:
  assumes "room_for (qe_env Q) (hash_query (qe_env Q) (context_query cid (rq_query rq)))
      (fresh_entry (qe_env Q) t resp u (Some (context_query cid (rq_query rq))) c) cs"
    and "ap_cache st = insert_impl (qe_env Q) t (context_query cid (rq_query rq)) resp u c cs"
    and "fl_within 1 (cs_ttl_jitter_percent cs)"
    and "cs_fresh_duration cs \<le> from_secs (2 ^ 50)" and "cs_stale_duration cs \<le> from_secs (2 ^ 50)"
    and "elapsed (ck_now t') (ck_now t) < cs_fresh_duration cs"
    and "\<not> ap_paused st" and "request_validate rq = Inr ()" and "\<forall>a. agent = Some a \<longrightarrow> can_access_context cid a"
  shows "\<exists>e took st'. execute_query_begin Q start t' rq cid rid agent src False st =
      (Finished (result_ok (Cached e Hit took)), st') \<and> ce_response e = resp"
proof -
  let ?key = "context_query cid (rq_query rq)"
  let ?h = "hash_query (qe_env Q) ?key" and ?e = "fresh_entry (qe_env Q) t resp u (Some ?key) c"
  note room = insert_impl_with_room [OF assms(1), folded assms(2)]
  have "view (ap_cache st) ?h = Some ?e" by (simp add: room(1))
  then obtain e where e: "map_of (cs_entries (ap_cache st)) ?h = Some e" "e\<lparr>ce_freq := 0\<rparr> = ?e"
    by (auto simp: view_def)
  have f: "ce_response e = resp" "ce_cached_at e = ck_now t"
    using arg_cong [OF e(2), of ce_response] arg_cong [OF e(2), of ce_cached_at] by (simp_all add: fresh_entry_def)
  then have "\<exists>took st'. execute_query_begin Q start t' rq cid rid agent src False st =
      (Finished (result_ok (Cached (bump_freq e) Hit took)), st')"
    using fresh_entry_hits [OF e(1), of t' rq agent cid Q start rid src] assms(3-9) by (simp add: room(2-4)) blast
  with f(1) show ?thesis by (fastforce simp: bump_freq_def)
qed

text \<open>The answer to a refresh is served as it came: in a cache with room, a client that asks within the fresh
  window gets, as a hit, the answer that the upstream gave for the prefixed key, without the scope
  filter or the validation that answers to clients pass through.\<close>

theorem refresh_answer_served:
  assumes "refresh_answered (qe_env Q) shared t (hash_query (qe_env Q) key) key old (Inr resp) st w = Some (st', w')"
    and "key = context_query cid (rq_query rq)"
    and "cs_per_upstream_limit (ap_cache st) = None" and "cs_max_memory_bytes (ap_cache st) = 0"
    and "queue_len (ap_cache st) < queue_capacity (ap_cache st)"
    and "fl_within 1 (cs_ttl_jitter_percent (ap_cache st))"
    and "cs_fresh_duration (ap_cache st) \<le> from_secs (2 ^ 50)"
    and "cs_stale_duration (ap_cache st) \<le> from_secs (2 ^ 50)"
    and "elapsed (ck_now t') (ck_now t) < cs_fresh_duration (ap_cache st)"
    and "\<not> ap_paused st" and "request_validate rq = Inr ()"
    and "\<forall>a. agent = Some a \<longrightarrow> can_access_context cid a"
  shows "\<exists>e took st''. execute_query_begin Q start t' rq cid rid agent src False st' =
      (Finished (result_ok (Cached e Hit took)), st'') \<and> ce_response e = resp"
proof -
  have st': "ap_cache st' = insert_impl (qe_env Q) t (context_query cid (rq_query rq)) resp (ap_upstream_id st) (lit ''default'') (ap_cache st)"
    "ap_paused st' = ap_paused st"
    using assms(1,2) by (auto simp: refresh_answered_def cache_insert_def)
  show ?thesis by (rule inserted_hits [OF room_unlimited [OF assms(3-5)] st'(1) assms(6-9) _ assms(11,12)]) (simp add: st'(2) assms(10))
qed

section \<open>Drift of equal and of unrelated answers\<close>

lemma nat_as_f32_pos:
  assumes "0 < n" and "n < 2 ^ 64"
  shows "\<exists>r > 0. nat_as_f32 n = Fin r"
proof -
  have "(of_nat n :: rat) < of_nat (2 ^ 64)" using assms(2) by (simp only: of_nat_less_iff)
  then show ?thesis using assms(1) unfolding nat_as_f32_def by (intro f32_round_ge_one) (simp_all add: Suc_le_eq)
qed

lemma thresholds:
  "fl_le (f32_round (9 / 10)) (f32_round 1)" "fl_less (Fin 0) (f32_round (5 / 100))"
  "\<not> fl_le (f32_round (9 / 10)) (Fin 0)" "\<not> fl_le (f32_round (7 / 10)) (Fin 0)"
  "\<not> fl_le (f32_round (5 / 10)) (Fin 0)" "\<not> fl_le (f32_round (3 / 10)) (Fin 0)"
  by code_simp+

lemma find_unique_id:
  assumes "distinct (map sr_id rs)" and "r \<in> set rs"
  shows "find (\<lambda>x. sr_id x = sr_id r) rs = Some r"
  using assms by (induction rs) (auto simp: image_iff)

lemma drift_fold_zero:
  assumes "\<forall>r \<in> set rs. score_diff new r = Some (Fin 0)"
  shows "foldl (\<lambda>(s, n) r. case score_diff new r of Some d \<Rightarrow> (fl_add s d, sat_add n 1) | None \<Rightarrow> (s, n)) (Fin 0, c) rs
    = (Fin 0, foldl (\<lambda>n _. sat_add n 1) c rs)"
  using assms by (induction rs arbitrary: c) (simp_all add: f32_round_def)

lemma sat_count_pos:
  fixes c :: u32
  shows "c > 0 \<or> rs \<noteq> [] \<Longrightarrow> foldl (\<lambda>n _. sat_add n 1) c rs > 0"
proof (induction rs arbitrary: c)
  case (Cons r rs)
  have "sat_add c 1 > (0 :: u32)" by (simp add: word_gt_0 unat_eq_0 [symmetric] unat_sat_add)
  then show ?case using Cons.IH [of "sat_add c 1"] by simp
qed simp

text \<open>Answers with the same results (distinct identifiers, finite scores) do not drift; answers without a common
  identifier are a major drift.\<close>

theorem detect_drift_extremes:
  assumes "length (qr_results old) < 2 ^ 64" and "length (qr_results new) < 2 ^ 64"
  shows "(qr_results new = qr_results old \<and> distinct (map sr_id (qr_results old))
      \<and> (\<forall>r \<in> set (qr_results old). \<exists>x. result_score r = Fin x) \<longrightarrow> detect_drift old new = DriftNone)
    \<and> (sr_id ` set (qr_results old) \<inter> sr_id ` set (qr_results new) = {} \<and> qr_results old \<noteq> []
      \<longrightarrow> detect_drift old new = Major)"
proof (intro conjI impI)
  let ?o = "qr_results old" and ?n = "qr_results new"
  have small: "card (sr_id ` set xs) < 2 ^ 64" if "length xs < 2 ^ 64" for xs :: "search_result list"
    using card_image_le [of "set xs" sr_id] card_length [of xs] that by simp
  {
    assume a: "qr_results new = qr_results old \<and> distinct (map sr_id (qr_results old))
      \<and> (\<forall>r \<in> set (qr_results old). \<exists>x. result_score r = Fin x)"
    show "detect_drift old new = DriftNone"
    proof (cases "?o = []")
      case False
      have "score_diff ?o r = Some (Fin 0)" if r_in: "r \<in> set ?o" for r
      proof -
        have "find (\<lambda>x. sr_id x = sr_id r) ?o = Some r"
          using a r_in by (simp add: find_unique_id)
        moreover obtain x where "result_score r = Fin x"
          using bspec [OF a [THEN conjunct2, THEN conjunct2] r_in] by blast
        moreover have "f32_round 0 = Fin 0" by (simp add: f32_round_def)
        ultimately show ?thesis by (simp add: score_diff_def fl_sub_def)
      qed
      then have sd: "score_drift ?o ?o = (Fin 0, foldl (\<lambda>n _. sat_add n 1) 0 ?o)"
        unfolding score_drift_def by (intro drift_fold_zero) simp
      let ?c = "foldl (\<lambda>n _. sat_add n 1) (0 :: u32) ?o"
      have c: "?c > 0" using False by (intro sat_count_pos) simp
      then have "0 < unat ?c" "unat ?c < 2 ^ 64" using unsigned_less [of ?c, where 'a = nat] by (simp_all add: word_gt_0 unat_gt_0)
      then obtain s where s: "s > 0" "nat_as_f32 (unat ?c) = Fin s" using nat_as_f32_pos by blast
      obtain r where r: "r > 0" "nat_as_f32 (card (sr_id ` set ?o)) = Fin r"
        using nat_as_f32_pos [of "card (sr_id ` set ?o)"] False small [OF assms(1)] by (auto simp: card_gt_0_iff)
      have "fl_div (nat_as_f32 (card (sr_id ` set ?o \<inter> sr_id ` set ?o))) (nat_as_f32 (max (card (sr_id ` set ?o)) (card (sr_id ` set ?o))))
          = f32_round 1" using r by simp
      moreover have "fl_div (Fin 0) (nat_as_f32 (unat ?c)) = Fin 0" using s by (simp add: f32_round_def)
      ultimately show ?thesis using False c thresholds(1,2) unfolding detect_drift_def a [THEN conjunct1] sd Let_def by simp
    qed (use a in \<open>simp add: detect_drift_def\<close>)
  }
  {
    assume a: "sr_id ` set ?o \<inter> sr_id ` set ?n = {} \<and> ?o \<noteq> []"
    let ?m = "max (card (sr_id ` set ?o)) (card (sr_id ` set ?n))"
    have "0 < ?m" using a by (auto simp: card_gt_0_iff less_max_iff_disj)
    then obtain r where r: "r > 0" "nat_as_f32 ?m = Fin r"
      using nat_as_f32_pos [of ?m] small [OF assms(1)] small [OF assms(2)] by auto
    have z: "nat_as_f32 0 = Fin 0" by (simp add: nat_as_f32_def f32_round_def)
    have "fl_div (nat_as_f32 (card (sr_id ` set ?o \<inter> sr_id ` set ?n))) (nat_as_f32 ?m) = Fin 0"
      using a r by (simp add: z f32_round_def)
    then show "detect_drift old new = Major"
      using a thresholds(3-6) by (auto simp: detect_drift_def Let_def split: prod.splits)
  }
qed

section \<open>Examples\<close>

definition demo_key :: rstr where
  "demo_key = context_query (lit ''default'') (lit ''a'')"

definition demo_stale_task :: "unit stale_task" where
  "demo_stale_task = \<lparr>sk_query = lit ''a'', sk_context_id = lit ''default'', sk_has_upstream = True, sk_scope_filter = ()\<rparr>"

definition demo_stale_cache :: cache_store where
  "demo_stale_cache = (cache_with 10 20 100 0 (Fin 0))\<lparr>cs_entries := [(hash_query trivial_env demo_key,
     fresh_entry trivial_env demo_clock (response_of []) (lit ''u'') (Some demo_key) (lit ''default''))]\<rparr>"

lemma demo_stale: "get_stale_hashes trivial_env \<lparr>ck_now = 15, ck_wall = 15\<rparr> demo_stale_cache = Some [hash_query trivial_env demo_key]"
  by (simp add: get_stale_hashes_def iter_entries_def trivial_env_def demo_stale_cache_def cache_with_def jittered_ttl_def
      dur_add_def duration_max_def nanos_per_sec_def fresh_entry_def demo_clock_def elapsed_def)

lemma demo_refresh_run:
  "\<exists>s rq. (refresh_step demo_env False)\<^sup>*\<^sup>* (refresh_start demo_app refresh_worker_new) s
     \<and> rs_sent s = [(hash_query trivial_env demo_key, rq)]"
proof -
  let ?h = "hash_query trivial_env demo_key" and ?t = "\<lparr>ck_now = 15, ck_wall = 15\<rparr>"
  let ?s0 = "refresh_start demo_app refresh_worker_new"
  let ?a1 = "stale_task_run demo_env demo_clock demo_stale_task (Inr (response_of [])) (rs_app ?s0)"
  let ?a2 = "?a1\<lparr>ap_cache := demo_stale_cache\<rparr>"
  have tr: "ap_tracked_queries ?a1 = Some [?h \<mapsto> demo_key]"
    by (simp add: stale_task_run_def demo_stale_task_def Let_def demo_env_def response_of_def response_validate_def
        max_results_def max_response_size_def register_query_def refresh_start_def demo_key_def)
  have s1: "refresh_step demo_env False ?s0 (?s0\<lparr>rs_app := ?a1\<rparr>)" by (rule rs_stale)
  let ?s1 = "?s0\<lparr>rs_app := ?a1\<rparr>" let ?s2 = "?s1\<lparr>rs_app := ?a2\<rparr>"
  have s2: "refresh_step demo_env False ?s1 ?s2" by (rule rs_env) simp
  let ?w = "refresh_worker_new\<lparr>rw_pending := {?h}\<rparr>"
  have "refresh_stale_entries (qe_env demo_env) ?t (rs_app ?s2) (rs_worker ?s2) = Some ([RefreshSpawned ?h demo_key], ?w)"
    using demo_stale tr
    by (simp add: refresh_stale_entries_def demo_env_def refresh_start_def refresh_worker_new_def unwrap_or_def)
  from rs_tick [where Q = demo_env and shared = False, OF this]
  have s3: "refresh_step demo_env False ?s2 (?s2\<lparr>rs_worker := ?w, rs_tasks := [RefreshSpawned ?h demo_key]\<rparr>)"
    by (simp add: refresh_start_def)
  let ?s3 = "?s2\<lparr>rs_worker := ?w, rs_tasks := [RefreshSpawned ?h demo_key]\<rparr>"
  obtain old rq st where ask: "refresh_ask (qe_env demo_env) demo_key (rs_app ?s3) = (old, rq, st)" by (metis prod_cases3)
  have s4: "refresh_step demo_env False ?s3 (?s3\<lparr>rs_app := st, rs_sent := rs_sent ?s3 @ [(?h, rq)],
       rs_tasks := remove1 (RefreshSpawned ?h demo_key) (rs_tasks ?s3) @ [RefreshAsked ?h demo_key old]\<rparr>)"
    by (rule rs_ask [OF _ ask]) simp
  have "(refresh_step demo_env False)\<^sup>*\<^sup>* ?s0 (?s3\<lparr>rs_app := st, rs_sent := rs_sent ?s3 @ [(?h, rq)],
       rs_tasks := remove1 (RefreshSpawned ?h demo_key) (rs_tasks ?s3) @ [RefreshAsked ?h demo_key old]\<rparr>)"
    using s1 s2 s3 s4 by (meson rtranclp.rtrancl_refl rtranclp.rtrancl_into_rtrancl)
  then show ?thesis by (intro exI conjI) (assumption, simp add: refresh_start_def)
qed

theorem refresh_requests_witness:
  "\<exists>s h rq cid q. (refresh_step demo_env False)\<^sup>*\<^sup>* (refresh_start demo_app refresh_worker_new) s \<and> (h, rq) \<in> set (rs_sent s)
     \<and> rq_query rq = context_query cid q \<and> rq_query rq \<noteq> q"
proof -
  obtain s rq where run: "(refresh_step demo_env False)\<^sup>*\<^sup>* (refresh_start demo_app refresh_worker_new) s"
      "rs_sent s = [(hash_query trivial_env demo_key, rq)]"
    using demo_refresh_run by blast
  then obtain cid q where "rq_query rq = context_query cid q" "rq_query rq \<noteq> q"
    using refresh_requests [OF run(1)] by auto
  with run show ?thesis by (metis list.set_intros(1))
qed

theorem refresh_answer_served_witness:
  "\<exists>st' w' e took st''. refresh_answered trivial_env False demo_clock (hash_query trivial_env demo_key) demo_key None
      (Inr (response_of [])) demo_app refresh_worker_new = Some (st', w')
     \<and> execute_query_begin demo_env 0 demo_clock demo_request (lit ''default'') (lit ''r'') None (lit ''http'') False st' =
         (Finished (result_ok (Cached e Hit took)), st'') \<and> ce_response e = response_of []"
proof -
  let ?st = demo_app
  obtain st' w' where a: "refresh_answered (qe_env demo_env) False demo_clock (hash_query (qe_env demo_env) demo_key) demo_key None
      (Inr (response_of [])) ?st refresh_worker_new = Some (st', w')"
    by (simp add: refresh_answered_def refresh_record_def)
  have key: "demo_key = context_query (lit ''default'') (rq_query demo_request)" by (simp add: demo_key_def demo_request_def)
  have room: "cs_per_upstream_limit (ap_cache ?st) = None" "cs_max_memory_bytes (ap_cache ?st) = 0"
    "queue_len (ap_cache ?st) < queue_capacity (ap_cache ?st)"
    "fl_within 1 (cs_ttl_jitter_percent (ap_cache ?st))"
    "cs_fresh_duration (ap_cache ?st) \<le> from_secs (2 ^ 50)" "cs_stale_duration (ap_cache ?st) \<le> from_secs (2 ^ 50)"
    "elapsed (ck_now demo_clock) (ck_now demo_clock) < cs_fresh_duration (ap_cache ?st)" "\<not> ap_paused ?st"
    by (simp_all add: demo_app_def cache_with_def queue_len_def queue_capacity_def s3fifo_new_def fl_within_def from_secs_def
        nanos_per_sec_def demo_clock_def elapsed_def Let_def)
  from refresh_answer_served [OF a key room demo_valid, of None 0 "lit ''r''" "lit ''http''"] show ?thesis
    using a by (simp add: demo_env_def)
qed

theorem detect_drift_extremes_witness:
  "detect_drift (response_of [\<lparr>sr_id = lit ''x'', sr_score = 0, sr_content = [], sr_metadata = None, sr_upstream_id = None\<rparr>])
     (response_of []) = Major"
  using detect_drift_extremes [of "response_of [\<lparr>sr_id = lit ''x'', sr_score = 0, sr_content = [], sr_metadata = None, sr_upstream_id = None\<rparr>]"
      "response_of []"]
  by (simp add: response_of_def)

end
