(* ===== verification/Server.thy ===== *)
theory Server
  imports ConfigLaws Federated Batch Refresh
begin

text \<open>
  The server around the query core (\<open>src/src/proxy/server/mod.rs\<close>): how the parts are built from a configuration,
  the hot reload of a running proxy, the context of a request and the degradation level. The live state is that
  of the query core, with scope filters as the policies of contexts, and the parts that a reload swaps.
  Parameters: the file that the loader returns, the iteration order of tables, and the construction of HTTP
  adapters.
\<close>

section \<open>Requests\<close>

text \<open>A header value is \<open>None\<close> when it is absent or not visible ASCII.\<close>

definition resolve_request_context :: "rstr option \<Rightarrow> agent_identity option \<Rightarrow> rstr" where
  "resolve_request_context header agent =
     (case header of
        Some ctx \<Rightarrow> if ctx \<noteq> [] then ctx
                    else (case Option.bind agent ai_default_context of Some d \<Rightarrow> d | None \<Rightarrow> lit ''default'')
      | None \<Rightarrow> (case Option.bind agent ai_default_context of Some d \<Rightarrow> d | None \<Rightarrow> lit ''default''))"

section \<open>Building the parts\<close>

definition build_cache_store :: "env \<Rightarrow> config_env \<Rightarrow> nat \<Rightarrow> proxy_config \<Rightarrow> cache_store" where
  "build_cache_store E C pid p =
     (let cs0 = with_normalized_matching (store_normalized_matching (px_cache p))
                  (cache_with (from_secs (unat (proxy_fresh_duration_secs p))) (from_secs (unat (proxy_stale_duration_secs p)))
                     (proxy_max_entries p) 0 (fl_clamp01 (proxy_ttl_jitter_percent p)));
          bytes = sat_mul (sat_mul (of_nat (store_max_memory_mb (px_cache p))) 1024) 1024;
          cs1 = (if bytes > 0 then set_max_memory_bytes bytes cs0 else cs0);
          cs2 = (if proxy_cdc_enabled p then with_cdc_sender (sender_new (peer_node_id C pid (px_peer p))) cs1 else cs1)
      in snd (update_config_fingerprint E (px_upstream_url p) (phrase_texts (px_scope p)) cs2))"

definition build_rate_limiter :: "instant \<Rightarrow> proxy_config \<Rightarrow> rate_limiter option" where
  "build_rate_limiter now p =
     (let rl = px_rate_limit p
      in if rate_limit_enabled rl
         then Some (limiter_new now (rate_limit_requests_per_second rl) (rate_limit_burst_size rl)) else None)"

definition build_retry_policy :: "proxy_config \<Rightarrow> retry_policy" where
  "build_retry_policy p =
     (let r = px_retry p
      in if retry_enabled r
         then \<lparr>max_retries = retry_max_retries r, initial_delay = from_millis (unat (retry_initial_delay_ms r)),
               max_delay = from_millis (unat (retry_max_delay_ms r)),
               retry_on = \<lparr>on_network_error = retry_on_network_error r, on_timeout = retry_on_timeout r,
                  on_server_error = retry_on_server_error r, on_rate_limited = retry_on_rate_limited r,
                  on_status_codes = []\<rparr>\<rparr>
         else retry_policy_no_retry)"

datatype 'a live_upstreams = LivePool upstream_pool | LiveSingle 'a | LiveNone

record 'a server_env =
  se_env :: env
  se_config :: config_env
  se_order :: "rstr set \<Rightarrow> rstr list"
  se_create :: "endpoint_config \<Rightarrow> rstr + query_mode"
  se_adapter :: "rstr \<Rightarrow> duration \<Rightarrow> rstr + 'a"

definition build_upstreams :: "'a server_env \<Rightarrow> proxy_config \<Rightarrow> rstr + 'a live_upstreams" where
  "build_upstreams V p =
     (if px_upstreams p \<noteq> []
      then (case pool_new (se_create V) (px_upstreams p) RoundRobin of
              Inl e \<Rightarrow> Inl (lit ''proxy.upstreams: failed to build pool: '' @ e)
            | Inr po \<Rightarrow> Inr (LivePool po))
      else case px_upstream_url p of
             Some url \<Rightarrow>
               (case se_adapter V url (from_secs (unat (proxy_upstream_timeout_secs p))) of
                  Inl e \<Rightarrow> Inl (lit ''proxy.upstreams: failed to build adapter: '' @ e)
                | Inr a \<Rightarrow> Inr (LiveSingle a))
           | None \<Rightarrow> Inr LiveNone)"

definition build_cascade :: "'a live_upstreams \<Rightarrow> proxy_config \<Rightarrow> cascade_config option" where
  "build_cascade u p =
     (case u of LivePool _ \<Rightarrow> if cf_enabled (px_cascade p) then Some (px_cascade p) else None | _ \<Rightarrow> None)"

section \<open>The live state and its reload\<close>

record 'a live_state =
  lv_app :: "scope_filter app_state"
  lv_federated :: federated_search_config
  lv_upstreams :: "'a live_upstreams"
  lv_cascade :: "cascade_config option"
  lv_agents :: "agent_registry option"

record reload_summary =
  sm_sections :: "rstr list"
  sm_restart_required :: "rstr list"

definition policy_of_resolved :: "config_env \<Rightarrow> resolved_ctx \<Rightarrow> scope_filter resolved_context" where
  "policy_of_resolved C r =
     \<lparr>rc_id = rx_id r, rc_description = rx_description r,
      rc_legs = map (\<lambda>l. (ec_url (rv_endpoint l), ec_index (rv_endpoint l))) (rx_legs r),
      rc_is_default = rx_is_default r, rc_policy = scope_filter_from_config C (rx_scope r)\<rparr>"

definition reload_contexts ::
  "'a server_env \<Rightarrow> clock \<Rightarrow> config_file \<Rightarrow> scope_filter context_manager \<Rightarrow> rstr list \<times> scope_filter context_manager" where
  "reload_contexts V t cf mg =
     (case resolve_contexts (se_order V) cf of
        Inr resolved \<Rightarrow>
          if resolved \<noteq> []
          then ([lit ''contexts='' @ nat_to_dec (length resolved)],
                install_resolved (ck_now t) (unix_secs (ck_wall t)) (map (policy_of_resolved (se_config V)) resolved) mg)
          else ([], mg)
      | Inl _ \<Rightarrow> ([], mg))"

definition as_secs_u64 :: "duration \<Rightarrow> u64" where
  "as_secs_u64 d = of_nat (d div nanos_per_sec)"

definition reload_fresh :: "proxy_config \<Rightarrow> cache_store \<Rightarrow> rstr list \<times> cache_store" where
  "reload_fresh p cs =
     (let new = proxy_fresh_duration_secs p
      in if new \<noteq> as_secs_u64 (cs_fresh_duration cs)
         then ([lit ''cache.fresh_duration_secs='' @ nat_to_dec (unat new)], set_fresh_duration (from_secs (unat new)) cs)
         else ([], cs))"

definition reload_stale :: "proxy_config \<Rightarrow> cache_store \<Rightarrow> rstr list \<times> cache_store" where
  "reload_stale p cs =
     (let new = proxy_stale_duration_secs p
      in if new \<noteq> as_secs_u64 (cs_stale_duration cs)
         then ([lit ''cache.stale_duration_secs='' @ nat_to_dec (unat new)], set_stale_duration (from_secs (unat new)) cs)
         else ([], cs))"

definition reload_cache :: "proxy_config \<Rightarrow> cache_store \<Rightarrow> rstr + rstr list \<times> cache_store" where
  "reload_cache p cs =
     (let new = proxy_max_entries p
      in case (if new \<noteq> cs_max_entries cs
               then (case set_max_entries new cs of
                       Inl e \<Rightarrow> Inl (lit ''cache.max_entries: '' @ e)
                     | Inr cs1 \<Rightarrow> Inr ([lit ''cache.max_entries='' @ nat_to_dec new], cs1))
               else Inr ([], cs)) of
           Inl e \<Rightarrow> Inl e
         | Inr (s1, cs1) \<Rightarrow>
             let (s2, cs2) = reload_fresh p cs1; (s3, cs3) = reload_stale p cs2 in Inr (s1 @ s2 @ s3, cs3))"

definition show_bool :: "bool \<Rightarrow> rstr" where
  "show_bool b = (if b then lit ''true'' else lit ''false'')"

text \<open>The commit of the new federated search, upstreams, cascade, thresholds and agents; the trip state of the breaker stays.\<close>

definition commit_upstreams :: "proxy_config \<Rightarrow> 'a live_upstreams \<Rightarrow> 'a live_state \<Rightarrow> rstr list \<times> 'a live_state" where
  "commit_upstreams p u lv =
     (let cascade = build_cascade u p;
          app = (lv_app lv)\<lparr>ap_has_pool := (case u of LivePool _ \<Rightarrow> True | _ \<Rightarrow> False),
                  ap_has_upstream := (case u of LiveSingle _ \<Rightarrow> True | _ \<Rightarrow> False), ap_has_cascade := (cascade \<noteq> None)\<rparr>;
          names = (case u of
              LivePool _ \<Rightarrow> (lit ''proxy.upstreams ('' @ nat_to_dec (length (px_upstreams p)) @ lit '' in pool)'')
                             # (if cascade \<noteq> None then [lit ''proxy.cascade''] else [])
            | LiveSingle _ \<Rightarrow> [lit ''proxy.upstreams (single: '' @ unwrap_or (px_upstream_url p) [] @ lit '')'']
            | LiveNone \<Rightarrow> [lit ''proxy.upstreams (none)''])
      in (names, lv\<lparr>lv_app := app, lv_upstreams := u, lv_cascade := cascade\<rparr>))"

definition commit_agents :: "instant \<Rightarrow> config_file \<Rightarrow> proxy_config \<Rightarrow> 'a live_state \<Rightarrow> rstr list \<times> 'a live_state" where
  "commit_agents now cf p lv =
     (let agents = (if cg_agents cf \<noteq> [] then cg_agents cf else px_agents p)
      in if agents = [] then ([lit ''agents (none; auth disabled)''], lv\<lparr>lv_agents := None\<rparr>)
         else ([lit ''agents ('' @ nat_to_dec (card (dom (rg_agents (registry_from_config now agents)))) @ lit '' registered)''],
               lv\<lparr>lv_agents := Some (registry_from_config now agents)\<rparr>))"

definition restart_sections :: "proxy_config \<Rightarrow> rstr list" where
  "restart_sections p =
     (if peer_enabled (px_peer p) then [lit ''proxy.peer (restart to apply)''] else [])
     @ (case px_api_key p of Some k \<Rightarrow> if k \<noteq> [] then [lit ''proxy.api_key (auth key; restart to apply)''] else [] | None \<Rightarrow> [])
     @ (if rate_limit_enabled (px_rate_limit p) then [lit ''proxy.rate_limit (restart to apply)''] else [])"

definition apply_reload ::
  "'a server_env \<Rightarrow> clock \<Rightarrow> rstr + config_file \<Rightarrow> 'a live_state \<Rightarrow> (rstr + reload_summary) \<times> 'a live_state" where
  "apply_reload V t loaded lv =
     (case loaded of
        Inl e \<Rightarrow> (Inl e, lv)
      | Inr cf \<Rightarrow>
          (case effective_proxy (se_order V) cf of
             Inl e \<Rightarrow> (Inl (lit ''config project: '' @ e), lv)
           | Inr p \<Rightarrow>
               let (s1, mg) = reload_contexts V t cf (ap_contexts (lv_app lv));
                   lv1 = lv\<lparr>lv_app := (lv_app lv)\<lparr>ap_contexts := mg\<rparr>\<rparr>
               in case reload_cache p (ap_cache (lv_app lv1)) of
                    Inl e \<Rightarrow> (Inl e, lv1)
                  | Inr (s2, cs) \<Rightarrow>
                      let lv2 = lv1\<lparr>lv_app := (lv_app lv1)\<lparr>ap_cache := cs\<rparr>\<rparr>
                      in case build_upstreams V p of
                           Inl e \<Rightarrow> (Inl e, lv2)
                         | Inr u \<Rightarrow>
                             let lv3 = lv2\<lparr>lv_federated := federated_search_from (se_config V) (px_federated p)\<rparr>;
                                 s3 = [lit ''proxy.federated (enabled='' @ show_bool (federated_enabled (px_federated p)) @ lit '')''];
                                 (s4, lv4) = commit_upstreams p u lv3;
                                 lv5 = lv4\<lparr>lv_app := (lv_app lv4)\<lparr>ap_circuit := circuit_set_config
                                         (to_circuit_breaker_config (px_circuit_breaker (cg_proxy cf))) (ap_circuit (lv_app lv4))\<rparr>\<rparr>;
                                 (s6, lv6) = commit_agents (ck_now t) cf p lv5
                             in (Inr \<lparr>sm_sections = s1 @ s2 @ s3 @ s4 @ [lit ''proxy.circuit_breaker''] @ s6,
                                      sm_restart_required = restart_sections p\<rparr>, lv6)))"

section \<open>Degradation\<close>

datatype degradation_level = FullOperation | StaleServing | ReadOnly | TextOnly | StartupFailure

fun level_code :: "degradation_level \<Rightarrow> nat" where
  "level_code FullOperation = 0"
| "level_code StaleServing = 1"
| "level_code ReadOnly = 2"
| "level_code TextOnly = 3"
| "level_code StartupFailure = 4"

definition level_is_ready :: "degradation_level \<Rightarrow> bool" where
  "level_is_ready l \<longleftrightarrow> l = FullOperation \<or> l = StaleServing"

definition pool_online_count :: "upstream_pool \<Rightarrow> nat" where
  "pool_online_count po = length (filter (\<lambda>u. health_status (pu_health u) = Online) (po_upstreams po))"

definition determine_degradation_level :: "'a live_state \<Rightarrow> degradation_level" where
  "determine_degradation_level lv =
     (case lv_upstreams lv of
        LiveNone \<Rightarrow> StartupFailure
      | LiveSingle _ \<Rightarrow> FullOperation
      | LivePool po \<Rightarrow>
          if pool_online_count po = 0
          then (if cs_entries (ap_cache (lv_app lv)) \<noteq> [] then StaleServing else StartupFailure)
          else FullOperation)"

section \<open>What a reload changes\<close>

lemma as_secs_from_secs [simp]: "as_secs_u64 (from_secs (unat x)) = x"
  by (simp add: as_secs_u64_def from_secs_def nanos_per_sec_def)

lemma reload_cache_effect:
  assumes "reload_cache p cs = Inr (s, cs')"
  shows "\<exists>fresh stale. cs' = cs\<lparr>cs_max_entries := proxy_max_entries p, cs_fresh_duration := fresh, cs_stale_duration := stale\<rparr>
    \<and> as_secs_u64 fresh = proxy_fresh_duration_secs p \<and> as_secs_u64 stale = proxy_stale_duration_secs p"
proof -
  obtain cs1 where c1: "cs1 = cs\<lparr>cs_max_entries := proxy_max_entries p\<rparr>"
      "cs' = snd (reload_stale p (snd (reload_fresh p cs1)))"
    using assms by (auto simp: reload_cache_def set_max_entries_def Let_def split: if_splits sum.splits prod.splits)
  have f: "\<exists>fresh. snd (reload_fresh p cs1) = cs1\<lparr>cs_fresh_duration := fresh\<rparr> \<and> as_secs_u64 fresh = proxy_fresh_duration_secs p"
    by (cases "proxy_fresh_duration_secs p = as_secs_u64 (cs_fresh_duration cs1)")
      (auto simp: reload_fresh_def set_fresh_duration_def Let_def intro: exI [of _ "cs_fresh_duration cs1"])
  then obtain fresh where fr: "snd (reload_fresh p cs1) = cs1\<lparr>cs_fresh_duration := fresh\<rparr>"
    "as_secs_u64 fresh = proxy_fresh_duration_secs p" by blast
  have "\<exists>stale. snd (reload_stale p (cs1\<lparr>cs_fresh_duration := fresh\<rparr>)) = cs1\<lparr>cs_fresh_duration := fresh, cs_stale_duration := stale\<rparr>
      \<and> as_secs_u64 stale = proxy_stale_duration_secs p"
    by (cases "proxy_stale_duration_secs p = as_secs_u64 (cs_stale_duration cs1)")
      (auto simp: reload_stale_def set_stale_duration_def Let_def intro: exI [of _ "cs_stale_duration cs1"])
  then show ?thesis using c1 fr by auto
qed

definition unset_cache :: "cache_store \<Rightarrow> cache_store" where
  "unset_cache cs = cs\<lparr>cs_max_entries := 0, cs_fresh_duration := 0, cs_stale_duration := 0\<rparr>"

text \<open>The fields of the live state that the reload does not touch before its commit.\<close>

definition same_core :: "'a live_state \<Rightarrow> 'a live_state \<Rightarrow> bool" where
  "same_core lv lv' \<longleftrightarrow> lv_federated lv' = lv_federated lv \<and> lv_upstreams lv' = lv_upstreams lv \<and> lv_cascade lv' = lv_cascade lv
     \<and> lv_agents lv' = lv_agents lv \<and> ap_circuit (lv_app lv') = ap_circuit (lv_app lv)
     \<and> unset_cache (ap_cache (lv_app lv')) = unset_cache (ap_cache (lv_app lv))"

text \<open>The state after a reload that gets as far as the commit, in one equation.\<close>

definition reloaded ::
  "'a server_env \<Rightarrow> clock \<Rightarrow> config_file \<Rightarrow> proxy_config \<Rightarrow> scope_filter context_manager \<Rightarrow> cache_store \<Rightarrow>
   'a live_upstreams \<Rightarrow> 'a live_state \<Rightarrow> 'a live_state" where
  "reloaded V t cf p mg cs u lv =
     (let agents = (if cg_agents cf \<noteq> [] then cg_agents cf else px_agents p); cascade = build_cascade u p
      in \<lparr>lv_app = (lv_app lv)\<lparr>ap_contexts := mg, ap_cache := cs, ap_has_pool := (case u of LivePool _ \<Rightarrow> True | _ \<Rightarrow> False),
              ap_has_upstream := (case u of LiveSingle _ \<Rightarrow> True | _ \<Rightarrow> False), ap_has_cascade := (cascade \<noteq> None),
              ap_circuit := circuit_set_config (to_circuit_breaker_config (px_circuit_breaker (cg_proxy cf))) (ap_circuit (lv_app lv))\<rparr>,
          lv_federated = federated_search_from (se_config V) (px_federated p), lv_upstreams = u, lv_cascade = cascade,
          lv_agents = (if agents = [] then None else Some (registry_from_config (ck_now t) agents))\<rparr>)"

lemma reload_commits:
  assumes "apply_reload V t loaded lv = (Inr s, lv')"
  obtains cf p mg s2 cs u where "loaded = Inr cf" and "effective_proxy (se_order V) cf = Inr p"
    and "mg = snd (reload_contexts V t cf (ap_contexts (lv_app lv)))"
    and "reload_cache p (ap_cache (lv_app lv)) = Inr (s2, cs)" and "build_upstreams V p = Inr u"
    and "lv' = reloaded V t cf p mg cs u lv"
proof -
  from assms obtain cf where cf: "loaded = Inr cf" by (cases loaded) (auto simp: apply_reload_def)
  with assms obtain p where p: "effective_proxy (se_order V) cf = Inr p"
    by (cases "effective_proxy (se_order V) cf") (auto simp: apply_reload_def)
  obtain s1 mg where mg: "reload_contexts V t cf (ap_contexts (lv_app lv)) = (s1, mg)" by fastforce
  from assms cf p mg obtain s2 cs where cs: "reload_cache p (ap_cache (lv_app lv)) = Inr (s2, cs)"
    by (cases "reload_cache p (ap_cache (lv_app lv))") (auto simp: apply_reload_def)
  from assms cf p mg cs obtain u where u: "build_upstreams V p = Inr u"
    by (cases "build_upstreams V p") (auto simp: apply_reload_def)
  have "lv' = reloaded V t cf p mg cs u lv"
    using assms cf p mg cs u
    by (cases lv) (auto simp: apply_reload_def commit_upstreams_def commit_agents_def reloaded_def Let_def split: if_splits)
  then show thesis using that cf p mg cs u by simp
qed

lemma reloaded_adaptive: "ap_adaptive (lv_app (reloaded V t cf p mg cs u lv)) = ap_adaptive (lv_app lv)"
  by (simp add: reloaded_def Let_def)

section \<open>The policies of contexts after a reload\<close>

lemma policy_install_one: "policy_for i (install_one now secs r mg) = (if i = rc_id r then Some (rc_policy r) else policy_for i mg)"
  by (auto simp: install_one_def policy_for_def context_touch_def Let_def split: option.split)

lemma policy_install_all:
  assumes "distinct (map rc_id rs)"
  shows "r \<in> set rs \<Longrightarrow> policy_for (rc_id r) (foldl (\<lambda>m r. install_one now secs r m) mg rs) = Some (rc_policy r)"
    and "i \<notin> rc_id ` set rs \<Longrightarrow> policy_for i (foldl (\<lambda>m r. install_one now secs r m) mg rs) = policy_for i mg"
  using assms by (induction rs rule: rev_induct) (auto simp: policy_install_one image_iff)

lemma policy_install_resolved:
  "policy_for i (install_resolved now secs rs mg) = policy_for i (foldl (\<lambda>m r. install_one now secs r m) mg rs)"
  by (simp add: install_resolved_def Let_def policy_for_def)

lemma resolved_ids:
  assumes "resolve_contexts ord cf = Inr rs" and "table_order ord"
  shows "distinct (map rx_id rs)"
    and "fmlookup (cg_contexts cf) cid = Some c \<Longrightarrow> \<exists>r \<in> set rs. rx_id r = cid \<and> rx_scope r = nc_scope c"
    and "fmlookup (cg_contexts cf) cid = None \<Longrightarrow> cid \<notin> rx_id ` set rs"
proof -
  have all: "list_all2 (\<lambda>x r. resolve_context (cg_upstreams cf) (cg_embedders cf) x = Inr r) (table_entries ord (cg_contexts cf)) rs"
  proof (cases "cg_contexts cf = fmempty")
    case True
    have "ord {} = []" using assms(2) unfolding table_order_def by (metis finite.emptyI set_empty)
    then show ?thesis using assms(1) True by (simp add: resolve_contexts_def resolve_all_contexts_def table_entries_def)
  qed (use assms(1) in \<open>simp add: resolve_contexts_def resolve_all_contexts_def collect_Inr\<close>)
  have rid: "rx_id r = fst x \<and> rx_scope r = nc_scope (snd x)" if "resolve_context us es x = Inr r" for us es x r
    using that by (cases x) (auto simp: resolve_context_def split: sum.splits)
  have "list_all2 (\<lambda>x r. fst x = rx_id r) (table_entries ord (cg_contexts cf)) rs"
    using all by (rule list_all2_mono) (use rid in auto)
  then have ids: "map fst (table_entries ord (cg_contexts cf)) = map rx_id rs"
    by (simp add: list_all2_map1 list_all2_map2 flip: list.rel_eq)
  have "map fst (table_entries ord (cg_contexts cf)) = ord (fmdom' (cg_contexts cf))" by (simp add: table_entries_def comp_def)
  then show "distinct (map rx_id rs)" using ids assms(2) by (simp add: table_order_def finite_fmdom')
  note entries = set_table_entries [OF assms(2), of "cg_contexts cf"]
  show "\<exists>r \<in> set rs. rx_id r = cid \<and> rx_scope r = nc_scope c" if "fmlookup (cg_contexts cf) cid = Some c"
  proof -
    have "(cid, c) \<in> set (table_entries ord (cg_contexts cf))" using that entries by simp
    from list_all2_sets(2) [OF all this] show ?thesis using rid by fastforce
  qed
  show "cid \<notin> rx_id ` set rs" if "fmlookup (cg_contexts cf) cid = None"
  proof -
    have "rx_id ` set rs = fst ` set (table_entries ord (cg_contexts cf))" using arg_cong [OF ids, of set] by simp
    then show ?thesis using that entries by force
  qed
qed

text \<open>The policies after a file has been installed: the contexts of the file have the scope it gives them, the others what they had.\<close>

definition file_policies ::
  "config_env \<Rightarrow> config_file \<Rightarrow> scope_filter context_manager \<Rightarrow> scope_filter context_manager \<Rightarrow> bool" where
  "file_policies C cf mg mg' \<longleftrightarrow> (\<forall>cid. policy_for cid mg' =
     (case fmlookup (cg_contexts cf) cid of
        Some c \<Rightarrow> Some (scope_filter_from_config C (nc_scope c))
      | None \<Rightarrow> policy_for cid mg))"

lemma reload_policies:
  assumes "effective_proxy (se_order V) cf = Inr p" and "table_order (se_order V)"
  shows "file_policies (se_config V) cf mg (snd (reload_contexts V t cf mg))"
proof -
  obtain rs where rs: "resolve_contexts (se_order V) cf = Inr rs"
    using assms(1) by (cases "resolve_contexts (se_order V) cf") (auto simp: effective_proxy_def Let_def)
  note ids = resolved_ids [OF rs assms(2)]
  let ?rs = "map (policy_of_resolved (se_config V)) rs"
  have rid: "rc_id (policy_of_resolved C y) = rx_id y" for C y by (simp add: policy_of_resolved_def)
  have d: "distinct (map rc_id ?rs)" using ids(1) by (simp add: rid comp_def)
  let ?mg = "foldl (\<lambda>m r. install_one (ck_now t) (unix_secs (ck_wall t)) r m) mg ?rs"
  have mg: "policy_for cid (snd (reload_contexts V t cf mg)) = policy_for cid ?mg" for cid
    by (simp add: reload_contexts_def rs policy_install_resolved)
  have "policy_for cid ?mg = Some (scope_filter_from_config (se_config V) (nc_scope c))" if c: "fmlookup (cg_contexts cf) cid = Some c" for cid c
  proof -
    obtain r where r: "r \<in> set rs" "rx_id r = cid" "rx_scope r = nc_scope c" using ids(2) [OF c] by blast
    then have "policy_of_resolved (se_config V) r \<in> set ?rs" by simp
    from policy_install_all(1) [OF d this] show ?thesis by (simp add: rid r) (simp add: policy_of_resolved_def r)
  qed
  moreover have "policy_for cid ?mg = policy_for cid mg" if "fmlookup (cg_contexts cf) cid = None" for cid
    using policy_install_all(2) [OF d, of cid] ids(3) [OF that] by (simp add: rid image_image)
  ultimately show ?thesis by (simp add: file_policies_def mg split: option.split)
qed

section \<open>The outcome of a reload\<close>

text \<open>C12. A reload. When it succeeds, what runs is what the new file says: the upstreams built from it, the cascade, the federated
  search, the limits of the cache, the thresholds of the breaker, the scope of every context of the file, and the agents: a registry built
  from the agents of the file, or no registry, hence no authentication, when it has none; the entries of the cache, the trip state
  of the breaker and the policies of contexts that the file does not have are kept. When it fails, the upstreams, the cascade, the
  federated search, the agents, the breaker and the cached entries are as before, and when the file does not load or has no
  contexts nothing has changed at all; but when the file was good enough to be projected, the scopes of its contexts are already
  in force, and so is its capacity of the cache unless that is zero. (An iteration over a table visits every key once.)\<close>

theorem reload_outcome:
  assumes "table_order (se_order V)"
  shows "case apply_reload V t loaded lv of
     (Inl e, lv') \<Rightarrow> same_core lv lv'
       \<and> ((\<forall>cf. loaded = Inr cf \<longrightarrow> \<not> is_context_rooted cf) \<longrightarrow> lv' = lv)
       \<and> (\<forall>cf p. loaded = Inr cf \<and> effective_proxy (se_order V) cf = Inr p \<longrightarrow>
            file_policies (se_config V) cf (ap_contexts (lv_app lv)) (ap_contexts (lv_app lv'))
            \<and> (proxy_max_entries p \<noteq> 0 \<longrightarrow> cs_max_entries (ap_cache (lv_app lv')) = proxy_max_entries p))
   | (Inr s, lv') \<Rightarrow> \<exists>cf p u. loaded = Inr cf \<and> effective_proxy (se_order V) cf = Inr p \<and> build_upstreams V p = Inr u
       \<and> lv_upstreams lv' = u \<and> lv_cascade lv' = build_cascade u p
       \<and> lv_federated lv' = federated_search_from (se_config V) (px_federated p)
       \<and> lv_agents lv' =
            (if cg_agents cf \<noteq> [] then Some (registry_from_config (ck_now t) (cg_agents cf))
             else if px_agents p \<noteq> [] then Some (registry_from_config (ck_now t) (px_agents p))
             else None)
       \<and> file_policies (se_config V) cf (ap_contexts (lv_app lv)) (ap_contexts (lv_app lv'))
       \<and> cs_max_entries (ap_cache (lv_app lv')) = proxy_max_entries p
       \<and> as_secs_u64 (cs_fresh_duration (ap_cache (lv_app lv'))) = proxy_fresh_duration_secs p
       \<and> as_secs_u64 (cs_stale_duration (ap_cache (lv_app lv'))) = proxy_stale_duration_secs p
       \<and> unset_cache (ap_cache (lv_app lv')) = unset_cache (ap_cache (lv_app lv))
       \<and> ap_circuit (lv_app lv') = (ap_circuit (lv_app lv))
            \<lparr>cb_config := to_circuit_breaker_config (px_circuit_breaker (cg_proxy cf))\<rparr>"
proof -
  obtain r lv' where a: "apply_reload V t loaded lv = (r, lv')" by fastforce
  show ?thesis
  proof (cases r)
    case (Inr s)
    obtain cf p mg s2 cs u where k: "loaded = Inr cf" "effective_proxy (se_order V) cf = Inr p"
      "mg = snd (reload_contexts V t cf (ap_contexts (lv_app lv)))"
      "reload_cache p (ap_cache (lv_app lv)) = Inr (s2, cs)" "build_upstreams V p = Inr u" "lv' = reloaded V t cf p mg cs u lv"
      by (rule reload_commits [OF a [unfolded Inr]])
    have mg: "file_policies (se_config V) cf (ap_contexts (lv_app lv)) (ap_contexts (lv_app lv'))"
      using reload_policies [OF k(2) assms] by (simp add: k(3,6) reloaded_def Let_def)
    have ag: "lv_agents lv' = (if cg_agents cf \<noteq> [] then Some (registry_from_config (ck_now t) (cg_agents cf))
        else if px_agents p \<noteq> [] then Some (registry_from_config (ck_now t) (px_agents p)) else None)"
      by (simp add: k(6) reloaded_def Let_def)
    have r: "lv_upstreams lv' = u" "lv_cascade lv' = build_cascade u p" "ap_cache (lv_app lv') = cs"
      "lv_federated lv' = federated_search_from (se_config V) (px_federated p)"
      "ap_circuit (lv_app lv') = (ap_circuit (lv_app lv))\<lparr>cb_config := to_circuit_breaker_config (px_circuit_breaker (cg_proxy cf))\<rparr>"
      by (simp_all add: k(6) reloaded_def Let_def circuit_set_config_def)
    obtain fresh stale where cs: "cs = (ap_cache (lv_app lv))\<lparr>cs_max_entries := proxy_max_entries p, cs_fresh_duration := fresh,
        cs_stale_duration := stale\<rparr>" "as_secs_u64 fresh = proxy_fresh_duration_secs p" "as_secs_u64 stale = proxy_stale_duration_secs p"
      using reload_cache_effect [OF k(4)] by blast
    show ?thesis unfolding a Inr prod.case sum.case r
      by (intro exI [of _ cf] exI [of _ p] exI [of _ u] conjI k ag mg refl) (simp_all add: cs unset_cache_def)
  next
    case (Inl e)
    show ?thesis
    proof (cases "\<exists>cf p. loaded = Inr cf \<and> effective_proxy (se_order V) cf = Inr p")
      case False
      then have "lv' = lv" using a Inl by (auto simp: apply_reload_def split: sum.splits)
      then show ?thesis unfolding a Inl prod.case sum.case using False by (auto simp: same_core_def)
    next
      case True
      then obtain cf p where cf: "loaded = Inr cf" "effective_proxy (se_order V) cf = Inr p" by blast
      obtain s1 mg where mg: "reload_contexts V t cf (ap_contexts (lv_app lv)) = (s1, mg)" by fastforce
      have pol: "file_policies (se_config V) cf (ap_contexts (lv_app lv)) mg" using reload_policies [OF cf(2) assms, of _ t] mg by (metis snd_conv)
      have rooted: "is_context_rooted cf"
      proof (rule ccontr)
        assume "\<not> is_context_rooted cf"
        then show False using cf(2) by (simp add: is_context_rooted_def effective_proxy_def resolve_contexts_def
            resolve_all_contexts_def project_to_proxy_def Let_def)
      qed
      show ?thesis
      proof (cases "reload_cache p (ap_cache (lv_app lv))")
        case fail: (Inl e')
        then have "proxy_max_entries p = 0"
          by (auto simp: reload_cache_def set_max_entries_def Let_def split: if_splits sum.splits prod.splits)
        moreover have "lv' = lv\<lparr>lv_app := (lv_app lv)\<lparr>ap_contexts := mg\<rparr>\<rparr>"
          using a Inl cf mg fail by (auto simp: apply_reload_def Let_def)
        ultimately show ?thesis unfolding a Inl prod.case sum.case using cf rooted pol by (auto simp: same_core_def)
      next
        case ok: (Inr x)
        obtain s2 cs where x: "x = (s2, cs)" by fastforce
        have "lv' = lv\<lparr>lv_app := (lv_app lv)\<lparr>ap_contexts := mg, ap_cache := cs\<rparr>\<rparr>"
          using a Inl cf mg ok x by (auto simp: apply_reload_def Let_def split: sum.splits prod.splits)
        then show ?thesis unfolding a Inl prod.case sum.case using cf rooted pol reload_cache_effect [OF ok [unfolded x]]
          by (auto simp: same_core_def unset_cache_def)
      qed
    qed
  qed
qed

section \<open>The scope of a context after a reload\<close>

text \<open>C13. After a successful reload every context of the new file is filtered by the scope that the file gives it: an answer that
  is then fetched for the context holds what the scope filter of the file leaves of the upstream's results. A
  context that the new file no longer has keeps the policy it had.\<close>

theorem reload_applies_scope:
  assumes "apply_reload V t (Inr cf) lv = (Inr s, lv')" and "table_order (se_order V)"
    and "fmlookup (cg_contexts cf) cid = Some c" and "pd_context_id p = cid"
    and "qe_apply_filter Q = apply_scope_filter (se_config V)"
    and "rr_result rr = Inr response" and "leader_finish Q t' p rr (lv_app lv') = (Finished x, st')"
  shows "qr_results (into_query_response (qx_response x))
      = apply_scope_filter (se_config V) (scope_filter_from_config (se_config V) (nc_scope c)) (qr_results response)
    \<and> (\<forall>gone. fmlookup (cg_contexts cf) gone = None \<longrightarrow>
         policy_for gone (ap_contexts (lv_app lv')) = policy_for gone (ap_contexts (lv_app lv)))"
proof -
  obtain p0 mg s2 cs u where k: "effective_proxy (se_order V) cf = Inr p0"
      "mg = snd (reload_contexts V t cf (ap_contexts (lv_app lv)))" "lv' = reloaded V t cf p0 mg cs u lv"
    using reload_commits [OF assms(1)] by (metis sum.inject(2))
  have pol: "file_policies (se_config V) cf (ap_contexts (lv_app lv)) (ap_contexts (lv_app lv'))"
    using reload_policies [OF k(1) assms(2)] by (simp add: k(2,3) reloaded_def Let_def)
  then have "policy_for cid (ap_contexts (lv_app lv')) = Some (scope_filter_from_config (se_config V) (nc_scope c))"
    using assms(3) by (simp add: file_policies_def)
  then have "scope_filter_for cid (lv_app lv') = scope_filter_from_config (se_config V) (nc_scope c)"
    by (simp add: scope_filter_for_def)
  moreover obtain took where "x = result_ok (SharedFresh ((leader_response Q t' p response (lv_app lv'))\<lparr>qr_took_ms := took\<rparr>) took)"
    using leader_finish_success(1) [OF assms(6,7)] by blast
  ultimately have "qr_results (into_query_response (qx_response x))
      = apply_scope_filter (se_config V) (scope_filter_from_config (se_config V) (nc_scope c)) (qr_results response)"
    using assms(4,5) by (simp add: result_ok_def leader_response_def)
  moreover have "policy_for gone (ap_contexts (lv_app lv')) = policy_for gone (ap_contexts (lv_app lv))"
    if "fmlookup (cg_contexts cf) gone = None" for gone
    using pol that by (simp add: file_policies_def)
  ultimately show ?thesis by blast
qed

section \<open>Readiness\<close>

text \<open>The proxy is ready exactly when it has a single upstream, or a pool with an online member, or a pool and a cached
  answer. A pool whose members are all degraded, which still answer queries, is reported as a startup failure
  while the cache is empty.\<close>

theorem readiness:
  "(level_is_ready (determine_degradation_level lv) \<longleftrightarrow>
      (case lv_upstreams lv of LiveNone \<Rightarrow> False | LiveSingle _ \<Rightarrow> True
       | LivePool po \<Rightarrow> (\<exists>u \<in> set (po_upstreams po). health_status (pu_health u) = Online) \<or> cs_entries (ap_cache (lv_app lv)) \<noteq> []))
   \<and> (\<forall>po. lv_upstreams lv = LivePool po \<and> cs_entries (ap_cache (lv_app lv)) = []
        \<and> (\<forall>u \<in> set (po_upstreams po). pu_enabled u \<and> health_status (pu_health u) = Degraded) \<longrightarrow>
        determine_degradation_level lv = StartupFailure \<and> pool_available po = [0..<length (po_upstreams po)])"
proof -
  have all: "pool_available po = [0..<length (po_upstreams po)]"
    if "\<forall>u \<in> set (po_upstreams po). pu_enabled u \<and> health_status (pu_health u) = Degraded" for po
    using that unfolding pool_available_def by (intro filter_True) (auto simp: upstream_is_available_def)
  show ?thesis
    using all by (auto simp: determine_degradation_level_def level_is_ready_def pool_online_count_def filter_empty_conv
        split: live_upstreams.splits)
qed

section \<open>Examples\<close>

definition demo_server :: "unit server_env" where
  "demo_server = \<lparr>se_env = trivial_env, se_config = demo_config_env, se_order = in_order,
     se_create = (\<lambda>_. Inr TextNative), se_adapter = (\<lambda>_ _. Inr ())\<rparr>"

definition demo_live :: "unit live_state" where
  "demo_live = \<lparr>lv_app = \<lparr>ap_paused = False, ap_tracker = client_tracker_new, ap_metrics = metrics_new,
       ap_contexts = manager_new 0 0 context_config_default, ap_cache = cache_with 10 20 100 0 (Fin 0),
       ap_stats = tracker_new 10, ap_circuit = circuit_new 0 circuit_config_default,
       ap_coalescer = coalescer_empty, ap_adaptive = adaptive_new adaptive_config_default,
       ap_tracked_queries = None, ap_upstream_id = lit ''u'', ap_scope_filter = scope_filter_none,
       ap_has_cascade = False, ap_has_pool = False, ap_has_upstream = False, ap_spawned = []\<rparr>,
     lv_federated = federated_search_default, lv_upstreams = LivePool pool_empty, lv_cascade = None, lv_agents = None\<rparr>"

lemma demo_projection: "\<exists>p. effective_proxy in_order demo_file = Inr p \<and> px_upstreams p \<noteq> [] \<and> px_max_entries p = None \<and> px_agents p = []"
proof -
  have "cg_agents demo_file = []" "px_agents (snd (normalize_upstreams (cg_proxy demo_file))) = []" "px_max_entries (snd (normalize_upstreams (cg_proxy demo_file))) = None" "xc_max_entries (nc_cache (demo_context True ''x'')) = None"
    by (simp_all add: demo_file_def config_default_def normalize_upstreams_def proxy_config_default_def demo_context_def)
  then show ?thesis
    by (simp add: effective_proxy_def demo_resolve_all project_to_proxy_def demo_resolved_def Let_def
        demo_endpoint_fields)
qed

lemma demo_reload: "\<exists>s lv'. apply_reload demo_server demo_clock (Inr demo_file) (demo_live\<lparr>lv_agents := ag\<rparr>) = (Inr s, lv')
    \<and> ap_adaptive (lv_app lv') = ap_adaptive (lv_app (demo_live\<lparr>lv_agents := ag\<rparr>))"
proof -
  obtain p where p: "effective_proxy in_order demo_file = Inr p" "px_upstreams p \<noteq> []" "px_max_entries p = None"
    using demo_projection by blast
  have "\<exists>us. collect_results (map (pooled_upstream_new (\<lambda>_. Inr TextNative)) cs) = Inr us" for cs
    by (induction cs) (auto simp: pooled_upstream_new_def)
  then obtain us where "collect_results (map (pooled_upstream_new (\<lambda>_. Inr TextNative)) (px_upstreams p)) = Inr us" by blast
  then have "build_upstreams demo_server p = Inr (LivePool (pool_of us RoundRobin))"
    using p(2) by (simp add: build_upstreams_def demo_server_def pool_new_def)
  then obtain u where u: "build_upstreams demo_server p = Inr u" by blast
  have "proxy_max_entries p \<noteq> 0" using p(3) by (simp add: proxy_max_entries_def unwrap_or_def)
  then obtain x where c: "reload_cache p (ap_cache (lv_app (demo_live\<lparr>lv_agents := ag\<rparr>))) = Inr x"
    by (cases "reload_cache p (ap_cache (lv_app (demo_live\<lparr>lv_agents := ag\<rparr>)))")
      (auto simp: reload_cache_def set_max_entries_def Let_def split: if_splits prod.splits)
  have ord: "se_order demo_server = in_order" by (simp add: demo_server_def)
  have "\<exists>s lv'. apply_reload demo_server demo_clock (Inr demo_file) (demo_live\<lparr>lv_agents := ag\<rparr>) = (Inr s, lv')"
    using p(1) u c by (cases x) (simp add: apply_reload_def ord Let_def case_prod_beta)
  then obtain s lv' where r: "apply_reload demo_server demo_clock (Inr demo_file) (demo_live\<lparr>lv_agents := ag\<rparr>) = (Inr s, lv')" by blast
  from reload_commits [OF r] have "ap_adaptive (lv_app lv') = ap_adaptive (lv_app (demo_live\<lparr>lv_agents := ag\<rparr>))"
    by (metis (no_types, lifting) reloaded_adaptive)
  then show ?thesis using r by blast
qed

text \<open>A reload to a file without agents, of a proxy that had some.\<close>

theorem reload_outcome_witness:
  "\<exists>s lv'. apply_reload demo_server demo_clock (Inr demo_file) (demo_live\<lparr>lv_agents := Some registry_new\<rparr>) = (Inr s, lv')
     \<and> lv_agents lv' = None
     \<and> policy_for (lit ''a'') (ap_contexts (lv_app lv')) = Some (scope_filter_from_config demo_config_env scope_none)"
proof -
  let ?lv = "demo_live\<lparr>lv_agents := Some registry_new\<rparr>"
  obtain s lv' where r: "apply_reload demo_server demo_clock (Inr demo_file) ?lv = (Inr s, lv')" using demo_reload by blast
  have o: "table_order (se_order demo_server)" using table_orders(1) by (simp add: demo_server_def)
  obtain p where p: "effective_proxy in_order demo_file = Inr p" "px_agents p = []" using demo_projection by blast
  have f: "se_order demo_server = in_order" "se_config demo_server = demo_config_env" "cg_agents demo_file = []"
    by (simp_all add: demo_server_def demo_file_def config_default_def)
  have c: "fmlookup (cg_contexts demo_file) (lit ''a'') = Some (demo_context True ''x'')" "nc_scope (demo_context True ''x'') = scope_none"
    by (simp_all add: demo_file_def fmlookup_of_list demo_context_def)
  note out = reload_outcome [OF o, where t = demo_clock and loaded = "Inr demo_file" and lv = ?lv, unfolded r prod.case sum.case f]
  then have pol: "file_policies demo_config_env demo_file (ap_contexts (lv_app ?lv)) (ap_contexts (lv_app lv'))" and "lv_agents lv' = None"
    using p f(3) by auto
  moreover have "policy_for (lit ''a'') (ap_contexts (lv_app lv')) = Some (scope_filter_from_config demo_config_env scope_none)"
    using pol c by (simp add: file_policies_def)
  ultimately show ?thesis using r by blast
qed

definition demo_query :: "scope_filter query_env" where
  "demo_query = \<lparr>qe_env = trivial_env, qe_ctx_order = (\<lambda>xs. xs), qe_stats_order = (\<lambda>xs. xs),
     qe_key_hash = (\<lambda>s. s), qe_apply_filter = apply_scope_filter demo_config_env\<rparr>"

theorem reload_applies_scope_witness:
  "\<exists>s lv' x st'. apply_reload demo_server demo_clock (Inr demo_file) demo_live = (Inr s, lv')
     \<and> leader_finish demo_query demo_clock (demo_pending\<lparr>pd_context_id := lit ''a''\<rparr>) demo_answer (lv_app lv') = (Finished x, st')
     \<and> qr_results (into_query_response (qx_response x))
         = apply_scope_filter demo_config_env (scope_filter_from_config demo_config_env scope_none) []"
proof -
  obtain s lv' where r: "apply_reload demo_server demo_clock (Inr demo_file) demo_live = (Inr s, lv')"
      "ap_adaptive (lv_app lv') = ap_adaptive demo_app"
    using demo_reload [of None] by (auto simp: demo_live_def demo_app_def)
  obtain a where "adaptive_record 3 (ap_adaptive (lv_app lv')) = Some a"
    using record_returns [OF demo_window(2,1)] unfolding r(2) by blast
  then have "\<exists>x st'. leader_finish demo_query demo_clock (demo_pending\<lparr>pd_context_id := lit ''a''\<rparr>) demo_answer (lv_app lv')
      = (Finished x, st')"
    by (auto simp: leader_finish_def demo_answer_def rr_is_success_def rr_retried_def leader_success_def Let_def)
  then obtain x st' where f: "leader_finish demo_query demo_clock (demo_pending\<lparr>pd_context_id := lit ''a''\<rparr>) demo_answer (lv_app lv')
      = (Finished x, st')" by blast
  have c: "fmlookup (cg_contexts demo_file) (lit ''a'') = Some (demo_context True ''x'')"
    by (simp add: demo_file_def fmlookup_of_list)
  have o: "table_order (se_order demo_server)" using table_orders(1) by (simp add: demo_server_def)
  from reload_applies_scope [OF r(1) o c _ _ _ f] r(1) f show ?thesis
    by (auto simp: demo_query_def demo_server_def demo_answer_def demo_context_def response_of_def)
qed

theorem readiness_witness:
  "determine_degradation_level demo_live = StartupFailure \<and> \<not> level_is_ready (determine_degradation_level demo_live)"
  using readiness [of demo_live] by (auto simp: demo_live_def pool_empty_def pool_of_def cache_with_def)

end
