(* ===== verification/Handlers.thy ===== *)
theory Handlers
  imports Server
begin

text \<open>
  The batch and the federated endpoint (\<open>src/src/proxy/server/batch.rs\<close>). A query of a batch runs in segments, like
  a query of the query core and on the same cache and coalescer, but on a path of its own; the federated
  handler asks the upstream directly. The configuration of upstreams and the scope filter are those that the
  handler read when it started.
\<close>

section \<open>A query of a batch\<close>

definition answer_from_entry :: "cache_entry \<Rightarrow> cache_status \<Rightarrow> u64 \<Rightarrow> query_response" where
  "answer_from_entry e s took = (ce_response e)\<lparr>qr_cache_status := s, qr_took_ms := took\<rparr>"

datatype batch_phase =
    BatchDone "rstr + query_response" | BatchLeading pending | BatchWaiting pending nat | BatchPanicked

definition batch_pending :: "'p query_env \<Rightarrow> instant \<Rightarrow> query_request \<Rightarrow> rstr \<Rightarrow> miss_reason \<Rightarrow> pending" where
  "batch_pending Q start rq cid reason =
     \<lparr>pd_request = rq, pd_context_id = cid, pd_request_id = [],
      pd_hash = hash_query (qe_env Q) (context_query cid (rq_query rq)),
      pd_ctx_query = context_query cid (rq_query rq), pd_start = start, pd_miss_reason = reason\<rparr>"

definition batch_hit ::
  "'p query_env \<Rightarrow> clock \<Rightarrow> pending \<Rightarrow> cache_entry \<Rightarrow> cache_status \<Rightarrow> 'p app_state \<Rightarrow> batch_phase \<times> 'p app_state" where
  "batch_hit Q t p e s st =
     (let d = elapsed (ck_now t) (pd_start p)
      in (BatchDone (Inr (answer_from_entry e s (as_millis_u64 d))),
          record_query Q t (rq_query (pd_request p)) True d
            (on_metrics (record_latency d) (on_contexts (record_hit_for (pd_context_id p)) (on_metrics record_hit st)))))"

definition batch_fetch :: "'p query_env \<Rightarrow> bool \<Rightarrow> clock \<Rightarrow> pending \<Rightarrow> 'p app_state \<Rightarrow> batch_phase \<times> 'p app_state" where
  "batch_fetch Q has_up t p st =
     (if has_up
      then (case get_or_insert (pd_hash p) (ap_coalescer st) of
              (Leader, co) \<Rightarrow> (BatchLeading p, on_metrics record_upstream_request (st\<lparr>ap_coalescer := co\<rparr>))
            | (Waiter ch, co) \<Rightarrow> (BatchWaiting p ch, on_metrics record_coalesced (st\<lparr>ap_coalescer := co\<rparr>)))
      else let d = elapsed (ck_now t) (pd_start p)
           in case get_by_hash (pd_hash p) (ap_cache st) of
                (Some e, cs) \<Rightarrow>
                  (BatchDone (Inr (answer_from_entry e Hit (as_millis_u64 d))),
                   on_metrics (record_latency d) (st\<lparr>ap_cache := cs\<rparr>))
              | (None, cs) \<Rightarrow>
                  (BatchDone (Inl (lit ''No upstream configured and query not in cache'')), st\<lparr>ap_cache := cs\<rparr>))"

definition batch_query_begin ::
  "'p query_env \<Rightarrow> bool \<Rightarrow> instant \<Rightarrow> clock \<Rightarrow> query_request \<Rightarrow> rstr \<Rightarrow> 'p app_state \<Rightarrow> batch_phase \<times> 'p app_state" where
  "batch_query_begin Q has_up start t rq cid st =
     (let p = batch_pending Q start rq cid NotInCache; h = pd_hash p
      in case check_freshness_by_hash t h (ap_cache st) of
           None \<Rightarrow> (BatchPanicked, st)
         | Some None \<Rightarrow> batch_fetch Q has_up t p st
         | Some (Some f) \<Rightarrow>
             if f = Fresh \<or> f = Stale
             then (case get_by_hash h (ap_cache st) of
                     (Some e, cs) \<Rightarrow> batch_hit Q t p e (if f = Fresh then Hit else StaleHit) (st\<lparr>ap_cache := cs\<rparr>)
                   | (None, cs) \<Rightarrow> batch_fetch Q has_up t p (st\<lparr>ap_cache := cs\<rparr>))
             else batch_fetch Q has_up t (p\<lparr>pd_miss_reason := MissExpired\<rparr>) st)"

definition batch_leader_finish ::
  "'p query_env \<Rightarrow> 'p \<Rightarrow> clock \<Rightarrow> pending \<Rightarrow> upstream_error + query_response \<Rightarrow> 'p app_state \<Rightarrow>
   (rstr + query_response) \<times> 'p app_state" where
  "batch_leader_finish Q flt t p answer st =
     (let d = elapsed (ck_now t) (pd_start p); took = as_millis_u64 d; h = pd_hash p
      in case answer of
           Inr response \<Rightarrow>
             let st1 = on_contexts (record_miss_for (pd_context_id p)) (on_metrics (record_miss (pd_miss_reason p)) st);
                 resp = response\<lparr>qr_results := qe_apply_filter Q flt (qr_results response), qr_cache_status := Miss,
                                 qr_miss_reason := Some (pd_miss_reason p)\<rparr>;
                 st2 = (if response_validate resp = Inr ()
                        then register_query (qe_env Q) (pd_ctx_query p)
                               (st1\<lparr>ap_cache := insert_by_hash (qe_env Q) t h resp (ap_upstream_id st1)
                                      (Some (pd_ctx_query p)) (ap_cache st1)\<rparr>)
                        else st1);
                 timed = resp\<lparr>qr_took_ms := took\<rparr>
             in (Inr timed, record_query Q t (rq_query (pd_request p)) False d
                   (complete_fetch_with h (Inr timed) (on_metrics (record_latency d) st2)))
         | Inl err \<Rightarrow>
             let st1 = on_metrics (record_upstream_failure \<circ> record_miss UpstreamError) st
             in case get_by_hash h (ap_cache st1) of
                  (Some e, cs) \<Rightarrow>
                    let resp = answer_from_entry e FrozenHit took
                    in (Inr resp, complete_fetch_with h (Inr resp) (on_metrics (record_latency d) (st1\<lparr>ap_cache := cs\<rparr>)))
                | (None, cs) \<Rightarrow>
                    (Inl (upstream_error_display err),
                     complete_fetch_with h (Inl (Http (upstream_error_display err))) (st1\<lparr>ap_cache := cs\<rparr>)))"

definition batch_waiter_finish ::
  "'p query_env \<Rightarrow> clock \<Rightarrow> pending \<Rightarrow> received \<Rightarrow> 'p app_state \<Rightarrow> (rstr + query_response) \<times> 'p app_state" where
  "batch_waiter_finish Q t p msg st =
     (let d = elapsed (ck_now t) (pd_start p); took = as_millis_u64 d
      in case msg of
           Received (Inr resp) \<Rightarrow> (Inr (resp\<lparr>qr_took_ms := took\<rparr>), on_metrics (record_latency d) st)
         | _ \<Rightarrow>
             (case get_by_hash (pd_hash p) (ap_cache st) of
                (Some e, cs) \<Rightarrow>
                  (Inr (answer_from_entry e FrozenHit took), on_metrics (record_latency d) (st\<lparr>ap_cache := cs\<rparr>))
              | (None, cs) \<Rightarrow> (Inl (lit ''Upstream request failed''), st\<lparr>ap_cache := cs\<rparr>)))"

text \<open>The handler before the queries run: the status of a refusal, or the scope filter they use.\<close>

definition handle_batch_begin ::
  "'p query_env \<Rightarrow> clock \<Rightarrow> batch_config \<Rightarrow> batch_request \<Rightarrow> rstr option \<Rightarrow> agent_identity option \<Rightarrow> 'p app_state \<Rightarrow>
   (u16 + rstr \<times> 'p) \<times> 'p app_state" where
  "handle_batch_begin Q t c rq header agent st =
     (if batch_validate c rq \<noteq> Inr () then (Inl 400, st)
      else let cid = resolve_request_context header agent; st1 = ensure_context Q t cid st
           in if (case agent of Some a \<Rightarrow> \<not> can_access_context cid a | None \<Rightarrow> False) then (Inl 403, st1)
              else (Inr (cid, scope_filter_for cid st1), st1))"

section \<open>The federated endpoint\<close>

record federated_request =
  fq_query :: rstr
  fq_local_results :: "search_result list option"
  fq_top_k :: "nat option"

record federated_reply =
  fp_status :: u16
  fp_results :: "search_result list"
  fp_cache_status :: cache_status
  fp_took_ms :: u64
  fp_stats :: federated_stats

datatype federated_phase = FedDone federated_reply | FedAsking "search_result list" rstr instant

definition federated_stats_default :: federated_stats where
  "federated_stats_default = \<lparr>ft_local_count = 0, ft_remote_count = 0, ft_merged_count = 0, ft_duplicates_removed = 0,
     ft_remote_queried = False, ft_fallback_reason = None, ft_local_latency_ms = 0, ft_remote_latency_ms = None\<rparr>"

fun fallback_text :: "fallback_decision \<Rightarrow> rstr" where
  "fallback_text LocalSufficient = lit ''local_sufficient''"
| "fallback_text EmptyLocal = lit ''empty_local''"
| "fallback_text BelowMinResults = lit ''below_min_results''"
| "fallback_text LowConfidence = lit ''low_confidence''"
| "fallback_text AlwaysRemote = lit ''always_remote''"

definition fed_plain :: "u16 \<Rightarrow> search_result list \<Rightarrow> cache_status \<Rightarrow> u64 \<Rightarrow> federated_reply" where
  "fed_plain status rs s took = \<lparr>fp_status = status, fp_results = rs, fp_cache_status = s, fp_took_ms = took, fp_stats = federated_stats_default\<rparr>"

definition fed_reply ::
  "federated_search_config \<Rightarrow> search_result list \<Rightarrow> (query_response \<times> u64) option \<Rightarrow> u64 \<Rightarrow> federated_reply" where
  "fed_reply c local remote took =
     (let local_response = \<lparr>qr_results = local, qr_cache_status = Hit, qr_took_ms = 0, qr_generated_at = None, qr_miss_reason = None\<rparr>;
          (merged, stats) = merge_responses c local_response (map_option fst remote)
      in \<lparr>fp_status = 200, fp_results = qr_results merged, fp_cache_status = qr_cache_status merged, fp_took_ms = took,
          fp_stats = stats\<lparr>ft_local_latency_ms := 0, ft_remote_latency_ms := map_option snd remote,
            ft_fallback_reason := Some (fallback_text (should_query_remote c local))\<rparr>\<rparr>)"

definition handle_federated_begin ::
  "'p query_env \<Rightarrow> clock \<Rightarrow> instant \<Rightarrow> federated_search_config \<Rightarrow> federated_request \<Rightarrow> rstr option \<Rightarrow> agent_identity option \<Rightarrow>
   'p app_state \<Rightarrow> federated_phase \<times> 'p app_state" where
  "handle_federated_begin Q t start c rq header agent st =
     (let cid = resolve_request_context header agent; st1 = ensure_context Q t cid st;
          key = context_query cid (fq_query rq); d = elapsed (ck_now t) start; took = as_millis_u64 d;
          local = unwrap_or (fq_local_results rq) []
      in if (case agent of Some a \<Rightarrow> \<not> can_access_context cid a | None \<Rightarrow> False)
         then (FedDone (fed_plain 403 [] Miss took), st1)
         else if \<not> fg_enabled c
         then (case cache_get (qe_env Q) key (ap_cache st1) of
                 (Some e, cs) \<Rightarrow>
                   (FedDone (fed_plain 200 (qr_results (ce_response e)) Hit took),
                    on_metrics (record_latency d) (on_contexts (record_hit_for cid) (on_metrics record_hit (st1\<lparr>ap_cache := cs\<rparr>))))
               | (None, cs) \<Rightarrow> (FedDone (fed_plain 503 [] Miss took), st1\<lparr>ap_cache := cs\<rparr>))
         else if should_query_remote c local = LocalSufficient \<or> \<not> (ap_has_pool st1 \<or> ap_has_upstream st1)
         then (FedDone (fed_reply c local None took), on_metrics (record_latency d) st1)
         else (case cache_get (qe_env Q) key (ap_cache st1) of
                 (Some e, cs) \<Rightarrow>
                   (FedDone (fed_reply c local (Some (ce_response e, as_millis_u64 (elapsed (ck_now t) (ck_now t)))) took),
                    on_metrics (record_latency d) (st1\<lparr>ap_cache := cs\<rparr>))
               | (None, cs) \<Rightarrow> (FedAsking local cid (ck_now t), st1\<lparr>ap_cache := cs\<rparr>)))"

definition handle_federated_answered ::
  "'p query_env \<Rightarrow> clock \<Rightarrow> instant \<Rightarrow> federated_search_config \<Rightarrow> search_result list \<Rightarrow> rstr \<Rightarrow> instant \<Rightarrow> federated_request \<Rightarrow>
   upstream_error + query_response \<Rightarrow> 'p app_state \<Rightarrow> federated_reply \<times> 'p app_state" where
  "handle_federated_answered Q t start c local cid remote_start rq answer st =
     (let d = elapsed (ck_now t) start; took = as_millis_u64 d
      in case answer of
           Inr resp \<Rightarrow>
             (fed_reply c local (Some (resp, as_millis_u64 (elapsed (ck_now t) remote_start))) took,
              on_metrics (record_latency d)
                (st\<lparr>ap_cache := insert_with_context (qe_env Q) t (context_query cid (fq_query rq)) resp (ap_upstream_id st) cid
                      (ap_cache st)\<rparr>))
         | Inl _ \<Rightarrow>
             (fed_reply c local None took, on_metrics (record_latency d) (on_metrics record_upstream_failure st)))"

section \<open>The batch path shares the cache and the flights\<close>

text \<open>A batch answers from the cache with the same entry as the query endpoint: when a query is fresh in the cache,
  both give the results of the same entry, and the batch touches neither the breaker nor the coalescer.\<close>

theorem batch_hit_agrees:
  assumes "map_of (cs_entries (ap_cache st)) (hash_query (qe_env Q) (context_query cid (rq_query rq))) = Some e"
    and "fl_within 1 (cs_ttl_jitter_percent (ap_cache st))"
    and "cs_fresh_duration (ap_cache st) \<le> from_secs (2 ^ 50)" and "cs_stale_duration (ap_cache st) \<le> from_secs (2 ^ 50)"
    and "elapsed (ck_now t) (ce_cached_at e) < cs_fresh_duration (ap_cache st)"
    and "\<not> ap_paused st" and "request_validate rq = Inr ()" and "\<forall>a. agent = Some a \<longrightarrow> can_access_context cid a"
  shows "\<exists>resp st1 x st2. batch_query_begin Q has_up start t rq cid st = (BatchDone (Inr resp), st1)
    \<and> execute_query_begin Q start t rq cid rid agent src False st = (Finished x, st2)
    \<and> qr_results resp = qr_results (ce_response e) \<and> qr_results (into_query_response (qx_response x)) = qr_results (ce_response e)
    \<and> ap_circuit st1 = ap_circuit st \<and> ap_coalescer st1 = ap_coalescer st"
proof -
  let ?h = "hash_query (qe_env Q) (context_query cid (rq_query rq))"
  obtain took st2 where q: "execute_query_begin Q start t rq cid rid agent src False st =
      (Finished (result_ok (Cached (bump_freq e) Hit took)), st2)"
    using fresh_entry_hits [OF assms(1-8) refl, of start rid src] by blast
  have fresh: "check_freshness_by_hash t ?h (ap_cache st) = Some (Some Fresh)"
    by (rule fresh_within_window [OF assms(1-5)])
  have get: "get_by_hash ?h (ap_cache st) = (Some (bump_freq e),
      (ap_cache st)\<lparr>cs_entries := AList.update ?h (bump_freq e) (cs_entries (ap_cache st))\<rparr>)"
    using assms(1) by (simp add: get_by_hash_def touch_def)
  have "\<exists>resp st1. batch_query_begin Q has_up start t rq cid st = (BatchDone (Inr resp), st1)
      \<and> qr_results resp = qr_results (ce_response e) \<and> ap_circuit st1 = ap_circuit st \<and> ap_coalescer st1 = ap_coalescer st"
    using fresh get
    by (simp add: batch_query_begin_def batch_pending_def batch_hit_def Let_def answer_from_entry_def bump_freq_def
        record_query_def on_metrics_def on_contexts_def)
  then show ?thesis using q by (fastforce simp: result_ok_def bump_freq_def)
qed

text \<open>The circuit breaker does not protect the upstream from batches: while it is open, a query of the query endpoint that
  is not cached is refused without asking the upstream, but the same query in a batch leads a fetch.\<close>

theorem batch_ignores_breaker:
  assumes "fst (circuit_allow_request (ck_now t) (ap_circuit st)) = False" and "has_upstream st"
    and "map_of (cs_entries (ap_cache st)) (pd_hash p) = None" and "p = batch_pending Q start rq cid NotInCache"
    and "co_in_flight (ap_coalescer st) (pd_hash p) = None"
  shows "(\<exists>x st'. fetch_phase Q t p st = (Finished x, st') \<and> qx_status x = 503 \<and> ap_coalescer st' = ap_coalescer st)
    \<and> (\<exists>st'. batch_query_begin Q True start t rq cid st = (BatchLeading p, st')
         \<and> is_in_flight (pd_hash p) (ap_coalescer st') \<and> ap_circuit st' = ap_circuit st)"
proof
  obtain cb where cb: "circuit_allow_request (ck_now t) (ap_circuit st) = (False, cb)" using assms(1) by (metis prod.collapse)
  have none: "get_by_hash (pd_hash p) (ap_cache st) = (None, ap_cache st)"
    using assms(3) by (simp add: get_by_hash_def touch_def)
  show "\<exists>x st'. fetch_phase Q t p st = (Finished x, st') \<and> qx_status x = 503 \<and> ap_coalescer st' = ap_coalescer st"
    using assms(2) cb none
    by (simp add: fetch_phase_def Let_def result_with_status_def on_tracker_def on_metrics_def)
  have "check_freshness_by_hash t (pd_hash p) (ap_cache st) = Some None"
    using assms(3) by (simp add: check_freshness_by_hash_def)
  moreover obtain co where "get_or_insert (pd_hash p) (ap_coalescer st) = (Leader, co)" "is_in_flight (pd_hash p) co"
    using assms(5) by (auto simp: get_or_insert_def is_in_flight_def Let_def)
  ultimately show "\<exists>st'. batch_query_begin Q True start t rq cid st = (BatchLeading p, st')
      \<and> is_in_flight (pd_hash p) (ap_coalescer st') \<and> ap_circuit st' = ap_circuit st"
    by (simp add: batch_query_begin_def batch_fetch_def assms(4) [symmetric] Let_def on_metrics_def)
qed

text \<open>The federated endpoint stores the answer of the upstream under the key of the query endpoint, without the
  scope filter and without validation: in a cache with room, a client that asks the query endpoint within the
  fresh window is served these unfiltered results.\<close>

theorem federated_answer_unscoped:
  assumes "handle_federated_answered Q t start c local cid rs fq (Inr resp) st = (reply, st')"
    and "fq_query fq = rq_query rq"
    and "cs_per_upstream_limit (ap_cache st) = None" and "cs_max_memory_bytes (ap_cache st) = 0"
    and "queue_len (ap_cache st) < queue_capacity (ap_cache st)"
    and "fl_within 1 (cs_ttl_jitter_percent (ap_cache st))"
    and "cs_fresh_duration (ap_cache st) \<le> from_secs (2 ^ 50)"
    and "cs_stale_duration (ap_cache st) \<le> from_secs (2 ^ 50)"
    and "elapsed (ck_now t') (ck_now t) < cs_fresh_duration (ap_cache st)"
    and "\<not> ap_paused st" and "request_validate rq = Inr ()"
    and "\<forall>a. agent = Some a \<longrightarrow> can_access_context cid a"
  shows "\<exists>e took st''. execute_query_begin Q start' t' rq cid rid agent src False st' =
      (Finished (result_ok (Cached e Hit took)), st'') \<and> ce_response e = resp"
proof -
  have st': "ap_cache st' = insert_impl (qe_env Q) t (context_query cid (rq_query rq)) resp (ap_upstream_id st) cid (ap_cache st)"
    "ap_paused st' = ap_paused st"
    using assms(1,2) by (auto simp: handle_federated_answered_def insert_with_context_def Let_def on_metrics_def)
  show ?thesis by (rule inserted_hits [OF room_unlimited [OF assms(3-5)] st'(1) assms(6-9) _ assms(11,12)]) (simp add: st'(2) assms(10))
qed

section \<open>Examples\<close>

definition demo_cached :: "unit app_state" where
  "demo_cached = demo_app\<lparr>ap_cache := demo_stale_cache\<rparr>"

lemma demo_cached_fields:
  "map_of (cs_entries (ap_cache demo_cached)) (hash_query (qe_env demo_env) (context_query (lit ''default'') (rq_query demo_request)))
     = Some (fresh_entry trivial_env demo_clock (response_of []) (lit ''u'') (Some demo_key) (lit ''default''))"
  "fl_within 1 (cs_ttl_jitter_percent (ap_cache demo_cached))"
  "cs_fresh_duration (ap_cache demo_cached) \<le> from_secs (2 ^ 50)" "cs_stale_duration (ap_cache demo_cached) \<le> from_secs (2 ^ 50)"
  "elapsed (ck_now demo_clock) (ce_cached_at (fresh_entry trivial_env demo_clock (response_of []) (lit ''u'') (Some demo_key) (lit ''default'')))
     < cs_fresh_duration (ap_cache demo_cached)"
  "\<not> ap_paused demo_cached"
  by (simp_all add: demo_cached_def demo_stale_cache_def demo_app_def demo_env_def demo_request_def demo_key_def cache_with_def
      fl_within_def from_secs_def nanos_per_sec_def fresh_entry_def demo_clock_def elapsed_def)

theorem batch_hit_agrees_witness:
  "\<exists>resp st1. batch_query_begin demo_env True 0 demo_clock demo_request (lit ''default'') demo_cached = (BatchDone (Inr resp), st1)
     \<and> qr_results resp = []"
  using batch_hit_agrees [OF demo_cached_fields demo_valid, of None True 0 "lit ''r''" "lit ''http''"]
  by (auto simp: fresh_entry_def response_of_def)

definition demo_tripped :: "unit app_state" where
  "demo_tripped = demo_app\<lparr>ap_circuit := circuit_trip 0 (circuit_new 0 circuit_config_default)\<rparr>"

theorem batch_ignores_breaker_witness:
  "\<exists>p st'. batch_query_begin demo_env True 0 demo_clock demo_request (lit ''default'') demo_tripped = (BatchLeading p, st')
     \<and> is_in_flight (pd_hash p) (ap_coalescer st')"
proof -
  have "0 < open_duration circuit_config_default"
    by (simp add: circuit_config_default_def from_secs_def nanos_per_sec_def)
  from open_breaker_rejects [OF this, of 0] have c: "fst (circuit_allow_request (ck_now demo_clock) (ap_circuit demo_tripped)) = False"
    by (simp add: demo_tripped_def demo_clock_def)
  have h: "has_upstream demo_tripped" by (simp add: has_upstream_def demo_tripped_def demo_app_def)
  have "map_of (cs_entries (ap_cache demo_tripped)) k = None" "co_in_flight (ap_coalescer demo_tripped) k = None" for k
    by (simp_all add: demo_tripped_def demo_app_def cache_with_def coalescer_empty_def)
  from batch_ignores_breaker [OF c h this(1) refl this(2), of demo_env 0 demo_request "lit ''default''"]
  show ?thesis by blast
qed

theorem federated_answer_unscoped_witness:
  "\<exists>reply st' e took st''. handle_federated_answered demo_env demo_clock 0 federated_search_default [] (lit ''default'') 0
       \<lparr>fq_query = lit ''a'', fq_local_results = None, fq_top_k = None\<rparr> (Inr (response_of [])) demo_app = (reply, st')
     \<and> execute_query_begin demo_env 0 demo_clock demo_request (lit ''default'') (lit ''r'') None (lit ''http'') False st' =
         (Finished (result_ok (Cached e Hit took)), st'') \<and> ce_response e = response_of []"
proof -
  let ?fq = "\<lparr>fq_query = lit ''a'', fq_local_results = None, fq_top_k = None\<rparr>"
  obtain reply st' where a: "handle_federated_answered demo_env demo_clock 0 federated_search_default [] (lit ''default'') 0
      ?fq (Inr (response_of [])) demo_app = (reply, st')" by fastforce
  have q: "fq_query ?fq = rq_query demo_request" by (simp add: demo_request_def)
  have room: "cs_per_upstream_limit (ap_cache demo_app) = None" "cs_max_memory_bytes (ap_cache demo_app) = 0"
    "queue_len (ap_cache demo_app) < queue_capacity (ap_cache demo_app)"
    "fl_within 1 (cs_ttl_jitter_percent (ap_cache demo_app))"
    "cs_fresh_duration (ap_cache demo_app) \<le> from_secs (2 ^ 50)" "cs_stale_duration (ap_cache demo_app) \<le> from_secs (2 ^ 50)"
    "elapsed (ck_now demo_clock) (ck_now demo_clock) < cs_fresh_duration (ap_cache demo_app)" "\<not> ap_paused demo_app"
    by (simp_all add: demo_app_def cache_with_def queue_len_def queue_capacity_def s3fifo_new_def fl_within_def from_secs_def
        nanos_per_sec_def demo_clock_def elapsed_def Let_def)
  from federated_answer_unscoped [OF a q room demo_valid, of None 0 "lit ''r''" "lit ''http''"] show ?thesis using a by simp
qed

end
