(* ===== verification/Workers.thy ===== *)
theory Workers
  imports QueryCore
begin

text \<open>
  The background workers of \<open>src/src/proxy/workers\<close>: the cleanup of expired entries, the health check, the recovery
  after an outage and the watch on the version of the corpus. Each cycle of a worker is a function on the
  state it shares; timers and cancellation are left to the runtime.
\<close>

section \<open>Cleanup\<close>

record cleanup_config =
  cu_interval :: duration
  cu_check_integrity :: bool

definition cleanup_config_default :: cleanup_config where
  "cleanup_config_default = \<lparr>cu_interval = from_secs 300, cu_check_integrity = False\<rparr>"

definition cleanup ::
  "env \<Rightarrow> clock \<Rightarrow> cleanup_config \<Rightarrow> proxy_metrics option \<Rightarrow> cache_store \<Rightarrow> proxy_metrics option \<times> cache_store" where
  "cleanup E t c m cs =
     (let (evicted, cs1) = evict_truly_expired E t cs;
          m1 = map_option (record_eviction ^^ evicted) m;
          invalid = (if cu_check_integrity c then ir_invalid (verify_integrity E cs1) else 0)
      in (map_option (record_integrity_failure ^^ invalid) m1, cs1))"

section \<open>Health check\<close>

record health_check_config =
  hc_check_interval :: duration
  hc_recovery_check_interval :: duration
  hc_check_timeout :: duration

definition health_check_default :: health_check_config where
  "health_check_default = \<lparr>hc_check_interval = from_secs 30, hc_recovery_check_interval = from_secs 5,
     hc_check_timeout = from_secs 5\<rparr>"

definition health_interval :: "health_check_config \<Rightarrow> health_tracker \<Rightarrow> duration" where
  "health_interval c h =
     (case health_status h of
        Online \<Rightarrow> hc_check_interval c
      | Degraded \<Rightarrow> hc_check_interval c div 2
      | Offline \<Rightarrow> hc_recovery_check_interval c)"

definition perform_health_check :: "u64 \<Rightarrow> upstream_error + bool \<Rightarrow> health_tracker \<Rightarrow> health_tracker" where
  "perform_health_check now answer h =
     (if answer = Inr True then health_record_success now h else health_record_failure now h)"

section \<open>Recovery\<close>

record recovery_config =
  rc_initial_rps :: fl
  rc_max_rps :: fl
  rc_rps_increment :: fl
  rc_batch_size :: nat
  rc_batch_delay :: duration
  rc_stability_period :: duration

definition recovery_config_default :: recovery_config where
  "recovery_config_default = \<lparr>rc_initial_rps = Fin 1, rc_max_rps = Fin 50, rc_rps_increment = Fin 5, rc_batch_size = 5,
     rc_batch_delay = from_millis 200, rc_stability_period = from_secs 30\<rparr>"

datatype recovery_state = RvStable | RvRecovering | RvPaused | RvOffline

fun recovery_code :: "recovery_state \<Rightarrow> u32" where
  "recovery_code RvStable = 0"
| "recovery_code RvRecovering = 1"
| "recovery_code RvPaused = 2"
| "recovery_code RvOffline = 3"

record recovery_tracker =
  rv_state :: u32
  rv_current_rps :: u32
  rv_is_recovering :: bool
  rv_successful_batches :: u32
  rv_required_batches :: u32

text \<open>The cast \<open>as u32\<close> truncates and saturates; NaN becomes 0. \<open>f32::min\<close> ignores a NaN.\<close>

fun fl_as_u32 :: "fl \<Rightarrow> u32" where
  "fl_as_u32 NaN = 0"
| "fl_as_u32 (Inf b) = (if b then 0 else - 1)"
| "fl_as_u32 (Fin x) = of_nat (min (nat \<lfloor>x\<rfloor>) (2 ^ 32 - 1))"

definition fl_min :: "fl \<Rightarrow> fl \<Rightarrow> fl" where
  "fl_min x y = (if x = NaN then y else if y = NaN then x else if fl_less y x then y else x)"

definition recovery_tracker_new :: "recovery_config \<Rightarrow> recovery_tracker" where
  "recovery_tracker_new c =
     (let batch_interval = as_secs_f32 (rc_batch_delay c);
          required = (if fl_less (Fin 0) batch_interval
                      then fl_as_u32 (fl_div (as_secs_f32 (rc_stability_period c)) batch_interval) else 10)
      in \<lparr>rv_state = recovery_code RvStable, rv_current_rps = fl_as_u32 (fl_mul (rc_initial_rps c) (Fin 100)),
          rv_is_recovering = False, rv_successful_batches = 0, rv_required_batches = max required 1\<rparr>)"

definition recovery_state_of :: "recovery_tracker \<Rightarrow> recovery_state" where
  "recovery_state_of v =
     (if rv_state v = 0 then RvStable else if rv_state v = 1 then RvRecovering
      else if rv_state v = 2 then RvPaused else RvOffline)"

definition recovery_set_state :: "recovery_state \<Rightarrow> recovery_tracker \<Rightarrow> recovery_tracker" where
  "recovery_set_state s v = v\<lparr>rv_state := recovery_code s\<rparr>"

definition recovery_rps :: "recovery_tracker \<Rightarrow> fl" where
  "recovery_rps v = fl_div_const (nat_as_f32 (unat (rv_current_rps v))) 100"

definition recovery_set_rps :: "fl \<Rightarrow> recovery_tracker \<Rightarrow> recovery_tracker" where
  "recovery_set_rps rps v = v\<lparr>rv_current_rps := fl_as_u32 (fl_mul rps (Fin 100))\<rparr>"

definition start_recovery :: "fl \<Rightarrow> recovery_tracker \<Rightarrow> recovery_tracker" where
  "start_recovery initial v =
     (recovery_set_rps initial (recovery_set_state RvRecovering (v\<lparr>rv_is_recovering := True\<rparr>)))
       \<lparr>rv_successful_batches := 0\<rparr>"

definition complete_recovery :: "recovery_tracker \<Rightarrow> recovery_tracker" where
  "complete_recovery v = recovery_set_state RvStable (v\<lparr>rv_is_recovering := False\<rparr>)"

definition recovery_record_success :: "fl \<Rightarrow> fl \<Rightarrow> recovery_tracker \<Rightarrow> recovery_tracker" where
  "recovery_record_success increment max_rps v =
     (let batches = sat_add (rv_successful_batches v) 1;
          v1 = v\<lparr>rv_successful_batches := rv_successful_batches v + 1\<rparr>;
          v2 = recovery_set_rps (fl_min (fl_add (recovery_rps v1) increment) max_rps) v1
      in if batches \<ge> rv_required_batches v2 then complete_recovery v2 else v2)"

definition recovery_record_failure :: "recovery_tracker \<Rightarrow> recovery_tracker" where
  "recovery_record_failure v = recovery_set_state RvPaused (v\<lparr>rv_successful_batches := 0\<rparr>)"

definition go_offline :: "recovery_tracker \<Rightarrow> recovery_tracker" where
  "go_offline v = recovery_set_state RvOffline (v\<lparr>rv_is_recovering := False\<rparr>)"

text \<open>The worker: what it shares, and the upstream and the clock of the surrounding world.\<close>

record 'w recovery =
  ry_tracker :: recovery_tracker
  ry_health :: health_tracker
  ry_cache :: cache_store
  ry_world :: 'w

record 'w recovery_env =
  rk_env :: env
  rk_query :: "query_request \<Rightarrow> 'w \<Rightarrow> (upstream_error + query_response) \<times> 'w"
  rk_clock :: "'w \<Rightarrow> clock"
  rk_base_url :: rstr
  rk_config :: recovery_config
  rk_query_map :: "query_hash \<rightharpoonup> rstr"

definition refresh_entry :: "'w recovery_env \<Rightarrow> query_hash \<Rightarrow> rstr \<Rightarrow> 'w recovery \<Rightarrow> bool \<times> 'w recovery" where
  "refresh_entry K h query s =
     (case rk_query K \<lparr>rq_query = query, rq_top_k = Some 10, rq_priority = None, rq_upstream_id = None,
                       rq_upstream_type = None\<rparr> (ry_world s) of
        (Inr resp, w) \<Rightarrow>
          (True, s\<lparr>ry_world := w, ry_cache := insert_by_hash (rk_env K) (rk_clock K w) h resp (rk_base_url K) (Some query) (ry_cache s)\<rparr>)
      | (Inl _, w) \<Rightarrow> (False, s\<lparr>ry_world := w\<rparr>))"

text \<open>The loop over the stale entries; \<open>None\<close> is the panic of \<open>Duration::from_secs_f32\<close> on the infinite delay that a
  rate of 0 gives.\<close>

fun recovery_loop :: "'w recovery_env \<Rightarrow> query_hash list \<Rightarrow> u32 \<Rightarrow> u32 \<Rightarrow> 'w recovery \<Rightarrow> (u32 \<times> u32 \<times> 'w recovery) option" where
  "recovery_loop K [] good bad s = Some (good, bad, s)"
| "recovery_loop K (h # hs) good bad s =
     (case rk_query_map K h of
        None \<Rightarrow> recovery_loop K hs good bad s
      | Some query \<Rightarrow>
          if rv_current_rps (ry_tracker s) = 0 then None
          else (case refresh_entry K h query s of
                  (True, s1) \<Rightarrow> recovery_loop K hs (sat_add good 1) bad
                      (s1\<lparr>ry_health := health_record_success (now_ms (ck_wall (rk_clock K (ry_world s1)))) (ry_health s1)\<rparr>)
                | (False, s1) \<Rightarrow> recovery_loop K hs good (sat_add bad 1)
                      (s1\<lparr>ry_health := health_record_failure (now_ms (ck_wall (rk_clock K (ry_world s1)))) (ry_health s1)\<rparr>)))"

definition process_recovery_batch :: "'w recovery_env \<Rightarrow> 'w recovery \<Rightarrow> 'w recovery option" where
  "process_recovery_batch K s =
     Option.bind (get_stale_hashes (rk_env K) (rk_clock K (ry_world s)) (ry_cache s)) (\<lambda>stale.
       let hs = take (rc_batch_size (rk_config K)) stale
       in if hs = [] then Some (s\<lparr>ry_tracker := complete_recovery (ry_tracker s)\<rparr>)
          else map_option (\<lambda>(good, bad, s1).
                 s1\<lparr>ry_tracker := if bad > good then recovery_record_failure (ry_tracker s1)
                      else recovery_record_success (rc_rps_increment (rk_config K)) (rc_max_rps (rk_config K)) (ry_tracker s1)\<rparr>)
               (recovery_loop K hs 0 0 s))"

definition recovery_tick :: "'w recovery_env \<Rightarrow> bool \<times> 'w recovery \<Rightarrow> (bool \<times> 'w recovery) option" where
  "recovery_tick K ws =
     (let (was_offline, s) = ws
      in if health_status (ry_health s) = Offline
         then Some (True, s\<lparr>ry_tracker := go_offline (ry_tracker s)\<rparr>)
         else let start = (was_offline \<and> \<not> rv_is_recovering (ry_tracker s));
                  s1 = (if start then s\<lparr>ry_tracker := start_recovery (rc_initial_rps (rk_config K)) (ry_tracker s)\<rparr> else s);
                  was1 = (was_offline \<and> \<not> start)
              in if rv_is_recovering (ry_tracker s1) then map_option (Pair was1) (process_recovery_batch K s1)
                 else Some (was1, s1))"

section \<open>Version watch\<close>

record upstream_version =
  uv_version :: "rstr option"
  uv_corpus_hash :: "rstr option"
  uv_doc_count :: "u64 option"
  uv_last_modified :: "u64 option"

definition version_none :: upstream_version where
  "version_none = \<lparr>uv_version = None, uv_corpus_hash = None, uv_doc_count = None, uv_last_modified = None\<rparr>"

definition both_differ :: "'a option \<Rightarrow> 'a option \<Rightarrow> bool" where
  "both_differ x y = (case (x, y) of (Some a, Some b) \<Rightarrow> a \<noteq> b | _ \<Rightarrow> False)"

definition doc_count_differs :: "u64 \<Rightarrow> u64 \<Rightarrow> bool" where
  "doc_count_differs a b =
     (let diff = (if a > b then a - b else b - a);
          threshold = fl_as_u64 (f64_mul (nat_as_f64 (unat (max a b))) (f64_round (1 / 100)))
      in unat diff > threshold)"

definition differs_from :: "upstream_version \<Rightarrow> upstream_version \<Rightarrow> bool" where
  "differs_from a b \<longleftrightarrow>
     both_differ (uv_version a) (uv_version b) \<or> both_differ (uv_corpus_hash a) (uv_corpus_hash b)
     \<or> (case (uv_doc_count a, uv_doc_count b) of (Some x, Some y) \<Rightarrow> doc_count_differs x y | _ \<Rightarrow> False)
     \<or> both_differ (uv_last_modified a) (uv_last_modified b)"

definition version_is_empty :: "upstream_version \<Rightarrow> bool" where
  "version_is_empty v \<longleftrightarrow> uv_version v = None \<and> uv_corpus_hash v = None \<and> uv_doc_count v = None \<and> uv_last_modified v = None"

record version_watch =
  vw_invalidate :: bool
  vw_current :: upstream_version
  vw_changes :: u64

definition check_version ::
  "clock \<Rightarrow> unit + upstream_version \<Rightarrow> version_watch \<times> cache_store \<Rightarrow> version_watch \<times> cache_store" where
  "check_version t fetched vc =
     (let (v, cs) = vc
      in case fetched of
           Inl _ \<Rightarrow> (v, cs)
         | Inr new \<Rightarrow>
             let changed = (\<not> version_is_empty (vw_current v) \<and> differs_from new (vw_current v));
                 v1 = (if changed then v\<lparr>vw_changes := vw_changes v + 1\<rparr> else v);
                 cs1 = (if changed \<and> vw_invalidate v then cache_clear t cs else cs)
             in (v1\<lparr>vw_current := new\<rparr>, cs1))"

text \<open>The body of a version response: a JSON object with one of the usual fields, or else the text itself.\<close>

definition json_get :: "rstr \<Rightarrow> json \<Rightarrow> json option" where
  "json_get k j = (case j of JObject kvs \<Rightarrow> map_of kvs k | _ \<Rightarrow> None)"

definition get_either :: "string \<Rightarrow> string \<Rightarrow> json \<Rightarrow> json option" where
  "get_either a b j = (case json_get (lit a) j of Some v \<Rightarrow> Some v | None \<Rightarrow> json_get (lit b) j)"

definition parse_version :: "(rstr \<Rightarrow> json option) \<Rightarrow> rstr \<Rightarrow> unit + upstream_version" where
  "parse_version from_str body =
     (case from_str body of
        Some j \<Rightarrow>
          Inr \<lparr>uv_version = Option.bind (json_get (lit ''version'') j) json_as_str,
               uv_corpus_hash = Option.bind (get_either ''corpus_hash'' ''hash'' j) json_as_str,
               uv_doc_count = Option.bind (get_either ''doc_count'' ''count'' j) json_as_u64,
               uv_last_modified = Option.bind (get_either ''last_modified'' ''timestamp'' j) json_as_u64\<rparr>
      | None \<Rightarrow>
          let version = trim body
          in if version \<noteq> [] then Inr (version_none\<lparr>uv_version := Some version\<rparr>) else Inl ())"

section \<open>What a cleanup removes\<close>

lemma count_up: "mt_evictions ((record_eviction ^^ n) m) = mt_evictions m + of_nat n"
  "mt_evictions ((record_integrity_failure ^^ n) m) = mt_evictions m"
  "mt_integrity_failures ((record_integrity_failure ^^ n) m) = mt_integrity_failures m + of_nat n"
  "mt_integrity_failures ((record_eviction ^^ n) m) = mt_integrity_failures m"
  by (induction n arbitrary: m) (simp_all add: record_eviction_def record_integrity_failure_def)

text \<open>A cleanup removes exactly the entries older than the frozen limit and leaves all others as they are; the
  eviction counter rises by their number, and the integrity counter, when the check is on, by the
  number of damaged entries that remain (they are counted but not removed).\<close>

theorem cleanup_exact:
  assumes "store_ok E N cs" and "mset (iter_order E (cs_entries cs)) = mset (cs_entries cs)"
    and "cleanup E t c (Some m) cs = (m', cs')"
  shows "let old = (\<lambda>e :: cache_entry. elapsed (ck_now t) (ce_cached_at e) > cs_max_frozen_duration cs)
    in view cs' = (\<lambda>h. case view cs h of Some e \<Rightarrow> if old e then None else Some e | None \<Rightarrow> None)
       \<and> (\<exists>m1. m' = Some m1 \<and> mt_evictions m1 = mt_evictions m + of_nat (card {h. \<exists>e. view cs h = Some e \<and> old e})
            \<and> mt_integrity_failures m1 = mt_integrity_failures m
                + (if cu_check_integrity c then of_nat (ir_invalid (verify_integrity E cs')) else 0))"
proof -
  define old :: "cache_entry \<Rightarrow> bool" where "old = (\<lambda>e. elapsed (ck_now t) (ce_cached_at e) > cs_max_frozen_duration cs)"
  obtain es c1 where ra: "remove_all E (map fst (filter (\<lambda>(_, e). old e) (iter_entries E cs))) cs = (es, c1)" by fastforce
  have "old (e\<lparr>ce_freq := 0\<rparr>) = old e" for e by (simp add: old_def)
  note r = remove_matching [OF assms(1,2) this ra]
  obtain n cs1 where ev: "evict_truly_expired E t cs = (n, cs1)" by fastforce
  have n: "n = length es" "view cs1 = view c1"
    using ev ra by (auto simp: evict_truly_expired_def Let_def old_def [symmetric] view_def on_stats_def split: if_splits)
  have "cs' = cs1" "m' = Some ((record_integrity_failure ^^ (if cu_check_integrity c then ir_invalid (verify_integrity E cs1) else 0))
      ((record_eviction ^^ n) m))"
    using assms(3) ev by (simp_all add: cleanup_def Let_def)
  then show ?thesis unfolding Let_def old_def [symmetric] using r n by (simp add: count_up)
qed

section \<open>Recovery makes progress\<close>

definition recovery_outcome :: "recovery_config \<Rightarrow> bool \<Rightarrow> recovery_tracker \<Rightarrow> recovery_tracker" where
  "recovery_outcome c good v =
     (if good then recovery_record_success (rc_rps_increment c) (rc_max_rps c) v else recovery_record_failure v)"

lemma success_fields:
  fixes c :: recovery_config
  assumes "unat (rv_successful_batches v) + 1 < 2 ^ 32"
  defines "v' \<equiv> recovery_outcome c True v"
  shows "rv_required_batches v' = rv_required_batches v"
    and "unat (rv_successful_batches v') = unat (rv_successful_batches v) + 1"
    and "rv_is_recovering v' \<longleftrightarrow> rv_is_recovering v
      \<and> unat (rv_successful_batches v) + 1 < unat (rv_required_batches v)"
    and "unat (rv_required_batches v) \<le> unat (rv_successful_batches v) + 1 \<Longrightarrow> recovery_state_of v' = RvStable"
proof -
  have u: "unat (rv_successful_batches v + 1) = unat (rv_successful_batches v) + 1"
    using assms(1) by (simp add: unat_word_ariths)
  have s: "unat (sat_add (rv_successful_batches v) 1) = unat (rv_successful_batches v) + 1"
    using assms(1) by (simp add: unat_sat_add)
  note defs = v'_def recovery_outcome_def recovery_record_success_def complete_recovery_def recovery_set_state_def
    recovery_set_rps_def recovery_rps_def Let_def
  show "rv_required_batches v' = rv_required_batches v" by (simp add: defs)
  show "unat (rv_successful_batches v') = unat (rv_successful_batches v) + 1" by (simp add: defs u)
  show "rv_is_recovering v' \<longleftrightarrow> rv_is_recovering v \<and> unat (rv_successful_batches v) + 1 < unat (rv_required_batches v)"
    using s by (auto simp: defs word_le_nat_alt)
  assume "unat (rv_required_batches v) \<le> unat (rv_successful_batches v) + 1"
  then show "recovery_state_of v' = RvStable"
    using s by (simp add: defs word_le_nat_alt recovery_state_of_def)
qed

lemma recovery_streak:
  fixes c :: recovery_config
  assumes "unat (rv_successful_batches v) + n < 2 ^ 32"
  defines "v' \<equiv> (recovery_outcome c True ^^ n) v"
  shows "rv_required_batches v' = rv_required_batches v
    \<and> unat (rv_successful_batches v') = unat (rv_successful_batches v) + n
    \<and> (0 < n \<longrightarrow> (rv_is_recovering v' \<longleftrightarrow> rv_is_recovering v \<and> unat (rv_successful_batches v) + n < unat (rv_required_batches v))
        \<and> (unat (rv_required_batches v) \<le> unat (rv_successful_batches v) + n \<longrightarrow> recovery_state_of v' = RvStable))"
  using assms(1) unfolding v'_def
proof (induction n)
  case (Suc n)
  let ?u = "(recovery_outcome c True ^^ n) v"
  have IH: "rv_required_batches ?u = rv_required_batches v" "unat (rv_successful_batches ?u) = unat (rv_successful_batches v) + n"
    "0 < n \<longrightarrow> (rv_is_recovering ?u \<longleftrightarrow> rv_is_recovering v \<and> unat (rv_successful_batches v) + n < unat (rv_required_batches v))"
    using Suc by auto
  have "unat (rv_successful_batches ?u) + 1 < 2 ^ 32" using IH(2) Suc.prems by simp
  note s = success_fields [OF this, of c]
  show ?case using s IH by (cases "n = 0") auto
qed simp

text \<open>After a failed batch, a recovery needs the full number of successful batches in a row and no more: it is still
  on after fewer of them, and complete and stable with the last one. The failure itself neither ends the recovery
  nor lowers its rate.\<close>

theorem recovery_needs_streak:
  assumes "rv_is_recovering v" and "0 < rv_required_batches v" and "n \<le> unat (rv_required_batches v)"
  shows "let p = recovery_outcome c False v; v' = (recovery_outcome c True ^^ n) p
    in rv_current_rps p = rv_current_rps v \<and> recovery_state_of p = RvPaused \<and> rv_is_recovering p
       \<and> (rv_is_recovering v' \<longleftrightarrow> n < unat (rv_required_batches v))
       \<and> (n = unat (rv_required_batches v) \<longrightarrow> recovery_state_of v' = RvStable)"
proof -
  let ?p = "recovery_outcome c False v"
  have p: "rv_current_rps ?p = rv_current_rps v" "recovery_state_of ?p = RvPaused" "rv_is_recovering ?p"
    "rv_successful_batches ?p = 0" "rv_required_batches ?p = rv_required_batches v"
    using assms(1) by (simp_all add: recovery_outcome_def recovery_record_failure_def recovery_set_state_def recovery_state_of_def)
  have pos: "0 < unat (rv_required_batches v)" using assms(2) by (simp add: word_gt_0 unat_gt_0)
  have "unat (rv_successful_batches ?p) + n < 2 ^ 32"
    using assms(3) unsigned_less [of "rv_required_batches v", where 'a = nat] by (simp add: p)
  note s = recovery_streak [OF this, of c]
  show ?thesis unfolding Let_def using s p pos assms(3) by (cases "n = 0") auto
qed

text \<open>A recovery batch stops working only when the rate was rounded down to 0, which is when there is a
  query to refresh at all; otherwise it asks for every tracked stale entry once and counts each
  answer.\<close>

theorem recovery_loop_returns:
  "(recovery_loop K hs good bad s = None \<longleftrightarrow>
      rv_current_rps (ry_tracker s) = 0 \<and> (\<exists>h \<in> set hs. rk_query_map K h \<noteq> None))
   \<and> (\<forall>g b s'. recovery_loop K hs good bad s = Some (g, b, s') \<longrightarrow> ry_tracker s' = ry_tracker s
        \<and> (unat good + unat bad + length (filter (\<lambda>h. rk_query_map K h \<noteq> None) hs) < 2 ^ 32 \<longrightarrow>
             unat g + unat b = unat good + unat bad + length (filter (\<lambda>h. rk_query_map K h \<noteq> None) hs)))"
proof (induction hs arbitrary: good bad s)
  case (Cons h hs)
  show ?case
  proof (cases "rk_query_map K h")
    case None
    then have eqs: "recovery_loop K (h # hs) good bad s = recovery_loop K hs good bad s"
      "filter (\<lambda>h. rk_query_map K h \<noteq> None) (h # hs) = filter (\<lambda>h. rk_query_map K h \<noteq> None) hs"
      "(\<exists>x \<in> set (h # hs). rk_query_map K x \<noteq> None) = (\<exists>x \<in> set hs. rk_query_map K x \<noteq> None)"
      by simp_all
    show ?thesis unfolding eqs by (rule Cons.IH)
  next
    case (Some q)
    obtain ok s1 where r: "refresh_entry K h q s = (ok, s1)" by fastforce
    have tr: "ry_tracker s1 = ry_tracker s" using r by (auto simp: refresh_entry_def split: prod.splits sum.splits)
    let ?f = "\<lambda>b. s1\<lparr>ry_health := (if b then health_record_success else health_record_failure)
        (now_ms (ck_wall (rk_clock K (ry_world s1)))) (ry_health s1)\<rparr>"
    have sat: "unat (sat_add x 1) = unat x + 1" if "unat x + 1 < 2 ^ 32" for x :: u32
      using that by (simp add: unat_sat_add)
    show ?thesis
    proof (cases "rv_current_rps (ry_tracker s) = 0")
      case False
      let ?g = "if ok then sat_add good 1 else good" and ?b = "if ok then bad else sat_add bad 1"
      have step: "recovery_loop K (h # hs) good bad s = recovery_loop K hs ?g ?b (?f ok)"
        using False Some r by (cases ok) simp_all
      have count: "length (filter (\<lambda>h. rk_query_map K h \<noteq> None) (h # hs)) = Suc (length (filter (\<lambda>h. rk_query_map K h \<noteq> None) hs))"
        using Some by simp
      have sum: "unat ?g + unat ?b = unat good + unat bad + 1" if "unat good + unat bad + 1 < 2 ^ 32"
        using that sat [of good] sat [of bad] by (cases ok) simp_all
      have trf: "ry_tracker (?f ok) = ry_tracker s" by (simp add: tr)
      note IH = Cons.IH [of ?g ?b "?f ok", unfolded trf]
      have some: "recovery_loop K hs ?g ?b (?f ok) \<noteq> None" using IH [THEN conjunct1] False by blast
      have "ry_tracker s' = ry_tracker s \<and> (unat good + unat bad + Suc (length (filter (\<lambda>h. rk_query_map K h \<noteq> None) hs)) < 2 ^ 32 \<longrightarrow>
          unat g + unat b = unat good + unat bad + Suc (length (filter (\<lambda>h. rk_query_map K h \<noteq> None) hs)))"
        if res: "recovery_loop K hs ?g ?b (?f ok) = Some (g, b, s')" for g b s'
        using IH [THEN conjunct2, rule_format, OF res] sum by linarith
      then show ?thesis unfolding step count using some False by blast
    qed (use Some in auto)
  qed
qed simp

section \<open>When the version watch clears the cache\<close>

fun adjacent_changes :: "upstream_version \<Rightarrow> upstream_version list \<Rightarrow> nat" where
  "adjacent_changes v [] = 0"
| "adjacent_changes v (n # ns) = (if differs_from n v then 1 else 0) + adjacent_changes n ns"

text \<open>Over a series of version checks that deliver version information, the number of changes detected is the number
  of versions that differ from the one before; if there are none, the cache is untouched, however far the last
  version is from the first (a corpus that grows by less than one percent per check is never noticed).\<close>

theorem version_watch_compares_neighbours:
  assumes "\<not> version_is_empty (vw_current v)" and "\<forall>n \<in> set ns. \<not> version_is_empty n"
    and "fold (\<lambda>n. check_version t (Inr n)) ns (v, cs) = (v', cs')"
  shows "vw_changes v' = vw_changes v + of_nat (adjacent_changes (vw_current v) ns)
    \<and> (adjacent_changes (vw_current v) ns = 0 \<longrightarrow> cs' = cs)"
  using assms
proof (induction ns arbitrary: v cs)
  case (Cons n ns)
  obtain v1 c1 where st: "check_version t (Inr n) (v, cs) = (v1, c1)" by fastforce
  have v1: "vw_current v1 = n" "vw_changes v1 = vw_changes v + (if differs_from n (vw_current v) then 1 else 0)"
    "\<not> differs_from n (vw_current v) \<Longrightarrow> c1 = cs"
    using st Cons.prems(1) by (auto simp: check_version_def Let_def)
  have "fold (\<lambda>n. check_version t (Inr n)) ns (v1, c1) = (v', cs')" using Cons.prems(3) st by simp
  from Cons.IH [OF _ _ this] Cons.prems(2) v1 show ?case by auto
qed simp

section \<open>Examples\<close>

theorem cleanup_exact_witness:
  "\<exists>m' cs'. cleanup trivial_env \<lparr>ck_now = 0, ck_wall = 0\<rparr> cleanup_config_default (Some metrics_new) hot_store = (m', cs')
     \<and> view cs' = view hot_store"
proof -
  have "queue_len hot_store \<le> 10" "queue_capacity hot_store = 10"
    by (simp_all add: hot_store_def cache_with_def queue_len_def queue_capacity_def s3fifo_new_def Let_def)
  then have ok: "store_ok trivial_env 10 hot_store" using hot_store_inv(1) by (simp add: store_ok_def)
  have perm: "mset (iter_order trivial_env (cs_entries hot_store)) = mset (cs_entries hot_store)" by (simp add: trivial_env_def)
  obtain m' cs' where c: "cleanup trivial_env \<lparr>ck_now = 0, ck_wall = 0\<rparr> cleanup_config_default (Some metrics_new) hot_store = (m', cs')"
    by fastforce
  have "view cs' = (\<lambda>h. case view hot_store h of Some e \<Rightarrow> if cs_max_frozen_duration hot_store < elapsed 0 (ce_cached_at e)
      then None else Some e | None \<Rightarrow> None)"
    using cleanup_exact [OF ok perm c] by (simp add: Let_def)
  also have "\<dots> = view hot_store" by (auto simp: fun_eq_iff elapsed_def split: option.splits)
  finally show ?thesis using c by blast
qed

theorem recovery_needs_streak_witness:
  "let c = recovery_config_default;
       v = (start_recovery (Fin 1) (recovery_tracker_new c))\<lparr>rv_required_batches := 3\<rparr>
   in recovery_state_of ((recovery_outcome c True ^^ 3) (recovery_outcome c False v)) = RvStable"
  using recovery_needs_streak [of "(start_recovery (Fin 1) (recovery_tracker_new recovery_config_default))\<lparr>rv_required_batches := 3\<rparr>" 3
      recovery_config_default]
  by (simp add: start_recovery_def recovery_set_rps_def recovery_set_state_def Let_def)

theorem recovery_loop_returns_witness:
  "recovery_loop \<lparr>rk_env = trivial_env, rk_query = (\<lambda>_ w. (Inl UpTimeout, w)), rk_clock = (\<lambda>_. \<lparr>ck_now = 0, ck_wall = 0\<rparr>),
       rk_base_url = [], rk_config = recovery_config_default, rk_query_map = [[1] \<mapsto> lit ''q'']\<rparr> [[1]] 0 0
     \<lparr>ry_tracker = (recovery_tracker_new recovery_config_default)\<lparr>rv_current_rps := 0\<rparr>, ry_health = health_new,
       ry_cache = cache_new 10 20 100, ry_world = ()\<rparr> = None"
  using recovery_loop_returns [of "\<lparr>rk_env = trivial_env, rk_query = (\<lambda>_ w. (Inl UpTimeout, w)), rk_clock = (\<lambda>_. \<lparr>ck_now = 0, ck_wall = 0\<rparr>),
       rk_base_url = [], rk_config = recovery_config_default, rk_query_map = [[1] \<mapsto> lit ''q'']\<rparr>" "[[1]]" 0 0
     "\<lparr>ry_tracker = (recovery_tracker_new recovery_config_default)\<lparr>rv_current_rps := 0\<rparr>, ry_health = health_new,
       ry_cache = cache_new 10 20 100, ry_world = ()\<rparr>"]
  by simp

theorem version_watch_compares_neighbours_witness:
  "let one = version_none\<lparr>uv_version := Some (lit ''1'')\<rparr>;
       (v', cs') = fold (\<lambda>n. check_version \<lparr>ck_now = 0, ck_wall = 0\<rparr> (Inr n)) [one]
         (\<lparr>vw_invalidate = True, vw_current = one, vw_changes = 0\<rparr>, hot_store)
   in cs' = hot_store"
  using version_watch_compares_neighbours [of "\<lparr>vw_invalidate = True, vw_current = version_none\<lparr>uv_version := Some (lit ''1'')\<rparr>, vw_changes = 0\<rparr>"
      "[version_none\<lparr>uv_version := Some (lit ''1'')\<rparr>]" "\<lparr>ck_now = 0, ck_wall = 0\<rparr>" hot_store]
  by (auto simp: version_is_empty_def version_none_def differs_from_def both_differ_def Let_def split: prod.splits)

end
