(* ===== verification/Snapshot.thy ===== *)
theory Snapshot
  imports Peer ConfigProxy
begin

text \<open>
  Joining a cluster, \<open>src/src/proxy/peer/\<close>: the snapshot that a node streams to a peer
  (\<open>snapshot.rs\<close>), the client that applies it to its own cache, the status service
  (\<open>service.rs\<close>), and the manager that warms a node up from the first peer with which it reaches
  parity (\<open>mod.rs\<close>). What the network delivers is an argument: the messages of a stream with the
  times at which they are handled, or an error.
\<close>

section \<open>The server of a snapshot\<close>

definition snapshot_event :: "rstr \<Rightarrow> u64 \<Rightarrow> u64 \<Rightarrow> nat \<times> rstr \<times> u8 list \<times> rstr \<Rightarrow> proto_event" where
  "snapshot_event node now ttl_ms x =
     (let (i, query_text, payload, upstream_id) = x
      in \<lparr>pe_sequence = of_nat (usize_add i 1), pe_timestamp_ms = now, pe_event_type = to_proto CdcInsert,
          pe_query_key = query_text, pe_payload = payload, pe_upstream_id = upstream_id, pe_context_id = [],
          pe_origin_node_id = node, pe_absolute_expiry_ms = (if 0 < ttl_ms then sat_add now ttl_ms else 0)\<rparr>)"

text \<open>The client takes \<open>delivered\<close> messages before it disconnects. The sum of the two times panics when it
  overflows.\<close>

definition stream_snapshot :: "env \<Rightarrow> system_time \<Rightarrow> event_sender \<Rightarrow> nat \<Rightarrow> cache_store \<Rightarrow> proto_event list option" where
  "stream_snapshot E wall sender delivered cs =
     map_option (\<lambda>ttl. take delivered
         (map (snapshot_event (es_node_id sender) (now_ms wall) (as_millis_u64 ttl)) (enumerate 0 (snapshot_entries E cs))))
       (dur_add (cs_fresh_duration cs) (cs_stale_duration cs))"

section \<open>The client of a snapshot\<close>

datatype snapshot_message = SnapshotEvent clock proto_event | SnapshotBroken rstr

fun apply_snapshot ::
  "env \<Rightarrow> rstr \<Rightarrow> snapshot_message list \<Rightarrow> nat \<Rightarrow> cache_store \<Rightarrow> (rstr + nat) \<times> cache_store" where
  "apply_snapshot E node [] applied cs = (Inr applied, cs)"
| "apply_snapshot E node (SnapshotBroken e # ms) applied cs = (Inl e, cs)"
| "apply_snapshot E node (SnapshotEvent t pe # ms) applied cs =
     (case proto_to_internal pe of
        None \<Rightarrow> apply_snapshot E node ms applied cs
      | Some ev \<Rightarrow>
          (let (res, cs1) = deduplicate E t ev node cs;
               (ok, cs2) = (if res = Apply then apply_event E t ev cs1 else (False, cs1))
           in apply_snapshot E node ms (if ok then usize_add applied 1 else applied) cs2))"

definition request_snapshot ::
  "env \<Rightarrow> rstr \<Rightarrow> rstr + snapshot_message list \<Rightarrow> cache_store \<Rightarrow> (rstr + nat) \<times> cache_store" where
  "request_snapshot E node connection cs =
     (case connection of Inl e \<Rightarrow> (Inl e, cs) | Inr ms \<Rightarrow> apply_snapshot E node ms 0 cs)"

section \<open>Status and parity\<close>

datatype peer_state = Warming | Ready

definition peer_state_as_str :: "peer_state \<Rightarrow> rstr" where
  "peer_state_as_str s = (case s of Warming \<Rightarrow> lit ''warming'' | Ready \<Rightarrow> lit ''ready'')"

definition peer_state_from_u8 :: "u8 \<Rightarrow> peer_state" where
  "peer_state_from_u8 v = (if v = 1 then Ready else Warming)"

definition peer_state_code :: "peer_state \<Rightarrow> u8" where
  "peer_state_code s = (case s of Warming \<Rightarrow> 0 | Ready \<Rightarrow> 1)"

record peer_status =
  pt_node_id :: rstr
  pt_state :: rstr
  pt_cache_entry_count :: u64
  pt_sequence :: u64

definition get_status :: "u8 \<Rightarrow> event_sender \<Rightarrow> cache_store \<Rightarrow> peer_status" where
  "get_status state sender cs =
     \<lparr>pt_node_id = es_node_id sender, pt_state = peer_state_as_str (peer_state_from_u8 state),
      pt_cache_entry_count = of_nat (length (cs_entries cs)), pt_sequence = es_sequence sender\<rparr>"

definition check_parity :: "rstr + peer_status \<Rightarrow> cache_store \<Rightarrow> rstr + u64 \<times> u64" where
  "check_parity answer cs =
     (case answer of
        Inl e \<Rightarrow> Inl e
      | Inr st \<Rightarrow> Inr (of_nat (length (cs_entries cs)), pt_cache_entry_count st))"

definition parity_ratio :: "u64 \<Rightarrow> u64 \<Rightarrow> fl" where
  "parity_ratio local remote =
     (if 0 < remote
      then (case nat_as_f64 (unat remote) of Fin c \<Rightarrow> f64_div_const (nat_as_f64 (unat local)) c | _ \<Rightarrow> NaN)
      else Fin 1)"

section \<open>The manager\<close>

record peer_manager =
  pm_config :: peer_config
  pm_cache :: cache_store
  pm_event_sender :: event_sender
  pm_state :: u8
  pm_coalescer :: distributed_coalescer

definition initial_state :: "peer_config \<Rightarrow> peer_state" where
  "initial_state c = (if pc_peers c = [] \<or> \<not> peer_snapshot_on_join c then Ready else Warming)"

definition peer_manager_new :: "peer_config \<Rightarrow> cache_store \<Rightarrow> event_sender \<Rightarrow> peer_manager" where
  "peer_manager_new c cs sender =
     \<lparr>pm_config = c, pm_cache = cs, pm_event_sender = sender, pm_state = peer_state_code (initial_state c),
      pm_coalescer = coalescer_new sender\<rparr>"

definition manager_state :: "peer_manager \<Rightarrow> peer_state" where
  "manager_state pm = peer_state_from_u8 (pm_state pm)"

definition peer_is_ready :: "peer_manager \<Rightarrow> bool" where
  "peer_is_ready pm \<longleftrightarrow> manager_state pm = Ready"

text \<open>What the network answers when a peer is asked for its snapshot and then for its status.\<close>

record peer_answers =
  pa_snapshot :: "rstr + snapshot_message list"
  pa_status :: "rstr + peer_status"

text \<open>The peers are asked in turn; the result is the one with which parity was reached, if any.\<close>

fun warm_up :: "env \<Rightarrow> rstr \<Rightarrow> fl \<Rightarrow> (rstr \<times> peer_answers) list \<Rightarrow> cache_store \<Rightarrow> rstr option \<times> cache_store" where
  "warm_up E node threshold [] cs = (None, cs)"
| "warm_up E node threshold ((peer, ans) # rest) cs =
     (case request_snapshot E node (pa_snapshot ans) cs of
        (Inl _, cs1) \<Rightarrow> warm_up E node threshold rest cs1
      | (Inr _, cs1) \<Rightarrow>
          (case check_parity (pa_status ans) cs1 of
             Inl _ \<Rightarrow> warm_up E node threshold rest cs1
           | Inr (local, remote) \<Rightarrow>
               (if fl_le threshold (parity_ratio local remote) then (Some peer, cs1)
                else warm_up E node threshold rest cs1)))"

text \<open>\<open>start\<close>, when its task has ended. The receivers that it also starts are those of the theory \<open>Peer\<close>.\<close>

definition peer_start :: "env \<Rightarrow> rstr \<Rightarrow> (rstr \<Rightarrow> peer_answers) \<Rightarrow> peer_manager \<Rightarrow> rstr option \<times> peer_manager" where
  "peer_start E node network pm =
     (if pc_peers (pm_config pm) = [] \<or> \<not> peer_snapshot_on_join (pm_config pm) then (None, pm)
      else let (from, cs) = warm_up E node (peer_ready_threshold (pm_config pm))
                 (map (\<lambda>p. (p, network p)) (pc_peers (pm_config pm))) (pm_cache pm)
           in (from, pm\<lparr>pm_cache := cs, pm_state := peer_state_code Ready\<rparr>))"

section \<open>Applying a snapshot to a store with room\<close>

text \<open>A lookup changes frequencies, hit counters and the table of exact hashes, and nothing a limit looks at.\<close>

lemma cache_get_roomy: "roomy n b (snd (cache_get E q cs)) = roomy n b cs"
proof -
  have t: "touch h c = (r, c') \<Longrightarrow> roomy n b c' = roomy n b c" for h c r c'
    by (auto simp: touch_def roomy_def queue_len_def queue_capacity_def split: option.splits)
  have k: "roomy n b (count_exact c) = roomy n b c" "roomy n b (count_normalized c) = roomy n b c"
    "roomy n b (set_e2n x y c) = roomy n b c" for x y c
    by (simp_all add: count_exact_def count_normalized_def set_e2n_def roomy_def queue_len_def queue_capacity_def)
  have tier2: "roomy n b (snd (get_tier2 E q c)) = roomy n b c" for c
    using t [of "hash_query E q" c] by (simp add: get_tier2_def Let_def k split: prod.split option.split)
  have two: "roomy n b (snd (get_two_tier E q cs)) = roomy n b cs"
    using t [where c = cs] by (simp add: get_two_tier_def k tier2 split: prod.split option.split)
  show ?thesis using t [of "hash_query E q" cs] by (simp add: cache_get_def k two split: prod.split option.split)
qed

lemma cache_get_matching: "cs_normalized_matching (snd (cache_get E q cs)) = cs_normalized_matching cs"
  by (auto simp: cache_get_def get_two_tier_def get_tier2_def touch_def count_exact_def count_normalized_def set_e2n_def Let_def
      split: option.split)

text \<open>What a receiver needs so that no lookup confuses two queries: with two-tier matching, a consistent table of exact hashes
  and queries whose exact hash no other query has.\<close>

definition unconfused :: "env \<Rightarrow> rstr set \<Rightarrow> cache_store \<Rightarrow> bool" where
  "unconfused E qs cs \<longleftrightarrow> (cs_normalized_matching cs \<longrightarrow> e2n_ok E cs \<and> (\<forall>q \<in> qs. no_exact_collision E q))"

lemma unconfused_get: "unconfused E qs cs \<Longrightarrow> unconfused E qs (snd (cache_get E q cs))"
  by (simp add: unconfused_def cache_get_matching e2n.cache_get_P)

lemma unconfused_insert:
  assumes "unconfused E qs cs" and "cs_per_upstream_limit cs = None"
  shows "unconfused E qs (cache_insert E t q r u cs)"
  using assms by (simp add: unconfused_def cache_insert_def insert_impl_matching make_room_def e2n.insert_impl_P)

lemma unconfused_miss:
  assumes "unconfused E qs cs" and "q \<in> qs" and "view cs (hash_query E q) = None"
  shows "fst (cache_get E q cs) = None"
proof -
  have "n = hash_query E q" if "cs_normalized_matching cs" "cs_exact_to_normalized cs (hash_query_exact E q) = Some n" for n
    using that assms(1,2) e2n_lookup [of E cs q n] by (simp add: unconfused_def)
  then show ?thesis using cache_get_result [of cs E q] assms(3) by simp
qed

text \<open>A message that the receiver stores, and the entry it stores for it.\<close>

definition storable :: "env \<Rightarrow> rstr \<Rightarrow> clock \<times> proto_event \<Rightarrow> bool" where
  "storable E node x \<longleftrightarrow> pe_event_type (snd x) = to_proto CdcInsert \<and> pe_origin_node_id (snd x) \<noteq> node
     \<and> (pe_absolute_expiry_ms (snd x) = 0 \<or> now_ms (ck_wall (fst x)) < pe_absolute_expiry_ms (snd x))
     \<and> pe_payload (snd x) \<noteq> [] \<and> from_slice E (pe_payload (snd x)) \<noteq> None"

definition stored :: "env \<Rightarrow> clock \<times> proto_event \<Rightarrow> query_hash \<times> cache_entry" where
  "stored E x = (hash_query E (pe_query_key (snd x)),
     fresh_entry E (fst x) (the (from_slice E (pe_payload (snd x)))) (pe_upstream_id (snd x)) (Some (pe_query_key (snd x)))
       (lit ''default''))"

definition stored_size :: "env \<Rightarrow> clock \<times> proto_event \<Rightarrow> nat" where
  "stored_size E x = approximate_size E (snd (stored E x))"

lemma apply_one:
  assumes "storable E node x" and "roomy (Suc n) (stored_size E x + b) cs" and "view cs (fst (stored E x)) = None" and "store_ok E N cs"
    and "unconfused E qs cs" and "pe_query_key (snd x) \<in> qs" and "applied + 1 < 2 ^ 64"
  shows "\<exists>cs'. apply_snapshot E node (SnapshotEvent (fst x) (snd x) # ms) applied cs = apply_snapshot E node ms (applied + 1) cs'
    \<and> roomy n b cs' \<and> view cs' = (view cs)(fst (stored E x) \<mapsto> snd (stored E x)) \<and> store_ok E N cs' \<and> unconfused E qs cs'"
proof -
  obtain t pe where x: "x = (t, pe)" by fastforce
  obtain ev where ev: "proto_to_internal pe = Some ev" "ev_event_type ev = CdcInsert" "ev_origin_node_id ev \<noteq> node"
    "ev_payload ev = pe_payload pe" "ev_query_key ev = pe_query_key pe" "ev_upstream_id ev = pe_upstream_id pe"
    "ev_absolute_expiry_ms ev = pe_absolute_expiry_ms pe"
    using assms(1) by (auto simp: x storable_def proto_to_internal_def from_proto_def)
  obtain r where r: "from_slice E (pe_payload pe) = Some r" "pe_payload pe \<noteq> []"
    using assms(1) by (auto simp: x storable_def)
  let ?c = "snd (cache_get E (pe_query_key pe) cs)" and ?h = "hash_query E (pe_query_key pe)"
    and ?e = "fresh_entry E t r (pe_upstream_id pe) (Some (pe_query_key pe)) (lit ''default'')"
  let ?c' = "cache_insert E t (pe_query_key pe) r (pe_upstream_id pe) ?c"
  have h: "view cs ?h = None" using assms(3) by (simp add: x stored_def)
  then have "fst (cache_get E (pe_query_key pe) cs) = None" using unconfused_miss [OF assms(5)] assms(6) by (simp add: x)
  then have "deduplicate E t ev node cs = (Apply, ?c)"
    using assms(1) by (auto simp: deduplicate_def ev x storable_def not_le split: prod.splits)
  moreover have n1: "usize_add applied (Suc 0) = Suc applied" using assms(7) by (simp add: usize_add_def usize_max_def)
  ultimately have run: "apply_snapshot E node (SnapshotEvent t pe # ms) applied cs = apply_snapshot E node ms (applied + 1) ?c'"
    by (simp add: ev apply_event_def r Let_def n1)
  have room: "roomy (Suc n) (approximate_size E ?e + b) ?c" using assms(2) by (simp add: cache_get_roomy x stored_size_def stored_def r)
  have "map_of (cs_entries ?c) ?h = None" using h fun_cong [OF cache_get_view, of E "pe_query_key pe" cs ?h] by (simp add: view_def)
  then have "roomy n b ?c'" unfolding cache_insert_def by (intro roomy_insert [OF room]) simp
  moreover have "view ?c' = (view cs)(?h \<mapsto> ?e)"
    unfolding cache_insert_def by (simp add: insert_impl_with_room(1) [OF roomy_room [OF room]] cache_get_view)
  moreover have "unconfused E qs ?c'"
    using room by (intro unconfused_insert unconfused_get assms(5)) (simp add: roomy_def)
  moreover have "store_ok E N ?c'" using assms(4) by (simp add: cache_insert_def sok.insert_impl_P sok.cache_get_P)
  ultimately show ?thesis using run by (auto simp: x stored_def r)
qed

lemma apply_rows:
  assumes "roomy (length rows) (sum_list (map (stored_size E) rows)) cs" and "\<forall>x \<in> set rows. storable E node x"
    and "distinct (map (fst \<circ> stored E) rows)" and "\<forall>x \<in> set rows. view cs (fst (stored E x)) = None"
    and "store_ok E N cs" and "unconfused E qs cs" and "\<forall>x \<in> set rows. pe_query_key (snd x) \<in> qs" and "applied + length rows < 2 ^ 64"
  shows "\<exists>cs'. apply_snapshot E node (map (\<lambda>x. SnapshotEvent (fst x) (snd x)) rows) applied cs = (Inr (applied + length rows), cs')
    \<and> view cs' = view cs ++ map_of (map (stored E) rows) \<and> store_ok E N cs'"
  using assms
proof (induction rows arbitrary: cs applied)
  case Nil
  then show ?case by simp
next
  case (Cons x rows)
  have one: "storable E node x" "roomy (Suc (length rows)) (stored_size E x + sum_list (map (stored_size E) rows)) cs"
    "view cs (fst (stored E x)) = None" "store_ok E N cs" "unconfused E qs cs" "pe_query_key (snd x) \<in> qs" "applied + 1 < 2 ^ 64"
    using Cons.prems by simp_all
  obtain cs1 where c1: "apply_snapshot E node (SnapshotEvent (fst x) (snd x) # map (\<lambda>x. SnapshotEvent (fst x) (snd x)) rows) applied cs =
      apply_snapshot E node (map (\<lambda>x. SnapshotEvent (fst x) (snd x)) rows) (applied + 1) cs1"
    "roomy (length rows) (sum_list (map (stored_size E) rows)) cs1" "view cs1 = (view cs)(fst (stored E x) \<mapsto> snd (stored E x))"
    "store_ok E N cs1" "unconfused E qs cs1"
    using apply_one [OF one] by blast
  have "\<forall>y \<in> set rows. view cs1 (fst (stored E y)) = None"
    using Cons.prems(3,4) by (auto simp: c1(3) image_iff)
  then obtain cs' where cs': "apply_snapshot E node (map (\<lambda>x. SnapshotEvent (fst x) (snd x)) rows) (applied + 1) cs1 =
      (Inr (applied + 1 + length rows), cs')"
    "view cs' = view cs1 ++ map_of (map (stored E) rows)" "store_ok E N cs'"
    using Cons.IH [OF c1(2) _ _ _ c1(4,5), of "applied + 1"] Cons.prems(2,3,7,8) by auto
  have fresh: "fst (stored E x) \<notin> dom (map_of (map (stored E) rows))"
    using Cons.prems(3) by (simp add: dom_map_of_conv_image_fst image_image)
  have "view cs' = view cs ++ map_of (map (stored E) (x # rows))"
    unfolding cs'(2) c1(3)
  proof
    fix k
    show "((view cs)(fst (stored E x) \<mapsto> snd (stored E x)) ++ map_of (map (stored E) rows)) k
        = (view cs ++ map_of (map (stored E) (x # rows))) k"
      using fresh by (cases "stored E x") (auto simp: map_add_def domIff split: option.splits)
  qed
  then have v: "view cs' = view cs ++ map_of (map (stored E) (x # rows))" .
  have "apply_snapshot E node (map (\<lambda>x. SnapshotEvent (fst x) (snd x)) (x # rows)) applied cs = (Inr (applied + length (x # rows)), cs')"
    unfolding list.map c1(1) cs'(1) by simp
  with v cs'(3) show ?case by blast
qed

section \<open>A node that joins\<close>

text \<open>An entry that survives the transport: it knows its query, is stored under the hash of it, and its
  response is read back as it was written.\<close>

definition portable :: "env \<Rightarrow> query_hash \<times> cache_entry \<Rightarrow> bool" where
  "portable E x \<longleftrightarrow>
     (case (ce_query_text (snd x), to_vec E (ce_response (snd x))) of
        (Some q, Some payload) \<Rightarrow>
          fst x = hash_query E q \<and> payload \<noteq> [] \<and> from_slice E payload = Some (ce_response (snd x))
      | _ \<Rightarrow> False)"

definition copy_at :: "env \<Rightarrow> clock \<times> query_hash \<times> cache_entry \<Rightarrow> query_hash \<times> cache_entry" where
  "copy_at E x = (fst (snd x), fresh_entry E (fst x) (ce_response (snd (snd x))) (ce_upstream_id (snd (snd x)))
     (ce_query_text (snd (snd x))) (lit ''default''))"

text \<open>The room that the copy of an entry takes: the entry without the hints about its model and version, which do not travel.\<close>

definition copy_size :: "env \<Rightarrow> cache_entry \<Rightarrow> nat" where
  "copy_size E e = approximate_size E (e\<lparr>ce_schema := schema_default\<rparr>)"

lemma copy_at_size: "approximate_size E (snd (copy_at E (t, h, e))) = copy_size E e"
  by (simp add: copy_at_def copy_size_def approximate_size_def fresh_entry_def)

text \<open>The queries of the entries of a cache.\<close>

definition queries_of :: "cache_store \<Rightarrow> rstr set" where
  "queries_of cs = {q. \<exists>x \<in> set (cs_entries cs). ce_query_text (snd x) = Some q}"

lemma portable_obtain:
  assumes "portable E (h, e)"
  obtains q payload where "ce_query_text e = Some q" "to_vec E (ce_response e) = Some payload" "h = hash_query E q"
    "payload \<noteq> []" "from_slice E payload = Some (ce_response e)"
  using assms by (auto simp: portable_def split: option.splits)

lemma map_filter_Some: "\<forall>x \<in> set xs. f x = Some (g x) \<Longrightarrow> List.map_filter f xs = map g xs"
  by (induction xs) (simp_all add: map_filter_simps)

lemma snapshot_rows:
  assumes "\<forall>x \<in> set (iter_entries E cs). portable E x"
  shows "snapshot_entries E cs = map (\<lambda>x. (the (ce_query_text (snd x)), the (to_vec E (ce_response (snd x))), ce_upstream_id (snd x)))
    (iter_entries E cs)"
  unfolding snapshot_entries_def
proof (rule map_filter_Some, rule ballI)
  fix x
  assume "x \<in> set (iter_entries E cs)"
  then have "portable E (fst x, snd x)" using assms by simp
  then show "(case x of (_, e) \<Rightarrow> map_option (\<lambda>json. ((case ce_query_text e of Some q \<Rightarrow> q | None \<Rightarrow> []), json, ce_upstream_id e))
      (to_vec E (ce_response e))) =
    Some (the (ce_query_text (snd x)), the (to_vec E (ce_response (snd x))), ce_upstream_id (snd x))"
    by (rule portable_obtain) (simp add: case_prod_unfold)
qed

lemma streamed_stored:
  assumes "stream_snapshot E wall sender (length (cs_entries cs)) cs = Some pes"
    and "mset (iter_order E (cs_entries cs)) = mset (cs_entries cs)" and "\<forall>x \<in> set (cs_entries cs). portable E x"
    and "length ts = length pes" and "es_node_id sender \<noteq> node"
    and "\<forall>t \<in> set ts. \<forall>pe \<in> set pes. pe_absolute_expiry_ms pe = 0 \<or> now_ms (ck_wall t) < pe_absolute_expiry_ms pe"
  shows "length pes = length (cs_entries cs)" and "\<forall>x \<in> set (zip ts pes). storable E node x"
    and "map (stored E) (zip ts pes) = map (copy_at E) (zip ts (iter_entries E cs))"
    and "\<forall>x \<in> set (zip ts pes). pe_query_key (snd x) \<in> queries_of cs"
proof -
  let ?xs = "iter_entries E cs" and ?rows = "snapshot_entries E cs"
  have xs: "set ?xs = set (cs_entries cs)" "length ?xs = length (cs_entries cs)"
    using assms(2) by (auto simp: iter_entries_def dest: mset_eq_setD mset_eq_length)
  then have port: "\<forall>x \<in> set ?xs. portable E x" using assms(3) by simp
  note rows = snapshot_rows [OF port]
  obtain ttl where ttl: "pes = map (snapshot_event (es_node_id sender) (now_ms wall) ttl) (enumerate 0 ?rows)"
    using assms(1) xs(2) by (auto simp: stream_snapshot_def rows)
  show len: "length pes = length (cs_entries cs)" using xs(2) by (simp add: ttl rows)
  have nth: "pes ! i = snapshot_event (es_node_id sender) (now_ms wall) ttl (i, ?rows ! i)" if "i < length pes" for i
    using that by (simp add: ttl nth_enumerate_eq)
  have row: "storable E node (ts ! i, pes ! i) \<and> stored E (ts ! i, pes ! i) = copy_at E (ts ! i, ?xs ! i)
      \<and> pe_query_key (pes ! i) \<in> queries_of cs"
    if i: "i < length pes" for i
  proof -
    obtain h e where x: "?xs ! i = (h, e)" by fastforce
    have mem: "(h, e) \<in> set ?xs" using i len xs(2) x by (metis nth_mem)
    then obtain q payload where p: "ce_query_text e = Some q" "to_vec E (ce_response e) = Some payload" "h = hash_query E q"
      "payload \<noteq> []" "from_slice E payload = Some (ce_response e)"
      using port portable_obtain by metis
    have r: "pes ! i = snapshot_event (es_node_id sender) (now_ms wall) ttl (i, q, payload, ce_upstream_id e)"
      using nth [OF i] i len xs(2) by (simp add: rows x p)
    have "pe_absolute_expiry_ms (pes ! i) = 0 \<or> now_ms (ck_wall (ts ! i)) < pe_absolute_expiry_ms (pes ! i)"
      using assms(4,6) i by simp
    moreover have "q \<in> queries_of cs" using mem p(1) xs(1) by (force simp: queries_of_def)
    ultimately show ?thesis using p assms(5) unfolding r
      by (auto simp: x storable_def stored_def copy_at_def snapshot_event_def)
  qed
  show "\<forall>x \<in> set (zip ts pes). pe_query_key (snd x) \<in> queries_of cs" using row assms(4) by (auto simp: set_zip)
  show "\<forall>x \<in> set (zip ts pes). storable E node x" using row assms(4) by (auto simp: set_zip)
  show "map (stored E) (zip ts pes) = map (copy_at E) (zip ts ?xs)"
    by (rule nth_equalityI) (use row assms(4) len xs(2) in simp_all)
qed

lemma f64_one: "f64_round 1 = Fin 1"
  by code_simp

lemma nat_as_f64_pos: "0 < n \<Longrightarrow> n < 2 ^ 64 \<Longrightarrow> \<exists>c. nat_as_f64 n = Fin c \<and> 0 < c"
proof -
  assume n: "0 < n" "n < 2 ^ 64"
  have "safe64 (of_nat n)"
  proof (rule safe64_range, rule disjI2)
    have "(of_nat n :: rat) \<le> of_nat (2 ^ 64)" using n by (simp only: of_nat_le_iff)
    moreover have "(1 :: rat) \<le> of_nat n" using n by simp
    ultimately show "1 / 10 ^ 9 \<le> (of_nat n :: rat) \<and> of_nat n \<le> (2 ^ 300 :: rat)" by simp
  qed
  then have near: "near 1 (of_nat n) (nat_as_f64 n)" by (rule near_nat)
  then obtain c where c: "nat_as_f64 n = Fin c" using near_Fin by blast
  then have "(1 - ulp64) * of_nat n \<le> c" using near by (simp add: near_def)
  moreover have "0 < (1 - ulp64) * of_nat n" using n by (simp add: ulp64_def)
  ultimately show ?thesis using c by force
qed

lemma parity_equal:
  assumes "n < 2 ^ 64"
  shows "parity_ratio (of_nat n) (of_nat n) = Fin 1"
proof (cases "n = 0")
  case False
  then obtain c where "nat_as_f64 n = Fin c" "0 < c" using nat_as_f64_pos assms by blast
  moreover have u: "unat (of_nat n :: u64) = n" using assms by (simp add: unat_of_nat take_bit_nat_eq_self)
  moreover have "(0 :: u64) < of_nat n" using False u by (simp add: word_less_nat_alt)
  ultimately show ?thesis by (simp add: parity_ratio_def f64_one)
qed (simp add: parity_ratio_def)

text \<open>C19. A node that joins with an empty cache, and whose first peer delivers its whole snapshot before the expiry that the
  events carry, reaches parity with that peer, for every threshold up to one, and holds exactly the keys of the peer: under each the same
  response, upstream and query. The age of an entry does not travel: every copy counts as stored when it was received,
  whatever its age at the peer, and belongs to the context \<open>default\<close>. Conditions: the cache of the joining node may have a memory
  limit and two-tier matching, but its queues and its memory limit, if there is one, admit all copies, and there is no
  per-upstream limit; with two-tier matching no other query has the exact hash of one of the queries; every entry of the
  peer has its query text, is stored under the normalised hash of it, and its response comes back from JSON as it was (an entry
  stored by hash without a text, or under the hash of another context, does not travel under its key); the two nodes have
  different names, and the peer's cache holds each key once and does not change while it is streamed.\<close>

theorem snapshot_rejoin:
  assumes "stream_snapshot E wall sender (length (cs_entries cs)) cs = Some pes"
    and "mset (iter_order E (cs_entries cs)) = mset (cs_entries cs)" and "\<forall>x \<in> set (cs_entries cs). portable E x"
    and "length ts = length pes" and "es_node_id sender \<noteq> node"
    and "\<forall>t \<in> set ts. \<forall>pe \<in> set pes. pe_absolute_expiry_ms pe = 0 \<or> now_ms (ck_wall t) < pe_absolute_expiry_ms pe"
    and "distinct (map fst (cs_entries cs))" and "length (cs_entries cs) < 2 ^ 64"
    and "cache_reachable E n cs0" and "cs_entries cs0 = []"
    and "cs_per_upstream_limit cs0 = None" and "queue_len cs0 + length (cs_entries cs) \<le> queue_capacity cs0"
    and "cs_max_memory_bytes cs0 = 0 \<or>
      unat (cs_total_memory_bytes cs0) + (\<Sum>x \<leftarrow> cs_entries cs. copy_size E (snd x)) \<le> unat (cs_max_memory_bytes cs0)"
    and "cs_normalized_matching cs0 \<Longrightarrow> \<forall>q \<in> queries_of cs. no_exact_collision E q"
    and "fl_le threshold (Fin 1)"
  shows "\<exists>cs'. warm_up E node threshold
        ((peer, \<lparr>pa_snapshot = Inr (map (\<lambda>x. SnapshotEvent (fst x) (snd x)) (zip ts pes)),
                 pa_status = Inr (get_status state sender cs)\<rparr>) # rest) cs0 = (Some peer, cs')
    \<and> store_ok E (max n 1) cs'
    \<and> dom (view cs') = dom (map_of (cs_entries cs))
    \<and> (\<forall>h e. map_of (cs_entries cs) h = Some e \<longrightarrow>
         (\<exists>t \<in> set ts. view cs' h = Some (snd (copy_at E (t, h, e)))))"
proof -
  let ?xs = "iter_entries E cs" and ?rows = "zip ts pes"
  note st = streamed_stored [OF assms(1-6)]
  have xs: "mset ?xs = mset (cs_entries cs)" using assms(2) by (simp add: iter_entries_def)
  note d0 = assms(7)
  then have d: "distinct (map fst ?xs)" using xs by (metis mset_map mset_eq_imp_distinct_iff)
  have lx: "length ?xs = length (cs_entries cs)" by (rule mset_eq_length [OF xs])
  then have lt: "length ts = length ?xs" "length ?rows = length (cs_entries cs)" using assms(4) st(1) by simp_all
  have keys: "map fst (map (copy_at E) (zip ts ?xs)) = map fst ?xs"
    by (rule nth_equalityI) (use lt(1) in \<open>simp_all add: copy_at_def\<close>)
  have sizes: "map (stored_size E) ?rows = map (\<lambda>x. copy_size E (snd x)) ?xs"
  proof -
    have "map (stored_size E) ?rows = map (approximate_size E \<circ> snd) (map (copy_at E) (zip ts ?xs))"
      by (simp only: st(3) [symmetric]) (simp add: stored_size_def)
    also have "\<dots> = map (\<lambda>x. copy_size E (snd x)) ?xs"
      by (rule nth_equalityI) (use lt(1) in \<open>simp_all add: copy_at_size [of E _ "fst y" "snd y" for y, simplified]\<close>)
    finally show ?thesis .
  qed
  have "mset (map (\<lambda>x. copy_size E (snd x)) ?xs) = mset (map (\<lambda>x. copy_size E (snd x)) (cs_entries cs))" using xs by (simp only: mset_map)
  then have "sum_list (map (stored_size E) ?rows) = (\<Sum>x \<leftarrow> cs_entries cs. copy_size E (snd x))" unfolding sizes by (metis sum_mset_sum_list)
  then have room: "roomy (length ?rows) (sum_list (map (stored_size E) ?rows)) cs0" using assms(11-13) lt(2) by (simp add: roomy_def)
  have "unconfused E (queries_of cs) cs0" using reachable_e2n [OF assms(9)] assms(14) by (simp add: unconfused_def)
  note rows = apply_rows [OF room st(2) _ _ cache_reachable_ok [OF assms(9)] this st(4), of 0]
  have "map (fst \<circ> stored E) ?rows = map fst ?xs" using keys st(3) by (metis map_map)
  then obtain cs' where cs': "apply_snapshot E node (map (\<lambda>x. SnapshotEvent (fst x) (snd x)) ?rows) 0 cs0 = (Inr (length ?rows), cs')"
    "view cs' = view cs0 ++ map_of (map (stored E) ?rows)" "store_ok E (max n 1) cs'"
    using rows assms(8,10) lt(2) d by (auto simp: view_def)
  have v: "view cs' = map_of (map (copy_at E) (zip ts ?xs))"
    using cs'(2) assms(10) st(3) by (simp add: view_def [abs_def] map_add_def fun_eq_iff split: option.splits)
  have dom: "dom (view cs') = dom (map_of (cs_entries cs))"
    unfolding v dom_map_of_conv_image_fst using arg_cong [OF keys, of set] mset_eq_setD [OF xs] by (simp add: image_image)
  have "length (cs_entries cs') = card (dom (view cs'))"
  proof -
    have "distinct (map fst (cs_entries cs'))" using cs'(3) by (simp add: store_ok_def cache_inv_def entries_ok_def)
    moreover have "dom (view cs') = fst ` set (cs_entries cs')"
      unfolding dom_map_of_conv_image_fst [symmetric] by (auto simp: view_def dom_def)
    ultimately show ?thesis by (metis distinct_card length_map set_map)
  qed
  also have "\<dots> = length (cs_entries cs)" unfolding dom dom_map_of_conv_image_fst using d0 by (metis distinct_card length_map set_map)
  finally have len: "length (cs_entries cs') = length (cs_entries cs)" .
  have copy: "\<exists>t \<in> set ts. view cs' h = Some (snd (copy_at E (t, h, e)))" if "map_of (cs_entries cs) h = Some e" for h e
  proof -
    have "(h, e) \<in> set ?xs" using that mset_eq_setD [OF xs] by (auto dest: map_of_SomeD)
    then obtain i where i: "i < length ?xs" "?xs ! i = (h, e)" by (metis in_set_conv_nth)
    then have "copy_at E (ts ! i, h, e) \<in> set (map (copy_at E) (zip ts ?xs))"
      using lt(1) by (force simp: in_set_conv_nth)
    moreover have "copy_at E (ts ! i, h, e) = (h, snd (copy_at E (ts ! i, h, e)))" by (simp add: copy_at_def)
    ultimately have "view cs' h = Some (snd (copy_at E (ts ! i, h, e)))"
      unfolding v using d keys by (metis map_of_is_SomeI)
    then show ?thesis using i(1) lt(1) by (metis nth_mem)
  qed
  have "warm_up E node threshold
        ((peer, \<lparr>pa_snapshot = Inr (map (\<lambda>x. SnapshotEvent (fst x) (snd x)) ?rows),
                 pa_status = Inr (get_status state sender cs)\<rparr>) # rest) cs0 = (Some peer, cs')"
    using cs'(1) assms(8,15) by (simp add: request_snapshot_def check_parity_def get_status_def len parity_equal)
  then show ?thesis using cs'(3) dom copy by blast
qed

definition wire_env :: env where
  "wire_env = trivial_env\<lparr>to_vec := (\<lambda>_. Some [1]), from_slice := (\<lambda>_. Some (response_of []))\<rparr>"

definition demo_peer_cache :: cache_store where
  "demo_peer_cache = (cache_new 10 20 100)\<lparr>cs_entries := [(hash_query wire_env (lit ''a''),
     fresh_entry wire_env \<lparr>ck_now = 0, ck_wall = 0\<rparr> (response_of []) (lit ''u'') (Some (lit ''a'')) (lit ''docs''))]\<rparr>"

text \<open>The joining node has two-tier matching and the limit of 256 MB that a server has by default.\<close>

definition joining_cache :: cache_store where
  "joining_cache = with_normalized_matching True (cache_with_memory_limit (from_secs 300) (from_secs 60) 1000 (256 * 1024 * 1024))"

lemma joining_cache_reachable: "cache_reachable wire_env 1000 joining_cache"
  unfolding joining_cache_def by (rule reach_step [OF reach_memory step_normalized])

lemma wire_hash: "hash_query wire_env = hash_query trivial_env" "hash_query_exact wire_env = hash_query_exact trivial_env"
  by (simp_all add: fun_eq_iff hash_query_def hash_query_exact_def normalize_query_def wire_env_def)

theorem snapshot_rejoin_witness:
  "\<exists>ms st cs'. warm_up wire_env (lit ''b'') (Fin (4 / 5)) [(lit ''peer'', \<lparr>pa_snapshot = Inr ms, pa_status = st\<rparr>)] joining_cache
      = (Some (lit ''peer''), cs')
     \<and> dom (view cs') = {hash_query wire_env (lit ''a'')}"
proof -
  let ?t = "\<lparr>ck_now = 100, ck_wall = 100\<rparr>" and ?s = "sender_new (lit ''a'')"
  obtain pe where pes: "stream_snapshot wire_env 50 ?s (length (cs_entries demo_peer_cache)) demo_peer_cache = Some [pe]"
    "pe_absolute_expiry_ms pe = 0"
    by (simp add: stream_snapshot_def demo_peer_cache_def cache_new_def cache_with_def dur_add_def duration_max_def
        snapshot_entries_def iter_entries_def wire_env_def trivial_env_def fresh_entry_def map_filter_simps
        as_millis_u64_def as_millis_def snapshot_event_def nanos_per_milli_def nanos_per_sec_def)
  have perm: "mset (iter_order wire_env xs) = mset xs" for xs by (simp add: wire_env_def trivial_env_def)
  have port: "\<forall>x \<in> set (cs_entries demo_peer_cache). portable wire_env x"
    by (simp add: demo_peer_cache_def portable_def fresh_entry_def wire_env_def)
  have one: "length (cs_entries demo_peer_cache) = 1" "distinct (map fst (cs_entries demo_peer_cache))"
    by (simp_all add: demo_peer_cache_def)
  have empty: "cs_entries joining_cache = []" "cs_per_upstream_limit joining_cache = None"
    "queue_len joining_cache + length (cs_entries demo_peer_cache) \<le> queue_capacity joining_cache"
    by (simp_all add: one joining_cache_def with_normalized_matching_def cache_with_memory_limit_def cache_with_def queue_len_def
        queue_capacity_def s3fifo_new_def Let_def)
  have room: "cs_max_memory_bytes joining_cache = 0 \<or> unat (cs_total_memory_bytes joining_cache) +
      (\<Sum>x \<leftarrow> cs_entries demo_peer_cache. copy_size wire_env (snd x)) \<le> unat (cs_max_memory_bytes joining_cache)"
    by (simp add: joining_cache_def with_normalized_matching_def cache_with_memory_limit_def cache_with_def copy_size_def
        demo_peer_cache_def fresh_entry_def approximate_size_def wire_env_def trivial_env_def response_of_def opt_str_size_def
        schema_default_def usize_add_def usize_max_def str_len_def utf8_len_def lit_def Let_def)
  have "no_exact_collision wire_env (lit ''a'')"
    using no_collision_a unfolding no_exact_collision_def wire_hash .
  then have coll: "\<forall>q \<in> queries_of demo_peer_cache. no_exact_collision wire_env q"
    by (simp add: queries_of_def demo_peer_cache_def fresh_entry_def)
  have node: "es_node_id ?s \<noteq> lit ''b''" by (simp add: sender_new_def lit_def)
  have "fl_le (Fin (4 / 5)) (Fin 1)" by (simp add: fl_le_def)
  then obtain cs' where c: "warm_up wire_env (lit ''b'') (Fin (4 / 5)) [(lit ''peer'', \<lparr>pa_snapshot = Inr (map (\<lambda>x. SnapshotEvent (fst x) (snd x)) (zip [?t] [pe])),
      pa_status = Inr (get_status 1 ?s demo_peer_cache)\<rparr>)] joining_cache = (Some (lit ''peer''), cs')"
    "dom (view cs') = dom (map_of (cs_entries demo_peer_cache))"
    using snapshot_rejoin [OF pes(1) perm port _ node _ one(2) _ joining_cache_reachable empty room coll, of "[?t]" "Fin (4 / 5)" "lit ''peer''" 1 "[]"]
      pes(2) one(1) by auto
  have "dom (map_of (cs_entries demo_peer_cache)) = {hash_query wire_env (lit ''a'')}"
    by (simp add: demo_peer_cache_def)
  then have "dom (view cs') = {hash_query wire_env (lit ''a'')}" by (rule trans [OF c(2)])
  then show ?thesis by (intro exI conjI) (rule c(1))
qed

lemma request_snapshot_ok: "store_ok E N cs \<Longrightarrow> store_ok E N (snd (request_snapshot E node c cs))"
proof -
  have "store_ok E N (snd (apply_snapshot E node ms n cs))" if "store_ok E N cs" for ms n
    using that
  proof (induction E node ms n cs rule: apply_snapshot.induct)
    case (3 E node t pe ms applied cs)
    show ?case
    proof (cases "proto_to_internal pe")
      case None
      then show ?thesis using 3 by simp
    next
      case (Some ev)
      obtain res cs1 where dd: "deduplicate E t ev node cs = (res, cs1)" by fastforce
      obtain ok cs2 where ap: "(if res = Apply then apply_event E t ev cs1 else (False, cs1)) = (ok, cs2)" by fastforce
      have "store_ok E N cs1" using deduplicate_ok [OF 3(3), of t ev node] dd by simp
      then have "store_ok E N cs2" using apply_event_ok [of E N cs1 t ev] ap by (auto split: if_splits)
      then show ?thesis using 3(2) [OF Some dd [symmetric] refl ap [symmetric] refl] by (simp add: Some dd ap)
    qed
  qed simp_all
  then show "store_ok E N cs \<Longrightarrow> store_ok E N (snd (request_snapshot E node c cs))"
    by (cases c) (simp_all add: request_snapshot_def)
qed

lemma warm_up_outcome:
  assumes "warm_up E node threshold (map (\<lambda>p. (p, network p)) peers) cs = (from, cs')" and "store_ok E N cs"
  shows "store_ok E N cs' \<and> (\<forall>p. from = Some p \<longrightarrow> p \<in> set peers \<and> (\<exists>st. pa_status (network p) = Inr st
    \<and> fl_le threshold (parity_ratio (of_nat (length (cs_entries cs'))) (pt_cache_entry_count st))))"
  using assms
proof (induction peers arbitrary: cs)
  case (Cons q peers)
  obtain r cs1 where r: "request_snapshot E node (pa_snapshot (network q)) cs = (r, cs1)" by fastforce
  have ok: "store_ok E N cs1" using request_snapshot_ok [OF Cons.prems(2), of node "pa_snapshot (network q)"] r by simp
  show ?case
  proof (cases "warm_up E node threshold (map (\<lambda>p. (p, network p)) peers) cs1 = (from, cs')")
    case True
    then show ?thesis using Cons.IH [OF True ok] by auto
  next
    case False
    then show ?thesis using Cons.prems(1) r ok by (auto simp: check_parity_def split: sum.splits if_splits)
  qed
qed simp

text \<open>Whatever the peers answer, the node ends ready. It took over the cache of a peer only when that peer is one
  of the configured ones and the entries held afterwards reached the threshold share of what the peer reported; in
  every case the invariant of the cache holds.\<close>

theorem peer_start_ready:
  assumes "peer_start E node network (peer_manager_new c cs sender) = (from, pm)" and "store_ok E N cs"
  shows "peer_is_ready pm \<and> store_ok E N (pm_cache pm)
    \<and> (\<forall>p. from = Some p \<longrightarrow> p \<in> set (pc_peers c) \<and> (\<exists>st. pa_status (network p) = Inr st
         \<and> fl_le (peer_ready_threshold c)
             (parity_ratio (of_nat (length (cs_entries (pm_cache pm)))) (pt_cache_entry_count st))))"
proof (cases "pc_peers c = [] \<or> \<not> peer_snapshot_on_join c")
  case True
  then show ?thesis using assms
    by (auto simp: peer_start_def peer_manager_new_def initial_state_def peer_is_ready_def manager_state_def
        peer_state_code_def peer_state_from_u8_def)
next
  case False
  then obtain cs' where w: "warm_up E node (peer_ready_threshold c) (map (\<lambda>p. (p, network p)) (pc_peers c)) cs = (from, cs')"
    "pm_cache pm = cs'" "pm_state pm = 1"
    using assms(1) by (auto simp: peer_start_def peer_manager_new_def peer_state_code_def split: prod.splits)
  then show ?thesis using warm_up_outcome [OF w(1) assms(2)]
    by (simp add: peer_is_ready_def manager_state_def peer_state_from_u8_def)
qed

theorem peer_start_ready_witness:
  "\<exists>from pm. peer_start wire_env (lit ''b'') (\<lambda>_. \<lparr>pa_snapshot = Inl (lit ''down''), pa_status = Inl (lit ''down'')\<rparr>)
      (peer_manager_new (peer_none\<lparr>pc_peers := [lit ''a:1'']\<rparr>) (cache_new 5 5 10) (sender_new (lit ''b''))) = (from, pm)
     \<and> peer_is_ready pm"
proof -
  have "store_ok wire_env (max 10 1) (cache_new 5 5 10)" unfolding cache_new_def by (rule store_ok_new)
  from peer_start_ready [OF _ this] show ?thesis by (metis surj_pair)
qed

end
