(* ===== verification/Distill.thy ===== *)
theory Distill
  imports Types "HOL-Library.Signed_Division"
begin

text \<open>
  Rendering of cached entries as Markdown (\<open>src/src/proxy/distill.rs\<close>), with the date arithmetic that
  turns milliseconds since the epoch into a calendar date. The \<open>i64\<close> values of that arithmetic are
  integers: for every \<open>u64\<close> number of milliseconds they stay far below the bounds of \<open>i64\<close>. The conversions
  to \<open>i32\<close> and \<open>u32\<close> wrap, as they do in the source. Parsing and pretty-printing of JSON and the lossy
  decoding of bytes are arguments.
\<close>

section \<open>Dates\<close>

definition as_i32 :: "int \<Rightarrow> int" where
  "as_i32 x = sint (word_of_int x :: 32 word)"

definition as_u32 :: "int \<Rightarrow> nat" where
  "as_u32 x = unat (word_of_int x :: u32)"

definition days_to_ymd :: "int \<Rightarrow> (int \<times> nat \<times> nat) option" where
  "days_to_ymd days =
     (let z = days + 719468;
          era = (if z \<ge> 0 then z else z - 146096) sdiv 146097;
          doe = as_u32 (z - era * 146097);
          yoe = (doe - doe div 1460 + doe div 36524 - doe div 146096) div 365;
          y = int yoe + as_i32 (era * 400);
          doy = doe - (365 * yoe + yoe div 4 - yoe div 100);
          mp = (5 * doy + 2) div 153;
          d = doy - (153 * mp + 2) div 5 + 1;
          m = (if mp < 10 then mp + 3 else mp - 9);
          y' = (if m \<le> 2 then y + 1 else y)
      in Some (y', m, d))"

definition zero_padded :: "nat \<Rightarrow> nat \<Rightarrow> rstr" where
  "zero_padded w n = (let s = nat_to_dec n in replicate (w - length s) (48 :: rchar) @ s)"

text \<open>Of a negative number the sign counts as a character.\<close>

definition zero_padded_int :: "nat \<Rightarrow> int \<Rightarrow> rstr" where
  "zero_padded_int w x = (if x < 0 then (45 :: rchar) # zero_padded (w - 1) (nat (- x)) else zero_padded w (nat x))"

definition chrono_like_format :: "int \<Rightarrow> nat \<Rightarrow> rstr option" where
  "chrono_like_format secs nsec =
     (let days = secs div 86400; secs_of_day = nat (secs mod 86400)
      in case days_to_ymd days of
           None \<Rightarrow> None
         | Some (year, month, day) \<Rightarrow>
             Some (zero_padded_int 4 year @ lit ''-'' @ zero_padded 2 month @ lit ''-'' @ zero_padded 2 day @ lit ''T''
               @ zero_padded 2 (secs_of_day div 3600) @ lit '':'' @ zero_padded 2 ((secs_of_day mod 3600) div 60) @ lit '':''
               @ zero_padded 2 (secs_of_day mod 60) @ lit ''.'' @ zero_padded 9 nsec @ lit ''Z''))"

definition format_cached_at_ms :: "u64 \<Rightarrow> rstr" where
  "format_cached_at_ms ms =
     (case chrono_like_format (int (unat ms div 1000)) ((unat ms mod 1000) * 1000000) of
        Some s \<Rightarrow> s
      | None \<Rightarrow> lit ''<invalid>'')"

section \<open>Entries\<close>

record distill_entry =
  de_query :: rstr
  de_context_id :: rstr
  de_upstream_id :: rstr
  de_cached_at_ms :: u64
  de_extended_count :: u32
  de_response_json :: "u8 list"
  de_hash_hex :: rstr
  de_embedding :: "u32 list"

record render_env =
  rn_parse :: "u8 list \<Rightarrow> json option"
  rn_pretty :: "json \<Rightarrow> rstr option"
  rn_lossy :: "u8 list \<Rightarrow> rstr"

definition nl :: rstr where "nl = [10]"

definition fenced :: "rstr \<Rightarrow> rstr \<Rightarrow> rstr" where
  "fenced lang body = lit ''```'' @ lang @ nl @ body @ lit ''```'' @ nl"

definition render_header :: "distill_entry \<Rightarrow> rstr" where
  "render_header en = lit ''# '' @ (if de_query en = [] then lit ''<empty>'' else de_query en) @ nl @ nl"

definition render_metadata :: "distill_entry \<Rightarrow> rstr" where
  "render_metadata en =
     lit ''## Metadata'' @ nl @ nl
     @ lit ''- **Context:** `'' @ de_context_id en @ lit ''`'' @ nl
     @ lit ''- **Upstream:** `'' @ de_upstream_id en @ lit ''`'' @ nl
     @ lit ''- **Hash:** `'' @ de_hash_hex en @ lit ''`'' @ nl
     @ lit ''- **Cached at:** `'' @ format_cached_at_ms (de_cached_at_ms en) @ lit ''`'' @ nl
     @ (if de_extended_count en > 0
        then lit ''- **TTL extensions:** '' @ nat_to_dec (unat (de_extended_count en)) @ nl else [])
     @ nl"

definition render_response :: "render_env \<Rightarrow> u8 list \<Rightarrow> rstr" where
  "render_response R bytes =
     lit ''## Response'' @ nl @ nl
     @ (case rn_parse R bytes of
          Some v \<Rightarrow>
            (case rn_pretty R v of
               Some pretty \<Rightarrow> fenced (lit ''json'') (pretty @ nl)
             | None \<Rightarrow> fenced [] (lit ''(response could not be pretty-printed)'' @ nl))
        | None \<Rightarrow> fenced [] (lit ''(response JSON unparseable; raw bytes below)'' @ nl @ nl @ rn_lossy R bytes @ nl))"

definition render_entry_md :: "render_env \<Rightarrow> distill_entry \<Rightarrow> rstr" where
  "render_entry_md R en = render_header en @ render_metadata en @ render_response R (de_response_json en)"

section \<open>The calendar\<close>

text \<open>The Gregorian calendar, day by day.\<close>

definition leap_year :: "int \<Rightarrow> bool" where
  "leap_year y \<longleftrightarrow> 4 dvd y \<and> (\<not> 100 dvd y \<or> 400 dvd y)"

definition month_length :: "int \<Rightarrow> nat \<Rightarrow> nat" where
  "month_length y m = (if m = 2 then (if leap_year y then 29 else 28) else if m \<in> {4, 6, 9, 11} then 30 else 31)"

definition next_day :: "int \<times> nat \<times> nat \<Rightarrow> int \<times> nat \<times> nat" where
  "next_day x =
     (let (y, m, d) = x
      in if d < month_length y m then (y, m, d + 1) else if m < 12 then (y, m + 1, 1) else (y + 1, 1, 1))"

definition valid_date :: "int \<times> nat \<times> nat \<Rightarrow> bool" where
  "valid_date x \<longleftrightarrow> (let (y, m, d) = x in 1 \<le> m \<and> m \<le> 12 \<and> 1 \<le> d \<and> d \<le> month_length y m)"

lemma next_day_valid: "valid_date x \<Longrightarrow> valid_date (next_day x)"
  by (auto simp: valid_date_def next_day_def month_length_def Let_def split: prod.splits)

text \<open>The number of a day, counted from the first of March of the year 0, with years that begin in March.\<close>

definition march_years :: "int \<Rightarrow> int" where
  "march_years y = 365 * y + y div 4 - y div 100 + y div 400"

definition month_offset :: "nat \<Rightarrow> nat" where
  "month_offset m = (153 * (if m > 2 then m - 3 else m + 9) + 2) div 5"

definition day_number :: "int \<times> nat \<times> nat \<Rightarrow> int" where
  "day_number x = (let (y, m, d) = x in march_years (if m \<le> 2 then y - 1 else y) + int (month_offset m) + int d - 1)"

lemma div_succ:
  fixes y k :: int
  assumes "0 < k"
  shows "(y + 1) div k = y div k + (if k dvd y + 1 then 1 else 0)"
proof -
  have y: "y = k * (y div k) + y mod k" by simp
  have m: "0 \<le> y mod k" "y mod k < k" using assms by simp_all
  show ?thesis
  proof (cases "y mod k + 1 = k")
    case True
    have e: "y + 1 = k * (y div k + 1)" unfolding distrib_left using y True by linarith
    then have "(y + 1) div k = y div k + 1" by (intro int_div_pos_eq [where r = 0]) (use assms in simp_all)
    then show ?thesis using e by (metis dvd_triv_left)
  next
    case False
    have e: "y + 1 = k * (y div k) + (y mod k + 1)" using y by linarith
    then have "(y + 1) div k = y div k" "(y + 1) mod k = y mod k + 1"
      by (intro int_div_pos_eq [where r = "y mod k + 1"] int_mod_pos_eq [where q = "y div k"]; use False m in simp)+
    then show ?thesis using m by (simp add: dvd_eq_mod_eq_0)
  qed
qed

lemma march_years_succ: "march_years (y + 1) = march_years y + 365 + (if leap_year (y + 1) then 1 else 0)"
proof -
  have "400 dvd y + 1 \<Longrightarrow> 100 dvd y + 1" "100 dvd y + 1 \<Longrightarrow> 4 dvd y + 1"
    by (erule dvd_trans [rotated], simp)+
  then show ?thesis
    unfolding march_years_def leap_year_def
    by (cases "400 dvd y + 1"; cases "100 dvd y + 1"; cases "4 dvd y + 1") (simp_all add: div_succ)
qed

lemma day_number_next:
  assumes "valid_date x"
  shows "day_number (next_day x) = day_number x + 1"
proof -
  obtain y m d where x: "x = (y, m, d)" by (cases x)
  have "1 \<le> m" "m \<le> 12" using assms by (simp_all add: x valid_date_def)
  then have m: "m = 1 \<or> m = 2 \<or> m = 3 \<or> m = 4 \<or> m = 5 \<or> m = 6 \<or> m = 7 \<or> m = 8 \<or> m = 9 \<or> m = 10 \<or> m = 11 \<or> m = 12"
    by presburger
  have d: "1 \<le> d" "d \<le> month_length y m" using assms by (simp_all add: x valid_date_def)
  show ?thesis
  proof (cases "d < month_length y m")
    case True
    then show ?thesis by (simp add: x next_day_def day_number_def)
  next
    case False
    then have "d = month_length y m" using d by simp
    then show ?thesis using m march_years_succ [of "y - 1"]
      by (elim disjE) (simp_all add: x next_day_def day_number_def month_length_def month_offset_def)
  qed
qed

section \<open>The algorithm computes the calendar\<close>

lemma year_of_era:
  fixes yoe doy :: nat
  assumes "yoe < 400" and "doy \<le> 364 \<or> doy = 365 \<and> leap_year (int yoe + 1)"
  defines "doe \<equiv> 365 * yoe + yoe div 4 - yoe div 100 + doy"
  shows "(doe - doe div 1460 + doe div 36524 - doe div 146096) div 365 = yoe"
    and "doe < 146097" and "doe - (365 * yoe + yoe div 4 - yoe div 100) = doy"
proof -
  define c q r where "c = yoe div 100" and "q = (yoe mod 100) div 4" and "r = (yoe mod 100) mod 4"
  have bounds: "c \<le> 3" "q \<le> 24" "r \<le> 3"
  proof -
    show "c \<le> 3" unfolding c_def using assms(1) by (simp add: less_Suc_eq_le [symmetric] div_less_iff_less_mult)
    have "yoe mod 100 < 100" by simp
    then show "q \<le> 24" unfolding q_def by (simp add: less_Suc_eq_le [symmetric] div_less_iff_less_mult)
    show "r \<le> 3" unfolding r_def by (simp add: less_Suc_eq_le [symmetric])
  qed
  have "4 * ((yoe mod 100) div 4) + (yoe mod 100) mod 4 = yoe mod 100" "100 * (yoe div 100) + yoe mod 100 = yoe" by simp_all
  then have yoe: "yoe = 100 * c + 4 * q + r" "c \<le> 3" "q \<le> 24" "r \<le> 3"
    using bounds unfolding c_def q_def r_def by linarith+
  have div: "yoe div 4 = 25 * c + q" using yoe by (intro div_nat_eqI) simp_all
  have div': "yoe div 100 = c" by (simp add: c_def)
  have doe: "doe = 36524 * c + 1461 * q + 365 * r + doy" unfolding doe_def div div' using yoe(1) by simp
  have full: "r = 3 \<and> (q = 24 \<longrightarrow> c = 3)" if "doy = 365"
  proof -
    have "leap_year (int (yoe + 1))" using that assms(2) by (simp add: add.commute)
    then have l: "4 dvd yoe + 1" "\<not> 100 dvd yoe + 1 \<or> 400 dvd yoe + 1"
      unfolding leap_year_def by (metis int_dvd_int_iff of_nat_numeral)+
    have "4 dvd 4 * (25 * c + q) + (r + 1)" using l(1) yoe(1) by (simp add: algebra_simps)
    then have "4 dvd r + 1" by (metis dvd_add_right_iff dvd_triv_left)
    then have r: "r = 3" using yoe(4) by presburger
    have "c = 3" if "q = 24"
    proof -
      have "yoe + 1 = 100 * (c + 1)" using yoe(1) r that by simp
      then have "400 dvd 100 * (c + 1)" using l(2) by (metis dvd_triv_left)
      then have "4 dvd c + 1" by presburger
      then show ?thesis using yoe(2) by presburger
    qed
    with r show ?thesis by blast
  qed
  have b: "doe < 146097" using doe yoe(2-4) full assms(2) by (cases "doy = 365") auto
  then show "doe < 146097" .
  show "doe - (365 * yoe + yoe div 4 - yoe div 100) = doy" unfolding doe_def by simp
  let ?s1 = "24 * c + q + 365 * r + doy" and ?s2 = "1461 * q + 365 * r + doy"
  have d1: "doe div 1460 = 25 * c + q + (if 1460 \<le> ?s1 then 1 else 0)"
    using doe yoe(2-4) assms(2) by (intro div_nat_eqI) auto
  have d2: "doe div 36524 = c + (if 36524 \<le> ?s2 then 1 else 0)"
    using doe yoe(2-4) assms(2) by (intro div_nat_eqI) auto
  have d3: "doe div 146096 = (if 146096 \<le> doe then 1 else 0)"
    using b by (intro div_nat_eqI) auto
  have e: "36524 \<le> ?s2 \<longleftrightarrow> 146096 \<le> doe"
    using doe yoe(2-4) full assms(2) by (cases "doy = 365") auto
  have "365 * yoe \<le> doe - doe div 1460 + doe div 36524 - doe div 146096"
    "doe - doe div 1460 + doe div 36524 - doe div 146096 < 365 * Suc yoe"
    unfolding d1 d2 d3 e using doe yoe full assms(2) by (cases "doy = 365"; cases "146096 \<le> doe"; auto)+
  then show "(doe - doe div 1460 + doe div 36524 - doe div 146096) div 365 = yoe" by (intro div_nat_eqI) simp_all
qed

lemma month_of_year:
  fixes m d :: nat
  assumes "1 \<le> m" "m \<le> 12" "1 \<le> d" "d \<le> month_length y m"
  defines "doy \<equiv> month_offset m + d - 1"
  shows "(5 * doy + 2) div 153 = (if m > 2 then m - 3 else m + 9)"
    and "doy - (153 * ((5 * doy + 2) div 153) + 2) div 5 + 1 = d" and "doy \<le> 364 \<or> doy = 365 \<and> m = 2 \<and> leap_year y"
proof -
  have m: "m = 1 \<or> m = 2 \<or> m = 3 \<or> m = 4 \<or> m = 5 \<or> m = 6 \<or> m = 7 \<or> m = 8 \<or> m = 9 \<or> m = 10 \<or> m = 11 \<or> m = 12"
    using assms(1,2) by presburger
  show mp: "(5 * doy + 2) div 153 = (if m > 2 then m - 3 else m + 9)"
    using m assms(3,4) unfolding doy_def
    by (elim disjE; intro div_nat_eqI) (auto simp: month_offset_def month_length_def split: if_splits)
  show "doy - (153 * ((5 * doy + 2) div 153) + 2) div 5 + 1 = d"
    unfolding mp unfolding doy_def month_offset_def using assms(3) by simp
  show "doy \<le> 364 \<or> doy = 365 \<and> m = 2 \<and> leap_year y"
    using m assms(3,4) unfolding doy_def
    by (elim disjE) (auto simp: month_offset_def month_length_def split: if_splits)
qed

lemma march_years_era:
  assumes "0 \<le> y"
  shows "march_years y = 146097 * (y div 400) + int (365 * nat (y mod 400) + nat (y mod 400) div 4 - nat (y mod 400) div 100)"
proof -
  define e n where "e = y div 400" and "n = nat (y mod 400)"
  have y: "y = 400 * e + int n" by (simp add: e_def n_def)
  have "y div 4 = 100 * e + int (n div 4)" "y div 100 = 4 * e + int (n div 100)"
    unfolding y by (simp_all add: zdiv_int)
  moreover have "n div 100 \<le> 365 * n + n div 4" using div_le_dividend [of n 100] by linarith
  ultimately show ?thesis unfolding march_years_def e_def [symmetric] n_def [symmetric]
    by (simp add: y of_nat_diff)
qed

lemma days_to_ymd_day_number:
  assumes "valid_date (y, m, d)" and "1 \<le> y" and "y < 2 ^ 30"
  shows "days_to_ymd (day_number (y, m, d) - 719468) = Some (y, m, d)"
proof -
  define Y where "Y = (if m \<le> 2 then y - 1 else y)"
  define e yoe doy doe where "e = Y div 400" and "yoe = nat (Y mod 400)" and "doy = month_offset m + d - 1"
    and "doe = 365 * yoe + yoe div 4 - yoe div 100 + doy"
  have v: "1 \<le> m" "m \<le> 12" "1 \<le> d" "d \<le> month_length y m" using assms(1) by (simp_all add: valid_date_def)
  note mo = month_of_year [OF v, folded doy_def]
  have Y: "0 \<le> Y" "Y < 2 ^ 30" "Y = 400 * e + int yoe" "yoe < 400"
    using assms(2,3) by (simp_all add: Y_def e_def yoe_def nat_less_iff)
  have "leap_year (400 * k + x) = leap_year x" for k x
  proof -
    have "i dvd 400 * k + x \<longleftrightarrow> i dvd x" if "i dvd 400" for i using that by (intro dvd_add_right_iff dvd_mult2)
    then show ?thesis by (simp add: leap_year_def)
  qed
  then have "leap_year (Y + 1) = leap_year (int yoe + 1)" using Y(3) by (metis add.assoc)
  then have full: "doy \<le> 364 \<or> doy = 365 \<and> leap_year (int yoe + 1)" using mo(3) by (auto simp: Y_def)
  note yr = year_of_era [OF Y(4) full, folded doe_def]
  have z: "day_number (y, m, d) = 146097 * e + int doe"
  proof -
    have "int doy = int (month_offset m) + int d - 1" using v(3) by (simp add: doy_def)
    then have "day_number (y, m, d) = march_years Y + int doy" by (simp add: day_number_def Y_def)
    then show ?thesis unfolding march_years_era [OF Y(1), folded e_def yoe_def] doe_def of_nat_add [of _ doy] by (simp only: add.assoc)
  qed
  have "0 \<le> e" using Y(1) by (simp add: e_def pos_imp_zdiv_nonneg_iff)
  moreover have "e * 400 \<le> Y" using Y(3) by simp
  ultimately have e: "0 \<le> e" "e * 400 < 2 ^ 30" using Y(2) by (auto intro: le_less_trans)
  have era: "(146097 * e + int doe) sdiv 146097 = e"
  proof -
    have "(146097 * e + int doe) div 146097 = e" using yr(2) by (intro int_div_pos_eq [where r = "int doe"]) simp_all
    then show ?thesis using e by (simp add: signed_divide_int_def sgn_if)
  qed
  have u: "as_u32 (int doe) = doe" using yr(2) by (simp add: as_u32_def unat_of_nat take_bit_nat_eq_self)
  have i: "as_i32 (e * 400) = e * 400" unfolding as_i32_def sint_sbintrunc' by (rule signed_take_bit_int_eq_self) (use e in simp_all)
  have nonneg: "0 \<le> 146097 * e + int doe" using e by simp
  have ym: "(if (if m > 2 then m - 3 else m + 9) < 10 then (if m > 2 then m - 3 else m + 9) + 3 else (if m > 2 then m - 3 else m + 9) - 9) = m"
    using v(1,2) by auto
  have yy: "(if m \<le> 2 then int yoe + e * 400 + 1 else int yoe + e * 400) = y" using Y(3) by (auto simp: Y_def split: if_splits)
  show ?thesis
    unfolding days_to_ymd_def Let_def z
    using nonneg by (simp only: diff_add_cancel if_True era) (simp only: add_diff_cancel_left' mult.commute [of 146097] u i yr(1,3) mo(1) mo(2) [unfolded mo(1)] ym yy)
qed

lemma next_day_year: "fst x \<le> fst (next_day x)"
  by (cases x) (simp add: next_day_def)

lemma reached_day:
  shows "valid_date ((next_day ^^ n) (1970, 1, 1))" and "1970 \<le> fst ((next_day ^^ n) (1970, 1, 1))"
    and "day_number ((next_day ^^ n) (1970, 1, 1)) = 719468 + int n"
proof (induction n)
  case 0
  show "valid_date ((next_day ^^ 0) (1970, 1, 1))" "1970 \<le> fst ((next_day ^^ 0) (1970, 1, 1))"
    "day_number ((next_day ^^ 0) (1970, 1, 1)) = 719468 + int 0"
    by (simp_all add: valid_date_def month_length_def day_number_def march_years_def month_offset_def)
next
  case (Suc n)
  show "valid_date ((next_day ^^ Suc n) (1970, 1, 1))" using next_day_valid [OF Suc(1)] by simp
  show "1970 \<le> fst ((next_day ^^ Suc n) (1970, 1, 1))"
    using Suc(2) next_day_year [of "(next_day ^^ n) (1970, 1, 1)"] by simp
  show "day_number ((next_day ^^ Suc n) (1970, 1, 1)) = 719468 + int (Suc n)"
    using day_number_next [OF Suc(1)] Suc(3) by simp
qed

lemma day_number_year: "valid_date (y, m, d) \<Longrightarrow> 1 \<le> y \<Longrightarrow> 365 * (y - 1) \<le> day_number (y, m, d)"
proof -
  assume v: "valid_date (y, m, d)" "1 \<le> y"
  define Y where "Y = (if m \<le> 2 then y - 1 else y)"
  have "Y div 100 \<le> Y div 4" using v(2) by (intro zdiv_mono2) (simp_all add: Y_def)
  moreover have "0 \<le> Y div 400" using v(2) by (simp add: Y_def pos_imp_zdiv_nonneg_iff)
  ultimately have "365 * Y \<le> march_years Y" by (simp add: march_years_def)
  moreover have "1 \<le> d" using v(1) by (simp add: valid_date_def)
  moreover have "y - 1 \<le> Y" by (simp add: Y_def)
  ultimately show ?thesis by (simp add: day_number_def Y_def [symmetric])
qed

text \<open>C36. The date of a cached entry: for every number of milliseconds since the epoch that a \<open>u64\<close> holds, the
  rendered time is the day reached from the first of January 1970 by stepping through the Gregorian calendar
  one day at a time, followed by the hours, minutes, seconds and milliseconds of that day.\<close>

theorem cached_at_calendar:
  "let (y, m, d) = (next_day ^^ (unat ms div 86400000)) (1970, 1, 1); s = unat ms div 1000 mod 86400
   in format_cached_at_ms ms =
        zero_padded 4 (nat y) @ lit ''-'' @ zero_padded 2 m @ lit ''-'' @ zero_padded 2 d @ lit ''T''
        @ zero_padded 2 (s div 3600) @ lit '':'' @ zero_padded 2 (s div 60 mod 60) @ lit '':'' @ zero_padded 2 (s mod 60)
        @ lit ''.'' @ zero_padded 9 (unat ms mod 1000 * 1000000) @ lit ''Z''"
proof -
  let ?n = "unat ms div 86400000" and ?s = "unat ms div 1000 mod 86400"
  obtain y m d where x: "(next_day ^^ ?n) (1970, 1, 1) = (y, m, d)" by (cases "(next_day ^^ ?n) (1970, 1, 1)")
  note day = reached_day [of ?n, unfolded x]
  have n: "?n < 213503982335" using unat_bound [of ms] by (simp add: div_less_iff_less_mult)
  have "365 * (y - 1) \<le> 719468 + int ?n" using day_number_year [OF day(1)] day(2,3) by simp
  then have "y < 2 ^ 30" using n by simp
  then have ymd: "days_to_ymd (int ?n) = Some (y, m, d)"
    using days_to_ymd_day_number [OF day(1)] day(2,3) by simp
  have days: "int (unat ms div 1000) div 86400 = int ?n"
  proof -
    have "unat ms div 1000 div 86400 = unat ms div (1000 * 86400)" by (rule div_mult2_eq [symmetric])
    also have "(1000 * 86400 :: nat) = 86400000" by simp
    finally show ?thesis by (metis zdiv_int of_nat_numeral)
  qed
  have secs: "nat (int (unat ms div 1000) mod 86400) = ?s"
    by (metis zmod_int of_nat_numeral nat_int)
  have mins: "?s mod 3600 div 60 = ?s div 60 mod 60"
    using mod_mult2_eq [of ?s 60 60] by (simp add: mult.commute)
  have y: "zero_padded_int 4 y = zero_padded 4 (nat y)" using day(2) by (simp add: zero_padded_int_def)
  show ?thesis
    by (simp only: Let_def x prod.case format_cached_at_ms_def chrono_like_format_def days secs mins ymd option.case y)
qed

end
