(* ===== verification/AuditLog.thy ===== *)
theory AuditLog
  imports Types Doubles
begin

text \<open>
  The audit log (\<open>src/src/proxy/audit.rs\<close>): entries with their builder, and the ring buffer of recent requests.
  The length of the buffer is kept as a list of at most \<open>capacity\<close> entries; the write position is an atomic
  \<open>u64\<close> that wraps. Slicing a string inside a character and the remainder by a capacity of 0 panic: \<open>None\<close>.
\<close>

section \<open>Entries\<close>

record audit_entry =
  au_request_id :: u64
  au_timestamp :: u64
  au_query :: rstr
  au_top_k :: "nat option"
  au_cache_status :: cache_status
  au_latency_ms :: u64
  au_result_count :: nat
  au_success :: bool
  au_error :: "rstr option"
  au_client_id :: "rstr option"
  au_upstream_id :: "rstr option"
  au_miss_reason :: "miss_reason option"

text \<open>\<open>&s[..n]\<close>, for a string of more than \<open>n\<close> bytes.\<close>

fun byte_prefix :: "nat \<Rightarrow> rstr \<Rightarrow> rstr option" where
  "byte_prefix n [] = (if n = 0 then Some [] else None)"
| "byte_prefix n (c # cs) =
     (if n = 0 then Some []
      else if utf8_len c \<le> n then map_option (Cons c) (byte_prefix (n - utf8_len c) cs) else None)"

definition truncate_query :: "rstr \<Rightarrow> rstr option" where
  "truncate_query query =
     (if str_len query > 200 then map_option (\<lambda>p. p @ lit ''...'') (byte_prefix 200 query) else Some query)"

definition audit_entry_new :: "system_time \<Rightarrow> u64 \<Rightarrow> rstr \<Rightarrow> nat option \<Rightarrow> audit_entry option" where
  "audit_entry_new wall request_id query top_k =
     map_option (\<lambda>q. \<lparr>au_request_id = request_id, au_timestamp = of_nat (nat wall div nanos_per_sec), au_query = q, au_top_k = top_k,
         au_cache_status = Miss, au_latency_ms = 0, au_result_count = 0, au_success = False, au_error = None,
         au_client_id = None, au_upstream_id = None, au_miss_reason = None\<rparr>) (truncate_query query)"

definition with_success :: "nat \<Rightarrow> audit_entry \<Rightarrow> audit_entry" where
  "with_success n a = a\<lparr>au_success := True, au_result_count := n\<rparr>"

definition with_error :: "rstr \<Rightarrow> audit_entry \<Rightarrow> audit_entry" where
  "with_error msg a = a\<lparr>au_success := False, au_error := Some msg\<rparr>"

definition with_cache_status :: "cache_status \<Rightarrow> audit_entry \<Rightarrow> audit_entry" where
  "with_cache_status s a = a\<lparr>au_cache_status := s\<rparr>"

definition with_latency :: "duration \<Rightarrow> audit_entry \<Rightarrow> audit_entry" where
  "with_latency d a = a\<lparr>au_latency_ms := as_millis_u64 d\<rparr>"

definition with_client_id :: "rstr \<Rightarrow> audit_entry \<Rightarrow> audit_entry" where
  "with_client_id c a = a\<lparr>au_client_id := Some c\<rparr>"

definition with_upstream_id :: "rstr \<Rightarrow> audit_entry \<Rightarrow> audit_entry" where
  "with_upstream_id u a = a\<lparr>au_upstream_id := Some u\<rparr>"

definition with_miss_reason :: "miss_reason \<Rightarrow> audit_entry \<Rightarrow> audit_entry" where
  "with_miss_reason r a = a\<lparr>au_miss_reason := Some r\<rparr>"

record audit_builder =
  bu_entry :: audit_entry
  bu_start :: instant

definition audit_builder_new :: "system_time \<Rightarrow> instant \<Rightarrow> u64 \<Rightarrow> rstr \<Rightarrow> nat option \<Rightarrow> audit_builder option" where
  "audit_builder_new wall now request_id query top_k =
     map_option (\<lambda>a. \<lparr>bu_entry = a, bu_start = now\<rparr>) (audit_entry_new wall request_id query top_k)"

definition audit_success :: "instant \<Rightarrow> nat \<Rightarrow> audit_builder \<Rightarrow> audit_entry" where
  "audit_success now n b = with_success n (with_latency (elapsed now (bu_start b)) (bu_entry b))"

definition audit_error :: "instant \<Rightarrow> rstr \<Rightarrow> audit_builder \<Rightarrow> audit_entry" where
  "audit_error now msg b = with_error msg (with_latency (elapsed now (bu_start b)) (bu_entry b))"

section \<open>The ring buffer\<close>

record audit_log =
  al_entries :: "audit_entry list"
  al_capacity :: nat
  al_write_pos :: u64
  al_total_logged :: u64
  al_next_request_id :: u64

definition audit_log_new :: "nat \<Rightarrow> audit_log" where
  "audit_log_new capacity =
     \<lparr>al_entries = [], al_capacity = capacity, al_write_pos = 0, al_total_logged = 0, al_next_request_id = 1\<rparr>"

definition next_request_id :: "audit_log \<Rightarrow> u64 \<times> audit_log" where
  "next_request_id al = (al_next_request_id al, al\<lparr>al_next_request_id := al_next_request_id al + 1\<rparr>)"

definition audit_start ::
  "system_time \<Rightarrow> instant \<Rightarrow> rstr \<Rightarrow> nat option \<Rightarrow> audit_log \<Rightarrow> audit_builder option \<times> audit_log" where
  "audit_start wall now query top_k al =
     (let (i, al1) = next_request_id al in (audit_builder_new wall now i query top_k, al1))"

definition audit_log_entry :: "audit_entry \<Rightarrow> audit_log \<Rightarrow> audit_log option" where
  "audit_log_entry a al =
     (let pos = unat (al_write_pos al);
          al1 = al\<lparr>al_write_pos := al_write_pos al + 1\<rparr>;
          counted = (\<lambda>es. al1\<lparr>al_entries := es, al_total_logged := al_total_logged al + 1\<rparr>)
      in if length (al_entries al) < al_capacity al then Some (counted (al_entries al @ [a]))
         else if al_capacity al = 0 then None
         else Some (counted ((al_entries al)[pos mod al_capacity al := a])))"

definition recent_index :: "nat \<Rightarrow> nat \<Rightarrow> nat \<Rightarrow> nat" where
  "recent_index written len i =
     (if written > 0 \<and> written \<ge> len then (written - 1 - i) mod len else len - (1 + i))"

definition audit_recent :: "nat \<Rightarrow> audit_log \<Rightarrow> audit_entry list" where
  "audit_recent limit al =
     (let es = al_entries al
      in List.map_filter (\<lambda>i. let idx = recent_index (unat (al_write_pos al)) (length es) i
            in if idx < length es then Some (es ! idx) else None) [0..<min (length es) limit])"

definition audit_filter :: "(audit_entry \<Rightarrow> bool) \<Rightarrow> nat \<Rightarrow> audit_log \<Rightarrow> audit_entry list" where
  "audit_filter p limit al = take limit (filter p (al_entries al))"

definition for_client :: "rstr \<Rightarrow> nat \<Rightarrow> audit_log \<Rightarrow> audit_entry list" where
  "for_client c = audit_filter (\<lambda>a. au_client_id a = Some c)"

definition audit_failures :: "nat \<Rightarrow> audit_log \<Rightarrow> audit_entry list" where
  "audit_failures = audit_filter (\<lambda>a. \<not> au_success a)"

definition audit_slow :: "u64 \<Rightarrow> nat \<Rightarrow> audit_log \<Rightarrow> audit_entry list" where
  "audit_slow threshold_ms = audit_filter (\<lambda>a. au_latency_ms a > threshold_ms)"

record audit_stats =
  at_total_logged :: u64
  at_entries_in_buffer :: nat
  at_success_rate :: fl
  at_cache_hit_rate :: fl
  at_avg_latency_ms :: u64

definition rate_of :: "nat \<Rightarrow> nat \<Rightarrow> fl" where
  "rate_of n m = (case nat_as_f64 m of Fin c \<Rightarrow> f64_div_const (nat_as_f64 n) c | _ \<Rightarrow> NaN)"

definition audit_stats_of :: "audit_log \<Rightarrow> audit_stats" where
  "audit_stats_of al =
     (let es = al_entries al; held = length es
      in if held = 0
         then \<lparr>at_total_logged = 0, at_entries_in_buffer = 0, at_success_rate = Fin 0, at_cache_hit_rate = Fin 0,
               at_avg_latency_ms = 0\<rparr>
         else \<lparr>at_total_logged = al_total_logged al, at_entries_in_buffer = held,
               at_success_rate = rate_of (length (filter au_success es)) held,
               at_cache_hit_rate = rate_of (length (filter (\<lambda>a. au_cache_status a = Hit) es)) held,
               at_avg_latency_ms = foldl (\<lambda>s a. sat_add s (au_latency_ms a)) 0 es div of_nat held\<rparr>)"

definition audit_clear :: "audit_log \<Rightarrow> audit_log" where
  "audit_clear al = al\<lparr>al_entries := [], al_write_pos := 0\<rparr>"

section \<open>The log is the recent history\<close>

fun log_all :: "audit_entry list \<Rightarrow> audit_log \<Rightarrow> audit_log option" where
  "log_all [] al = Some al"
| "log_all (a # es) al = Option.bind (audit_log_entry a al) (log_all es)"

definition holds_recent :: "audit_entry list \<Rightarrow> audit_log \<Rightarrow> bool" where
  "holds_recent hist al \<longleftrightarrow> length (al_entries al) = min (length hist) (al_capacity al)
     \<and> unat (al_write_pos al) = length hist
     \<and> (\<forall>j < length hist. length hist \<le> j + al_capacity al \<longrightarrow> al_entries al ! (j mod al_capacity al) = hist ! j)"

lemma log_keeps:
  assumes "holds_recent hist al" and "0 < al_capacity al" and "Suc (length hist) < 2 ^ 64"
  shows "\<exists>al'. audit_log_entry a al = Some al' \<and> holds_recent (hist @ [a]) al' \<and> al_capacity al' = al_capacity al
    \<and> al_total_logged al' = al_total_logged al + 1"
proof -
  let ?n = "length hist" and ?c = "al_capacity al" and ?es = "al_entries al"
  have h: "length ?es = min ?n ?c" "unat (al_write_pos al) = ?n"
    "\<And>j. j < ?n \<Longrightarrow> ?n \<le> j + ?c \<Longrightarrow> ?es ! (j mod ?c) = hist ! j"
    using assms(1) by (auto simp: holds_recent_def)
  have pos: "unat (al_write_pos al + 1) = Suc ?n"
    using h(2) assms(3) by (simp add: unat_word_ariths)
  show ?thesis
  proof (cases "?n < ?c")
    case True
    then have "audit_log_entry a al = Some (al\<lparr>al_write_pos := al_write_pos al + 1, al_entries := ?es @ [a],
        al_total_logged := al_total_logged al + 1\<rparr>)"
      using h(1) by (simp add: audit_log_entry_def Let_def)
    moreover have "(?es @ [a]) ! (j mod ?c) = (hist @ [a]) ! j" if "j < Suc ?n" for j
      using that h(1) h(3) [of j] True by (auto simp: nth_append less_Suc_eq)
    ultimately show ?thesis using True h(1) pos by (auto simp: holds_recent_def)
  next
    case False
    let ?es' = "?es[?n mod ?c := a]"
    have "audit_log_entry a al = Some (al\<lparr>al_write_pos := al_write_pos al + 1, al_entries := ?es',
        al_total_logged := al_total_logged al + 1\<rparr>)"
      using h(1,2) False assms(2) by (simp add: audit_log_entry_def Let_def)
    moreover have "?es' ! (j mod ?c) = (hist @ [a]) ! j" if j: "j < Suc ?n" "Suc ?n \<le> j + ?c" for j
    proof (cases "j = ?n")
      case True
      then show ?thesis using h(1) False assms(2) by simp
    next
      case neq: False
      have "j mod ?c \<noteq> ?n mod ?c"
      proof
        assume "j mod ?c = ?n mod ?c"
        then have "?c dvd ?n - j" using j by (metis mod_eq_dvd_iff_nat less_Suc_eq_le)
        then show False using j neq by (auto dest: dvd_imp_le)
      qed
      then show ?thesis using h(3) [of j] j neq by (simp add: nth_append)
    qed
    ultimately show ?thesis using False h(1) pos by (auto simp: holds_recent_def)
  qed
qed

lemma log_all_keeps:
  assumes "holds_recent hist al" and "0 < al_capacity al" and "length hist + length es < 2 ^ 64"
  shows "\<exists>al'. log_all es al = Some al' \<and> holds_recent (hist @ es) al' \<and> al_capacity al' = al_capacity al
    \<and> al_total_logged al' = al_total_logged al + of_nat (length es)"
  using assms
proof (induction es arbitrary: hist al)
  case (Cons a es)
  obtain al1 where 1: "audit_log_entry a al = Some al1" "holds_recent (hist @ [a]) al1" "al_capacity al1 = al_capacity al"
    "al_total_logged al1 = al_total_logged al + 1"
    using log_keeps [OF Cons.prems(1,2), of a] Cons.prems(3) by auto
  then show ?case using Cons.IH [OF 1(2)] Cons.prems(2,3) by (auto simp: add.assoc)
qed simp

lemma recent_reads:
  assumes "holds_recent hist al" and "0 < al_capacity al"
  shows "audit_recent limit al = take (min limit (al_capacity al)) (rev hist)"
proof -
  let ?n = "length hist" and ?c = "al_capacity al" and ?es = "al_entries al"
  have h: "length ?es = min ?n ?c" "unat (al_write_pos al) = ?n"
    "\<And>j. j < ?n \<Longrightarrow> ?n \<le> j + ?c \<Longrightarrow> ?es ! (j mod ?c) = hist ! j"
    using assms(1) by (auto simp: holds_recent_def)
  have one: "recent_index ?n (length ?es) i < length ?es \<and> ?es ! recent_index ?n (length ?es) i = hist ! (?n - 1 - i)"
    if i: "i < min (length ?es) limit" for i
  proof -
    have pos: "0 < ?n" "i < ?n" "i < ?c" using i h(1) by auto
    have "recent_index ?n (length ?es) i = (?n - 1 - i) mod length ?es" using pos h(1) by (simp add: recent_index_def)
    moreover have "(?n - 1 - i) mod length ?es = (?n - 1 - i) mod ?c" using pos h(1) by (cases "?n \<le> ?c") auto
    moreover have "(?n - 1 - i) mod ?c < length ?es" using pos h(1) by (cases "?n \<le> ?c") auto
    ultimately show ?thesis using h(3) [of "?n - 1 - i"] pos by simp
  qed
  have "audit_recent limit al = map (\<lambda>i. hist ! (?n - 1 - i)) [0..<min (length ?es) limit]"
    unfolding audit_recent_def Let_def h(2) List.map_filter_def using one by (auto simp: filter_True)
  also have "\<dots> = take (min limit ?c) (rev hist)"
    by (rule nth_equalityI) (auto simp: h(1) rev_nth)
  finally show ?thesis .
qed

text \<open>C37. The audit log is a window on the history: after any number of requests (fewer than \<open>2\<^sup>6\<^sup>4\<close>) the recent entries are
  the last ones that were logged, newest first, as many as asked for and as the log has room for, and the total counts
  all of them; clearing the log empties the window.\<close>

theorem audit_log_window:
  assumes "0 < capacity" and "length es < 2 ^ 64"
  shows "\<exists>al. log_all es (audit_log_new capacity) = Some al
    \<and> (\<forall>limit. audit_recent limit al = take (min limit capacity) (rev es))
    \<and> al_total_logged al = of_nat (length es)
    \<and> (\<forall>limit. audit_recent limit (audit_clear al) = [])"
proof -
  have "holds_recent [] (audit_log_new capacity)" by (simp add: holds_recent_def audit_log_new_def)
  from log_all_keeps [OF this, of es] assms obtain al
    where al: "log_all es (audit_log_new capacity) = Some al" "holds_recent es al" "al_capacity al = capacity"
      "al_total_logged al = of_nat (length es)"
    by (auto simp: audit_log_new_def)
  have "audit_recent limit (audit_clear al) = []" for limit
    by (simp add: audit_recent_def audit_clear_def map_filter_simps)
  with al recent_reads [OF al(2)] assms(1) show ?thesis by auto
qed

definition demo_audit_entry :: "u64 \<Rightarrow> audit_entry" where
  "demo_audit_entry i =
     \<lparr>au_request_id = i, au_timestamp = 0, au_query = [], au_top_k = None, au_cache_status = Miss, au_latency_ms = 0,
      au_result_count = 0, au_success = True, au_error = None, au_client_id = None, au_upstream_id = None,
      au_miss_reason = None\<rparr>"

theorem audit_log_window_witness:
  "\<exists>al. log_all (map demo_audit_entry [1, 2, 3]) (audit_log_new 2) = Some al
     \<and> audit_recent 5 al = map demo_audit_entry [3, 2]"
  using audit_log_window [of 2 "map demo_audit_entry [1, 2, 3]"] by fastforce

section \<open>Long queries\<close>

lemma byte_prefix_ascii: "\<forall>c \<in> set s. c < 128 \<Longrightarrow> n \<le> length s \<Longrightarrow> byte_prefix n (s @ t) = Some (take n s)"
proof (induction s arbitrary: n)
  case Nil
  then show ?case by (cases t) simp_all
next
  case (Cons c s)
  then show ?case by (cases n) (simp_all add: utf8_len_def)
qed

lemma str_len_ascii: "\<forall>c \<in> set s. c < 128 \<Longrightarrow> str_len s = length s"
  by (induction s) (simp_all add: str_len_def utf8_len_def)

lemma byte_prefix_inside:
  "\<forall>c \<in> set s. c < 128 \<Longrightarrow> length s < n \<Longrightarrow> n < length s + utf8_len c \<Longrightarrow> byte_prefix n (s @ c # t) = None"
proof (induction s arbitrary: n)
  case (Cons d s)
  then show ?case by (cases n) (simp_all add: utf8_len_def split: if_splits)
qed simp

text \<open>A long query is cut after 200 bytes when it is plain ASCII. When the cut falls inside a character, the
  slice panics, so that a request with such a query cannot be audited.\<close>

theorem audit_truncation:
  assumes "\<forall>x \<in> set p. x < 128"
  shows "truncate_query p = Some (if 200 < length p then take 200 p @ lit ''...'' else p)
    \<and> (length p = 199 \<and> 128 \<le> c \<longrightarrow> truncate_query (p @ c # s) = None)"
proof -
  have "truncate_query p = Some (if 200 < length p then take 200 p @ lit ''...'' else p)"
    using byte_prefix_ascii [OF assms, of 200 "[]"] str_len_ascii [OF assms] by (simp add: truncate_query_def)
  moreover have "truncate_query (p @ c # s) = None" if c: "length p = 199" "128 \<le> c"
  proof -
    have "2 \<le> utf8_len c" using c(2) by (simp add: utf8_len_def)
    then have "byte_prefix 200 (p @ c # s) = None" "200 < str_len (p @ c # s)"
      using byte_prefix_inside [OF assms, of 200 c s] c(1) str_len_ascii [OF assms]
      by (simp_all add: str_len_def)
    then show ?thesis by (simp add: truncate_query_def)
  qed
  ultimately show ?thesis by blast
qed

theorem audit_truncation_witness:
  "truncate_query (replicate 199 97 @ [233]) = None"
  using audit_truncation [of "replicate 199 97" 233 "[]"] by simp

end
