(* ===== verification/Budget.thy ===== *)
theory Budget
  imports ConfigProxy Agents CacheLimits
begin

text \<open>
  The memory budget of an embedded engine (\<open>src/src/engine/budget.rs\<close>) and the ticker that resizes the cache
  (\<open>memory_ticker\<close> and \<open>parse_memory\<close> of \<open>src/src/engine/mod.rs\<close>). Reading a file is an argument: a function
  from the components of an absolute path to its text, if it can be read. A path is its list of components, so
  that \<open>PathBuf::pop\<close> removes the last one and fails on the root.
\<close>

section \<open>Text files\<close>

definition strip_cr :: "rstr \<Rightarrow> rstr" where
  "strip_cr s = (if s \<noteq> [] \<and> last s = 13 then butlast s else s)"

text \<open>\<open>str::lines\<close>.\<close>

definition str_lines :: "rstr \<Rightarrow> rstr list" where
  "str_lines s =
     (let ps = split_char 10 s in map strip_cr (butlast ps) @ (if last ps = [] then [] else [last ps]))"

function trim_end_matches :: "rstr \<Rightarrow> rstr \<Rightarrow> rstr" where
  "trim_end_matches p s =
     (if p \<noteq> [] \<and> ends_with p s then trim_end_matches p (take (length s - length p) s) else s)"
  by pat_completeness auto

termination
  by (relation "measure (\<lambda>(p, s). length s)") (auto simp: ends_with_def min_def)

declare trim_end_matches.simps [simp del]

fun find_map :: "('a \<Rightarrow> 'b option) \<Rightarrow> 'a list \<Rightarrow> 'b option" where
  "find_map f [] = None"
| "find_map f (x # xs) = (case f x of Some y \<Rightarrow> Some y | None \<Rightarrow> find_map f xs)"

definition path_components :: "rstr \<Rightarrow> rstr list" where
  "path_components s = filter (\<lambda>c. c \<noteq> [] \<and> c \<noteq> lit ''.'') (split_char 47 s)"

type_synonym files = "rstr list \<Rightarrow> rstr option"

section \<open>The budget\<close>

definition cgroup_root :: "rstr list" where
  "cgroup_root = [lit ''sys'', lit ''fs'', lit ''cgroup'']"

definition limit_at :: "files \<Rightarrow> rstr list \<Rightarrow> nat option" where
  "limit_at files dir =
     (case files (dir @ [lit ''memory.max'']) of
        None \<Rightarrow> None
      | Some s \<Rightarrow>
          (let t = trim s
           in if t = lit ''max'' then None
              else case parse_usize t of Some v \<Rightarrow> if v > 0 then Some v else None | None \<Rightarrow> None))"

function cgroup_walk :: "files \<Rightarrow> rstr list \<Rightarrow> nat option" where
  "cgroup_walk files dir =
     (case limit_at files dir of
        Some v \<Rightarrow> Some v
      | None \<Rightarrow> if dir = cgroup_root \<or> dir = [] then None else cgroup_walk files (butlast dir))"
  by pat_completeness auto

termination
  by (relation "measure (\<lambda>(files, dir). length dir)") auto

declare cgroup_walk.simps [simp del]

definition cgroup_v2_memory_max :: "files \<Rightarrow> nat option" where
  "cgroup_v2_memory_max files =
     (case files [lit ''proc'', lit ''self'', lit ''cgroup''] of
        None \<Rightarrow> None
      | Some contents \<Rightarrow>
          (case find_map (strip_prefix (lit ''0::'')) (str_lines contents) of
             None \<Rightarrow> None
           | Some path \<Rightarrow>
               cgroup_walk files (if trim path = [] then cgroup_root
                 else path_components (lit ''/sys/fs/cgroup'' @ trim path))))"

fun mem_available_in :: "rstr list \<Rightarrow> nat option" where
  "mem_available_in [] = None"
| "mem_available_in (line # rest) =
     (case strip_prefix (lit ''MemAvailable:'') line of
        Some r \<Rightarrow>
          map_option (\<lambda>kb. min (kb * 1024) (2 ^ 64 - 1)) (parse_usize (trim (trim_end_matches (lit ''kB'') (trim r))))
      | None \<Rightarrow> mem_available_in rest)"

definition mem_available :: "files \<Rightarrow> nat option" where
  "mem_available files =
     (case files [lit ''proc'', lit ''meminfo''] of None \<Rightarrow> None | Some s \<Rightarrow> mem_available_in (str_lines s))"

definition read_memory_budget :: "files \<Rightarrow> nat" where
  "read_memory_budget files =
     (case cgroup_v2_memory_max files of
        Some v \<Rightarrow> v
      | None \<Rightarrow> (case mem_available files of Some v \<Rightarrow> v | None \<Rightarrow> 256 * 1024 * 1024))"

definition cap_for_fraction :: "fl \<Rightarrow> nat \<Rightarrow> nat" where
  "cap_for_fraction fraction budget = fl_as_u64 (f64_mul (nat_as_f64 budget) (fl_clamp01 fraction))"

definition default_memory_fraction :: fl where
  "default_memory_fraction = f64_round (7 / 10)"

definition dynamic_cap_floor_bytes :: nat where
  "dynamic_cap_floor_bytes = 16 * 1024 * 1024"

definition dynamic_cap :: "fl \<Rightarrow> nat \<Rightarrow> nat" where
  "dynamic_cap fraction budget = max (cap_for_fraction fraction budget) dynamic_cap_floor_bytes"

section \<open>The ticker\<close>

definition abs_diff :: "nat \<Rightarrow> nat \<Rightarrow> nat" where
  "abs_diff a b = (if a < b then b - a else a - b)"

text \<open>One round of \<open>memory_ticker\<close>, with the cap that it applied last.\<close>

definition memory_tick :: "env \<Rightarrow> fl \<Rightarrow> nat \<Rightarrow> nat \<times> cache_store \<Rightarrow> nat \<times> cache_store" where
  "memory_tick E fraction budget x =
     (let (current, cs) = x; cap = dynamic_cap fraction budget; threshold = current div 20
      in if cap \<noteq> current \<and> abs_diff cap current > threshold
         then (cap, snd (enforce_memory_limit E (set_max_memory_bytes (of_nat cap) cs)))
         else x)"

section \<open>Sizes in text\<close>

definition strip_suffix :: "rstr \<Rightarrow> rstr \<Rightarrow> rstr option" where
  "strip_suffix p s = (if ends_with p s then Some (take (length s - length p) s) else None)"

definition size_unit :: "rstr \<Rightarrow> (rstr \<times> nat) option" where
  "size_unit s =
     (case strip_suffix (lit ''gib'') s of
        Some n \<Rightarrow> Some (n, 1024 * 1024 * 1024)
      | None \<Rightarrow>
          (case strip_suffix (lit ''mib'') s of
             Some n \<Rightarrow> Some (n, 1024 * 1024)
           | None \<Rightarrow> (case strip_suffix (lit ''kib'') s of Some n \<Rightarrow> Some (n, 1024) | None \<Rightarrow> None)))"

definition parse_memory :: "rstr \<Rightarrow> rstr + nat" where
  "parse_memory raw =
     (let s = trim raw
      in case parse_usize s of
           Some n \<Rightarrow> Inr n
         | None \<Rightarrow>
             (case size_unit (map to_ascii_lowercase s) of
                None \<Rightarrow> Inl (lit ''invalid max_memory: '' @ raw)
              | Some (num, mul) \<Rightarrow>
                  (case parse_usize (trim num) of
                     None \<Rightarrow> Inl (lit ''invalid max_memory: '' @ raw)
                   | Some n \<Rightarrow> Inr (min (n * mul) (2 ^ 64 - 1)))))"

section \<open>The nearest limit counts\<close>

text \<open>The directories that the walk visits, from the most specific one upwards.\<close>

function ancestors :: "rstr list \<Rightarrow> rstr list list" where
  "ancestors dir = dir # (if dir = cgroup_root \<or> dir = [] then [] else ancestors (butlast dir))"
  by pat_completeness auto

termination
  by (relation "measure length") auto

declare ancestors.simps [simp del]

text \<open>The walk over the control groups ends and gives the limit of the most specific group that has a positive one,
  and nothing when no group up to the root of the hierarchy has one; an unlimited, unreadable or malformed limit counts
  as none.\<close>

theorem cgroup_nearest_limit:
  "cgroup_walk files dir = find_map (limit_at files) (ancestors dir)"
proof (induction files dir rule: cgroup_walk.induct)
  case (1 files dir)
  show ?case
    by (subst cgroup_walk.simps, subst ancestors.simps) (use 1 in \<open>auto split: option.splits\<close>)
qed

section \<open>The cap follows the budget\<close>

lemma f64_round_upper:
  assumes "0 \<le> x" and "x \<le> 2 ^ 1000"
  shows "\<exists>r. f64_round x = Fin r \<and> r \<le> x + max x 1 * ulp64"
proof (cases "x = 0")
  case True
  then show ?thesis by (simp add: f64_round_def ulp64_def)
next
  case False
  then have x: "0 < x" using assms(1) by simp
  let ?b = "max (binade x) (- 1022)" and ?r = "round_at (max (binade x) (- 1022) - 52) x"
  have "pow2 ?b \<le> max x 1"
  proof (cases "binade x \<le> - 1022")
    case True
    have "pow2 (- 1022) \<le> pow2 0" by (rule pow2_mono) simp
    then show ?thesis using True by (simp add: max_def pow2_def)
  next
    case False
    then show ?thesis using binade_le [OF x] by (simp add: max_def)
  qed
  moreover have "pow2 (?b - 52) / 2 = pow2 ?b * ulp64"
    unfolding pow2_diff by (simp add: pow2_def ulp64_def field_simps)
  moreover have "0 \<le> ulp64" by (rule ulp64_bounds)
  ultimately have "pow2 (?b - 52) / 2 \<le> max x 1 * ulp64" by (simp add: mult_right_mono)
  then have r: "?r \<le> x + max x 1 * ulp64" using round_at_error [of "?b - 52" x] by linarith
  also have "\<dots> \<le> 2 ^ 1000 + 2 ^ 1000 * ulp64"
    using assms(2) by (intro add_mono mult_right_mono) (auto simp: ulp64_def)
  also have "\<dots> < 2 ^ 1024" by (simp add: ulp64_def)
  finally have "f64_round x = Fin ?r" using x by (simp add: f64_round_def f64_round_pos_def Let_def)
  then show ?thesis using r by blast
qed

text \<open>The cap never exceeds the budget it is a fraction of, whatever the fraction, for budgets below four
  pebibytes; above that the conversion of the budget to a floating-point number may round it up.\<close>

theorem cap_within_budget:
  assumes "budget < 2 ^ 52"
  shows "cap_for_fraction fraction budget \<le> budget"
proof (cases "fl_clamp01 fraction")
  case (Fin y)
  then have y: "0 \<le> y" "y \<le> 1" by (cases fraction; auto split: if_splits)+
  let ?b = "of_nat budget :: rat"
  have "(of_nat (Suc budget) :: rat) \<le> of_nat (2 ^ 52)" unfolding of_nat_le_iff using assms by simp
  then have b: "0 \<le> ?b" "?b + 1 \<le> 2 ^ 52" by (simp_all add: add.commute)
  obtain v where v: "nat_as_f64 budget = Fin v" "0 \<le> v" "v \<le> ?b * (1 + ulp64)"
  proof -
    have "safe64 ?b"
    proof (rule safe64_range, cases "budget = 0")
      case False
      then have "1 \<le> ?b" by simp
      moreover have "?b \<le> 2 ^ 300" using b(2) by (rule order_trans [OF _ order_trans, rotated]) simp_all
      ultimately show "?b = 0 \<or> 1 / 10 ^ 9 \<le> ?b \<and> ?b \<le> 2 ^ 300" by simp
    qed simp
    then have "near 1 ?b (nat_as_f64 budget)" by (rule near_nat)
    moreover then obtain v where "nat_as_f64 budget = Fin v" using near_Fin by blast
    moreover have "0 \<le> (1 - ulp64) * ?b" using b(1) ulp64_bounds(2) by simp
    ultimately show thesis using that [of v] by (simp add: near_def mult.commute)
  qed
  have vy: "0 \<le> v * y" "v * y \<le> v" using v(2) y by (simp_all add: mult_left_le)
  have v52: "v \<le> 2 ^ 53"
  proof -
    have "?b * (1 + ulp64) \<le> 2 ^ 52 * 2" using b ulp64_bounds by (intro mult_mono) auto
    then show ?thesis using v(3) by simp
  qed
  then obtain r where r: "f64_round (v * y) = Fin r" "r \<le> v * y + max (v * y) 1 * ulp64"
    using f64_round_upper [OF vy(1)] vy(2) by fastforce
  have "r < ?b + 1"
  proof (cases "budget = 0")
    case True
    then have vy0: "v * y = 0" using v(2,3) by simp
    have "r \<le> ulp64" using r(2) unfolding vy0 by simp
    then show ?thesis using True by (simp add: ulp64_def)
  next
    case False
    then have "1 \<le> ?b" by simp
    moreover have "?b \<le> ?b * (1 + ulp64)" using mult_left_mono [of 1 "1 + ulp64" ?b] b(1) ulp64_bounds(1) by simp
    ultimately have "max (v * y) 1 \<le> ?b * (1 + ulp64)" using vy(2) v(3) by linarith
    then have "max (v * y) 1 * ulp64 \<le> ?b * (1 + ulp64) * ulp64" using ulp64_bounds(1) by (rule mult_right_mono)
    then have "r \<le> ?b * (1 + ulp64) + ?b * (1 + ulp64) * ulp64" using r(2) vy(2) v(3) by linarith
    also have "\<dots> = ?b + ?b * (2 * ulp64 + ulp64 * ulp64)" by (simp add: algebra_simps)
    also have "\<dots> \<le> ?b + (2 ^ 52 - 1) * (2 * ulp64 + ulp64 * ulp64)"
      using b ulp64_bounds(1) by (intro add_left_mono mult_right_mono) auto
    also have "\<dots> < ?b + 1" by (simp add: ulp64_def)
    finally show ?thesis .
  qed
  then have "r < of_int (int budget + 1)" by simp
  then have "\<lfloor>r\<rfloor> < int budget + 1" by (simp only: floor_less_iff)
  then have "nat \<lfloor>r\<rfloor> \<le> budget" by linarith
  then show ?thesis by (simp add: cap_for_fraction_def Fin v(1) r(1))
next
  case NaN
  then show ?thesis by (simp add: cap_for_fraction_def nat_as_f64_def) (cases "f64_round (of_nat budget)"; simp)
next
  case (Inf b)
  then show ?thesis by (cases fraction) simp_all
qed

theorem cap_within_budget_witness: "cap_for_fraction default_memory_fraction 1000000000 \<le> 1000000000"
  using cap_within_budget [of 1000000000 default_memory_fraction] by simp

lemma enforce_memory_limit_config: "cache_config (snd (enforce_memory_limit E cs)) = cache_config cs"
proof (cases "0 < cs_max_memory_bytes cs")
  case True
  let ?P = "\<lambda>c. cache_config c = cache_config cs"
  have "?P (snd (s3fifo_evict_one E c))" if "?P c" for c
    using that evict_one_shrinks [of E c] by (simp add: shrinks_def)
  then have "?P (snd (snd (evict_while_heavy E (cs_max_memory_bytes cs) 0 0 cs)))"
    using evict_while_heavy_exit [of ?P E cs "cs_max_memory_bytes cs" 0 0] by blast
  then show ?thesis using enforce_memory_limit_state [OF True, of E] by (auto simp: cache_config_def on_stats_def)
next
  case False
  then show ?thesis by (simp add: enforce_memory_limit_def word_gt_0)
qed

text \<open>The rounds of the ticker: before each, the cache has been used by other tasks.\<close>

fun run_ticks ::
  "env \<Rightarrow> fl \<Rightarrow> (nat \<times> (cache_store \<Rightarrow> cache_store)) list \<Rightarrow> nat \<times> cache_store \<Rightarrow> nat \<times> cache_store" where
  "run_ticks E fraction [] x = x"
| "run_ticks E fraction ((budget, use) # rounds) x =
     run_ticks E fraction rounds (memory_tick E fraction budget (fst x, use (snd x)))"

definition tracks :: "env \<Rightarrow> nat \<Rightarrow> nat \<times> cache_store \<Rightarrow> bool" where
  "tracks E N x \<longleftrightarrow> dynamic_cap_floor_bytes \<le> fst x \<and> cs_max_memory_bytes (snd x) = of_nat (fst x) \<and> store_ok E N (snd x)"

lemma tick_tracks:
  assumes "store_ok E N cs" and "current = 0 \<or> tracks E N (current, cs)"
  shows "tracks E N (memory_tick E fraction budget (current, cs))"
    and "abs_diff (dynamic_cap fraction budget) (fst (memory_tick E fraction budget (current, cs)))
      \<le> fst (memory_tick E fraction budget (current, cs)) div 20"
proof -
  define cap where "cap = dynamic_cap fraction budget"
  let ?cap = cap
  let ?c = "snd (enforce_memory_limit E (set_max_memory_bytes (of_nat ?cap) cs))"
  have cap: "dynamic_cap_floor_bytes \<le> ?cap" "0 < ?cap" by (simp_all add: cap_def dynamic_cap_def dynamic_cap_floor_bytes_def)
  have ok: "store_ok E N (set_max_memory_bytes (of_nat ?cap) cs)"
    using assms(1) store_ok_cong [of "set_max_memory_bytes (of_nat ?cap) cs" cs E N] by (simp add: set_max_memory_bytes_def)
  have "store_ok E N ?c" by (rule sok.enforce_memory_limit_P [OF ok])
  moreover have "cs_max_memory_bytes ?c = of_nat ?cap"
    using cache_config_fields(5) [OF enforce_memory_limit_config] by (simp add: set_max_memory_bytes_def)
  ultimately have "tracks E N (?cap, ?c)" using cap by (simp add: tracks_def)
  then show "tracks E N (memory_tick E fraction budget (current, cs))"
    using assms(2) cap(2) by (auto simp: memory_tick_def Let_def abs_diff_def cap_def [symmetric])
  show "abs_diff (dynamic_cap fraction budget) (fst (memory_tick E fraction budget (current, cs)))
      \<le> fst (memory_tick E fraction budget (current, cs)) div 20"
    by (simp add: memory_tick_def Let_def abs_diff_def cap_def [symmetric])
qed

text \<open>C30. The ticker keeps the memory limit of the cache on the budget: after every round the limit is at least the floor
  and within five per cent of the cap for the budget that was just read, and the cache satisfies its invariant,
  whatever the requests do to the cache in between (short of changing the limit themselves).\<close>

theorem memory_ticker_tracks:
  assumes "run_ticks E fraction rounds (0, cs) = (current, cs')" and "rounds \<noteq> []" and "store_ok E N cs"
    and "\<forall>(budget, use) \<in> set rounds. \<forall>c. cs_max_memory_bytes (use c) = cs_max_memory_bytes c \<and> (store_ok E N c \<longrightarrow> store_ok E N (use c))"
  shows "dynamic_cap_floor_bytes \<le> current
    \<and> abs_diff (dynamic_cap fraction (fst (last rounds))) current \<le> current div 20
    \<and> cs_max_memory_bytes cs' = of_nat current \<and> store_ok E N cs'"
proof -
  have "tracks E N (run_ticks E fraction rounds x)
      \<and> abs_diff (dynamic_cap fraction (fst (last rounds))) (fst (run_ticks E fraction rounds x)) \<le> fst (run_ticks E fraction rounds x) div 20"
    if "rounds \<noteq> []" "store_ok E N (snd x)" "fst x = 0 \<or> tracks E N x"
      "\<forall>(budget, use) \<in> set rounds. \<forall>c. cs_max_memory_bytes (use c) = cs_max_memory_bytes c \<and> (store_ok E N c \<longrightarrow> store_ok E N (use c))" for x
    using that
  proof (induction rounds arbitrary: x)
    case (Cons a rounds)
    obtain budget use where a: "a = (budget, use)" by fastforce
    have use: "store_ok E N (use (snd x))" "fst x = 0 \<or> tracks E N (fst x, use (snd x))"
      using Cons.prems(2-4) by (auto simp: a tracks_def)
    note t = tick_tracks [OF use, of fraction budget]
    show ?case
    proof (cases "rounds = []")
      case True
      then show ?thesis using t by (simp add: a)
    next
      case False
      show ?thesis
        using Cons.IH [OF False, of "memory_tick E fraction budget (fst x, use (snd x))"] t(1) Cons.prems(4) False
        by (simp add: a tracks_def)
    qed
  qed simp
  from this [of "(0, cs)"] assms show ?thesis by (simp add: tracks_def)
qed

theorem memory_ticker_tracks_witness:
  "\<exists>current cs'. run_ticks trivial_env default_memory_fraction [(0, \<lambda>c. c), (2 ^ 30, count_exact)] (0, cache_new 5 5 10) = (current, cs')
     \<and> dynamic_cap_floor_bytes \<le> current \<and> cs_max_memory_bytes cs' = of_nat current"
proof -
  obtain current cs' where r: "run_ticks trivial_env default_memory_fraction [(0, \<lambda>c. c), (2 ^ 30, count_exact)] (0, cache_new 5 5 10) = (current, cs')"
    by fastforce
  have "store_ok trivial_env (max 10 1) (cache_new 5 5 10)" unfolding cache_new_def by (rule store_ok_new)
  moreover have "cs_max_memory_bytes (count_exact c) = cs_max_memory_bytes c" for c by (simp add: count_exact_def)
  ultimately have "dynamic_cap_floor_bytes \<le> current" "cs_max_memory_bytes cs' = of_nat current"
    using memory_ticker_tracks [OF r, of "max 10 1"] by simp_all
  with r show ?thesis by blast
qed

section \<open>Reading sizes back\<close>

lemma digits_append: "digits_value a (xs @ ys) = Option.bind (digits_value a xs) (\<lambda>b. digits_value b ys)"
  by (induction xs arbitrary: a) simp_all

lemma dec_aux_value: "n < k \<Longrightarrow> digits_value 0 (nat_to_dec_aux k n) = Some n"
proof (induction k arbitrary: n)
  case (Suc k)
  show ?case
  proof (cases "n < 10")
    case False
    then have "n div 10 < k" using Suc.prems by (simp add: less_Suc_eq_le order_less_le_trans [OF div_less_dividend])
    then have "digits_value 0 (nat_to_dec_aux k (n div 10)) = Some (n div 10)" by (rule Suc.IH)
    then show ?thesis using False by (simp add: digits_append mult.commute)
  qed simp
qed simp

lemma dec_aux_digits: "\<forall>c \<in> set (nat_to_dec_aux k n). 48 \<le> c \<and> c \<le> 57"
  by (induction k arbitrary: n) (auto simp: less_Suc_eq_le [symmetric])

lemma dec_digits: "\<forall>c \<in> set (nat_to_dec n). 48 \<le> c \<and> c \<le> 57" and dec_nonempty: "nat_to_dec n \<noteq> []"
  using dec_aux_digits [of "Suc n" n] by (simp_all add: nat_to_dec_def)

lemma parse_dec:
  assumes "n < 2 ^ 64"
  shows "parse_usize (nat_to_dec n) = Some n"
proof -
  obtain c cs where c: "nat_to_dec n = c # cs" using dec_nonempty by (cases "nat_to_dec n") auto
  have "c \<noteq> 43" using dec_digits [of n] by (auto simp: c)
  moreover have "digits_value 0 (c # cs) = Some n" using dec_aux_value [of n "Suc n"] by (simp add: c [symmetric] nat_to_dec_def del: nat_to_dec_aux.simps)
  ultimately show ?thesis using assms by (simp add: parse_usize_def c usize_max_def del: digits_value.simps)
qed

lemma trim_solid:
  assumes "s \<noteq> []" "\<not> is_whitespace (hd s)" "\<not> is_whitespace (last s)"
  shows "trim s = s"
proof -
  have "dropWhile is_whitespace s = s" using assms(1,2) by (cases s) simp_all
  moreover have "dropWhile is_whitespace (rev s) = rev s" using assms(1,3) by (cases s rule: rev_cases) simp_all
  ultimately show ?thesis by (simp add: trim_def trim_start_def trim_end_def)
qed

lemma digit_not_space: "48 \<le> c \<Longrightarrow> c \<le> 57 \<Longrightarrow> \<not> is_whitespace c"
  by (simp add: is_whitespace_def)

lemma dec_trim: "trim (nat_to_dec n) = nat_to_dec n"
  using dec_digits [of n] dec_nonempty [of n] digit_not_space by (intro trim_solid) (auto dest: hd_in_set last_in_set)

lemma dec_lower: "map to_ascii_lowercase (nat_to_dec n) = nat_to_dec n"
  using dec_digits [of n] by (intro map_idI) (auto simp: to_ascii_lowercase_def is_ascii_upper_def)

lemma ends_with_append: "length p = length q \<Longrightarrow> ends_with p (s @ q) = (p = q)"
  by (auto simp: ends_with_def)

lemma parse_unit:
  assumes "n < 2 ^ 64" and "u \<in> {(75, 1024), (77, 1024 * 1024), (71, 1024 * 1024 * 1024)}"
  shows "parse_memory (nat_to_dec n @ [fst u, 105, 66]) = Inr (min (n * snd u) (2 ^ 64 - 1))"
proof -
  let ?s = "nat_to_dec n @ [fst u, 105, 66]"
  have fu: "fst u \<in> {75, 77, 71}" using assms(2) by auto
  have "hd ?s = hd (nat_to_dec n)" using dec_nonempty by simp
  moreover have "hd (nat_to_dec n) \<in> set (nat_to_dec n)" using dec_nonempty by simp
  ultimately have "\<not> is_whitespace (hd ?s)" using dec_digits by (metis digit_not_space)
  then have t: "trim ?s = ?s" by (intro trim_solid) (simp_all add: is_whitespace_def)
  have "digits_value 0 ?s = None" "digits_value 0 (tl ?s) = None"
  proof -
    have "digits_value a (xs @ [fst u, 105, 66]) = None" for a xs
      using fu by (auto simp: digits_append bind_eq_None_conv)
    then show "digits_value 0 ?s = None" "digits_value 0 (tl ?s) = None"
      using dec_nonempty by (metis, simp)
  qed
  then have p: "parse_usize ?s = None" by (cases ?s) (auto simp: parse_usize_def Let_def split: if_splits)
  have low: "map to_ascii_lowercase ?s = nat_to_dec n @ [fst u + 32, 105, 98]"
    using fu by (auto simp: dec_lower to_ascii_lowercase_def is_ascii_upper_def)
  have "size_unit (nat_to_dec n @ [fst u + 32, 105, 98]) = Some (nat_to_dec n, snd u)"
    using assms(2) by (auto simp: size_unit_def strip_suffix_def ends_with_append lit_def)
  then show ?thesis unfolding parse_memory_def t p low Let_def by (simp add: dec_trim parse_dec [OF assms(1)])
qed

text \<open>A size that is written as a number of bytes, or as a number followed by \<open>KiB\<close>, \<open>MiB\<close> or \<open>GiB\<close>, is read back as that
  many bytes, or as the largest number of 64 bits when it is more.\<close>

theorem parse_memory_roundtrip:
  assumes "n < 2 ^ 64"
  shows "parse_memory (nat_to_dec n) = Inr n
    \<and> parse_memory (nat_to_dec n @ lit ''KiB'') = Inr (min (n * 2 ^ 10) (2 ^ 64 - 1))
    \<and> parse_memory (nat_to_dec n @ lit ''MiB'') = Inr (min (n * 2 ^ 20) (2 ^ 64 - 1))
    \<and> parse_memory (nat_to_dec n @ lit ''GiB'') = Inr (min (n * 2 ^ 30) (2 ^ 64 - 1))"
proof -
  have l: "lit ''KiB'' = [75, 105, 66]" "lit ''MiB'' = [77, 105, 66]" "lit ''GiB'' = [71, 105, 66]"
    by (simp_all add: lit_def)
  show ?thesis
    using parse_unit [OF assms, of "(75, 1024)"] parse_unit [OF assms, of "(77, 1024 * 1024)"]
      parse_unit [OF assms, of "(71, 1024 * 1024 * 1024)"] parse_dec [OF assms]
    by (simp add: l parse_memory_def dec_trim)
qed

theorem parse_memory_roundtrip_witness: "parse_memory (nat_to_dec 256 @ lit ''MiB'') = Inr 268435456"
  using parse_memory_roundtrip [of 256] by simp

end
