(* ===== verification/Engine.thy ===== *)
theory Engine
  imports Handlers Budget
begin

text \<open>
  The engine (\<open>src/src/engine/mod.rs\<close>): the query core inside another process, without the HTTP server.
  The builder with its settings, what it does to the proxy that was built from the configuration file (an argument
  here, as is the text of the files of the operating system), queries, statistics and closing. The default
  build has no persistence. Not modelled: the dashboard listener and the spawning of the background tasks, which
  are those of the theories \<open>Refresh\<close> and \<open>Budget\<close>.
\<close>

section \<open>Errors and options\<close>

datatype engine_error = EngineConfig rstr | EnginePersist rstr | EngineFeature rstr | EngineQuery rstr | EngineClosed

record query_opts =
  qo_top_k :: "nat option"
  qo_context :: "rstr option"
  qo_ttl :: "duration option"
  qo_semantic :: "bool option"
  qo_threshold :: "u32 option"
  qo_skip_cache :: bool

definition query_opts_default :: query_opts where
  "query_opts_default =
     \<lparr>qo_top_k = None, qo_context = None, qo_ttl = None, qo_semantic = None, qo_threshold = None, qo_skip_cache = False\<rparr>"

section \<open>The builder\<close>

record engine_builder =
  bl_config_toml :: "rstr option"
  bl_persist_path :: "rstr option"
  bl_ttl :: "duration option"
  bl_stale_ttl :: "duration option"
  bl_context :: "rstr option"
  bl_semantic :: "bool option"
  bl_threshold :: "u32 option"
  bl_max_entries :: "nat option"
  bl_max_memory :: "u64 option"
  bl_memory_fraction :: "fl option"
  bl_dashboard_listen :: "rstr option"

definition builder_new :: engine_builder where
  "builder_new =
     \<lparr>bl_config_toml = None, bl_persist_path = None, bl_ttl = None, bl_stale_ttl = None, bl_context = None,
      bl_semantic = None, bl_threshold = None, bl_max_entries = None, bl_max_memory = None, bl_memory_fraction = None,
      bl_dashboard_listen = None\<rparr>"

definition builder_memory_fraction :: "fl \<Rightarrow> engine_builder \<Rightarrow> engine_builder" where
  "builder_memory_fraction fraction b = b\<lparr>bl_memory_fraction := Some (fl_clamp01 fraction)\<rparr>"

definition max_memory_parsed :: "rstr \<Rightarrow> engine_builder \<Rightarrow> engine_error + engine_builder" where
  "max_memory_parsed raw b =
     (case parse_memory raw of Inl e \<Rightarrow> Inl (EngineConfig e) | Inr n \<Rightarrow> Inr (b\<lparr>bl_max_memory := Some (of_nat n)\<rparr>))"

text \<open>The configuration that the proxy of the engine is built from.\<close>

definition engine_proxy_config :: "(rstr set \<Rightarrow> rstr list) \<Rightarrow> config_file \<Rightarrow> engine_error + proxy_config" where
  "engine_proxy_config ord cf =
     (case resolve_contexts ord cf of
        Inr (r # rs) \<Rightarrow> (case effective_proxy ord cf of Inl e \<Rightarrow> Inl (EngineConfig e) | Inr p \<Rightarrow> Inr p)
      | _ \<Rightarrow> Inr (snd (normalize_upstreams (cg_proxy cf))))"

definition context_error_display :: "context_error \<Rightarrow> rstr" where
  "context_error_display e =
     (case e of
        NotFound cid \<Rightarrow> lit ''Context not found: '' @ cid
      | AlreadyExists cid \<Rightarrow> lit ''Context already exists: '' @ cid
      | CannotDeleteDefault \<Rightarrow> lit ''Cannot delete the default context'')"

definition engine_context :: "engine_builder \<Rightarrow> rstr" where
  "engine_context b = unwrap_or (bl_context b) (lit ''global'')"

definition engine_memory :: "files \<Rightarrow> engine_builder \<Rightarrow> fl option \<times> u64" where
  "engine_memory files b =
     (case bl_max_memory b of
        Some bytes \<Rightarrow> (None, bytes)
      | None \<Rightarrow>
          (let fraction = unwrap_or (bl_memory_fraction b) default_memory_fraction
           in (Some fraction, of_nat (dynamic_cap fraction (read_memory_budget files)))))"

text \<open>A context that exists already is as good as one that was created.\<close>

fun ensure_created :: "(context_error + unit) \<times> 'p context_manager \<Rightarrow> context_error + 'p context_manager" where
  "ensure_created (Inl (AlreadyExists _), mg) = Inr mg"
| "ensure_created (Inl e, mg) = Inl e"
| "ensure_created (Inr _, mg) = Inr mg"

text \<open>The settings of the builder applied to the proxy.\<close>

definition engine_prepare ::
  "'p query_env \<Rightarrow> files \<Rightarrow> clock \<Rightarrow> engine_builder \<Rightarrow> 'p app_state \<Rightarrow> engine_error + fl option \<times> 'p app_state" where
  "engine_prepare Q files t b st =
     (if bl_persist_path b \<noteq> None then Inl (EngineFeature (lit ''persistence''))
      else case (case bl_max_entries b of Some n \<Rightarrow> set_max_entries n (ap_cache st) | None \<Rightarrow> Inr (ap_cache st)) of
        Inl e \<Rightarrow> Inl (EngineConfig e)
      | Inr cs \<Rightarrow>
          (let (fraction, cap) = engine_memory files b;
               cs1 = set_stale_duration (unwrap_or (bl_stale_ttl b) (from_secs 3600))
                 (set_fresh_duration (unwrap_or (bl_ttl b) (from_secs 300)) (set_max_memory_bytes cap cs));
               cid = engine_context b
           in case ensure_created (context_create (ck_now t) (unix_secs (ck_wall t)) cid [] [] (ap_contexts st)) of
                Inl e \<Rightarrow> Inl (EngineConfig (context_error_display e))
              | Inr mg1 \<Rightarrow>
                  (case context_switch (qe_ctx_order Q) (ck_now t) (unix_secs (ck_wall t)) cid mg1 of
                     (Inl e, _) \<Rightarrow> Inl (EngineConfig (context_error_display e))
                   | (Inr _, mg2) \<Rightarrow> Inr (fraction, st\<lparr>ap_cache := cs1, ap_contexts := mg2\<rparr>))))"

section \<open>The engine\<close>

record 'p engine =
  en_state :: "'p app_state"
  en_cancelled :: bool
  en_context :: rstr
  en_memory_fraction :: "fl option"
  en_dashboard :: "rstr option"

text \<open>The listener of the dashboard: \<open>bind\<close> fails, or binds and then tells the local address or fails to.\<close>

definition engine_dashboard :: "(rstr \<Rightarrow> rstr + (rstr + rstr)) \<Rightarrow> engine_builder \<Rightarrow> engine_error + rstr option" where
  "engine_dashboard bind b =
     (case bl_dashboard_listen b of
        None \<Rightarrow> Inr None
      | Some addr \<Rightarrow>
          (case bind addr of
             Inl e \<Rightarrow> Inl (EngineConfig (lit ''dashboard listen '' @ addr @ lit '': '' @ e))
           | Inr (Inl e) \<Rightarrow> Inl (EngineConfig (lit ''dashboard listen: '' @ e))
           | Inr (Inr local) \<Rightarrow> Inr (Some local)))"

text \<open>\<open>build\<close>: \<open>loaded\<close> is the result of loading the file, \<open>new\<close> the construction of the proxy, \<open>bind\<close> the network. The path is a
  text; the tasks that are spawned at the end are the refresh worker, the ticker and the dashboard.\<close>

definition engine_build ::
  "'p query_env \<Rightarrow> (rstr set \<Rightarrow> rstr list) \<Rightarrow> files \<Rightarrow> clock \<Rightarrow> (rstr \<Rightarrow> rstr + config_file) \<Rightarrow>
   (proxy_config \<Rightarrow> rstr + 'p app_state) \<Rightarrow> (rstr \<Rightarrow> rstr + (rstr + rstr)) \<Rightarrow> engine_builder \<Rightarrow> engine_error + 'p engine" where
  "engine_build Q ord files t loaded new bind b =
     (case bl_config_toml b of
        None \<Rightarrow> Inl (EngineConfig (lit ''config_toml is required''))
      | Some path \<Rightarrow>
          (case loaded path of
             Inl e \<Rightarrow> Inl (EngineConfig e)
           | Inr cf \<Rightarrow>
               (case engine_proxy_config ord cf of
                  Inl e \<Rightarrow> Inl e
                | Inr p \<Rightarrow>
                    (case new p of
                       Inl e \<Rightarrow> Inl (EngineConfig e)
                     | Inr st \<Rightarrow>
                         (case engine_prepare Q files t b st of
                            Inl e \<Rightarrow> Inl e
                          | Inr (fraction, st1) \<Rightarrow>
                              (case engine_dashboard bind b of
                                 Inl e \<Rightarrow> Inl e
                               | Inr dashboard \<Rightarrow>
                                   Inr \<lparr>en_state = st1, en_cancelled = False, en_context = engine_context b,
                                        en_memory_fraction = fraction, en_dashboard = dashboard\<rparr>))))))"

definition engine_request :: "rstr \<Rightarrow> query_opts \<Rightarrow> query_request" where
  "engine_request q opts =
     \<lparr>rq_query = q, rq_top_k = qo_top_k opts, rq_priority = None, rq_upstream_id = None, rq_upstream_type = None\<rparr>"

text \<open>The first segment of \<open>query\<close>; \<open>n\<close> is the number that the counter of the process gives the request.\<close>

definition engine_query_begin ::
  "'p query_env \<Rightarrow> instant \<Rightarrow> clock \<Rightarrow> nat \<Rightarrow> rstr \<Rightarrow> query_opts \<Rightarrow> 'p engine \<Rightarrow> (engine_error + phase) \<times> 'p engine" where
  "engine_query_begin Q start t n q opts en =
     (if en_cancelled en then (Inl EngineClosed, en)
      else let (ph, st) = execute_query_begin Q start t (engine_request q opts) (unwrap_or (qo_context opts) (en_context en))
                 (lit ''eng-'' @ nat_to_dec n) None (lit ''engine'') (qo_skip_cache opts) (en_state en)
           in (Inr ph, en\<lparr>en_state := st\<rparr>))"

text \<open>The end of \<open>query\<close>, for every path of the core.\<close>

definition engine_answer :: "query_result \<Rightarrow> engine_error + query_response" where
  "engine_answer x =
     (if qx_status x \<noteq> 200 then Inl (EngineQuery (lit ''status '' @ nat_to_dec (unat (qx_status x))))
      else Inr (into_query_response (qx_response x)))"

definition engine_clear :: "clock \<Rightarrow> 'p engine \<Rightarrow> 'p engine" where
  "engine_clear t en = en\<lparr>en_state := (en_state en)\<lparr>ap_cache := cache_clear t (ap_cache (en_state en))\<rparr>\<rparr>"

definition engine_close :: "'p engine \<Rightarrow> 'p engine" where
  "engine_close en = en\<lparr>en_cancelled := True\<rparr>"

section \<open>Properties\<close>

lemma create_then_get:
  "ensure_created (context_create now secs cid [] [] mg) = Inr mg1 \<Longrightarrow> get_ctx cid mg1 \<noteq> None \<and> mg_config mg1 = mg_config mg"
  by (auto simp: context_create_def put_ctx_def get_ctx_def update_conv' split: if_splits)

lemma create_total: "\<exists>mg1. ensure_created (context_create now secs cid [] [] mg) = Inr mg1"
  by (simp add: context_create_def)

lemma dynamic_cap_u64: "unat (of_nat (dynamic_cap f b) :: u64) = dynamic_cap f b"
proof -
  have "cap_for_fraction f b \<le> 2 ^ 64 - 1" unfolding cap_for_fraction_def by (cases "f64_mul (nat_as_f64 b) (fl_clamp01 f)") simp_all
  then have "dynamic_cap f b < 2 ^ 64" by (auto simp: dynamic_cap_def dynamic_cap_floor_bytes_def)
  then show ?thesis by (simp add: unat_of_nat take_bit_nat_eq_self)
qed

text \<open>The memory limit: the one given, without a ticker, or the given or default share of the budget that the files tell, at least the
  floor.\<close>

definition builder_limit :: "files \<Rightarrow> engine_builder \<Rightarrow> fl option \<Rightarrow> u64 \<Rightarrow> bool" where
  "builder_limit files b fraction cap \<longleftrightarrow>
     (case bl_max_memory b of
        Some m \<Rightarrow> cap = m \<and> fraction = None
      | None \<Rightarrow>
          fraction = Some (unwrap_or (bl_memory_fraction b) default_memory_fraction)
          \<and> unat cap = max (cap_for_fraction (unwrap_or (bl_memory_fraction b) default_memory_fraction) (read_memory_budget files))
              dynamic_cap_floor_bytes)"

lemma engine_prepare_outcome:
  assumes "manager_ok (ap_contexts st)" and "\<And>xs. mset (qe_ctx_order Q xs) = mset xs"
  shows "case engine_prepare Q files t b st of
     Inl e \<Rightarrow> bl_persist_path b \<noteq> None \<and> e = EngineFeature (lit ''persistence'')
       \<or> bl_persist_path b = None \<and> bl_max_entries b = Some 0 \<and> (\<exists>m. e = EngineConfig m)
   | Inr (fraction, st') \<Rightarrow> bl_persist_path b = None \<and> bl_max_entries b \<noteq> Some 0
       \<and> manager_ok (ap_contexts st') \<and> mg_current (ap_contexts st') = engine_context b
       \<and> get_ctx (engine_context b) (ap_contexts st') \<noteq> None
       \<and> cs_entries (ap_cache st') = cs_entries (ap_cache st)
       \<and> cs_max_entries (ap_cache st') = unwrap_or (bl_max_entries b) (cs_max_entries (ap_cache st))
       \<and> cs_fresh_duration (ap_cache st') = unwrap_or (bl_ttl b) (from_secs 300)
       \<and> cs_stale_duration (ap_cache st') = unwrap_or (bl_stale_ttl b) (from_secs 3600)
       \<and> builder_limit files b fraction (cs_max_memory_bytes (ap_cache st'))"
proof (cases "bl_persist_path b = None \<and> bl_max_entries b \<noteq> Some 0")
  case False
  then show ?thesis by (auto simp: engine_prepare_def set_max_entries_def)
next
  case True
  let ?cid = "engine_context b" and ?s = "unix_secs (ck_wall t)"
  obtain cs where cs: "(case bl_max_entries b of Some n \<Rightarrow> set_max_entries n (ap_cache st) | None \<Rightarrow> Inr (ap_cache st)) = Inr cs"
    "cs_entries cs = cs_entries (ap_cache st)" "cs_max_entries cs = unwrap_or (bl_max_entries b) (cs_max_entries (ap_cache st))"
    using True by (cases "bl_max_entries b") (auto simp: set_max_entries_def unwrap_or_def)
  obtain mg1 where mg1: "ensure_created (context_create (ck_now t) ?s ?cid [] [] (ap_contexts st)) = Inr mg1"
    using create_total by blast
  have "mg1 = snd (context_create (ck_now t) ?s ?cid [] [] (ap_contexts st))"
    using mg1 by (auto simp: context_create_def split: if_splits)
  then have ok1: "manager_ok mg1" using create_ok [OF assms(1)] by simp
  have has: "get_ctx ?cid mg1 \<noteq> None" using create_then_get [OF mg1] by simp
  let ?mg2 = "maybe_evict (qe_ctx_order Q) (switched (ck_now t) ?s ?cid mg1)"
  have sw: "context_switch (qe_ctx_order Q) (ck_now t) ?s ?cid mg1 = (Inr (), ?mg2)" using has by (intro switch_eq) simp
  have ok2: "manager_ok ?mg2" using switch_ok [where ord = "qe_ctx_order Q", OF ok1 assms(2), of "ck_now t" ?s ?cid] sw by simp
  have cur: "mg_current ?mg2 = ?cid" by (simp add: switched_get)
  then have "get_ctx ?cid ?mg2 \<noteq> None" using ok2 unfolding manager_ok_def by metis
  moreover obtain fraction cap where m: "engine_memory files b = (fraction, cap)" by fastforce
  moreover have "builder_limit files b fraction cap"
    using m by (auto simp: engine_memory_def builder_limit_def Let_def dynamic_cap_u64 split: option.splits) (simp add: dynamic_cap_def)
  ultimately show ?thesis using True cs ok2 cur
    by (simp add: engine_prepare_def mg1 sw set_stale_duration_def set_fresh_duration_def set_max_memory_bytes_def)
qed

text \<open>C29. What \<open>build\<close> yields. It fails exactly when there is no path of a file, the file does not load, its contexts do not project,
  the proxy cannot be constructed, persistence is asked for, which the default build does not have, the cache is to hold no
  entries, or the dashboard cannot listen. Otherwise the engine is open and works in its context, which exists and is the
  current one, with the given or default lifetimes and the given capacity over the cache of the proxy built from the file; its memory limit
  is the one given, or, when none is given, the given or default share of the detected memory budget, but at least the floor. The proxy that
  is constructed has a consistent table of contexts.\<close>

theorem engine_build_outcome:
  assumes "\<And>p st. new p = Inr st \<Longrightarrow> manager_ok (ap_contexts st)" and "\<And>xs. mset (qe_ctx_order Q xs) = mset xs"
  shows "case engine_build Q ord files t loaded new bind b of
     Inl e \<Rightarrow> bl_config_toml b = None
       \<or> (\<exists>path m. bl_config_toml b = Some path \<and> loaded path = Inl m)
       \<or> (\<exists>path cf m. bl_config_toml b = Some path \<and> loaded path = Inr cf \<and> engine_proxy_config ord cf = Inl m)
       \<or> (\<exists>path cf p m. bl_config_toml b = Some path \<and> loaded path = Inr cf \<and> engine_proxy_config ord cf = Inr p \<and> new p = Inl m)
       \<or> bl_persist_path b \<noteq> None \<or> bl_max_entries b = Some 0
       \<or> (\<exists>addr. bl_dashboard_listen b = Some addr \<and> (\<forall>local. bind addr \<noteq> Inr (Inr local)))
   | Inr en \<Rightarrow> \<exists>path cf p st. bl_config_toml b = Some path \<and> loaded path = Inr cf \<and> engine_proxy_config ord cf = Inr p \<and> new p = Inr st
       \<and> bl_persist_path b = None \<and> bl_max_entries b \<noteq> Some 0
       \<and> (case bl_dashboard_listen b of
            None \<Rightarrow> en_dashboard en = None
          | Some addr \<Rightarrow> \<exists>local. bind addr = Inr (Inr local) \<and> en_dashboard en = Some local)
       \<and> \<not> en_cancelled en \<and> en_context en = engine_context b
       \<and> mg_current (ap_contexts (en_state en)) = engine_context b \<and> get_ctx (engine_context b) (ap_contexts (en_state en)) \<noteq> None
       \<and> cs_entries (ap_cache (en_state en)) = cs_entries (ap_cache st)
       \<and> cs_max_entries (ap_cache (en_state en)) = unwrap_or (bl_max_entries b) (cs_max_entries (ap_cache st))
       \<and> cs_fresh_duration (ap_cache (en_state en)) = unwrap_or (bl_ttl b) (from_secs 300)
       \<and> cs_stale_duration (ap_cache (en_state en)) = unwrap_or (bl_stale_ttl b) (from_secs 3600)
       \<and> builder_limit files b (en_memory_fraction en) (cs_max_memory_bytes (ap_cache (en_state en)))"
proof (cases "\<exists>path cf p st. bl_config_toml b = Some path \<and> loaded path = Inr cf \<and> engine_proxy_config ord cf = Inr p \<and> new p = Inr st")
  case False
  then show ?thesis by (auto simp: engine_build_def split: option.split sum.split)
next
  case True
  then obtain path cf p st where k: "bl_config_toml b = Some path" "loaded path = Inr cf" "engine_proxy_config ord cf = Inr p" "new p = Inr st"
    by blast
  note prep = engine_prepare_outcome [OF assms(1) [OF k(4)] assms(2), where files = files and t = t and b = b]
  have dash: "case engine_dashboard bind b of
      Inl _ \<Rightarrow> \<exists>addr. bl_dashboard_listen b = Some addr \<and> (\<forall>local. bind addr \<noteq> Inr (Inr local))
    | Inr d \<Rightarrow> case bl_dashboard_listen b of None \<Rightarrow> d = None | Some addr \<Rightarrow> \<exists>local. bind addr = Inr (Inr local) \<and> d = Some local"
    by (simp add: engine_dashboard_def split: option.split sum.split)
  show ?thesis
  proof (cases "engine_prepare Q files t b st")
    case (Inl e)
    then show ?thesis using prep k by (auto simp: engine_build_def)
  next
    case (Inr x)
    obtain fraction st' where x: "x = (fraction, st')" by fastforce
    show ?thesis
    proof (cases "engine_dashboard bind b")
      case d: (Inl e)
      then show ?thesis using dash k Inr x by (simp add: engine_build_def)
    next
      case d: (Inr dashboard)
      show ?thesis using prep dash d k Inr x by (simp add: engine_build_def split: option.splits)
    qed
  qed
qed

text \<open>The engine and the daemon share the core: an entry that is fresh in the cache of the engine is returned by its query
  as a hit, as the daemon would serve it; after the engine was closed no query is answered or changes anything.\<close>

theorem engine_serves_fresh:
  assumes "map_of (cs_entries (ap_cache (en_state en)))
      (hash_query (qe_env Q) (context_query (unwrap_or (qo_context opts) (en_context en)) q)) = Some e"
    and "fl_within 1 (cs_ttl_jitter_percent (ap_cache (en_state en)))"
    and "cs_fresh_duration (ap_cache (en_state en)) \<le> from_secs (2 ^ 50)"
    and "cs_stale_duration (ap_cache (en_state en)) \<le> from_secs (2 ^ 50)"
    and "elapsed (ck_now t) (ce_cached_at e) < cs_fresh_duration (ap_cache (en_state en))"
    and "\<not> ap_paused (en_state en)" and "request_validate (engine_request q opts) = Inr ()"
    and "\<not> en_cancelled en" and "\<not> qo_skip_cache opts"
  shows "\<exists>x resp en'. engine_query_begin Q start t n q opts en = (Inr (Finished x), en')
      \<and> engine_answer x = Inr resp \<and> qr_results resp = qr_results (ce_response e) \<and> qr_cache_status resp = Hit
      \<and> engine_query_begin Q start t n q opts (engine_close en') = (Inl EngineClosed, engine_close en')"
proof -
  let ?cid = "unwrap_or (qo_context opts) (en_context en)"
  have q: "rq_query (engine_request q opts) = q" by (simp add: engine_request_def)
  obtain took st' where "execute_query_begin Q start t (engine_request q opts) ?cid (lit ''eng-'' @ nat_to_dec n) None (lit ''engine'') False
      (en_state en) = (Finished (result_ok (Cached (bump_freq e) Hit took)), st')"
    using fresh_entry_hits [OF assms(1-7), of None ?cid Q start "lit ''eng-'' @ nat_to_dec n" "lit ''engine''"] q by auto
  then show ?thesis using assms(8,9)
    by (auto simp: engine_query_begin_def engine_close_def engine_answer_def result_ok_def bump_freq_def)
qed

text \<open>The default builder on a file without contexts: the share of a budget that no file tells.\<close>

theorem engine_build_outcome_witness:
  "\<exists>en. engine_build demo_env in_order (\<lambda>_. None) demo_clock (\<lambda>_. Inr config_default) (\<lambda>_. Inr demo_app) (\<lambda>_. Inl [])
       (builder_new\<lparr>bl_config_toml := Some (lit ''c.toml''), bl_ttl := Some (from_secs 5)\<rparr>) = Inr en
     \<and> mg_current (ap_contexts (en_state en)) = lit ''global'' \<and> cs_fresh_duration (ap_cache (en_state en)) = from_secs 5
     \<and> unat (cs_max_memory_bytes (ap_cache (en_state en)))
         = max (cap_for_fraction default_memory_fraction (read_memory_budget (\<lambda>_. None))) dynamic_cap_floor_bytes"
proof -
  let ?b = "builder_new\<lparr>bl_config_toml := Some (lit ''c.toml''), bl_ttl := Some (from_secs 5)\<rparr>"
  define r where "r = engine_build demo_env in_order (\<lambda>_. None) demo_clock (\<lambda>_. Inr config_default) (\<lambda>_. Inr demo_app) (\<lambda>_. Inl []) ?b"
  have a: "manager_ok (ap_contexts demo_app)" by (simp add: demo_app_def manager_new_ok)
  have o: "mset (qe_ctx_order demo_env xs) = mset xs" for xs by (simp add: demo_env_def)
  have p: "\<exists>p. engine_proxy_config in_order config_default = Inr p"
    by (simp add: engine_proxy_config_def config_default_def resolve_contexts_def resolve_all_contexts_def)
  note out = engine_build_outcome [where new = "\<lambda>_. Inr demo_app" and Q = demo_env and ord = in_order and files = "\<lambda>_. None" and t = demo_clock
      and loaded = "\<lambda>_. Inr config_default" and bind = "\<lambda>_. Inl []" and b = ?b, OF _ o, folded r_def]
  show ?thesis unfolding r_def [symmetric]
    using out a p by (cases r) (auto simp: builder_new_def builder_limit_def engine_context_def unwrap_or_def)
qed

theorem engine_serves_fresh_witness:
  "\<exists>x resp en'. engine_query_begin demo_env 0 demo_clock 1 (lit ''a'') query_opts_default
      \<lparr>en_state = demo_cached, en_cancelled = False, en_context = lit ''default'', en_memory_fraction = None, en_dashboard = None\<rparr> = (Inr (Finished x), en')
     \<and> engine_answer x = Inr resp \<and> qr_results resp = []"
proof -
  let ?en = "\<lparr>en_state = demo_cached, en_cancelled = False, en_context = lit ''default'', en_memory_fraction = None, en_dashboard = None\<rparr>"
  let ?e = "fresh_entry trivial_env demo_clock (response_of []) (lit ''u'') (Some demo_key) (lit ''default'')"
  have q: "lit ''a'' = rq_query demo_request" "engine_request (lit ''a'') query_opts_default = demo_request"
    by (simp_all add: demo_request_def engine_request_def query_opts_default_def)
  have c: "unwrap_or (qo_context query_opts_default) (en_context ?en) = lit ''default''"
    by (simp add: query_opts_default_def unwrap_or_def)
  have "map_of (cs_entries (ap_cache (en_state ?en)))
      (hash_query (qe_env demo_env) (context_query (unwrap_or (qo_context query_opts_default) (en_context ?en)) (lit ''a''))) = Some ?e"
    using demo_cached_fields(1) unfolding c q(1) by simp
  from engine_serves_fresh [OF this, of demo_clock 0 1] demo_cached_fields(2-6) demo_valid q(2)
  show ?thesis by (fastforce simp: query_opts_default_def fresh_entry_def response_of_def)
qed

end
