(* ===== verification/Grpc.thy ===== *)
theory Grpc
  imports Handlers
begin

text \<open>
  The search service over gRPC (\<open>src/src/proxy/grpc/search.rs\<close>) and the conversions between its messages and the
  types of the proxy (\<open>src/src/proxy/grpc/convert.rs\<close>). A query runs through the query core; a batch and a federated query
  have paths of their own, next to those of the HTTP handlers. The agent registry is an argument: it is the one the
  handler loaded. Encoding and decoding of metadata as JSON bytes are parameters.
\<close>

section \<open>Messages and conversions\<close>

record proto_query_request =
  gq_query :: rstr
  gq_top_k :: u32
  gq_priority :: u32
  gq_upstream_id :: rstr
  gq_upstream_type :: rstr
  gq_context :: rstr
  gq_request_id :: rstr

record proto_search_result =
  gs_id :: rstr
  gs_score :: f32
  gs_content :: rstr
  gs_metadata_json :: "u8 list"
  gs_upstream_id :: rstr

record proto_query_response =
  gr_results :: "proto_search_result list"
  gr_cache_status :: int
  gr_took_ms :: u64
  gr_generated_at :: u64

record wire_json =
  wj_to_vec :: "json \<Rightarrow> u8 list option"
  wj_from_slice :: "u8 list \<Rightarrow> json option"

definition some_unless_empty :: "rstr \<Rightarrow> rstr option" where
  "some_unless_empty s = (if s = [] then None else Some s)"

definition request_from_proto :: "proto_query_request \<Rightarrow> query_request" where
  "request_from_proto p =
     \<lparr>rq_query = gq_query p, rq_top_k = (if gq_top_k p > 0 then Some (unat (gq_top_k p)) else None),
      rq_priority = (if gq_priority p > 0 then Some (ucast (gq_priority p)) else None),
      rq_upstream_id = some_unless_empty (gq_upstream_id p), rq_upstream_type = some_unless_empty (gq_upstream_type p)\<rparr>"

definition request_to_proto :: "query_request \<Rightarrow> proto_query_request" where
  "request_to_proto r =
     \<lparr>gq_query = rq_query r, gq_top_k = of_nat (unwrap_or (rq_top_k r) 0), gq_priority = ucast (unwrap_or (rq_priority r) 0),
      gq_upstream_id = unwrap_or (rq_upstream_id r) [], gq_upstream_type = unwrap_or (rq_upstream_type r) [],
      gq_context = [], gq_request_id = []\<rparr>"

definition search_result_to_proto :: "wire_json \<Rightarrow> search_result \<Rightarrow> proto_search_result" where
  "search_result_to_proto W r =
     \<lparr>gs_id = sr_id r, gs_score = sr_score r, gs_content = sr_content r,
      gs_metadata_json = (case sr_metadata r of None \<Rightarrow> [] | Some m \<Rightarrow> unwrap_or (wj_to_vec W m) []),
      gs_upstream_id = unwrap_or (sr_upstream_id r) []\<rparr>"

definition search_result_from_proto :: "wire_json \<Rightarrow> proto_search_result \<Rightarrow> search_result" where
  "search_result_from_proto W p =
     \<lparr>sr_id = gs_id p, sr_score = gs_score p, sr_content = gs_content p,
      sr_metadata = (if gs_metadata_json p = [] then None else wj_from_slice W (gs_metadata_json p)),
      sr_upstream_id = some_unless_empty (gs_upstream_id p)\<rparr>"

text \<open>The codes of the status in the message; an unknown code is read as unspecified, and that as a miss.\<close>

fun cache_status_code :: "cache_status \<Rightarrow> int" where
  "cache_status_code Hit = 1"
| "cache_status_code Miss = 2"
| "cache_status_code StaleHit = 3"
| "cache_status_code FrozenHit = 4"

definition cache_status_from_code :: "int \<Rightarrow> cache_status" where
  "cache_status_from_code c = (if c = 1 then Hit else if c = 3 then StaleHit else if c = 4 then FrozenHit else Miss)"

definition response_to_proto :: "wire_json \<Rightarrow> query_response \<Rightarrow> proto_query_response" where
  "response_to_proto W r =
     \<lparr>gr_results = map (search_result_to_proto W) (qr_results r), gr_cache_status = cache_status_code (qr_cache_status r),
      gr_took_ms = qr_took_ms r, gr_generated_at = unwrap_or (qr_generated_at r) 0\<rparr>"

definition response_from_proto :: "wire_json \<Rightarrow> proto_query_response \<Rightarrow> query_response" where
  "response_from_proto W p =
     \<lparr>qr_results = map (search_result_from_proto W) (gr_results p), qr_cache_status = cache_status_from_code (gr_cache_status p),
      qr_took_ms = gr_took_ms p, qr_generated_at = (if gr_generated_at p > 0 then Some (gr_generated_at p) else None),
      qr_miss_reason = None\<rparr>"

fun cached_to_proto :: "wire_json \<Rightarrow> cached_response \<Rightarrow> proto_query_response" where
  "cached_to_proto W (Cached e s took) =
     \<lparr>gr_results = map (search_result_to_proto W) (qr_results (ce_response e)), gr_cache_status = cache_status_code s,
      gr_took_ms = took, gr_generated_at = unwrap_or (qr_generated_at (ce_response e)) 0\<rparr>"
| "cached_to_proto W (FreshResponse r) = response_to_proto W r"
| "cached_to_proto W (SharedFresh r took) =
     \<lparr>gr_results = map (search_result_to_proto W) (qr_results r), gr_cache_status = cache_status_code (qr_cache_status r),
      gr_took_ms = took, gr_generated_at = unwrap_or (qr_generated_at r) 0\<rparr>"

record proto_batch_request =
  gb_queries :: "rstr list"
  gb_fail_fast :: bool
  gb_context :: rstr

definition batch_from_proto :: "proto_batch_request \<Rightarrow> batch_request" where
  "batch_from_proto p =
     \<lparr>br_queries = map (\<lambda>(i, q). \<lparr>bq_id = lit ''q'' @ nat_to_dec i, bq_query = q, bq_top_k = None, bq_priority = None\<rparr>)
        (enumerate 0 (gb_queries p)),
      br_fail_fast = gb_fail_fast p, br_timeout_ms = None\<rparr>"

record proto_batch_response =
  gp_results :: "rstr \<rightharpoonup> proto_query_response"
  gp_took_ms :: u64
  gp_success_count :: u32
  gp_error_count :: u32
  gp_complete :: bool

definition batch_result_to_proto :: "wire_json \<Rightarrow> batch_query_result \<Rightarrow> proto_query_response" where
  "batch_result_to_proto W v =
     (case bs_response v of
        Some resp \<Rightarrow> response_to_proto W resp
      | None \<Rightarrow> \<lparr>gr_results = [], gr_cache_status = cache_status_code Miss, gr_took_ms = bs_took_ms v, gr_generated_at = 0\<rparr>)"

definition batch_response_to_proto :: "wire_json \<Rightarrow> batch_response \<Rightarrow> proto_batch_response" where
  "batch_response_to_proto W r =
     \<lparr>gp_results = map_option (batch_result_to_proto W) \<circ> bp_results r, gp_took_ms = bp_took_ms r,
      gp_success_count = of_nat (bp_success_count r), gp_error_count = of_nat (bp_error_count r), gp_complete = bp_complete r\<rparr>"

record proto_federated_stats =
  gt_local_count :: u32
  gt_remote_count :: u32
  gt_merged_count :: u32
  gt_local_latency_ms :: u64
  gt_remote_latency_ms :: u64
  gt_fallback_reason :: rstr

definition federated_stats_to_proto :: "federated_stats \<Rightarrow> proto_federated_stats" where
  "federated_stats_to_proto s =
     \<lparr>gt_local_count = of_nat (ft_local_count s), gt_remote_count = of_nat (ft_remote_count s),
      gt_merged_count = of_nat (ft_merged_count s), gt_local_latency_ms = ft_local_latency_ms s,
      gt_remote_latency_ms = unwrap_or (ft_remote_latency_ms s) 0, gt_fallback_reason = unwrap_or (ft_fallback_reason s) []\<rparr>"

section \<open>Metadata of a call\<close>

record grpc_metadata =
  mt_x_api_key :: "header_value option"
  mt_authorization :: "header_value option"
  mt_x_request_id :: "header_value option"
  mt_x_context :: "header_value option"

definition metadata_api_key :: "grpc_metadata \<Rightarrow> rstr option" where
  "metadata_api_key md =
     (case mt_x_api_key md of
        Some (Text key) \<Rightarrow> Some key
      | Some Opaque \<Rightarrow> None
      | None \<Rightarrow>
          (case mt_authorization md of
             Some (Text auth) \<Rightarrow> strip_prefix (lit ''Bearer '') auth
           | _ \<Rightarrow> None))"

fun nat_to_hex :: "nat \<Rightarrow> rstr" where
  "nat_to_hex n = (if n < 16 then [hex_digit n] else nat_to_hex (n div 16) @ [hex_digit (n mod 16)])"

declare nat_to_hex.simps [simp del]

definition resolve_request_id :: "system_time \<Rightarrow> rstr \<Rightarrow> grpc_metadata \<Rightarrow> rstr" where
  "resolve_request_id wall requested md =
     (if requested \<noteq> [] then requested
      else case mt_x_request_id md of Some (Text s) \<Rightarrow> s | _ \<Rightarrow> lit ''req-'' @ nat_to_hex (nat wall))"

definition resolve_grpc_context :: "rstr \<Rightarrow> grpc_metadata \<Rightarrow> rstr" where
  "resolve_grpc_context requested md =
     (if requested \<noteq> [] then requested
      else case mt_x_context md of Some (Text s) \<Rightarrow> s | _ \<Rightarrow> lit ''default'')"

datatype grpc_error =
    GrpcUnauthenticated rstr | GrpcInvalidArgument rstr | GrpcPermissionDenied rstr | GrpcUnavailable rstr | GrpcInternal rstr

definition grpc_authenticate :: "agent_registry option \<Rightarrow> grpc_metadata \<Rightarrow> grpc_error + agent_identity option" where
  "grpc_authenticate registry md =
     (case registry of
        Some r \<Rightarrow>
          if \<not> registry_is_empty r
          then (case metadata_api_key md of
                  Some key \<Rightarrow>
                    (case agent_lookup key r of
                       Some e \<Rightarrow> Inr (Some (ae_identity e))
                     | None \<Rightarrow> Inl (GrpcUnauthenticated (lit ''Invalid API key'')))
                | None \<Rightarrow> Inl (GrpcUnauthenticated (lit ''API key required'')))
          else Inr None
      | None \<Rightarrow> Inr None)"

section \<open>Query\<close>

text \<open>The call until the query core answers or a fetch is under way, and what is sent for an answer of the core.\<close>

definition grpc_query_begin ::
  "'p query_env \<Rightarrow> instant \<Rightarrow> clock \<Rightarrow> agent_registry option \<Rightarrow> grpc_metadata \<Rightarrow> proto_query_request \<Rightarrow> 'p app_state \<Rightarrow>
   (grpc_error + phase) \<times> 'p app_state" where
  "grpc_query_begin Q start t registry md p st =
     (case grpc_authenticate registry md of
        Inl e \<Rightarrow> (Inl e, st)
      | Inr agent \<Rightarrow>
          apfst Inr (execute_query_begin Q start t (request_from_proto p) (resolve_grpc_context (gq_context p) md)
            (resolve_request_id (ck_wall t) (gq_request_id p) md) agent
            (case agent of Some a \<Rightarrow> ai_id a | None \<Rightarrow> lit ''grpc'') False st))"

definition grpc_query_reply :: "wire_json \<Rightarrow> query_result \<Rightarrow> grpc_error + proto_query_response" where
  "grpc_query_reply W x =
     (if qx_status x = 200 then Inr (cached_to_proto W (qx_response x))
      else if qx_status x = 400 then Inl (GrpcInvalidArgument (lit ''Request validation failed''))
      else if qx_status x = 403 then Inl (GrpcPermissionDenied (lit ''Context access denied''))
      else if qx_status x = 502 then Inl (GrpcUnavailable (lit ''Upstream request failed''))
      else if qx_status x = 503 then Inl (GrpcUnavailable (lit ''Service unavailable''))
      else Inl (GrpcInternal (lit ''Internal error'')))"

section \<open>Batch\<close>

definition grpc_batch_begin ::
  "'p query_env \<Rightarrow> clock \<Rightarrow> batch_config \<Rightarrow> agent_registry option \<Rightarrow> grpc_metadata \<Rightarrow> proto_batch_request \<Rightarrow> 'p app_state \<Rightarrow>
   (grpc_error + batch_request \<times> rstr \<times> 'p) \<times> 'p app_state" where
  "grpc_batch_begin Q t c registry md p st =
     (case grpc_authenticate registry md of
        Inl e \<Rightarrow> (Inl e, st)
      | Inr _ \<Rightarrow>
          (let rq = batch_from_proto p; cid = resolve_grpc_context (gb_context p) md
           in if batch_validate c rq \<noteq> Inr () then (Inl (GrpcInvalidArgument (lit ''Batch validation failed'')), st)
              else let st1 = ensure_context Q t cid st in (Inr (rq, cid, scope_filter_for cid st1), st1)))"

definition grpc_batch_fetch :: "'p query_env \<Rightarrow> bool \<Rightarrow> clock \<Rightarrow> pending \<Rightarrow> 'p app_state \<Rightarrow> batch_phase \<times> 'p app_state" where
  "grpc_batch_fetch Q has_up t p st =
     (if has_up
      then (case get_or_insert (pd_hash p) (ap_coalescer st) of
              (Leader, co) \<Rightarrow> (BatchLeading p, on_metrics record_upstream_request (st\<lparr>ap_coalescer := co\<rparr>))
            | (Waiter ch, co) \<Rightarrow> (BatchWaiting p ch, on_metrics record_coalesced (st\<lparr>ap_coalescer := co\<rparr>)))
      else let d = elapsed (ck_now t) (pd_start p)
           in case cache_get (qe_env Q) (pd_ctx_query p) (ap_cache st) of
                (Some e, cs) \<Rightarrow>
                  (BatchDone (Inr (answer_from_entry e Hit (as_millis_u64 d))),
                   on_metrics (record_latency d) (st\<lparr>ap_cache := cs\<rparr>))
              | (None, cs) \<Rightarrow> (BatchDone (Inl (lit ''No upstream configured'')), st\<lparr>ap_cache := cs\<rparr>))"

definition grpc_batch_query_begin ::
  "'p query_env \<Rightarrow> bool \<Rightarrow> instant \<Rightarrow> clock \<Rightarrow> query_request \<Rightarrow> rstr \<Rightarrow> 'p app_state \<Rightarrow> batch_phase \<times> 'p app_state" where
  "grpc_batch_query_begin Q has_up start t rq cid st =
     (let p = batch_pending Q start rq cid NotInCache
      in case check_freshness (qe_env Q) t (pd_ctx_query p) (ap_cache st) of
           None \<Rightarrow> (BatchPanicked, st)
         | Some None \<Rightarrow> grpc_batch_fetch Q has_up t p st
         | Some (Some f) \<Rightarrow>
             if f = Fresh \<or> f = Stale
             then (case cache_get (qe_env Q) (pd_ctx_query p) (ap_cache st) of
                     (Some e, cs) \<Rightarrow> batch_hit Q t p e (if f = Fresh then Hit else StaleHit) (st\<lparr>ap_cache := cs\<rparr>)
                   | (None, cs) \<Rightarrow> grpc_batch_fetch Q has_up t p (st\<lparr>ap_cache := cs\<rparr>))
             else grpc_batch_fetch Q has_up t (p\<lparr>pd_miss_reason := MissExpired\<rparr>) st)"

definition grpc_batch_leader_finish ::
  "'p query_env \<Rightarrow> 'p \<Rightarrow> clock \<Rightarrow> pending \<Rightarrow> upstream_error + query_response \<Rightarrow> 'p app_state \<Rightarrow>
   (rstr + query_response) \<times> 'p app_state" where
  "grpc_batch_leader_finish Q flt t p answer st =
     (let d = elapsed (ck_now t) (pd_start p); took = as_millis_u64 d; h = pd_hash p
      in case answer of
           Inr response \<Rightarrow>
             let st1 = on_metrics (record_latency d)
                   (on_contexts (record_miss_for (pd_context_id p)) (on_metrics (record_miss (pd_miss_reason p)) st));
                 resp = response\<lparr>qr_results := qe_apply_filter Q flt (qr_results response), qr_cache_status := Miss,
                                 qr_miss_reason := Some (pd_miss_reason p), qr_took_ms := took\<rparr>;
                 st2 = (if response_validate resp = Inr ()
                        then register_query (qe_env Q) (pd_ctx_query p)
                               (st1\<lparr>ap_cache := cache_insert (qe_env Q) t (pd_ctx_query p) resp (ap_upstream_id st1) (ap_cache st1)\<rparr>)
                        else st1)
             in (Inr resp, record_query Q t (rq_query (pd_request p)) False d (complete_fetch_with h (Inr resp) st2))
         | Inl err \<Rightarrow>
             let st1 = on_metrics (record_upstream_failure \<circ> record_miss UpstreamError) st
             in case cache_get (qe_env Q) (pd_ctx_query p) (ap_cache st1) of
                  (Some e, cs) \<Rightarrow>
                    let resp = answer_from_entry e FrozenHit took
                    in (Inr resp, complete_fetch_with h (Inr resp) (on_metrics (record_latency d) (st1\<lparr>ap_cache := cs\<rparr>)))
                | (None, cs) \<Rightarrow>
                    (Inl (upstream_error_display err),
                     complete_fetch_with h (Inl (Http (upstream_error_display err))) (st1\<lparr>ap_cache := cs\<rparr>)))"

definition grpc_batch_waiter_finish ::
  "'p query_env \<Rightarrow> clock \<Rightarrow> pending \<Rightarrow> received \<Rightarrow> 'p app_state \<Rightarrow> (rstr + query_response) \<times> 'p app_state" where
  "grpc_batch_waiter_finish Q t p msg st =
     (let d = elapsed (ck_now t) (pd_start p); took = as_millis_u64 d
      in case msg of
           Received (Inr resp) \<Rightarrow> (Inr (resp\<lparr>qr_took_ms := took\<rparr>), on_metrics (record_latency d) st)
         | _ \<Rightarrow>
             (case cache_get (qe_env Q) (pd_ctx_query p) (ap_cache st) of
                (Some e, cs) \<Rightarrow>
                  (Inr (answer_from_entry e FrozenHit took), on_metrics (record_latency d) (st\<lparr>ap_cache := cs\<rparr>))
              | (None, cs) \<Rightarrow> (Inl (lit ''Upstream request failed''), st\<lparr>ap_cache := cs\<rparr>)))"

section \<open>Federated queries\<close>

record proto_federated_request =
  gfq_query :: rstr
  gfq_local_results :: "proto_search_result list"
  gfq_top_k :: u32
  gfq_context :: rstr

record proto_federated_response =
  gfr_results :: "proto_search_result list"
  gfr_cache_status :: int
  gfr_took_ms :: u64
  gfr_stats :: proto_federated_stats

datatype grpc_federated_phase =
    GrpcFedDone "grpc_error + proto_federated_response" | GrpcFedAsking "search_result list" query_request

definition grpc_fed_reply ::
  "wire_json \<Rightarrow> federated_search_config \<Rightarrow> search_result list \<Rightarrow> query_response option \<Rightarrow> proto_federated_response" where
  "grpc_fed_reply W c local remote =
     (let (merged, stats) = merge_responses c
            \<lparr>qr_results = local, qr_cache_status = Hit, qr_took_ms = 0, qr_generated_at = None, qr_miss_reason = None\<rparr> remote
      in \<lparr>gfr_results = map (search_result_to_proto W) (qr_results merged),
          gfr_cache_status = cache_status_code (qr_cache_status merged), gfr_took_ms = qr_took_ms merged,
          gfr_stats = federated_stats_to_proto stats\<rparr>)"

definition grpc_federated_begin ::
  "'p query_env \<Rightarrow> wire_json \<Rightarrow> clock \<Rightarrow> federated_search_config \<Rightarrow> agent_registry option \<Rightarrow> grpc_metadata \<Rightarrow>
   proto_federated_request \<Rightarrow> 'p app_state \<Rightarrow> grpc_federated_phase \<times> 'p app_state" where
  "grpc_federated_begin Q W t c registry md p st =
     (case grpc_authenticate registry md of
        Inl e \<Rightarrow> (GrpcFedDone (Inl e), st)
      | Inr _ \<Rightarrow>
          (let cid = resolve_grpc_context (gfq_context p) md; st1 = ensure_context Q t cid st;
               local = map (search_result_from_proto W) (gfq_local_results p)
           in if \<not> fg_enabled c
              then (case cache_get (qe_env Q) (context_query cid (gfq_query p)) (ap_cache st1) of
                      (Some e, cs) \<Rightarrow>
                        (GrpcFedDone (Inr
                           \<lparr>gfr_results = map (search_result_to_proto W) (qr_results (ce_response e)),
                            gfr_cache_status = cache_status_code Hit, gfr_took_ms = 0,
                            gfr_stats = \<lparr>gt_local_count = 0, gt_remote_count = 0, gt_merged_count = 0, gt_local_latency_ms = 0,
                              gt_remote_latency_ms = 0, gt_fallback_reason = []\<rparr>\<rparr>),
                         on_metrics record_hit (st1\<lparr>ap_cache := cs\<rparr>))
                    | (None, cs) \<Rightarrow>
                        (GrpcFedDone (Inl (GrpcUnavailable (lit ''Federated search disabled and no cache''))), st1\<lparr>ap_cache := cs\<rparr>))
              else if should_query_remote c local = LocalSufficient \<or> \<not> (ap_has_pool st1 \<or> ap_has_upstream st1)
              then (GrpcFedDone (Inr (grpc_fed_reply W c local None)), st1)
              else (GrpcFedAsking local
                      \<lparr>rq_query = gfq_query p, rq_top_k = (if gfq_top_k p > 0 then Some (unat (gfq_top_k p)) else None),
                       rq_priority = None, rq_upstream_id = None, rq_upstream_type = None\<rparr>, st1)))"

definition grpc_federated_answered ::
  "wire_json \<Rightarrow> federated_search_config \<Rightarrow> search_result list \<Rightarrow> upstream_error + query_response \<Rightarrow> proto_federated_response" where
  "grpc_federated_answered W c local answer =
     grpc_fed_reply W c local (case answer of Inr resp \<Rightarrow> Some resp | Inl _ \<Rightarrow> None)"

section \<open>Messages carry what they must\<close>

lemma cached_to_proto_eq: "cached_to_proto W r = response_to_proto W (into_query_response r)"
  by (cases r) (simp_all add: response_to_proto_def)

lemma status_code_roundtrip [simp]: "cache_status_from_code (cache_status_code s) = s"
  by (cases s) (simp_all add: cache_status_from_code_def)

definition carried :: "wire_json \<Rightarrow> search_result \<Rightarrow> bool" where
  "carried W r \<longleftrightarrow> sr_upstream_id r \<noteq> Some []
     \<and> (\<forall>m. sr_metadata r = Some m \<longrightarrow> (\<exists>bs. bs \<noteq> [] \<and> wj_to_vec W m = Some bs \<and> wj_from_slice W bs = Some m))"

lemma some_unless_empty_unwrap: "x \<noteq> Some [] \<Longrightarrow> some_unless_empty (unwrap_or x []) = x"
  by (cases x) (simp_all add: some_unless_empty_def unwrap_or_def)

lemma unwrap_or_simps [simp]: "unwrap_or (Some v) d = v" "unwrap_or None d = d"
  by (simp_all add: unwrap_or_def)

lemma search_result_roundtrip: "carried W r \<Longrightarrow> search_result_from_proto W (search_result_to_proto W r) = r"
  by (cases "sr_metadata r")
    (auto simp: carried_def search_result_from_proto_def search_result_to_proto_def some_unless_empty_unwrap)

text \<open>The messages lose nothing that both sides can express: a request whose limit is positive and fits 32 bits and whose
  priority and upstream are not given as empty comes back as it was sent, and so does a response, except for the reason of a miss,
  which the message has no field for.\<close>

theorem grpc_wire_roundtrip:
  assumes "\<forall>k. rq_top_k rq = Some k \<longrightarrow> 0 < k \<and> k < 2 ^ 32" and "rq_priority rq \<noteq> Some 0"
    and "rq_upstream_id rq \<noteq> Some []" and "rq_upstream_type rq \<noteq> Some []"
    and "\<forall>r \<in> set (qr_results resp). carried W r" and "qr_generated_at resp \<noteq> Some 0"
  shows "request_from_proto (request_to_proto rq) = rq
    \<and> response_from_proto W (response_to_proto W resp) = resp\<lparr>qr_miss_reason := None\<rparr>"
proof
  have "unat (of_nat k :: u32) = k \<and> (0 :: u32) < of_nat k" if "rq_top_k rq = Some k" for k
    using assms(1) that by (auto simp: word_less_nat_alt unat_of_nat take_bit_nat_eq_self)
  moreover have "ucast (ucast b :: u32) = b \<and> (0 :: u32) < ucast b" if "rq_priority rq = Some b" for b :: u8
  proof -
    have "b \<noteq> 0" using assms(2) that by simp
    then have "unat b \<noteq> 0" by (simp add: unat_eq_zero)
    moreover have "unat (ucast b :: u32) = unat b"
      using unat_bound [of b] by (simp add: unsigned_ucast_eq take_bit_nat_eq_self)
    ultimately show ?thesis by (simp add: word_less_nat_alt ucast_up_ucast_id is_up)
  qed
  ultimately show "request_from_proto (request_to_proto rq) = rq"
    using assms(3,4)
    by (cases "rq_top_k rq"; cases "rq_priority rq")
      (simp_all add: request_from_proto_def request_to_proto_def some_unless_empty_unwrap)
  have "map (search_result_from_proto W \<circ> search_result_to_proto W) (qr_results resp) = qr_results resp"
    using assms(5) by (simp add: map_idI search_result_roundtrip)
  then show "response_from_proto W (response_to_proto W resp) = resp\<lparr>qr_miss_reason := None\<rparr>"
    using assms(6)
    by (cases "qr_generated_at resp")
      (simp_all add: response_from_proto_def response_to_proto_def word_gt_0)
qed

section \<open>Who may query\<close>

lemma denied_by_core:
  assumes "execute_query_begin Q start t rq cid rid (Some a) src skip st = (ph, st')" and "\<not> can_access_context cid a"
  shows "\<exists>x. ph = Finished x \<and> qx_status x \<noteq> 200"
    and "ap_cache st' = ap_cache st" and "ap_coalescer st' = ap_coalescer st" and "ap_circuit st' = ap_circuit st"
  using assms
  by (auto simp: execute_query_begin_def ensure_context_def on_tracker_def on_metrics_def on_contexts_def Let_def result_with_status_def
      split: if_splits)


text \<open>A batch over gRPC is not held back by the permissions of its agent: where the HTTP endpoint refuses an agent that may not
  access the context, the gRPC endpoint runs the queries in that context.\<close>

theorem grpc_batch_ignores_permissions:
  assumes "registry = Some r" and "metadata_api_key md = Some key" and "agent_lookup key r = Some e"
    and "\<not> can_access_context (gb_context p) (ae_identity e)" and "gb_context p \<noteq> []"
    and "batch_validate c (batch_from_proto p) = Inr ()"
  shows "fst (handle_batch_begin Q t c (batch_from_proto p) (Some (gb_context p)) (Some (ae_identity e)) st) = Inl 403
    \<and> (\<exists>flt. fst (grpc_batch_begin Q t c registry md p st) = Inr (batch_from_proto p, gb_context p, flt))"
proof -
  have "\<not> registry_is_empty r" using assms(3) by (auto simp: registry_is_empty_def agent_lookup_def split: option.splits)
  then show ?thesis using assms
    by (simp add: handle_batch_begin_def resolve_request_context_def grpc_batch_begin_def grpc_authenticate_def
        resolve_grpc_context_def Let_def)
qed

section \<open>Examples\<close>

definition demo_registry :: agent_registry where
  "demo_registry = agent_register 0 \<lparr>ag_id = lit ''a'', ag_api_key = lit ''k'', ag_default_context = None,
     ag_allowed_contexts = [lit ''docs''], ag_priority_class = None, ag_rate_limit_rps = None, ag_enabled = True\<rparr> registry_new"

definition demo_metadata :: grpc_metadata where
  "demo_metadata = \<lparr>mt_x_api_key = Some (Text (lit ''k'')), mt_authorization = None, mt_x_request_id = None, mt_x_context = None\<rparr>"

lemma demo_registry_facts:
  "\<not> registry_is_empty demo_registry" "metadata_api_key demo_metadata = Some (lit ''k'')"
  "\<exists>e. agent_lookup (lit ''k'') demo_registry = Some e \<and> ai_allowed_contexts (ae_identity e) = [lit ''docs'']"
  by (auto simp: demo_registry_def agent_register_def registry_new_def registry_is_empty_def metadata_api_key_def
      demo_metadata_def agent_lookup_def agent_entry_of_def)

theorem grpc_wire_roundtrip_witness:
  "let W = \<lparr>wj_to_vec = (\<lambda>_. Some [1]), wj_from_slice = (\<lambda>_. Some JNull)\<rparr>;
       rq = \<lparr>rq_query = lit ''a'', rq_top_k = Some 5, rq_priority = Some 2, rq_upstream_id = None, rq_upstream_type = Some (lit ''qdrant'')\<rparr>;
       r = \<lparr>sr_id = lit ''1'', sr_score = 0, sr_content = lit ''x'', sr_metadata = Some JNull, sr_upstream_id = None\<rparr>;
       resp = (response_of [r])\<lparr>qr_generated_at := Some 7\<rparr>
   in request_from_proto (request_to_proto rq) = rq
      \<and> qr_results (response_from_proto W (response_to_proto W resp)) = [r]"
  unfolding Let_def
  using grpc_wire_roundtrip [of "\<lparr>rq_query = lit ''a'', rq_top_k = Some 5, rq_priority = Some 2, rq_upstream_id = None,
       rq_upstream_type = Some (lit ''qdrant'')\<rparr>"
     "(response_of [\<lparr>sr_id = lit ''1'', sr_score = 0, sr_content = lit ''x'', sr_metadata = Some JNull, sr_upstream_id = None\<rparr>])
        \<lparr>qr_generated_at := Some 7\<rparr>"
     "\<lparr>wj_to_vec = (\<lambda>_. Some [1]), wj_from_slice = (\<lambda>_. Some JNull)\<rparr>"]
  by (simp add: carried_def response_of_def lit_def)


theorem grpc_batch_ignores_permissions_witness:
  "\<exists>flt. fst (grpc_batch_begin demo_env demo_clock batch_config_default (Some demo_registry) demo_metadata
       \<lparr>gb_queries = [lit ''a''], gb_fail_fast = False, gb_context = lit ''secret''\<rparr> demo_app)
     = Inr (batch_from_proto \<lparr>gb_queries = [lit ''a''], gb_fail_fast = False, gb_context = lit ''secret''\<rparr>, lit ''secret'', flt)"
proof -
  let ?p = "\<lparr>gb_queries = [lit ''a''], gb_fail_fast = False, gb_context = lit ''secret''\<rparr>"
  obtain e where e: "agent_lookup (lit ''k'') demo_registry = Some e" "ai_allowed_contexts (ae_identity e) = [lit ''docs'']"
    using demo_registry_facts(3) by blast
  have "\<not> can_access_context (gb_context ?p) (ae_identity e)" "gb_context ?p \<noteq> []"
    "batch_validate batch_config_default (batch_from_proto ?p) = Inr ()"
    using e(2) by (simp_all add: can_access_context_def lit_def batch_validate_def batch_from_proto_def batch_config_default_def)
  from grpc_batch_ignores_permissions [OF refl demo_registry_facts(2) e(1) this, of demo_env demo_clock demo_app] show ?thesis
    by auto
qed

end
