(* ===== verification/AdminOps.thy ===== *)
theory AdminOps
  imports Grpc Distill
begin

text \<open>
  The administrative endpoints: over HTTP (\<open>src/src/proxy/server/admin.rs\<close>, \<open>cache.rs\<close>, \<open>context.rs\<close>) and over gRPC
  (\<open>src/src/proxy/grpc/admin.rs\<close>, \<open>context.rs\<close>, and the export of the cache in \<open>observability.rs\<close>). Each is a change of the
  shared state and the content of its answer; the texts of the answers are left out. The registry of agents is the one
  the handler loaded.
\<close>

section \<open>Pausing, counters and the whole cache\<close>

definition active_count :: "client_tracker \<Rightarrow> nat" where
  "active_count ct = card (dom (ct_active ct))"

definition admin_pause :: "'p app_state \<Rightarrow> nat \<times> 'p app_state" where
  "admin_pause st = (active_count (ap_tracker st), st\<lparr>ap_paused := True\<rparr>)"

definition admin_resume :: "'p app_state \<Rightarrow> 'p app_state" where
  "admin_resume st = st\<lparr>ap_paused := False\<rparr>"

definition admin_metrics_reset :: "'p app_state \<Rightarrow> 'p app_state" where
  "admin_metrics_reset st = on_contexts reset_all_stats (on_metrics metrics_reset st)"

definition admin_cache_clear :: "clock \<Rightarrow> 'p app_state \<Rightarrow> nat \<times> 'p app_state" where
  "admin_cache_clear t st = (length (cs_entries (ap_cache st)), st\<lparr>ap_cache := cache_clear t (ap_cache st)\<rparr>)"

definition admin_cache_integrity :: "env \<Rightarrow> 'p app_state \<Rightarrow> integrity_report \<times> 'p app_state" where
  "admin_cache_integrity E st =
     (let report = verify_integrity E (ap_cache st)
      in (report, on_metrics (record_integrity_failure ^^ ir_invalid report) st))"

section \<open>Eviction on request\<close>

record evict_request =
  ev_upstream_id :: "rstr option"
  ev_context_id :: "rstr option"
  ev_query_text_prefix :: "rstr option"
  ev_older_than_secs :: "nat option"
  ev_max_entries :: "nat option"
  ev_expired_only :: bool

definition evict_upstream_at_most :: "env \<Rightarrow> clock \<Rightarrow> rstr \<Rightarrow> nat option \<Rightarrow> cache_store \<Rightarrow> nat \<times> cache_store" where
  "evict_upstream_at_most E t u limit cs =
     (let count = count_for_upstream E u cs
      in case limit of
           Some m \<Rightarrow> enforce_per_upstream_limit E t u (count - m) cs
         | None \<Rightarrow> evict_from_upstream E t u count cs)"

definition handle_cache_evict :: "env \<Rightarrow> clock \<Rightarrow> evict_request \<Rightarrow> cache_store \<Rightarrow> nat \<times> cache_store" where
  "handle_cache_evict E t rq cs =
     (if ev_expired_only rq then evict_truly_expired E t cs
      else case ev_upstream_id rq of
        Some u \<Rightarrow> evict_upstream_at_most E t u (ev_max_entries rq) cs
      | None \<Rightarrow>
          if ev_context_id rq \<noteq> None \<or> ev_query_text_prefix rq \<noteq> None \<or> ev_older_than_secs rq \<noteq> None
          then evict_filter E t (ev_context_id rq) (ev_query_text_prefix rq) (ev_older_than_secs rq) (ev_max_entries rq) cs
          else evict_truly_expired E t cs)"

definition grpc_cache_evict :: "env \<Rightarrow> clock \<Rightarrow> rstr \<Rightarrow> u32 \<Rightarrow> bool \<Rightarrow> cache_store \<Rightarrow> nat \<times> cache_store" where
  "grpc_cache_evict E t u limit expired_only cs =
     (if expired_only then evict_truly_expired E t cs
      else if u \<noteq> [] then evict_upstream_at_most E t u (if limit > 0 then Some (unat limit) else None) cs
      else evict_truly_expired E t cs)"

section \<open>Warm-up\<close>

text \<open>One query of a warm-up: the clocks of its check and of its answer, the answer that the upstream gives if it is asked, and what
  other tasks do to the state in between. The entry is labelled with a context: the current one over HTTP, \<open>default\<close>
  over gRPC. The counters are those of HTTP; the 32-bit counters of gRPC agree with them below their maximum.\<close>

record 'p warm_query =
  wq_query :: rstr
  wq_checked :: clock
  wq_answered :: clock
  wq_answer :: "upstream_error + query_response"
  wq_meanwhile :: "'p app_state \<Rightarrow> 'p app_state"

definition warm_store ::
  "'p query_env \<Rightarrow> rstr \<Rightarrow> rstr \<Rightarrow> clock \<Rightarrow> rstr \<Rightarrow> upstream_error + query_response \<Rightarrow> 'p app_state \<Rightarrow> bool \<times> 'p app_state" where
  "warm_store Q cid label t query answer st =
     (case answer of
        Inl _ \<Rightarrow> (False, st)
      | Inr response \<Rightarrow>
          (let resp = response\<lparr>qr_results := qe_apply_filter Q (scope_filter_for cid st) (qr_results response)\<rparr>
           in if response_validate resp = Inr ()
              then (True, on_metrics record_warmup_entry
                      (st\<lparr>ap_cache := insert_with_context (qe_env Q) t (context_query cid query) resp (ap_upstream_id st) label
                             (ap_cache st)\<rparr>))
              else (False, st)))"

fun warm_loop ::
  "'p query_env \<Rightarrow> rstr \<Rightarrow> rstr \<Rightarrow> 'p warm_query list \<Rightarrow> nat \<Rightarrow> nat \<Rightarrow> 'p app_state \<Rightarrow> (nat \<times> nat \<times> 'p app_state) option" where
  "warm_loop Q cid label [] warmed failed st = Some (warmed, failed, st)"
| "warm_loop Q cid label (q # qs) warmed failed st =
     (case check_freshness (qe_env Q) (wq_checked q) (context_query cid (wq_query q)) (ap_cache st) of
        None \<Rightarrow> None
      | Some f \<Rightarrow>
          if f = Some Fresh then warm_loop Q cid label qs (usize_add warmed 1) failed st
          else (case warm_store Q cid label (wq_answered q) (wq_query q) (wq_answer q) (wq_meanwhile q st) of
                  (True, st1) \<Rightarrow> warm_loop Q cid label qs (usize_add warmed 1) failed st1
                | (False, st1) \<Rightarrow> warm_loop Q cid label qs warmed (usize_add failed 1) st1))"

text \<open>The status, the counts and the state.\<close>

definition handle_cache_warmup ::
  "'p query_env \<Rightarrow> bool \<Rightarrow> 'p warm_query list \<Rightarrow> 'p app_state \<Rightarrow> (u16 \<times> nat \<times> nat \<times> 'p app_state) option" where
  "handle_cache_warmup Q fetch qs st =
     (let st1 = on_metrics record_warmup_request st; cid = mg_current (ap_contexts st1)
      in if \<not> fetch then Some (200, 0, 0, st1)
         else if \<not> (ap_has_pool st1 \<or> ap_has_upstream st1) then Some (503, 0, length qs, st1)
         else map_option (\<lambda>(warmed, failed, st2). (200, warmed, failed, st2)) (warm_loop Q cid cid qs 0 0 st1))"

definition grpc_cache_warmup ::
  "'p query_env \<Rightarrow> bool \<Rightarrow> 'p warm_query list \<Rightarrow> 'p app_state \<Rightarrow> (nat \<times> nat \<times> 'p app_state) option" where
  "grpc_cache_warmup Q fetch qs st =
     (let st1 = on_metrics record_warmup_request st; cid = mg_current (ap_contexts st1)
      in if \<not> fetch then Some (0, 0, st1)
         else if \<not> (ap_has_pool st1 \<or> ap_has_upstream st1) then Some (0, length qs, st1)
         else warm_loop Q cid (lit ''default'') qs 0 0 st1)"

section \<open>Agents and contexts\<close>

record create_agent_request =
  cq_id :: rstr
  cq_api_key :: rstr
  cq_allowed_contexts :: "rstr list"
  cq_priority_class :: "u32 option"
  cq_rate_limit_rps :: "u32 option"

datatype admin_error = NoRegistry | AgentNotFound

definition created_agent :: "create_agent_request \<Rightarrow> agent_config" where
  "created_agent rq =
     \<lparr>ag_id = cq_id rq, ag_api_key = cq_api_key rq, ag_default_context = None, ag_allowed_contexts = cq_allowed_contexts rq,
      ag_priority_class = cq_priority_class rq, ag_rate_limit_rps = cq_rate_limit_rps rq, ag_enabled = True\<rparr>"

definition admin_agents_create ::
  "instant \<Rightarrow> create_agent_request \<Rightarrow> agent_registry option \<Rightarrow> (admin_error + unit) \<times> agent_registry option" where
  "admin_agents_create now rq registry =
     (case registry of
        None \<Rightarrow> (Inl NoRegistry, None)
      | Some r \<Rightarrow> (Inr (), Some (agent_register now (created_agent rq) r)))"

text \<open>Over gRPC a number that is zero counts as absent.\<close>

definition grpc_create_agent ::
  "instant \<Rightarrow> rstr \<Rightarrow> rstr \<Rightarrow> rstr list \<Rightarrow> u32 \<Rightarrow> u32 \<Rightarrow> agent_registry option \<Rightarrow> (admin_error + unit) \<times> agent_registry option" where
  "grpc_create_agent now agent key allowed class rps registry =
     admin_agents_create now \<lparr>cq_id = agent, cq_api_key = key, cq_allowed_contexts = allowed,
       cq_priority_class = (if class > 0 then Some class else None), cq_rate_limit_rps = (if rps > 0 then Some rps else None)\<rparr> registry"

definition registry_change ::
  "(agent_registry \<Rightarrow> bool \<times> agent_registry) \<Rightarrow> agent_registry option \<Rightarrow> (admin_error + unit) \<times> agent_registry option" where
  "registry_change f registry =
     (case registry of
        None \<Rightarrow> (Inl NoRegistry, None)
      | Some r \<Rightarrow> (case f r of (True, r1) \<Rightarrow> (Inr (), Some r1) | (False, r1) \<Rightarrow> (Inl AgentNotFound, Some r1)))"

definition admin_agents_delete :: "rstr \<Rightarrow> agent_registry option \<Rightarrow> (admin_error + unit) \<times> agent_registry option" where
  "admin_agents_delete agent = registry_change (remove_by_id agent)"

definition admin_agents_rotate_key :: "rstr \<Rightarrow> rstr \<Rightarrow> agent_registry option \<Rightarrow> (admin_error + unit) \<times> agent_registry option" where
  "admin_agents_rotate_key agent new_key = registry_change (rotate_key agent new_key)"

definition context_current :: "'p context_manager \<Rightarrow> rstr" where
  "context_current mg = mg_current mg"

definition get_current :: "'p context_manager \<Rightarrow> context_metadata option" where
  "get_current mg = get_metadata (mg_current mg) mg"

text \<open>The current context before and after, or the error.\<close>

definition handle_context_switch ::
  "'p query_env \<Rightarrow> clock \<Rightarrow> rstr \<Rightarrow> 'p app_state \<Rightarrow> (context_error + rstr \<times> rstr) \<times> 'p app_state" where
  "handle_context_switch Q t cid st =
     (let previous = context_current (ap_contexts st)
      in case context_switch (qe_ctx_order Q) (ck_now t) (unix_secs (ck_wall t)) cid (ap_contexts st) of
           (Inr _, mg) \<Rightarrow> (Inr (previous, context_current mg), st\<lparr>ap_contexts := mg\<rparr>)
         | (Inl e, mg) \<Rightarrow> (Inl e, st\<lparr>ap_contexts := mg\<rparr>))"

definition handle_context_create ::
  "clock \<Rightarrow> rstr \<Rightarrow> rstr \<Rightarrow> rstr \<Rightarrow> 'p app_state \<Rightarrow> (context_error + context_metadata option) \<times> 'p app_state" where
  "handle_context_create t cid url coll st =
     (case context_create (ck_now t) (unix_secs (ck_wall t)) cid url coll (ap_contexts st) of
        (Inr _, mg) \<Rightarrow> (Inr (get_metadata cid mg), st\<lparr>ap_contexts := mg\<rparr>)
      | (Inl e, mg) \<Rightarrow> (Inl e, st\<lparr>ap_contexts := mg\<rparr>))"

section \<open>Export of the cache\<close>

record distill_request =
  dr_context :: rstr
  dr_include_stale :: bool
  dr_limit :: u32

fun retain :: "('a \<Rightarrow> bool option) \<Rightarrow> 'a list \<Rightarrow> 'a list option" where
  "retain f [] = Some []"
| "retain f (x # xs) =
     (case f x of
        None \<Rightarrow> None
      | Some keep \<Rightarrow> map_option (\<lambda>ys. if keep then x # ys else ys) (retain f xs))"

definition distill_lives :: "clock \<Rightarrow> bool \<Rightarrow> cache_store \<Rightarrow> distill_snapshot \<Rightarrow> bool option" where
  "distill_lives t include_stale cs e =
     (let age = nat (ck_wall t - dss_cached_at_wall e)
      in if age > cs_max_frozen_duration cs then Some False
         else if include_stale then Some True
         else map_option (\<lambda>ttl. age \<le> ttl) (jittered_ttl cs (cs_fresh_duration cs) (dss_hash e)))"

definition distill_entry_of :: "distill_snapshot \<Rightarrow> distill_entry" where
  "distill_entry_of e =
     \<lparr>de_query = dss_query_text e, de_context_id = dss_context_id e, de_upstream_id = dss_upstream_id e,
      de_cached_at_ms = of_nat (nat (dss_cached_at_wall e) div nanos_per_milli), de_extended_count = dss_extended_count e,
      de_response_json = dss_response_json e, de_hash_hex = query_hash_hex (dss_hash e), de_embedding = []\<rparr>"

definition distill_selection :: "env \<Rightarrow> clock \<Rightarrow> distill_request \<Rightarrow> cache_store \<Rightarrow> distill_snapshot list option" where
  "distill_selection E t rq cs =
     (let entries = snapshot_entries_rich E cs;
          here = (if dr_context rq = [] then entries else filter (\<lambda>e. dss_context_id e = dr_context rq) entries)
      in map_option (\<lambda>live.
           let sorted = sort_key dss_cached_at_wall live
           in if dr_limit rq > 0 \<and> length sorted > unat (dr_limit rq) then take (unat (dr_limit rq)) sorted else sorted)
         (retain (distill_lives t (dr_include_stale rq) cs) here))"

definition get_cache_distill :: "env \<Rightarrow> clock \<Rightarrow> distill_request \<Rightarrow> cache_store \<Rightarrow> distill_entry list option" where
  "get_cache_distill E t rq cs = map_option (map distill_entry_of) (distill_selection E t rq cs)"

section \<open>A paused proxy\<close>


section \<open>Eviction removes the oldest\<close>

lemma evict_from_upstream_exact:
  fixes t :: clock and u :: rstr and n :: nat
  assumes "store_ok E N cs" and "mset (iter_order E (cs_entries cs)) = mset (cs_entries cs)"
  defines "gone \<equiv> set (map fst (take n (oldest_of_upstream E t u cs)))"
  shows "fst (evict_from_upstream E t u n cs) = min n (card (upstream_keys u cs))"
    and "view (snd (evict_from_upstream E t u n cs)) = (\<lambda>h. if h \<in> gone then None else view cs h)"
    and "gone \<subseteq> upstream_keys u cs" and "card gone = min n (card (upstream_keys u cs))"
    and "h \<in> gone \<Longrightarrow> h' \<in> upstream_keys u cs - gone \<Longrightarrow> view cs h = Some e \<Longrightarrow> view cs h' = Some e' \<Longrightarrow>
      elapsed (ck_now t) (ce_cached_at e') \<le> elapsed (ck_now t) (ce_cached_at e)"
proof -
  let ?xs = "filter (\<lambda>(_, e). ce_upstream_id e = u) (iter_entries E cs)" and ?old = "oldest_of_upstream E t u cs"
  let ?hs = "map fst (take n ?old)"
  have dist: "distinct (map fst (cs_entries cs))" using assms(1) by (simp add: store_ok_def cache_inv_def entries_ok_def)
  note ul = upstream_list [OF assms(2) dist, of u]
  have mo: "mset (map fst ?old) = mset (map fst ?xs)"
  proof -
    have "mset ?old = mset (map (\<lambda>(h, e). (h, elapsed (ck_now t) (ce_cached_at e))) ?xs)"
      by (simp add: oldest_of_upstream_def)
    then have "mset (map fst ?old) = mset (map fst (map (\<lambda>(h, e). (h, elapsed (ck_now t) (ce_cached_at e))) ?xs))"
      by (simp only: mset_map)
    then show ?thesis by (simp add: comp_def case_prod_unfold)
  qed
  have do: "distinct (map fst ?old)" using ul(2) mo mset_eq_imp_distinct_iff by blast
  have so: "set (map fst ?old) = upstream_keys u cs" using ul(1) mo mset_eq_setD by blast
  have dh: "distinct ?hs" using do by (simp add: take_map [symmetric])
  show sub: "gone \<subseteq> upstream_keys u cs" unfolding gone_def so [symmetric] by (auto dest: in_set_takeD)
  have len: "length ?old = card (upstream_keys u cs)" using distinct_card [OF do] so by simp
  have "card gone = length ?hs" unfolding gone_def by (rule distinct_card [OF dh])
  then show cg: "card gone = min n (card (upstream_keys u cs))" by (simp add: len min.commute)
  obtain es c where ra: "remove_all E ?hs cs = (es, c)" by fastforce
  have "set ?hs \<subseteq> dom (view cs)" using sub by (auto simp: gone_def upstream_keys_def)
  then have le: "length es = length ?hs" using remove_all_length [OF dh, of cs E] ra by simp
  show "fst (evict_from_upstream E t u n cs) = min n (card (upstream_keys u cs))"
    using le by (simp add: evict_from_upstream_def Let_def ra len min.commute)
  have "view c = (\<lambda>h. if h \<in> gone then None else view cs h)"
    using remove_all_view [of E ?hs cs] ra by (simp add: gone_def)
  then show "view (snd (evict_from_upstream E t u n cs)) = (\<lambda>h. if h \<in> gone then None else view cs h)"
    by (auto simp: evict_from_upstream_def Let_def ra gone_def)
  have m: "map_of (iter_entries E cs) = map_of (cs_entries cs)" and di: "distinct (map fst (iter_entries E cs))"
    using mset_eq_map_of_eq [OF assms(2) [symmetric] dist] assms(2) dist
    by (simp_all add: iter_entries_def) (metis mset_eq_imp_distinct_iff mset_map)
  have age: "elapsed (ck_now t) (ce_cached_at e) = snd x" if xo: "x \<in> set ?old" and xe: "view cs (fst x) = Some e" for x e
  proof -
    obtain e0 where "(fst x, e0) \<in> set (iter_entries E cs)" "snd x = elapsed (ck_now t) (ce_cached_at e0)"
      using xo by (auto simp: oldest_of_upstream_def)
    moreover from this(1) have "map_of (cs_entries cs) (fst x) = Some e0" using m di by (metis map_of_eq_Some_iff)
    ultimately show ?thesis using xe by (auto simp: view_def)
  qed
  have srt: "sorted (map (\<lambda>(_, a). - int a) (take n ?old @ drop n ?old))" by (simp add: oldest_of_upstream_def)
  assume h: "h \<in> gone" "h' \<in> upstream_keys u cs - gone" and v: "view cs h = Some e" "view cs h' = Some e'"
  obtain x where x: "x \<in> set (take n ?old)" "fst x = h" using h(1) by (auto simp: gone_def)
  have "h' \<in> set (map fst ?old)" unfolding so using h(2) by simp
  then obtain y where y: "y \<in> set ?old" "fst y = h'" by auto
  moreover have "y \<notin> set (take n ?old)" using h(2) y(2) by (auto simp: gone_def)
  ultimately have "y \<in> set (drop n ?old)" by (metis UnE append_take_drop_id set_append)
  then have "(case x of (_, a) \<Rightarrow> - int a) \<le> (case y of (_, a) \<Rightarrow> - int a)"
    using srt x(1) unfolding map_append sorted_append by auto
  then have "snd y \<le> snd x" by (simp add: case_prod_unfold)
  then show "elapsed (ck_now t) (ce_cached_at e') \<le> elapsed (ck_now t) (ce_cached_at e)"
    using age [OF in_set_takeD [OF x(1)], unfolded x(2), OF v(1)] age [OF y(1), unfolded y(2), OF v(2)] by simp
qed

text \<open>Evicting from one upstream removes exactly its oldest entries, as many as asked for or all of them, and reports how many: the
  entries of other upstreams stay, and none that stays is older than one that was removed.\<close>

theorem evict_upstream_oldest:
  assumes "store_ok E N cs" and "mset (iter_order E (cs_entries cs)) = mset (cs_entries cs)"
    and "evict_upstream_at_most E t u limit cs = (n, cs')"
  shows "n = (case limit of Some m \<Rightarrow> min m (card (upstream_keys u cs)) | None \<Rightarrow> card (upstream_keys u cs))
    \<and> (\<exists>gone. gone \<subseteq> upstream_keys u cs \<and> card gone = n \<and> view cs' = (\<lambda>h. if h \<in> gone then None else view cs h)
         \<and> (\<forall>h \<in> gone. \<forall>h' \<in> upstream_keys u cs - gone. \<forall>e e'. view cs h = Some e \<longrightarrow> view cs h' = Some e' \<longrightarrow>
              elapsed (ck_now t) (ce_cached_at e') \<le> elapsed (ck_now t) (ce_cached_at e)))"
proof -
  let ?k = "card (upstream_keys u cs)"
  define j where "j = (case limit of Some m \<Rightarrow> min m ?k | None \<Rightarrow> ?k)"
  have count: "count_for_upstream E u cs = ?k"
    using count_for_upstream_card [OF assms(2)] assms(1) by (simp add: store_ok_def cache_inv_def entries_ok_def)
  have "evict_upstream_at_most E t u limit cs = evict_from_upstream E t u j cs"
    by (auto simp: evict_upstream_at_most_def enforce_per_upstream_limit_def count j_def Let_def min_def
        evict_from_upstream_def split: option.splits)
  then have ev: "evict_from_upstream E t u j cs = (n, cs')" using assms(3) by simp
  have j: "j \<le> ?k" by (simp add: j_def split: option.splits)
  note x = evict_from_upstream_exact [OF assms(1,2), where t = t and u = u and n = j, unfolded ev]
  show ?thesis using x(1-4) j x(5) by (intro conjI exI [of _ "set (map fst (take j (oldest_of_upstream E t u cs)))"])
      (auto simp: j_def)
qed

section \<open>Warm-up accounts for every query\<close>

lemma warm_store_keeps:
  "warm_store Q cid label t query answer st = (ok, st') \<Longrightarrow> store_ok (qe_env Q) N (ap_cache st) \<Longrightarrow> store_ok (qe_env Q) N (ap_cache st')"
  by (auto simp: warm_store_def Let_def insert_with_context_def sok.insert_impl_P split: sum.splits if_splits)

lemma warm_loop_accounts:
  assumes "warm_loop Q cid label qs warmed failed st = Some (w, f, st')"
    and "warmed + failed + length qs \<le> usize_max" and "store_ok (qe_env Q) N (ap_cache st)"
    and "\<forall>q \<in> set qs. \<forall>s. store_ok (qe_env Q) N (ap_cache s) \<longrightarrow> store_ok (qe_env Q) N (ap_cache (wq_meanwhile q s))"
  shows "w + f = warmed + failed + length qs \<and> store_ok (qe_env Q) N (ap_cache st')"
  using assms
proof (induction qs arbitrary: warmed failed st)
  case (Cons q qs)
  have one: "usize_add n (Suc 0) = Suc n" if "n < usize_max" for n using that by (simp add: usize_add_def)
  obtain ok st1 where ws: "warm_store Q cid label (wq_answered q) (wq_query q) (wq_answer q) (wq_meanwhile q st) = (ok, st1)"
    by fastforce
  have st1: "store_ok (qe_env Q) N (ap_cache st1)" using warm_store_keeps [OF ws] Cons.prems(3,4) by simp
  have rest: "\<forall>q \<in> set qs. \<forall>s. store_ok (qe_env Q) N (ap_cache s) \<longrightarrow> store_ok (qe_env Q) N (ap_cache (wq_meanwhile q s))"
    using Cons.prems(4) by simp
  obtain x where x: "check_freshness (qe_env Q) (wq_checked q) (context_query cid (wq_query q)) (ap_cache st) = Some x"
    using Cons.prems(1) by (auto split: option.splits)
  show ?case
  proof (cases "x = Some Fresh")
    case True
    then show ?thesis using Cons.prems(1,2) x Cons.IH [OF _ _ Cons.prems(3) rest] by (simp add: one)
  next
    case False
    then show ?thesis using Cons.prems(1,2) x ws Cons.IH [OF _ _ st1 rest] by (cases ok) (simp_all add: one)
  qed
qed simp

text \<open>A warm-up accounts for each of its queries, as warmed or as failed, and keeps the invariant of the cache whatever other tasks
  do meanwhile.\<close>

theorem warmup_accounts:
  assumes "handle_cache_warmup Q True qs st = Some (status, w, f, st')"
    and "length qs \<le> usize_max" and "store_ok (qe_env Q) N (ap_cache st)"
    and "\<forall>q \<in> set qs. \<forall>s. store_ok (qe_env Q) N (ap_cache s) \<longrightarrow> store_ok (qe_env Q) N (ap_cache (wq_meanwhile q s))"
  shows "w + f = length qs \<and> store_ok (qe_env Q) N (ap_cache st')"
  using assms(1-3) warm_loop_accounts [OF _ _ _ assms(4), where warmed = 0 and failed = 0]
  by (auto simp: handle_cache_warmup_def Let_def split: if_splits)

lemma scope_filter_metrics: "scope_filter_for cid (st\<lparr>ap_metrics := m\<rparr>) = scope_filter_for cid st"
  by (cases "policy_for cid (ap_contexts st)") (simp_all add: scope_filter_for_def)

text \<open>C14. Warming a query up makes the next request for it a hit. Suppose the query was not fresh when it was checked, the upstream answered
  with a valid response, and in the state that other tasks have left by then the cache has room for the entry within its limits (queues, memory,
  entries of the upstream), with a jitter of at most 100 percent and windows of at most \<open>2\<^sup>5\<^sup>0\<close> seconds. Then a valid request in the context
  of the warm-up, by an agent that may access it, while the proxy is not paused and within the fresh window, is served from the
  cache with the results that the upstream gave, filtered by the scope of the context.\<close>

theorem warmup_serves:
  assumes "handle_cache_warmup Q True [q] st = Some (status, 1, 0, st')" and "cid = mg_current (ap_contexts st)"
    and "wq_query q = rq_query rq" and "wq_answer q = Inr resp" and "st1 = wq_meanwhile q (on_metrics record_warmup_request st)"
    and "check_freshness (qe_env Q) (wq_checked q) (context_query cid (rq_query rq)) (ap_cache st) \<noteq> Some (Some Fresh)"
    and "resp' = resp\<lparr>qr_results := qe_apply_filter Q (scope_filter_for cid st1) (qr_results resp)\<rparr>"
    and "room_for (qe_env Q) (hash_query (qe_env Q) (context_query cid (rq_query rq)))
      (fresh_entry (qe_env Q) (wq_answered q) resp' (ap_upstream_id st1) (Some (context_query cid (rq_query rq))) cid) (ap_cache st1)"
    and "fl_within 1 (cs_ttl_jitter_percent (ap_cache st1))"
    and "cs_fresh_duration (ap_cache st1) \<le> from_secs (2 ^ 50)" and "cs_stale_duration (ap_cache st1) \<le> from_secs (2 ^ 50)"
    and "elapsed (ck_now t) (ck_now (wq_answered q)) < cs_fresh_duration (ap_cache st1)"
    and "\<not> ap_paused st1" and "request_validate rq = Inr ()" and "\<forall>a. agent = Some a \<longrightarrow> can_access_context cid a"
  shows "\<exists>e took st''. execute_query_begin Q start t rq cid rid agent src False st' = (Finished (result_ok (Cached e Hit took)), st'')
    \<and> qr_results (ce_response e) = qe_apply_filter Q (scope_filter_for cid st1) (qr_results resp)"
proof -
  have "warm_store Q cid cid (wq_answered q) (rq_query rq) (Inr resp) st1 = (True, st')"
    using assms(1,3-6)
    by (auto simp: handle_cache_warmup_def Let_def assms(2) on_metrics_def usize_add_def split: if_splits option.splits prod.splits bool.splits)
  then have "ap_cache st' = insert_impl (qe_env Q) (wq_answered q) (context_query cid (rq_query rq)) resp' (ap_upstream_id st1) cid (ap_cache st1)"
    "\<not> ap_paused st'"
    using assms(13)
    by (auto simp: warm_store_def Let_def insert_with_context_def on_metrics_def assms(7) split: if_splits)
  from inserted_hits [OF assms(8) this(1) assms(9-12) this(2) assms(14,15)] show ?thesis by (fastforce simp: assms(7))
qed

section \<open>What the export contains\<close>

lemma retain_filter: "retain f xs = Some ys \<Longrightarrow> ys = filter (\<lambda>x. f x = Some True) xs"
  by (induction xs arbitrary: ys) (auto split: option.splits if_splits)

text \<open>The export of the cache lists entries by the time they were stored, oldest first. They are entries of the requested context whose
  age is within the frozen limit and, unless stale ones are asked for, within the fresh window of their hash; at most as many as the
  limit allows. An entry that is left out although it qualifies is not older than any that is listed, and none is left out when
  there is no limit.\<close>

theorem distill_lists_oldest:
  assumes "distill_selection E t rq cs = Some out"
  defines "eligible \<equiv> (\<lambda>e. (dr_context rq = [] \<or> dss_context_id e = dr_context rq) \<and> distill_lives t (dr_include_stale rq) cs e = Some True)"
  shows "sorted (map dss_cached_at_wall out)
    \<and> set out \<subseteq> {e \<in> set (snapshot_entries_rich E cs). eligible e}
    \<and> (dr_limit rq > 0 \<longrightarrow> length out \<le> unat (dr_limit rq))
    \<and> (dr_limit rq = 0 \<longrightarrow> mset out = mset (filter eligible (snapshot_entries_rich E cs)))
    \<and> (\<forall>e \<in> set (snapshot_entries_rich E cs) - set out. eligible e \<longrightarrow> (\<forall>x \<in> set out. dss_cached_at_wall x \<le> dss_cached_at_wall e))"
proof -
  let ?es = "filter eligible (snapshot_entries_rich E cs)" and ?n = "unat (dr_limit rq)"
  let ?s = "sort_key dss_cached_at_wall ?es"
  have out: "out = (if dr_limit rq > 0 \<and> length ?s > ?n then take ?n ?s else ?s)"
  proof -
    let ?here = "if dr_context rq = [] then snapshot_entries_rich E cs
      else filter (\<lambda>e. dss_context_id e = dr_context rq) (snapshot_entries_rich E cs)"
    obtain live where l: "retain (distill_lives t (dr_include_stale rq) cs) ?here = Some live"
      and o: "out = (let sorted = sort_key dss_cached_at_wall live
        in if dr_limit rq > 0 \<and> length sorted > ?n then take ?n sorted else sorted)"
      using assms(1) by (auto simp: distill_selection_def Let_def)
    have "live = ?es" unfolding retain_filter [OF l] eligible_def
      by (auto simp: filter_filter intro!: filter_cong)
    then show ?thesis using o by (simp add: Let_def)
  qed
  have st: "sorted (map dss_cached_at_wall (take k ?s @ drop k ?s))" for k by simp
  have srt: "sorted (map dss_cached_at_wall out)"
    unfolding out using st by (auto simp: take_map [symmetric] simp del: append_take_drop_id)
  have sub: "set out \<subseteq> set ?es" unfolding out by (auto dest: in_set_takeD)
  have "dss_cached_at_wall x \<le> dss_cached_at_wall e" if "e \<in> set ?es - set out" "x \<in> set out" for x e
  proof -
    have cut: "out = take ?n ?s" using that(1) unfolding out by (auto split: if_splits)
    have "e \<in> set ?s" using that(1) by simp
    then have "e \<in> set (drop ?n ?s)" using that(1) cut by (metis DiffD2 UnE append_take_drop_id set_append)
    then show ?thesis using st [of ?n] that(2) unfolding cut map_append sorted_append by auto
  qed
  then show ?thesis using srt sub unfolding out by (auto simp: min_def)
qed

section \<open>Examples\<close>

definition demo_warm :: "unit warm_query" where
  "demo_warm = \<lparr>wq_query = lit ''a'', wq_checked = demo_clock, wq_answered = demo_clock, wq_answer = Inr (response_of []),
     wq_meanwhile = (\<lambda>s. s)\<rparr>"

lemma demo_warmed:
  "\<exists>st'. handle_cache_warmup demo_env True [demo_warm] demo_app = Some (200, 1, 0, st')"
  "check_freshness (qe_env demo_env) (wq_checked demo_warm) (context_query (mg_current (ap_contexts demo_app)) (rq_query demo_request))
     (ap_cache demo_app) \<noteq> Some (Some Fresh)"
  by (simp_all add: handle_cache_warmup_def demo_warm_def demo_app_def demo_env_def check_freshness_def check_freshness_by_hash_def
      cache_with_def warm_store_def Let_def on_metrics_def response_of_def response_validate_def scope_filter_for_def usize_add_def usize_max_def)

theorem warmup_accounts_witness:
  "\<exists>st' w f. handle_cache_warmup demo_env True [demo_warm] demo_app = Some (200, w, f, st') \<and> w + f = 1"
proof -
  obtain st' where h: "handle_cache_warmup demo_env True [demo_warm] demo_app = Some (200, 1, 0, st')" using demo_warmed(1) by blast
  have ok: "store_ok (qe_env demo_env) (max 100 1) (ap_cache demo_app)"
    using store_ok_new [of "qe_env demo_env" 100] by (simp add: demo_app_def)
  have "1 + 0 = length [demo_warm]" using warmup_accounts [OF h _ ok] by (simp add: usize_max_def demo_warm_def)
  then show ?thesis using h by auto
qed

text \<open>A cache with two-tier matching, 256 MB of memory and 100 entries per upstream; another request is counted between the check and
  the answer.\<close>

definition busy_warm :: "unit warm_query" where
  "busy_warm = demo_warm\<lparr>wq_meanwhile := on_metrics record_hit\<rparr>"

definition limited_app :: "unit app_state" where
  "limited_app = demo_app\<lparr>ap_cache := limited_cache\<rparr>"

lemma busy_warmed:
  "\<exists>st'. handle_cache_warmup demo_env True [busy_warm] limited_app = Some (200, 1, 0, st')"
  "check_freshness (qe_env demo_env) (wq_checked busy_warm) (context_query (mg_current (ap_contexts limited_app)) (rq_query demo_request))
     (ap_cache limited_app) \<noteq> Some (Some Fresh)"
  by (simp_all add: handle_cache_warmup_def busy_warm_def demo_warm_def limited_app_def demo_app_def demo_env_def check_freshness_def
      check_freshness_by_hash_def limited_cache_def with_normalized_matching_def set_per_upstream_limit_def cache_with_memory_limit_def cache_with_def
      warm_store_def Let_def on_metrics_def response_of_def response_validate_def scope_filter_for_def usize_add_def usize_max_def)

lemma limited_app_room: "room_for trivial_env h (fresh_entry trivial_env demo_clock (response_of []) (lit ''u'') (Some (context_query (lit ''default'') (lit ''a''))) c) limited_cache"
  by (simp add: room_for_def limited_cache_def with_normalized_matching_def set_per_upstream_limit_def cache_with_memory_limit_def
      cache_with_def count_for_upstream_def iter_entries_def trivial_env_def queue_len_def queue_capacity_def s3fifo_new_def
      approximate_size_def fresh_entry_def response_of_def schema_default_def opt_str_size_def str_len_def utf8_len_def context_query_def
      usize_add_def usize_max_def lit_def Let_def)

theorem warmup_serves_witness:
  "\<exists>st' e took st''. handle_cache_warmup demo_env True [busy_warm] limited_app = Some (200, 1, 0, st')
     \<and> execute_query_begin demo_env 0 demo_clock demo_request (lit ''default'') (lit ''r'') None (lit ''http'') False st'
         = (Finished (result_ok (Cached e Hit took)), st'')"
proof -
  obtain st' where h: "handle_cache_warmup demo_env True [busy_warm] limited_app = Some (200, 1, 0, st')" using busy_warmed(1) by blast
  have q: "wq_query busy_warm = rq_query demo_request" "wq_answer busy_warm = Inr (response_of [])"
    by (simp_all add: busy_warm_def demo_warm_def demo_request_def)
  have cid: "mg_current (ap_contexts limited_app) = lit ''default''"
    by (simp add: limited_app_def demo_app_def manager_new_def context_config_default_def)
  let ?st1 = "wq_meanwhile busy_warm (on_metrics record_warmup_request limited_app)"
  have st1: "ap_cache ?st1 = limited_cache" "ap_upstream_id ?st1 = lit ''u''" "\<not> ap_paused ?st1" "wq_answered busy_warm = demo_clock"
    by (simp_all add: busy_warm_def demo_warm_def limited_app_def demo_app_def on_metrics_def)
  have jitter: "fl_within 1 f32_one_tenth"
    by (simp add: f32_one_tenth_def f32_decode_def f32_exponent_def f32_mantissa_def pow2_def fl_within_def Let_def)
  have lim: "cs_ttl_jitter_percent limited_cache = f32_one_tenth" "cs_fresh_duration limited_cache = from_secs 300" "cs_stale_duration limited_cache = from_secs 60"
    by (simp_all add: limited_cache_def with_normalized_matching_def set_per_upstream_limit_def cache_with_memory_limit_def cache_with_def)
  have resp: "response_of [] = (response_of [])\<lparr>qr_results := qe_apply_filter demo_env (scope_filter_for (lit ''default'') ?st1) (qr_results (response_of []))\<rparr>"
    by (simp add: demo_env_def response_of_def)
  have room: "room_for (qe_env demo_env) (hash_query (qe_env demo_env) (context_query (lit ''default'') (rq_query demo_request)))
      (fresh_entry (qe_env demo_env) (wq_answered busy_warm) (response_of []) (ap_upstream_id ?st1)
        (Some (context_query (lit ''default'') (rq_query demo_request))) (lit ''default'')) (ap_cache ?st1)"
    using limited_app_room by (simp only: st1) (simp add: demo_env_def demo_request_def)
  have "\<exists>e took st''. execute_query_begin demo_env 0 demo_clock demo_request (lit ''default'') (lit ''r'') None (lit ''http'') False st'
       = (Finished (result_ok (Cached e Hit took)), st'')
     \<and> qr_results (ce_response e) = qe_apply_filter demo_env (scope_filter_for (lit ''default'') ?st1) (qr_results (response_of []))"
    by (rule warmup_serves [OF h cid [symmetric] q refl busy_warmed(2) [unfolded cid] resp room])
      (simp_all add: st1 lim jitter demo_valid from_secs_def nanos_per_sec_def demo_clock_def elapsed_def)
  then show ?thesis using h by blast
qed

theorem evict_upstream_oldest_witness:
  "fst (evict_upstream_at_most trivial_env \<lparr>ck_now = 0, ck_wall = 0\<rparr> (lit ''u'') (Some 3) (cache_new 5 5 10)) = 0"
proof -
  let ?cs = "cache_new 5 5 10" and ?t = "\<lparr>ck_now = 0, ck_wall = 0\<rparr>"
  have ok: "store_ok trivial_env (max 10 1) ?cs" using store_ok_new [of trivial_env 10] by (simp add: cache_new_def)
  have perm: "mset (iter_order trivial_env (cs_entries ?cs)) = mset (cs_entries ?cs)" by (simp add: trivial_env_def)
  obtain n cs' where e: "evict_upstream_at_most trivial_env ?t (lit ''u'') (Some 3) ?cs = (n, cs')" by fastforce
  have "upstream_keys (lit ''u'') ?cs = {}" by (simp add: upstream_keys_def view_def cache_new_def cache_with_def)
  then show ?thesis using evict_upstream_oldest [OF ok perm e] e by simp
qed

theorem distill_lists_oldest_witness:
  "\<exists>out. distill_selection trivial_env \<lparr>ck_now = 0, ck_wall = 0\<rparr> \<lparr>dr_context = [], dr_include_stale = True, dr_limit = 1\<rparr>
       (cache_new 5 5 10) = Some out \<and> length out \<le> 1"
proof -
  obtain out where o: "distill_selection trivial_env \<lparr>ck_now = 0, ck_wall = 0\<rparr> \<lparr>dr_context = [], dr_include_stale = True, dr_limit = 1\<rparr>
       (cache_new 5 5 10) = Some out"
    by (auto simp: distill_selection_def snapshot_entries_rich_def iter_entries_def trivial_env_def cache_new_def cache_with_def
        map_filter_simps Let_def)
  then show ?thesis using distill_lists_oldest [OF o] by simp
qed

end
