(* ===== verification/TuneSessions.thy ===== *)
theory TuneSessions
  imports Grpc Workers Budget
begin

text \<open>
  The tuning sessions of the MCP server (\<open>src/src/proxy/tune/session.rs\<close>): a store of sessions, each owned by an agent and for a
  context, that forgets idle sessions; recording and selecting runs; and the export of the winning run as a fragment of
  the configuration, which \<open>src/src/proxy/tune/apply.rs\<close> writes into the file. The debug rendering of strings, the rendering of
  numbers and the reading of a scope from JSON are parameters; so is the iteration order of the table.
\<close>

section \<open>The store\<close>

record tune_run =
  tn_run_id :: rstr
  tn_tool :: rstr
  tn_params :: json
  tn_metrics :: json
  tn_selected :: bool

record tune_session =
  ts_session_id :: rstr
  ts_agent_id :: rstr
  ts_context_id :: rstr
  ts_created_at_ms :: u64
  ts_last_touch :: instant
  ts_runs :: "tune_run list"

record session_store =
  so_sessions :: "rstr \<rightharpoonup> tune_session"
  so_ttl :: duration
  so_next_id :: u64

datatype session_error =
    UnknownSession rstr
  | AgentMismatch rstr rstr rstr
  | ContextMismatch rstr rstr rstr

fun session_error_display :: "(rstr \<Rightarrow> rstr) \<Rightarrow> session_error \<Rightarrow> rstr" where
  "session_error_display dbg (UnknownSession i) = lit ''unknown session_id: '' @ i"
| "session_error_display dbg (AgentMismatch i expected got) =
     lit ''agent_id mismatch for session '' @ i @ lit '': session is owned by '' @ dbg expected @ lit '', got '' @ dbg got"
| "session_error_display dbg (ContextMismatch i expected got) =
     lit ''context_id mismatch for session '' @ i @ lit '': session is for '' @ dbg expected @ lit '', got '' @ dbg got"

definition session_store_new :: "nat \<Rightarrow> session_store" where
  "session_store_new ttl_secs = \<lparr>so_sessions = Map.empty, so_ttl = from_secs (max ttl_secs 1), so_next_id = 1\<rparr>"

definition evict_expired :: "instant \<Rightarrow> session_store \<Rightarrow> session_store" where
  "evict_expired now g =
     g\<lparr>so_sessions := (\<lambda>i. case so_sessions g i of
        Some s \<Rightarrow> if elapsed now (ts_last_touch s) < so_ttl g then Some s else None
      | None \<Rightarrow> None)\<rparr>"

definition put_session :: "tune_session \<Rightarrow> rstr \<Rightarrow> session_store \<Rightarrow> session_store" where
  "put_session s i g = g\<lparr>so_sessions := (so_sessions g)(i \<mapsto> s)\<rparr>"

definition session_touch :: "instant \<Rightarrow> tune_session \<Rightarrow> tune_session" where
  "session_touch now s = s\<lparr>ts_last_touch := now\<rparr>"

definition new_session_id :: "system_time \<Rightarrow> u64 \<Rightarrow> rstr" where
  "new_session_id wall n = lit ''sess-'' @ nat_to_hex (nat wall) @ lit ''-'' @ nat_to_dec (unat n)"

text \<open>Opening without an identifier creates a session, with one it resumes the session of the same owner and context.\<close>

definition session_open ::
  "(rstr \<Rightarrow> rstr) \<Rightarrow> clock \<Rightarrow> rstr \<Rightarrow> rstr \<Rightarrow> rstr option \<Rightarrow> session_store \<Rightarrow> (rstr + tune_session) \<times> session_store" where
  "session_open dbg t agent ctx requested g0 =
     (let g = evict_expired (ck_now t) g0
      in case requested of
           Some i \<Rightarrow>
             (case so_sessions g i of
                Some s \<Rightarrow>
                  if ts_agent_id s \<noteq> agent
                  then (Inl (session_error_display dbg (AgentMismatch i (ts_agent_id s) agent)), g)
                  else if ts_context_id s \<noteq> ctx
                  then (Inl (session_error_display dbg (ContextMismatch i (ts_context_id s) ctx)), g)
                  else let s1 = session_touch (ck_now t) s in (Inr s1, put_session s1 i g)
              | None \<Rightarrow> (Inl (session_error_display dbg (UnknownSession i)), g))
         | None \<Rightarrow>
             (let i = new_session_id (ck_wall t) (so_next_id g);
                  s = \<lparr>ts_session_id = i, ts_agent_id = agent, ts_context_id = ctx, ts_created_at_ms = now_ms (ck_wall t),
                       ts_last_touch = ck_now t, ts_runs = []\<rparr>
              in (Inr s, put_session s i (g\<lparr>so_next_id := so_next_id g + 1\<rparr>))))"

definition mismatch :: "rstr \<Rightarrow> rstr option \<Rightarrow> rstr option \<Rightarrow> tune_session \<Rightarrow> session_error option" where
  "mismatch i agent ctx s =
     (case agent of
        Some a \<Rightarrow> if ts_agent_id s \<noteq> a then Some (AgentMismatch i (ts_agent_id s) a)
                  else (case ctx of Some c \<Rightarrow> if ts_context_id s \<noteq> c then Some (ContextMismatch i (ts_context_id s) c) else None
                                  | None \<Rightarrow> None)
      | None \<Rightarrow> (case ctx of Some c \<Rightarrow> if ts_context_id s \<noteq> c then Some (ContextMismatch i (ts_context_id s) c) else None
                           | None \<Rightarrow> None))"

definition session_get_checked ::
  "instant \<Rightarrow> rstr \<Rightarrow> rstr option \<Rightarrow> rstr option \<Rightarrow> session_store \<Rightarrow> (session_error + tune_session) \<times> session_store" where
  "session_get_checked now i agent ctx g0 =
     (let g = evict_expired now g0
      in case so_sessions g i of
           None \<Rightarrow> (Inl (UnknownSession i), g)
         | Some s \<Rightarrow>
             (case mismatch i agent ctx s of
                Some e \<Rightarrow> (Inl e, g)
              | None \<Rightarrow> let s1 = session_touch now s in (Inr s1, put_session s1 i g)))"

definition session_get ::
  "instant \<Rightarrow> rstr \<Rightarrow> rstr option \<Rightarrow> rstr option \<Rightarrow> session_store \<Rightarrow> tune_session option \<times> session_store" where
  "session_get now i agent ctx g0 =
     (let g = evict_expired now g0
      in case so_sessions g i of
           None \<Rightarrow> (None, g)
         | Some s \<Rightarrow>
             if mismatch i agent ctx s \<noteq> None then (None, g)
             else let s1 = session_touch now s in (Some s1, put_session s1 i g))"

definition close_with_reason :: "rstr \<Rightarrow> rstr option \<Rightarrow> session_store \<Rightarrow> (session_error + unit) \<times> session_store" where
  "close_with_reason i agent g =
     (case so_sessions g i of
        None \<Rightarrow> (Inl (UnknownSession i), g)
      | Some s \<Rightarrow>
          (case mismatch i agent None s of
             Some e \<Rightarrow> (Inl e, g)
           | None \<Rightarrow> (Inr (), g\<lparr>so_sessions := (so_sessions g)(i := None)\<rparr>)))"

definition session_close :: "rstr \<Rightarrow> rstr option \<Rightarrow> session_store \<Rightarrow> bool \<times> session_store" where
  "session_close i agent g = apfst (\<lambda>r. case r of Inl _ \<Rightarrow> False | Inr _ \<Rightarrow> True) (close_with_reason i agent g)"

record session_summary =
  su_session_id :: rstr
  su_agent_id :: rstr
  su_context_id :: rstr
  su_run_count :: nat
  su_created_at_ms :: u64

definition summary_of :: "tune_session \<Rightarrow> session_summary" where
  "summary_of s = \<lparr>su_session_id = ts_session_id s, su_agent_id = ts_agent_id s, su_context_id = ts_context_id s,
     su_run_count = length (ts_runs s), su_created_at_ms = ts_created_at_ms s\<rparr>"

definition session_list ::
  "(rstr set \<Rightarrow> rstr list) \<Rightarrow> instant \<Rightarrow> rstr \<Rightarrow> rstr option \<Rightarrow> session_store \<Rightarrow> session_summary list \<times> session_store" where
  "session_list ord now agent ctx g0 =
     (let g = evict_expired now g0;
          all = List.map_filter (so_sessions g) (ord (dom (so_sessions g)))
      in (map summary_of (filter (\<lambda>s. ts_agent_id s = agent \<and> (case ctx of Some c \<Rightarrow> ts_context_id s = c | None \<Rightarrow> True)) all), g))"

section \<open>Runs\<close>

definition record_run :: "tune_run \<Rightarrow> tune_run list \<Rightarrow> tune_run list" where
  "record_run run runs = (if tn_selected run then map (\<lambda>r. r\<lparr>tn_selected := False\<rparr>) runs else runs) @ [run]"

definition append_run ::
  "(rstr \<Rightarrow> rstr) \<Rightarrow> instant \<Rightarrow> rstr \<Rightarrow> rstr option \<Rightarrow> tune_run \<Rightarrow> session_store \<Rightarrow> (rstr + unit) \<times> session_store" where
  "append_run dbg now i agent run g0 =
     (let g = evict_expired now g0
      in case so_sessions g i of
           None \<Rightarrow> (Inl (session_error_display dbg (UnknownSession i)), g)
         | Some s \<Rightarrow>
             (case mismatch i agent None s of
                Some e \<Rightarrow> (Inl (session_error_display dbg e), g)
              | None \<Rightarrow>
                  (Inr (), put_session (session_touch now (s\<lparr>ts_runs := record_run run (ts_runs s)\<rparr>)) i g)))"

definition mark_selected :: "rstr \<Rightarrow> tune_run list \<Rightarrow> tune_run list" where
  "mark_selected rid runs = map (\<lambda>r. r\<lparr>tn_selected := (tn_run_id r = rid)\<rparr>) runs"

definition select_run ::
  "(rstr \<Rightarrow> rstr) \<Rightarrow> instant \<Rightarrow> rstr \<Rightarrow> rstr option \<Rightarrow> rstr \<Rightarrow> session_store \<Rightarrow> (rstr + unit) \<times> session_store" where
  "select_run dbg now i agent rid g0 =
     (let g = evict_expired now g0
      in case so_sessions g i of
           None \<Rightarrow> (Inl (session_error_display dbg (UnknownSession i)), g)
         | Some s \<Rightarrow>
             (case mismatch i agent None s of
                Some e \<Rightarrow> (Inl (session_error_display dbg e), g)
              | None \<Rightarrow>
                  (let s1 = s\<lparr>ts_runs := mark_selected rid (ts_runs s)\<rparr>
                   in if list_ex (\<lambda>r. tn_run_id r = rid) (ts_runs s)
                      then (Inr (), put_session (session_touch now s1) i g)
                      else (Inl (lit ''unknown run_id: '' @ rid), put_session s1 i g))))"

section \<open>Export\<close>

definition export_run :: "tune_run list \<Rightarrow> tune_run option" where
  "export_run runs =
     (case find tn_selected (rev runs) of
        Some r \<Rightarrow> Some r
      | None \<Rightarrow> if runs = [] then None else Some (last runs))"

text \<open>The map of the lifted fields is ordered by its keys.\<close>

definition export_scope :: "json \<Rightarrow> json" where
  "export_scope params =
     (case json_get (lit ''scope'') params of
        Some s \<Rightarrow> s
      | None \<Rightarrow>
          JObject (List.map_filter (\<lambda>k. map_option (Pair (lit k)) (json_get (lit k) params))
            [''embed_band'', ''lexical_weight'', ''min_similarity'', ''mode'', ''scope_weight'', ''weighted_phrases'']))"

definition number_line :: "(json_number \<Rightarrow> rstr) \<Rightarrow> string \<Rightarrow> json \<Rightarrow> rstr" where
  "number_line fmt k j =
     (case json_get (lit k) j of Some (JNumber n) \<Rightarrow> lit k @ lit '' = '' @ fmt n @ [10] | _ \<Rightarrow> [])"

definition escape_toml :: "rstr \<Rightarrow> rstr" where
  "escape_toml s = concat (map (\<lambda>c. if c = 92 then [92, 92] else if c = 34 then [92, 34] else [c]) s)"

definition render_phrase :: "(json_number \<Rightarrow> rstr) \<Rightarrow> rstr \<Rightarrow> json \<Rightarrow> rstr" where
  "render_phrase fmt ctx p =
     [10] @ lit ''[[contexts.'' @ ctx @ lit ''.scope.weighted_phrases]]'' @ [10]
     @ (case Option.bind (json_get (lit ''text'') p) json_as_str of
          Some s \<Rightarrow> lit ''text = '' @ [34] @ escape_toml s @ [34, 10] | None \<Rightarrow> [])
     @ number_line fmt ''weight'' p @ number_line fmt ''min_similarity'' p"

definition render_context_scope_toml :: "(json_number \<Rightarrow> rstr) \<Rightarrow> rstr \<Rightarrow> json \<Rightarrow> rstr" where
  "render_context_scope_toml fmt ctx scope =
     lit ''[contexts.'' @ ctx @ lit ''.scope]'' @ [10]
     @ (case Option.bind (json_get (lit ''mode'') scope) json_as_str of
          Some m \<Rightarrow> lit ''mode = '' @ [34] @ m @ [34, 10] | None \<Rightarrow> [])
     @ number_line fmt ''min_similarity'' scope @ number_line fmt ''scope_weight'' scope @ number_line fmt ''lexical_weight'' scope
     @ (case Option.bind (json_get (lit ''weighted_phrases'') scope) json_as_array of
          Some ps \<Rightarrow> concat (map (render_phrase fmt ctx) ps) | None \<Rightarrow> [])"

record export_artifact =
  ea_session_id :: rstr
  ea_agent_id :: rstr
  ea_context_id :: rstr
  ea_scope :: json
  ea_toml :: rstr
  ea_source_run_id :: rstr

definition session_export ::
  "(json_number \<Rightarrow> rstr) \<Rightarrow> instant \<Rightarrow> rstr \<Rightarrow> rstr option \<Rightarrow> rstr option \<Rightarrow> session_store \<Rightarrow>
   (rstr + export_artifact) \<times> session_store" where
  "session_export fmt now i agent ctx g0 =
     (case session_get now i agent ctx g0 of
        (None, g) \<Rightarrow> (Inl (lit ''session not found''), g)
      | (Some s, g) \<Rightarrow>
          (case export_run (ts_runs s) of
             None \<Rightarrow> (Inl (lit ''no runs to export''), g)
           | Some run \<Rightarrow>
               (let scope = export_scope (tn_params run)
                in (Inr \<lparr>ea_session_id = ts_session_id s, ea_agent_id = ts_agent_id s, ea_context_id = ts_context_id s,
                         ea_scope = scope, ea_toml = render_context_scope_toml fmt (ts_context_id s) scope,
                         ea_source_run_id = tn_run_id run\<rparr>, g))))"

section \<open>Writing the export into the configuration\<close>

definition named_context_none :: named_context where
  "named_context_none = \<lparr>nc_default = None, nc_description = None, nc_upstreams = [], nc_embedder = None,
     nc_cache = \<lparr>xc_fresh_secs = None, xc_stale_secs = None, xc_max_entries = None, xc_max_memory_mb = None, xc_eviction_policy = None\<rparr>,
     nc_scope = scope_none, nc_cascade = cascade_config_default, nc_federated = federated_none\<rparr>"

text \<open>The file that is saved, and whether the context was created.\<close>

definition apply_export_artifact ::
  "(json \<Rightarrow> rstr + scope_config) \<Rightarrow> rstr + config_file \<Rightarrow> export_artifact \<Rightarrow> rstr + bool \<times> config_file" where
  "apply_export_artifact parse loaded a =
     (case loaded of
        Inl e \<Rightarrow> Inl e
      | Inr cf \<Rightarrow>
          (case parse (ea_scope a) of
             Inl e \<Rightarrow> Inl (lit ''Failed to parse exported scope JSON: '' @ e)
           | Inr sc \<Rightarrow>
               (let entry = unwrap_or (fmlookup (cg_contexts cf) (ea_context_id a)) named_context_none
                in Inr (fmlookup (cg_contexts cf) (ea_context_id a) = None,
                        cf\<lparr>cg_contexts := fmupd (ea_context_id a) (entry\<lparr>nc_scope := sc\<rparr>) (cg_contexts cf)\<rparr>))))"

definition apply_tune_export ::
  "(json \<Rightarrow> rstr + scope_config) \<Rightarrow> (json_number \<Rightarrow> rstr) \<Rightarrow> instant \<Rightarrow> rstr + config_file \<Rightarrow> rstr \<Rightarrow> rstr option \<Rightarrow> rstr option \<Rightarrow>
   session_store \<Rightarrow> (rstr + bool \<times> config_file) \<times> session_store" where
  "apply_tune_export parse fmt now loaded i agent ctx g =
     (case session_export fmt now i agent ctx g of
        (Inl e, g1) \<Rightarrow> (Inl e, g1)
      | (Inr a, g1) \<Rightarrow> (apply_export_artifact parse loaded a, g1))"

section \<open>Sessions belong to their agents\<close>

text \<open>A call of the store at a moment by an agent, or by a caller that gives none. Fewer than \<open>2\<^sup>6\<^sup>4 - 1\<close> sessions are opened.\<close>

inductive session_step :: "instant \<Rightarrow> rstr option \<Rightarrow> session_store \<Rightarrow> session_store \<Rightarrow> bool" where
  step_open: "so_next_id g \<noteq> - 1 \<Longrightarrow> session_step (ck_now t) (Some a) g (snd (session_open dbg t a ctx requested g))"
| step_get: "session_step now a g (snd (session_get now i a ctx g))"
| step_get_checked: "session_step now a g (snd (session_get_checked now i a ctx g))"
| step_close: "session_step now a g (snd (close_with_reason i a g))"
| step_list: "session_step now (Some b) g (snd (session_list ord now b ctx g))"
| step_append: "session_step now a g (snd (append_run dbg now i a run g))"
| step_select: "session_step now a g (snd (select_run dbg now i a rid g))"
| step_export: "session_step now a g (snd (session_export fmt now i a ctx g))"

inductive session_reachable :: "nat \<Rightarrow> session_store \<Rightarrow> bool" for ttl where
  reach_new: "session_reachable ttl (session_store_new ttl)"
| reach_step: "session_reachable ttl g \<Longrightarrow> session_step now a g g' \<Longrightarrow> session_reachable ttl g'"

definition one_choice :: "tune_run list \<Rightarrow> bool" where
  "one_choice runs \<longleftrightarrow> (\<exists>rid. \<forall>r \<in> set runs. tn_selected r \<longrightarrow> tn_run_id r = rid)"

definition sessions_ok :: "session_store \<Rightarrow> bool" where
  "sessions_ok g \<longleftrightarrow> (\<forall>i s. so_sessions g i = Some s \<longrightarrow> ts_session_id s = i \<and> one_choice (ts_runs s)
     \<and> (\<exists>w n. i = new_session_id w n \<and> n < so_next_id g))"

definition owned :: "rstr option \<Rightarrow> tune_session \<Rightarrow> bool" where
  "owned a s \<longleftrightarrow> (case a of Some b \<Rightarrow> ts_agent_id s = b | None \<Rightarrow> True)"

lemma hex_no_dash: "45 \<notin> set (nat_to_hex n)"
  by (induction n rule: nat_to_hex.induct) (subst nat_to_hex.simps, auto simp: hex_digit_def)

lemma dec_no_dash: "45 \<notin> set (nat_to_dec n)"
  using dec_digits [of n] by (auto simp: is_ascii_digit_def)

lemma new_session_id_counter:
  assumes "new_session_id w n = new_session_id w' n'"
  shows "n = n'"
proof -
  have "takeWhile (\<lambda>c. c \<noteq> 45) (rev (new_session_id v m)) = rev (nat_to_dec (unat m))" for v m
  proof -
    have "takeWhile (\<lambda>c. c \<noteq> 45) (rev (nat_to_dec (unat m)) @ lit ''-'' @ ys) = rev (nat_to_dec (unat m))" for ys
      using dec_no_dash [of "unat m"] by (subst takeWhile_append2) (auto simp: lit_def)
    then show ?thesis by (simp add: new_session_id_def lit_def)
  qed
  then have "nat_to_dec (unat n) = nat_to_dec (unat n')" using assms by (metis rev_rev_ident)
  then have "unat n = unat n'"
    using dec_aux_value [of "unat n" "Suc (unat n)"] dec_aux_value [of "unat n'" "Suc (unat n')"] by (simp add: nat_to_dec_def)
  then show ?thesis by (rule unsigned_word_eqI)
qed

lemma evict_expired_lookup:
  "so_sessions (evict_expired now g) i = (case so_sessions g i of
     Some s \<Rightarrow> if elapsed now (ts_last_touch s) < so_ttl g then Some s else None | None \<Rightarrow> None)"
  "so_next_id (evict_expired now g) = so_next_id g" "so_ttl (evict_expired now g) = so_ttl g"
  by (simp_all add: evict_expired_def)

lemma kept_after_expiry:
  "so_sessions (evict_expired now g) i = Some s \<longleftrightarrow> so_sessions g i = Some s \<and> elapsed now (ts_last_touch s) < so_ttl g"
  by (auto simp: evict_expired_lookup split: option.splits if_splits)

text \<open>What a call does to the table: nothing more than the expiry, one session of its owner replaced or removed, or one added.\<close>

inductive session_effect :: "instant \<Rightarrow> rstr option \<Rightarrow> session_store \<Rightarrow> session_store \<Rightarrow> bool" where
  effect_none: "session_effect now a g g"
| effect_expire: "session_effect now a g (evict_expired now g)"
| effect_put: "\<lbrakk>so_sessions (evict_expired now g) i = Some s; owned a s; ts_agent_id s' = ts_agent_id s; ts_session_id s' = ts_session_id s;
     one_choice (ts_runs s) \<Longrightarrow> one_choice (ts_runs s')\<rbrakk> \<Longrightarrow> session_effect now a g (put_session s' i (evict_expired now g))"
| effect_close: "\<lbrakk>so_sessions g i = Some s; owned a s\<rbrakk> \<Longrightarrow> session_effect now a g (g\<lparr>so_sessions := (so_sessions g)(i := None)\<rparr>)"
| effect_new: "\<lbrakk>so_next_id g \<noteq> - 1; ts_session_id s = new_session_id w (so_next_id g); ts_runs s = []\<rbrakk> \<Longrightarrow>
     session_effect now a g (put_session s (new_session_id w (so_next_id g)) ((evict_expired now g)\<lparr>so_next_id := so_next_id g + 1\<rparr>))"

lemma one_choice_record: "one_choice runs \<Longrightarrow> one_choice (record_run run runs)"
  by (cases "tn_selected run") (auto simp: one_choice_def record_run_def)

lemma one_choice_mark: "one_choice (mark_selected rid runs)"
  by (auto simp: one_choice_def mark_selected_def)

lemma mismatch_owned: "mismatch i a ctx s = None \<Longrightarrow> owned a s"
  by (auto simp: mismatch_def owned_def split: option.splits if_splits)

lemma mismatch_cong: "\<lbrakk>ts_agent_id s' = ts_agent_id s; ts_context_id s' = ts_context_id s\<rbrakk> \<Longrightarrow> mismatch i a ctx s' = mismatch i a ctx s"
  by (cases a; cases ctx) (simp_all add: mismatch_def)

lemma effect_touch:
  "\<lbrakk>so_sessions (evict_expired now g) i = Some s; mismatch i a ctx s = None\<rbrakk> \<Longrightarrow>
     session_effect now a g (put_session (session_touch now s) i (evict_expired now g))"
  by (erule effect_put) (simp_all add: session_touch_def mismatch_owned)

lemma effect_runs:
  assumes "so_sessions (evict_expired now g) i = Some s" and "mismatch i a ctx s = None" and "one_choice (ts_runs s) \<Longrightarrow> one_choice runs"
  shows "session_effect now a g (put_session (session_touch now (s\<lparr>ts_runs := runs\<rparr>)) i (evict_expired now g))"
    and "session_effect now a g (put_session (s\<lparr>ts_runs := runs\<rparr>) i (evict_expired now g))"
  using assms by (auto simp: session_touch_def mismatch_owned intro!: effect_put [OF assms(1)])

lemma get_effect: "session_effect now a g (snd (session_get now i a ctx g))"
  by (simp add: session_get_def Let_def effect_expire effect_touch split: option.split)

lemma get_checked_effect: "session_effect now a g (snd (session_get_checked now i a ctx g))"
  by (simp add: session_get_checked_def Let_def effect_expire effect_touch split: option.split)

lemma close_effect: "session_effect now a g (snd (close_with_reason i a g))"
  by (simp add: close_with_reason_def effect_none effect_close mismatch_owned split: option.split)

lemma append_effect: "session_effect now a g (snd (append_run dbg now i a run g))"
  by (simp add: append_run_def Let_def effect_expire effect_runs one_choice_record split: option.split)

lemma select_effect: "session_effect now a g (snd (select_run dbg now i a rid g))"
  by (simp add: select_run_def Let_def effect_expire effect_runs one_choice_mark split: option.split)

lemma export_effect: "session_effect now a g (snd (session_export fmt now i a ctx g))"
  using get_effect [of now a g i ctx] by (auto simp: session_export_def Let_def split: prod.split option.split)

lemma open_effect:
  assumes "so_next_id g \<noteq> - 1"
  shows "session_effect (ck_now t) (Some a) g (snd (session_open dbg t a ctx requested g))"
proof (cases requested)
  case None
  then show ?thesis using assms by (simp add: session_open_def Let_def evict_expired_lookup(2) effect_new)
next
  case (Some i)
  have "mismatch i (Some (ts_agent_id s)) None s = None" for s by (simp add: mismatch_def)
  with Some show ?thesis
    by (auto simp: session_open_def Let_def effect_expire split: option.split intro: effect_touch [where ctx = None])
qed

lemma session_step_effect: "session_step now a g g' \<Longrightarrow> session_effect now a g g'"
proof (induction rule: session_step.induct)
  case (step_list now b g ord ctx)
  then show ?case by (simp add: session_list_def Let_def effect_expire)
qed (simp_all add: get_effect get_checked_effect close_effect append_effect select_effect export_effect open_effect)

lemma put_session_lookup [simp]: "so_sessions (put_session s i g) j = (if j = i then Some s else so_sessions g j)"
  "so_next_id (put_session s i g) = so_next_id g" "so_ttl (put_session s i g) = so_ttl g"
  by (simp_all add: put_session_def)

lemma fresh_session:
  assumes "sessions_ok g"
  shows "so_sessions g (new_session_id w (so_next_id g)) = None"
proof (rule ccontr)
  assume "so_sessions g (new_session_id w (so_next_id g)) \<noteq> None"
  then obtain v n where "new_session_id w (so_next_id g) = new_session_id v n" "n < so_next_id g"
    using assms unfolding sessions_ok_def by (metis option.collapse)
  then show False using new_session_id_counter by fastforce
qed

lemma sessions_ok_subset:
  "\<lbrakk>sessions_ok g; \<And>i s. so_sessions g' i = Some s \<Longrightarrow> so_sessions g i = Some s; so_next_id g \<le> so_next_id g'\<rbrakk> \<Longrightarrow> sessions_ok g'"
  unfolding sessions_ok_def by (meson order_less_le_trans)

lemma sessions_ok_put:
  assumes "sessions_ok g" and "ts_session_id s = i" and "one_choice (ts_runs s)" and "i = new_session_id w n" and "n < so_next_id g"
  shows "sessions_ok (put_session s i g)"
  using assms unfolding sessions_ok_def put_session_lookup by (metis option.inject)

lemma effect_sessions_ok: "\<lbrakk>session_effect now a g g'; sessions_ok g\<rbrakk> \<Longrightarrow> sessions_ok g'"
proof (induction rule: session_effect.induct)
  case (effect_none now a g)
  then show ?case .
next
  case (effect_expire now a g)
  then show ?case by (rule sessions_ok_subset) (auto simp: kept_after_expiry evict_expired_lookup(2))
next
  case (effect_put now g i s a s')
  have ok: "sessions_ok (evict_expired now g)"
    using effect_put(6) by (rule sessions_ok_subset) (auto simp: kept_after_expiry evict_expired_lookup(2))
  with effect_put(1) obtain w n where "ts_session_id s = i" "one_choice (ts_runs s)" "i = new_session_id w n"
    "n < so_next_id (evict_expired now g)"
    unfolding sessions_ok_def by blast
  with ok effect_put(4,5) show ?case by (intro sessions_ok_put) auto
next
  case (effect_close g i s a now)
  from effect_close(3) show ?case by (rule sessions_ok_subset) (auto split: if_splits)
next
  case (effect_new g s w now a)
  have less: "so_next_id g < so_next_id g + 1" using effect_new(1) inc_less_eq_self_iff_eq not_less by blast
  have "sessions_ok ((evict_expired now g)\<lparr>so_next_id := so_next_id g + 1\<rparr>)"
    using effect_new(4) less by (elim sessions_ok_subset) (auto simp: kept_after_expiry)
  with effect_new(2,3) less show ?case by (intro sessions_ok_put) (auto simp: one_choice_def)
qed

lemma reachable_sessions_ok: "session_reachable ttl g \<Longrightarrow> sessions_ok g"
proof (induction rule: session_reachable.induct)
  case reach_new
  then show ?case by (simp add: sessions_ok_def session_store_new_def)
next
  case (reach_step g now a g')
  then show ?case using effect_sessions_ok session_step_effect by blast
qed

lemma effect_isolated:
  assumes "session_effect now (Some b) g g'" and "sessions_ok g" and "so_sessions g i = Some s" and "ts_agent_id s \<noteq> b"
  shows "so_sessions g' i = (if elapsed now (ts_last_touch s) < so_ttl g then Some s else None) \<or> so_sessions g' i = Some s"
  using assms
proof (induction now "Some b" g g' rule: session_effect.induct)
  case (effect_new g s' w now)
  then have "i \<noteq> new_session_id w (so_next_id g)" using fresh_session [of g w] by auto
  with effect_new show ?case by (simp add: evict_expired_lookup)
qed (auto simp: evict_expired_lookup owned_def split: if_splits)

text \<open>C33. A session belongs to the agent that opened it. In every store the calls can reach (with fewer than \<open>2\<^sup>6\<^sup>4 - 1\<close> sessions
  opened), a call made for one agent leaves a session of another agent exactly as it was, with its owner, its context and its
  runs, or, when the session has been idle for the store's time to live, forgets it. Opening a session without naming one never takes the
  identifier of a session in use: the new session, without runs, belongs to the caller, its identifier was free, and every other
  session, of the same agent too, is as it was or has been idle for the time to live. A caller that gives no agent is not
  covered: the code lets it act on every session.\<close>

theorem tune_sessions_isolated:
  assumes "session_reachable ttl g"
  shows "(\<forall>now b g' i s. session_step now (Some b) g g' \<and> so_sessions g i = Some s \<and> ts_agent_id s \<noteq> b \<longrightarrow>
        so_sessions g' i = Some s \<or> so_sessions g' i = None \<and> so_ttl g \<le> elapsed now (ts_last_touch s))
    \<and> (\<forall>dbg t a ctx. \<exists>s g'. session_open dbg t a ctx None g = (Inr s, g')
        \<and> so_sessions g (ts_session_id s) = None \<and> so_sessions g' (ts_session_id s) = Some s
        \<and> ts_agent_id s = a \<and> ts_context_id s = ctx \<and> ts_runs s = []
        \<and> (\<forall>i s'. so_sessions g i = Some s' \<longrightarrow>
             so_sessions g' i = Some s' \<or> so_sessions g' i = None \<and> so_ttl g \<le> elapsed (ck_now t) (ts_last_touch s')))"
proof (intro conjI allI)
  show "session_step now (Some b) g g' \<and> so_sessions g i = Some s \<and> ts_agent_id s \<noteq> b \<longrightarrow>
      so_sessions g' i = Some s \<or> so_sessions g' i = None \<and> so_ttl g \<le> elapsed now (ts_last_touch s)" for now b g' i s
    using effect_isolated [OF session_step_effect reachable_sessions_ok] assms by (metis not_less)
  fix dbg :: "rstr \<Rightarrow> rstr" and t :: clock and a ctx :: rstr
  have free: "so_sessions g (new_session_id (ck_wall t) (so_next_id g)) = None"
    by (rule fresh_session [OF reachable_sessions_ok [OF assms]])
  then have "i \<noteq> new_session_id (ck_wall t) (so_next_id g)" if "so_sessions g i = Some s'" for i s' using that by auto
  with free show "\<exists>s g'. session_open dbg t a ctx None g = (Inr s, g')
      \<and> so_sessions g (ts_session_id s) = None \<and> so_sessions g' (ts_session_id s) = Some s
      \<and> ts_agent_id s = a \<and> ts_context_id s = ctx \<and> ts_runs s = []
      \<and> (\<forall>i s'. so_sessions g i = Some s' \<longrightarrow>
           so_sessions g' i = Some s' \<or> so_sessions g' i = None \<and> so_ttl g \<le> elapsed (ck_now t) (ts_last_touch s'))"
    by (auto simp: session_open_def evict_expired_lookup Let_def)
qed

section \<open>The chosen run\<close>

lemma found_last:
  assumes "\<exists>x \<in> set xs. P x"
  shows "\<exists>x \<in> set xs. find P (rev xs) = Some x \<and> P x"
proof -
  obtain x where x: "find P (rev xs) = Some x" using assms by (cases "find P (rev xs)") (auto simp: find_None_iff)
  then have "x \<in> set xs \<and> P x" by (metis find_Some_iff nth_mem set_rev)
  with x show ?thesis by blast
qed

lemma export_marked:
  assumes "\<exists>r \<in> set runs. tn_run_id r = rid"
  shows "\<exists>r \<in> set runs. export_run (mark_selected rid runs) = Some (r\<lparr>tn_selected := True\<rparr>) \<and> tn_run_id r = rid"
proof -
  have "\<exists>x \<in> set (mark_selected rid runs). tn_selected x" using assms by (auto simp: mark_selected_def)
  from found_last [OF this] show ?thesis by (auto simp: export_run_def mark_selected_def)
qed

text \<open>The run that was selected is the run that is exported: after a selection that succeeds, an export of the same caller within the time to
  live succeeds, names the selected run as its source, and carries the scope of a recorded run of that identifier, rendered for the
  context of the session.\<close>

theorem selected_run_exported:
  assumes "select_run dbg now i a rid g = (Inr (), g1)" and "elapsed later now < so_ttl g"
  shows "\<exists>art s r. fst (session_export fmt later i a None g1) = Inr art \<and> so_sessions g i = Some s \<and> r \<in> set (ts_runs s)
    \<and> tn_run_id r = rid \<and> ea_source_run_id art = rid \<and> ea_context_id art = ts_context_id s \<and> ea_scope art = export_scope (tn_params r)
    \<and> ea_toml art = render_context_scope_toml fmt (ts_context_id s) (export_scope (tn_params r))"
proof -
  obtain s where s: "so_sessions (evict_expired now g) i = Some s" "mismatch i a None s = None"
    and ex: "\<exists>r \<in> set (ts_runs s). tn_run_id r = rid"
    and g1: "g1 = put_session (session_touch now (s\<lparr>ts_runs := mark_selected rid (ts_runs s)\<rparr>)) i (evict_expired now g)"
    using assms(1) by (auto simp: select_run_def Let_def list_ex_iff split: option.splits if_splits)
  obtain r where r: "r \<in> set (ts_runs s)" "export_run (mark_selected rid (ts_runs s)) = Some (r\<lparr>tn_selected := True\<rparr>)" "tn_run_id r = rid"
    using export_marked [OF ex] by blast
  define u where "u = session_touch now (s\<lparr>ts_runs := mark_selected rid (ts_runs s)\<rparr>)"
  have u: "ts_runs (session_touch later u) = mark_selected rid (ts_runs s)" "ts_context_id (session_touch later u) = ts_context_id s"
    by (simp_all add: u_def session_touch_def)
  have "so_sessions (evict_expired later g1) i = Some u"
    using assms(2) by (simp add: g1 u_def kept_after_expiry evict_expired_lookup(3) session_touch_def)
  moreover have "mismatch i a None u = None"
    by (subst mismatch_cong [of _ s]) (simp_all add: u_def session_touch_def s(2))
  ultimately have "session_get later i a None g1 = (Some (session_touch later u), put_session (session_touch later u) i (evict_expired later g1))"
    by (simp add: session_get_def Let_def)
  then have "fst (session_export fmt later i a None g1) = Inr \<lparr>ea_session_id = ts_session_id (session_touch later u),
      ea_agent_id = ts_agent_id (session_touch later u), ea_context_id = ts_context_id s, ea_scope = export_scope (tn_params r),
      ea_toml = render_context_scope_toml fmt (ts_context_id s) (export_scope (tn_params r)), ea_source_run_id = rid\<rparr>"
    using r by (simp add: session_export_def Let_def u)
  moreover have "so_sessions g i = Some s" using s(1) by (simp add: kept_after_expiry)
  ultimately show ?thesis using r(1,3) by auto
qed

text \<open>Selecting a run that the session does not have reports the error after it has cleared every earlier selection, so that the
  next export falls back to the last run.\<close>

theorem failed_select_clears:
  assumes "so_sessions (evict_expired now g) i = Some s" and "mismatch i a None s = None" and "rid \<notin> tn_run_id ` set (ts_runs s)"
  shows "\<exists>s'. select_run dbg now i a rid g = (Inl (lit ''unknown run_id: '' @ rid), put_session s' i (evict_expired now g))
    \<and> (\<forall>r \<in> set (ts_runs s'). \<not> tn_selected r) \<and> map tn_run_id (ts_runs s') = map tn_run_id (ts_runs s)"
proof -
  have "\<not> list_ex (\<lambda>r. tn_run_id r = rid) (ts_runs s)" using assms(3) by (auto simp: list_ex_iff)
  moreover have "\<forall>r \<in> set (mark_selected rid (ts_runs s)). \<not> tn_selected r" using assms(3) by (auto simp: mark_selected_def)
  ultimately show ?thesis
    using assms(1,2) by (intro exI [of _ "s\<lparr>ts_runs := mark_selected rid (ts_runs s)\<rparr>"]) (simp add: select_run_def mark_selected_def)
qed

text \<open>Applying an export for a context the configuration does not have writes a file that does not load: the new context has no upstream leg.\<close>

theorem apply_new_context_unloadable:
  assumes "apply_export_artifact parse (Inr cf) art = Inr (True, cf')" and "table_order ord"
  shows "\<exists>e. config_load E ord None (Some cf') = Inl e"
proof (rule ccontr)
  assume "\<nexists>e. config_load E ord None (Some cf') = Inl e"
  then have "config_load E ord None (Some cf') = Inr cf'" by (auto simp: config_load_def split: sum.splits)
  then have v: "validate_context_rooted E ord (cg_upstreams cf') (cg_embedders cf') (cg_contexts cf')
      (if cg_agents cf' = [] then px_agents (cg_proxy cf') else cg_agents cf') = Inr ()"
    by (rule validated_parts(3) [OF load_validates])
  obtain sc where "fmlookup (cg_contexts cf) (ea_context_id art) = None"
      "cf' = cf\<lparr>cg_contexts := fmupd (ea_context_id art)
         ((unwrap_or (fmlookup (cg_contexts cf) (ea_context_id art)) named_context_none)\<lparr>nc_scope := sc\<rparr>) (cg_contexts cf)\<rparr>"
    using assms(1) by (auto simp only: apply_export_artifact_def Let_def sum.case sum.inject prod.inject sum.distinct split: sum.splits)
  then obtain c where c: "fmlookup (cg_contexts cf') (ea_context_id art) = Some c" "nc_upstreams c = []"
    by (simp add: unwrap_or_def named_context_none_def)
  then have ne: "cg_contexts cf' \<noteq> fmempty" by auto
  obtain resolved where res: "resolve_all_contexts ord (cg_upstreams cf') (cg_embedders cf') (cg_contexts cf') = Inr resolved"
    and legs: "\<forall>r \<in> set resolved. rx_legs r \<noteq> []"
    by (rule validated_tables [OF v ne]) (erule that, assumption)
  have mem: "(ea_context_id art, c) \<in> set (table_entries ord (cg_contexts cf'))" using c(1) by (simp add: set_table_entries [OF assms(2)])
  have "list_all2 (\<lambda>x y. resolve_context (cg_upstreams cf') (cg_embedders cf') x = Inr y) (table_entries ord (cg_contexts cf')) resolved"
    using res ne by (simp add: resolve_all_contexts_def collect_Inr)
  from list_all2_sets(2) [OF this mem]
  obtain r where "r \<in> set resolved" "resolve_context (cg_upstreams cf') (cg_embedders cf') (ea_context_id art, c) = Inr r" by blast
  with legs resolved_context_parts(4) [of "cg_upstreams cf'" "cg_embedders cf'" "ea_context_id art" c r] c(2) show False by auto
qed

section \<open>A session at work\<close>

definition demo_clock :: "nat \<Rightarrow> clock" where
  "demo_clock n = \<lparr>ck_now = n, ck_wall = int n\<rparr>"

definition demo_run :: "string \<Rightarrow> tune_run" where
  "demo_run n = \<lparr>tn_run_id = lit n, tn_tool = lit ''scope_tune'', tn_params = JObject [(lit ''mode'', JString (lit ''boost''))],
     tn_metrics = JNull, tn_selected = False\<rparr>"

definition demo_id :: rstr where
  "demo_id = new_session_id 5 1"

definition demo_session :: tune_session where
  "demo_session = \<lparr>ts_session_id = demo_id, ts_agent_id = lit ''a'', ts_context_id = lit ''c'', ts_created_at_ms = 0,
     ts_last_touch = 5, ts_runs = []\<rparr>"

definition demo_tuning :: session_store where
  "demo_tuning = snd (session_open id (demo_clock 5) (lit ''a'') (lit ''c'') None (session_store_new 60))"

lemma demo_tuning_entry: "so_sessions demo_tuning = [demo_id \<mapsto> demo_session]" "so_ttl demo_tuning = 60000000000" "so_next_id demo_tuning = 2"
  by (simp_all add: demo_tuning_def session_open_def demo_clock_def session_store_new_def evict_expired_def put_session_def demo_id_def
      demo_session_def now_ms_def as_millis_def nanos_per_milli_def from_secs_def nanos_per_sec_def Let_def fun_eq_iff)

lemma demo_tuning_reachable: "session_reachable 60 demo_tuning"
  unfolding demo_tuning_def by (rule reach_step [OF reach_new step_open]) (simp add: session_store_new_def)

theorem tune_sessions_isolated_witness:
  "session_reachable 60 demo_tuning
   \<and> so_sessions (snd (close_with_reason demo_id (Some (lit ''b'')) demo_tuning)) demo_id = Some demo_session
   \<and> so_sessions (snd (session_open id (demo_clock 6) (lit ''a'') (lit ''c'') None demo_tuning)) demo_id = Some demo_session"
proof -
  let ?g' = "snd (close_with_reason demo_id (Some (lit ''b'')) demo_tuning)"
  note iso = tune_sessions_isolated [OF demo_tuning_reachable]
  have e: "so_sessions demo_tuning demo_id = Some demo_session" "ts_agent_id demo_session \<noteq> lit ''b''"
    by (simp_all add: demo_tuning_entry demo_session_def lit_def)
  have idle: "\<not> so_ttl demo_tuning \<le> elapsed n (ts_last_touch demo_session)" if "n < 10" for n
    using that by (simp add: demo_tuning_entry demo_session_def elapsed_def)
  have "so_sessions ?g' demo_id = Some demo_session" using iso [THEN conjunct1, rule_format, of 7 "lit ''b''" ?g'] step_close e idle [of 7] by fastforce
  moreover have "so_sessions (snd (session_open id (demo_clock 6) (lit ''a'') (lit ''c'') None demo_tuning)) demo_id = Some demo_session"
    using iso [THEN conjunct2, rule_format, of id "demo_clock 6" "lit ''a''" "lit ''c''"] e(1) idle [of 6] by (force simp: demo_clock_def)
  ultimately show ?thesis using demo_tuning_reachable by blast
qed

definition demo_runs :: session_store where
  "demo_runs = put_session (demo_session\<lparr>ts_runs := [demo_run ''r1'', demo_run ''r2'']\<rparr>) demo_id demo_tuning"

lemma demo_selects: "\<exists>g1. select_run id 7 demo_id (Some (lit ''a'')) (lit ''r1'') demo_runs = (Inr (), g1)"
  by (simp add: select_run_def demo_runs_def evict_expired_lookup demo_tuning_entry demo_session_def mismatch_def elapsed_def demo_run_def Let_def)

theorem selected_run_exported_witness:
  "\<exists>g1 art. select_run id 7 demo_id (Some (lit ''a'')) (lit ''r1'') demo_runs = (Inr (), g1)
   \<and> fst (session_export (\<lambda>_. []) 9 demo_id (Some (lit ''a'')) None g1) = Inr art \<and> ea_source_run_id art = lit ''r1''"
proof -
  obtain g1 where g1: "select_run id 7 demo_id (Some (lit ''a'')) (lit ''r1'') demo_runs = (Inr (), g1)" using demo_selects by blast
  have "elapsed 9 7 < so_ttl demo_runs" by (simp add: demo_runs_def demo_tuning_entry elapsed_def)
  from selected_run_exported [OF g1 this, of "\<lambda>_. []"] g1 show ?thesis by blast
qed

theorem failed_select_clears_witness:
  "\<exists>s'. select_run id 7 demo_id (Some (lit ''a'')) (lit ''r9'') demo_runs
      = (Inl (lit ''unknown run_id: r9''), put_session s' demo_id (evict_expired 7 demo_runs)) \<and> (\<forall>r \<in> set (ts_runs s'). \<not> tn_selected r)"
proof -
  let ?s = "demo_session\<lparr>ts_runs := [demo_run ''r1'', demo_run ''r2'']\<rparr>"
  have "so_sessions (evict_expired 7 demo_runs) demo_id = Some ?s"
    by (simp add: kept_after_expiry demo_runs_def demo_tuning_entry demo_session_def elapsed_def)
  moreover have "mismatch demo_id (Some (lit ''a'')) None ?s = None" by (simp add: mismatch_def demo_session_def)
  moreover have "lit ''r9'' \<notin> tn_run_id ` set (ts_runs ?s)" by (simp add: demo_run_def lit_def)
  ultimately show ?thesis using failed_select_clears [of 7 demo_runs demo_id ?s "Some (lit ''a'')" "lit ''r9''" id] by (simp add: lit_def) blast
qed

definition demo_artifact :: export_artifact where
  "demo_artifact = \<lparr>ea_session_id = demo_id, ea_agent_id = lit ''a'', ea_context_id = lit ''c'', ea_scope = JObject [], ea_toml = [],
     ea_source_run_id = lit ''r1''\<rparr>"

theorem apply_new_context_unloadable_witness:
  "\<exists>cf' e. apply_export_artifact (\<lambda>_. Inr scope_none) (Inr config_default) demo_artifact = Inr (True, cf')
     \<and> config_load demo_config_env in_order None (Some cf') = Inl e"
proof -
  obtain cf' where cf': "apply_export_artifact (\<lambda>_. Inr scope_none) (Inr config_default) demo_artifact = Inr (True, cf')"
    by (simp add: apply_export_artifact_def config_default_def Let_def)
  with apply_new_context_unloadable [OF cf' table_orders(1)] show ?thesis by blast
qed

end
