(* ===== verification/Spec2Isabelle.thy ===== *)
theory Spec2Isabelle
  imports Resilience Slug Priority Peer QueryFlow CascadeOrder Handlers Workers Snapshot Distill AuditLog Engine AdminOps TuneSessions
begin

text \<open>
  A verification library for conproxy (\<open>src/src/\<close>), a caching proxy that stands between agents and the search
  backends they query: vector databases and full-text engines.

  \<^bold>\<open>The program and how its parts interact.\<close> A request arrives over HTTP, over gRPC or through the embedded
  engine. The middleware (\<open>middleware.rs\<close>, \<open>agent.rs\<close>) decides who is asking and whether the rate limits let the
  request pass. The handler resolves the context and calls the query core (\<open>server/query_core.rs\<close>). The core checks
  the request, the pause switch and the permission for the context, prefixes the query with the context and looks
  it up in the cache store (\<open>cache.rs\<close>). A fresh entry is served, a stale one is served and refreshed; otherwise
  the request enters the coalescer (\<open>coalesce.rs\<close>), where the first request for a hash leads the fetch and the
  others wait for its answer. The leader asks the upstreams, through the cascade (\<open>cascade.rs\<close>) if there is one,
  else the pool (\<open>pool.rs\<close>), else the single upstream, under the circuit breaker (\<open>circuit.rs\<close>) and the retry loop
  (\<open>retry.rs\<close>). The answer is validated, passes the scope filter of the context (\<open>scope.rs\<close>), is stored and sent to
  the waiters; a failed fetch falls back to an entry of any age. Insertions and removals are published as change
  events (\<open>cdc/\<close>), which other nodes apply to their caches (\<open>peer/\<close>). Beside the requests run the refresh worker
  and the other workers (\<open>refresh.rs\<close>, \<open>workers/\<close>), and a reload of the configuration (\<open>config/\<close>, \<open>server/mod.rs\<close>)
  exchanges the parts under way.

  \<^bold>\<open>The theories\<close>, from the bottom up; paths are relative to \<open>src/src/proxy/\<close> unless they begin with another
  directory of \<open>src/src/\<close>.

  \<^item> \<open>Prelude\<close>: the machine integers as words, the saturating operations, durations and instants in nanoseconds,
    strings as lists of Unicode scalar values with their UTF-8 lengths, association lists. \<open>Floats\<close> and \<open>Doubles\<close>: the
    arithmetic of \<open>f32\<close> and \<open>f64\<close> on rationals with rounding to nearest, infinities and NaN, and error bounds.
  \<^item> \<open>Types\<close> (\<open>types.rs\<close>): results, entries, requests, their validation, signatures, certificate pins, the drift window.
  \<^item> The cache. \<open>Cache\<close> (\<open>cache.rs\<close>): the store with its S3-FIFO queues and their operations. \<open>CacheOps\<close>: lookup in two
    tiers, insertion, removal, freshness, refresh. \<open>CacheAdmin\<close>: eviction on request, warm-up, integrity, statistics.
    \<open>S3fifo\<close>: termination and bounds of eviction and admission. \<open>CacheInv\<close>: the store as a transition system and its
    invariant. \<open>CacheContract\<close>: what clients may rely on. \<open>CacheLimits\<close>: freshness, per-upstream and memory limits.
  \<^item> Protection of the upstreams. \<open>Circuit\<close> (\<open>circuit.rs\<close>), \<open>Resilience\<close> (\<open>resilience.rs\<close>), \<open>Retry\<close> (\<open>retry.rs\<close>),
    \<open>Adaptive\<close> (\<open>adaptive.rs\<close>), \<open>ConnPool\<close> (\<open>connection_pool.rs\<close>, interleaved tasks over permits and a queue).
  \<^item> Upstreams. \<open>Upstream\<close> (\<open>upstream.rs\<close>, endpoint section of \<open>config/mod.rs\<close>), \<open>Pool\<close> (\<open>pool.rs\<close>), \<open>Cascade\<close> and
    \<open>CascadeOrder\<close> (\<open>cascade.rs\<close>).
  \<^item> Admission. \<open>RateLimit\<close> (\<open>middleware.rs\<close>), \<open>Agents\<close> (\<open>agent.rs\<close>, \<open>middleware.rs\<close>, \<open>grpc/middleware.rs\<close>), \<open>Context\<close>
    (\<open>context.rs\<close>), \<open>Priority\<close> (\<open>priority.rs\<close>).
  \<^item> The request path. \<open>Coalesce\<close> (\<open>coalesce.rs\<close>), \<open>Metrics\<close> (\<open>metrics.rs\<close>), \<open>QueryStats\<close> (\<open>query_stats.rs\<close>), \<open>Scope\<close>
    (\<open>scope.rs\<close>), \<open>QueryCore\<close> (\<open>server/query_core.rs\<close>: a request as three atomic segments, from its begin to the
    fetch, and the end of a leader or of a waiter), \<open>QueryFlow\<close> (the interleaving of any number of requests).
  \<^item> \<open>Batch\<close> (\<open>batch.rs\<close>) and \<open>Federated\<close> (\<open>federated.rs\<close>), and their handlers in \<open>Handlers\<close> (\<open>server/batch.rs\<close>).
  \<^item> Replication. \<open>Cdc\<close> (\<open>cdc/\<close>), \<open>Peer\<close> (\<open>peer/receiver.rs\<close>, \<open>peer/singleflight.rs\<close>), \<open>Snapshot\<close> (\<open>peer/snapshot.rs\<close>,
    \<open>peer/service.rs\<close>, \<open>peer/mod.rs\<close>).
  \<^item> Configuration. \<open>ConfigSections\<close>, \<open>ConfigProxy\<close> and \<open>ConfigFile\<close> (\<open>config/mod.rs\<close>, \<open>config/context_rooted.rs\<close>): the
    parsed file, its layers, overrides by the environment, validation and the projection of contexts to the proxy
    section. \<open>ConfigLaws\<close>: what holds of merged, validated and projected files.
  \<^item> The running server. \<open>Server\<close> (\<open>server/mod.rs\<close>: construction, reload, readiness), \<open>Refresh\<close> (\<open>refresh.rs\<close>),
    \<open>Workers\<close> (\<open>workers/\<close>).
  \<^item> The embedded engine. \<open>Budget\<close> (\<open>engine/budget.rs\<close> and the ticker of \<open>engine/mod.rs\<close>), \<open>Engine\<close> (\<open>engine/mod.rs\<close>).
  \<^item> The other interfaces. \<open>Grpc\<close> (\<open>grpc/search.rs\<close>, \<open>grpc/convert.rs\<close>), \<open>AdminOps\<close> (\<open>server/admin.rs\<close>, \<open>server/cache.rs\<close>,
    \<open>server/context.rs\<close>, \<open>grpc/admin.rs\<close>, \<open>grpc/context.rs\<close>, the export of \<open>grpc/observability.rs\<close>), \<open>TuneSessions\<close>
    (\<open>tune/session.rs\<close>, \<open>tune/apply.rs\<close>).
  \<^item> \<open>AuditLog\<close> (\<open>audit.rs\<close>), \<open>Distill\<close> (\<open>distill.rs\<close>), \<open>Slug\<close> (\<open>slug.rs\<close>).

  \<^bold>\<open>How code becomes definitions.\<close> A struct is a record with one field per field of the code (a prefix per record),
  an enum a datatype, a method a function that takes and returns the state. Atomics and locks are fields: a definition
  is what runs under one lock or between two points where a task can be suspended, and interleavings are sequences of
  such steps. Where the code reads and then writes without one lock between two such points, threads could interleave inside a
  step: the refill and the withdrawal of a rate limiter, the sequence number and the publication of a change event, and the check and
  the insertion or removal of a context are single steps here. \<open>Result\<close> is a sum with the error on the left, a panic is \<open>None\<close> (or \<open>Panicked\<close> in the request path).
  \<open>usize\<close> is \<open>nat\<close> where the code saturates or cannot leave the range, with the bound written out; the other integers
  are words of their width. Maps whose iteration order matters are association lists. What lies outside the source is
  an argument: the clocks of an operation (\<open>clock\<close>), hashing and JSON (\<open>env\<close>), the iteration order of hash maps,
  Unicode case mapping, the answers of upstreams and peers, files, random numbers. The laws that a theorem needs of
  them (a permutation, a round trip of the encoding, an injective hash) are hypotheses of that theorem, and its
  witness instantiates them.

  \<^bold>\<open>What is shown.\<close>
  \<^item> Cache: in every reachable state the keys are distinct, the memory counter is the sum of the entries' sizes and the
    queues are within their capacity; a lookup gives what was last stored under the key or nothing, and exactly what was stored
    when the entry fits within the limits (\<open>room_for\<close>: queues, memory, entries of the upstream); admission ends within
    its bounds; the freshness verdict is a function of the age, with a jitter of at most the configured share of the window.
  \<^item> Request path: at most one fetch per hash is under way and its waiters get the leader's response; what was fetched
    is served from the cache next; an outage serves what is cached; answers with an error status carry no results.
  \<^item> Upstreams: the breaker refines a three-state machine and reopens after its timeout; retries stop at the first
    decisive attempt; the cascade asks the candidates in order and returns the first answer that meets the threshold, or the
    best one; the pool fails over; the connection pool never exceeds its limit.
  \<^item> Admission: the bucket lets through no more than capacity and rate allow; the middleware passes a request on exactly
    when the key is known; contexts stay within their number and separate the keys of queries.
  \<^item> Replication: a peer event is applied, or dropped for the stated reason; a subscriber receives all it asks for; a
    node that joins with room for them ends with copies of the entries of its peer.
  \<^item> Configuration and reload: merging is associative with the defaults as unit; the configuration projected from a file that
    loads is usable, but for lifetimes of zero in a context; the projection keeps exactly the resolved legs; a reload
    commits everything, agents and scopes of contexts included, or, when it fails, only what the theorem lists.
  \<^item> Workers, engine, audit, export: refreshes are requested at most once per hash, the engine is built or fails for
    one of the stated reasons, its memory limit follows the budget, the audit log is a window on the history, rendered dates are those of the Gregorian calendar.
  \<^item> The other interfaces: a gRPC query is served only for an agent that may see its context, and messages keep what both
    sides can express; a paused proxy refuses the queries of the query core, and only those; a warmed query is a hit; eviction from an upstream takes its oldest
    entries; an agent cannot touch the tuning sessions of another, new sessions never take an identifier in use, and the selected
    run is the one that is exported.
  Theorems on behaviour that departs from the documentation (for example \<open>deep_outage_hidden\<close>, \<open>lost_leader_strands\<close>,
  \<open>enforce_memory_limit_may_give_up\<close>, \<open>batch_ignores_breaker\<close>, \<open>grpc_batch_ignores_permissions\<close>,
  \<open>apply_new_context_unloadable\<close>, \<open>peer_lww_compares_arrival_time\<close>) state what the code does.

  \<^bold>\<open>Interfaces.\<close> \<open>store_invariant\<close> (theory \<open>CacheInv\<close>) lifts a property that the primitive updates of the store keep to all
  its operations; it is interpreted for the invariant and for the table of normalised keys. \<open>lossy_map\<close> (\<open>CacheContract\<close>) is
  the contract of a store that may forget, for the operations by query and by hash. \<open>outcome_gate\<close> (\<open>Circuit\<close>) is what
  breaker and resilience manager share: failures count up to a threshold, then the gate rejects. \<open>overlay\<close> and
  \<open>overlay_setting\<close> (\<open>ConfigSections\<close>) are the laws of layered settings, one interpretation per section.

  \<^bold>\<open>Termination.\<close> All functions are total. Eviction loops and the retry loop carry measures. Two loops may run forever and
  are \<open>partial_function (option)\<close>: the trimming of the drift window, which returns exactly when the window may hold an
  observation, and the trimming of the ghost list, which always returns. The rounds of one eviction are bounded by the
  length of the queue, as in the code; nothing else uses fuel except the decimal digits of a number, whose count
  the number itself bounds.

  \<^bold>\<open>Not modelled.\<close> The cargo features \<open>persistence\<close> and \<open>embed-api\<close>, off by default: the embedded database, embeddings, the
  semantic tier of the cache and the vector path of the cascade (a feature that is requested without being built is
  reported as the code does). The backends (\<open>elasticsearch.rs\<close>, \<open>qdrant.rs\<close>, \<open>milvus.rs\<close>, \<open>pinecone.rs\<close>, \<open>meilisearch.rs\<close>,
  \<open>pgvector.rs\<close>), which are clients of network services: they are the adapter argument of pool and cascade. The HTTP routes and
  gRPC calls that only convert modelled state to JSON or protobuf, the streaming variant of a query, the dashboard, tracing and the Prometheus text.
  The spawning of tasks, sockets, signals, sandboxing and the command line, the MCP server, the measurements of
  the tuning tools, and the benchmark programs. Weak memory orderings of atomics: every atomic operation is sequentially consistent here.
\<close>

end
